(* ===== verification/Prelude.thy ===== *)
theory Prelude
  imports Main "HOL-Library.AList" "HOL-Library.Code_Target_Nat"
begin

section \<open>Shared vocabulary: dictionaries, exceptions, results\<close>

text \<open>
  Python's \<open>dict\<close> keeps insertion order and rewrites an existing key in place, which is
  what \<open>AList.update\<close> does on an association list; a dictionary of the model is such a
  list, read with \<open>map_of\<close>. An exception is a value of \<open>pyexn\<close>, and a computation that
  may raise returns \<open>pyexn + 'a\<close>, with \<open>Inl\<close> for the exception.
\<close>

type_synonym ('k, 'v) dict = "('k \<times> 'v) list"

abbreviation dput :: "'k \<Rightarrow> 'v \<Rightarrow> ('k, 'v) dict \<Rightarrow> ('k, 'v) dict" where
  "dput \<equiv> AList.update"

abbreviation wf_dict :: "('k, 'v) dict \<Rightarrow> bool" where
  "wf_dict d \<equiv> distinct (map fst d)"

datatype pyexn =
    ValueError
  | TypeError
  | RuntimeError
  | KeyError
  | PermissionError
  | AttributeError
  | InvalidOperation
  | IntegrityError

type_synonym 'a result = "pyexn + 'a"

text \<open>Python statement sequencing: the first exception ends the computation.\<close>

definition bindE :: "'e + 'a \<Rightarrow> ('a \<Rightarrow> 'e + 'b) \<Rightarrow> 'e + 'b" where
  "bindE r f = (case r of Inl e \<Rightarrow> Inl e | Inr x \<Rightarrow> f x)"

lemma bindE_simps [simp]:
  "bindE (Inl e) f = Inl e"
  "bindE (Inr x) f = f x"
  by (simp_all add: bindE_def)

lemma bindE_Inr_conv: "bindE r f = Inr y \<longleftrightarrow> (\<exists>x. r = Inr x \<and> f x = Inr y)"
  by (cases r) auto

text \<open>A loop over a list that stops at the first exception.\<close>

fun mapE :: "('a \<Rightarrow> 'e + 'b) \<Rightarrow> 'a list \<Rightarrow> 'e + 'b list" where
  "mapE f [] = Inr []"
| "mapE f (x # xs) = bindE (f x) (\<lambda>y. bindE (mapE f xs) (\<lambda>ys. Inr (y # ys)))"

lemma mapE_all_Inr:
  "(\<And>x. x \<in> set xs \<Longrightarrow> f x = Inr (g x)) \<Longrightarrow> mapE f xs = Inr (map g xs)"
  by (induction xs) auto

lemma mapE_Inr_set:
  "mapE f xs = Inr ys \<Longrightarrow> y \<in> set ys \<Longrightarrow> \<exists>x \<in> set xs. f x = Inr y"
  by (induction xs arbitrary: ys) (auto simp: bindE_Inr_conv)

lemma mapE_Inl_ex: "x \<in> set xs \<Longrightarrow> f x = Inl e \<Longrightarrow> \<exists>e'. mapE f xs = Inl e'"
proof (induction xs)
  case Nil
  then show ?case by simp
next
  case (Cons a xs)
  then show ?case by (cases "f a"; cases "mapE f xs") auto
qed

lemma mapE_fst_eq:
  "mapE f xs = Inr ys \<Longrightarrow> (\<And>x y. x \<in> set xs \<Longrightarrow> f x = Inr y \<Longrightarrow> fst y = fst x) \<Longrightarrow>
   map fst ys = map fst xs"
proof (induction xs arbitrary: ys)
  case (Cons x xs)
  then obtain y zs where "f x = Inr y" "mapE f xs = Inr zs" "ys = y # zs"
    by (auto simp: bindE_Inr_conv)
  with Cons.IH [of zs] Cons.prems(2) show ?case by simp
qed simp

lemma find_append: "find P (xs @ ys) = (case find P xs of None \<Rightarrow> find P ys | Some x \<Rightarrow> Some x)"
  by (induction xs) auto

lemma find_SomeD: "find P xs = Some x \<Longrightarrow> x \<in> set xs \<and> P x"
  by (auto simp: find_Some_iff in_set_conv_nth)

subsection \<open>Facts about dictionaries\<close>

lemmas dict_simps = update_conv' distinct_update

lemma map_of_dput [simp]: "map_of (dput k v d) = (map_of d)(k \<mapsto> v)"
  by (simp add: update_conv')

lemma wf_dict_dput [simp]: "wf_dict d \<Longrightarrow> wf_dict (dput k v d)"
  by (rule distinct_update)

lemma dput_new: "map_of d k = None \<Longrightarrow> dput k v d = d @ [(k, v)]"
  by (induction d) (auto split: if_splits)

lemma dput_same: "map_of d k = Some v \<Longrightarrow> dput k v d = d"
  by (induction d) (auto split: if_splits)

lemma dput_dput [simp]: "dput k v (dput k w d) = dput k v d"
  by (induction d) auto

lemma keys_dput_old: "map_of d k = Some w \<Longrightarrow> map fst (dput k v d) = map fst d"
  by (induction d) (auto split: if_splits)

lemma in_set_dput: "(x, y) \<in> set (dput k v d) \<Longrightarrow> (x = k \<and> y = v) \<or> (x, y) \<in> set d"
  by (induction d) (auto split: if_splits)

lemma map_of_in_set: "map_of d k = Some v \<Longrightarrow> (k, v) \<in> set d"
  by (rule map_of_SomeD)

lemma wf_dict_map_of: "wf_dict d \<Longrightarrow> (k, v) \<in> set d \<longleftrightarrow> map_of d k = Some v"
  by (simp add: map_of_eq_Some_iff)

lemma dict_all_dput:
  "(\<forall>(k, v) \<in> set d. P k v) \<Longrightarrow> P k v \<Longrightarrow> \<forall>(k, v) \<in> set (dput k v d). P k v"
  by (auto dest!: in_set_dput)

text \<open>
  Two collections the components add to: how the tables of a store read after an update, and
  the exact effect of a decimal operation.
\<close>

named_theorems store_simps \<open>reading a store after an update\<close>

named_theorems exact_arith \<open>what an accounting operation computes\<close>

text \<open>The total of a weight over the values of a dictionary, and how one update moves it.\<close>

definition dict_sum :: "('v \<Rightarrow> 'a::comm_monoid_add) \<Rightarrow> ('k, 'v) dict \<Rightarrow> 'a" where
  "dict_sum w d = sum_list (map (\<lambda>kv. w (snd kv)) d)"

lemma dict_sum_Nil [simp]: "dict_sum w [] = 0"
  by (simp add: dict_sum_def)

lemma dict_sum_Cons [simp]: "dict_sum w ((k, v) # d) = w v + dict_sum w d"
  by (simp add: dict_sum_def)

lemma dict_sum_dput_new:
  "map_of d k = None \<Longrightarrow> dict_sum w (dput k v d) = dict_sum w d + w v"
  by (simp add: dput_new dict_sum_def)

lemma dict_sum_dput_old:
  fixes w :: "'v \<Rightarrow> 'a::ab_group_add"
  shows "map_of d k = Some u \<Longrightarrow> dict_sum w (dput k v d) = dict_sum w d - w u + w v"
  by (induction d) (auto split: if_splits simp: algebra_simps)

lemma dict_sum_nonneg:
  fixes w :: "'v \<Rightarrow> 'a::ordered_comm_monoid_add"
  shows "(\<And>k v. (k, v) \<in> set d \<Longrightarrow> 0 \<le> w v) \<Longrightarrow> 0 \<le> dict_sum w d"
proof (induction d)
  case (Cons p d)
  obtain k v where p: "p = (k, v)" by (cases p)
  have "0 \<le> w v" using Cons.prems [of k v] p by simp
  moreover have "0 \<le> dict_sum w d" by (rule Cons.IH) (use Cons.prems in auto)
  ultimately show ?case by (simp add: p add_nonneg_nonneg)
qed simp

lemma dict_sum_member_le:
  fixes w :: "'v \<Rightarrow> 'a::{ordered_comm_monoid_add}"
  assumes "map_of d k = Some v" and "\<And>k v. (k, v) \<in> set d \<Longrightarrow> 0 \<le> w v"
  shows "w v \<le> dict_sum w d"
  using assms
proof (induction d)
  case Nil
  then show ?case by simp
next
  case (Cons p d)
  obtain k' v' where p: "p = (k', v')" by (cases p)
  have pos: "0 \<le> w v'" "0 \<le> dict_sum w d"
    using Cons.prems(2) p by (auto intro!: dict_sum_nonneg)
  show ?case
  proof (cases "k' = k")
    case True
    with Cons.prems p have "v' = v" by simp
    with p pos show ?thesis by (simp add: add_increasing2)
  next
    case False
    with Cons p have "w v \<le> dict_sum w d" by auto
    with p pos show ?thesis by (simp add: add_increasing)
  qed
qed

subsection \<open>Patterns of identifiers and digests\<close>

text \<open>The patterns \<open>[0-9a-f]{64}\<close> and \<open>[A-Za-z0-9][A-Za-z0-9._:-]{0,127}\<close>.\<close>

definition char_in :: "nat \<Rightarrow> nat \<Rightarrow> char \<Rightarrow> bool" where
  "char_in lo hi c \<longleftrightarrow> lo \<le> of_char c \<and> of_char c \<le> hi"

definition hex64 :: "string \<Rightarrow> bool" where
  "hex64 s \<longleftrightarrow> length s = 64 \<and> list_all (\<lambda>c. char_in 48 57 c \<or> char_in 97 102 c) s"

definition commit_id_ok :: "string \<Rightarrow> bool" where
  "commit_id_ok s \<longleftrightarrow>
     (let alnum = (\<lambda>c. char_in 65 90 c \<or> char_in 97 122 c \<or> char_in 48 57 c) in
      s \<noteq> [] \<and> length s \<le> 128 \<and> alnum (hd s) \<and>
      list_all (\<lambda>c. alnum c \<or> c \<in> {CHR ''.'', CHR ''_'', CHR '':'', CHR ''-''}) (tl s))"

text \<open>\<open>str (n)\<close> of a number that is not negative, and of any integer.\<close>

fun nat_str :: "nat \<Rightarrow> string" where
  "nat_str n = (if n < 10 then [char_of (48 + n)] else nat_str (n div 10) @ [char_of (48 + n mod 10)])"

declare nat_str.simps [simp del]

definition int_str :: "int \<Rightarrow> string" where
  "int_str k = (if k < 0 then CHR 0x2D # nat_str (nat (- k)) else nat_str (nat k))"

lemma nat_str_inj: "nat_str m = nat_str n \<Longrightarrow> m = n"
proof (induction m arbitrary: n rule: nat_str.induct)
  case (1 m)
  have digit: "char_of (48 + a) = (char_of (48 + b) :: char) \<Longrightarrow> a = b" if "a < 10" "b < 10" for a b :: nat
  proof -
    assume "char_of (48 + a) = (char_of (48 + b) :: char)"
    then have "of_char (char_of (48 + a) :: char) = (of_char (char_of (48 + b) :: char) :: nat)" by simp
    with that show "a = b" by (simp add: of_char_of take_bit_eq_mod)
  qed
  have ne: "nat_str k \<noteq> []" for k by (subst nat_str.simps) simp
  show ?case
  proof (cases "m < 10"; cases "n < 10")
    assume "m < 10" "n < 10"
    with 1(2) digit show ?thesis by (simp add: nat_str.simps [of m] nat_str.simps [of n])
  next
    assume "m < 10" "\<not> n < 10"
    with 1(2) ne [of "n div 10"] show ?thesis by (simp add: nat_str.simps [of m] nat_str.simps [of n])
  next
    assume "\<not> m < 10" "n < 10"
    with 1(2) ne [of "m div 10"] show ?thesis by (simp add: nat_str.simps [of m] nat_str.simps [of n])
  next
    assume big: "\<not> m < 10" "\<not> n < 10"
    with 1(2) have "nat_str (m div 10) = nat_str (n div 10)"
      "char_of (48 + m mod 10) = (char_of (48 + n mod 10) :: char)"
      by (simp_all add: nat_str.simps [of m] nat_str.simps [of n])
    with 1(1) [OF big(1)] digit [of "m mod 10" "n mod 10"] have "m div 10 = n div 10" "m mod 10 = n mod 10"
      by simp_all
    then show ?thesis by (metis div_mult_mod_eq)
  qed
qed

end
