(* ===== verification/Py_Decimal.thy ===== *)
theory Py_Decimal
  imports Complex_Main Prelude
begin

section \<open>Decimal accounting values\<close>

text \<open>
  Finite \<open>decimal.Decimal\<close> values and the four helpers of
  \<open>tenir_governance/operations/budget.py\<close> that every ledger counter passes through. A
  finite Decimal is its triple: an integer coefficient (the sign folded into it, so the two
  signed zeros are one value here) and an exponent. Two Decimals may be numerically equal and
  still differ as triples, and so as text: \<open>0\<close> and \<open>0.0\<close>. That difference matters where
  the code compares snapshots as strings, so the model keeps the triple and reads its value
  with \<open>dval\<close>. Infinities and NaN reach the code only as inputs, and stay there.
\<close>

datatype dec = Dec (coef: int) (expo: int)

text \<open>What \<open>Decimal(str(value))\<close>, or a \<open>Decimal\<close> passed in, turns an amount into.\<close>

datatype amount_in =
    ABool bool        \<comment> \<open>a Python \<open>bool\<close>\<close>
  | AMalformed        \<comment> \<open>text the Decimal parser rejects\<close>
  | ANonFinite        \<comment> \<open>an infinity or a NaN\<close>
  | AFin dec

definition dval :: "dec \<Rightarrow> rat" where
  "dval d = of_int (coef d) * 10 powi expo d"

fun ndigits :: "nat \<Rightarrow> nat" where
  "ndigits n = (if n < 10 then 1 else Suc (ndigits (n div 10)))"

declare ndigits.simps [simp del]

definition ddigits :: "dec \<Rightarrow> nat" where
  "ddigits d = ndigits (nat \<bar>coef d\<bar>)"

text \<open>\<open>Decimal.adjusted\<close>: the exponent of the leading digit.\<close>

definition adjusted :: "dec \<Rightarrow> int" where
  "adjusted d = expo d + int (ddigits d) - 1"

text \<open>Comparison aligns both coefficients at the smaller exponent.\<close>

definition dalign :: "dec \<Rightarrow> int \<Rightarrow> int" where
  "dalign d m = coef d * 10 ^ nat (expo d - m)"

definition dle :: "dec \<Rightarrow> dec \<Rightarrow> bool" where
  "dle a b = (let m = min (expo a) (expo b) in dalign a m \<le> dalign b m)"

definition dlt :: "dec \<Rightarrow> dec \<Rightarrow> bool" where
  "dlt a b = (let m = min (expo a) (expo b) in dalign a m < dalign b m)"

definition deq :: "dec \<Rightarrow> dec \<Rightarrow> bool" where
  "deq a b = (let m = min (expo a) (expo b) in dalign a m = dalign b m)"

definition dzero :: dec where
  "dzero = Dec 0 0"

text \<open>Python's \<open>max(Decimal("0"), x)\<close> returns its first argument on a tie.\<close>

definition dmax0 :: "dec \<Rightarrow> dec" where
  "dmax0 x = (if dlt dzero x then x else dzero)"

subsection \<open>The accounting helpers\<close>

definition MAX_DECIMAL_DIGITS :: nat where
  "MAX_DECIMAL_DIGITS = 128"

definition MAX_DECIMAL_EXPONENT :: int where
  "MAX_DECIMAL_EXPONENT = 128"

definition MAX_DECIMAL_ADJUSTED :: int where
  "MAX_DECIMAL_ADJUSTED = 128"

definition validate_decimal_bounds :: "dec \<Rightarrow> dec result" where
  "validate_decimal_bounds d =
     (if ddigits d > MAX_DECIMAL_DIGITS
         \<or> \<bar>expo d\<bar> > MAX_DECIMAL_EXPONENT
         \<or> (coef d \<noteq> 0 \<and> adjusted d > MAX_DECIMAL_ADJUSTED)
      then Inl ValueError else Inr d)"

text \<open>An operand the precision helper accepts; it ignores zeros.\<close>

definition arith_ok :: "dec \<Rightarrow> bool" where
  "arith_ok d \<longleftrightarrow>
     coef d = 0 \<or> (\<bar>expo d\<bar> \<le> MAX_DECIMAL_EXPONENT \<and> adjusted d \<le> MAX_DECIMAL_ADJUSTED)"

definition decimal_precision :: "dec list \<Rightarrow> int result" where
  "decimal_precision values =
     (if values = [] then Inr 28
      else
        let nonzero_values = filter (\<lambda>v. coef v \<noteq> 0) values in
        if \<exists>v \<in> set nonzero_values. \<not> arith_ok v then Inl ValueError
        else if nonzero_values = [] then Inr 28
        else
          let highest_adjusted = Max (set (map adjusted nonzero_values));
              lowest_exponent = Min (set (map expo nonzero_values))
          in Inr (max 28 (highest_adjusted - lowest_exponent + 2)))"

text \<open>
  Decimal addition in a context of precision \<open>p\<close>: the exact sum at the smaller exponent,
  then \<open>dec_fix\<close>, which rounds half to even when the coefficient has more than \<open>p\<close> digits.
\<close>

definition dec_fix :: "nat \<Rightarrow> dec \<Rightarrow> dec" where
  "dec_fix p d =
     (if ddigits d \<le> p then d
      else
        let k = ddigits d - p;
            n = nat \<bar>coef d\<bar>;
            q = n div 10 ^ k;
            r = n mod 10 ^ k;
            q' = (if 2 * r > 10 ^ k \<or> (2 * r = 10 ^ k \<and> odd q) then q + 1 else q)
        in if ndigits q' > p
           then Dec (sgn (coef d) * int (q' div 10)) (expo d + int k + 1)
           else Dec (sgn (coef d) * int q') (expo d + int k))"

definition dadd_exact :: "dec \<Rightarrow> dec \<Rightarrow> dec" where
  "dadd_exact a b = (let m = min (expo a) (expo b) in Dec (dalign a m + dalign b m) m)"

definition dneg :: "dec \<Rightarrow> dec" where
  "dneg d = Dec (- coef d) (expo d)"

definition decimal_add :: "dec \<Rightarrow> dec \<Rightarrow> dec result" where
  "decimal_add left right =
     bindE (decimal_precision [left, right])
       (\<lambda>p. Inr (dec_fix (nat p) (dadd_exact left right)))"

definition decimal_subtract :: "dec \<Rightarrow> dec \<Rightarrow> dec result" where
  "decimal_subtract left right =
     bindE (decimal_precision [left, right])
       (\<lambda>p. Inr (dec_fix (nat p) (dadd_exact left (dneg right))))"

text \<open>\<open>DurableBudgetCoordinator._decimal\<close>: the strict boundary for caller values.\<close>

fun to_decimal :: "amount_in \<Rightarrow> dec result" where
  "to_decimal (ABool b) = Inl InvalidOperation"
| "to_decimal AMalformed = Inl InvalidOperation"
| "to_decimal ANonFinite = Inl TypeError"
| "to_decimal (AFin d) = validate_decimal_bounds d"

subsection \<open>Values and comparisons\<close>

lemma pow10_sign [simp]:
  "(0::rat) < 10 powi e"
  "\<not> (10::rat) powi e < 0"
  "\<not> (10::rat) powi e \<le> 0"
proof -
  show "(0::rat) < 10 powi e" by (simp add: zero_less_power_int)
  then show "\<not> (10::rat) powi e < 0" "\<not> (10::rat) powi e \<le> 0"
    by (simp_all only: not_less not_le less_imp_le)
qed

lemma pow10_shift: "(10::rat) powi (int k + m) = 10 ^ k * 10 powi m"
  by (simp add: power_int_add)

lemma dval_align:
  assumes "m \<le> expo d"
  shows "dval d = of_int (dalign d m) * 10 powi m"
proof -
  have "expo d = int (nat (expo d - m)) + m" using assms by simp
  then have "(10::rat) powi expo d = 10 ^ nat (expo d - m) * 10 powi m"
    by (metis pow10_shift)
  then show ?thesis by (simp add: dval_def dalign_def)
qed

lemma dle_dval: "dle a b \<longleftrightarrow> dval a \<le> dval b"
  using dval_align [of "min (expo a) (expo b)" a] dval_align [of "min (expo a) (expo b)" b]
  by (simp add: dle_def Let_def mult_le_cancel_right)

lemma dlt_dval: "dlt a b \<longleftrightarrow> dval a < dval b"
  using dval_align [of "min (expo a) (expo b)" a] dval_align [of "min (expo a) (expo b)" b]
  by (simp add: dlt_def Let_def mult_less_cancel_right)

lemma deq_dval: "deq a b \<longleftrightarrow> dval a = dval b"
  using dval_align [of "min (expo a) (expo b)" a] dval_align [of "min (expo a) (expo b)" b]
  by (simp add: deq_def Let_def)

lemmas dcompare = dle_dval dlt_dval deq_dval

lemma dval_zero [simp]: "dval dzero = 0"
  by (simp add: dval_def dzero_def)

lemma dval_eq_0: "dval d = 0 \<longleftrightarrow> coef d = 0"
  by (simp add: dval_def)

lemma dval_coef_0 [simp]: "coef d = 0 \<Longrightarrow> dval d = 0"
  by (simp add: dval_def)

lemma dval_pos_coef: "0 < dval d \<longleftrightarrow> 0 < coef d"
  by (simp add: dval_def zero_less_mult_iff)

lemma dval_dneg [simp]: "dval (dneg d) = - dval d"
  by (simp add: dval_def dneg_def)

lemma dval_dadd_exact: "dval (dadd_exact a b) = dval a + dval b"
proof -
  let ?m = "min (expo a) (expo b)"
  have "dval (dadd_exact a b) = of_int (dalign a ?m + dalign b ?m) * 10 powi ?m"
    by (simp add: dadd_exact_def Let_def dval_def)
  also have "\<dots> = of_int (dalign a ?m) * 10 powi ?m + of_int (dalign b ?m) * 10 powi ?m"
    by (simp add: distrib_right)
  also have "\<dots> = dval a + dval b"
    by (simp add: dval_align [symmetric])
  finally show ?thesis .
qed

lemma dval_dmax0 [simp]: "dval (dmax0 d) = max 0 (dval d)"
  by (simp add: dmax0_def dlt_dval)

subsection \<open>Digit counts\<close>

lemma ndigits_pos [simp]: "0 < ndigits n"
  by (subst ndigits.simps) simp

lemma less_pow_ndigits: "n < 10 ^ ndigits n"
proof (induction n rule: ndigits.induct)
  case (1 n)
  show ?case
  proof (cases "n < 10")
    case True
    then show ?thesis by (subst ndigits.simps) simp
  next
    case False
    with "1.IH" have "n div 10 < 10 ^ ndigits (n div 10)" by simp
    then have "n < 10 * 10 ^ ndigits (n div 10)" by simp
    with False show ?thesis by (simp add: ndigits.simps [of n])
  qed
qed

lemma pow_ndigits_le: "0 < n \<Longrightarrow> 10 ^ (ndigits n - 1) \<le> n"
proof (induction n rule: ndigits.induct)
  case (1 n)
  show ?case
  proof (cases "n < 10")
    case True
    with "1.prems" show ?thesis by (subst ndigits.simps) simp
  next
    case False
    then have "0 < n div 10" by (simp add: div_greater_zero_iff)
    with "1.IH" False have "10 ^ (ndigits (n div 10) - 1) \<le> n div 10" by simp
    then have "10 * 10 ^ (ndigits (n div 10) - 1) \<le> n" by simp
    moreover have "10 * 10 ^ (ndigits (n div 10) - 1) = (10::nat) ^ ndigits (n div 10)"
      by (metis Suc_diff_1 ndigits_pos power_Suc)
    ultimately show ?thesis using False by (simp add: ndigits.simps [of n])
  qed
qed

lemma ndigits_le_iff:
  assumes "0 < k"
  shows "ndigits n \<le> k \<longleftrightarrow> n < 10 ^ k"
proof
  assume "ndigits n \<le> k"
  then have "(10::nat) ^ ndigits n \<le> 10 ^ k" by (simp add: power_increasing)
  with less_pow_ndigits show "n < 10 ^ k" by (rule less_le_trans)
next
  assume n: "n < 10 ^ k"
  show "ndigits n \<le> k"
  proof (cases "n = 0")
    case True
    with assms show ?thesis by (subst ndigits.simps) simp
  next
    case False
    then have "(10::nat) ^ (ndigits n - 1) < 10 ^ k"
      using pow_ndigits_le [of n] n by (meson le_less_trans neq0_conv)
    then have "ndigits n - 1 < k" by (rule power_less_imp_less_exp [rotated]) simp
    then show ?thesis by simp
  qed
qed

lemma ndigits_div_pow:
  assumes "k < ndigits n"
  shows "ndigits (n div 10 ^ k) = ndigits n - k"
  using assms
proof (induction k arbitrary: n)
  case 0
  then show ?case by simp
next
  case (Suc k)
  then have "\<not> n < 10" by (metis One_nat_def less_numeral_extra(4) not_less_eq ndigits.simps less_Suc_eq_0_disj nat_neq_iff)
  then have eq: "ndigits n = Suc (ndigits (n div 10))" by (simp add: ndigits.simps [of n])
  with Suc.prems have "k < ndigits (n div 10)" by simp
  from Suc.IH [OF this] show ?case by (simp add: eq div_mult2_eq)
qed

lemma coef_less_pow: "\<bar>coef d\<bar> < 10 ^ ddigits d"
proof -
  have "nat \<bar>coef d\<bar> < 10 ^ ddigits d"
    unfolding ddigits_def by (rule less_pow_ndigits)
  then have "int (nat \<bar>coef d\<bar>) < int (10 ^ ddigits d)" by (simp only: of_nat_less_iff)
  then show ?thesis by simp
qed

text \<open>The magnitude of a value is bounded by its adjusted exponent, and bounds it.\<close>

lemma abs_dval: "\<bar>dval d\<bar> = of_int \<bar>coef d\<bar> * 10 powi expo d"
  by (simp add: dval_def abs_mult power_int_abs)

lemma dval_less_adjusted: "\<bar>dval d\<bar> < 10 powi (adjusted d + 1)"
proof -
  have "of_int \<bar>coef d\<bar> < (of_int (10 ^ ddigits d) :: rat)"
    using coef_less_pow by (simp only: of_int_less_iff)
  then have "of_int \<bar>coef d\<bar> * 10 powi expo d < (10 :: rat) ^ ddigits d * 10 powi expo d"
    by (simp add: mult_less_cancel_right)
  also have "\<dots> = 10 powi (int (ddigits d) + expo d)"
    by (simp add: power_int_add)
  finally show ?thesis by (simp add: abs_dval adjusted_def add.commute)
qed

lemma adjusted_le_dval:
  assumes "coef d \<noteq> 0"
  shows "10 powi adjusted d \<le> \<bar>dval d\<bar>"
proof -
  have "10 ^ (ddigits d - 1) \<le> nat \<bar>coef d\<bar>"
    unfolding ddigits_def by (rule pow_ndigits_le) (use assms in simp)
  then have "int (10 ^ (ddigits d - 1)) \<le> int (nat \<bar>coef d\<bar>)" by (simp only: of_nat_le_iff)
  then have "(10::int) ^ (ddigits d - 1) \<le> \<bar>coef d\<bar>" by simp
  then have "of_int (10 ^ (ddigits d - 1)) \<le> (of_int \<bar>coef d\<bar> :: rat)" by (simp only: of_int_le_iff)
  then have le: "(10::rat) ^ (ddigits d - 1) * 10 powi expo d \<le> of_int \<bar>coef d\<bar> * 10 powi expo d"
    by (simp add: mult_le_cancel_right)
  have "adjusted d = int (ddigits d - 1) + expo d"
    by (simp add: adjusted_def ddigits_def of_nat_diff Suc_leI)
  then have "10 powi adjusted d = (10::rat) ^ (ddigits d - 1) * 10 powi expo d"
    by (simp add: power_int_add)
  with le show ?thesis by (simp add: abs_dval)
qed

lemma adjusted_less_of_dval:
  assumes "coef d \<noteq> 0" and "\<bar>dval d\<bar> < 10 powi k"
  shows "adjusted d < k"
proof -
  have "(10::rat) powi adjusted d < 10 powi k"
    using adjusted_le_dval [OF assms(1)] assms(2) by simp
  then show ?thesis
    by (meson linorder_not_less power_int_increasing one_le_numeral)
qed

subsection \<open>The accounting helpers are exact\<close>

text \<open>
  \<open>dec_fix\<close> changes nothing of the value when the digits it drops are zeros; with the
  precision \<open>decimal_precision\<close> chooses they always are, so no counter is ever rounded.
\<close>

lemma dec_fix_short: "ddigits d \<le> p \<Longrightarrow> dec_fix p d = d"
  by (simp add: dec_fix_def)

lemma dec_fix_zeros:
  assumes "0 < p" and "p < ddigits d" and "10 ^ (ddigits d - p) dvd nat \<bar>coef d\<bar>"
  shows "dec_fix p d = Dec (sgn (coef d) * int (nat \<bar>coef d\<bar> div 10 ^ (ddigits d - p)))
                           (expo d + int (ddigits d - p))"
proof -
  let ?n = "nat \<bar>coef d\<bar>" and ?k = "ddigits d - p"
  have r: "?n mod 10 ^ ?k = 0" using assms(3) by (simp add: dvd_eq_mod_eq_0)
  have "?k < ndigits ?n" using assms(1,2) by (simp add: ddigits_def)
  then have "ndigits (?n div 10 ^ ?k) = ndigits ?n - ?k" by (rule ndigits_div_pow)
  also have "\<dots> = p" using assms(2) by (simp add: ddigits_def)
  finally show ?thesis using assms(2) r by (simp add: dec_fix_def Let_def)
qed

lemma dval_dec_fix_zeros:
  assumes "0 < p" and "p < ddigits d" and "10 ^ (ddigits d - p) dvd nat \<bar>coef d\<bar>"
  shows "dval (dec_fix p d) = dval d"
proof -
  let ?n = "nat \<bar>coef d\<bar>" and ?k = "ddigits d - p"
  have "?n = ?n div 10 ^ ?k * 10 ^ ?k" using assms(3) by simp
  then have "int ?n = int (?n div 10 ^ ?k) * 10 ^ ?k"
    by (metis of_nat_mult of_nat_numeral of_nat_power)
  then have c: "coef d = sgn (coef d) * int (?n div 10 ^ ?k) * 10 ^ ?k"
    by (metis mult.assoc sgn_mult_abs mult.commute int_nat_eq abs_ge_zero)
  have "of_int (coef d) = (of_int (sgn (coef d) * int (?n div 10 ^ ?k)) :: rat) * 10 ^ ?k"
    by (subst c) simp
  moreover have "(10::rat) powi (expo d + int ?k) = 10 ^ ?k * 10 powi expo d"
    by (metis add.commute pow10_shift)
  ultimately show ?thesis
    unfolding dec_fix_zeros [OF assms] dval_def by simp
qed

lemma decimal_precision_pair:
  "decimal_precision [a, b] =
     (if arith_ok a \<and> arith_ok b then
        Inr (if coef a = 0 \<and> coef b = 0 then 28
             else if coef a = 0 then max 28 (adjusted b - expo b + 2)
             else if coef b = 0 then max 28 (adjusted a - expo a + 2)
             else max 28 (max (adjusted a) (adjusted b) - min (expo a) (expo b) + 2))
      else Inl ValueError)"
  by (auto simp: decimal_precision_def Let_def arith_ok_def)

lemma arith_ok_dneg [simp]: "arith_ok (dneg d) = arith_ok d"
  by (simp add: arith_ok_def dneg_def adjusted_def ddigits_def)

lemma dneg_simps [simp]:
  "expo (dneg d) = expo d" "adjusted (dneg d) = adjusted d" "coef (dneg d) = 0 \<longleftrightarrow> coef d = 0"
  by (simp_all add: dneg_def adjusted_def ddigits_def)

lemma decimal_subtract_add: "decimal_subtract a b = decimal_add a (dneg b)"
  by (simp add: decimal_subtract_def decimal_add_def decimal_precision_pair)

text \<open>Both operands non-zero: the exact sum has at most \<open>p\<close> digits.\<close>

lemma ddigits_dadd_le:
  assumes "coef a \<noteq> 0" and "coef b \<noteq> 0"
    and p: "p = nat (max 28 (max (adjusted a) (adjusted b) - min (expo a) (expo b) + 2))"
  shows "ddigits (dadd_exact a b) \<le> p"
proof -
  let ?m = "min (expo a) (expo b)" and ?H = "max (adjusted a) (adjusted b)"
  let ?s = "dadd_exact a b"
  have pH: "?H + 2 \<le> int p + ?m" using p by linarith
  have p0: "0 < p" using p by simp
  have up: "\<bar>dval x\<bar> < 10 powi (?H + 1)" if "x = a \<or> x = b" for x
  proof -
    have "(10::rat) powi (adjusted x + 1) \<le> 10 powi (?H + 1)"
      by (rule power_int_increasing) (use that in auto)
    with dval_less_adjusted [of x] show ?thesis by simp
  qed
  have "\<bar>dval ?s\<bar> \<le> \<bar>dval a\<bar> + \<bar>dval b\<bar>" by (simp add: dval_dadd_exact)
  also have "\<dots> < 2 * 10 powi (?H + 1)" using up [of a] up [of b] by simp
  also have "\<dots> \<le> 10 * 10 powi (?H + 1)" by simp
  also have "\<dots> = 10 powi (?H + 2)"
    using pow10_shift [of 1 "?H + 1"] by (simp add: add.commute)
  also have "\<dots> \<le> 10 powi (int p + ?m)"
    by (rule power_int_increasing) (use pH in auto)
  finally have "\<bar>dval ?s\<bar> < 10 ^ p * 10 powi ?m" by (simp only: pow10_shift)
  moreover have "expo ?s = ?m" by (simp add: dadd_exact_def Let_def)
  ultimately have "of_int \<bar>coef ?s\<bar> < (10 :: rat) ^ p"
    by (simp add: abs_dval)
  then have "of_int \<bar>coef ?s\<bar> < (of_int (10 ^ p) :: rat)" by simp
  then have "\<bar>coef ?s\<bar> < 10 ^ p" by (simp only: of_int_less_iff)
  then have "nat \<bar>coef ?s\<bar> < 10 ^ p" by (simp add: nat_less_iff)
  with p0 show ?thesis by (simp add: ddigits_def ndigits_le_iff)
qed

text \<open>One operand zero: the sum is the other operand with trailing zeros, and rounding drops only those.\<close>

lemma dadd_exact_commute: "dadd_exact a b = dadd_exact b a"
  by (simp add: dadd_exact_def Let_def min.commute add.commute)

lemma dadd_exact_zero:
  assumes "coef a = 0"
  shows "dadd_exact a b = Dec (coef b * 10 ^ nat (expo b - min (expo a) (expo b))) (min (expo a) (expo b))"
  using assms by (simp add: dadd_exact_def Let_def dalign_def)

lemma ddigits_shift: "ddigits (Dec (c * 10 ^ k) e) \<le> ddigits (Dec c e') + k"
proof -
  have "\<bar>c\<bar> < 10 ^ ddigits (Dec c e')"
    using coef_less_pow [of "Dec c e'"] by simp
  then have "\<bar>c\<bar> * 10 ^ k < 10 ^ (ddigits (Dec c e') + k)"
    by (simp add: power_add)
  then have "nat \<bar>c * 10 ^ k\<bar> < 10 ^ (ddigits (Dec c e') + k)"
    by (simp add: abs_mult nat_less_iff)
  then show ?thesis
    by (simp add: ddigits_def ndigits_le_iff)
qed

lemma dec_fix_zero_operand:
  assumes a: "coef a = 0" and b: "coef b \<noteq> 0"
    and p: "p = nat (max 28 (adjusted b - expo b + 2))"
  shows "dval (dec_fix p (dadd_exact a b)) = dval b \<and>
         expo (dec_fix p (dadd_exact a b)) \<in> {min (expo a) (expo b) .. expo b}"
proof -
  let ?m = "min (expo a) (expo b)" and ?s = "dadd_exact a b"
  let ?k = "nat (expo b - ?m)"
  have s: "?s = Dec (coef b * 10 ^ ?k) ?m" by (rule dadd_exact_zero [OF a])
  have "dval a = 0" using a by simp
  then have val: "dval ?s = dval b" by (simp add: dval_dadd_exact)
  have "ddigits ?s \<le> ddigits b + ?k"
    using ddigits_shift [of "coef b" ?k ?m "expo b"] by (simp add: s)
  moreover have "ddigits b \<le> p" using p by (simp add: adjusted_def)
  ultimately have drop: "ddigits ?s - p \<le> ?k" by simp
  show ?thesis
  proof (cases "ddigits ?s \<le> p")
    case True
    then show ?thesis using val s by (simp add: dec_fix_short)
  next
    case False
    have dvd: "10 ^ (ddigits ?s - p) dvd nat \<bar>coef ?s\<bar>"
    proof -
      have "nat \<bar>coef ?s\<bar> = nat \<bar>coef b\<bar> * 10 ^ ?k"
        by (simp add: s abs_mult nat_mult_distrib)
      with drop show ?thesis by (simp add: le_imp_power_dvd dvd_mult)
    qed
    have "0 < p" using p by simp
    with False dvd have "dval (dec_fix p ?s) = dval ?s"
      by (intro dval_dec_fix_zeros) simp_all
    moreover have "expo (dec_fix p ?s) = ?m + int (ddigits ?s - p)"
      using dec_fix_zeros [of p ?s] \<open>0 < p\<close> False dvd by (simp add: s)
    ultimately show ?thesis using val drop by auto
  qed
qed

lemma decimal_add_cases:
  assumes "decimal_add a b = Inr s"
  shows "dval s = dval a + dval b \<and>
         expo s \<in> {min (expo a) (expo b) .. max (expo a) (expo b)}"
proof -
  from assms obtain p where ok: "arith_ok a" "arith_ok b"
    and p: "decimal_precision [a, b] = Inr p" and s: "s = dec_fix (nat p) (dadd_exact a b)"
    by (auto simp: decimal_add_def bindE_Inr_conv decimal_precision_pair split: if_splits)
  consider (both) "coef a = 0" "coef b = 0" | (left) "coef a = 0" "coef b \<noteq> 0"
    | (right) "coef a \<noteq> 0" "coef b = 0" | (none) "coef a \<noteq> 0" "coef b \<noteq> 0" by blast
  then show ?thesis
  proof cases
    case both
    have "dadd_exact a b = Dec 0 (min (expo a) (expo b))"
      using both by (simp add: dadd_exact_zero)
    moreover have "ddigits (Dec 0 e) \<le> nat p" for e
      using p ok both by (simp add: ddigits_def decimal_precision_pair ndigits.simps)
    ultimately show ?thesis using s both by (simp add: dec_fix_short dval_def)
  next
    case left
    with p ok have "nat p = nat (max 28 (adjusted b - expo b + 2))"
      by (simp add: decimal_precision_pair)
    from dec_fix_zero_operand [OF left this] left s show ?thesis by (auto simp: dval_def)
  next
    case right
    with p ok have "nat p = nat (max 28 (adjusted a - expo a + 2))"
      by (simp add: decimal_precision_pair)
    from dec_fix_zero_operand [OF right(2,1) this] right s show ?thesis
      by (auto simp: dval_def dadd_exact_commute [of a b] min.commute)
  next
    case none
    with p ok have "nat p = nat (max 28 (max (adjusted a) (adjusted b) - min (expo a) (expo b) + 2))"
      by (simp add: decimal_precision_pair)
    from ddigits_dadd_le [OF none this] have "s = dadd_exact a b" using s by (simp add: dec_fix_short)
    then show ?thesis by (simp add: dval_dadd_exact) (simp add: dadd_exact_def Let_def)
  qed
qed

text \<open>Operands in range: exponent within bounds and magnitude below \<open>10 ^ 129\<close>.\<close>

definition decimal_limit :: rat where
  "decimal_limit = 10 powi 129"

definition in_range :: "dec \<Rightarrow> bool" where
  "in_range d \<longleftrightarrow> \<bar>expo d\<bar> \<le> MAX_DECIMAL_EXPONENT \<and> \<bar>dval d\<bar> < decimal_limit"

lemma decimal_limit_pos [simp]: "0 < decimal_limit"
  unfolding decimal_limit_def by (rule pow10_sign)

lemma in_range_arith_ok:
  assumes "in_range d"
  shows "arith_ok d"
proof (cases "coef d = 0")
  case False
  then have "adjusted d < 129"
    by (rule adjusted_less_of_dval) (use assms in \<open>simp only: in_range_def decimal_limit_def\<close>)
  with assms show ?thesis by (simp add: in_range_def arith_ok_def MAX_DECIMAL_ADJUSTED_def)
qed (simp add: arith_ok_def)

lemma in_range_zero [simp]: "in_range dzero"
  by (simp add: in_range_def) (simp add: dzero_def MAX_DECIMAL_EXPONENT_def)

lemma in_range_dneg [simp]: "in_range (dneg d) = in_range d"
  by (simp add: in_range_def)

lemma decimal_add_Inr:
  assumes "arith_ok a" and "arith_ok b"
  obtains s where "decimal_add a b = Inr s"
  using assms by (auto simp: decimal_add_def decimal_precision_pair)

lemma decimal_add_in_range:
  assumes "in_range a" and "in_range b" and "\<bar>dval a + dval b\<bar> < decimal_limit"
  obtains s where "decimal_add a b = Inr s" and "dval s = dval a + dval b" and "in_range s"
proof -
  obtain s where s: "decimal_add a b = Inr s"
    using decimal_add_Inr in_range_arith_ok assms(1,2) by blast
  note c = decimal_add_cases [OF s]
  moreover have "in_range s"
    using c assms by (auto simp: in_range_def)
  ultimately show thesis using that s by blast
qed

lemma decimal_subtract_in_range:
  assumes "in_range a" and "in_range b" and "\<bar>dval a - dval b\<bar> < decimal_limit"
  obtains s where "decimal_subtract a b = Inr s" and "dval s = dval a - dval b" and "in_range s"
  using decimal_add_in_range [of a "dneg b"] assms by (auto simp: decimal_subtract_add)

lemma decimal_add_dval [exact_arith]: "decimal_add a b = Inr s \<Longrightarrow> dval s = dval a + dval b"
  using decimal_add_cases by blast

lemma decimal_subtract_dval [exact_arith]: "decimal_subtract a b = Inr s \<Longrightarrow> dval s = dval a - dval b"
  using decimal_add_cases [of a "dneg b" s] by (simp add: decimal_subtract_add)

lemma validate_in_range:
  assumes "validate_decimal_bounds d = Inr d'"
  shows "d' = d \<and> in_range d"
proof -
  from assms have d: "d' = d" "\<bar>expo d\<bar> \<le> 128" "coef d \<noteq> 0 \<Longrightarrow> adjusted d \<le> 128"
    by (auto simp: validate_decimal_bounds_def MAX_DECIMAL_EXPONENT_def MAX_DECIMAL_ADJUSTED_def
        split: if_splits)
  have "\<bar>dval d\<bar> < decimal_limit"
  proof (cases "coef d = 0")
    case True
    then have "dval d = 0" by simp
    then show ?thesis by simp
  next
    case False
    have "(10::rat) powi (adjusted d + 1) \<le> decimal_limit"
      unfolding decimal_limit_def by (rule power_int_increasing) (use d False in auto)
    with dval_less_adjusted [of d] show ?thesis by simp
  qed
  with d show ?thesis by (simp add: in_range_def MAX_DECIMAL_EXPONENT_def)
qed

lemma to_decimal_Inr:
  assumes "to_decimal x = Inr d"
  shows "x = AFin d \<and> in_range d \<and> validate_decimal_bounds d = Inr d"
  using assms validate_in_range by (cases x) auto

lemma dneg_zero_simp [simp]: "coef dzero = 0" "expo dzero = 0"
  by (simp_all add: dzero_def)

text \<open>A sum of non-zero operands keeps the smaller exponent, so it can be long.\<close>

lemma decimal_add_nonzero:
  assumes "coef a \<noteq> 0" and "coef b \<noteq> 0" and "decimal_add a b = Inr s"
  shows "s = dadd_exact a b"
proof -
  from assms obtain p where ok: "arith_ok a" "arith_ok b"
    and p: "decimal_precision [a, b] = Inr p" and s: "s = dec_fix (nat p) (dadd_exact a b)"
    by (auto simp: decimal_add_def bindE_Inr_conv decimal_precision_pair split: if_splits)
  with assms have "nat p = nat (max 28 (max (adjusted a) (adjusted b) - min (expo a) (expo b) + 2))"
    by (simp add: decimal_precision_pair)
  from ddigits_dadd_le [OF assms(1,2) this] s show ?thesis by (simp add: dec_fix_short)
qed

lemma ddigits_greater:
  assumes "10 ^ k * 10 powi expo d \<le> \<bar>dval d\<bar>"
  shows "k < ddigits d"
proof -
  from assms have "(10::rat) ^ k \<le> of_int \<bar>coef d\<bar>"
    by (simp add: abs_dval mult_le_cancel_right)
  then have "of_int (10 ^ k) \<le> (of_int \<bar>coef d\<bar> :: rat)" by simp
  then have "10 ^ k \<le> \<bar>coef d\<bar>" by (simp only: of_int_le_iff)
  also have "\<dots> < 10 ^ ddigits d" by (rule coef_less_pow)
  finally show ?thesis by (rule power_less_imp_less_exp [rotated]) simp
qed

lemma validate_too_long: "MAX_DECIMAL_DIGITS < ddigits d \<Longrightarrow> validate_decimal_bounds d = Inl ValueError"
  by (simp add: validate_decimal_bounds_def)

lemma ddigits_at_most:
  assumes "\<bar>dval d\<bar> < 10 ^ k * 10 powi expo d" and "0 < k"
  shows "ddigits d \<le> k"
proof -
  from assms(1) have "of_int \<bar>coef d\<bar> < (10::rat) ^ k"
    by (simp add: abs_dval mult_less_cancel_right)
  then have "of_int \<bar>coef d\<bar> < (of_int (10 ^ k) :: rat)" by simp
  then have "\<bar>coef d\<bar> < 10 ^ k" by (simp only: of_int_less_iff)
  then show ?thesis using assms(2) by (simp add: ddigits_def ndigits_le_iff nat_less_iff)
qed

end
