(* ===== verification/Machine.thy ===== *)
theory Machine
  imports Prelude
begin

section \<open>Interfaces shared by the components\<close>

text \<open>
  A component that accepts a sequence of requests is a step function; its runs are \<open>foldl\<close>
  over the requests. The first locale is the contract "every request keeps the invariant",
  the second adds an observation that every request leaves alone, the third a preorder that
  every request moves along. Their conclusions are about whole runs, and each component
  obtains them by interpretation from its one-step lemmas.
\<close>

locale machine =
  fixes step :: "'s \<Rightarrow> 'o \<Rightarrow> 's" and inv :: "'s \<Rightarrow> bool"
  assumes step_inv: "inv s \<Longrightarrow> inv (step s r)"
begin

lemma run_inv: "inv s \<Longrightarrow> inv (foldl step s rs)"
  by (induction rs arbitrary: s) (auto intro: step_inv)

lemma prefix_inv: "inv s \<Longrightarrow> inv (foldl step s (take n rs))"
  by (rule run_inv)

end

locale machine_frame = machine step inv
  for step :: "'s \<Rightarrow> 'o \<Rightarrow> 's" and inv :: "'s \<Rightarrow> bool" +
  fixes obs :: "'s \<Rightarrow> 'v"
  assumes step_obs: "inv s \<Longrightarrow> obs (step s r) = obs s"
begin

lemma run_obs: "inv s \<Longrightarrow> obs (foldl step s rs) = obs s"
  by (induction rs arbitrary: s) (simp_all add: step_inv step_obs)

end

locale machine_order = machine step inv
  for step :: "'s \<Rightarrow> 'o \<Rightarrow> 's" and inv :: "'s \<Rightarrow> bool" +
  fixes le :: "'s \<Rightarrow> 's \<Rightarrow> bool"
  assumes le_refl: "le s s"
    and le_trans: "le s t \<Longrightarrow> le t u \<Longrightarrow> le s u"
    and step_le: "inv s \<Longrightarrow> le s (step s r)"
begin

lemma run_le: "inv s \<Longrightarrow> le s (foldl step s rs)"
proof (induction rs arbitrary: s)
  case Nil
  show ?case by (simp add: le_refl)
next
  case (Cons r rs)
  then have "le (step s r) (foldl step (step s r) rs)" by (intro Cons.IH step_inv)
  with step_le [OF Cons.prems] show ?case by (auto intro: le_trans)
qed

end

end
