(* ===== verification/Budget.thy ===== *)
theory Budget
  imports Py_Decimal Machine
begin

section \<open>The durable budget coordinator\<close>

text \<open>
  \<open>DurableBudgetCoordinator\<close> of \<open>tenir_governance/operations/budget.py\<close>. Its state is the
  in-memory dictionary \<open>_resources\<close>, whether a store path was given, and the store file
  itself. Every operation runs under one exclusive file lock, so an operation is a function
  on that state; another process is another in-memory dictionary over the same file. The
  file is what \<open>json.load\<close> makes of it: absent, unreadable (bad JSON, or a root that is not
  an object), or an object whose entries may be anything. Amounts are
  \<open>amount_in\<close>: what \<open>Decimal(str(value))\<close> makes of the caller's value. Operating-system
  errors of the write itself are not modelled here.
\<close>

record budget =
  capacity :: dec
  reserved :: dec
  consumed :: dec

text \<open>A stored entry: not an object, or an object whose three counters may be missing.\<close>

datatype raw_budget =
    RawBad
  | RawBudget "amount_in option" "amount_in option" "amount_in option"

datatype budget_file =
    BAbsent
  | BUnreadable
  | BStored "(string, raw_budget) dict"

record coordinator =
  store_path :: bool
  resources :: "(string, budget) dict"
  store :: budget_file

type_synonym 'a coord_run = "'a result \<times> coordinator"

subsection \<open>Loading and persisting\<close>

fun load_counter :: "amount_in option \<Rightarrow> dec result" where
  "load_counter None = Inl KeyError"
| "load_counter (Some v) = to_decimal v"

definition dneg_p :: "dec \<Rightarrow> bool" where
  "dneg_p d \<longleftrightarrow> dlt d dzero"

fun load_record :: "raw_budget \<Rightarrow> budget result" where
  "load_record RawBad = Inl ValueError"
| "load_record (RawBudget cap res con) =
     bindE (load_counter cap) (\<lambda>c.
     bindE (load_counter res) (\<lambda>r.
     bindE (load_counter con) (\<lambda>u.
       if dneg_p c \<or> dneg_p r \<or> dneg_p u then Inl ValueError
       else bindE (decimal_add r u) (\<lambda>total.
         if dlt c total then Inl ValueError
         else Inr \<lparr>capacity = c, reserved = r, consumed = u\<rparr>))))"

definition load_entry :: "string \<times> raw_budget \<Rightarrow> (string \<times> budget) result" where
  "load_entry kv = bindE (load_record (snd kv)) (\<lambda>b. Inr (fst kv, b))"

fun load :: "budget_file \<Rightarrow> (string, budget) dict result" where
  "load BAbsent = Inr []"
| "load BUnreadable = Inl RuntimeError"
| "load (BStored d) =
     (case mapE load_entry d of Inl _ \<Rightarrow> Inl RuntimeError | Inr m \<Rightarrow> Inr m)"

text \<open>\<open>if self._store_path and os.path.exists(self._store_path): self._load()\<close>\<close>

definition reload :: "coordinator \<Rightarrow> coordinator result" where
  "reload c =
     (if store_path c \<and> store c \<noteq> BAbsent
      then bindE (load (store c)) (\<lambda>m. Inr (c\<lparr>resources := m\<rparr>))
      else Inr c)"

definition dump_entry :: "string \<times> budget \<Rightarrow> string \<times> raw_budget" where
  "dump_entry kb =
     (fst kb, RawBudget (Some (AFin (capacity (snd kb)))) (Some (AFin (reserved (snd kb))))
                        (Some (AFin (consumed (snd kb)))))"

definition dump :: "(string, budget) dict \<Rightarrow> budget_file" where
  "dump d = BStored (map dump_entry d)"

definition persist :: "coordinator \<Rightarrow> coordinator" where
  "persist c = (if store_path c then c\<lparr>store := dump (resources c)\<rparr> else c)"

text \<open>\<open>__init__\<close>: a coordinator with a store path starts from the file.\<close>

definition coord_new :: "bool \<Rightarrow> budget_file \<Rightarrow> coordinator result" where
  "coord_new path file = reload \<lparr>store_path = path, resources = [], store = file\<rparr>"

subsection \<open>The operations\<close>

definition set_budget :: "coordinator \<Rightarrow> string \<Rightarrow> budget \<Rightarrow> coordinator" where
  "set_budget c rid b = c\<lparr>resources := dput rid b (resources c)\<rparr>"

text \<open>
  \<open>register\<close>: an existing entry is re-validated and must have the same capacity; a new one
  must satisfy the budget invariant with its initial counters.
\<close>

definition recheck_existing :: "budget \<Rightarrow> bool" where
  "recheck_existing b =
     (case (validate_decimal_bounds (capacity b), validate_decimal_bounds (reserved b),
            validate_decimal_bounds (consumed b)) of
        (Inr c, Inr r, Inr u) \<Rightarrow>
          \<not> (dneg_p c \<or> dneg_p r \<or> dneg_p u) \<and>
          (case decimal_add r u of Inl _ \<Rightarrow> False | Inr t \<Rightarrow> \<not> dlt c t)
      | _ \<Rightarrow> False)"

definition coord_register ::
  "coordinator \<Rightarrow> string \<Rightarrow> amount_in \<Rightarrow> amount_in \<Rightarrow> amount_in \<Rightarrow> unit coord_run" where
  "coord_register c rid cap res con =
     (case to_decimal cap of
        Inl _ \<Rightarrow> (Inl ValueError, c)
      | Inr capd \<Rightarrow>
        if dneg_p capd then (Inl ValueError, c)
        else case reload c of
          Inl e \<Rightarrow> (Inl e, c)
        | Inr c1 \<Rightarrow>
          (case map_of (resources c1) rid of
             Some b \<Rightarrow>
               if \<not> recheck_existing b then (Inl RuntimeError, c1)
               else if \<not> deq (capacity b) capd then (Inl ValueError, c1)
               else (Inr (), c1)
           | None \<Rightarrow>
             (case (to_decimal res, to_decimal con) of
                (Inr r, Inr u) \<Rightarrow>
                  if dneg_p r \<or> dneg_p u then (Inl ValueError, c1)
                  else (case decimal_add r u of
                          Inl e \<Rightarrow> (Inl e, c1)
                        | Inr t \<Rightarrow>
                          if dlt capd t then (Inl ValueError, c1)
                          else (Inr (), persist (set_budget c1 rid
                                  \<lparr>capacity = capd, reserved = r, consumed = u\<rparr>)))
              | _ \<Rightarrow> (Inl ValueError, c1))))"

text \<open>The amount check every mutating operation starts with: \<open>None\<close> is "refuse quietly".\<close>

definition positive_amount :: "amount_in \<Rightarrow> dec option" where
  "positive_amount a =
     (case to_decimal a of Inl _ \<Rightarrow> None | Inr d \<Rightarrow> if dlt dzero d then Some d else None)"

definition available :: "budget \<Rightarrow> dec result" where
  "available b =
     bindE (decimal_subtract (capacity b) (reserved b)) (\<lambda>x. decimal_subtract x (consumed b))"

definition reload_and_check :: "coordinator \<Rightarrow> string \<Rightarrow> dec \<Rightarrow> bool coord_run" where
  "reload_and_check c rid amount =
     (case reload c of
        Inl e \<Rightarrow> (Inl e, c)
      | Inr c1 \<Rightarrow>
        (case map_of (resources c1) rid of
           None \<Rightarrow> (Inr False, c1)
         | Some b \<Rightarrow>
           (case available b of
              Inl e \<Rightarrow> (Inl e, c1)
            | Inr av \<Rightarrow> (Inr (dle amount av), c1))))"

definition coord_reserve :: "coordinator \<Rightarrow> string \<Rightarrow> amount_in \<Rightarrow> bool coord_run" where
  "coord_reserve c rid a =
     (case positive_amount a of
        None \<Rightarrow> (Inr False, c)
      | Some amount \<Rightarrow>
        (case reload_and_check c rid amount of
           (Inl e, c1) \<Rightarrow> (Inl e, c1)
         | (Inr False, c1) \<Rightarrow> (Inr False, c1)
         | (Inr True, c1) \<Rightarrow>
           (case map_of (resources c1) rid of
              None \<Rightarrow> (Inl KeyError, c1)
            | Some b \<Rightarrow>
              (case decimal_add (reserved b) amount of
                 Inl e \<Rightarrow> (Inl e, c1)
               | Inr s \<Rightarrow> (Inr True, persist (set_budget c1 rid (b\<lparr>reserved := s\<rparr>)))))))"

definition coord_commit :: "coordinator \<Rightarrow> string \<Rightarrow> amount_in \<Rightarrow> bool coord_run" where
  "coord_commit c rid a =
     (case positive_amount a of
        None \<Rightarrow> (Inr False, c)
      | Some amount \<Rightarrow>
        (case reload c of
           Inl e \<Rightarrow> (Inl e, c)
         | Inr c1 \<Rightarrow>
           (case map_of (resources c1) rid of
              None \<Rightarrow> (Inr False, c1)
            | Some b \<Rightarrow>
              if dlt (reserved b) amount then (Inr False, c1)
              else (case decimal_subtract (reserved b) amount of
                 Inl e \<Rightarrow> (Inl e, c1)
               | Inr r \<Rightarrow>
                 (let b1 = b\<lparr>reserved := r\<rparr>; c2 = set_budget c1 rid b1 in
                  case decimal_add (consumed b1) amount of
                    Inl e \<Rightarrow> (Inl e, c2)
                  | Inr u \<Rightarrow> (Inr True, persist (set_budget c2 rid (b1\<lparr>consumed := u\<rparr>))))))))"

definition coord_release :: "coordinator \<Rightarrow> string \<Rightarrow> amount_in \<Rightarrow> unit coord_run" where
  "coord_release c rid a =
     (case positive_amount a of
        None \<Rightarrow> (Inr (), c)
      | Some amount \<Rightarrow>
        (case reload c of
           Inl e \<Rightarrow> (Inl e, c)
         | Inr c1 \<Rightarrow>
           (case map_of (resources c1) rid of
              None \<Rightarrow> (Inr (), c1)
            | Some b \<Rightarrow>
              (case decimal_subtract (reserved b) amount of
                 Inl e \<Rightarrow> (Inl e, c1)
               | Inr r \<Rightarrow> (Inr (), persist (set_budget c1 rid (b\<lparr>reserved := dmax0 r\<rparr>)))))))"

definition coord_refund :: "coordinator \<Rightarrow> string \<Rightarrow> amount_in \<Rightarrow> bool coord_run" where
  "coord_refund c rid a =
     (case positive_amount a of
        None \<Rightarrow> (Inr False, c)
      | Some amount \<Rightarrow>
        (case reload c of
           Inl e \<Rightarrow> (Inl e, c)
         | Inr c1 \<Rightarrow>
           (case map_of (resources c1) rid of
              None \<Rightarrow> (Inr False, c1)
            | Some b \<Rightarrow>
              if dlt (consumed b) amount then (Inr False, c1)
              else (case decimal_subtract (consumed b) amount of
                 Inl e \<Rightarrow> (Inl e, c1)
               | Inr u \<Rightarrow> (Inr True, persist (set_budget c1 rid (b\<lparr>consumed := u\<rparr>)))))))"

text \<open>\<open>get_state\<close> and \<open>get_state_exact\<close>: (available, reserved, consumed, capacity).\<close>

definition coord_get_state ::
  "coordinator \<Rightarrow> string \<Rightarrow> (dec \<times> dec \<times> dec \<times> dec) option coord_run" where
  "coord_get_state c rid =
     (case reload c of
        Inl e \<Rightarrow> (Inl e, c)
      | Inr c1 \<Rightarrow>
        (case map_of (resources c1) rid of
           None \<Rightarrow> (Inr None, c1)
         | Some b \<Rightarrow>
           (case available b of
              Inl e \<Rightarrow> (Inl e, c1)
            | Inr av \<Rightarrow> (Inr (Some (av, reserved b, consumed b, capacity b)), c1))))"

subsection \<open>The budget invariant I8\<close>

definition budget_ok :: "budget \<Rightarrow> bool" where
  "budget_ok b \<longleftrightarrow>
     in_range (capacity b) \<and> in_range (reserved b) \<and> in_range (consumed b) \<and>
     0 \<le> dval (reserved b) \<and> 0 \<le> dval (consumed b) \<and>
     dval (reserved b) + dval (consumed b) \<le> dval (capacity b)"

definition all_ok :: "(string, budget) dict \<Rightarrow> bool" where
  "all_ok d \<longleftrightarrow> wf_dict d \<and> (\<forall>(k, b) \<in> set d. budget_ok b)"

text \<open>The store holds what this code wrote from good counters, or nothing it can read.\<close>

definition store_ok :: "budget_file \<Rightarrow> bool" where
  "store_ok f \<longleftrightarrow> f = BAbsent \<or> f = BUnreadable \<or> (\<exists>d. f = dump d \<and> all_ok d)"

definition coord_ok :: "coordinator \<Rightarrow> bool" where
  "coord_ok c \<longleftrightarrow> all_ok (resources c) \<and> store_ok (store c)"

lemma all_okD: "all_ok d \<Longrightarrow> map_of d k = Some b \<Longrightarrow> budget_ok b"
  unfolding all_ok_def by (auto dest!: map_of_SomeD)

lemma all_ok_dput: "all_ok d \<Longrightarrow> budget_ok b \<Longrightarrow> all_ok (dput k b d)"
  by (auto simp: all_ok_def dest!: in_set_dput)

lemma budget_ok_total:
  assumes "budget_ok b"
  shows "\<bar>dval (reserved b)\<bar> < decimal_limit" "\<bar>dval (consumed b)\<bar> < decimal_limit"
    "dval (capacity b) < decimal_limit" "0 \<le> dval (capacity b)"
  using assms by (auto simp: budget_ok_def in_range_def)

lemma budget_ok_available:
  assumes "budget_ok b"
  obtains av where "available b = Inr av" and "in_range av"
    and "dval av = dval (capacity b) - dval (reserved b) - dval (consumed b)"
proof -
  note t = budget_ok_total [OF assms]
  from assms have ir: "in_range (capacity b)" "in_range (reserved b)" "in_range (consumed b)"
    and le: "0 \<le> dval (reserved b)" "0 \<le> dval (consumed b)"
      "dval (reserved b) + dval (consumed b) \<le> dval (capacity b)"
    by (auto simp: budget_ok_def)
  obtain x where x: "decimal_subtract (capacity b) (reserved b) = Inr x"
    "dval x = dval (capacity b) - dval (reserved b)" "in_range x"
    by (rule decimal_subtract_in_range [OF ir(1,2)]) (use t le in auto)
  obtain y where y: "decimal_subtract x (consumed b) = Inr y"
    "dval y = dval x - dval (consumed b)" "in_range y"
    by (rule decimal_subtract_in_range [OF x(3) ir(3)]) (use x t le in auto)
  from x y show thesis by (intro that) (simp_all add: available_def)
qed

lemma positive_amountD:
  "positive_amount a = Some x \<Longrightarrow> a = AFin x \<and> in_range x \<and> 0 < dval x"
  by (auto simp: positive_amount_def dlt_dval split: sum.splits if_splits dest: to_decimal_Inr)

subsection \<open>Loading\<close>

text \<open>Whatever the file holds, what loads satisfies the invariant.\<close>

lemma load_record_ok: "load_record raw = Inr b \<Longrightarrow> budget_ok b"
proof (induction raw rule: load_record.induct)
  case (2 cap res con)
  have lc: "load_counter v = Inr d \<Longrightarrow> in_range d" for v d
    by (cases v) (auto dest: to_decimal_Inr)
  from 2 show ?case
    by (auto simp: bindE_Inr_conv budget_ok_def dneg_p_def dlt_dval not_less
        split: if_splits dest: lc decimal_add_dval)
qed simp

lemma load_entry_ok: "load_entry kv = Inr kb \<Longrightarrow> fst kb = fst kv \<and> budget_ok (snd kb)"
  by (auto simp: load_entry_def bindE_Inr_conv dest: load_record_ok)

lemma load_ok:
  assumes "load f = Inr m" and "\<And>d. f = BStored d \<Longrightarrow> wf_dict d"
  shows "all_ok m"
proof (cases f)
  case (BStored d)
  with assms(1) have m: "mapE load_entry d = Inr m" by (auto split: sum.splits)
  have "map fst m = map fst d"
    by (rule mapE_fst_eq [OF m]) (simp add: load_entry_ok)
  with assms(2) BStored have "wf_dict m" by simp
  moreover have "budget_ok (snd kb)" if "kb \<in> set m" for kb
    using mapE_Inr_set [OF m that] load_entry_ok by blast
  ultimately show ?thesis by (auto simp: all_ok_def)
qed (use assms in \<open>simp_all add: all_ok_def\<close>)

lemma fst_dump_entry [simp]: "fst (dump_entry kb) = fst kb"
  by (simp add: dump_entry_def)

lemma fst_comp_dump_entry [simp]: "fst \<circ> dump_entry = fst"
  by (simp add: fun_eq_iff)

lemma dump_keys: "dump d = BStored d' \<Longrightarrow> map fst d' = map fst d"
  by (auto simp: dump_def)

lemma load_dump_entry:
  assumes "load_entry (dump_entry kb) = Inr kb'"
  shows "kb' = kb"
  using assms
  by (cases kb) (auto simp: load_entry_def dump_entry_def bindE_Inr_conv
      dest!: validate_in_range split: if_splits)

lemma load_dump_id:
  assumes "load (dump d) = Inr m"
  shows "m = d"
proof -
  from assms have "mapE load_entry (map dump_entry d) = Inr m"
    by (auto simp: dump_def split: sum.splits)
  then show ?thesis
    by (induction d arbitrary: m) (auto simp: bindE_Inr_conv dest: load_dump_entry)
qed

lemma reload_ok:
  assumes "coord_ok c" and "reload c = Inr c1"
  shows "coord_ok c1" "store c1 = store c" "store_path c1 = store_path c"
proof -
  show "coord_ok c1"
  proof (cases "store_path c \<and> store c \<noteq> BAbsent")
    case True
    then obtain m where m: "load (store c) = Inr m" and c1: "c1 = c\<lparr>resources := m\<rparr>"
      using assms(2) by (auto simp: reload_def bindE_Inr_conv)
    from assms(1) have st: "store_ok (store c)" by (simp add: coord_ok_def)
    then have "wf_dict d" if "store c = BStored d" for d
      using that dump_keys by (auto simp: store_ok_def all_ok_def dump_def)
    with m have "all_ok m" by (rule load_ok)
    with st c1 show ?thesis by (simp add: coord_ok_def)
  next
    case False
    with assms show ?thesis by (auto simp: reload_def)
  qed
  show "store c1 = store c" "store_path c1 = store_path c"
    using assms(2) by (auto simp: reload_def bindE_Inr_conv split: if_splits)
qed

lemma reload_idem: "reload c = Inr c1 \<Longrightarrow> reload c1 = Inr c1"
  by (auto simp: reload_def bindE_Inr_conv split: if_splits)

lemma set_budget_simps [simp]:
  "store (set_budget c k b) = store c" "store_path (set_budget c k b) = store_path c"
  "resources (set_budget c k b) = dput k b (resources c)"
  by (simp_all add: set_budget_def)

lemma persist_simps [simp]:
  "resources (persist c) = resources c" "store_path (persist c) = store_path c"
  "store (persist c) = (if store_path c then dump (resources c) else store c)"
  by (simp_all add: persist_def)

lemma persist_set_ok:
  "coord_ok c \<Longrightarrow> budget_ok b \<Longrightarrow> coord_ok (persist (set_budget c k b))"
  by (auto simp: coord_ok_def store_ok_def all_ok_dput)

lemma coord_okD: "coord_ok c \<Longrightarrow> map_of (resources c) k = Some b \<Longrightarrow> budget_ok b"
  by (auto simp: coord_ok_def intro: all_okD)

subsection \<open>What each operation does\<close>

text \<open>Closed forms of the operations after a successful reload, on good states.\<close>

lemma reserve_forms:
  assumes ok: "coord_ok c" and rl: "reload c = Inr c1" and a: "positive_amount a = Some x"
  shows "map_of (resources c1) k = None \<Longrightarrow> coord_reserve c k a = (Inr False, c1)"
    and "map_of (resources c1) k = Some b \<Longrightarrow>
         dval (capacity b) < dval (reserved b) + dval (consumed b) + dval x \<Longrightarrow>
         coord_reserve c k a = (Inr False, c1)"
    and "map_of (resources c1) k = Some b \<Longrightarrow>
         dval (reserved b) + dval (consumed b) + dval x \<le> dval (capacity b) \<Longrightarrow>
         \<exists>s. decimal_add (reserved b) x = Inr s \<and> dval s = dval (reserved b) + dval x \<and>
             budget_ok (b\<lparr>reserved := s\<rparr>) \<and>
             coord_reserve c k a = (Inr True, persist (set_budget c1 k (b\<lparr>reserved := s\<rparr>)))"
proof -
  show "map_of (resources c1) k = None \<Longrightarrow> coord_reserve c k a = (Inr False, c1)"
    by (simp add: coord_reserve_def reload_and_check_def a rl)
  assume b: "map_of (resources c1) k = Some b"
  have bok: "budget_ok b" using reload_ok(1) [OF ok rl] b by (rule coord_okD)
  obtain av where av: "available b = Inr av"
    and avv: "dval av = dval (capacity b) - dval (reserved b) - dval (consumed b)"
    using budget_ok_available [OF bok] by blast
  show "coord_reserve c k a = (Inr False, c1)"
    if "dval (capacity b) < dval (reserved b) + dval (consumed b) + dval x"
    using that by (simp add: coord_reserve_def reload_and_check_def a rl b av dle_dval avv)
  assume le: "dval (reserved b) + dval (consumed b) + dval x \<le> dval (capacity b)"
  have x: "in_range x" "0 < dval x" using positive_amountD [OF a] by auto
  have br: "in_range (reserved b)" "0 \<le> dval (reserved b)" "0 \<le> dval (consumed b)"
    using bok by (auto simp: budget_ok_def)
  obtain s where s: "decimal_add (reserved b) x = Inr s" "dval s = dval (reserved b) + dval x"
    "in_range s"
    by (rule decimal_add_in_range [OF br(1) x(1)]) (use budget_ok_total [OF bok] x br le in auto)
  moreover have "budget_ok (b\<lparr>reserved := s\<rparr>)"
    using bok s x le by (auto simp: budget_ok_def)
  moreover have "coord_reserve c k a = (Inr True, persist (set_budget c1 k (b\<lparr>reserved := s\<rparr>)))"
    using le s(1) by (simp add: coord_reserve_def reload_and_check_def a rl b av dle_dval avv)
  ultimately show "\<exists>s. decimal_add (reserved b) x = Inr s \<and> dval s = dval (reserved b) + dval x \<and>
             budget_ok (b\<lparr>reserved := s\<rparr>) \<and>
             coord_reserve c k a = (Inr True, persist (set_budget c1 k (b\<lparr>reserved := s\<rparr>)))"
    by blast
qed

lemma commit_forms:
  assumes ok: "coord_ok c" and rl: "reload c = Inr c1" and a: "positive_amount a = Some x"
  shows "map_of (resources c1) k = None \<Longrightarrow> coord_commit c k a = (Inr False, c1)"
    and "map_of (resources c1) k = Some b \<Longrightarrow> dval (reserved b) < dval x \<Longrightarrow>
         coord_commit c k a = (Inr False, c1)"
    and "map_of (resources c1) k = Some b \<Longrightarrow> dval x \<le> dval (reserved b) \<Longrightarrow>
         \<exists>r u. decimal_subtract (reserved b) x = Inr r \<and> dval r = dval (reserved b) - dval x \<and>
             decimal_add (consumed b) x = Inr u \<and> dval u = dval (consumed b) + dval x \<and>
             budget_ok (b\<lparr>reserved := r, consumed := u\<rparr>) \<and>
             coord_commit c k a =
               (Inr True, persist (set_budget c1 k (b\<lparr>reserved := r, consumed := u\<rparr>)))"
proof -
  show "map_of (resources c1) k = None \<Longrightarrow> coord_commit c k a = (Inr False, c1)"
    by (simp add: coord_commit_def a rl)
  assume b: "map_of (resources c1) k = Some b"
  have bok: "budget_ok b" using reload_ok(1) [OF ok rl] b by (rule coord_okD)
  show "coord_commit c k a = (Inr False, c1)" if "dval (reserved b) < dval x"
    using that by (simp add: coord_commit_def a rl b dlt_dval)
  assume le: "dval x \<le> dval (reserved b)"
  have x: "in_range x" "0 < dval x" using positive_amountD [OF a] by auto
  have br: "in_range (reserved b)" "in_range (consumed b)" "0 \<le> dval (consumed b)"
    using bok by (auto simp: budget_ok_def)
  note t = budget_ok_total [OF bok]
  have tot: "dval (reserved b) + dval (consumed b) \<le> dval (capacity b)"
    using bok by (simp add: budget_ok_def)
  obtain r where r: "decimal_subtract (reserved b) x = Inr r"
    "dval r = dval (reserved b) - dval x" "in_range r"
    by (rule decimal_subtract_in_range [OF br(1) x(1)]) (use t x le in auto)
  obtain u where u: "decimal_add (consumed b) x = Inr u"
    "dval u = dval (consumed b) + dval x" "in_range u"
    by (rule decimal_add_in_range [OF br(2) x(1)]) (use t tot x br le in auto)
  have "budget_ok (b\<lparr>reserved := r, consumed := u\<rparr>)"
    using bok r u x le by (auto simp: budget_ok_def)
  moreover have "coord_commit c k a =
      (Inr True, persist (set_budget c1 k (b\<lparr>reserved := r, consumed := u\<rparr>)))"
    using le r(1) u(1)
    by (simp add: coord_commit_def a rl b dlt_dval not_less [symmetric] Let_def set_budget_def)
  ultimately show "\<exists>r u. decimal_subtract (reserved b) x = Inr r \<and>
             dval r = dval (reserved b) - dval x \<and>
             decimal_add (consumed b) x = Inr u \<and> dval u = dval (consumed b) + dval x \<and>
             budget_ok (b\<lparr>reserved := r, consumed := u\<rparr>) \<and>
             coord_commit c k a =
               (Inr True, persist (set_budget c1 k (b\<lparr>reserved := r, consumed := u\<rparr>)))"
    using r u by blast
qed

lemma release_forms:
  assumes ok: "coord_ok c" and rl: "reload c = Inr c1" and a: "positive_amount a = Some x"
  shows "map_of (resources c1) k = None \<Longrightarrow> coord_release c k a = (Inr (), c1)"
    and "map_of (resources c1) k = Some b \<Longrightarrow>
         \<exists>r. decimal_subtract (reserved b) x = Inr r \<and> dval r = dval (reserved b) - dval x \<and>
             budget_ok (b\<lparr>reserved := dmax0 r\<rparr>) \<and>
             coord_release c k a = (Inr (), persist (set_budget c1 k (b\<lparr>reserved := dmax0 r\<rparr>)))"
proof -
  show "map_of (resources c1) k = None \<Longrightarrow> coord_release c k a = (Inr (), c1)"
    by (simp add: coord_release_def a rl)
  assume b: "map_of (resources c1) k = Some b"
  have bok: "budget_ok b" using reload_ok(1) [OF ok rl] b by (rule coord_okD)
  have x: "in_range x" "0 < dval x" using positive_amountD [OF a] by auto
  then have xl: "dval x < decimal_limit" by (auto simp: in_range_def)
  have br: "in_range (reserved b)" "0 \<le> dval (reserved b)" using bok by (auto simp: budget_ok_def)
  note t = budget_ok_total [OF bok]
  obtain r where r: "decimal_subtract (reserved b) x = Inr r"
    "dval r = dval (reserved b) - dval x" "in_range r"
    by (rule decimal_subtract_in_range [OF br(1) x(1)]) (use t x xl br in auto)
  have "in_range (dmax0 r)" using r(3) by (simp add: dmax0_def)
  then have "budget_ok (b\<lparr>reserved := dmax0 r\<rparr>)"
    using bok r x by (auto simp: budget_ok_def)
  with r show "\<exists>r. decimal_subtract (reserved b) x = Inr r \<and> dval r = dval (reserved b) - dval x \<and>
             budget_ok (b\<lparr>reserved := dmax0 r\<rparr>) \<and>
             coord_release c k a = (Inr (), persist (set_budget c1 k (b\<lparr>reserved := dmax0 r\<rparr>)))"
    by (auto simp: coord_release_def a rl b)
qed

lemma refund_forms:
  assumes ok: "coord_ok c" and rl: "reload c = Inr c1" and a: "positive_amount a = Some x"
  shows "map_of (resources c1) k = None \<Longrightarrow> coord_refund c k a = (Inr False, c1)"
    and "map_of (resources c1) k = Some b \<Longrightarrow> dval (consumed b) < dval x \<Longrightarrow>
         coord_refund c k a = (Inr False, c1)"
    and "map_of (resources c1) k = Some b \<Longrightarrow> dval x \<le> dval (consumed b) \<Longrightarrow>
         \<exists>u. decimal_subtract (consumed b) x = Inr u \<and> dval u = dval (consumed b) - dval x \<and>
             budget_ok (b\<lparr>consumed := u\<rparr>) \<and>
             coord_refund c k a = (Inr True, persist (set_budget c1 k (b\<lparr>consumed := u\<rparr>)))"
proof -
  show "map_of (resources c1) k = None \<Longrightarrow> coord_refund c k a = (Inr False, c1)"
    by (simp add: coord_refund_def a rl)
  assume b: "map_of (resources c1) k = Some b"
  have bok: "budget_ok b" using reload_ok(1) [OF ok rl] b by (rule coord_okD)
  show "coord_refund c k a = (Inr False, c1)" if "dval (consumed b) < dval x"
    using that by (simp add: coord_refund_def a rl b dlt_dval)
  assume le: "dval x \<le> dval (consumed b)"
  have x: "in_range x" "0 < dval x" using positive_amountD [OF a] by auto
  have br: "in_range (consumed b)" "0 \<le> dval (consumed b)" using bok by (auto simp: budget_ok_def)
  note t = budget_ok_total [OF bok]
  obtain u where u: "decimal_subtract (consumed b) x = Inr u"
    "dval u = dval (consumed b) - dval x" "in_range u"
    by (rule decimal_subtract_in_range [OF br(1) x(1)]) (use t x le in auto)
  moreover have "budget_ok (b\<lparr>consumed := u\<rparr>)" using bok u x le by (auto simp: budget_ok_def)
  ultimately show "\<exists>u. decimal_subtract (consumed b) x = Inr u \<and>
             dval u = dval (consumed b) - dval x \<and> budget_ok (b\<lparr>consumed := u\<rparr>) \<and>
             coord_refund c k a = (Inr True, persist (set_budget c1 k (b\<lparr>consumed := u\<rparr>)))"
    using le by (auto simp: coord_refund_def a rl b dlt_dval)
qed

subsection \<open>The accounting contract\<close>

text \<open>
  What a client of a budget coordinator may rely on, stated on the numerical view of the
  counters (capacity, reserved, consumed) of each resource. A failed or refused operation
  changes no counter; a successful one moves exactly the amount asked for.
\<close>

locale budget_coordinator =
  fixes inv :: "'s \<Rightarrow> bool"
    and view :: "'s \<Rightarrow> string \<Rightarrow> (rat \<times> rat \<times> rat) option"
    and reserve commit refund :: "'s \<Rightarrow> string \<Rightarrow> amount_in \<Rightarrow> bool result \<times> 's"
    and release :: "'s \<Rightarrow> string \<Rightarrow> amount_in \<Rightarrow> unit result \<times> 's"
  assumes view_bounds:
      "inv s \<Longrightarrow> view s k = Some (c, p, u) \<Longrightarrow> 0 \<le> p \<and> 0 \<le> u \<and> p + u \<le> c"
    and keeps_inv:
      "inv s \<Longrightarrow> inv (snd (reserve s k a)) \<and> inv (snd (commit s k a)) \<and>
       inv (snd (refund s k a)) \<and> inv (snd (release s k a))"
    and reserve_true:
      "inv s \<Longrightarrow> reserve s k a = (Inr True, s') \<Longrightarrow>
       \<exists>x c p u. positive_amount a = Some x \<and> view s k = Some (c, p, u) \<and>
         p + u + dval x \<le> c \<and> view s' = (view s)(k \<mapsto> (c, p + dval x, u))"
    and commit_true:
      "inv s \<Longrightarrow> commit s k a = (Inr True, s') \<Longrightarrow>
       \<exists>x c p u. positive_amount a = Some x \<and> view s k = Some (c, p, u) \<and>
         dval x \<le> p \<and> view s' = (view s)(k \<mapsto> (c, p - dval x, u + dval x))"
    and refund_true:
      "inv s \<Longrightarrow> refund s k a = (Inr True, s') \<Longrightarrow>
       \<exists>x c p u. positive_amount a = Some x \<and> view s k = Some (c, p, u) \<and>
         dval x \<le> u \<and> view s' = (view s)(k \<mapsto> (c, p, u - dval x))"
    and release_view:
      "inv s \<Longrightarrow> release s k a = (res, s') \<Longrightarrow>
       view s' = view s \<or>
       (\<exists>x c p u. positive_amount a = Some x \<and> view s k = Some (c, p, u) \<and>
         view s' = (view s)(k \<mapsto> (c, max 0 (p - dval x), u)))"
    and refused:
      "inv s \<Longrightarrow> reserve s k a = (r, s') \<Longrightarrow> r \<noteq> Inr True \<Longrightarrow> view s' = view s"
      "inv s \<Longrightarrow> commit s k a = (r, s') \<Longrightarrow> r \<noteq> Inr True \<Longrightarrow> view s' = view s"
      "inv s \<Longrightarrow> refund s k a = (r, s') \<Longrightarrow> r \<noteq> Inr True \<Longrightarrow> view s' = view s"
begin

text \<open>A reservation that is then released leaves every counter where it was.\<close>

lemma reserve_release:
  assumes "inv s" and "reserve s k a = (Inr True, s1)" and "release s1 k a = (res, s2)"
    and changed: "view s2 \<noteq> view s1"
  shows "view s2 = view s"
proof -
  obtain x c p u where x: "positive_amount a = Some x" and v: "view s k = Some (c, p, u)"
    and v1: "view s1 = (view s)(k \<mapsto> (c, p + dval x, u))"
    using reserve_true [OF assms(1,2)] by blast
  have "inv s1" using keeps_inv [OF assms(1), of k a] assms(2) by simp
  from release_view [OF this assms(3)] changed x v1
  have v2: "view s2 = (view s1)(k \<mapsto> (c, max 0 (p + dval x - dval x), u))" by auto
  have "0 \<le> p" using view_bounds [OF assms(1) v] by simp
  with v v1 v2 show ?thesis by (auto simp: fun_eq_iff)
qed

text \<open>A reservation that is then committed is consumed, and reserves nothing.\<close>

lemma reserve_commit:
  assumes "inv s" and "reserve s k a = (Inr True, s1)" and "commit s1 k a = (Inr True, s2)"
  shows "\<exists>x c p u. positive_amount a = Some x \<and> view s k = Some (c, p, u) \<and>
           view s2 = (view s)(k \<mapsto> (c, p, u + dval x))"
proof -
  obtain x c p u where x: "positive_amount a = Some x" and v: "view s k = Some (c, p, u)"
    and v1: "view s1 = (view s)(k \<mapsto> (c, p + dval x, u))"
    using reserve_true [OF assms(1,2)] by blast
  have "inv s1" using keeps_inv [OF assms(1), of k a] assms(2) by simp
  from commit_true [OF this assms(3)] x v1
  have "view s2 = (view s1)(k \<mapsto> (c, p + dval x - dval x, u + dval x))" by auto
  with x v v1 show ?thesis by auto
qed

text \<open>The capacity of a resource is fixed.\<close>

lemma capacity_fixed:
  assumes "inv s"
    and "s' = snd (reserve s k a) \<or> s' = snd (commit s k a) \<or> s' = snd (refund s k a) \<or>
         s' = snd (release s k a)"
  shows "map_option fst (view s' j) = map_option fst (view s j)"
proof -
  have upd: "view t = (view s)(k \<mapsto> (c, q)) \<Longrightarrow> view s k = Some (c, p, u) \<Longrightarrow>
      map_option fst (view t j) = map_option fst (view s j)" for t c q p u
    by simp
  consider r where "reserve s k a = (r, s')" | r where "commit s k a = (r, s')"
    | r where "refund s k a = (r, s')" | r where "release s k a = (r, s')"
    using assms(2) by (metis prod.collapse)
  then show ?thesis
  proof cases
    case (1 r)
    show ?thesis
      using refused(1) [OF assms(1) 1] reserve_true [OF assms(1), of k a s'] 1 upd
      by (cases "r = Inr True") auto
  next
    case (2 r)
    show ?thesis
      using refused(2) [OF assms(1) 2] commit_true [OF assms(1), of k a s'] 2 upd
      by (cases "r = Inr True") auto
  next
    case (3 r)
    show ?thesis
      using refused(3) [OF assms(1) 3] refund_true [OF assms(1), of k a s'] 3 upd
      by (cases "r = Inr True") auto
  next
    case (4 r)
    from release_view [OF assms(1) 4] upd show ?thesis by auto
  qed
qed

end

subsection \<open>The durable coordinator keeps the contract\<close>

text \<open>
  The numerical view reads the store file when there is one, without re-validating it, and
  the memory otherwise.
\<close>

definition counters :: "budget \<Rightarrow> rat \<times> rat \<times> rat" where
  "counters b = (dval (capacity b), dval (reserved b), dval (consumed b))"

fun raw_counters :: "raw_budget \<Rightarrow> (rat \<times> rat \<times> rat) option" where
  "raw_counters (RawBudget (Some (AFin c)) (Some (AFin r)) (Some (AFin u))) =
     Some (dval c, dval r, dval u)"
| "raw_counters _ = None"

definition coord_view :: "coordinator \<Rightarrow> string \<Rightarrow> (rat \<times> rat \<times> rat) option" where
  "coord_view c k =
     (if store_path c \<and> store c \<noteq> BAbsent then
        (case store c of
           BStored d \<Rightarrow> (case map_of d k of None \<Rightarrow> None | Some raw \<Rightarrow> raw_counters raw)
         | _ \<Rightarrow> None)
      else map_option counters (map_of (resources c) k))"

lemma map_of_dump: "map_of (map dump_entry d) k = map_option (\<lambda>b. snd (dump_entry (k, b))) (map_of d k)"
  by (induction d) (auto simp: dump_entry_def)

lemma raw_counters_dump [simp]: "raw_counters (snd (dump_entry (k, b))) = Some (counters b)"
  by (simp add: dump_entry_def counters_def)

lemma coord_view_stored:
  "store_path c \<Longrightarrow> store c = dump d \<Longrightarrow> coord_view c k = map_option counters (map_of d k)"
  by (simp add: coord_view_def dump_def map_of_dump split: option.split)

lemma coord_view_persist:
  "coord_view (persist c) = map_option counters \<circ> map_of (resources c)"
proof (cases "store_path c")
  case True
  then have "coord_view (persist c) k = map_option counters (map_of (resources c) k)" for k
    by (intro coord_view_stored) simp_all
  then show ?thesis by (simp add: fun_eq_iff)
next
  case False
  then show ?thesis by (simp add: fun_eq_iff coord_view_def persist_def)
qed

lemma coord_view_reload:
  assumes "coord_ok c" and "reload c = Inr c1"
  shows "coord_view c = map_option counters \<circ> map_of (resources c1)"
proof (cases "store_path c \<and> store c \<noteq> BAbsent")
  case True
  then obtain m where m: "load (store c) = Inr m" and c1: "c1 = c\<lparr>resources := m\<rparr>"
    using assms(2) by (auto simp: reload_def bindE_Inr_conv)
  from assms(1) True m obtain d where d: "store c = dump d"
    by (auto simp: coord_ok_def store_ok_def)
  with m have "m = d" by (auto intro: load_dump_id)
  with True c1 d show ?thesis by (auto simp: fun_eq_iff coord_view_stored)
next
  case False
  with assms(2) have "c1 = c" by (auto simp: reload_def)
  with False show ?thesis by (auto simp: fun_eq_iff coord_view_def)
qed

lemma coord_view_same: "reload c = Inr c1 \<Longrightarrow> coord_ok c \<Longrightarrow> coord_view c1 = coord_view c"
  using coord_view_reload [of c c1] coord_view_reload [of c1 c1] reload_ok(1) [of c c1]
  by (simp add: reload_idem)

lemma coord_view_set:
  assumes "coord_ok c" and "reload c = Inr c1"
  shows "coord_view (persist (set_budget c1 k b)) = (coord_view c)(k \<mapsto> counters b)"
  by (simp add: coord_view_persist coord_view_reload [OF assms] fun_eq_iff)

lemma coord_view_bounds:
  assumes "coord_ok c" and "coord_view c k = Some (cap, p, u)"
  shows "0 \<le> p \<and> 0 \<le> u \<and> p + u \<le> cap"
proof -
  have "\<exists>b. budget_ok b \<and> counters b = (cap, p, u)"
  proof (cases "store_path c \<and> store c \<noteq> BAbsent")
    case True
    with assms obtain d where "store c = dump d" "all_ok d"
      by (auto simp: coord_ok_def store_ok_def coord_view_def)
    with True assms(2) show ?thesis by (auto simp: coord_view_stored dest: all_okD)
  next
    case False
    with assms show ?thesis by (auto simp: coord_view_def dest: coord_okD)
  qed
  then show ?thesis by (auto simp: budget_ok_def counters_def)
qed

text \<open>Every operation either refuses without touching the counters, or is one of the closed forms.\<close>

lemma reserve_result:
  assumes ok: "coord_ok c" and e: "coord_reserve c k a = (r, c')"
  shows "coord_ok c' \<and>
    (if r = Inr True then \<exists>x b. positive_amount a = Some x \<and>
         coord_view c k = Some (counters b) \<and>
         dval (reserved b) + dval (consumed b) + dval x \<le> dval (capacity b) \<and>
         coord_view c' = (coord_view c)(k \<mapsto>
           (dval (capacity b), dval (reserved b) + dval x, dval (consumed b)))
     else coord_view c' = coord_view c)"
proof (cases "positive_amount a")
  case None
  with e ok show ?thesis by (auto simp: coord_reserve_def)
next
  case (Some x)
  show ?thesis
  proof (cases "reload c")
    case (Inl ex)
    with Some e ok show ?thesis by (auto simp: coord_reserve_def reload_and_check_def)
  next
    case (Inr c1)
    note f = reserve_forms [OF ok Inr Some, where k = k]
    note v = coord_view_reload [OF ok Inr] and c1 = reload_ok(1) [OF ok Inr]
    note same = coord_view_same [OF Inr ok]
    show ?thesis
    proof (cases "map_of (resources c1) k")
      case None
      with f(1) e c1 same show ?thesis by auto
    next
      case b: (Some b)
      show ?thesis
      proof (cases "dval (reserved b) + dval (consumed b) + dval x \<le> dval (capacity b)")
        case True
        from f(3) [OF b True] obtain s where s: "dval s = dval (reserved b) + dval x"
          "budget_ok (b\<lparr>reserved := s\<rparr>)"
          "coord_reserve c k a = (Inr True, persist (set_budget c1 k (b\<lparr>reserved := s\<rparr>)))"
          by blast
        with e c1 True b v Some show ?thesis
          by (auto simp: persist_set_ok coord_view_set [OF ok Inr] counters_def intro!: exI [of _ b])
      next
        case False
        with f(2) [OF b] e c1 same show ?thesis by auto
      qed
    qed
  qed
qed

lemma commit_result:
  assumes ok: "coord_ok c" and e: "coord_commit c k a = (r, c')"
  shows "coord_ok c' \<and>
    (if r = Inr True then \<exists>x b. positive_amount a = Some x \<and>
         coord_view c k = Some (counters b) \<and> dval x \<le> dval (reserved b) \<and>
         coord_view c' = (coord_view c)(k \<mapsto>
           (dval (capacity b), dval (reserved b) - dval x, dval (consumed b) + dval x))
     else coord_view c' = coord_view c)"
proof (cases "positive_amount a")
  case None
  with e ok show ?thesis by (auto simp: coord_commit_def)
next
  case (Some x)
  show ?thesis
  proof (cases "reload c")
    case (Inl ex)
    with Some e ok show ?thesis by (auto simp: coord_commit_def)
  next
    case (Inr c1)
    note f = commit_forms [OF ok Inr Some, where k = k]
    note v = coord_view_reload [OF ok Inr] and c1 = reload_ok(1) [OF ok Inr]
    note same = coord_view_same [OF Inr ok]
    show ?thesis
    proof (cases "map_of (resources c1) k")
      case None
      with f(1) e c1 same show ?thesis by auto
    next
      case b: (Some b)
      show ?thesis
      proof (cases "dval x \<le> dval (reserved b)")
        case True
        from f(3) [OF b True] obtain p u where s: "dval p = dval (reserved b) - dval x"
          "dval u = dval (consumed b) + dval x" "budget_ok (b\<lparr>reserved := p, consumed := u\<rparr>)"
          "coord_commit c k a =
             (Inr True, persist (set_budget c1 k (b\<lparr>reserved := p, consumed := u\<rparr>)))"
          by blast
        with e c1 True b v Some show ?thesis
          by (auto simp: persist_set_ok coord_view_set [OF ok Inr] counters_def intro!: exI [of _ b])
      next
        case False
        with f(2) [OF b] e c1 same show ?thesis by auto
      qed
    qed
  qed
qed

lemma refund_result:
  assumes ok: "coord_ok c" and e: "coord_refund c k a = (r, c')"
  shows "coord_ok c' \<and>
    (if r = Inr True then \<exists>x b. positive_amount a = Some x \<and>
         coord_view c k = Some (counters b) \<and> dval x \<le> dval (consumed b) \<and>
         coord_view c' = (coord_view c)(k \<mapsto>
           (dval (capacity b), dval (reserved b), dval (consumed b) - dval x))
     else coord_view c' = coord_view c)"
proof (cases "positive_amount a")
  case None
  with e ok show ?thesis by (auto simp: coord_refund_def)
next
  case (Some x)
  show ?thesis
  proof (cases "reload c")
    case (Inl ex)
    with Some e ok show ?thesis by (auto simp: coord_refund_def)
  next
    case (Inr c1)
    note f = refund_forms [OF ok Inr Some, where k = k]
    note v = coord_view_reload [OF ok Inr] and c1 = reload_ok(1) [OF ok Inr]
    note same = coord_view_same [OF Inr ok]
    show ?thesis
    proof (cases "map_of (resources c1) k")
      case None
      with f(1) e c1 same show ?thesis by auto
    next
      case b: (Some b)
      show ?thesis
      proof (cases "dval x \<le> dval (consumed b)")
        case True
        from f(3) [OF b True] obtain u where s: "dval u = dval (consumed b) - dval x"
          "budget_ok (b\<lparr>consumed := u\<rparr>)"
          "coord_refund c k a = (Inr True, persist (set_budget c1 k (b\<lparr>consumed := u\<rparr>)))"
          by blast
        with e c1 True b v Some show ?thesis
          by (auto simp: persist_set_ok coord_view_set [OF ok Inr] counters_def intro!: exI [of _ b])
      next
        case False
        with f(2) [OF b] e c1 same show ?thesis by auto
      qed
    qed
  qed
qed

lemma release_result:
  assumes ok: "coord_ok c" and e: "coord_release c k a = (r, c')"
  shows "coord_ok c' \<and>
    (coord_view c' = coord_view c \<or>
     (\<exists>x b. positive_amount a = Some x \<and> coord_view c k = Some (counters b) \<and>
        coord_view c' = (coord_view c)(k \<mapsto>
          (dval (capacity b), max 0 (dval (reserved b) - dval x), dval (consumed b)))))"
proof (cases "positive_amount a")
  case None
  with e ok show ?thesis by (auto simp: coord_release_def)
next
  case (Some x)
  show ?thesis
  proof (cases "reload c")
    case (Inl ex)
    with Some e ok show ?thesis by (auto simp: coord_release_def)
  next
    case (Inr c1)
    note f = release_forms [OF ok Inr Some, where k = k]
    note v = coord_view_reload [OF ok Inr] and c1 = reload_ok(1) [OF ok Inr]
    note same = coord_view_same [OF Inr ok]
    show ?thesis
    proof (cases "map_of (resources c1) k")
      case None
      with f(1) e c1 same show ?thesis by auto
    next
      case b: (Some b)
      from f(2) [OF b] obtain p where p: "dval p = dval (reserved b) - dval x"
        "budget_ok (b\<lparr>reserved := dmax0 p\<rparr>)"
        "coord_release c k a = (Inr (), persist (set_budget c1 k (b\<lparr>reserved := dmax0 p\<rparr>)))"
        by blast
      with e c1 b v Some show ?thesis
        by (auto simp: persist_set_ok coord_view_set [OF ok Inr] counters_def
            intro!: exI [of _ b])
    qed
  qed
qed

interpretation durable: budget_coordinator coord_ok coord_view
  coord_reserve coord_commit coord_refund coord_release
proof unfold_locales
  fix s k a r s'
  assume "coord_ok s"
  show "coord_ok (snd (coord_reserve s k a)) \<and> coord_ok (snd (coord_commit s k a)) \<and>
        coord_ok (snd (coord_refund s k a)) \<and> coord_ok (snd (coord_release s k a))"
    using reserve_result [OF \<open>coord_ok s\<close>] commit_result [OF \<open>coord_ok s\<close>]
      refund_result [OF \<open>coord_ok s\<close>] release_result [OF \<open>coord_ok s\<close>]
    by (metis prod.collapse)
next
  fix s k a s' and res :: "unit result"
  assume "coord_ok s" "coord_release s k a = (res, s')"
  from release_result [OF this] show "coord_view s' = coord_view s \<or>
       (\<exists>x c p u. positive_amount a = Some x \<and> coord_view s k = Some (c, p, u) \<and>
         coord_view s' = (coord_view s)(k \<mapsto> (c, max 0 (p - dval x), u)))"
    by (auto simp: counters_def)
qed (use coord_view_bounds in blast,
     (drule (1) reserve_result commit_result refund_result;
      auto simp: counters_def split: if_splits)+)

subsection \<open>Whole runs\<close>

datatype coord_op =
    OpRegister string amount_in amount_in amount_in
  | OpReserve string amount_in
  | OpCommit string amount_in
  | OpRelease string amount_in
  | OpRefund string amount_in

fun coord_step :: "coordinator \<Rightarrow> coord_op \<Rightarrow> coordinator" where
  "coord_step c (OpRegister k cap res con) = snd (coord_register c k cap res con)"
| "coord_step c (OpReserve k a) = snd (coord_reserve c k a)"
| "coord_step c (OpCommit k a) = snd (coord_commit c k a)"
| "coord_step c (OpRelease k a) = snd (coord_release c k a)"
| "coord_step c (OpRefund k a) = snd (coord_refund c k a)"

lemma register_result:
  assumes ok: "coord_ok c" and e: "coord_register c k cap res con = (r, c')"
  shows "coord_ok c' \<and>
    (coord_view c' = coord_view c \<or>
     (coord_view c k = None \<and> r = Inr () \<and>
      (\<exists>b. budget_ok b \<and> cap = AFin (capacity b) \<and> res = AFin (reserved b) \<and> con = AFin (consumed b) \<and>
        coord_view c' = (coord_view c)(k \<mapsto> counters b))))"
proof (cases "to_decimal cap")
  case (Inl ex)
  with e ok show ?thesis by (simp add: coord_register_def)
next
  case (Inr d)
  show ?thesis
  proof (cases "dneg_p d")
    case True
    with Inr e ok show ?thesis by (simp add: coord_register_def)
  next
    case False
    show ?thesis
    proof (cases "reload c")
      case (Inl ex)
      with Inr False e ok show ?thesis by (simp add: coord_register_def)
    next
      case rl: (Inr c1)
      note c1 = reload_ok(1) [OF ok rl] and same = coord_view_same [OF rl ok]
      note v = coord_view_reload [OF ok rl]
      show ?thesis
      proof (cases "c' = c1")
        case True
        with c1 same show ?thesis by simp
      next
        case new: False
        with e Inr False rl obtain p u t where none: "map_of (resources c1) k = None"
          and pu: "to_decimal res = Inr p" "to_decimal con = Inr u"
          and nn: "\<not> dneg_p p" "\<not> dneg_p u" and t: "decimal_add p u = Inr t" "\<not> dlt d t"
          and c': "r = Inr ()"
            "c' = persist (set_budget c1 k \<lparr>capacity = d, reserved = p, consumed = u\<rparr>)"
          by (auto simp: coord_register_def split: option.splits sum.splits if_splits)
        have b: "budget_ok \<lparr>capacity = d, reserved = p, consumed = u\<rparr>" (is "budget_ok ?b")
          using to_decimal_Inr [OF Inr] to_decimal_Inr [OF pu(1)] to_decimal_Inr [OF pu(2)]
            nn t decimal_add_dval [OF t(1)]
          by (simp add: budget_ok_def dneg_p_def dlt_dval not_less)
        have "coord_ok c'" unfolding c' by (rule persist_set_ok [OF c1 b])
        moreover have "coord_view c' = (coord_view c)(k \<mapsto> counters ?b)"
          unfolding c' by (rule coord_view_set [OF ok rl])
        moreover have "coord_view c k = None" using none v by simp
        ultimately show ?thesis
          using b c'(1) to_decimal_Inr [OF Inr] to_decimal_Inr [OF pu(1)] to_decimal_Inr [OF pu(2)]
          by (auto intro!: exI [of _ ?b])
      qed
    qed
  qed
qed

lemma coord_step_ok: "coord_ok c \<Longrightarrow> coord_ok (coord_step c r)"
  using durable.keeps_inv register_result
  by (cases r) (auto, metis prod.collapse)

interpretation coord_machine: machine coord_step coord_ok
  by unfold_locales (rule coord_step_ok)

text \<open>A resource, once registered, keeps its capacity through every operation.\<close>

definition caps_kept :: "coordinator \<Rightarrow> coordinator \<Rightarrow> bool" where
  "caps_kept c c' \<longleftrightarrow>
     (\<forall>k cap. map_option fst (coord_view c k) = Some cap \<longrightarrow>
        map_option fst (coord_view c' k) = Some cap)"

lemmas capacity_kept =
  durable.capacity_fixed [OF _ disjI1 [OF refl]]
  durable.capacity_fixed [OF _ disjI2 [OF disjI1 [OF refl]]]
  durable.capacity_fixed [OF _ disjI2 [OF disjI2 [OF disjI1 [OF refl]]]]
  durable.capacity_fixed [OF _ disjI2 [OF disjI2 [OF disjI2 [OF refl]]]]

lemma coord_step_caps: "coord_ok c \<Longrightarrow> caps_kept c (coord_step c r)"
proof (cases r)
  case (OpRegister k cap res con)
  assume "coord_ok c"
  from register_result [OF this, of k cap res con] OpRegister show ?thesis
    by (cases "coord_register c k cap res con") (auto simp: caps_kept_def)
qed (simp_all add: caps_kept_def capacity_kept del: map_option_eq_Some)

lemma caps_kept_refl: "caps_kept c c"
  by (simp add: caps_kept_def)

lemma caps_kept_trans: "caps_kept c d \<Longrightarrow> caps_kept d e \<Longrightarrow> caps_kept c e"
  by (simp add: caps_kept_def del: map_option_eq_Some)

interpretation coord_caps: machine_order coord_step coord_ok caps_kept
  by unfold_locales (fact caps_kept_refl, fact caps_kept_trans, fact coord_step_caps)

subsection \<open>Properties\<close>

text \<open>
  Every counter update is exact: whenever \<open>_decimal_add\<close> returns, its result is the
  mathematical sum, however far apart the magnitudes are, although each call rounds to a
  finite precision; and it returns for all operands whose exponent and magnitude are in
  bounds.
\<close>

theorem decimal_add_exact:
  shows "(arith_ok a \<and> arith_ok b) = (\<exists>s. decimal_add a b = Inr s \<and> dval s = dval a + dval b)"
  using decimal_add_Inr [of a b] decimal_add_dval [of a b]
  by (auto simp: decimal_add_def decimal_precision_pair split: if_splits)

text \<open>
  C26. Invariant I8 over every run: from a good state, whatever registrations, reservations,
  commits, releases and refunds arrive, in any order and with any arguments, the reserved and
  consumed totals of every resource stay non-negative and within its capacity.
\<close>

theorem coordinator_I8:
  assumes "coord_ok c" and "coord_view (foldl coord_step c rs) k = Some (cap, p, u)"
  shows "0 \<le> p \<and> 0 \<le> u \<and> p + u \<le> cap"
  using coord_machine.run_inv [OF assms(1)] assms(2) by (rule coord_view_bounds)

text \<open>
  \<open>reserve\<close> grants a request exactly when the amount is a positive bounded number, the
  resource is registered and the amount still fits its capacity; a grant adds exactly the
  amount to the reserved total, a refusal changes nothing.
\<close>

theorem coordinator_reserve_iff:
  assumes "coord_ok c" and "reload c = Inr c1" and "coord_reserve c k a = (r, c')"
  shows "(r = Inr True \<longleftrightarrow>
           (\<exists>x cap p u. positive_amount a = Some x \<and> coord_view c k = Some (cap, p, u) \<and>
              p + u + dval x \<le> cap)) \<and>
         (r = Inr True \<longrightarrow>
           (\<exists>x cap p u. positive_amount a = Some x \<and> coord_view c k = Some (cap, p, u) \<and>
              coord_view c' = (coord_view c)(k \<mapsto> (cap, p + dval x, u)))) \<and>
         (r \<noteq> Inr True \<longrightarrow> r = Inr False \<and> coord_view c' = coord_view c)"
proof (cases "positive_amount a")
  case None
  with assms(3) show ?thesis by (auto simp: coord_reserve_def)
next
  case (Some x)
  note f = reserve_forms [OF assms(1,2) Some, where k = k]
  note v = coord_view_reload [OF assms(1,2)]
  show ?thesis
  proof (cases "map_of (resources c1) k")
    case None
    with f(1) v assms coord_view_same [OF assms(2,1)] show ?thesis by auto
  next
    case b: (Some b)
    show ?thesis
    proof (cases "dval (reserved b) + dval (consumed b) + dval x \<le> dval (capacity b)")
      case True
      with f(3) [OF b True] reserve_result [OF assms(1,3)] assms(3) Some b v
      show ?thesis by (auto simp: counters_def)
    next
      case False
      with f(2) [OF b] v b Some assms coord_view_same [OF assms(2,1)]
      show ?thesis by (auto simp: counters_def)
    qed
  qed
qed

theorem coordinator_I8_witness:
  "let c = \<lparr>store_path = True, resources = [],
            store = dump [(''r'', \<lparr>capacity = Dec 10 0, reserved = Dec 0 0, consumed = Dec 0 0\<rparr>)]\<rparr>;
       c' = foldl coord_step c [OpReserve ''r'' (AFin (Dec 75 (-1))), OpCommit ''r'' (AFin (Dec 5 0))]
   in coord_view c' ''r'' = Some (10, 5/2, 5) \<and> (0 \<le> (5/2::rat) \<and> 0 \<le> (5::rat) \<and> 5/2 + 5 \<le> (10::rat))"
proof -
  let ?b = "\<lparr>capacity = Dec 10 0, reserved = Dec 0 0, consumed = Dec 0 0\<rparr>"
  let ?c = "\<lparr>store_path = True, resources = [], store = dump [(''r'', ?b)]\<rparr>"
  let ?ops = "[OpReserve ''r'' (AFin (Dec 75 (-1))), OpCommit ''r'' (AFin (Dec 5 0))]"
  have "in_range (Dec 10 0)" "in_range (Dec 0 0)"
    by (rule validate_in_range [THEN conjunct2], code_simp)+
  then have "budget_ok ?b" by (simp add: budget_ok_def dval_def)
  then have ok: "coord_ok ?c"
    by (auto simp: coord_ok_def store_ok_def all_ok_def intro!: exI [of _ "[(''r'', ?b)]"])
  have v: "coord_view (foldl coord_step ?c ?ops) ''r'' = Some (10, 5/2, 5)"
    by code_simp
  show ?thesis unfolding Let_def using v coordinator_I8 [OF ok v] by blast
qed

theorem coordinator_reserve_iff_witness:
  "let c = \<lparr>store_path = False,
            resources = [(''r'', \<lparr>capacity = Dec 10 0, reserved = Dec 0 0, consumed = Dec 0 0\<rparr>)],
            store = BAbsent\<rparr>
   in fst (coord_reserve c ''r'' (AFin (Dec 11 0))) = Inr False \<and>
      fst (coord_reserve c ''r'' (AFin (Dec 100 (-1)))) = Inr True"
proof -
  let ?b = "\<lparr>capacity = Dec 10 0, reserved = Dec 0 0, consumed = Dec 0 0\<rparr>"
  let ?c = "\<lparr>store_path = False, resources = [(''r'', ?b)], store = BAbsent\<rparr>"
  have "in_range (Dec 10 0)" "in_range (Dec 0 0)"
    by (rule validate_in_range [THEN conjunct2], code_simp)+
  then have "budget_ok ?b" by (simp add: budget_ok_def dval_def)
  then have ok: "coord_ok ?c" by (simp add: coord_ok_def store_ok_def all_ok_def)
  have rl: "reload ?c = Inr ?c" by (simp add: reload_def)
  have a: "positive_amount (AFin (Dec 11 0)) = Some (Dec 11 0)"
    "positive_amount (AFin (Dec 100 (-1))) = Some (Dec 100 (-1))" by code_simp+
  have v: "coord_view ?c ''r'' = Some (10, 0, 0)" by code_simp
  have d: "dval (Dec 11 0) = 11" "dval (Dec 100 (-1)) = 10" by code_simp+
  obtain r1 c1 where e1: "coord_reserve ?c ''r'' (AFin (Dec 11 0)) = (r1, c1)" by fastforce
  obtain r2 c2 where e2: "coord_reserve ?c ''r'' (AFin (Dec 100 (-1))) = (r2, c2)" by fastforce
  have "r1 = Inr False" using coordinator_reserve_iff [OF ok rl e1] v a d by simp
  moreover have "r2 = Inr True" using coordinator_reserve_iff [OF ok rl e2] v a d by simp
  ultimately show ?thesis using e1 e2 by simp
qed

text \<open>
  Two workers over one store file cannot act on stale memory: once the file exists, what
  an operation answers, and every counter afterwards, do not depend on what this process
  remembered before the call.
\<close>

theorem stale_memory_irrelevant:
  assumes "store_path c" and "store c \<noteq> BAbsent"
  shows "fst (coord_reserve (c\<lparr>resources := m\<rparr>) k a) = fst (coord_reserve c k a) \<and>
         coord_view (snd (coord_reserve (c\<lparr>resources := m\<rparr>) k a)) = coord_view (snd (coord_reserve c k a)) \<and>
         fst (coord_commit (c\<lparr>resources := m\<rparr>) k a) = fst (coord_commit c k a) \<and>
         coord_view (snd (coord_commit (c\<lparr>resources := m\<rparr>) k a)) = coord_view (snd (coord_commit c k a)) \<and>
         fst (coord_release (c\<lparr>resources := m\<rparr>) k a) = fst (coord_release c k a) \<and>
         coord_view (snd (coord_release (c\<lparr>resources := m\<rparr>) k a)) = coord_view (snd (coord_release c k a))"
proof -
  have same: "reload (c\<lparr>resources := m\<rparr>) = reload c"
    using assms by (simp add: reload_def)
  have view: "coord_view (c\<lparr>resources := m\<rparr>) = coord_view c"
    using assms by (simp add: coord_view_def fun_eq_iff)
  show ?thesis
    by (simp add: coord_reserve_def reload_and_check_def coord_commit_def coord_release_def
        same view split: option.split sum.split prod.split bool.split)
qed

theorem stale_memory_irrelevant_witness:
  "let c = \<lparr>store_path = True, resources = [],
            store = dump [(''r'', \<lparr>capacity = Dec 10 0, reserved = Dec 8 0, consumed = Dec 0 0\<rparr>)]\<rparr>;
       m = [(''r'', \<lparr>capacity = Dec 10 0, reserved = Dec 0 0, consumed = Dec 0 0\<rparr>)]
   in fst (coord_reserve (c\<lparr>resources := m\<rparr>) ''r'' (AFin (Dec 5 0))) = Inr False"
proof -
  let ?c = "\<lparr>store_path = True, resources = [],
            store = dump [(''r'', \<lparr>capacity = Dec 10 0, reserved = Dec 8 0, consumed = Dec 0 0\<rparr>)]\<rparr>"
  have "store_path ?c" "store ?c \<noteq> BAbsent" by (simp_all add: dump_def)
  note stale_memory_irrelevant [OF this, of _ "''r''" "AFin (Dec 5 0)"]
  moreover have "fst (coord_reserve ?c ''r'' (AFin (Dec 5 0))) = Inr False" by code_simp
  ultimately show ?thesis unfolding Let_def by simp
qed

lemma load_dump:
  assumes "all_ok d"
    and "\<forall>(k, b) \<in> set d. \<forall>v \<in> {capacity b, reserved b, consumed b}. ddigits v \<le> MAX_DECIMAL_DIGITS"
  shows "load (dump d) = Inr d"
proof -
  have valid: "validate_decimal_bounds v = Inr v"
    if "in_range v" "ddigits v \<le> MAX_DECIMAL_DIGITS" for v
    using that in_range_arith_ok [OF that(1)]
    by (auto simp: validate_decimal_bounds_def in_range_def arith_ok_def)
  have "load_entry (dump_entry kb) = Inr kb" if "kb \<in> set d" for kb
  proof -
    obtain k b where kb: "kb = (k, b)" by (cases kb)
    with assms that have ok: "budget_ok b"
      and dig: "ddigits (capacity b) \<le> MAX_DECIMAL_DIGITS" "ddigits (reserved b) \<le> MAX_DECIMAL_DIGITS"
        "ddigits (consumed b) \<le> MAX_DECIMAL_DIGITS"
      by (auto simp: all_ok_def)
    from ok have ir: "in_range (capacity b)" "in_range (reserved b)" "in_range (consumed b)"
      and nn: "0 \<le> dval (reserved b)" "0 \<le> dval (consumed b)"
        "dval (reserved b) + dval (consumed b) \<le> dval (capacity b)"
      by (auto simp: budget_ok_def)
    obtain t where t: "decimal_add (reserved b) (consumed b) = Inr t"
      using ir decimal_add_Inr in_range_arith_ok by metis
    from decimal_add_dval [OF t] nn
    have "\<not> dneg_p (capacity b)" "\<not> dneg_p (reserved b)" "\<not> dneg_p (consumed b)"
      "\<not> dlt (capacity b) t"
      by (auto simp: dneg_p_def dlt_dval)
    with ir dig t show ?thesis
      by (simp add: kb load_entry_def dump_entry_def valid)
  qed
  then have "mapE load_entry (map dump_entry d) = Inr (map (\<lambda>kb. kb) d)"
    by (induction d) auto
  then show ?thesis by (simp add: dump_def)
qed

text \<open>
  A limit of the store that the precision helper does not know: two granted reservations
  of very different magnitude give a reserved total with more than 128 digits. It is written
  to the file, and from then on every operation that reads the file raises
  \<open>RuntimeError\<close>, although no counter is wrong.
\<close>

theorem wide_total_bricks_store:
  "let c0 = \<lparr>store_path = True, resources = [],
             store = dump [(''r'', \<lparr>capacity = Dec 1 65, reserved = Dec 0 0, consumed = Dec 0 0\<rparr>)]\<rparr>;
       (r1, c1) = coord_reserve c0 ''r'' (AFin (Dec 1 64));
       (r2, c2) = coord_reserve c1 ''r'' (AFin (Dec 1 (-65)))
   in r1 = Inr True \<and> r2 = Inr True \<and> reload c2 = Inl RuntimeError \<and>
      coord_view c2 ''r'' = Some (10 ^ 65, 10 ^ 64 + 10 powi (-65), 0)"
proof -
  define b0 where "b0 = \<lparr>capacity = Dec 1 65, reserved = Dec 0 0, consumed = Dec 0 0\<rparr>"
  define c0 where "c0 = \<lparr>store_path = True, resources = [], store = dump [(''r'', b0)]\<rparr>"
  have ir: "in_range (Dec 1 65)" "in_range (Dec 0 0)" "in_range (Dec 1 64)" "in_range (Dec 1 (-65))"
    by (rule validate_in_range [THEN conjunct2], code_simp)+
  have pos: "positive_amount (AFin (Dec 1 64)) = Some (Dec 1 64)"
    "positive_amount (AFin (Dec 1 (-65))) = Some (Dec 1 (-65))" by code_simp+
  have d: "dval (Dec 1 65) = 10 ^ 65" "dval (Dec 0 0) = 0" "dval (Dec 1 64) = 10 ^ 64"
    "dval (Dec 1 (-65)) = 10 powi (-65)" by (simp_all add: dval_def)
  have b0: "budget_ok b0" using ir by (simp add: b0_def budget_ok_def d)
  then have ok0: "coord_ok c0"
    by (auto simp: c0_def coord_ok_def store_ok_def all_ok_def intro!: exI [of _ "[(''r'', b0)]"])
  have "load (dump [(''r'', b0)]) = Inr [(''r'', b0)]"
  proof (rule load_dump)
    show "all_ok [(''r'', b0)]" using b0 by (simp add: all_ok_def)
    have "ddigits (Dec 1 65) = 1" "ddigits (Dec 0 0) = 1" by code_simp+
    then show "\<forall>(k, b) \<in> set [(''r'', b0)]. \<forall>v \<in> {capacity b, reserved b, consumed b}.
        ddigits v \<le> MAX_DECIMAL_DIGITS"
      by (simp add: b0_def MAX_DECIMAL_DIGITS_def)
  qed
  then have rl0: "reload c0 = Inr (c0\<lparr>resources := [(''r'', b0)]\<rparr>)"
    by (simp add: reload_def c0_def dump_def)
  obtain s1 where s1: "dval s1 = 10 ^ 64" "budget_ok (b0\<lparr>reserved := s1\<rparr>)"
    and e1: "coord_reserve c0 ''r'' (AFin (Dec 1 64)) = (Inr True,
      persist (set_budget (c0\<lparr>resources := [(''r'', b0)]\<rparr>) ''r'' (b0\<lparr>reserved := s1\<rparr>)))"
    and add1: "decimal_add (Dec 0 0) (Dec 1 64) = Inr s1"
    using reserve_forms(3) [OF ok0 rl0 pos(1), of "''r''" b0] by (auto simp: b0_def d)
  define b1 where "b1 = b0\<lparr>reserved := s1\<rparr>"
  define c1 where "c1 = \<lparr>store_path = True, resources = [(''r'', b1)], store = dump [(''r'', b1)]\<rparr>"
  have e1': "coord_reserve c0 ''r'' (AFin (Dec 1 64)) = (Inr True, c1)"
    using e1 by (simp add: b1_def c1_def c0_def persist_def set_budget_def)
  have ex1: "0 \<le> expo s1" using decimal_add_cases [OF add1] by simp
  have nz: "coef s1 \<noteq> 0" using s1(1) by auto
  have "(10::rat) ^ 65 * 1 \<le> 10 ^ 65 * 10 powi expo s1"
    using power_int_increasing [of 0 "expo s1" "10::rat"] ex1 by simp
  then have dig: "ddigits s1 \<le> 65" using s1(1) by (intro ddigits_at_most) simp_all
  have ok1: "coord_ok c1"
    using s1(2) by (auto simp: c1_def b1_def coord_ok_def store_ok_def all_ok_def
        intro!: exI [of _ "[(''r'', b0\<lparr>reserved := s1\<rparr>)]"])
  have "load (dump [(''r'', b1)]) = Inr [(''r'', b1)]"
  proof (rule load_dump)
    show "all_ok [(''r'', b1)]" using s1(2) by (simp add: all_ok_def b1_def)
    have "ddigits (Dec 1 65) = 1" "ddigits (Dec 0 0) = 1" by code_simp+
    with dig show "\<forall>(k, b) \<in> set [(''r'', b1)]. \<forall>v \<in> {capacity b, reserved b, consumed b}.
        ddigits v \<le> MAX_DECIMAL_DIGITS"
      by (simp add: b1_def b0_def MAX_DECIMAL_DIGITS_def)
  qed
  then have rl1: "reload c1 = Inr c1" by (simp add: reload_def c1_def dump_def)
  have small: "(10::rat) powi (-65) \<le> 1" by simp
  obtain s2 where s2: "dval s2 = 10 ^ 64 + 10 powi (-65)" "budget_ok (b1\<lparr>reserved := s2\<rparr>)"
    and e2: "coord_reserve c1 ''r'' (AFin (Dec 1 (-65))) = (Inr True,
      persist (set_budget c1 ''r'' (b1\<lparr>reserved := s2\<rparr>)))"
    and add2: "decimal_add s1 (Dec 1 (-65)) = Inr s2"
    using reserve_forms(3) [OF ok1 rl1 pos(2), of "''r''" b1] small
    by (auto simp: c1_def b1_def b0_def d s1)
  define c2 where "c2 = persist (set_budget c1 ''r'' (b1\<lparr>reserved := s2\<rparr>))"
  have "s2 = dadd_exact s1 (Dec 1 (-65))"
    by (rule decimal_add_nonzero [OF nz _ add2]) simp
  then have "expo s2 = -65" using ex1 by (simp add: dadd_exact_def)
  then have "10 ^ 128 * 10 powi expo s2 \<le> \<bar>dval s2\<bar>" by (simp add: s2)
  then have "validate_decimal_bounds s2 = Inl ValueError"
    by (intro validate_too_long) (simp add: MAX_DECIMAL_DIGITS_def ddigits_greater)
  then have bad: "reload c2 = Inl RuntimeError"
    by (cases "validate_decimal_bounds (Dec 1 65)")
      (simp_all add: c2_def c1_def b1_def b0_def persist_def set_budget_def reload_def dump_def
        dump_entry_def load_entry_def)
  have "coord_view c2 ''r'' = Some (10 ^ 65, 10 ^ 64 + 10 powi (-65), 0)"
    by (simp add: c2_def coord_view_persist c1_def b1_def b0_def counters_def s2 d del: power_int_numeral)
  with bad e1' e2 show ?thesis
    by (simp add: Let_def c0_def [symmetric] b0_def [symmetric] c2_def [symmetric] del: power_int_numeral)
qed

text \<open>
  Restart is lossless while totals stay representable: a store written from counters of at
  most 128 digits loads back to exactly the same dictionary, entry for entry.
\<close>

theorem store_roundtrip:
  assumes "all_ok d"
    and "\<forall>(k, b) \<in> set d. \<forall>v \<in> {capacity b, reserved b, consumed b}. ddigits v \<le> MAX_DECIMAL_DIGITS"
  shows "load (dump d) = Inr d"
  using assms by (rule load_dump)

theorem store_roundtrip_witness:
  "load (dump [(''r'', \<lparr>capacity = Dec 100 (-1), reserved = Dec 0 0, consumed = Dec 0 0\<rparr>)]) =
   Inr [(''r'', \<lparr>capacity = Dec 100 (-1), reserved = Dec 0 0, consumed = Dec 0 0\<rparr>)]"
proof (rule store_roundtrip)
  have "in_range (Dec 100 (-1))" "in_range (Dec 0 0)"
    by (rule validate_in_range [THEN conjunct2], code_simp)+
  then show "all_ok [(''r'', \<lparr>capacity = Dec 100 (-1), reserved = Dec 0 0, consumed = Dec 0 0\<rparr>)]"
    by (simp add: all_ok_def budget_ok_def dval_def)
  show "\<forall>(k, b) \<in> set [(''r'', \<lparr>capacity = Dec 100 (-1), reserved = Dec 0 0, consumed = Dec 0 0\<rparr>)].
    \<forall>v \<in> {capacity b, reserved b, consumed b}. ddigits v \<le> MAX_DECIMAL_DIGITS"
    by code_simp
qed

end
