(* ===== verification/Consensus_Backend.thy ===== *)
theory Consensus_Backend
  imports Budget
begin

section \<open>The single-host consensus backend and its transaction journal\<close>

text \<open>
  \<open>SingleHostLockBackend\<close> of \<open>tenir_governance/operations/consensus_backend.py\<close>: the durable
  budget coordinator, a reservation registry file and a journal file holding at most one
  transaction. Each file is replaced atomically, so an operation is a result together with the
  list of durable images it passes through; a crash leaves one of them, and the next process
  starts from it with empty memory. Operations hold the file lock, so they do not interleave.
  The identifier \<open>uuid4\<close> returns, the clock and the provider's answer are arguments.
  Operating-system errors of a file replacement are not modelled.
\<close>

datatype rstate = RESERVED | UNKNOWN | COMMITTED | RELEASED | REFUNDED | OtherState string

record reservation =
  rkey :: string
  amount :: dec
  resource_id :: string
  rstate :: rstate
  created_at :: rat
  committed_at :: "rat option"
  released_at :: "rat option"
  refunded_at :: "rat option"

text \<open>The status strings of the result types, shared by every backend.\<close>

datatype status =
    St rstate
  | DUPLICATE_KEY | INSUFFICIENT_BUDGET | INVALID_AMOUNT | INVALID_REQUEST | UNKNOWN_RESOURCE
  | NOT_FOUND | ALREADY_COMMITTED | ALREADY_RELEASED | ALREADY_REFUNDED | NOT_COMMITTED
  | CONFIRMED | FAILED | UNRESOLVED | RECONCILE_CONFLICT | ERROR

text \<open>A stored reservation, or an entry that is not an object or lacks a required field.\<close>

datatype resv_entry = BadEntry | Entry reservation

datatype resv_file = RAbsent | RUnreadable | RStored "(string, resv_entry) dict"

datatype tx_op = TxReserve | TxCommit | TxRelease | TxRefund

record snapshot =
  snap_reserved :: dec
  snap_consumed :: dec
  snap_capacity :: dec

record transaction =
  tx_op :: tx_op
  tx_rid :: string
  tx_record :: reservation
  tx_before :: snapshot
  tx_after :: snapshot

datatype journal_file = JAbsent | JCorrupt | JTx transaction

record backend =
  coord :: coordinator
  resv :: resv_file
  journal :: journal_file

type_synonym 'a traced = "'a result \<times> backend list"

definition final :: "backend \<Rightarrow> 'a traced \<Rightarrow> backend" where
  "final d run = (if snd run = [] then d else last (snd run))"

subsection \<open>Files\<close>

fun entry_record :: "string \<times> resv_entry \<Rightarrow> (string \<times> reservation) result" where
  "entry_record (k, BadEntry) = Inl ValueError"
| "entry_record (k, Entry r) = Inr (k, r)"

fun load_reservations :: "resv_file \<Rightarrow> (string, reservation) dict result" where
  "load_reservations RAbsent = Inr []"
| "load_reservations RUnreadable = Inl RuntimeError"
| "load_reservations (RStored d) =
     (case mapE entry_record d of Inl _ \<Rightarrow> Inl RuntimeError | Inr rs \<Rightarrow> Inr rs)"

definition persist_reservations :: "backend \<Rightarrow> (string, reservation) dict \<Rightarrow> backend" where
  "persist_reservations d rs = d\<lparr>resv := RStored (map (\<lambda>(k, r). (k, Entry r)) rs)\<rparr>"

definition persist_transaction :: "backend \<Rightarrow> transaction \<Rightarrow> backend" where
  "persist_transaction d tx = d\<lparr>journal := JTx tx\<rparr>"

definition clear_transaction :: "backend \<Rightarrow> backend" where
  "clear_transaction d = d\<lparr>journal := JAbsent\<rparr>"

definition snapshot_of :: "coordinator \<Rightarrow> string \<Rightarrow> snapshot coord_run" where
  "snapshot_of c rid =
     (case coord_get_state c rid of
        (Inl e, c1) \<Rightarrow> (Inl e, c1)
      | (Inr None, c1) \<Rightarrow> (Inl RuntimeError, c1)
      | (Inr (Some (av, r, u, cap)), c1) \<Rightarrow>
          (Inr \<lparr>snap_reserved = r, snap_consumed = u, snap_capacity = cap\<rparr>, c1))"

subsection \<open>Recovery\<close>

definition snapshot_valid :: "snapshot \<Rightarrow> bool" where
  "snapshot_valid s \<longleftrightarrow>
     \<not> dneg_p (snap_reserved s) \<and> \<not> dneg_p (snap_consumed s) \<and> \<not> dneg_p (snap_capacity s)"

definition tx_valid :: "transaction \<Rightarrow> bool" where
  "tx_valid tx \<longleftrightarrow>
     tx_rid tx \<noteq> [] \<and> snapshot_valid (tx_before tx) \<and> snapshot_valid (tx_after tx)"

text \<open>The registry side of a replayed transaction.\<close>

definition replay_record ::
  "transaction \<Rightarrow> (string, reservation) dict \<Rightarrow> (string, reservation) dict result" where
  "replay_record tx rs =
     (case tx_op tx of
        TxReserve \<Rightarrow> Inr (dput (tx_rid tx) (tx_record tx) rs)
      | _ \<Rightarrow>
        (case map_of rs (tx_rid tx) of
           None \<Rightarrow> Inl RuntimeError
         | Some old \<Rightarrow>
           (let e = old\<lparr>rstate := rstate (tx_record tx)\<rparr>;
                e' = (case tx_op tx of
                        TxCommit \<Rightarrow> e\<lparr>committed_at := committed_at (tx_record tx)\<rparr>
                      | TxRelease \<Rightarrow> e\<lparr>released_at := released_at (tx_record tx)\<rparr>
                      | _ \<Rightarrow> e\<lparr>refunded_at := refunded_at (tx_record tx)\<rparr>)
            in Inr (dput (tx_rid tx) e' rs))))"

definition recover_pending :: "backend \<Rightarrow> backend result" where
  "recover_pending d =
     (case journal d of
        JAbsent \<Rightarrow> Inr d
      | JCorrupt \<Rightarrow> Inl RuntimeError
      | JTx tx \<Rightarrow>
        if \<not> tx_valid tx then Inl RuntimeError
        else case snapshot_of (coord d) (resource_id (tx_record tx)) of
          (Inl _, _) \<Rightarrow> Inl RuntimeError
        | (Inr current, c1) \<Rightarrow>
          (let d1 = d\<lparr>coord := c1\<rparr> in
           if current = tx_after tx then
             bindE (load_reservations (resv d1)) (\<lambda>rs.
             bindE (replay_record tx rs) (\<lambda>rs'.
               Inr (clear_transaction (persist_reservations d1 rs'))))
           else if current \<noteq> tx_before tx then Inl RuntimeError
           else Inr (clear_transaction d1)))"

text \<open>\<open>__init__\<close> over files left by another process: a fresh coordinator, then recovery.\<close>

definition restart :: "backend \<Rightarrow> backend result" where
  "restart d =
     bindE (coord_new True (store (coord d))) (\<lambda>c. recover_pending (d\<lparr>coord := c\<rparr>))"

subsection \<open>The operations\<close>

text \<open>
  The write sequence every mutation follows: journal, budget, registry, clear. \<open>mutate\<close> is
  the coordinator call; a refusal clears the journal again.
\<close>

definition journaled ::
  "backend \<Rightarrow> transaction \<Rightarrow> (coordinator \<Rightarrow> bool coord_run) \<Rightarrow> (string, reservation) dict \<Rightarrow>
   'a \<Rightarrow> 'a \<Rightarrow> 'a traced" where
  "journaled d tx mutate rs' done refused =
     (let d1 = persist_transaction d tx in
      case mutate (coord d1) of
        (Inl e, c2) \<Rightarrow> (Inl e, [d1, d1\<lparr>coord := c2\<rparr>])
      | (Inr False, c2) \<Rightarrow> (Inr refused, [d1, clear_transaction (d1\<lparr>coord := c2\<rparr>)])
      | (Inr True, c2) \<Rightarrow>
          (let d2 = d1\<lparr>coord := c2\<rparr>;
               d3 = persist_reservations d2 rs'
           in (Inr done, [d1, d2, d3, clear_transaction d3])))"

definition valid_amount :: "amount_in \<Rightarrow> dec option" where
  "valid_amount a =
     (case a of AFin d \<Rightarrow> (if dlt dzero d then Some d else None) | _ \<Rightarrow> None)"

definition find_key :: "string \<Rightarrow> (string, reservation) dict \<Rightarrow> (string \<times> reservation) option" where
  "find_key key rs = find (\<lambda>(rid, r). rkey r = key) rs"

text \<open>\<open>reserve\<close> returns the status and, on success, the reservation identifier.\<close>

definition backend_reserve ::
  "backend \<Rightarrow> string \<Rightarrow> amount_in \<Rightarrow> string \<Rightarrow> string \<Rightarrow> rat \<Rightarrow> (status \<times> string option) traced" where
  "backend_reserve d key a res_id uuid now =
     (case valid_amount a of
        None \<Rightarrow> (Inr (INVALID_AMOUNT, None), [])
      | Some x \<Rightarrow>
        (case load_reservations (resv d) of
           Inl e \<Rightarrow> (Inl e, [])
         | Inr rs \<Rightarrow>
           (case find_key key rs of
              Some (rid, r) \<Rightarrow>
                if deq (amount r) x \<and> resource_id r = res_id
                then (Inr (St (rstate r), Some rid), [])
                else (Inr (DUPLICATE_KEY, None), [])
            | None \<Rightarrow>
              (let r = \<lparr>rkey = key, amount = x, resource_id = res_id, rstate = RESERVED,
                        created_at = now, committed_at = None, released_at = None,
                        refunded_at = None\<rparr>
               in case snapshot_of (coord d) res_id of
                    (Inl e, c1) \<Rightarrow> (Inl e, [d\<lparr>coord := c1\<rparr>])
                  | (Inr before, c1) \<Rightarrow>
                    (case decimal_add (snap_reserved before) x of
                       Inl e \<Rightarrow> (Inl e, [d\<lparr>coord := c1\<rparr>])
                     | Inr s \<Rightarrow>
                       journaled (d\<lparr>coord := c1\<rparr>)
                         \<lparr>tx_op = TxReserve, tx_rid = uuid, tx_record = r, tx_before = before,
                          tx_after = before\<lparr>snap_reserved := s\<rparr>\<rparr>
                         (\<lambda>c. coord_reserve c res_id (AFin x)) (dput uuid r rs)
                         (St RESERVED, Some uuid) (INSUFFICIENT_BUDGET, None))))))"

text \<open>The part \<open>commit\<close> and a confirming \<open>reconcile\<close> share.\<close>

definition commit_record ::
  "backend \<Rightarrow> (string, reservation) dict \<Rightarrow> string \<Rightarrow> reservation \<Rightarrow> rat \<Rightarrow> status \<Rightarrow> status traced" where
  "commit_record d rs rid r now done =
     (case snapshot_of (coord d) (resource_id r) of
        (Inl e, c1) \<Rightarrow> (Inl e, [d\<lparr>coord := c1\<rparr>])
      | (Inr before, c1) \<Rightarrow>
        (let d0 = d\<lparr>coord := c1\<rparr> in
         if dlt (snap_reserved before) (amount r) then (Inr ERROR, [d0])
         else case (decimal_subtract (snap_reserved before) (amount r),
                    decimal_add (snap_consumed before) (amount r)) of
                (Inl e, _) \<Rightarrow> (Inl e, [d0])
              | (_, Inl e) \<Rightarrow> (Inl e, [d0])
              | (Inr s, Inr u) \<Rightarrow>
                (let r' = r\<lparr>rstate := COMMITTED, committed_at := Some now\<rparr>
                 in journaled d0
                      \<lparr>tx_op = TxCommit, tx_rid = rid, tx_record = r', tx_before = before,
                       tx_after = before\<lparr>snap_reserved := s, snap_consumed := u\<rparr>\<rparr>
                      (\<lambda>c. coord_commit c (resource_id r) (AFin (amount r)))
                      (dput rid r' rs) done ERROR)))"

definition release_record ::
  "backend \<Rightarrow> (string, reservation) dict \<Rightarrow> string \<Rightarrow> reservation \<Rightarrow> rat \<Rightarrow> status \<Rightarrow> status traced" where
  "release_record d rs rid r now done =
     (case snapshot_of (coord d) (resource_id r) of
        (Inl e, c1) \<Rightarrow> (Inl e, [d\<lparr>coord := c1\<rparr>])
      | (Inr before, c1) \<Rightarrow>
        (let d0 = d\<lparr>coord := c1\<rparr> in
         if dlt (snap_reserved before) (amount r) then (Inr ERROR, [d0])
         else case decimal_subtract (snap_reserved before) (amount r) of
                Inl e \<Rightarrow> (Inl e, [d0])
              | Inr s \<Rightarrow>
                (let r' = r\<lparr>rstate := RELEASED, released_at := Some now\<rparr>
                 in journaled d0
                      \<lparr>tx_op = TxRelease, tx_rid = rid, tx_record = r', tx_before = before,
                       tx_after = before\<lparr>snap_reserved := s\<rparr>\<rparr>
                      (\<lambda>c. case coord_release c (resource_id r) (AFin (amount r)) of
                             (Inl e, c2) \<Rightarrow> (Inl e, c2) | (Inr _, c2) \<Rightarrow> (Inr True, c2))
                      (dput rid r' rs) done ERROR)))"

definition backend_commit :: "backend \<Rightarrow> string \<Rightarrow> rat \<Rightarrow> status traced" where
  "backend_commit d rid now =
     (case load_reservations (resv d) of
        Inl e \<Rightarrow> (Inl e, [])
      | Inr rs \<Rightarrow>
        (case map_of rs rid of
           None \<Rightarrow> (Inr NOT_FOUND, [])
         | Some r \<Rightarrow>
           if rstate r = COMMITTED then (Inr ALREADY_COMMITTED, [])
           else if rstate r \<noteq> RESERVED then (Inr ERROR, [])
           else commit_record d rs rid r now (St COMMITTED)))"

definition backend_release :: "backend \<Rightarrow> string \<Rightarrow> rat \<Rightarrow> status traced" where
  "backend_release d rid now =
     (case load_reservations (resv d) of
        Inl e \<Rightarrow> (Inl e, [])
      | Inr rs \<Rightarrow>
        (case map_of rs rid of
           None \<Rightarrow> (Inr NOT_FOUND, [])
         | Some r \<Rightarrow>
           if rstate r = COMMITTED then (Inr ALREADY_COMMITTED, [])
           else if rstate r = RELEASED then (Inr ALREADY_RELEASED, [])
           else if rstate r \<noteq> RESERVED then (Inr ERROR, [])
           else release_record d rs rid r now (St RELEASED)))"

definition backend_refund :: "backend \<Rightarrow> string \<Rightarrow> rat \<Rightarrow> status traced" where
  "backend_refund d rid now =
     (case load_reservations (resv d) of
        Inl e \<Rightarrow> (Inl e, [])
      | Inr rs \<Rightarrow>
        (case map_of rs rid of
           None \<Rightarrow> (Inr NOT_FOUND, [])
         | Some r \<Rightarrow>
           if rstate r = REFUNDED then (Inr ALREADY_REFUNDED, [])
           else if rstate r \<noteq> COMMITTED then (Inr NOT_COMMITTED, [])
           else case snapshot_of (coord d) (resource_id r) of
             (Inl e, c1) \<Rightarrow> (Inl e, [d\<lparr>coord := c1\<rparr>])
           | (Inr before, c1) \<Rightarrow>
             (let d0 = d\<lparr>coord := c1\<rparr> in
              if dlt (snap_consumed before) (amount r) then (Inr ERROR, [d0])
              else case decimal_subtract (snap_consumed before) (amount r) of
                     Inl e \<Rightarrow> (Inl e, [d0])
                   | Inr u \<Rightarrow>
                     (let r' = r\<lparr>rstate := REFUNDED, refunded_at := Some now\<rparr>
                      in journaled d0
                           \<lparr>tx_op = TxRefund, tx_rid = rid, tx_record = r', tx_before = before,
                            tx_after = before\<lparr>snap_consumed := u\<rparr>\<rparr>
                           (\<lambda>c. coord_refund c (resource_id r) (AFin (amount r)))
                           (dput rid r' rs) (St REFUNDED) ERROR))))"

text \<open>
  The provider: absent, or a call that may raise (\<open>Inl\<close>) or answer true, false or nothing.
\<close>

type_synonym provider = "(string \<Rightarrow> bool option result) option"

definition backend_reconcile :: "backend \<Rightarrow> provider \<Rightarrow> string \<Rightarrow> rat \<Rightarrow> status traced" where
  "backend_reconcile d prov key now =
     (case load_reservations (resv d) of
        Inl e \<Rightarrow> (Inl e, [])
      | Inr rs \<Rightarrow>
        (case find (\<lambda>(rid, r). rkey r = key \<and> (rstate r = UNKNOWN \<or> rstate r = RESERVED)) rs of
           None \<Rightarrow> (Inr NOT_FOUND, [])
         | Some (rid, r) \<Rightarrow>
           (let unknown = persist_reservations d (dput rid (r\<lparr>rstate := UNKNOWN\<rparr>) rs) in
            case prov of
              None \<Rightarrow> (Inr UNRESOLVED, [unknown])
            | Some f \<Rightarrow>
              (case f key of
                 Inl _ \<Rightarrow> (Inr ERROR, [])
               | Inr (Some True) \<Rightarrow> commit_record d rs rid r now CONFIRMED
               | Inr (Some False) \<Rightarrow> release_record d rs rid r now FAILED
               | Inr None \<Rightarrow> (Inr UNRESOLVED, [unknown])))))"

text \<open>\<open>register_resource\<close>: counters start at \<open>0.0\<close>.\<close>

definition backend_register :: "backend \<Rightarrow> string \<Rightarrow> amount_in \<Rightarrow> unit traced" where
  "backend_register d res_id cap =
     (case cap of
        AFin x \<Rightarrow>
          if dneg_p x then (Inl ValueError, [])
          else (let (r, c1) = coord_register (coord d) res_id cap (AFin (Dec 0 (-1))) (AFin (Dec 0 (-1)))
                in (r, [d\<lparr>coord := c1\<rparr>]))
      | _ \<Rightarrow> (Inl ValueError, []))"

text \<open>\<open>get_state\<close>: available, reserved, committed, capacity, and the resource's reservations.\<close>

definition backend_get_state ::
  "backend \<Rightarrow> string \<Rightarrow> (dec \<times> dec \<times> dec \<times> dec \<times> (string \<times> string \<times> dec \<times> rstate) list) coord_run" where
  "backend_get_state d k =
     (case coord_get_state (coord d) k of
        (Inl e, c1) \<Rightarrow> (Inl e, c1)
      | (Inr None, c1) \<Rightarrow> (Inr (dzero, dzero, dzero, dzero, []), c1)
      | (Inr (Some (av, r, u, cap)), c1) \<Rightarrow>
        (case load_reservations (resv d) of
           Inl e \<Rightarrow> (Inl e, c1)
         | Inr rs \<Rightarrow>
           (Inr (av, r, u, cap,
                 map (\<lambda>(rid, q). (rid, rkey q, amount q, rstate q))
                   (filter (\<lambda>(rid, q). resource_id q = k) rs)), c1)))"

subsection \<open>The ledger invariant\<close>

text \<open>
  What the reservations of the registry say a resource should have reserved and consumed:
  open reservations (\<open>RESERVED\<close>, \<open>UNKNOWN\<close>) are held, committed ones are spent.
\<close>

definition is_open :: "rstate \<Rightarrow> bool" where
  "is_open s \<longleftrightarrow> s = RESERVED \<or> s = UNKNOWN"

definition held_weight :: "string \<Rightarrow> reservation \<Rightarrow> rat" where
  "held_weight k r = (if resource_id r = k \<and> is_open (rstate r) then dval (amount r) else 0)"

definition spent_weight :: "string \<Rightarrow> reservation \<Rightarrow> rat" where
  "spent_weight k r = (if resource_id r = k \<and> rstate r = COMMITTED then dval (amount r) else 0)"

definition held :: "(string, reservation) dict \<Rightarrow> string \<Rightarrow> rat" where
  "held rs k = dict_sum (held_weight k) rs"

definition spent :: "(string, reservation) dict \<Rightarrow> string \<Rightarrow> rat" where
  "spent rs k = dict_sum (spent_weight k) rs"

definition ledger_ok ::
  "(string \<Rightarrow> (rat \<times> rat \<times> rat) option) \<Rightarrow> (string, reservation) dict \<Rightarrow> bool" where
  "ledger_ok v rs \<longleftrightarrow>
     (\<forall>k. case v k of
            None \<Rightarrow> held rs k = 0 \<and> spent rs k = 0
          | Some (cap, p, u) \<Rightarrow> held rs k = p \<and> spent rs k = u)"

text \<open>Amounts in the registry passed the coordinator's own check.\<close>

definition amounts_ok :: "(string, reservation) dict \<Rightarrow> bool" where
  "amounts_ok rs \<longleftrightarrow>
     wf_dict rs \<and>
     (\<forall>(k, r) \<in> set rs. k \<noteq> [] \<and> positive_amount (AFin (amount r)) = Some (amount r))"

text \<open>One reservation per idempotency key.\<close>

definition keys_ok :: "(string, reservation) dict \<Rightarrow> bool" where
  "keys_ok rs \<longleftrightarrow> distinct (map (\<lambda>kv. rkey (snd kv)) rs)"

definition resv_is :: "resv_file \<Rightarrow> (string, reservation) dict \<Rightarrow> bool" where
  "resv_is f rs \<longleftrightarrow> (f = RAbsent \<and> rs = []) \<or> f = RStored (map (\<lambda>(k, r). (k, Entry r)) rs)"

definition coord_durable :: "coordinator \<Rightarrow> bool" where
  "coord_durable c \<longleftrightarrow> store_path c \<and> (store c = BAbsent \<longrightarrow> resources c = [])"

definition backend_ok :: "backend \<Rightarrow> bool" where
  "backend_ok d \<longleftrightarrow>
     coord_ok (coord d) \<and> coord_durable (coord d) \<and> journal d = JAbsent \<and>
     (\<exists>rs. resv_is (resv d) rs \<and> amounts_ok rs \<and> keys_ok rs \<and> ledger_ok (coord_view (coord d)) rs)"

lemma load_stored: "mapE entry_record (map (\<lambda>(k, r). (k, Entry r)) rs) = Inr rs"
  by (induction rs) auto

lemma load_resv_is: "resv_is f rs \<Longrightarrow> load_reservations f = Inr rs"
  by (auto simp: resv_is_def load_stored)

lemma resv_is_unique: "resv_is f rs \<Longrightarrow> resv_is f rs' \<Longrightarrow> rs' = rs"
  by (metis load_resv_is sum.inject(2))

lemma resv_is_persist [simp]: "resv_is (resv (persist_reservations d rs)) rs"
  by (simp add: persist_reservations_def resv_is_def)

lemma backend_file_simps [simp]:
  "coord (persist_reservations d rs) = coord d" "journal (persist_reservations d rs) = journal d"
  "coord (persist_transaction d tx) = coord d" "resv (persist_transaction d tx) = resv d"
  "journal (persist_transaction d tx) = JTx tx"
  "coord (clear_transaction d) = coord d" "resv (clear_transaction d) = resv d"
  "journal (clear_transaction d) = JAbsent"
  by (simp_all add: persist_reservations_def persist_transaction_def clear_transaction_def)

lemma amounts_okD:
  "amounts_ok rs \<Longrightarrow> map_of rs rid = Some r \<Longrightarrow>
     rid \<noteq> [] \<and> positive_amount (AFin (amount r)) = Some (amount r)"
  by (auto simp: amounts_ok_def dest!: map_of_SomeD)

lemma amounts_ok_dput:
  "amounts_ok rs \<Longrightarrow> rid \<noteq> [] \<Longrightarrow> positive_amount (AFin (amount r)) = Some (amount r) \<Longrightarrow>
   amounts_ok (dput rid r rs)"
  by (auto simp: amounts_ok_def dest!: in_set_dput)

lemma keys_ok_dput_old:
  "keys_ok rs \<Longrightarrow> map_of rs rid = Some r0 \<Longrightarrow> rkey r = rkey r0 \<Longrightarrow> keys_ok (dput rid r rs)"
proof -
  assume r0: "map_of rs rid = Some r0" and k: "rkey r = rkey r0" and "keys_ok rs"
  from r0 k have "map (\<lambda>kv. rkey (snd kv)) (dput rid r rs) = map (\<lambda>kv. rkey (snd kv)) rs"
    by (induction rs) (auto split: if_splits)
  with \<open>keys_ok rs\<close> show ?thesis by (simp add: keys_ok_def)
qed

lemma find_key_None: "find_key key rs = None \<longleftrightarrow> (\<forall>kv \<in> set rs. rkey (snd kv) \<noteq> key)"
  by (fastforce simp: find_key_def find_None_iff)

lemma keys_ok_dput_new:
  "keys_ok rs \<Longrightarrow> map_of rs rid = None \<Longrightarrow> find_key (rkey r) rs = None \<Longrightarrow> keys_ok (dput rid r rs)"
  by (auto simp: keys_ok_def dput_new find_key_None)

text \<open>One registry update moves the two totals by the difference of the weights.\<close>

lemma held_dput_old:
  "map_of rs rid = Some r0 \<Longrightarrow> held (dput rid r rs) k = held rs k - held_weight k r0 + held_weight k r"
  by (simp add: held_def dict_sum_dput_old)

lemma spent_dput_old:
  "map_of rs rid = Some r0 \<Longrightarrow> spent (dput rid r rs) k = spent rs k - spent_weight k r0 + spent_weight k r"
  by (simp add: spent_def dict_sum_dput_old)

lemma held_dput_new: "map_of rs rid = None \<Longrightarrow> held (dput rid r rs) k = held rs k + held_weight k r"
  by (simp add: held_def dict_sum_dput_new)

lemma spent_dput_new: "map_of rs rid = None \<Longrightarrow> spent (dput rid r rs) k = spent rs k + spent_weight k r"
  by (simp add: spent_def dict_sum_dput_new)

lemmas total_updates = held_dput_old spent_dput_old held_dput_new spent_dput_new

subsection \<open>Snapshots\<close>

definition snap :: "budget \<Rightarrow> snapshot" where
  "snap b = \<lparr>snap_reserved = reserved b, snap_consumed = consumed b, snap_capacity = capacity b\<rparr>"

lemma snap_simps [simp]:
  "snap_reserved (snap b) = reserved b" "snap_consumed (snap b) = consumed b"
  "snap_capacity (snap b) = capacity b"
  by (simp_all add: snap_def)

lemma snapshot_ofD:
  "snapshot_of c k = (Inr s, c1) \<Longrightarrow>
     reload c = Inr c1 \<and> (\<exists>b. map_of (resources c1) k = Some b \<and> s = snap b)"
  by (auto simp: snapshot_of_def coord_get_state_def snap_def
      split: sum.splits option.splits prod.splits)

lemma snapshot_of_coord: "snapshot_of c k = (r, c1) \<Longrightarrow> c1 = c \<or> reload c = Inr c1"
  by (auto simp: snapshot_of_def coord_get_state_def
      split: sum.splits option.splits prod.splits)

lemma snapshot_of_Inr:
  assumes "coord_ok c" and "reload c = Inr c1" and "map_of (resources c1) k = Some b"
  shows "snapshot_of c k = (Inr (snap b), c1)"
proof -
  have "budget_ok b" using reload_ok(1) [OF assms(1,2)] assms(3) by (rule coord_okD)
  then obtain av where "available b = Inr av" by (rule budget_ok_available)
  with assms(2,3) show ?thesis by (simp add: snapshot_of_def coord_get_state_def snap_def)
qed

lemma snapshot_valid_snap: "budget_ok b \<Longrightarrow> snapshot_valid (snap b)"
  using budget_ok_total [of b]
  by (auto simp: snapshot_valid_def dneg_p_def dlt_dval budget_ok_def)

lemma coord_durable_reload:
  "coord_durable c \<Longrightarrow> reload c = Inr c1 \<Longrightarrow> coord_durable c1"
  by (auto simp: coord_durable_def reload_def bindE_Inr_conv split: if_splits)

subsection \<open>Crash recovery\<close>

text \<open>
  The four images of a journaled mutation that succeeds, and what the next process makes of
  each: either nothing happened or everything did.
\<close>

definition tx_images ::
  "backend \<Rightarrow> transaction \<Rightarrow> coordinator \<Rightarrow> (string, reservation) dict \<Rightarrow> backend list" where
  "tx_images d tx c2 rs' =
     (let d1 = persist_transaction d tx; d2 = d1\<lparr>coord := c2\<rparr>; d3 = persist_reservations d2 rs'
      in [d1, d2, d3, clear_transaction d3])"

lemma journaled_done:
  "mutate (coord d) = (Inr True, c2) \<Longrightarrow>
   journaled d tx mutate rs' done refused = (Inr done, tx_images d tx c2 rs')"
  by (simp add: journaled_def tx_images_def Let_def)

definition settled :: "backend \<Rightarrow> (string \<Rightarrow> (rat \<times> rat \<times> rat) option) \<Rightarrow>
  (string, reservation) dict \<Rightarrow> bool" where
  "settled d v rs \<longleftrightarrow>
     journal d = JAbsent \<and> coord_view (coord d) = v \<and> load_reservations (resv d) = Inr rs"

definition recovers_to :: "backend \<Rightarrow> (string \<Rightarrow> (rat \<times> rat \<times> rat) option) \<Rightarrow>
  (string, reservation) dict \<Rightarrow> bool" where
  "recovers_to img v rs \<longleftrightarrow> (\<exists>d'. restart img = Inr d' \<and> settled d' v rs)"

lemma coord_new_reload:
  "store_path c \<Longrightarrow> store c \<noteq> BAbsent \<Longrightarrow> load (store c) = Inr m \<Longrightarrow>
   coord_new True (store c) = Inr (c\<lparr>resources := m\<rparr>)"
  by (simp add: coord_new_def reload_def)

lemma recover_before:
  assumes ok: "coord_ok c" and dur: "coord_durable c" and rl: "reload c = Inr c"
    and b: "map_of (resources c) (resource_id (tx_record tx)) = Some b"
    and tx: "tx_valid tx" "tx_before tx = snap b" "tx_after tx \<noteq> snap b"
    and d: "coord d = c" "journal d = JTx tx" "load_reservations (resv d) = Inr rs"
  shows "recovers_to d (coord_view c) rs"
proof -
  have st: "store_path c" "store c \<noteq> BAbsent" using dur b by (auto simp: coord_durable_def)
  then obtain x where x: "load (store c) = Inr x" "c\<lparr>resources := x\<rparr> = c"
    using rl by (auto simp: reload_def bindE_Inr_conv)
  from arg_cong [OF x(2), of resources] x(1) have ld: "load (store c) = Inr (resources c)" by simp
  have c: "coord_new True (store c) = Inr c" using coord_new_reload [OF st ld] by simp
  have s: "snapshot_of c (resource_id (tx_record tx)) = (Inr (snap b), c)"
    by (rule snapshot_of_Inr [OF ok rl b])
  show ?thesis
    using d c s tx by (simp add: recovers_to_def restart_def recover_pending_def settled_def Let_def)
qed

lemma recover_after:
  assumes ok: "coord_ok c" and st: "store_path c" "store c \<noteq> BAbsent"
    and ld: "load (store c) = Inr m"
    and b: "map_of m (resource_id (tx_record tx)) = Some b"
    and tx: "tx_valid tx" "tx_after tx = snap b"
    and d: "coord d = c" "journal d = JTx tx" "load_reservations (resv d) = Inr rs"
    and rp: "replay_record tx rs = Inr rs'"
  shows "recovers_to d (coord_view c) rs'"
proof -
  let ?c = "c\<lparr>resources := m\<rparr>"
  have c: "coord_new True (store c) = Inr ?c" by (rule coord_new_reload [OF st ld])
  have rl: "reload c = Inr ?c" using st ld by (simp add: reload_def)
  then have rl': "reload ?c = Inr ?c" by (rule reload_idem)
  have ok': "coord_ok ?c" by (rule reload_ok(1) [OF ok rl])
  have s: "snapshot_of ?c (resource_id (tx_record tx)) = (Inr (snap b), ?c)"
    by (rule snapshot_of_Inr [OF ok' rl']) (use b in simp)
  have v: "coord_view ?c = coord_view c" by (rule coord_view_same [OF rl ok])
  show ?thesis
    using d c s tx rp v
    by (simp add: recovers_to_def restart_def recover_pending_def settled_def Let_def
        load_resv_is [OF resv_is_persist])
qed

lemma recover_clean:
  assumes ok: "coord_ok c" and st: "store_path c" "store c \<noteq> BAbsent"
    and ld: "load (store c) = Inr m"
    and d: "coord d = c" "journal d = JAbsent" "load_reservations (resv d) = Inr rs"
  shows "recovers_to d (coord_view c) rs"
proof -
  have "reload c = Inr (c\<lparr>resources := m\<rparr>)" using st ld by (simp add: reload_def)
  with ok have "coord_view (c\<lparr>resources := m\<rparr>) = coord_view c" by (simp add: coord_view_same)
  with d coord_new_reload [OF st ld] show ?thesis
    by (simp add: recovers_to_def restart_def recover_pending_def settled_def)
qed

text \<open>The four images together, for any journaled mutation.\<close>

lemma tx_images_recover:
  assumes ok: "coord_ok c" and dur: "coord_durable c" and rl: "reload c = Inr c"
    and b: "map_of (resources c) k = Some b" and k: "k = resource_id (tx_record tx)"
    and b': "budget_ok b'" and c2: "c2 = persist (set_budget c k b')"
    and fits: "load (store c2) = Inr m2"
    and tx: "tx_valid tx" "tx_before tx = snap b" "tx_after tx = snap b'" "snap b' \<noteq> snap b"
    and d: "coord d = c" "load_reservations (resv d) = Inr rs"
    and rp: "replay_record tx rs = Inr rs'" "replay_record tx rs' = Inr rs'"
    and img: "img \<in> set (tx_images d tx c2 rs')"
  shows "recovers_to img (coord_view c) rs \<or> recovers_to img (coord_view c2) rs'"
proof -
  let ?d1 = "persist_transaction d tx"
  let ?d2 = "?d1\<lparr>coord := c2\<rparr>"
  let ?d3 = "persist_reservations ?d2 rs'"
  have ok2: "coord_ok c2" unfolding c2 by (rule persist_set_ok [OF ok b'])
  have st2: "store_path c2" "store c2 \<noteq> BAbsent"
    using dur c2 by (simp_all add: coord_durable_def dump_def)
  have "m2 = resources c2" using fits st2 c2 dur by (auto simp: coord_durable_def intro: load_dump_id)
  then have m2: "map_of m2 (resource_id (tx_record tx)) = Some b'" using c2 k by simp
  have 1: "recovers_to ?d1 (coord_view c) rs"
    by (rule recover_before [OF ok dur rl, where b = b]) (use b k tx d in simp_all)
  have 2: "recovers_to ?d2 (coord_view c2) rs'"
    by (rule recover_after [OF ok2 st2 fits m2 tx(1,3) _ _ _ rp(1)]) (use d in simp_all)
  have 3: "recovers_to ?d3 (coord_view c2) rs'"
    by (rule recover_after [OF ok2 st2 fits m2 tx(1,3) _ _ _ rp(2)])
      (simp_all add: load_resv_is [OF resv_is_persist])
  have 4: "recovers_to (clear_transaction ?d3) (coord_view c2) rs'"
    by (rule recover_clean [OF ok2 st2 fits]) (simp_all add: load_resv_is [OF resv_is_persist])
  from img 1 2 3 4 show ?thesis by (auto simp: tx_images_def Let_def)
qed

subsection \<open>What the operations do to the files\<close>

text \<open>
  A run is quiet when it writes nothing but (possibly) this process's memory; a transaction
  run carries one resource from budget \<open>b\<close> to \<open>b'\<close> and the registry from \<open>rs\<close> to \<open>rs'\<close>.
\<close>

definition quiet_run :: "backend \<Rightarrow> 'a traced \<Rightarrow> bool" where
  "quiet_run d run \<longleftrightarrow>
     (\<forall>img \<in> set (snd run). \<exists>c. img = d\<lparr>coord := c\<rparr> \<and> (c = coord d \<or> reload (coord d) = Inr c))"

definition txn_run ::
  "backend \<Rightarrow> (string, reservation) dict \<Rightarrow> 'a traced \<Rightarrow> 'a \<Rightarrow> transaction \<Rightarrow> budget \<Rightarrow> budget \<Rightarrow>
   (string, reservation) dict \<Rightarrow> bool" where
  "txn_run d rs run done tx b b' rs' \<longleftrightarrow>
     (\<exists>c1. reload (coord d) = Inr c1 \<and> map_of (resources c1) (resource_id (tx_record tx)) = Some b \<and>
        budget_ok b' \<and> tx_rid tx \<noteq> [] \<and> tx_before tx = snap b \<and>
        replay_record tx rs = Inr rs' \<and> replay_record tx rs' = Inr rs' \<and>
        run = (Inr done, tx_images (d\<lparr>coord := c1\<rparr>) tx
                 (persist (set_budget c1 (resource_id (tx_record tx)) b')) rs'))"

lemma quiet_empty [simp]: "quiet_run d (r, [])"
  by (simp add: quiet_run_def)

lemma quiet_one: "c = coord d \<or> reload (coord d) = Inr c \<Longrightarrow> quiet_run d (r, [d\<lparr>coord := c\<rparr>])"
  by (auto simp: quiet_run_def)

lemma commit_record_run:
  assumes ok: "coord_ok (coord d)" and rs: "amounts_ok rs" "map_of rs rid = Some r"
  shows "(quiet_run d (commit_record d rs rid r now done) \<and>
          (\<forall>s. fst (commit_record d rs rid r now done) = Inr s \<longrightarrow> s = ERROR)) \<or>
    (\<exists>tx b p u. dval (amount r) \<le> dval (reserved b) \<and>
       dval p = dval (reserved b) - dval (amount r) \<and> dval u = dval (consumed b) + dval (amount r) \<and>
       tx_after tx = snap (b\<lparr>reserved := p, consumed := u\<rparr>) \<and> resource_id (tx_record tx) = resource_id r \<and>
       txn_run d rs (commit_record d rs rid r now done) done tx b (b\<lparr>reserved := p, consumed := u\<rparr>)
         (dput rid (r\<lparr>rstate := COMMITTED, committed_at := Some now\<rparr>) rs))"
proof -
  obtain q c1 where s: "snapshot_of (coord d) (resource_id r) = (q, c1)" by fastforce
  note c1 = snapshot_of_coord [OF s]
  note am = amounts_okD [OF rs]
  show ?thesis
  proof (cases q)
    case (Inl e)
    with s c1 show ?thesis by (auto simp: commit_record_def intro: quiet_one)
  next
    case (Inr before)
    with snapshot_ofD s obtain b where rl: "reload (coord d) = Inr c1"
      and b: "map_of (resources c1) (resource_id r) = Some b" and before: "before = snap b" by blast
    note rl' = reload_idem [OF rl] and ok1 = reload_ok(1) [OF ok rl]
    show ?thesis
    proof (cases "dval (reserved b) < dval (amount r)")
      case True
      with s Inr before c1 show ?thesis
        by (auto simp: commit_record_def dlt_dval intro: quiet_one)
    next
      case False
      then have le: "dval (amount r) \<le> dval (reserved b)" by simp
      from commit_forms(3) [OF ok1 rl' conjunct2 [OF am] b le] obtain p u where
        f: "decimal_subtract (reserved b) (amount r) = Inr p" "decimal_add (consumed b) (amount r) = Inr u"
          "dval p = dval (reserved b) - dval (amount r)" "dval u = dval (consumed b) + dval (amount r)"
          "budget_ok (b\<lparr>reserved := p, consumed := u\<rparr>)"
          "coord_commit c1 (resource_id r) (AFin (amount r)) =
             (Inr True, persist (set_budget c1 (resource_id r) (b\<lparr>reserved := p, consumed := u\<rparr>)))"
        by blast
      let ?r' = "r\<lparr>rstate := COMMITTED, committed_at := Some now\<rparr>"
      let ?tx = "\<lparr>tx_op = TxCommit, tx_rid = rid, tx_record = ?r', tx_before = snap b,
                  tx_after = snap (b\<lparr>reserved := p, consumed := u\<rparr>)\<rparr>"
      have "commit_record d rs rid r now done =
          journaled (d\<lparr>coord := c1\<rparr>) ?tx (\<lambda>c. coord_commit c (resource_id r) (AFin (amount r)))
            (dput rid ?r' rs) done ERROR"
        using s Inr before False f(1,2) by (simp add: commit_record_def dlt_dval Let_def snap_def)
      then have "txn_run d rs (commit_record d rs rid r now done) done ?tx b
          (b\<lparr>reserved := p, consumed := u\<rparr>) (dput rid ?r' rs)"
        using rl b f(5,6) am rs(2)
        by (simp add: txn_run_def journaled_done replay_record_def)
      with f(3,4) le show ?thesis by (intro disjI2 exI conjI) simp_all
    qed
  qed
qed

lemma release_record_run:
  assumes ok: "coord_ok (coord d)" and rs: "amounts_ok rs" "map_of rs rid = Some r"
  shows "(quiet_run d (release_record d rs rid r now done) \<and>
          (\<forall>s. fst (release_record d rs rid r now done) = Inr s \<longrightarrow> s = ERROR)) \<or>
    (\<exists>tx b p. dval (amount r) \<le> dval (reserved b) \<and>
       decimal_subtract (reserved b) (amount r) = Inr p \<and>
       dval p = dval (reserved b) - dval (amount r) \<and>
       tx_after tx = snap (b\<lparr>reserved := p\<rparr>) \<and> resource_id (tx_record tx) = resource_id r \<and>
       txn_run d rs (release_record d rs rid r now done) done tx b (b\<lparr>reserved := dmax0 p\<rparr>)
         (dput rid (r\<lparr>rstate := RELEASED, released_at := Some now\<rparr>) rs))"
proof -
  obtain q c1 where s: "snapshot_of (coord d) (resource_id r) = (q, c1)" by fastforce
  note c1 = snapshot_of_coord [OF s]
  note am = amounts_okD [OF rs]
  show ?thesis
  proof (cases q)
    case (Inl e)
    with s c1 show ?thesis by (auto simp: release_record_def intro: quiet_one)
  next
    case (Inr before)
    with snapshot_ofD s obtain b where rl: "reload (coord d) = Inr c1"
      and b: "map_of (resources c1) (resource_id r) = Some b" and before: "before = snap b" by blast
    note rl' = reload_idem [OF rl] and ok1 = reload_ok(1) [OF ok rl]
    show ?thesis
    proof (cases "dval (reserved b) < dval (amount r)")
      case True
      with s Inr before c1 show ?thesis
        by (auto simp: release_record_def dlt_dval intro: quiet_one)
    next
      case False
      then have le: "dval (amount r) \<le> dval (reserved b)" by simp
      from release_forms(2) [OF ok1 rl' conjunct2 [OF am] b] obtain p where
        f: "decimal_subtract (reserved b) (amount r) = Inr p"
          "dval p = dval (reserved b) - dval (amount r)" "budget_ok (b\<lparr>reserved := dmax0 p\<rparr>)"
          "coord_release c1 (resource_id r) (AFin (amount r)) =
             (Inr (), persist (set_budget c1 (resource_id r) (b\<lparr>reserved := dmax0 p\<rparr>)))"
        by blast
      let ?r' = "r\<lparr>rstate := RELEASED, released_at := Some now\<rparr>"
      let ?tx = "\<lparr>tx_op = TxRelease, tx_rid = rid, tx_record = ?r', tx_before = snap b,
                  tx_after = snap (b\<lparr>reserved := p\<rparr>)\<rparr>"
      have "release_record d rs rid r now done =
          journaled (d\<lparr>coord := c1\<rparr>) ?tx
            (\<lambda>c. case coord_release c (resource_id r) (AFin (amount r)) of
                   (Inl e, c2) \<Rightarrow> (Inl e, c2) | (Inr _, c2) \<Rightarrow> (Inr True, c2))
            (dput rid ?r' rs) done ERROR"
        using s Inr before False f(1) by (simp add: release_record_def dlt_dval Let_def snap_def)
      then have "txn_run d rs (release_record d rs rid r now done) done ?tx b
          (b\<lparr>reserved := dmax0 p\<rparr>) (dput rid ?r' rs)"
        using rl b f(3,4) am rs(2)
        by (simp add: txn_run_def journaled_done replay_record_def)
      with f(1,2) le show ?thesis by (intro disjI2 exI conjI) simp_all
    qed
  qed
qed

text \<open>The whole-operation view: the registry read, then one of the runs above.\<close>

lemma backend_commit_run:
  assumes ok: "coord_ok (coord d)" and rs: "load_reservations (resv d) = Inr rs" "amounts_ok rs"
  shows "quiet_run d (backend_commit d rid now) \<and>
           fst (backend_commit d rid now) \<noteq> Inr (St COMMITTED) \<or>
    (\<exists>r tx b p u. map_of rs rid = Some r \<and> rstate r = RESERVED \<and>
       dval (amount r) \<le> dval (reserved b) \<and>
       dval p = dval (reserved b) - dval (amount r) \<and> dval u = dval (consumed b) + dval (amount r) \<and>
       tx_after tx = snap (b\<lparr>reserved := p, consumed := u\<rparr>) \<and> resource_id (tx_record tx) = resource_id r \<and>
       txn_run d rs (backend_commit d rid now) (St COMMITTED) tx b (b\<lparr>reserved := p, consumed := u\<rparr>)
         (dput rid (r\<lparr>rstate := COMMITTED, committed_at := Some now\<rparr>) rs))"
proof (cases "map_of rs rid")
  case (Some r)
  show ?thesis
  proof (cases "rstate r = RESERVED")
    case True
    with Some rs have eq: "backend_commit d rid now = commit_record d rs rid r now (St COMMITTED)"
      by (simp add: backend_commit_def)
    from commit_record_run [OF ok rs(2) Some, of now "St COMMITTED"] Some True show ?thesis
      unfolding eq by (elim disjE) (intro disjI1, force, intro disjI2 exI [of _ r], simp)
  qed (use Some rs in \<open>simp add: backend_commit_def\<close>)
qed (use rs in \<open>simp add: backend_commit_def\<close>)

lemma backend_release_run:
  assumes ok: "coord_ok (coord d)" and rs: "load_reservations (resv d) = Inr rs" "amounts_ok rs"
  shows "quiet_run d (backend_release d rid now) \<and>
           fst (backend_release d rid now) \<noteq> Inr (St RELEASED) \<or>
    (\<exists>r tx b p. map_of rs rid = Some r \<and> rstate r = RESERVED \<and>
       dval (amount r) \<le> dval (reserved b) \<and>
       decimal_subtract (reserved b) (amount r) = Inr p \<and>
       dval p = dval (reserved b) - dval (amount r) \<and>
       tx_after tx = snap (b\<lparr>reserved := p\<rparr>) \<and> resource_id (tx_record tx) = resource_id r \<and>
       txn_run d rs (backend_release d rid now) (St RELEASED) tx b (b\<lparr>reserved := dmax0 p\<rparr>)
         (dput rid (r\<lparr>rstate := RELEASED, released_at := Some now\<rparr>) rs))"
proof (cases "map_of rs rid")
  case (Some r)
  show ?thesis
  proof (cases "rstate r = RESERVED")
    case True
    with Some rs have eq: "backend_release d rid now = release_record d rs rid r now (St RELEASED)"
      by (simp add: backend_release_def)
    from release_record_run [OF ok rs(2) Some, of now "St RELEASED"] Some True show ?thesis
      unfolding eq by (elim disjE) (intro disjI1, force, intro disjI2 exI [of _ r], simp)
  qed (use Some rs in \<open>simp add: backend_release_def\<close>)
qed (use rs in \<open>simp add: backend_release_def\<close>)

lemma backend_refund_run:
  assumes ok: "coord_ok (coord d)" and rs: "load_reservations (resv d) = Inr rs" "amounts_ok rs"
  shows "quiet_run d (backend_refund d rid now) \<and>
           fst (backend_refund d rid now) \<noteq> Inr (St REFUNDED) \<or>
    (\<exists>r tx b u. map_of rs rid = Some r \<and> rstate r = COMMITTED \<and>
       dval (amount r) \<le> dval (consumed b) \<and> dval u = dval (consumed b) - dval (amount r) \<and>
       tx_after tx = snap (b\<lparr>consumed := u\<rparr>) \<and> resource_id (tx_record tx) = resource_id r \<and>
       txn_run d rs (backend_refund d rid now) (St REFUNDED) tx b (b\<lparr>consumed := u\<rparr>)
         (dput rid (r\<lparr>rstate := REFUNDED, refunded_at := Some now\<rparr>) rs))"
proof (cases "\<exists>r. map_of rs rid = Some r \<and> rstate r = COMMITTED")
  case False
  then show ?thesis
    by (cases "map_of rs rid") (use rs in \<open>auto simp: backend_refund_def\<close>)
next
  case True
  then obtain r where r: "map_of rs rid = Some r" "rstate r = COMMITTED" by blast
  obtain q c1 where s: "snapshot_of (coord d) (resource_id r) = (q, c1)" by fastforce
  note c1 = snapshot_of_coord [OF s] and am = amounts_okD [OF rs(2) r(1)]
  show ?thesis
  proof (cases q)
    case (Inl e)
    with s c1 r rs show ?thesis by (auto simp: backend_refund_def intro: quiet_one)
  next
    case (Inr before)
    with snapshot_ofD s obtain b where rl: "reload (coord d) = Inr c1"
      and b: "map_of (resources c1) (resource_id r) = Some b" and before: "before = snap b" by blast
    note rl' = reload_idem [OF rl] and ok1 = reload_ok(1) [OF ok rl]
    show ?thesis
    proof (cases "dval (consumed b) < dval (amount r)")
      case True
      with s Inr before c1 r rs show ?thesis
        by (auto simp: backend_refund_def dlt_dval intro: quiet_one)
    next
      case False
      then have le: "dval (amount r) \<le> dval (consumed b)" by simp
      from refund_forms(3) [OF ok1 rl' conjunct2 [OF am] b le] obtain u where
        f: "decimal_subtract (consumed b) (amount r) = Inr u"
          "dval u = dval (consumed b) - dval (amount r)" "budget_ok (b\<lparr>consumed := u\<rparr>)"
          "coord_refund c1 (resource_id r) (AFin (amount r)) =
             (Inr True, persist (set_budget c1 (resource_id r) (b\<lparr>consumed := u\<rparr>)))"
        by blast
      let ?r' = "r\<lparr>rstate := REFUNDED, refunded_at := Some now\<rparr>"
      let ?tx = "\<lparr>tx_op = TxRefund, tx_rid = rid, tx_record = ?r', tx_before = snap b,
                  tx_after = snap (b\<lparr>consumed := u\<rparr>)\<rparr>"
      have "backend_refund d rid now =
          journaled (d\<lparr>coord := c1\<rparr>) ?tx (\<lambda>c. coord_refund c (resource_id r) (AFin (amount r)))
            (dput rid ?r' rs) (St REFUNDED) ERROR"
        using s Inr before False f(1) r rs by (simp add: backend_refund_def dlt_dval Let_def snap_def)
      then have "txn_run d rs (backend_refund d rid now) (St REFUNDED) ?tx b
          (b\<lparr>consumed := u\<rparr>) (dput rid ?r' rs)"
        using rl b f(3,4) am r by (simp add: txn_run_def journaled_done replay_record_def)
      with f(1,2) le r show ?thesis by (intro disjI2 exI conjI) simp_all
    qed
  qed
qed

text \<open>
  \<open>reserve\<close> has a third shape: the coordinator refuses after the journal was written, and the
  journal is cleared again.
\<close>

definition refused_run :: "backend \<Rightarrow> 'a traced \<Rightarrow> bool" where
  "refused_run d run \<longleftrightarrow>
     (\<exists>c1 tx b res. reload (coord d) = Inr c1 \<and>
        map_of (resources c1) (resource_id (tx_record tx)) = Some b \<and> tx_valid tx \<and>
        tx_before tx = snap b \<and> tx_after tx \<noteq> snap b \<and>
        run = (res, [persist_transaction (d\<lparr>coord := c1\<rparr>) tx, d\<lparr>coord := c1, journal := JAbsent\<rparr>]))"

lemma valid_amountD: "valid_amount a = Some x \<Longrightarrow> a = AFin x \<and> 0 < dval x"
  by (auto simp: valid_amount_def dlt_dval split: amount_in.splits if_splits)

lemma backend_reserve_run:
  assumes ok: "coord_ok (coord d)" and rs: "load_reservations (resv d) = Inr rs" "amounts_ok rs"
    and uuid: "uuid \<noteq> []"
  shows "quiet_run d (backend_reserve d key a k uuid now) \<and>
           fst (backend_reserve d key a k uuid now) \<noteq> Inr (St RESERVED, Some uuid) \<or>
         quiet_run d (backend_reserve d key a k uuid now) \<and> find_key key rs \<noteq> None \<or>
         refused_run d (backend_reserve d key a k uuid now) \<and>
           fst (backend_reserve d key a k uuid now) = Inr (INSUFFICIENT_BUDGET, None) \<or>
    (\<exists>x tx b s. a = AFin x \<and> find_key key rs = None \<and> positive_amount a = Some x \<and>
       dval (reserved b) + dval (consumed b) + dval x \<le> dval (capacity b) \<and>
       dval s = dval (reserved b) + dval x \<and> tx_after tx = snap (b\<lparr>reserved := s\<rparr>) \<and>
       resource_id (tx_record tx) = k \<and>
       txn_run d rs (backend_reserve d key a k uuid now) (St RESERVED, Some uuid) tx b (b\<lparr>reserved := s\<rparr>)
         (dput uuid \<lparr>rkey = key, amount = x, resource_id = k, rstate = RESERVED, created_at = now,
                      committed_at = None, released_at = None, refunded_at = None\<rparr> rs))"
    (is "?A \<or> ?B \<or> ?C \<or> ?D")
proof (cases "valid_amount a")
  case None
  then show ?thesis by (simp add: backend_reserve_def)
next
  case (Some x)
  note x = valid_amountD [OF Some]
  show ?thesis
  proof (cases "find_key key rs")
    case (Some kr)
    then have ?B using \<open>valid_amount a = Some x\<close> rs by (cases kr) (simp add: backend_reserve_def)
    then show ?thesis by blast
  next
    case nokey: None
    obtain q c1 where s: "snapshot_of (coord d) k = (q, c1)" by fastforce
    note c1 = snapshot_of_coord [OF s]
    note unf = backend_reserve_def Some rs(1) nokey s
    show ?thesis
    proof (cases q)
      case (Inl e)
      with c1 show ?thesis by (auto simp: unf intro: quiet_one)
    next
      case (Inr before)
      with snapshot_ofD s obtain b where rl: "reload (coord d) = Inr c1"
        and b: "map_of (resources c1) k = Some b" and before: "before = snap b" by blast
      note rl' = reload_idem [OF rl] and ok1 = reload_ok(1) [OF ok rl]
      have bok: "budget_ok b" using ok1 b by (rule coord_okD)
      show ?thesis
      proof (cases "decimal_add (reserved b) x")
        case (Inl e)
        with Inr before c1 show ?thesis by (auto simp: unf intro: quiet_one)
      next
        case sum: (Inr s)
        have sv: "dval s = dval (reserved b) + dval x" by (rule decimal_add_dval [OF sum])
        let ?r = "\<lparr>rkey = key, amount = x, resource_id = k, rstate = RESERVED, created_at = now,
                   committed_at = None, released_at = None, refunded_at = None\<rparr>"
        let ?tx = "\<lparr>tx_op = TxReserve, tx_rid = uuid, tx_record = ?r, tx_before = snap b,
                    tx_after = snap (b\<lparr>reserved := s\<rparr>)\<rparr>"
        have run: "backend_reserve d key a k uuid now =
            journaled (d\<lparr>coord := c1\<rparr>) ?tx (\<lambda>c. coord_reserve c k (AFin x)) (dput uuid ?r rs)
              (St RESERVED, Some uuid) (INSUFFICIENT_BUDGET, None)"
          using Inr before sum by (simp add: unf Let_def snap_def)
        have "dval (reserved b) \<noteq> dval s" using sv x by simp
        then have ne: "snap (b\<lparr>reserved := s\<rparr>) \<noteq> snap b" by (auto simp: snap_def)
        have "\<not> dneg_p s" using sv x bok by (simp add: dneg_p_def dlt_dval budget_ok_def)
        with snapshot_valid_snap [OF bok] uuid have valid: "tx_valid ?tx"
          by (simp add: tx_valid_def snapshot_valid_def)
        have refused: "?C" if "coord_reserve c1 k (AFin x) = (Inr False, c1)"
          using that rl b ne valid
          by (auto simp: run journaled_def Let_def refused_run_def clear_transaction_def
              persist_transaction_def intro!: exI [of _ c1] exI [of _ ?tx])
        show ?thesis
        proof (cases "positive_amount (AFin x)")
          case None
          with refused show ?thesis by (simp add: coord_reserve_def)
        next
          case (Some y)
          with positive_amountD have pos: "positive_amount (AFin x) = Some x" by fastforce
          show ?thesis
          proof (cases "dval (reserved b) + dval (consumed b) + dval x \<le> dval (capacity b)")
            case False
            with reserve_forms(2) [OF ok1 rl' pos b] refused show ?thesis by simp
          next
            case True
            from reserve_forms(3) [OF ok1 rl' pos b True] sum
            have bs: "budget_ok (b\<lparr>reserved := s\<rparr>)"
              "coord_reserve c1 k (AFin x) = (Inr True, persist (set_budget c1 k (b\<lparr>reserved := s\<rparr>)))"
              by auto
            then have "txn_run d rs (backend_reserve d key a k uuid now) (St RESERVED, Some uuid) ?tx b
                (b\<lparr>reserved := s\<rparr>) (dput uuid ?r rs)"
              using rl b uuid by (simp add: run txn_run_def journaled_done replay_record_def)
            with x nokey pos True sv have ?D by (intro exI conjI) simp_all
            then show ?thesis by blast
          qed
        qed
      qed
    qed
  qed
qed

subsection \<open>The invariant is kept\<close>

lemma final_Nil [simp]: "final d (r, []) = d"
  by (simp add: final_def)

lemma quiet_final:
  assumes ok: "backend_ok d" and q: "quiet_run d run"
  shows "backend_ok (final d run) \<and> coord_view (coord (final d run)) = coord_view (coord d) \<and>
         resv (final d run) = resv d"
proof -
  have "\<exists>c. final d run = d\<lparr>coord := c\<rparr> \<and> (c = coord d \<or> reload (coord d) = Inr c)"
  proof (cases "snd run = []")
    case True
    then show ?thesis by (intro exI [of _ "coord d"]) (simp add: final_def)
  next
    case False
    then have "final d run \<in> set (snd run)" by (simp add: final_def)
    with q show ?thesis by (auto simp: quiet_run_def)
  qed
  then obtain c where c: "final d run = d\<lparr>coord := c\<rparr>" "c = coord d \<or> reload (coord d) = Inr c"
    by blast
  have cok: "coord_ok (coord d)" and dur: "coord_durable (coord d)" using ok by (auto simp: backend_ok_def)
  have "coord_ok c \<and> coord_durable c \<and> coord_view c = coord_view (coord d)"
    using c(2) cok dur reload_ok(1) coord_durable_reload coord_view_same by metis
  with c(1) ok show ?thesis by (auto simp: backend_ok_def)
qed

lemma ledger_ok_upd:
  assumes "ledger_ok v rs" and "\<And>j. held rs' j = (if j = k then dval (reserved b') else held rs j)"
    and "\<And>j. spent rs' j = (if j = k then dval (consumed b') else spent rs j)"
  shows "ledger_ok (v(k \<mapsto> counters b')) rs'"
  unfolding ledger_ok_def
proof
  fix j
  from assms(1) have "case v j of None \<Rightarrow> held rs j = 0 \<and> spent rs j = 0
      | Some (cap, p, u) \<Rightarrow> held rs j = p \<and> spent rs j = u"
    by (simp add: ledger_ok_def)
  then show "case (v(k \<mapsto> counters b')) j of None \<Rightarrow> held rs' j = 0 \<and> spent rs' j = 0
      | Some (cap, p, u) \<Rightarrow> held rs' j = p \<and> spent rs' j = u"
    by (auto simp: assms(2,3) counters_def split: option.splits)
qed

lemma ledger_okD:
  "ledger_ok v rs \<Longrightarrow> v k = Some (counters b) \<Longrightarrow>
     held rs k = dval (reserved b) \<and> spent rs k = dval (consumed b)"
  by (auto simp: ledger_ok_def counters_def split: option.splits dest: spec [of _ k])

lemma txn_facts:
  assumes ok: "coord_ok (coord d)" and t: "txn_run d rs run done tx b b' rs'"
  defines "k \<equiv> resource_id (tx_record tx)"
  shows "coord_view (coord d) k = Some (counters b)"
    and "\<exists>c2. final d run = d\<lparr>coord := c2, resv := RStored (map (\<lambda>(k, r). (k, Entry r)) rs'), journal := JAbsent\<rparr> \<and>
           coord_ok c2 \<and> (coord_durable (coord d) \<longrightarrow> coord_durable c2) \<and>
           coord_view c2 = (coord_view (coord d))(k \<mapsto> counters b')"
proof -
  from t obtain c1 where c1: "reload (coord d) = Inr c1" and b: "map_of (resources c1) k = Some b"
    and b': "budget_ok b'"
    and run: "run = (Inr done, tx_images (d\<lparr>coord := c1\<rparr>) tx (persist (set_budget c1 k b')) rs')"
    unfolding txn_run_def k_def by blast
  note v = coord_view_reload [OF ok c1]
  show "coord_view (coord d) k = Some (counters b)" using v b by simp
  have "coord_durable (persist (set_budget c1 k b'))" if "coord_durable (coord d)"
    using coord_durable_reload [OF that c1] by (simp add: coord_durable_def dump_def)
  then show "\<exists>c2. final d run = d\<lparr>coord := c2, resv := RStored (map (\<lambda>(k, r). (k, Entry r)) rs'), journal := JAbsent\<rparr> \<and>
           coord_ok c2 \<and> (coord_durable (coord d) \<longrightarrow> coord_durable c2) \<and>
           coord_view c2 = (coord_view (coord d))(k \<mapsto> counters b')"
    using persist_set_ok [OF reload_ok(1) [OF ok c1] b'] coord_view_set [OF ok c1]
    by (intro exI [of _ "persist (set_budget c1 k b')"])
      (simp add: run final_def tx_images_def Let_def clear_transaction_def persist_reservations_def
        persist_transaction_def)
qed

lemma txn_final_ok:
  assumes ok: "coord_ok (coord d)" "coord_durable (coord d)" and l: "ledger_ok (coord_view (coord d)) rs"
    and t: "txn_run d rs run done tx b b' rs'" and k: "resource_id (tx_record tx) = k"
    and rs': "amounts_ok rs'" "keys_ok rs'"
    and h: "\<And>j. held rs' j = held rs j + (if j = k then dval (reserved b') - dval (reserved b) else 0)"
    and s: "\<And>j. spent rs' j = spent rs j + (if j = k then dval (consumed b') - dval (consumed b) else 0)"
  shows "backend_ok (final d run) \<and> resv_is (resv (final d run)) rs' \<and>
         coord_view (coord (final d run)) = (coord_view (coord d))(k \<mapsto> counters b')"
proof -
  note f = txn_facts [OF ok(1) t, unfolded k]
  from ledger_okD [OF l f(1)] h s
  have "ledger_ok ((coord_view (coord d))(k \<mapsto> counters b')) rs'"
    by (intro ledger_ok_upd [OF l]) auto
  with f(2) ok(2) rs' show ?thesis by (auto simp: backend_ok_def resv_is_def)
qed

lemma backend_okE:
  assumes "backend_ok d"
  obtains rs where "coord_ok (coord d)" "coord_durable (coord d)" "journal d = JAbsent"
    "resv_is (resv d) rs" "load_reservations (resv d) = Inr rs" "amounts_ok rs" "keys_ok rs"
    "ledger_ok (coord_view (coord d)) rs"
  using assms load_resv_is by (auto simp: backend_ok_def)

lemma held_spent_shift:
  assumes "map_of rs rid = Some r" and "resource_id r' = resource_id r" and "amount r' = amount r"
  shows "held (dput rid r' rs) j = held rs j +
      (if j = resource_id r then (of_bool (is_open (rstate r')) - of_bool (is_open (rstate r))) * dval (amount r) else 0)"
    and "spent (dput rid r' rs) j = spent rs j +
      (if j = resource_id r then (of_bool (rstate r' = COMMITTED) - of_bool (rstate r = COMMITTED)) * dval (amount r) else 0)"
  using assms by (auto simp: total_updates held_weight_def spent_weight_def)

lemma commit_record_final:
  assumes ok: "backend_ok d" and rs: "load_reservations (resv d) = Inr rs"
    and r: "map_of rs rid = Some r" and op: "is_open (rstate r)"
  shows "backend_ok (final d (commit_record d rs rid r now done))"
proof -
  from ok obtain rs0 where core: "coord_ok (coord d)" "coord_durable (coord d)"
    "load_reservations (resv d) = Inr rs0" "amounts_ok rs0" "keys_ok rs0"
    "ledger_ok (coord_view (coord d)) rs0" by (rule backend_okE)
  with rs have [simp]: "rs0 = rs" by simp
  let ?r' = "r\<lparr>rstate := COMMITTED, committed_at := Some now\<rparr>"
  from commit_record_run [OF core(1) core(4) [simplified] r, of now "done"] show ?thesis
  proof (elim disjE exE conjE)
    assume "quiet_run d (commit_record d rs rid r now done)"
    with ok show ?thesis by (simp add: quiet_final)
  next
    fix tx b p u
    assume t: "dval p = dval (reserved b) - dval (amount r)" "dval u = dval (consumed b) + dval (amount r)"
      "resource_id (tx_record tx) = resource_id r"
      "txn_run d rs (commit_record d rs rid r now done) done tx b (b\<lparr>reserved := p, consumed := u\<rparr>)
         (dput rid ?r' rs)"
    have "amounts_ok (dput rid ?r' rs)" "keys_ok (dput rid ?r' rs)"
      using core amounts_okD [of rs, OF _ r] keys_ok_dput_old [of rs, OF _ r]
      by (auto intro!: amounts_ok_dput)
    from txn_final_ok [OF core(1,2) _ t(4,3) this] core(6) op t(1,2) show ?thesis
      by (auto simp: held_spent_shift [OF r] is_open_def)
  qed
qed

lemma release_record_final:
  assumes ok: "backend_ok d" and rs: "load_reservations (resv d) = Inr rs"
    and r: "map_of rs rid = Some r" and op: "is_open (rstate r)"
  shows "backend_ok (final d (release_record d rs rid r now done))"
proof -
  from ok obtain rs0 where core: "coord_ok (coord d)" "coord_durable (coord d)"
    "load_reservations (resv d) = Inr rs0" "amounts_ok rs0" "keys_ok rs0"
    "ledger_ok (coord_view (coord d)) rs0" by (rule backend_okE)
  with rs have [simp]: "rs0 = rs" by simp
  let ?r' = "r\<lparr>rstate := RELEASED, released_at := Some now\<rparr>"
  from release_record_run [OF core(1) core(4) [simplified] r, of now "done"] show ?thesis
  proof (elim disjE exE conjE)
    assume "quiet_run d (release_record d rs rid r now done)"
    with ok show ?thesis by (simp add: quiet_final)
  next
    fix tx b p
    assume t: "dval (amount r) \<le> dval (reserved b)" "dval p = dval (reserved b) - dval (amount r)"
      "resource_id (tx_record tx) = resource_id r"
      "txn_run d rs (release_record d rs rid r now done) done tx b (b\<lparr>reserved := dmax0 p\<rparr>)
         (dput rid ?r' rs)"
    have "amounts_ok (dput rid ?r' rs)" "keys_ok (dput rid ?r' rs)"
      using core amounts_okD [of rs, OF _ r] keys_ok_dput_old [of rs, OF _ r]
      by (auto intro!: amounts_ok_dput)
    from txn_final_ok [OF core(1,2) _ t(4,3) this] core(6) op t(1,2) show ?thesis
      by (auto simp: held_spent_shift [OF r] is_open_def)
  qed
qed

lemma backend_refund_final:
  assumes ok: "backend_ok d"
  shows "backend_ok (final d (backend_refund d rid now))"
proof -
  from ok obtain rs where core: "coord_ok (coord d)" "coord_durable (coord d)"
    "load_reservations (resv d) = Inr rs" "amounts_ok rs" "keys_ok rs"
    "ledger_ok (coord_view (coord d)) rs" by (rule backend_okE)
  from backend_refund_run [OF core(1,3,4), of rid now] show ?thesis
  proof (elim disjE exE conjE)
    assume "quiet_run d (backend_refund d rid now)"
    with ok show ?thesis by (simp add: quiet_final)
  next
    fix r :: reservation and tx b u
    let ?r' = "r\<lparr>rstate := REFUNDED, refunded_at := Some now\<rparr>"
    assume r: "map_of rs rid = Some r" "rstate r = COMMITTED"
      and t: "dval u = dval (consumed b) - dval (amount r)" "resource_id (tx_record tx) = resource_id r"
      "txn_run d rs (backend_refund d rid now) (St REFUNDED) tx b (b\<lparr>consumed := u\<rparr>) (dput rid ?r' rs)"
    have "amounts_ok (dput rid ?r' rs)" "keys_ok (dput rid ?r' rs)"
      using core amounts_okD [of rs, OF _ r(1)] keys_ok_dput_old [of rs, OF _ r(1)]
      by (auto intro!: amounts_ok_dput)
    from txn_final_ok [OF core(1,2,6) t(3,2) this] r(2) t(1) show ?thesis
      by (auto simp: held_spent_shift [OF r(1)] is_open_def)
  qed
qed

lemma refused_final:
  assumes ok: "backend_ok d" and q: "refused_run d run"
  shows "backend_ok (final d run) \<and> coord_view (coord (final d run)) = coord_view (coord d) \<and>
         resv (final d run) = resv d"
proof -
  from q obtain c1 where c1: "reload (coord d) = Inr c1" "final d run = d\<lparr>coord := c1, journal := JAbsent\<rparr>"
    by (auto simp: refused_run_def final_def)
  have cok: "coord_ok (coord d)" and dur: "coord_durable (coord d)" using ok by (auto simp: backend_ok_def)
  have "coord_ok c1 \<and> coord_durable c1 \<and> coord_view c1 = coord_view (coord d)"
    using c1(1) cok dur reload_ok(1) coord_durable_reload coord_view_same by metis
  with c1(2) ok show ?thesis by (auto simp: backend_ok_def)
qed

lemma backend_reserve_final:
  assumes ok: "backend_ok d" and u: "uuid \<noteq> []" "\<And>rs. load_reservations (resv d) = Inr rs \<Longrightarrow> map_of rs uuid = None"
  shows "backend_ok (final d (backend_reserve d key a k uuid now))"
proof -
  from ok obtain rs where core: "coord_ok (coord d)" "coord_durable (coord d)"
    "load_reservations (resv d) = Inr rs" "amounts_ok rs" "keys_ok rs"
    "ledger_ok (coord_view (coord d)) rs" by (rule backend_okE)
  from backend_reserve_run [OF core(1,3,4) u(1), of key a k now] show ?thesis
  proof (elim disjE exE conjE)
    fix x tx b s
    let ?r = "\<lparr>rkey = key, amount = x, resource_id = k, rstate = RESERVED, created_at = now,
               committed_at = None, released_at = None, refunded_at = None\<rparr>"
    assume a: "a = AFin x" "positive_amount a = Some x" "find_key key rs = None"
      and t: "dval s = dval (reserved b) + dval x" "resource_id (tx_record tx) = k"
      "txn_run d rs (backend_reserve d key a k uuid now) (St RESERVED, Some uuid) tx b (b\<lparr>reserved := s\<rparr>)
         (dput uuid ?r rs)"
    have new: "map_of rs uuid = None" using u(2) core(3) .
    have "amounts_ok (dput uuid ?r rs)" "keys_ok (dput uuid ?r rs)"
      using core a u(1) keys_ok_dput_new [OF core(5) new, of ?r] by (auto intro!: amounts_ok_dput)
    from txn_final_ok [OF core(1,2,6) t(3,2) this] t(1) show ?thesis
      by (auto simp: total_updates(3,4) [OF new] held_weight_def spent_weight_def is_open_def)
  qed (use ok in \<open>simp_all add: quiet_final refused_final\<close>)
qed

lemma coord_register_durable:
  assumes "coord_durable c" and "coord_register c k cap res con = (r, c')"
  shows "coord_durable c'"
proof -
  have "c' = c \<or> (\<exists>c1 b. reload c = Inr c1 \<and> (c' = c1 \<or> c' = persist (set_budget c1 k b)))"
    using assms(2) by (auto simp: coord_register_def split: sum.splits option.splits if_splits)
  moreover have "coord_durable (persist (set_budget c1 k b))" if "coord_durable c1" for c1 b
    using that by (simp add: coord_durable_def dump_def)
  ultimately show ?thesis using assms(1) coord_durable_reload by blast
qed

lemma backend_register_final:
  assumes ok: "backend_ok d"
  shows "backend_ok (final d (backend_register d k cap))"
proof (cases "\<exists>x. cap = AFin x \<and> \<not> dneg_p x")
  case False
  then have "snd (backend_register d k cap) = []"
    by (auto simp: backend_register_def split: amount_in.splits)
  with ok show ?thesis by (simp add: final_def)
next
  case True
  from ok obtain rs where core: "coord_ok (coord d)" "coord_durable (coord d)" "journal d = JAbsent"
    "resv_is (resv d) rs" "amounts_ok rs" "keys_ok rs" "ledger_ok (coord_view (coord d)) rs"
    by (rule backend_okE)
  obtain r c1 where c1: "coord_register (coord d) k cap (AFin (Dec 0 (-1))) (AFin (Dec 0 (-1))) = (r, c1)"
    by fastforce
  note reg = register_result [OF core(1) c1]
  have "ledger_ok (coord_view c1) rs"
    using reg
  proof (elim conjE disjE exE)
    fix b
    assume none: "coord_view (coord d) k = None" and b: "AFin (Dec 0 (-1)) = AFin (reserved b)"
      "AFin (Dec 0 (-1)) = AFin (consumed b)" and v: "coord_view c1 = (coord_view (coord d))(k \<mapsto> counters b)"
    from b have "dval (reserved b) = 0" "dval (consumed b) = 0" by (auto simp: dval_def dest: sym)
    moreover have "held rs k = 0 \<and> spent rs k = 0"
      using core(7) none by (auto simp: ledger_ok_def split: option.splits dest: spec [of _ k])
    ultimately show ?thesis unfolding v by (intro ledger_ok_upd [OF core(7)]) auto
  qed (use core(7) in simp)
  moreover have "final d (backend_register d k cap) = d\<lparr>coord := c1\<rparr>"
    using True c1 by (auto simp: backend_register_def final_def)
  ultimately show ?thesis
    using reg core coord_register_durable [OF core(2) c1] by (auto simp: backend_ok_def)
qed

lemma ledger_ok_cong: "held rs' = held rs \<Longrightarrow> spent rs' = spent rs \<Longrightarrow> ledger_ok v rs' \<longleftrightarrow> ledger_ok v rs"
  unfolding ledger_ok_def by metis

lemma backend_reconcile_final:
  assumes ok: "backend_ok d"
  shows "backend_ok (final d (backend_reconcile d prov key now))"
proof -
  from ok obtain rs where core: "coord_ok (coord d)" "coord_durable (coord d)" "journal d = JAbsent"
    "resv_is (resv d) rs" "load_reservations (resv d) = Inr rs" "amounts_ok rs" "keys_ok rs"
    "ledger_ok (coord_view (coord d)) rs" by (rule backend_okE)
  let ?P = "\<lambda>(rid, r). rkey r = key \<and> (rstate r = UNKNOWN \<or> rstate r = RESERVED)"
  show ?thesis
  proof (cases "find ?P rs")
    case None
    with ok core(5) show ?thesis by (simp add: backend_reconcile_def)
  next
    case (Some kr)
    obtain rid r where kr: "kr = (rid, r)" by (cases kr)
    with Some have mem: "(rid, r) \<in> set rs" and op: "is_open (rstate r)"
      by (auto simp: is_open_def dest!: find_SomeD)
    then have r: "map_of rs rid = Some r" using core(6) by (auto simp: amounts_ok_def)
    let ?rs = "dput rid (r\<lparr>rstate := UNKNOWN\<rparr>) rs"
    have "held ?rs = held rs" "spent ?rs = spent rs"
      using op by (auto simp: fun_eq_iff held_spent_shift [OF r] is_open_def)
    then have "ledger_ok (coord_view (coord d)) ?rs" by (rule ledger_ok_cong [THEN iffD2]) (rule core(8))
    moreover have "amounts_ok ?rs" "keys_ok ?rs"
      using core amounts_okD [of rs, OF _ r] keys_ok_dput_old [of rs, OF _ r]
      by (auto intro!: amounts_ok_dput)
    ultimately have "backend_ok (persist_reservations d ?rs)"
      unfolding backend_ok_def using core(1-3) resv_is_persist [of d ?rs]
      by (auto simp del: resv_is_persist intro!: exI [of _ ?rs])
    then show ?thesis
      using Some kr core(5) ok commit_record_final [OF ok core(5) r op, of now CONFIRMED]
        release_record_final [OF ok core(5) r op, of now FAILED]
      by (auto simp: backend_reconcile_def final_def Let_def split: option.split sum.split bool.split)
  qed
qed

subsection \<open>Whole runs\<close>

datatype backend_op =
    BRegister string amount_in
  | BReserve string amount_in string string rat
  | BCommit string rat
  | BRelease string rat
  | BRefund string rat
  | BReconcile provider string rat

text \<open>The durable images of a request; the last one is the state it leaves.\<close>

fun backend_images :: "backend \<Rightarrow> backend_op \<Rightarrow> backend list" where
  "backend_images d (BRegister k cap) = snd (backend_register d k cap)"
| "backend_images d (BReserve key a k uuid now) = snd (backend_reserve d key a k uuid now)"
| "backend_images d (BCommit rid now) = snd (backend_commit d rid now)"
| "backend_images d (BRelease rid now) = snd (backend_release d rid now)"
| "backend_images d (BRefund rid now) = snd (backend_refund d rid now)"
| "backend_images d (BReconcile prov key now) = snd (backend_reconcile d prov key now)"

text \<open>\<open>uuid4\<close> does not return an identifier that is already in the registry.\<close>

fun fresh_id :: "backend \<Rightarrow> backend_op \<Rightarrow> bool" where
  "fresh_id d (BReserve key a k uuid now) \<longleftrightarrow>
     uuid \<noteq> [] \<and> (case load_reservations (resv d) of Inl _ \<Rightarrow> True | Inr rs \<Rightarrow> map_of rs uuid = None)"
| "fresh_id d _ \<longleftrightarrow> True"

definition backend_step :: "backend \<Rightarrow> backend_op \<Rightarrow> backend" where
  "backend_step d r =
     (if fresh_id d r then (let imgs = backend_images d r in if imgs = [] then d else last imgs) else d)"

lemma backend_step_ok: "backend_ok d \<Longrightarrow> backend_ok (backend_step d r)"
proof (cases r)
  case (BCommit rid now)
  assume ok: "backend_ok d"
  then obtain rs where core: "load_reservations (resv d) = Inr rs" by (rule backend_okE)
  have "backend_ok (final d (backend_commit d rid now))"
  proof (cases "\<exists>r. map_of rs rid = Some r \<and> rstate r = RESERVED")
    case True
    then obtain r where "map_of rs rid = Some r" "rstate r = RESERVED" by blast
    with commit_record_final [OF ok core this(1), of now "St COMMITTED"] core show ?thesis
      by (simp add: backend_commit_def is_open_def)
  next
    case False
    with ok core show ?thesis by (cases "map_of rs rid") (auto simp: backend_commit_def)
  qed
  with BCommit show ?thesis by (simp add: backend_step_def Let_def final_def)
next
  case (BRelease rid now)
  assume ok: "backend_ok d"
  then obtain rs where core: "load_reservations (resv d) = Inr rs" by (rule backend_okE)
  have "backend_ok (final d (backend_release d rid now))"
  proof (cases "\<exists>r. map_of rs rid = Some r \<and> rstate r = RESERVED")
    case True
    then obtain r where "map_of rs rid = Some r" "rstate r = RESERVED" by blast
    with release_record_final [OF ok core this(1), of now "St RELEASED"] core show ?thesis
      by (simp add: backend_release_def is_open_def)
  next
    case False
    with ok core show ?thesis by (cases "map_of rs rid") (auto simp: backend_release_def)
  qed
  with BRelease show ?thesis by (simp add: backend_step_def Let_def final_def)
next
  case (BReserve key a k uuid now)
  assume "backend_ok d"
  with BReserve backend_reserve_final [of d uuid key a k now] show ?thesis
    by (auto simp: backend_step_def Let_def final_def split: sum.splits)
next
  case (BRegister k cap)
  assume "backend_ok d"
  from backend_register_final [OF this, of k cap] BRegister \<open>backend_ok d\<close> show ?thesis
    by (simp add: backend_step_def Let_def final_def)
next
  case (BRefund rid now)
  assume "backend_ok d"
  from backend_refund_final [OF this, of rid now] BRefund show ?thesis
    by (simp add: backend_step_def Let_def final_def)
next
  case (BReconcile prov key now)
  assume "backend_ok d"
  from backend_reconcile_final [OF this, of prov key now] BReconcile show ?thesis
    by (simp add: backend_step_def Let_def final_def)
qed

interpretation backend_machine: machine backend_step backend_ok
  by unfold_locales (rule backend_step_ok)

subsection \<open>Crashes between the writes\<close>

definition crash_outcome :: "backend \<Rightarrow> backend_op \<Rightarrow> backend \<Rightarrow> bool" where
  "crash_outcome d r img \<longleftrightarrow>
     (\<exists>rs rs'. load_reservations (resv d) = Inr rs \<and>
        load_reservations (resv (backend_step d r)) = Inr rs' \<and>
        (recovers_to img (coord_view (coord d)) rs \<or>
         recovers_to img (coord_view (coord (backend_step d r))) rs'))"

lemma coord_new_view:
  assumes "coord_ok c" and "coord_durable c" and "load (store c) = Inr m"
  shows "\<exists>c'. coord_new True (store c) = Inr c' \<and> coord_view c' = coord_view c"
proof (cases "store c = BAbsent")
  case True
  with assms(2) show ?thesis
    by (auto simp: coord_new_def reload_def coord_view_def coord_durable_def fun_eq_iff)
next
  case False
  with assms have "coord_new True (store c) = Inr (c\<lparr>resources := m\<rparr>)"
    by (intro coord_new_reload) (auto simp: coord_durable_def)
  moreover have "reload c = Inr (c\<lparr>resources := m\<rparr>)"
    using assms False by (simp add: reload_def coord_durable_def)
  ultimately show ?thesis using assms(1) by (auto intro: coord_view_same)
qed

lemma recover_idle:
  assumes ok: "backend_ok d" and rs: "load_reservations (resv d) = Inr rs"
    and c: "c = coord d \<or> reload (coord d) = Inr c" and ld: "load (store (coord d)) = Inr m"
  shows "recovers_to (d\<lparr>coord := c\<rparr>) (coord_view (coord d)) rs"
proof -
  have core: "coord_ok (coord d)" "coord_durable (coord d)" "journal d = JAbsent"
    using ok by (auto simp: backend_ok_def)
  have "store c = store (coord d)" using c reload_ok(2) [OF core(1)] by auto
  with coord_new_view [OF core(1,2) ld] rs core(3) show ?thesis
    by (auto simp: recovers_to_def restart_def recover_pending_def settled_def)
qed

lemma backend_step_final:
  "fresh_id d r \<Longrightarrow> backend_step d r = final d (res, backend_images d r)"
  by (simp add: backend_step_def Let_def final_def)

text \<open>A quiet run keeps the state, so each of its images recovers to it.\<close>

lemma quiet_crash:
  assumes ok: "backend_ok d" and q: "quiet_run d (res, imgs)" and img: "img \<in> set imgs"
    and ld: "load (store (coord (final d (res, imgs)))) = Inr m"
    and rs: "load_reservations (resv d) = Inr rs"
  shows "recovers_to img (coord_view (coord d)) rs"
proof -
  have core: "coord_ok (coord d)" using ok by (simp add: backend_ok_def)
  have same: "\<exists>c. i = d\<lparr>coord := c\<rparr> \<and> (c = coord d \<or> reload (coord d) = Inr c)" if "i \<in> set imgs" for i
    using q that by (auto simp: quiet_run_def)
  have "final d (res, imgs) \<in> set imgs" using img by (auto simp: final_def)
  with same obtain c where "final d (res, imgs) = d\<lparr>coord := c\<rparr>"
    "c = coord d \<or> reload (coord d) = Inr c" by blast
  then have "load (store (coord d)) = Inr m" using ld reload_ok(2) [OF core] by auto
  with same [OF img] recover_idle [OF ok rs] show ?thesis by blast
qed

lemma txn_crash:
  assumes ok: "backend_ok d" and rs: "load_reservations (resv d) = Inr rs"
    and t: "txn_run d rs (res, imgs) done tx b b' rs'" and aft: "tx_after tx = snap b'"
    and ne: "snap b' \<noteq> snap b" and img: "img \<in> set imgs"
    and ld: "load (store (coord (final d (res, imgs)))) = Inr m"
  shows "recovers_to img (coord_view (coord d)) rs \<or>
         recovers_to img (coord_view (coord (final d (res, imgs)))) rs'"
proof -
  let ?k = "resource_id (tx_record tx)"
  have core: "coord_ok (coord d)" "coord_durable (coord d)" using ok by (auto simp: backend_ok_def)
  from t obtain c1 where c1: "reload (coord d) = Inr c1" and b: "map_of (resources c1) ?k = Some b"
    and b': "budget_ok b'" and tx: "tx_rid tx \<noteq> []" "tx_before tx = snap b"
    and rp: "replay_record tx rs = Inr rs'" "replay_record tx rs' = Inr rs'"
    and imgs: "imgs = tx_images (d\<lparr>coord := c1\<rparr>) tx (persist (set_budget c1 ?k b')) rs'"
    by (auto simp: txn_run_def)
  let ?c2 = "persist (set_budget c1 ?k b')"
  have fin: "coord (final d (res, imgs)) = ?c2"
    by (simp add: imgs final_def tx_images_def Let_def)
  have ok1: "coord_ok c1" and dur1: "coord_durable c1"
    using reload_ok(1) [OF core(1) c1] coord_durable_reload [OF core(2) c1] .
  have valid: "tx_valid tx"
    using tx(1) aft tx(2) snapshot_valid_snap [OF b'] snapshot_valid_snap [OF coord_okD [OF ok1 b]]
    by (simp add: tx_valid_def)
  have "recovers_to img (coord_view c1) rs \<or> recovers_to img (coord_view ?c2) rs'"
    by (rule tx_images_recover [OF ok1 dur1 reload_idem [OF c1] b refl b' refl _ valid tx(2) aft ne _ _ rp])
      (use ld fin rs img imgs in simp_all)
  with fin coord_view_same [OF c1 core(1)] show ?thesis by simp
qed

lemma refused_crash:
  assumes ok: "backend_ok d" and q: "refused_run d (res, imgs)" and img: "img \<in> set imgs"
    and rs: "load_reservations (resv d) = Inr rs"
  shows "recovers_to img (coord_view (coord d)) rs"
proof -
  have core: "coord_ok (coord d)" "coord_durable (coord d)" "journal d = JAbsent"
    using ok by (auto simp: backend_ok_def)
  from q obtain c1 tx b where c1: "reload (coord d) = Inr c1"
    and b: "map_of (resources c1) (resource_id (tx_record tx)) = Some b" and tx: "tx_valid tx"
      "tx_before tx = snap b" "tx_after tx \<noteq> snap b"
    and imgs: "imgs = [persist_transaction (d\<lparr>coord := c1\<rparr>) tx, d\<lparr>coord := c1, journal := JAbsent\<rparr>]"
    by (auto simp: refused_run_def)
  have ok1: "coord_ok c1" and dur1: "coord_durable c1"
    using reload_ok(1) [OF core(1) c1] coord_durable_reload [OF core(2) c1] .
  have 1: "recovers_to (persist_transaction (d\<lparr>coord := c1\<rparr>) tx) (coord_view c1) rs"
    by (rule recover_before [OF ok1 dur1 reload_idem [OF c1] b tx]) (use rs in simp_all)
  have "store (coord d) \<noteq> BAbsent" "store_path (coord d)"
    using b dur1 c1 core(2) by (auto simp: coord_durable_def reload_def split: if_splits)
  then have "load (store (coord d)) = Inr (resources c1)"
    using c1 by (auto simp: reload_def bindE_Inr_conv)
  from recover_idle [OF ok rs _ this, of c1] c1
  have "recovers_to (d\<lparr>coord := c1\<rparr>) (coord_view (coord d)) rs" by simp
  moreover have "d\<lparr>coord := c1\<rparr> = d\<lparr>coord := c1, journal := JAbsent\<rparr>"
    using core(3) by (cases d) simp
  ultimately have 2: "recovers_to (d\<lparr>coord := c1, journal := JAbsent\<rparr>) (coord_view (coord d)) rs"
    by simp
  from img imgs 1 2 coord_view_same [OF c1 core(1)] show ?thesis by auto
qed

end
