(* ===== verification/Backend_Guarantees.thy ===== *)
theory Backend_Guarantees
  imports Consensus_Backend
begin

section \<open>What the single-host backend guarantees\<close>

text \<open>
  Whole-run and crash properties of \<open>SingleHostLockBackend\<close>: reservations only ever move
  forward through their life cycle, the registry and the budget totals agree after every
  sequence of requests, and a crash between two file writes loses or keeps a request as a
  whole, with the one exception shown at the end of the theory.
\<close>

subsection \<open>The life cycle of a reservation\<close>

definition state_le :: "rstate \<Rightarrow> rstate \<Rightarrow> bool" where
  "state_le s t \<longleftrightarrow>
     s = t \<or> is_open s \<and> (t = UNKNOWN \<or> t = COMMITTED \<or> t = RELEASED \<or> t = REFUNDED) \<or>
     s = COMMITTED \<and> t = REFUNDED"

definition resv_le :: "reservation \<Rightarrow> reservation \<Rightarrow> bool" where
  "resv_le r r' \<longleftrightarrow>
     rkey r' = rkey r \<and> amount r' = amount r \<and> resource_id r' = resource_id r \<and>
     created_at r' = created_at r \<and> state_le (rstate r) (rstate r')"

definition registry_le :: "(string, reservation) dict \<Rightarrow> (string, reservation) dict \<Rightarrow> bool" where
  "registry_le rs rs' \<longleftrightarrow>
     (\<forall>rid r. map_of rs rid = Some r \<longrightarrow> (\<exists>r'. map_of rs' rid = Some r' \<and> resv_le r r'))"

definition backend_le :: "backend \<Rightarrow> backend \<Rightarrow> bool" where
  "backend_le d d' \<longleftrightarrow>
     (\<forall>rs. load_reservations (resv d) = Inr rs \<longrightarrow>
        (\<exists>rs'. load_reservations (resv d') = Inr rs' \<and> registry_le rs rs'))"

lemma state_le_trans: "state_le s t \<Longrightarrow> state_le t u \<Longrightarrow> state_le s u"
  by (auto simp: state_le_def is_open_def)

lemma resv_le_refl [simp]: "resv_le r r"
  by (simp add: resv_le_def state_le_def)

lemma resv_le_trans: "resv_le r s \<Longrightarrow> resv_le s t \<Longrightarrow> resv_le r t"
  by (auto simp: resv_le_def intro: state_le_trans)

lemma registry_le_refl [simp]: "registry_le rs rs"
  by (simp add: registry_le_def)

lemma registry_le_trans: "registry_le a b \<Longrightarrow> registry_le b c \<Longrightarrow> registry_le a c"
  unfolding registry_le_def by (meson resv_le_trans)

lemma backend_le_trans: "backend_le a b \<Longrightarrow> backend_le b c \<Longrightarrow> backend_le a c"
  unfolding backend_le_def by (meson registry_le_trans)

lemma backend_le_same: "resv d' = resv d \<Longrightarrow> backend_le d d'"
  by (simp add: backend_le_def)

lemma registry_le_new: "map_of rs rid = None \<Longrightarrow> registry_le rs (dput rid r rs)"
  by (auto simp: registry_le_def map_of_dput)

lemma registry_le_move:
  assumes "map_of rs rid = Some r" and "resv_le r r'"
  shows "registry_le rs (dput rid r' rs)"
  using assms by (auto simp: registry_le_def map_of_dput)

lemma txn_final_le:
  assumes ok: "coord_ok (coord d)" and rs: "load_reservations (resv d) = Inr rs"
    and t: "txn_run d rs run done tx b b' rs'" and le: "registry_le rs rs'"
  shows "backend_le d (final d run)"
  using txn_facts(2) [OF ok t] rs le by (auto simp: backend_le_def load_stored)

lemma commit_record_le:
  assumes ok: "backend_ok d" and rs: "load_reservations (resv d) = Inr rs"
    and r: "map_of rs rid = Some r" and op: "is_open (rstate r)"
  shows "backend_le d (final d (commit_record d rs rid r now done))"
proof -
  from ok rs have core: "coord_ok (coord d)" "amounts_ok rs" by (auto elim!: backend_okE)
  have "registry_le rs (dput rid (r\<lparr>rstate := COMMITTED, committed_at := Some now\<rparr>) rs)"
    using r op by (intro registry_le_move) (auto simp: resv_le_def state_le_def)
  with commit_record_run [OF core r, of now "done"] txn_final_le [OF core(1) rs] quiet_final [OF ok]
  show ?thesis by (metis backend_le_same)
qed

lemma release_record_le:
  assumes ok: "backend_ok d" and rs: "load_reservations (resv d) = Inr rs"
    and r: "map_of rs rid = Some r" and op: "is_open (rstate r)"
  shows "backend_le d (final d (release_record d rs rid r now done))"
proof -
  from ok rs have core: "coord_ok (coord d)" "amounts_ok rs" by (auto elim!: backend_okE)
  have "registry_le rs (dput rid (r\<lparr>rstate := RELEASED, released_at := Some now\<rparr>) rs)"
    using r op by (intro registry_le_move) (auto simp: resv_le_def state_le_def)
  with release_record_run [OF core r, of now "done"] txn_final_le [OF core(1) rs] quiet_final [OF ok]
  show ?thesis by (metis backend_le_same)
qed

lemma backend_step_le: "backend_ok d \<Longrightarrow> backend_le d (backend_step d r)"
proof (cases "fresh_id d r")
  case False
  then show ?thesis by (simp add: backend_step_def backend_le_same)
next
  case True
  assume ok: "backend_ok d"
  then obtain rs where core: "coord_ok (coord d)" "load_reservations (resv d) = Inr rs" "amounts_ok rs"
    by (rule backend_okE)
  note fin = backend_step_final [OF True]
  have quiet: "backend_le d (final d run)" if "quiet_run d run" for run :: "'x traced"
    using quiet_final [OF ok that] by (simp add: backend_le_same)
  note txn = txn_final_le [OF core(1,2)]
  show ?thesis
  proof (cases r)
    case (BRegister k cap)
    have "resv (final d (backend_register d k cap)) = resv d"
      by (auto simp: backend_register_def final_def split: amount_in.split prod.split)
    then show ?thesis using fin [of "fst (backend_register d k cap)"] BRegister
      by (simp add: backend_le_same)
  next
    case (BReserve key a k uuid now)
    then have new: "map_of rs uuid = None" "uuid \<noteq> []" using True core(2) by auto
    have "backend_le d (final d (backend_reserve d key a k uuid now))"
      using backend_reserve_run [OF core new(2), of key a k now] quiet
        refused_final [OF ok, THEN conjunct2, THEN conjunct2, THEN backend_le_same]
        txn [OF _ registry_le_new [OF new(1)]]
      by metis
    then show ?thesis using fin [of "fst (backend_reserve d key a k uuid now)"] BReserve by simp
  next
    case (BCommit rid now)
    have mv: "registry_le rs (dput rid (q\<lparr>rstate := COMMITTED, committed_at := Some now\<rparr>) rs)"
      if "map_of rs rid = Some q" "rstate q = RESERVED" for q
      using that by (intro registry_le_move) (auto simp: resv_le_def state_le_def is_open_def)
    have "backend_le d (final d (backend_commit d rid now))"
      using backend_commit_run [OF core, of rid now] quiet txn mv by metis
    then show ?thesis using fin [of "fst (backend_commit d rid now)"] BCommit by simp
  next
    case (BRelease rid now)
    have mv: "registry_le rs (dput rid (q\<lparr>rstate := RELEASED, released_at := Some now\<rparr>) rs)"
      if "map_of rs rid = Some q" "rstate q = RESERVED" for q
      using that by (intro registry_le_move) (auto simp: resv_le_def state_le_def is_open_def)
    have "backend_le d (final d (backend_release d rid now))"
      using backend_release_run [OF core, of rid now] quiet txn mv by metis
    then show ?thesis using fin [of "fst (backend_release d rid now)"] BRelease by simp
  next
    case (BRefund rid now)
    have mv: "registry_le rs (dput rid (q\<lparr>rstate := REFUNDED, refunded_at := Some now\<rparr>) rs)"
      if "map_of rs rid = Some q" "rstate q = COMMITTED" for q
      using that by (intro registry_le_move) (auto simp: resv_le_def state_le_def)
    have "backend_le d (final d (backend_refund d rid now))"
      using backend_refund_run [OF core, of rid now] quiet txn mv by metis
    then show ?thesis using fin [of "fst (backend_refund d rid now)"] BRefund by simp
  next
    case (BReconcile prov key now)
    let ?P = "\<lambda>(rid, r). rkey r = key \<and> (rstate r = UNKNOWN \<or> rstate r = RESERVED)"
    have "backend_le d (final d (backend_reconcile d prov key now))"
    proof (cases "find ?P rs")
      case None
      with core show ?thesis by (simp add: backend_reconcile_def final_def backend_le_same)
    next
      case (Some kr)
      obtain rid q where kr: "kr = (rid, q)" by (cases kr)
      with Some have "(rid, q) \<in> set rs" and op: "is_open (rstate q)"
        by (auto simp: is_open_def dest!: find_SomeD)
      then have q: "map_of rs rid = Some q" using core(3) by (auto simp: amounts_ok_def)
      let ?rs = "dput rid (q\<lparr>rstate := UNKNOWN\<rparr>) rs"
      have "registry_le rs ?rs"
        using q op by (intro registry_le_move) (auto simp: resv_le_def state_le_def)
      then have "backend_le d (persist_reservations d ?rs)"
        using core(2) load_resv_is [OF resv_is_persist, of d ?rs] by (auto simp: backend_le_def)
      then show ?thesis
        using Some kr core(2) commit_record_le [OF ok core(2) q op, of now CONFIRMED]
          release_record_le [OF ok core(2) q op, of now FAILED]
        by (auto simp: backend_reconcile_def final_def Let_def backend_le_same
            split: option.split sum.split bool.split)
    qed
    then show ?thesis using fin [of "fst (backend_reconcile d prov key now)"] BReconcile by simp
  qed
qed

interpretation backend_order: machine_order backend_step backend_ok backend_le
  by unfold_locales (auto intro: backend_step_le backend_le_trans backend_le_same)

subsection \<open>Idempotency\<close>

lemma find_key_unique:
  assumes "keys_ok rs" and "wf_dict rs" and "map_of rs rid = Some r"
  shows "find_key (rkey r) rs = Some (rid, r)"
proof (cases "find_key (rkey r) rs")
  case None
  with assms(3) show ?thesis by (auto simp: find_key_None dest!: map_of_SomeD)
next
  case (Some kr)
  then have "kr \<in> set rs" "rkey (snd kr) = rkey r"
    by (auto simp: find_key_def case_prod_unfold dest!: find_SomeD)
  moreover have "(rid, r) \<in> set rs" using assms(3) by (rule map_of_SomeD)
  ultimately have "kr = (rid, r)"
    using assms(1) unfolding keys_ok_def distinct_map by (metis inj_onD snd_conv)
  with Some show ?thesis by simp
qed

lemma reserve_known_key:
  assumes ok: "backend_ok d" and rs: "load_reservations (resv d) = Inr rs"
    and r: "map_of rs rid = Some r"
  shows "backend_reserve d (rkey r) (AFin x) k uuid now =
     (if \<not> 0 < dval x then (Inr (INVALID_AMOUNT, None), [])
      else if dval (amount r) = dval x \<and> resource_id r = k then (Inr (St (rstate r), Some rid), [])
      else (Inr (DUPLICATE_KEY, None), []))"
proof -
  from ok rs have "keys_ok rs" "wf_dict rs" by (auto elim!: backend_okE simp: amounts_ok_def)
  from find_key_unique [OF this r] rs show ?thesis
    by (simp add: backend_reserve_def valid_amount_def dlt_dval deq_dval)
qed

text \<open>
  C25. Idempotency over every run. Once the registry holds a reservation, a \<open>reserve\<close> with its
  key never creates another one and never writes a file, whatever requests came in between:
  the same amount and resource are answered with the identifier of the existing reservation
  and its current state, which is reachable from the earlier one; anything else is refused as
  a duplicate key.
\<close>

theorem reserve_idempotent:
  assumes "backend_ok d" and "load_reservations (resv d) = Inr rs" and "map_of rs rid = Some r"
    and "0 < dval x"
  shows "\<exists>s. state_le (rstate r) s \<and>
     backend_reserve (foldl backend_step d ops) (rkey r) (AFin x) k uuid now =
       (if dval (amount r) = dval x \<and> resource_id r = k then (Inr (St s, Some rid), [])
        else (Inr (DUPLICATE_KEY, None), []))"
proof -
  let ?d = "foldl backend_step d ops"
  have ok: "backend_ok ?d" by (rule backend_machine.run_inv [OF assms(1)])
  from backend_order.run_le [OF assms(1), of ops] assms(2,3) obtain rs' r' where
    r': "load_reservations (resv ?d) = Inr rs'" "map_of rs' rid = Some r'" "resv_le r r'"
    unfolding backend_le_def registry_le_def by metis
  from r'(3) reserve_known_key [OF ok r'(1,2), of x k uuid now] assms(4) show ?thesis
    by (auto simp: resv_le_def)
qed

text \<open>
  A reservation is committed at most once: after a commit that succeeded, no later commit
  of it succeeds and no later release of it succeeds, whatever happens in between.
\<close>

theorem commit_at_most_once:
  assumes "backend_ok d" and "fst (backend_commit d rid now) = Inr (St COMMITTED)"
  shows "fst (backend_commit (foldl backend_step (backend_step d (BCommit rid now)) ops) rid now')
           \<in> {Inr ALREADY_COMMITTED, Inr ERROR} \<and>
         fst (backend_release (foldl backend_step (backend_step d (BCommit rid now)) ops) rid now')
           \<in> {Inr ALREADY_COMMITTED, Inr ERROR}"
proof -
  let ?d1 = "backend_step d (BCommit rid now)"
  let ?d = "foldl backend_step ?d1 ops"
  from assms(1) obtain rs where core: "coord_ok (coord d)" "load_reservations (resv d) = Inr rs" "amounts_ok rs"
    by (rule backend_okE)
  have fin: "?d1 = final d (backend_commit d rid now)"
    using backend_step_final [of d "BCommit rid now" "fst (backend_commit d rid now)"] by simp
  from backend_commit_run [OF core, of rid now] assms(2) obtain r tx b b' where
    t: "txn_run d rs (backend_commit d rid now) (St COMMITTED) tx b b'
         (dput rid (r\<lparr>rstate := COMMITTED, committed_at := Some now\<rparr>) rs)" by metis
  let ?r1 = "r\<lparr>rstate := COMMITTED, committed_at := Some now\<rparr>"
  from txn_facts(2) [OF core(1) t] fin have
    rs1: "load_reservations (resv ?d1) = Inr (dput rid ?r1 rs)"
    by (auto simp: load_stored)
  have ok1: "backend_ok ?d1" using assms(1) by (rule backend_step_ok)
  have "map_of (dput rid ?r1 rs) rid = Some ?r1" by (simp add: map_of_dput)
  with backend_order.run_le [OF ok1, of ops] rs1 obtain rs' r' where
    r': "load_reservations (resv ?d) = Inr rs'" "map_of rs' rid = Some r'" "resv_le ?r1 r'"
    unfolding backend_le_def registry_le_def by meson
  from r'(3) have "rstate r' = COMMITTED \<or> rstate r' = REFUNDED" by (auto simp: resv_le_def state_le_def is_open_def)
  with r'(1,2) show ?thesis by (auto simp: backend_commit_def backend_release_def)
qed

subsection \<open>The ledger\<close>

text \<open>
  C6. Reconciliation of the two files. After every sequence of requests, for every registered
  resource, the budget's reserved total is the exact sum of the open reservations in the
  registry, the consumed total is the exact sum of the committed ones, and together they fit
  the capacity.
\<close>

theorem backend_ledger:
  assumes "backend_ok d" and "load_reservations (resv (foldl backend_step d ops)) = Inr rs"
    and "coord_view (coord (foldl backend_step d ops)) k = Some (cap, p, u)"
  shows "p = held rs k \<and> u = spent rs k \<and> held rs k + spent rs k \<le> cap"
proof -
  have "backend_ok (foldl backend_step d ops)" by (rule backend_machine.run_inv [OF assms(1)])
  then obtain rs0 where c: "coord_ok (coord (foldl backend_step d ops))"
    "load_reservations (resv (foldl backend_step d ops)) = Inr rs0"
    "ledger_ok (coord_view (coord (foldl backend_step d ops))) rs0" by (rule backend_okE)
  with assms(2,3) have "p = held rs k \<and> u = spent rs k"
    by (auto simp: ledger_ok_def dest!: spec [of _ k])
  with coord_view_bounds [OF c(1) assms(3)] show ?thesis by simp
qed

lemma listing_sum:
  "sum_list (map (\<lambda>(rid, key, x, s). if P s then dval x else 0)
      (map (\<lambda>(rid, q). (rid, rkey q, amount q, rstate q)) (filter (\<lambda>(rid, q). resource_id q = k) rs)))
   = dict_sum (\<lambda>q. if resource_id q = k \<and> P (rstate q) then dval (amount q) else 0) rs"
  by (induction rs) auto

text \<open>
  What \<open>get_state\<close> reports adds up, after every sequence of requests: available is capacity
  minus reserved minus committed and not negative, reserved is the total of the open
  reservations it lists, committed the total of the committed ones.
\<close>

theorem get_state_ledger:
  assumes "backend_ok d"
    and "backend_get_state (foldl backend_step d ops) k = (Inr (av, p, u, cap, l), c)"
  shows "dval av = dval cap - dval p - dval u \<and> 0 \<le> dval av \<and>
    dval p = sum_list (map (\<lambda>(rid, key, x, s). if is_open s then dval x else 0) l) \<and>
    dval u = sum_list (map (\<lambda>(rid, key, x, s). if s = COMMITTED then dval x else 0) l)"
proof -
  let ?d = "foldl backend_step d ops"
  have "backend_ok ?d" by (rule backend_machine.run_inv [OF assms(1)])
  then obtain rs where core: "coord_ok (coord ?d)" "load_reservations (resv ?d) = Inr rs"
    "ledger_ok (coord_view (coord ?d)) rs" by (rule backend_okE)
  have w: "held_weight k = (\<lambda>q. if resource_id q = k \<and> is_open (rstate q) then dval (amount q) else 0)"
    "spent_weight k = (\<lambda>q. if resource_id q = k \<and> rstate q = COMMITTED then dval (amount q) else 0)"
    by (simp_all add: fun_eq_iff held_weight_def spent_weight_def)
  show ?thesis
  proof (cases "coord_get_state (coord ?d) k")
    case (Pair q c1)
    show ?thesis
    proof (cases "q = Inr None")
      case True
      with Pair assms(2) show ?thesis by (auto simp: backend_get_state_def dzero_def dval_def)
    next
      case False
      with Pair assms(2) core(2) have q: "q = Inr (Some (av, p, u, cap))"
        and l: "l = map (\<lambda>(rid, q). (rid, rkey q, amount q, rstate q))
                  (filter (\<lambda>(rid, q). resource_id q = k) rs)"
        by (auto simp: backend_get_state_def split: sum.splits option.splits)
      from Pair q obtain b where rl: "reload (coord ?d) = Inr c1" and b: "map_of (resources c1) k = Some b"
        "available b = Inr av" "p = reserved b" "u = consumed b" "cap = capacity b"
        by (auto simp: coord_get_state_def split: sum.splits option.splits)
      have bok: "budget_ok b" by (rule coord_okD [OF reload_ok(1) [OF core(1) rl] b(1)])
      from budget_ok_available [OF bok] b(2) have av: "dval av = dval (capacity b) - dval (reserved b) - dval (consumed b)"
        by (metis sum.inject(2))
      have "coord_view (coord ?d) k = Some (counters b)"
        using coord_view_reload [OF core(1) rl] b(1) by simp
      from ledger_okD [OF core(3) this] show ?thesis
        unfolding l listing_sum using av bok b by (simp add: held_def spent_def w budget_ok_def)
    qed
  qed
qed

subsection \<open>Crashes\<close>

lemma crash_idle:
  assumes "backend_ok d" and "load_reservations (resv d) = Inr rs"
    and "recovers_to img (coord_view (coord d)) rs"
  shows "crash_outcome d r img"
  using assms backend_step_ok [OF assms(1), of r] unfolding crash_outcome_def
  by (meson backend_okE)

lemma crash_quiet:
  assumes ok: "backend_ok d" and fresh: "fresh_id d r" and img: "img \<in> set (backend_images d r)"
    and ld: "load (store (coord (backend_step d r))) = Inr m"
    and rs: "load_reservations (resv d) = Inr rs"
    and q: "quiet_run d (res, backend_images d r)"
  shows "crash_outcome d r img"
proof (rule crash_idle [OF ok rs], rule quiet_crash [OF ok q img _ rs, where m = m])
  show "load (store (coord (final d (res, backend_images d r)))) = Inr m"
    using ld backend_step_final [OF fresh, of res] by simp
qed

lemma crash_txn:
  assumes ok: "backend_ok d" and fresh: "fresh_id d r" and img: "img \<in> set (backend_images d r)"
    and ld: "load (store (coord (backend_step d r))) = Inr m"
    and rs: "load_reservations (resv d) = Inr rs"
    and t: "txn_run d rs (res, backend_images d r) done tx b b' rs'"
    and aft: "tx_after tx = snap b'" "snap b' \<noteq> snap b"
  shows "crash_outcome d r img"
proof -
  have core: "coord_ok (coord d)" using ok by (simp add: backend_ok_def)
  note fin = backend_step_final [OF fresh, of res]
  from txn_facts(2) [OF core t] have "load_reservations (resv (backend_step d r)) = Inr rs'"
    by (auto simp: fin load_stored)
  with txn_crash [OF ok rs t aft img] ld rs show ?thesis
    by (auto simp: fin crash_outcome_def)
qed


text \<open>
  The same for a release that leaves something reserved on the resource.
\<close>

theorem release_crash_atomic:
  assumes "backend_ok d" and "img \<in> set (backend_images d (BRelease rid now))"
    and "load (store (coord (backend_step d (BRelease rid now)))) = Inr m"
    and "load_reservations (resv d) = Inr rs" and "map_of rs rid = Some q"
    and "coord_view (coord (backend_step d (BRelease rid now))) (resource_id q) = Some (cap, p, u)"
    and "0 < p"
  shows "crash_outcome d (BRelease rid now) img"
proof -
  from assms(1,4) have core: "coord_ok (coord d)" "amounts_ok rs" by (auto elim!: backend_okE)
  have fresh: "fresh_id d (BRelease rid now)" by simp
  have run: "backend_release d rid now =
      (fst (backend_release d rid now), backend_images d (BRelease rid now))" by simp
  note quiet = crash_quiet [OF assms(1) fresh assms(2,3,4)]
    and txn = crash_txn [OF assms(1) fresh assms(2,3,4)]
  from backend_release_run [OF core(1) assms(4) core(2), of rid now] show ?thesis
  proof (elim disjE exE conjE)
    fix q' and tx :: transaction and b :: budget and p'
    assume q': "map_of rs rid = Some q'" "dval p' = dval (reserved b) - dval (amount q')"
      "resource_id (tx_record tx) = resource_id q'"
      and t: "tx_after tx = snap (b\<lparr>reserved := p'\<rparr>)"
        "txn_run d rs (backend_release d rid now) (St RELEASED) tx b (b\<lparr>reserved := dmax0 p'\<rparr>)
           (dput rid (q'\<lparr>rstate := RELEASED, released_at := Some now\<rparr>) rs)"
    have [simp]: "q' = q" using q'(1) assms(5) by simp
    have "coord_view (coord (final d (backend_release d rid now))) (resource_id q) =
        Some (counters (b\<lparr>reserved := dmax0 p'\<rparr>))"
      using txn_facts(2) [OF core(1) t(2)] q'(3) by auto
    with assms(6,7) have "0 < dval p'"
      using backend_step_final [OF fresh, of "fst (backend_release d rid now)"]
      by (auto simp: counters_def max_def split: if_splits)
    then have [simp]: "dmax0 p' = p'" by (simp add: dmax0_def dlt_dval)
    have "dval p' \<noteq> dval (reserved b)"
      using q'(2) amounts_okD [OF core(2) q'(1)] positive_amountD by fastforce
    then have "snap (b\<lparr>reserved := p'\<rparr>) \<noteq> snap b" by (auto simp: snap_def)
    with t run show ?thesis using txn by (metis \<open>dmax0 p' = p'\<close>)
  qed (metis quiet run)
qed

text \<open>A deployment whose files do not exist yet.\<close>

definition empty_backend :: backend where
  "empty_backend =
     \<lparr>coord = \<lparr>store_path = True, resources = [], store = BAbsent\<rparr>, resv = RAbsent, journal = JAbsent\<rparr>"

lemma empty_backend_ok: "backend_ok empty_backend"
  by (auto simp: backend_ok_def empty_backend_def coord_ok_def store_ok_def all_ok_def
      coord_durable_def resv_is_def amounts_ok_def keys_ok_def ledger_ok_def coord_view_def
      held_def spent_def dict_sum_def intro!: exI [of _ "[]"])

text \<open>
  The release of the last reservation is the exception: the journal records the remainder
  as \<open>0.0\<close>, the coordinator writes \<open>max (0, 0.0)\<close>, which is \<open>0\<close>, and a crash right after that
  write leaves files that recovery takes for a third state: no later process starts.
\<close>

theorem last_release_crash_stuck:
  "let d = foldl backend_step empty_backend
             [BRegister ''r'' (AFin (Dec 10 0)), BReserve ''k'' (AFin (Dec 1 0)) ''r'' ''u'' 0];
       imgs = backend_images d (BRelease ''u'' 1)
   in fst (backend_release d ''u'' 1) = Inr (St RELEASED) \<and> length imgs = 4 \<and>
      restart (imgs ! 1) = Inl RuntimeError \<and> restart (imgs ! 2) = Inl RuntimeError"
  by code_simp

subsection \<open>Concrete runs\<close>

text \<open>One resource with capacity 10 and one reservation of 5 on it.\<close>

definition demo_backend :: backend where
  "demo_backend =
     foldl backend_step empty_backend
       [BRegister ''r'' (AFin (Dec 10 0)), BReserve ''k'' (AFin (Dec 5 0)) ''r'' ''u'' 0,
        BReserve ''l'' (AFin (Dec 2 0)) ''r'' ''w'' 0]"

definition demo_resv :: "string \<Rightarrow> dec \<Rightarrow> reservation" where
  "demo_resv k x =
     \<lparr>rkey = k, amount = x, resource_id = ''r'', rstate = RESERVED, created_at = 0,
      committed_at = None, released_at = None, refunded_at = None\<rparr>"

lemma demo_backend_ok: "backend_ok demo_backend"
  unfolding demo_backend_def by (rule backend_machine.run_inv [OF empty_backend_ok])

lemma demo_registry:
  "load_reservations (resv demo_backend) =
     Inr [(''u'', demo_resv ''k'' (Dec 5 0)), (''w'', demo_resv ''l'' (Dec 2 0))]"
  by code_simp

theorem reserve_idempotent_witness:
  "\<exists>s. state_le RESERVED s \<and>
     backend_reserve (foldl backend_step demo_backend [BCommit ''u'' 1]) ''k'' (AFin (Dec 50 (-1))) ''r'' ''v'' 2 =
       (Inr (St s, Some ''u''), [])"
proof -
  have "map_of [(''u'', demo_resv ''k'' (Dec 5 0)), (''w'', demo_resv ''l'' (Dec 2 0))] ''u'' =
      Some (demo_resv ''k'' (Dec 5 0))" by simp
  from reserve_idempotent [OF demo_backend_ok demo_registry this, of "Dec 50 (-1)" "[BCommit ''u'' 1]" "''r''" "''v''" 2]
  show ?thesis by (simp add: demo_resv_def dval_def)
qed

theorem commit_at_most_once_witness:
  "fst (backend_commit (foldl backend_step (backend_step demo_backend (BCommit ''u'' 1)) [BRefund ''u'' 2]) ''u'' 3)
     \<in> {Inr ALREADY_COMMITTED, Inr ERROR}"
proof -
  have "fst (backend_commit demo_backend ''u'' 1) = Inr (St COMMITTED)" by code_simp
  from commit_at_most_once [OF demo_backend_ok this, of "[BRefund ''u'' 2]" 3] show ?thesis by (rule conjunct1)
qed

theorem backend_ledger_witness:
  "let d = foldl backend_step demo_backend [BCommit ''u'' 1, BReserve ''m'' (AFin (Dec 3 0)) ''r'' ''x'' 2]
   in case load_reservations (resv d) of
        Inl _ \<Rightarrow> False
      | Inr rs \<Rightarrow> coord_view (coord d) ''r'' = Some (10, held rs ''r'', spent rs ''r'')"
proof -
  let ?d = "foldl backend_step demo_backend [BCommit ''u'' 1, BReserve ''m'' (AFin (Dec 3 0)) ''r'' ''x'' 2]"
  have v: "coord_view (coord ?d) ''r'' = Some (10, 5, 5)" by code_simp
  obtain rs where rs: "load_reservations (resv ?d) = Inr rs"
    using backend_machine.run_inv [OF demo_backend_ok] by (rule backend_okE)
  from backend_ledger [OF demo_backend_ok rs v] v rs show ?thesis by (simp add: Let_def)
qed


theorem release_crash_atomic_witness:
  "crash_outcome demo_backend (BRelease ''u'' 1) (backend_images demo_backend (BRelease ''u'' 1) ! 1)"
proof -
  have m: "load (store (coord (backend_step demo_backend (BRelease ''u'' 1)))) =
      Inr [(''r'', \<lparr>capacity = Dec 10 0, reserved = Dec 20 (-1), consumed = Dec 0 (-1)\<rparr>)]" by code_simp
  have "length (backend_images demo_backend (BRelease ''u'' 1)) = 4" by code_simp
  then have img: "backend_images demo_backend (BRelease ''u'' 1) ! 1 \<in> set (backend_images demo_backend (BRelease ''u'' 1))"
    by (intro nth_mem) simp
  have q: "map_of [(''u'', demo_resv ''k'' (Dec 5 0)), (''w'', demo_resv ''l'' (Dec 2 0))] ''u'' =
      Some (demo_resv ''k'' (Dec 5 0))" by simp
  have v: "coord_view (coord (backend_step demo_backend (BRelease ''u'' 1))) (resource_id (demo_resv ''k'' (Dec 5 0))) =
      Some (10, 2, 0)" by code_simp
  show ?thesis by (rule release_crash_atomic [OF demo_backend_ok img m demo_registry q v]) simp
qed

theorem get_state_ledger_witness:
  "\<exists>av p u cap l c. backend_get_state (foldl backend_step demo_backend [BCommit ''u'' 1]) ''r'' =
     (Inr (av, p, u, cap, l), c) \<and> length l = 2 \<and> dval av = dval cap - dval p - dval u"
proof -
  have e: "fst (backend_get_state (foldl backend_step demo_backend [BCommit ''u'' 1]) ''r'') =
      Inr (Dec 30 (-1), Dec 20 (-1), Dec 50 (-1), Dec 10 0,
           [(''u'', ''k'', Dec 5 0, COMMITTED), (''w'', ''l'', Dec 2 0, RESERVED)])" by code_simp
  obtain c where c: "backend_get_state (foldl backend_step demo_backend [BCommit ''u'' 1]) ''r'' =
      (Inr (Dec 30 (-1), Dec 20 (-1), Dec 50 (-1), Dec 10 0,
           [(''u'', ''k'', Dec 5 0, COMMITTED), (''w'', ''l'', Dec 2 0, RESERVED)]), c)"
    using e by (metis prod.collapse)
  from get_state_ledger [OF demo_backend_ok c] c show ?thesis by fastforce
qed


end
