(* ===== verification/Py_Json.thy ===== *)
theory Py_Json
  imports Complex_Main Prelude "HOL-Library.List_Lexorder" "HOL-Library.Char_ord"
begin

section \<open>JSON values as Python holds them\<close>

text \<open>
  The envelopes the program stores and compares are JSON documents. Numbers are rationals
  (what a decimal literal denotes), strings are lists of characters up to code point 255.
  \<open>canonical\<close> is \<open>json.loads (json.dumps (v, sort_keys=True))\<close>: object members in key order,
  so that two dictionaries with the same members become the same value.
\<close>

datatype json =
    JNull
  | JBool bool
  | JNum rat
  | JStr string
  | JList "json list"
  | JObj "(string \<times> json) list"

fun canonical :: "json \<Rightarrow> json" where
  "canonical (JList xs) = JList (map canonical xs)"
| "canonical (JObj d) = JObj (sort_key fst (map (\<lambda>(k, v). (k, canonical v)) d))"
| "canonical v = v"

text \<open>\<open>v.get (k, default)\<close>: only objects have it.\<close>

fun jget :: "json \<Rightarrow> string \<Rightarrow> json \<Rightarrow> json result" where
  "jget (JObj d) k dflt = Inr (case map_of d k of None \<Rightarrow> dflt | Some v \<Rightarrow> v)"
| "jget _ k dflt = Inl AttributeError"

lemma map_of_canonical:
  "map_of (map (\<lambda>(k, v). (k, canonical v)) d) k = map_option canonical (map_of d k)"
  by (induction d) auto

lemma map_of_sort_key_fst:
  fixes d :: "('k::linorder \<times> 'v) list"
  assumes "wf_dict d"
  shows "map_of (sort_key fst d) = map_of d"
proof -
  have "wf_dict (sort_key fst d)" using assms by (simp add: distinct_map)
  with assms show ?thesis by (simp add: map_of_inject_set)
qed

end
