(* ===== verification/Py_Float.thy ===== *)
theory Py_Float
  imports Complex_Main Prelude
begin

section \<open>Python floats: IEEE 754 binary64\<close>

text \<open>
  A float is a rational or one of the three special values. An operation computes the exact
  rational and rounds it to 53 significant bits, ties to even, with gradual underflow below
  the exponent -1022 and overflow to infinity. The sign of zero is not kept: the program
  never divides by a zero it has not tested for and never prints one.
\<close>

datatype pyfloat = Fin rat | PInf | NInf | NaN

definition pow2 :: "int \<Rightarrow> rat" where
  "pow2 k = (if 0 \<le> k then 2 ^ nat k else 1 / 2 ^ nat (- k))"

definition round_even :: "rat \<Rightarrow> int" where
  "round_even x =
     (let f = \<lfloor>x\<rfloor>; r = x - of_int f
      in if r < 1 / 2 then f else if 1 / 2 < r then f + 1 else if even f then f else f + 1)"

text \<open>The exponent of the leading bit of a positive rational.\<close>

fun bits :: "nat \<Rightarrow> nat" where
  "bits n = (if n = 0 then 0 else Suc (bits (n div 2)))"

declare bits.simps [simp del]

definition lead_exp :: "rat \<Rightarrow> int" where
  "lead_exp x =
     (let (n, d) = quotient_of x; k = int (bits (nat n)) - int (bits (nat d))
      in if pow2 k \<le> x then k else k - 1)"

text \<open>The spacing of the floats around a number, and the nearest one.\<close>

definition ulp :: "rat \<Rightarrow> rat" where
  "ulp x = pow2 (max (lead_exp \<bar>x\<bar>) (- 1022) - 52)"

definition flr :: "rat \<Rightarrow> rat" where
  "flr x = (if x = 0 then 0 else of_int (round_even (x / ulp x)) * ulp x)"

definition fl :: "rat \<Rightarrow> pyfloat" where
  "fl x =
     (let y = flr x
      in if y \<noteq> 0 \<and> 1024 \<le> lead_exp \<bar>y\<bar> then (if 0 < y then PInf else NInf) else Fin y)"

subsection \<open>Operations\<close>

fun fneg :: "pyfloat \<Rightarrow> pyfloat" where
  "fneg (Fin x) = Fin (- x)"
| "fneg PInf = NInf"
| "fneg NInf = PInf"
| "fneg NaN = NaN"

fun fadd :: "pyfloat \<Rightarrow> pyfloat \<Rightarrow> pyfloat" where
  "fadd (Fin x) (Fin y) = fl (x + y)"
| "fadd NaN _ = NaN"
| "fadd _ NaN = NaN"
| "fadd PInf NInf = NaN"
| "fadd NInf PInf = NaN"
| "fadd PInf _ = PInf"
| "fadd _ PInf = PInf"
| "fadd NInf _ = NInf"
| "fadd _ NInf = NInf"

definition fsub :: "pyfloat \<Rightarrow> pyfloat \<Rightarrow> pyfloat" where
  "fsub x y = fadd x (fneg y)"

fun fle :: "pyfloat \<Rightarrow> pyfloat \<Rightarrow> bool" where
  "fle NaN _ = False"
| "fle _ NaN = False"
| "fle NInf _ = True"
| "fle _ PInf = True"
| "fle (Fin x) (Fin y) = (x \<le> y)"
| "fle _ _ = False"

fun flt :: "pyfloat \<Rightarrow> pyfloat \<Rightarrow> bool" where
  "flt NaN _ = False"
| "flt _ NaN = False"
| "flt (Fin x) (Fin y) = (x < y)"
| "flt NInf y = (y \<noteq> NInf)"
| "flt x PInf = (x \<noteq> PInf)"
| "flt _ _ = False"

definition fzero :: pyfloat where "fzero = Fin 0"

definition ffinite :: "pyfloat \<Rightarrow> bool" where
  "ffinite x = (case x of Fin _ \<Rightarrow> True | _ \<Rightarrow> False)"

subsection \<open>Rounding\<close>

lemma pow2_pos [simp]: "0 < pow2 k"
  by (simp add: pow2_def)

lemma pow2_powi: "pow2 k = 2 powi k"
  by (simp add: pow2_def power_int_def divide_simps)

lemma pow2_add: "pow2 (a + b) = pow2 a * pow2 b"
  by (simp add: pow2_powi power_int_add)

lemma pow2_mono: "a \<le> b \<Longrightarrow> pow2 a \<le> pow2 b"
  by (simp add: pow2_powi power_int_increasing)

lemma round_even_mono: "x \<le> y \<Longrightarrow> round_even x \<le> round_even y"
proof (cases "\<lfloor>x\<rfloor> = \<lfloor>y\<rfloor>")
  case True
  then show "x \<le> y \<Longrightarrow> round_even x \<le> round_even y" by (auto simp: round_even_def Let_def)
next
  case False
  assume "x \<le> y"
  then have "\<lfloor>x\<rfloor> \<le> \<lfloor>y\<rfloor>" by (rule floor_mono)
  with False have "\<lfloor>x\<rfloor> + 1 \<le> \<lfloor>y\<rfloor>" by simp
  moreover have "round_even x \<le> \<lfloor>x\<rfloor> + 1" "\<lfloor>y\<rfloor> \<le> round_even y" by (auto simp: round_even_def Let_def)
  ultimately show ?thesis by linarith
qed

lemma round_even_int [simp]: "round_even (of_int n) = n"
  by (simp add: round_even_def)

lemma round_even_0 [simp]: "round_even 0 = 0"
  using round_even_int [of 0] by simp

lemma round_even_minus: "round_even (- x) = - round_even x"
proof (cases "x = of_int \<lfloor>x\<rfloor>")
  case True
  then have "round_even (- x) = round_even (of_int (- \<lfloor>x\<rfloor>))" by simp
  also have "\<dots> = - \<lfloor>x\<rfloor>" by (rule round_even_int)
  also have "\<lfloor>x\<rfloor> = round_even x" using round_even_int [of "\<lfloor>x\<rfloor>"] True by simp
  finally show ?thesis .
next
  case False
  then have "of_int \<lfloor>x\<rfloor> < x" using of_int_floor_le [of x] by linarith
  then have "\<lfloor>- x\<rfloor> = - \<lfloor>x\<rfloor> - 1" by (intro floor_unique) (simp_all, linarith?)
  then show ?thesis by (simp add: round_even_def Let_def)
qed

lemma flr_0 [simp]: "flr 0 = 0"
  by (simp add: flr_def)

lemma pow2_nat: "0 \<le> k \<Longrightarrow> pow2 k = of_int (2 ^ nat k)"
  by (simp add: pow2_def)

lemma bits_pos: "0 < n \<Longrightarrow> 0 < bits n"
  by (subst bits.simps) simp

lemma bits_bounds: "0 < n \<Longrightarrow> 2 ^ (bits n - 1) \<le> n \<and> n < 2 ^ bits n"
proof (induction n rule: bits.induct)
  case (1 n)
  show ?case
  proof (cases "n = 1")
    case True
    then show ?thesis by (simp add: bits.simps)
  next
    case False
    with 1 have p: "0 < n div 2" and ih: "2 ^ (bits (n div 2) - 1) \<le> n div 2" "n div 2 < 2 ^ bits (n div 2)"
      by auto
    obtain m where m: "bits (n div 2) = Suc m" using bits_pos [OF p] by (cases "bits (n div 2)") auto
    have "bits n = Suc (Suc m)" using 1(2) m by (subst bits.simps) simp
    moreover have "n = 2 * (n div 2) + n mod 2" "n mod 2 < 2" by simp_all
    ultimately show ?thesis using ih m by (simp only: diff_Suc_1 power_Suc) linarith
  qed
qed

lemma lead_exp_bounds:
  assumes "0 < x"
  shows "pow2 (lead_exp x) \<le> x \<and> x < pow2 (lead_exp x + 1)"
proof -
  obtain n d where q: "quotient_of x = (n, d)" by fastforce
  have x: "x = of_int n / of_int d" and d: "0 < d" using q quotient_of_div quotient_of_denom_pos by auto
  then have n: "0 < n" using assms by (simp add: zero_less_divide_iff)
  let ?bn = "int (bits (nat n))" and ?bd = "int (bits (nat d))"
  have bn: "2 ^ nat (?bn - 1) \<le> n" "n < 2 ^ nat ?bn" and bd: "2 ^ nat (?bd - 1) \<le> d" "d < 2 ^ nat ?bd"
    using bits_bounds [of "nat n"] bits_bounds [of "nat d"] n d by (simp_all add: nat_diff_distrib' nat_le_iff nat_less_iff)
  have pos: "0 < ?bn" "0 < ?bd" using n d bits_pos by simp_all
  let ?n = "of_int n :: rat" and ?d = "of_int d :: rat"
  have N: "pow2 (?bn - 1) \<le> ?n" "?n < pow2 (?bn)"
    using bn pos by (simp_all only: pow2_nat of_int_le_iff of_int_less_iff)
  have D: "pow2 (?bd - 1) \<le> ?d" "?d < pow2 (?bd)"
    using bd pos by (simp_all only: pow2_nat of_int_le_iff of_int_less_iff)
  let ?k = "?bn - ?bd"
  have "pow2 (?k - 1) * ?d \<le> pow2 (?k - 1) * pow2 (?bd)" using D by simp
  also have "\<dots> = pow2 (?bn - 1)" by (simp flip: pow2_add)
  finally have lo: "pow2 (?k - 1) \<le> x" using N d by (simp add: x pos_le_divide_eq)
  have "?n < pow2 (?k + 1) * pow2 (?bd - 1)" using N by (simp flip: pow2_add)
  also have "\<dots> \<le> pow2 (?k + 1) * ?d" using D by simp
  finally have hi: "x < pow2 (?k + 1)" using d by (simp add: x pos_divide_less_eq)
  show ?thesis using lo hi by (simp add: lead_exp_def q Let_def)
qed

lemma lead_exp_mono:
  assumes "0 < x" and "x \<le> y"
  shows "lead_exp x \<le> lead_exp y"
proof (rule ccontr)
  assume "\<not> lead_exp x \<le> lead_exp y"
  then have "pow2 (lead_exp y + 1) \<le> pow2 (lead_exp x)" by (intro pow2_mono) simp
  with lead_exp_bounds [of x] lead_exp_bounds [of y] assms show False by simp
qed

lemma ulp_pos [simp]: "0 < ulp x"
  by (simp add: ulp_def)

lemma flr_minus: "flr (- x) = - flr x"
  by (simp add: flr_def ulp_def round_even_minus)

lemma flr_nonneg: "0 \<le> x \<Longrightarrow> 0 \<le> flr x"
  using round_even_mono [of 0 "x / ulp x"] by (simp add: flr_def less_imp_le)

text \<open>A bound that is a multiple of the spacing is not crossed by rounding.\<close>

lemma flr_le_multiple:
  assumes "x \<noteq> 0" and "x \<le> of_int m * ulp x"
  shows "flr x \<le> of_int m * ulp x"
proof -
  have "x / ulp x \<le> of_int m" using assms(2) by (simp add: pos_divide_le_eq)
  then have "round_even (x / ulp x) \<le> m" using round_even_mono [of _ "of_int m"] by simp
  with assms(1) show ?thesis by (simp add: flr_def)
qed

lemma flr_ge_multiple:
  assumes "x \<noteq> 0" and "of_int m * ulp x \<le> x"
  shows "of_int m * ulp x \<le> flr x"
proof -
  have "of_int m \<le> x / ulp x" using assms(2) by (simp add: pos_le_divide_eq)
  then have "m \<le> round_even (x / ulp x)" using round_even_mono [of "of_int m"] by simp
  with assms(1) show ?thesis by (simp add: flr_def)
qed

lemma flr_mono_pos:
  assumes "0 < x" and "x \<le> y"
  shows "flr x \<le> flr y"
proof (cases "ulp x = ulp y")
  case True
  have "x / ulp y \<le> y / ulp y" using assms(2) by (simp add: divide_right_mono less_imp_le)
  with True assms show ?thesis by (simp add: flr_def round_even_mono)
next
  case False
  let ?mx = "max (lead_exp x) (- 1022)" and ?my = "max (lead_exp y) (- 1022)"
  have "?mx \<noteq> ?my" using False assms by (auto simp: ulp_def)
  with lead_exp_mono [OF assms] have lt: "?mx + 1 \<le> lead_exp y" and my: "?my = lead_exp y" by auto
  have ux: "ulp x = pow2 (?mx - 52)" and uy: "ulp y = pow2 (lead_exp y - 52)"
    using assms my by (simp_all add: ulp_def)
  have ex: "pow2 (?mx + 1) = of_int (2 ^ 53) * ulp x"
    using pow2_add [of 53 "?mx - 52"] by (simp add: ux pow2_nat add.commute)
  have ey: "pow2 (lead_exp y) = of_int (2 ^ 52) * ulp y"
    using pow2_add [of 52 "lead_exp y - 52"] by (simp add: uy pow2_nat)
  have "x \<le> pow2 (?mx + 1)"
    using lead_exp_bounds [OF assms(1)] pow2_mono [of "lead_exp x + 1" "?mx + 1"] by simp
  then have "flr x \<le> pow2 (?mx + 1)" using flr_le_multiple [of x "2 ^ 53"] assms ex by simp
  also have "\<dots> \<le> pow2 (lead_exp y)" using lt by (rule pow2_mono)
  also have "\<dots> \<le> flr y" using flr_ge_multiple [of y "2 ^ 52"] lead_exp_bounds [of y] assms ey by simp
  finally show ?thesis .
qed

lemma flr_mono: "x \<le> y \<Longrightarrow> flr x \<le> flr y"
proof -
  assume le: "x \<le> y"
  consider "0 < x" | "x \<le> 0" "0 \<le> y" | "y < 0" by linarith
  then show ?thesis
  proof cases
    case 1
    then show ?thesis using le by (rule flr_mono_pos)
  next
    case 2
    then show ?thesis using flr_nonneg [of y] flr_nonneg [of "- x"] by (simp add: flr_minus)
  next
    case 3
    then have "flr (- y) \<le> flr (- x)" using le by (intro flr_mono_pos) auto
    then show ?thesis by (simp add: flr_minus)
  qed
qed

lemma fl_cases:
  obtains "fl x = Fin (flr x)" "\<bar>flr x\<bar> < pow2 1024"
  | "fl x = PInf" "pow2 1024 \<le> flr x"
  | "fl x = NInf" "flr x \<le> - pow2 1024"
proof (cases "flr x \<noteq> 0 \<and> 1024 \<le> lead_exp \<bar>flr x\<bar>")
  case True
  then have "pow2 1024 \<le> \<bar>flr x\<bar>"
    using lead_exp_bounds [of "\<bar>flr x\<bar>"] pow2_mono [of 1024 "lead_exp \<bar>flr x\<bar>"] by simp
  with True that(2,3) show ?thesis by (cases "0 < flr x") (auto simp: fl_def Let_def)
next
  case False
  have "\<bar>flr x\<bar> < pow2 1024"
  proof (cases "flr x = 0")
    case True
    then show ?thesis by simp
  next
    case nz: False
    with False have "lead_exp \<bar>flr x\<bar> + 1 \<le> 1024" by simp
    with lead_exp_bounds [of "\<bar>flr x\<bar>"] nz show ?thesis
      using pow2_mono [of "lead_exp \<bar>flr x\<bar> + 1" 1024] by simp
  qed
  with False that(1) show ?thesis by (auto simp: fl_def Let_def)
qed

lemma fl_mono: "x \<le> y \<Longrightarrow> fle (fl x) (fl y)"
  using flr_mono [of x y] pow2_pos [of 1024] by (cases rule: fl_cases [of x]; cases rule: fl_cases [of y]) auto

lemma fl_0 [simp]: "fl 0 = fzero"
  by (simp add: fl_def fzero_def)

lemma fl_nonpos: "x \<le> 0 \<Longrightarrow> fle (fl x) fzero"
  using fl_mono [of x 0] by simp

lemma fl_nonneg: "0 \<le> x \<Longrightarrow> fle fzero (fl x)"
  using fl_mono [of 0 x] by simp

text \<open>A rounded value is a float: rounding it again changes nothing.\<close>

lemma flr_fixed:
  assumes "y = of_int m * pow2 e" and "max (lead_exp \<bar>y\<bar>) (- 1022) - 52 \<le> e"
  shows "flr y = y"
proof (cases "y = 0")
  case False
  let ?k = "max (lead_exp \<bar>y\<bar>) (- 1022) - 52"
  have "pow2 e = pow2 (e - ?k) * ulp y" by (simp add: ulp_def flip: pow2_add)
  then have "y = of_int (m * 2 ^ nat (e - ?k)) * ulp y"
    using assms by (simp add: pow2_nat)
  then have "y / ulp y = of_int (m * 2 ^ nat (e - ?k))"
    using ulp_pos [of y] by (metis nonzero_mult_div_cancel_right less_irrefl)
  with \<open>y = _ * ulp y\<close> False show ?thesis by (simp only: flr_def round_even_int if_False)
qed simp

lemma flr_flr_pos:
  assumes "0 < x"
  shows "flr (flr x) = flr x"
proof -
  let ?k = "max (lead_exp x) (- 1022)"
  have y: "flr x = of_int (round_even (x / ulp x)) * pow2 (?k - 52)"
    using assms by (simp add: flr_def ulp_def)
  have ex: "pow2 (?k + 1) = of_int (2 ^ 53) * ulp x"
    using assms pow2_add [of 53 "?k - 52"] by (simp add: ulp_def pow2_nat add.commute)
  have "x \<le> pow2 (?k + 1)"
    using lead_exp_bounds [OF assms] pow2_mono [of "lead_exp x + 1" "?k + 1"] by simp
  then have le: "flr x \<le> pow2 (?k + 1)" using flr_le_multiple [of x "2 ^ 53"] assms ex by simp
  have nn: "0 \<le> flr x" using assms by (simp add: flr_nonneg)
  show ?thesis
  proof (cases "flr x = pow2 (?k + 1)")
    case True
    have "lead_exp (pow2 (?k + 1)) = ?k + 1"
    proof -
      have b: "pow2 (lead_exp (pow2 (?k + 1))) \<le> pow2 (?k + 1)" "pow2 (?k + 1) < pow2 (lead_exp (pow2 (?k + 1)) + 1)"
        using lead_exp_bounds [of "pow2 (?k + 1)"] by simp_all
      have "lead_exp (pow2 (?k + 1)) \<le> ?k + 1"
      proof (rule ccontr)
        assume "\<not> ?thesis"
        then have "pow2 (?k + 1 + 1) \<le> pow2 (lead_exp (pow2 (?k + 1)))" by (intro pow2_mono) simp
        moreover have "pow2 (?k + 1 + 1) = 2 * pow2 (?k + 1)"
          using pow2_add [of "?k + 1" 1] by (simp add: pow2_def [of 1])
        ultimately show False using b(1) pow2_pos [of "?k + 1"] by linarith
      qed
      moreover have "?k + 1 \<le> lead_exp (pow2 (?k + 1))"
      proof (rule ccontr)
        assume "\<not> ?thesis"
        then have "pow2 (lead_exp (pow2 (?k + 1)) + 1) \<le> pow2 (?k + 1)" by (intro pow2_mono) simp
        with b show False by simp
      qed
      ultimately show ?thesis by simp
    qed
    moreover have "\<bar>pow2 (?k + 1)\<bar> = pow2 (?k + 1)" using pow2_pos [of "?k + 1"] by linarith
    ultimately show ?thesis using True by (intro flr_fixed [of _ 1 "?k + 1"]) simp_all
  next
    case False
    with le have lt: "flr x < pow2 (?k + 1)" by simp
    show ?thesis
    proof (cases "flr x = 0")
      case nz: False
      with nn have pos: "0 < flr x" by simp
      have "lead_exp (flr x) \<le> ?k"
      proof (rule ccontr)
        assume "\<not> ?thesis"
        then have "pow2 (?k + 1) \<le> pow2 (lead_exp (flr x))" by (intro pow2_mono) simp
        with lt lead_exp_bounds [OF pos] show False by simp
      qed
      with y pos show ?thesis by (intro flr_fixed [of _ "round_even (x / ulp x)" "?k - 52"]) auto
    qed simp
  qed
qed

lemma flr_flr [simp]: "flr (flr x) = flr x"
proof -
  consider "0 < x" | "x = 0" | "0 < - x" by linarith
  then show ?thesis
  proof cases
    case 3
    then have "flr (flr (- x)) = flr (- x)" by (rule flr_flr_pos)
    then show ?thesis by (simp add: flr_minus)
  qed (simp_all add: flr_flr_pos)
qed

text \<open>Adding zero to the result of an operation changes nothing.\<close>

lemma fl_fin: "fl x = Fin y \<Longrightarrow> fl y = Fin y"
proof -
  assume a: "fl x = Fin y"
  then have "y = flr x" by (simp add: fl_def Let_def split: if_splits)
  with a show "fl y = Fin y" by (simp add: fl_def Let_def split: if_splits)
qed

lemma fadd_zero: "fadd (fadd a b) fzero = fadd a b"
proof (cases a; cases b)
  fix x y assume "a = Fin x" "b = Fin y"
  then show ?thesis using fl_fin [of "x + y"] by (cases "fl (x + y)") (auto simp: fzero_def)
qed (simp_all add: fzero_def)

end
