(* ===== verification/Registry.thy ===== *)
theory Registry
  imports Py_Json Py_Float Machine
begin

section \<open>The durable operation registry and its quarantine lock\<close>

text \<open>
  \<open>DurableOperationRegistry\<close> of \<open>tenir_governance/operations/registry.py\<close>. A registry object
  is the pair of what the process holds in memory and what it finds on disk: the record store,
  the quarantine mark and its two sidecar files. An in-memory registry has \<open>durable = False\<close>.
  Every operation runs under the registry's locks, so an operation is one step on the shared
  disk; a mutation of the quarantine files is the list of disk images it passes through.
  Operating-system errors of a file write are not modelled. \<open>uuid4\<close>, the clock and the release
  verifier are arguments.
\<close>

subsection \<open>Operation states\<close>

datatype op_state =
    CREATED | HOLD | RESERVED | DISPATCHING | CONFIRMED | FAILED | UNKNOWN | ESCALATED

fun legal_transitions :: "op_state \<Rightarrow> op_state list" where
  "legal_transitions CREATED = [RESERVED, HOLD, FAILED]"
| "legal_transitions HOLD = [RESERVED, FAILED, ESCALATED]"
| "legal_transitions RESERVED = [DISPATCHING, FAILED]"
| "legal_transitions DISPATCHING = [CONFIRMED, FAILED, UNKNOWN]"
| "legal_transitions ESCALATED = [HOLD, FAILED, UNKNOWN]"
| "legal_transitions UNKNOWN = [CONFIRMED, FAILED]"
| "legal_transitions CONFIRMED = []"
| "legal_transitions FAILED = []"

definition is_terminal :: "op_state \<Rightarrow> bool" where
  "is_terminal s \<longleftrightarrow> s = CONFIRMED \<or> s = FAILED"

definition is_dispatched :: "op_state \<Rightarrow> bool" where
  "is_dispatched s \<longleftrightarrow> s = DISPATCHING \<or> s = CONFIRMED \<or> s = UNKNOWN"

definition may_have_been_dispatched :: "op_state \<Rightarrow> bool" where
  "may_have_been_dispatched s \<longleftrightarrow> s = DISPATCHING \<or> s = CONFIRMED \<or> s = UNKNOWN"

definition is_holding :: "op_state \<Rightarrow> bool" where
  "is_holding s \<longleftrightarrow> s = HOLD \<or> s = ESCALATED"

subsection \<open>Records\<close>

record exit_receipt =
  er_authorized_by :: string
  er_scope :: string
  er_timestamp :: string
  er_authorization :: string
  er_reason :: string

text \<open>
  \<open>hold_start\<close> is an ISO timestamp in the code; here it is the instant the text denotes, or
  \<open>None\<close> when the text is not a timestamp.
\<close>

record hold_record =
  hold_start :: "pyfloat option"
  tau_k_seconds :: pyfloat
  tau_k_source :: string
  escalated_at :: string
  escalated_by :: string
  exit_reason :: string
  exit_receipt :: "exit_receipt option"

record gate_event =
  ev_sequence :: int
  ev_phase :: string
  ev_status :: string
  ev_reason :: string
  ev_security :: bool

record operation =
  idempotency_key :: string
  passage_id :: string
  agent_id :: string
  action_type :: string
  op_amount :: pyfloat
  op_resource :: string
  op_state :: op_state
  op_created_at :: string
  op_updated_at :: string
  composed_decision :: string
  dispatch_claimed_by :: string
  budget_reserved :: bool
  budget_committed :: bool
  hold :: "hold_record option"
  reservation_id :: string
  payload_hash :: string
  operation_id :: string
  institutional_scope :: string
  payload_digest :: string
  commit_gate_required :: bool
  commit_authorization_request :: json
  commit_authorization_receipt :: json
  commit_dispatch_claim_id :: string
  commit_consumption_receipt :: json
  commit_authorization_status :: string
  commit_consumption_status :: string
  commit_gate_last_reason :: string
  commit_gate_events :: "gate_event list"

subsection \<open>Disk and memory\<close>

text \<open>
  The record store: absent, not JSON, or a JSON object whose values are operation records or
  values \<open>from_dict\<close> rejects (\<open>None\<close>).
\<close>

datatype store_file = FAbsent | FUnreadable | FStored "(string \<times> operation option) list"

record release_receipt =
  rr_authorized_by :: "string option"
  rr_scope :: "string option"
  rr_authorization_id :: "string option"
  rr_lock_id :: "string option"
  rr_timestamp :: string
  rr_reason :: string
  rr_locked_by :: string
  rr_incident :: "string option"

text \<open>
  A quarantine mark as the JSON object the file holds. \<open>None\<close> stands for a missing field or a
  value of another type.
\<close>

record qmark =
  q_active :: "bool option"
  q_lock_id :: "string option"
  q_locked_by :: string
  q_incident :: "string option"
  q_receipt :: "release_receipt option"

datatype mark_file = QAbsent | QUnreadable | QStored qmark

record reg_disk =
  store_f :: store_file
  mark_f :: mark_file
  q_initialized :: bool
  q_pending :: bool

record registry =
  durable :: bool
  records :: "(string, operation) dict"
  corrupted :: bool
  q_memory :: qmark
  disk :: reg_disk

type_synonym 'a reg_run = "'a result \<times> registry"

definition no_mark :: qmark where
  "no_mark = \<lparr>q_active = Some False, q_lock_id = None, q_locked_by = [], q_incident = None, q_receipt = None\<rparr>"

definition corrupt_mark :: qmark where
  "corrupt_mark = \<lparr>q_active = Some True, q_lock_id = None, q_locked_by = [], q_incident = None, q_receipt = None\<rparr>"

subsection \<open>Loading and persisting the records\<close>

text \<open>The loop of \<open>_load\<close>: records are taken over until one is rejected.\<close>

fun load_records ::
  "(string \<times> operation option) list \<Rightarrow> (string, operation) dict \<Rightarrow> (string, operation) dict \<times> bool" where
  "load_records [] acc = (acc, False)"
| "load_records ((k, None) # xs) acc = (acc, True)"
| "load_records ((k, Some r) # xs) acc = load_records xs (dput k r acc)"

definition reg_load :: "registry \<Rightarrow> registry" where
  "reg_load g =
     (if \<not> durable g then g
      else case store_f (disk g) of
        FAbsent \<Rightarrow> g
      | FUnreadable \<Rightarrow> g\<lparr>corrupted := True\<rparr>
      | FStored xs \<Rightarrow> (let (rs, bad) = load_records xs [] in g\<lparr>records := rs, corrupted := bad\<rparr>))"

definition reg_persist :: "registry \<Rightarrow> registry" where
  "reg_persist g =
     (if durable g
      then g\<lparr>disk := (disk g)\<lparr>store_f := FStored (map (\<lambda>(k, r). (k, Some r)) (records g))\<rparr>\<rparr>
      else g)"

definition reg_new :: "bool \<Rightarrow> reg_disk \<Rightarrow> registry" where
  "reg_new dur dk =
     reg_load \<lparr>durable = dur, records = [], corrupted = False, q_memory = no_mark, disk = dk\<rparr>"

definition set_op :: "registry \<Rightarrow> string \<Rightarrow> operation \<Rightarrow> registry" where
  "set_op g k r = g\<lparr>records := dput k r (records g)\<rparr>"

text \<open>The entry of a mutation: refuse on corruption, reload, refuse again.\<close>

definition reg_begin :: "registry \<Rightarrow> (registry \<Rightarrow> 'a reg_run) \<Rightarrow> 'a reg_run" where
  "reg_begin g body =
     (if corrupted g then (Inl RuntimeError, g)
      else let g1 = reg_load g in
           if corrupted g1 then (Inl RuntimeError, g1) else body g1)"

text \<open>The entry of a commit-gate mutation, which does not look at corruption again.\<close>

definition reg_begin_unchecked :: "registry \<Rightarrow> (registry \<Rightarrow> 'a reg_run) \<Rightarrow> 'a reg_run" where
  "reg_begin_unchecked g body =
     (if corrupted g then (Inl RuntimeError, g) else body (reg_load g))"

subsection \<open>Quarantine\<close>

text \<open>\<open>s.strip ()\<close> is not empty: some character is not white space (code points up to 255).\<close>

definition py_space :: "char \<Rightarrow> bool" where
  "py_space c =
     (let n = of_char c :: nat
      in (9 \<le> n \<and> n \<le> 13) \<or> (28 \<le> n \<and> n \<le> 32) \<or> n = 133 \<or> n = 160)"

definition nonblank :: "string option \<Rightarrow> bool" where
  "nonblank s = (case s of None \<Rightarrow> False | Some t \<Rightarrow> list_ex (\<lambda>c. \<not> py_space c) t)"

text \<open>What a stored mark reads as: \<open>None\<close> when it is corrupt.\<close>

definition mark_valid :: "qmark \<Rightarrow> bool" where
  "mark_valid m \<longleftrightarrow>
     q_active m \<noteq> None \<and> nonblank (q_lock_id m) \<and>
     (q_active m = Some False \<longrightarrow>
        (case q_receipt m of
           None \<Rightarrow> False
         | Some r \<Rightarrow>
             rr_lock_id r = q_lock_id m \<and> nonblank (rr_authorization_id r) \<and>
             nonblank (rr_authorized_by r) \<and> nonblank (rr_scope r)))"

text \<open>
  \<open>_quarantine_read_locked\<close>: the mark, whether it is corrupt, and the registry, whose
  initialized sidecar a read of an existing mark creates.
\<close>

definition q_read :: "registry \<Rightarrow> (qmark \<times> bool) \<times> registry" where
  "q_read g =
     (if \<not> durable g then ((q_memory g, False), g)
      else if q_pending (disk g) then ((corrupt_mark, True), g)
      else case mark_f (disk g) of
        QAbsent \<Rightarrow>
          (if q_initialized (disk g) then ((corrupt_mark, True), g) else ((no_mark, False), g))
      | QUnreadable \<Rightarrow> ((corrupt_mark, True), g\<lparr>disk := (disk g)\<lparr>q_initialized := True\<rparr>\<rparr>)
      | QStored m \<Rightarrow>
          (let g1 = g\<lparr>disk := (disk g)\<lparr>q_initialized := True\<rparr>\<rparr>
           in if mark_valid m then ((m, False), g1) else ((corrupt_mark, True), g1)))"

definition mark_active :: "qmark \<Rightarrow> bool" where
  "mark_active m \<longleftrightarrow> q_active m = Some True"

definition quarantine_is_active :: "registry \<Rightarrow> bool \<times> registry" where
  "quarantine_is_active g = (let ((m, bad), g1) = q_read g in (mark_active m, g1))"

text \<open>\<open>_quarantine_write_locked\<close> passes through the image with only the sidecar written.\<close>

definition q_write :: "registry \<Rightarrow> qmark \<Rightarrow> registry list" where
  "q_write g m =
     (if \<not> durable g then [g\<lparr>q_memory := m\<rparr>]
      else let g1 = g\<lparr>disk := (disk g)\<lparr>q_initialized := True\<rparr>\<rparr>
           in [g1, g1\<lparr>disk := (disk g1)\<lparr>mark_f := QStored m\<rparr>, q_memory := m\<rparr>])"

datatype incident_in = NoIncident | BadIncident | Incident string

definition incident_id :: "incident_in \<Rightarrow> string option" where
  "incident_id i = (case i of Incident s \<Rightarrow> Some s | _ \<Rightarrow> None)"

text \<open>\<open>set_quarantine\<close>: the result and the images it passes through, the last one the state it leaves.\<close>

definition set_quarantine ::
  "registry \<Rightarrow> bool \<Rightarrow> string \<Rightarrow> incident_in \<Rightarrow> string \<Rightarrow> unit result \<times> registry list" where
  "set_quarantine g active locked_by incident uuid =
     (if \<not> active then (Inl PermissionError, [g])
      else if incident \<noteq> NoIncident \<and> \<not> nonblank (incident_id incident) then (Inl ValueError, [g])
      else let ((old, bad), g1) = q_read g in
           if bad then (Inl RuntimeError, [g1])
           else if mark_active old \<and> (incident = NoIncident \<or> q_incident old = incident_id incident)
           then (Inr (), [g1])
           else (Inr (), g1 # q_write g1
                  \<lparr>q_active = Some True, q_lock_id = Some uuid, q_locked_by = locked_by,
                   q_incident = incident_id incident, q_receipt = None\<rparr>))"

text \<open>
  The release verifier: not callable (\<open>None\<close>), or a function that may raise or return
  something that is not a dictionary (\<open>None\<close>), or a proof.
\<close>

record attestation =
  pr_authorized :: bool
  pr_principal :: "string option"
  pr_scope :: "string option"
  pr_lock_id :: "string option"
  pr_authorization_id :: "string option"

type_synonym verifier =
  "(string \<Rightarrow> string \<Rightarrow> string \<Rightarrow> string \<Rightarrow> string \<Rightarrow> attestation option) option"

definition verify_quarantine_release ::
  "verifier \<Rightarrow> string \<Rightarrow> string \<Rightarrow> string \<Rightarrow> string \<Rightarrow> string \<Rightarrow> string option" where
  "verify_quarantine_release v authorized_by scope authorization reason lock_id =
     (case v of
        None \<Rightarrow> None
      | Some f \<Rightarrow>
        if lock_id = [] then None
        else case f authorized_by scope authorization reason lock_id of
          None \<Rightarrow> None
        | Some p \<Rightarrow>
          if pr_authorized p \<and> pr_principal p = Some authorized_by \<and> pr_scope p = Some scope \<and>
             pr_lock_id p = Some lock_id \<and> nonblank (pr_authorization_id p)
          then pr_authorization_id p else None)"

datatype release_answer =
    NotVerified | NoLock | MarkCorrupt | LockChanged | Released release_receipt

text \<open>The first critical section: which lock identity a proof must be bound to.\<close>

definition release_begin :: "registry \<Rightarrow> (release_answer + string) \<times> registry" where
  "release_begin g =
     (let ((m, bad), g1) = q_read g in
      if bad then (Inl MarkCorrupt, g1)
      else if \<not> mark_active m then (Inl NoLock, g1)
      else case q_lock_id m of None \<Rightarrow> (Inl MarkCorrupt, g1) | Some l \<Rightarrow> (Inr l, g1))"

text \<open>The second critical section, with the identifier of the verified authorization.\<close>

definition receipt_for ::
  "qmark \<Rightarrow> string \<Rightarrow> string \<Rightarrow> string \<Rightarrow> string \<Rightarrow> string \<Rightarrow> string \<Rightarrow> release_receipt" where
  "receipt_for m l auth_id authorized_by scope reason now =
     \<lparr>rr_authorized_by = Some authorized_by, rr_scope = Some scope,
      rr_authorization_id = Some auth_id, rr_lock_id = Some l,
      rr_timestamp = now, rr_reason = reason, rr_locked_by = q_locked_by m,
      rr_incident = q_incident m\<rparr>"

definition inactive_mark :: "string \<Rightarrow> release_receipt \<Rightarrow> qmark" where
  "inactive_mark l receipt =
     \<lparr>q_active = Some False, q_lock_id = Some l, q_locked_by = [], q_incident = None,
      q_receipt = Some receipt\<rparr>"

definition set_pending :: "registry \<Rightarrow> bool \<Rightarrow> registry" where
  "set_pending g b = (if durable g then g\<lparr>disk := (disk g)\<lparr>q_pending := b\<rparr>\<rparr> else g)"

definition release_commit ::
  "registry \<Rightarrow> string \<Rightarrow> string \<Rightarrow> string \<Rightarrow> string \<Rightarrow> string \<Rightarrow> string \<Rightarrow> release_answer \<times> registry list" where
  "release_commit g expected auth_id authorized_by scope reason now =
     (let ((m, bad), g1) = q_read g in
      if bad then (MarkCorrupt, [g1])
      else if \<not> mark_active m \<or> q_lock_id m \<noteq> Some expected then (LockChanged, [g1])
      else
        (let receipt = receipt_for m expected auth_id authorized_by scope reason now;
             g2 = set_pending g1 True;
             ws = q_write g2 (inactive_mark expected receipt)
         in (Released receipt, [g1, g2] @ ws @ [set_pending (last ws) False])))"

definition authorized_release_quarantine ::
  "registry \<Rightarrow> verifier \<Rightarrow> string \<Rightarrow> string \<Rightarrow> string \<Rightarrow> string \<Rightarrow> string \<Rightarrow> release_answer \<times> registry list" where
  "authorized_release_quarantine g v authorized_by scope authorization reason now =
     (case release_begin g of
        (Inl a, g1) \<Rightarrow> (a, [g1])
      | (Inr l, g1) \<Rightarrow>
        (case verify_quarantine_release v authorized_by scope authorization reason l of
           None \<Rightarrow> (NotVerified, [g1])
         | Some auth_id \<Rightarrow> release_commit g1 l auth_id authorized_by scope reason now))"

subsection \<open>Operations on records\<close>

definition register :: "registry \<Rightarrow> operation \<Rightarrow> bool reg_run" where
  "register g r =
     reg_begin g (\<lambda>g1.
       if map_of (records g1) (idempotency_key r) \<noteq> None then (Inr False, g1)
       else (Inr True, reg_persist (set_op g1 (idempotency_key r) r)))"

definition get_op :: "registry \<Rightarrow> string \<Rightarrow> operation option \<times> registry" where
  "get_op g k = (let g1 = reg_load g in (map_of (records g1) k, g1))"

text \<open>The \<open>hold_record_changes\<close> argument: field names with values of the type the code tests for, or another.\<close>

datatype hold_value = HStr string | HReceipt "exit_receipt option" | HOther

fun hold_change_ok :: "string \<times> hold_value \<Rightarrow> bool" where
  "hold_change_ok (n, HStr s) = (n \<noteq> ''exit_receipt'')"
| "hold_change_ok (n, HReceipt r) = (n = ''exit_receipt'')"
| "hold_change_ok (n, HOther) = False"

definition hold_changes_check :: "(string \<times> hold_value) list \<Rightarrow> pyexn option" where
  "hold_changes_check changes =
     (if list_ex (\<lambda>(n, v). n \<notin> {''escalated_at'', ''escalated_by'', ''exit_reason'', ''exit_receipt''}) changes
      then Some ValueError
      else if list_ex (\<lambda>c. \<not> hold_change_ok c) changes then Some TypeError
      else None)"

fun apply_hold_change :: "string \<times> hold_value \<Rightarrow> hold_record \<Rightarrow> hold_record" where
  "apply_hold_change (n, HStr s) h =
     (if n = ''escalated_at'' then h\<lparr>escalated_at := s\<rparr>
      else if n = ''escalated_by'' then h\<lparr>escalated_by := s\<rparr>
      else if n = ''exit_reason'' then h\<lparr>exit_reason := s\<rparr> else h)"
| "apply_hold_change (n, HReceipt r) h = (if n = ''exit_receipt'' then h\<lparr>exit_receipt := r\<rparr> else h)"
| "apply_hold_change (n, HOther) h = h"

text \<open>A member of the stored receipt's body, when the receipt and the body are objects.\<close>

definition body_of :: "json \<Rightarrow> json result" where
  "body_of receipt = (case receipt of JObj _ \<Rightarrow> jget receipt ''body'' (JObj []) | _ \<Rightarrow> Inr (JObj []))"

definition body_field :: "json \<Rightarrow> string \<Rightarrow> json result" where
  "body_field receipt name = bindE (body_of receipt) (\<lambda>b. jget b name JNull)"

text \<open>The consumption check a gated dispatch has to pass.\<close>

definition consumption_ok :: "operation \<Rightarrow> bool \<Rightarrow> bool result" where
  "consumption_ok r verified =
     bindE (body_field (commit_consumption_receipt r) ''decision'') (\<lambda>decision.
     bindE (body_field (commit_consumption_receipt r) ''dispatch_claim_id'') (\<lambda>claim.
       Inr (decision = JStr ''CONSUMED'' \<and> commit_dispatch_claim_id r \<noteq> [] \<and>
            claim = JStr (commit_dispatch_claim_id r) \<and> verified)))"

text \<open>\<open>_transition_to_unchecked_quarantine\<close> once the record is at hand, and as a whole.\<close>

definition transition_record ::
  "registry \<Rightarrow> string \<Rightarrow> operation \<Rightarrow> op_state \<Rightarrow> string \<Rightarrow> hold_record option \<Rightarrow>
   (string \<times> hold_value) list \<Rightarrow> bool \<Rightarrow> (bool \<times> op_state option) reg_run" where
  "transition_record g k r new claimed_by hr changes verified =
     (let prev = op_state r;
          no = (Inr (False, Some prev), g);
          finish =
            (if hr \<noteq> None \<and> hold r \<noteq> None then no
             else if changes \<noteq> [] \<and> hold r = None then no
             else
               (let h = (case hr of Some h \<Rightarrow> Some h
                         | None \<Rightarrow> map_option (fold apply_hold_change changes) (hold r));
                    r1 = r\<lparr>op_state := new, hold := h\<rparr>;
                    r2 = (if claimed_by \<noteq> [] then r1\<lparr>dispatch_claimed_by := claimed_by\<rparr> else r1)
                in (Inr (True, Some prev), reg_persist (set_op g k r2))))
      in if new \<notin> set (legal_transitions prev) then no
         else if new = DISPATCHING then
           (if prev = DISPATCHING \<or> is_dispatched prev then no
            else if commit_gate_required r then
              (case consumption_ok r verified of
                 Inl e \<Rightarrow> (Inl e, g)
               | Inr b \<Rightarrow> if b then finish else no)
            else finish)
         else finish)"

definition transition_unchecked ::
  "registry \<Rightarrow> string \<Rightarrow> op_state \<Rightarrow> string \<Rightarrow> hold_record option \<Rightarrow> (string \<times> hold_value) list \<Rightarrow> bool \<Rightarrow>
   (bool \<times> op_state option) reg_run" where
  "transition_unchecked g k new claimed_by hr changes verified =
     (if hr \<noteq> None \<and> changes \<noteq> [] then (Inl ValueError, g)
      else case hold_changes_check changes of
        Some e \<Rightarrow> (Inl e, g)
      | None \<Rightarrow>
        reg_begin g (\<lambda>g1.
          case map_of (records g1) k of
            None \<Rightarrow> (Inr (False, None), g1)
          | Some r \<Rightarrow> transition_record g1 k r new claimed_by hr changes verified))"

definition transition_to ::
  "registry \<Rightarrow> string \<Rightarrow> op_state \<Rightarrow> string \<Rightarrow> hold_record option \<Rightarrow> (string \<times> hold_value) list \<Rightarrow> bool \<Rightarrow>
   (bool \<times> op_state option) reg_run" where
  "transition_to g k new claimed_by hr changes verified =
     (if new = RESERVED \<or> new = DISPATCHING then
        (let (active, g1) = quarantine_is_active g in
         if active then
           (let (r, g2) = get_op g1 k in (Inr (False, map_option op_state r), g2))
         else transition_unchecked g1 k new claimed_by hr changes verified)
      else transition_unchecked g k new claimed_by hr changes verified)"

text \<open>\<open>set_budget_flags\<close>: keyword arguments with values of the type the code tests for, or another.\<close>

datatype flag_value = FBool bool | FStr string | FOther

fun flag_ok :: "string \<times> flag_value \<Rightarrow> bool" where
  "flag_ok (n, FBool b) = (n \<noteq> ''reservation_id'')"
| "flag_ok (n, FStr s) = (n = ''reservation_id'')"
| "flag_ok (n, FOther) = False"

fun apply_flag :: "string \<times> flag_value \<Rightarrow> operation \<Rightarrow> operation" where
  "apply_flag (n, FBool b) r =
     (if n = ''budget_reserved'' then r\<lparr>budget_reserved := b\<rparr>
      else if n = ''budget_committed'' then r\<lparr>budget_committed := b\<rparr> else r)"
| "apply_flag (n, FStr s) r = (if n = ''reservation_id'' then r\<lparr>reservation_id := s\<rparr> else r)"
| "apply_flag (n, FOther) r = r"

definition set_budget_flags :: "registry \<Rightarrow> string \<Rightarrow> (string \<times> flag_value) list \<Rightarrow> bool reg_run" where
  "set_budget_flags g k flags =
     (if list_ex (\<lambda>(n, v). n \<notin> {''budget_reserved'', ''budget_committed'', ''reservation_id''}) flags
      then (Inl ValueError, g)
      else if list_ex (\<lambda>f. \<not> flag_ok f) flags then (Inl ValueError, g)
      else reg_begin g (\<lambda>g1.
        case map_of (records g1) k of
          None \<Rightarrow> (Inr False, g1)
        | Some r \<Rightarrow> (Inr True, reg_persist (set_op g1 k (fold apply_flag flags r)))))"

subsection \<open>Commit-gate values\<close>

datatype gate_field = AuthorizationRequest | AuthorizationReceipt | ConsumptionReceipt

fun gate_get :: "gate_field \<Rightarrow> operation \<Rightarrow> json" where
  "gate_get AuthorizationRequest r = commit_authorization_request r"
| "gate_get AuthorizationReceipt r = commit_authorization_receipt r"
| "gate_get ConsumptionReceipt r = commit_consumption_receipt r"

fun gate_put :: "gate_field \<Rightarrow> json \<Rightarrow> operation \<Rightarrow> operation" where
  "gate_put AuthorizationRequest v r = r\<lparr>commit_authorization_request := v\<rparr>"
| "gate_put AuthorizationReceipt v r = r\<lparr>commit_authorization_receipt := v\<rparr>"
| "gate_put ConsumptionReceipt v r = r\<lparr>commit_consumption_receipt := v\<rparr>"

text \<open>Which status field a value moves.\<close>

fun status_get :: "gate_field \<Rightarrow> operation \<Rightarrow> string" where
  "status_get ConsumptionReceipt r = commit_consumption_status r"
| "status_get _ r = commit_authorization_status r"

fun status_put :: "gate_field \<Rightarrow> string \<Rightarrow> operation \<Rightarrow> operation" where
  "status_put ConsumptionReceipt s r = r\<lparr>commit_consumption_status := s\<rparr>"
| "status_put _ s r = r\<lparr>commit_authorization_status := s\<rparr>"

definition unset :: "json \<Rightarrow> bool" where
  "unset v \<longleftrightarrow> v = JNull \<or> v = JStr []"

definition set_immutable_commit_value ::
  "registry \<Rightarrow> string \<Rightarrow> gate_field \<Rightarrow> json \<Rightarrow> bool \<Rightarrow> string \<Rightarrow> bool reg_run" where
  "set_immutable_commit_value g k f v require_authorization status =
     reg_begin_unchecked g (\<lambda>g1.
       case map_of (records g1) k of
         None \<Rightarrow> (Inr False, g1)
       | Some r \<Rightarrow>
         if \<not> commit_gate_required r then (Inr False, g1)
         else if \<not> unset (gate_get f r) then
           (if gate_get f r \<noteq> v then (Inr False, g1)
            else if status_get f r \<noteq> status
            then (Inr True, reg_persist (set_op g1 k (status_put f status r)))
            else (Inr True, g1))
         else if op_state r \<noteq> RESERVED then (Inr False, g1)
         else if require_authorization \<and> commit_authorization_receipt r = JNull then (Inr False, g1)
         else (Inr True, reg_persist (set_op g1 k (status_put f status (gate_put f v r)))))"

definition record_authorization_request :: "registry \<Rightarrow> string \<Rightarrow> json \<Rightarrow> bool reg_run" where
  "record_authorization_request g k request =
     set_immutable_commit_value g k AuthorizationRequest (canonical request) False ''TRUST_COMMITTING''"

definition record_authorization_receipt :: "registry \<Rightarrow> string \<Rightarrow> json \<Rightarrow> bool reg_run" where
  "record_authorization_receipt g k receipt =
     (case body_field (canonical receipt) ''decision'' of
        Inl e \<Rightarrow> (Inl e, g)
      | Inr decision \<Rightarrow>
        set_immutable_commit_value g k AuthorizationReceipt (canonical receipt) False
          (if decision = JStr ''AUTHORIZED'' then ''TRUST_COMMITTED'' else ''HOLD''))"

definition ensure_commit_dispatch_claim :: "registry \<Rightarrow> string \<Rightarrow> string \<Rightarrow> (bool \<times> string) reg_run" where
  "ensure_commit_dispatch_claim g k claim_id =
     (if claim_id = [] then (Inl ValueError, g)
      else reg_begin_unchecked g (\<lambda>g1.
        case map_of (records g1) k of
          None \<Rightarrow> (Inr (False, []), g1)
        | Some r \<Rightarrow>
          if \<not> commit_gate_required r \<or> op_state r \<noteq> RESERVED \<or> commit_authorization_receipt r = JNull
          then (Inr (False, []), g1)
          else if commit_dispatch_claim_id r \<noteq> [] then (Inr (True, commit_dispatch_claim_id r), g1)
          else (Inr (True, claim_id), reg_persist (set_op g1 k (r\<lparr>commit_dispatch_claim_id := claim_id\<rparr>)))))"

definition record_consumption_receipt :: "registry \<Rightarrow> string \<Rightarrow> json \<Rightarrow> bool reg_run" where
  "record_consumption_receipt g k receipt =
     (case body_of (canonical receipt) of
        Inl e \<Rightarrow> (Inl e, g)
      | Inr body \<Rightarrow>
        (let (r, g1) = get_op g k in
         case r of
           None \<Rightarrow> (Inr False, g1)
         | Some r \<Rightarrow>
           if commit_dispatch_claim_id r = [] then (Inr False, g1)
           else case jget body ''dispatch_claim_id'' JNull of
             Inl e \<Rightarrow> (Inl e, g1)
           | Inr claim \<Rightarrow>
             if claim \<noteq> JStr (commit_dispatch_claim_id r) then (Inr False, g1)
             else case jget body ''decision'' JNull of
               Inl e \<Rightarrow> (Inl e, g1)
             | Inr decision \<Rightarrow>
               set_immutable_commit_value g1 k ConsumptionReceipt (canonical receipt) True
                 (if decision = JStr ''CONSUMED'' then ''TRUST_CONSUMED'' else ''HOLD'')))"

text \<open>\<open>status.replace ("_", "").isalnum ()\<close>, on code points up to 255.\<close>

definition py_alnum :: "char \<Rightarrow> bool" where
  "py_alnum c =
     (let n = of_char c :: nat
      in (48 \<le> n \<and> n \<le> 57) \<or> (65 \<le> n \<and> n \<le> 90) \<or> (97 \<le> n \<and> n \<le> 122) \<or>
         n \<in> {170, 178, 179, 181, 185, 186, 188, 189, 190} \<or>
         (192 \<le> n \<and> n \<noteq> 215 \<and> n \<noteq> 247))"

definition gate_status_ok :: "string \<Rightarrow> bool" where
  "gate_status_ok s \<longleftrightarrow>
     s \<noteq> [] \<and> length s \<le> 64 \<and>
     (let t = filter (\<lambda>c. c \<noteq> CHR ''_'') s in t \<noteq> [] \<and> list_all py_alnum t)"

definition last_n :: "nat \<Rightarrow> 'a list \<Rightarrow> 'a list" where
  "last_n n xs = drop (length xs - n) xs"

definition add_gate_event :: "string \<Rightarrow> string \<Rightarrow> string \<Rightarrow> bool \<Rightarrow> operation \<Rightarrow> operation" where
  "add_gate_event phase status reason security r =
     (let es = commit_gate_events r;
          e = \<lparr>ev_sequence = (if es = [] then 1 else ev_sequence (last es) + 1),
               ev_phase = phase, ev_status = status, ev_reason = reason, ev_security = security\<rparr>
      in if es = [] \<or> last es \<noteq> e
         then r\<lparr>commit_gate_events :=
                  (if length (es @ [e]) > 128 then last_n 128 (es @ [e]) else es @ [e])\<rparr>
         else r)"

definition record_commit_gate_status ::
  "registry \<Rightarrow> string \<Rightarrow> string \<Rightarrow> string \<Rightarrow> string \<Rightarrow> bool \<Rightarrow> bool reg_run" where
  "record_commit_gate_status g k phase status reason security =
     (if phase \<notin> {''authorization'', ''consumption''} then (Inl ValueError, g)
      else if \<not> gate_status_ok status then (Inl ValueError, g)
      else reg_begin_unchecked g (\<lambda>g1.
        case map_of (records g1) k of
          None \<Rightarrow> (Inr False, g1)
        | Some r \<Rightarrow>
          if \<not> commit_gate_required r then (Inr False, g1)
          else
            (let r1 = (if phase = ''authorization'' then r\<lparr>commit_authorization_status := status\<rparr>
                       else r\<lparr>commit_consumption_status := status\<rparr>);
                 r2 = r1\<lparr>commit_gate_last_reason := take 512 reason\<rparr>;
                 r3 = add_gate_event phase status (take 512 reason) security r2
             in (Inr True, reg_persist (set_op g1 k r3)))))"

subsection \<open>Queries\<close>

definition find_by_state :: "registry \<Rightarrow> op_state \<Rightarrow> operation list \<times> registry" where
  "find_by_state g s =
     (let g1 = reg_load g in (filter (\<lambda>r. op_state r = s) (map snd (records g1)), g1))"

definition find_unresolved :: "registry \<Rightarrow> operation list \<times> registry" where
  "find_unresolved g =
     (let g1 = reg_load g
      in (filter (\<lambda>r. op_state r = DISPATCHING \<or> op_state r = UNKNOWN) (map snd (records g1)), g1))"

definition record_count :: "registry \<Rightarrow> nat \<times> registry" where
  "record_count g = (let g1 = reg_load g in (length (records g1), g1))"

subsection \<open>Well-formed registries\<close>

text \<open>What the store says, for every process: the file's records, or the memory of an in-memory registry.\<close>

definition stored :: "reg_disk \<Rightarrow> (string, operation) dict" where
  "stored dk = (case store_f dk of FStored xs \<Rightarrow> fst (load_records xs []) | _ \<Rightarrow> [])"

definition op_view :: "registry \<Rightarrow> (string, operation) dict" where
  "op_view g = (if durable g then stored (disk g) else records g)"

definition keyed :: "(string, operation) dict \<Rightarrow> bool" where
  "keyed rs \<longleftrightarrow> wf_dict rs \<and> (\<forall>(k, r) \<in> set rs. idempotency_key r = k)"

definition store_good :: "reg_disk \<Rightarrow> bool" where
  "store_good dk \<longleftrightarrow>
     store_f dk = FAbsent \<or> (\<exists>rs. store_f dk = FStored (map (\<lambda>(k, r). (k, Some r)) rs) \<and> keyed rs)"

definition reg_ok :: "registry \<Rightarrow> bool" where
  "reg_ok g \<longleftrightarrow>
     \<not> corrupted g \<and>
     (if durable g then store_good (disk g) \<and> (store_f (disk g) = FAbsent \<longrightarrow> records g = [])
      else keyed (records g))"

lemma load_records_good:
  "wf_dict (acc @ rs) \<Longrightarrow> load_records (map (\<lambda>(k, r). (k, Some r)) rs) acc = (acc @ rs, False)"
proof (induction rs arbitrary: acc)
  case (Cons p rs)
  obtain k r where p: "p = (k, r)" by (cases p)
  from Cons.prems p have "map_of acc k = None" by (auto simp: map_of_eq_None_iff)
  with Cons p show ?case by (simp add: dput_new)
qed simp

lemma stored_good:
  "store_f dk = FStored (map (\<lambda>(k, r). (k, Some r)) rs) \<Longrightarrow> keyed rs \<Longrightarrow> stored dk = rs"
  using load_records_good [of "[]" rs] by (simp add: stored_def keyed_def)

lemma keyed_dput: "keyed rs \<Longrightarrow> idempotency_key r = k \<Longrightarrow> keyed (dput k r rs)"
  by (auto simp: keyed_def dest!: in_set_dput)

lemma keyedD: "keyed rs \<Longrightarrow> map_of rs k = Some r \<Longrightarrow> idempotency_key r = k"
  by (auto simp: keyed_def dest!: map_of_SomeD)

text \<open>A loaded registry: memory and store agree.\<close>

definition fresh :: "registry \<Rightarrow> bool" where
  "fresh g \<longleftrightarrow> reg_ok g \<and> records g = op_view g \<and> keyed (op_view g)"

lemma reg_load_facts:
  assumes "reg_ok g"
  shows "fresh (reg_load g)" and "op_view (reg_load g) = op_view g" and "disk (reg_load g) = disk g"
    and "durable (reg_load g) = durable g" and "q_memory (reg_load g) = q_memory g"
proof -
  have "fresh (reg_load g) \<and> op_view (reg_load g) = op_view g \<and> disk (reg_load g) = disk g \<and>
      durable (reg_load g) = durable g \<and> q_memory (reg_load g) = q_memory g"
  proof (cases "durable g")
    case False
    with assms show ?thesis by (simp add: fresh_def reg_load_def reg_ok_def op_view_def)
  next
    case True
    show ?thesis
    proof (cases "store_f (disk g) = FAbsent")
      case absent: True
      with True assms show ?thesis
        by (simp add: fresh_def reg_load_def reg_ok_def op_view_def stored_def keyed_def)
    next
      case False
      with assms True obtain rs where rs: "store_f (disk g) = FStored (map (\<lambda>(k, r). (k, Some r)) rs)"
        "keyed rs" by (auto simp: reg_ok_def store_good_def)
      then have "load_records (map (\<lambda>(k, r). (k, Some r)) rs) [] = (rs, False)"
        using load_records_good [of "[]" rs] by (simp add: keyed_def)
      with rs True assms stored_good [OF rs] show ?thesis
        by (auto simp: fresh_def reg_load_def reg_ok_def op_view_def store_good_def)
    qed
  qed
  then show "fresh (reg_load g)" "op_view (reg_load g) = op_view g" "disk (reg_load g) = disk g"
    "durable (reg_load g) = durable g" "q_memory (reg_load g) = q_memory g" by simp_all
qed

lemma fresh_ok: "fresh g \<Longrightarrow> reg_ok g"
  by (simp add: fresh_def)

lemma persist_set_facts:
  assumes "fresh g" and "idempotency_key r = k"
  shows "reg_ok (reg_persist (set_op g k r))" and "op_view (reg_persist (set_op g k r)) = dput k r (op_view g)"
proof -
  let ?rs = "dput k r (records g)"
  have k: "keyed ?rs" using assms by (simp add: fresh_def keyed_dput)
  have "reg_ok (reg_persist (set_op g k r)) \<and> op_view (reg_persist (set_op g k r)) = dput k r (op_view g)"
  proof (cases "durable g")
    case True
    have "stored ((disk g)\<lparr>store_f := FStored (map (\<lambda>(k, r). (k, Some r)) ?rs)\<rparr>) = ?rs"
      by (rule stored_good [OF _ k]) simp
    with True k assms(1) show ?thesis
      by (auto simp: reg_persist_def set_op_def reg_ok_def store_good_def op_view_def fresh_def)
  next
    case False
    with k assms(1) show ?thesis
      by (simp add: reg_persist_def set_op_def reg_ok_def op_view_def fresh_def)
  qed
  then show "reg_ok (reg_persist (set_op g k r))"
    "op_view (reg_persist (set_op g k r)) = dput k r (op_view g)" by simp_all
qed

text \<open>Which parts of the disk and of memory the record operations leave alone.\<close>

definition q_part :: "registry \<Rightarrow> bool \<times> qmark \<times> mark_file \<times> bool \<times> bool" where
  "q_part g = (durable g, q_memory g, mark_f (disk g), q_initialized (disk g), q_pending (disk g))"

lemma q_part_load [simp]: "q_part (reg_load g) = q_part g"
  by (simp add: q_part_def reg_load_def split: store_file.split prod.split)

lemma q_part_persist [simp]: "q_part (reg_persist (set_op g k r)) = q_part g"
  by (simp add: q_part_def reg_persist_def set_op_def)

lemma q_read_part: "q_part g = q_part g' \<Longrightarrow> fst (q_read g) = fst (q_read g')"
  by (simp add: q_part_def q_read_def Let_def split: mark_file.split)

subsection \<open>How a record may move\<close>

definition legal_step :: "op_state \<Rightarrow> op_state \<Rightarrow> bool" where
  "legal_step s t \<longleftrightarrow> t \<in> set (legal_transitions s)"

definition same_identity :: "operation \<Rightarrow> operation \<Rightarrow> bool" where
  "same_identity r r' \<longleftrightarrow>
     idempotency_key r' = idempotency_key r \<and> passage_id r' = passage_id r \<and> agent_id r' = agent_id r \<and>
     action_type r' = action_type r \<and> op_amount r' = op_amount r \<and> op_resource r' = op_resource r \<and>
     op_created_at r' = op_created_at r \<and> composed_decision r' = composed_decision r \<and>
     payload_hash r' = payload_hash r \<and> operation_id r' = operation_id r \<and>
     institutional_scope r' = institutional_scope r \<and> payload_digest r' = payload_digest r \<and>
     commit_gate_required r' = commit_gate_required r"

definition gate_kept :: "operation \<Rightarrow> operation \<Rightarrow> bool" where
  "gate_kept r r' \<longleftrightarrow>
     (\<forall>f. \<not> unset (gate_get f r) \<longrightarrow> gate_get f r' = gate_get f r) \<and>
     (commit_dispatch_claim_id r \<noteq> [] \<longrightarrow> commit_dispatch_claim_id r' = commit_dispatch_claim_id r)"

definition hold_kept :: "operation \<Rightarrow> operation \<Rightarrow> bool" where
  "hold_kept r r' \<longleftrightarrow>
     (\<forall>h. hold r = Some h \<longrightarrow>
        (\<exists>h'. hold r' = Some h' \<and> hold_start h' = hold_start h \<and>
              tau_k_seconds h' = tau_k_seconds h \<and> tau_k_source h' = tau_k_source h))"

definition op_le :: "operation \<Rightarrow> operation \<Rightarrow> bool" where
  "op_le r r' \<longleftrightarrow>
     same_identity r r' \<and> gate_kept r r' \<and> hold_kept r r' \<and> legal_step\<^sup>*\<^sup>* (op_state r) (op_state r')"

definition records_le :: "(string, operation) dict \<Rightarrow> (string, operation) dict \<Rightarrow> bool" where
  "records_le rs rs' \<longleftrightarrow>
     (\<forall>k r. map_of rs k = Some r \<longrightarrow> (\<exists>r'. map_of rs' k = Some r' \<and> op_le r r'))"

lemma op_le_refl [simp]: "op_le r r"
  by (simp add: op_le_def same_identity_def gate_kept_def hold_kept_def)

lemma gate_kept_trans: "gate_kept a b \<Longrightarrow> gate_kept b c \<Longrightarrow> gate_kept a c"
  by (auto simp: gate_kept_def)

lemma hold_kept_trans: "hold_kept a b \<Longrightarrow> hold_kept b c \<Longrightarrow> hold_kept a c"
  unfolding hold_kept_def by metis

lemma op_le_trans: "op_le a b \<Longrightarrow> op_le b c \<Longrightarrow> op_le a c"
  unfolding op_le_def
  by (intro conjI) (auto simp: same_identity_def intro: gate_kept_trans hold_kept_trans)

lemma records_le_refl [simp]: "records_le rs rs"
  by (auto simp: records_le_def)

lemma records_le_trans: "records_le a b \<Longrightarrow> records_le b c \<Longrightarrow> records_le a c"
  unfolding records_le_def by (meson op_le_trans)

lemma records_le_move: "map_of rs k = Some r \<Longrightarrow> op_le r r' \<Longrightarrow> records_le rs (dput k r' rs)"
  by (auto simp: records_le_def)

lemma records_le_new: "map_of rs k = None \<Longrightarrow> records_le rs (dput k r rs)"
  by (auto simp: records_le_def)

text \<open>Field updates that keep a record's place.\<close>

definition op_same :: "operation \<Rightarrow> operation \<Rightarrow> bool" where
  "op_same r r' \<longleftrightarrow>
     same_identity r r' \<and> gate_kept r r' \<and> hold r' = hold r \<and> op_state r' = op_state r"

lemma op_sameI:
  "same_identity r r' \<Longrightarrow> gate_kept r r' \<Longrightarrow> hold r' = hold r \<Longrightarrow> op_state r' = op_state r \<Longrightarrow> op_same r r'"
  by (simp add: op_same_def)

lemma op_same_le: "op_same r r' \<Longrightarrow> op_le r r'"
  by (simp add: op_same_def op_le_def hold_kept_def)

lemma op_same_trans: "op_same a b \<Longrightarrow> op_same b c \<Longrightarrow> op_same a c"
  unfolding op_same_def by (intro conjI) (auto simp: same_identity_def intro: gate_kept_trans)

lemma all_gate_fields: "(\<forall>f. P f) \<longleftrightarrow> P AuthorizationRequest \<and> P AuthorizationReceipt \<and> P ConsumptionReceipt"
  by (metis gate_field.exhaust)

lemmas move_defs = same_identity_def gate_kept_def all_gate_fields

lemma apply_flag_le: "op_same r (apply_flag f r)"
  by (cases f; cases "snd f")
    (auto intro!: op_sameI simp: move_defs)

lemma apply_flags_le: "op_same r (fold apply_flag fs r)"
  by (induction fs arbitrary: r) (auto simp: op_same_def [of r r for r] move_defs intro: op_same_trans apply_flag_le)

lemma gate_put_le: "unset (gate_get f r) \<Longrightarrow> op_same r (status_put f s (gate_put f v r))"
  by (cases f) (auto intro!: op_sameI simp: move_defs)

lemma status_put_le: "op_same r (status_put f s r)"
  by (cases f) (auto intro!: op_sameI simp: move_defs)

lemma apply_hold_change_kept:
  "hold_start (apply_hold_change c h) = hold_start h"
  "tau_k_seconds (apply_hold_change c h) = tau_k_seconds h"
  "tau_k_source (apply_hold_change c h) = tau_k_source h"
  by (cases c; cases "snd c"; simp)+

lemma apply_hold_changes_kept:
  "hold_start (fold apply_hold_change cs h) = hold_start h"
  "tau_k_seconds (fold apply_hold_change cs h) = tau_k_seconds h"
  "tau_k_source (fold apply_hold_change cs h) = tau_k_source h"
  by (induction cs arbitrary: h) (simp_all add: apply_hold_change_kept)

lemma add_gate_event_le: "op_same r (add_gate_event ph st rs sec r)"
  by (auto simp: add_gate_event_def Let_def move_defs intro!: op_sameI)

subsection \<open>What each operation does to the store\<close>

text \<open>
  The effect of a record operation: the registry stays well formed, the quarantine files are
  untouched, and the store does not disappear.
\<close>

definition keeps :: "registry \<Rightarrow> registry \<Rightarrow> bool" where
  "keeps g g' \<longleftrightarrow>
     reg_ok g' \<and> q_part g' = q_part g \<and> (store_f (disk g') = FAbsent \<longrightarrow> store_f (disk g) = FAbsent)"

lemma keeps_load: "reg_ok g \<Longrightarrow> keeps g (reg_load g) \<and> op_view (reg_load g) = op_view g"
  by (simp add: keeps_def reg_load_facts fresh_ok)

lemma store_persist:
  "store_f (disk (reg_persist (set_op g k r))) = FAbsent \<longrightarrow> store_f (disk g) = FAbsent"
  by (simp add: reg_persist_def set_op_def)

lemma keeps_put:
  assumes "reg_ok g" and "idempotency_key r = k"
  shows "keeps g (reg_persist (set_op (reg_load g) k r)) \<and>
         op_view (reg_persist (set_op (reg_load g) k r)) = dput k r (op_view g)"
  using persist_set_facts [OF reg_load_facts(1) [OF assms(1)] assms(2)]
    store_persist [of "reg_load g" k r]
  by (simp add: keeps_def reg_load_facts [OF assms(1)])

lemma reg_begin_ok:
  "reg_ok g \<Longrightarrow> reg_begin g body = body (reg_load g)"
  using reg_load_facts(1) [of g] by (simp add: reg_begin_def fresh_def reg_ok_def Let_def)

lemma reg_begin_unchecked_ok:
  "reg_ok g \<Longrightarrow> reg_begin_unchecked g body = body (reg_load g)"
  by (simp add: reg_begin_unchecked_def reg_ok_def)

lemma loaded_lookup: "reg_ok g \<Longrightarrow> records (reg_load g) = op_view g"
  using reg_load_facts(1,2) [of g] by (simp add: fresh_def)

lemma view_key: "reg_ok g \<Longrightarrow> map_of (op_view g) k = Some r \<Longrightarrow> idempotency_key r = k"
  using reg_load_facts(1,2) [of g] keyedD [of "op_view g"] by (simp add: fresh_def)

text \<open>
  Every record operation but a registration and a transition is quiet or updates one record,
  whose state stays.
\<close>

definition outcome :: "registry \<Rightarrow> registry \<Rightarrow> bool" where
  "outcome g g' \<longleftrightarrow> keeps g g' \<and>
     (op_view g' = op_view g \<or>
      (\<exists>k r r'. map_of (op_view g) k = Some r \<and> op_same r r' \<and> op_view g' = dput k r' (op_view g)))"

lemma outcome_quiet: "reg_ok g \<Longrightarrow> outcome g (reg_load g)"
  using keeps_load [of g] by (simp add: outcome_def)

lemma outcome_refl: "reg_ok g \<Longrightarrow> outcome g g"
  by (simp add: outcome_def keeps_def)

lemma outcome_move:
  assumes "reg_ok g" and "map_of (op_view g) k = Some r" and "op_same r r'"
  shows "outcome g (reg_persist (set_op (reg_load g) k r'))"
proof -
  have "idempotency_key r' = k"
    using view_key [OF assms(1,2)] assms(3) by (simp add: op_same_def same_identity_def)
  from keeps_put [OF assms(1) this] assms(2,3) show ?thesis unfolding outcome_def by blast
qed

lemma outcome_le: "outcome g g' \<Longrightarrow> records_le (op_view g) (op_view g')"
  by (auto simp: outcome_def dest: op_same_le records_le_move)

lemma register_outcome:
  assumes "reg_ok g" and "register g r = (res, g')"
  shows "keeps g g' \<and>
    (if map_of (op_view g) (idempotency_key r) = None
     then res = Inr True \<and> op_view g' = dput (idempotency_key r) r (op_view g)
     else res = Inr False \<and> op_view g' = op_view g)"
  using assms(2) keeps_load [OF assms(1)] keeps_put [OF assms(1), of r]
  by (auto simp: register_def reg_begin_ok [OF assms(1)] loaded_lookup [OF assms(1)]
      split: if_splits)

lemma set_budget_flags_outcome:
  assumes "reg_ok g" and "set_budget_flags g k fs = (res, g')"
  shows "outcome g g'"
  using assms(2) outcome_refl [OF assms(1)] outcome_quiet [OF assms(1)]
    outcome_move [OF assms(1) _ apply_flags_le, of k]
  by (auto simp: set_budget_flags_def reg_begin_ok [OF assms(1)] loaded_lookup [OF assms(1)]
      split: if_splits option.splits)

lemma set_immutable_outcome:
  assumes "reg_ok g" and "set_immutable_commit_value g k f v req st = (res, g')"
  shows "outcome g g'"
  using assms(2) outcome_quiet [OF assms(1)]
    outcome_move [OF assms(1) _ gate_put_le, of k] outcome_move [OF assms(1) _ status_put_le, of k]
  by (auto simp: set_immutable_commit_value_def reg_begin_unchecked_ok [OF assms(1)]
      loaded_lookup [OF assms(1)] split: if_splits option.splits)

lemma record_authorization_request_outcome:
  "reg_ok g \<Longrightarrow> record_authorization_request g k v = (res, g') \<Longrightarrow> outcome g g'"
  by (auto simp: record_authorization_request_def intro: set_immutable_outcome)

lemma record_authorization_receipt_outcome:
  "reg_ok g \<Longrightarrow> record_authorization_receipt g k v = (res, g') \<Longrightarrow> outcome g g'"
  by (auto simp: record_authorization_receipt_def outcome_refl intro: set_immutable_outcome
      split: sum.splits)

lemma ensure_claim_outcome:
  assumes "reg_ok g" and "ensure_commit_dispatch_claim g k c = (res, g')"
  shows "outcome g g'"
proof -
  have le: "op_same r (r\<lparr>commit_dispatch_claim_id := c\<rparr>)" if "commit_dispatch_claim_id r = []" for r
    using that by (intro op_sameI) (auto simp: move_defs)
  show ?thesis
    using assms(2) outcome_quiet [OF assms(1)] outcome_refl [OF assms(1)] outcome_move [OF assms(1) _ le, of k]
    by (auto simp: ensure_commit_dispatch_claim_def reg_begin_unchecked_ok [OF assms(1)]
        loaded_lookup [OF assms(1)] split: if_splits option.splits)
qed

lemma record_gate_status_outcome:
  assumes "reg_ok g" and "record_commit_gate_status g k ph st rs sec = (res, g')"
  shows "outcome g g'"
proof -
  define f where "f r = add_gate_event ph st (take 512 rs) sec
    ((if ph = ''authorization'' then r\<lparr>commit_authorization_status := st\<rparr>
      else r\<lparr>commit_consumption_status := st\<rparr>)\<lparr>commit_gate_last_reason := take 512 rs\<rparr>)" for r
  have "op_same r ((if ph = ''authorization'' then r\<lparr>commit_authorization_status := st\<rparr>
      else r\<lparr>commit_consumption_status := st\<rparr>)\<lparr>commit_gate_last_reason := take 512 rs\<rparr>)" for r
    by (intro op_sameI) (auto simp: move_defs)
  then have le: "op_same r (f r)" for r unfolding f_def by (rule op_same_trans [OF _ add_gate_event_le])
  show ?thesis
    using assms(2) outcome_refl [OF assms(1)] outcome_quiet [OF assms(1)] outcome_move [OF assms(1) _ le, of k]
    by (auto simp: record_commit_gate_status_def reg_begin_unchecked_ok [OF assms(1)] Let_def
        loaded_lookup [OF assms(1)] f_def [symmetric] split: if_splits option.splits)
qed

lemma outcome_trans_load:
  assumes "reg_ok g" and "outcome (reg_load g) g'"
  shows "outcome g g'"
  using assms keeps_load [OF assms(1)] by (auto simp: outcome_def keeps_def)

lemma record_consumption_receipt_outcome:
  assumes "reg_ok g" and "record_consumption_receipt g k v = (res, g')"
  shows "outcome g g'"
proof -
  have ok: "reg_ok (reg_load g)" using reg_load_facts(1) [OF assms(1)] by (rule fresh_ok)
  note imm = outcome_trans_load [OF assms(1) set_immutable_outcome [OF ok]]
  show ?thesis
    using assms(2) outcome_refl [OF assms(1)] outcome_quiet [OF assms(1)]
    by (auto simp: record_consumption_receipt_def get_op_def Let_def intro: imm
        split: sum.splits option.splits if_splits)
qed

text \<open>A transition either leaves the store alone and says no, or is one legal move of one record.\<close>

definition hold_after ::
  "hold_record option \<Rightarrow> (string \<times> hold_value) list \<Rightarrow> hold_record option \<Rightarrow> hold_record option" where
  "hold_after hr cs old =
     (case hr of Some h \<Rightarrow> Some h | None \<Rightarrow> map_option (fold apply_hold_change cs) old)"

definition admitted ::
  "registry \<Rightarrow> string \<Rightarrow> op_state \<Rightarrow> hold_record option \<Rightarrow> (string \<times> hold_value) list \<Rightarrow> bool \<Rightarrow>
   (bool \<times> op_state option) result \<Rightarrow> registry \<Rightarrow> bool" where
  "admitted g k new hr cs v res g' \<longleftrightarrow>
     (\<exists>r r'. map_of (op_view g) k = Some r \<and> legal_step (op_state r) new \<and>
        res = Inr (True, Some (op_state r)) \<and> op_state r' = new \<and> op_le r r' \<and>
        op_view g' = dput k r' (op_view g) \<and> hold r' = hold_after hr cs (hold r) \<and>
        (cs \<noteq> [] \<longrightarrow> hold r \<noteq> None) \<and>
        (new = DISPATCHING \<and> commit_gate_required r \<longrightarrow> consumption_ok r v = Inr True))"

definition refused :: "registry \<Rightarrow> (bool \<times> op_state option) result \<Rightarrow> registry \<Rightarrow> bool" where
  "refused g res g' \<longleftrightarrow> op_view g' = op_view g \<and> (\<forall>p. res \<noteq> Inr (True, p))"

lemma finish_le:
  assumes "legal_step (op_state r) new" and "hr \<noteq> None \<longrightarrow> hold r = None"
    and "h = (case hr of Some h \<Rightarrow> Some h | None \<Rightarrow> map_option (fold apply_hold_change cs) (hold r))"
    and "r2 = (if cb \<noteq> [] then r\<lparr>op_state := new, hold := h, dispatch_claimed_by := cb\<rparr>
               else r\<lparr>op_state := new, hold := h\<rparr>)"
  shows "op_le r r2" and "op_state r2 = new" and "hold r2 = hold_after hr cs (hold r)"
proof -
  have "hold_kept r r2"
    using assms(2-4) by (auto simp: hold_kept_def apply_hold_changes_kept split: option.splits)
  then show "op_le r r2"
    using assms(1,4) by (auto simp: op_le_def move_defs)
  show "op_state r2 = new" using assms(4) by simp
  show "hold r2 = hold_after hr cs (hold r)" using assms(3,4) by (simp add: hold_after_def)
qed

lemma transition_record_cases:
  assumes t: "transition_record g1 k r new cb hr cs v = (res, g')"
  obtains (no) "g' = g1" "\<forall>p. res \<noteq> Inr (True, p)"
  | (yes) r2 where "op_le r r2" "op_state r2 = new" "legal_step (op_state r) new"
      "res = Inr (True, Some (op_state r))" "g' = reg_persist (set_op g1 k r2)"
      "hold r2 = hold_after hr cs (hold r)" "cs \<noteq> [] \<longrightarrow> hold r \<noteq> None"
      "new = DISPATCHING \<and> commit_gate_required r \<longrightarrow> consumption_ok r v = Inr True"
proof -
  define h where "h = (case hr of Some h \<Rightarrow> Some h | None \<Rightarrow> map_option (fold apply_hold_change cs) (hold r))"
  define r2 where "r2 = (if cb \<noteq> [] then r\<lparr>op_state := new, hold := h, dispatch_claimed_by := cb\<rparr>
             else r\<lparr>op_state := new, hold := h\<rparr>)"
  let ?no = "(Inr (False, Some (op_state r)), g1) :: (bool \<times> op_state option) reg_run"
  let ?yes = "(Inr (True, Some (op_state r)), reg_persist (set_op g1 k r2))"
  define fin where "fin = (if hr \<noteq> None \<and> hold r \<noteq> None then ?no
                           else if cs \<noteq> [] \<and> hold r = None then ?no else ?yes)"
  have eq: "(res, g') =
    (if new \<notin> set (legal_transitions (op_state r)) then ?no
     else if new = DISPATCHING then
       (if op_state r = DISPATCHING \<or> is_dispatched (op_state r) then ?no
        else if commit_gate_required r then
          (case consumption_ok r v of Inl e \<Rightarrow> (Inl e, g1) | Inr b \<Rightarrow> if b then fin else ?no)
        else fin)
     else fin)"
    unfolding t [symmetric] transition_record_def Let_def fin_def r2_def h_def by simp
  have fin: "fin = ?no \<or> fin = ?yes \<and> (hr \<noteq> None \<longrightarrow> hold r = None) \<and> (cs \<noteq> [] \<longrightarrow> hold r \<noteq> None)" by (auto simp: fin_def)
  consider "(res, g') = ?no" | e where "(res, g') = (Inl e, g1)"
    | "(res, g') = fin" "legal_step (op_state r) new"
      "new = DISPATCHING \<and> commit_gate_required r \<longrightarrow> consumption_ok r v = Inr True"
    using eq by (cases "consumption_ok r v") (auto simp: legal_step_def split: if_splits)
  then show thesis
  proof cases
    case 3
    show thesis
    proof (cases "fin = ?no")
      case True
      with 3 show thesis by (intro no) auto
    next
      case False
      with fin have "fin = ?yes" "hr \<noteq> None \<longrightarrow> hold r = None" "cs \<noteq> [] \<longrightarrow> hold r \<noteq> None" by auto
      with 3 finish_le [OF 3(2) _ h_def r2_def] show thesis by (intro yes [of r2]) auto
    qed
  qed (use no in auto)
qed

lemma transition_unchecked_outcome:
  assumes ok: "reg_ok g" and t: "transition_unchecked g k new cb hr cs v = (res, g')"
  shows "keeps g g' \<and> (refused g res g' \<or> admitted g k new hr cs v res g')"
proof -
  note quiet = keeps_load [OF ok]
  have refl: "keeps g g" using ok by (simp add: keeps_def)
  consider e where "(res, g') = (Inl e, g)" | "(res, g') = (Inr (False, None), reg_load g)"
    | r where "map_of (op_view g) k = Some r" "transition_record (reg_load g) k r new cb hr cs v = (res, g')"
    using t by (auto simp: transition_unchecked_def reg_begin_ok [OF ok] loaded_lookup [OF ok]
        split: if_splits option.splits)
  then show ?thesis
  proof cases
    case 3
    from 3(2) show ?thesis
    proof (cases rule: transition_record_cases)
      case no
      with quiet show ?thesis by (simp add: refused_def)
    next
      case (yes r2)
      then have "idempotency_key r2 = k"
        using view_key [OF ok 3(1)] by (simp add: op_le_def same_identity_def)
      from keeps_put [OF ok this] yes 3(1) show ?thesis unfolding admitted_def by blast
    qed
  qed (use refl quiet in \<open>auto simp: refused_def\<close>)
qed

lemma q_read_facts:
  "reg_ok g \<Longrightarrow> q_read g = (m, g1) \<Longrightarrow>
     reg_ok g1 \<and> op_view g1 = op_view g \<and> fst (q_read g1) = m \<and> durable g1 = durable g \<and>
     q_pending (disk g1) = q_pending (disk g) \<and> mark_f (disk g1) = mark_f (disk g) \<and>
     q_memory g1 = q_memory g \<and> store_f (disk g1) = store_f (disk g) \<and> records g1 = records g"
  by (auto simp: q_read_def Let_def reg_ok_def op_view_def stored_def store_good_def
      split: if_splits mark_file.splits)

definition q_status :: "registry \<Rightarrow> qmark \<times> bool" where
  "q_status g = fst (q_read g)"

definition q_active_now :: "registry \<Rightarrow> bool" where
  "q_active_now g \<longleftrightarrow> mark_active (fst (q_status g))"

lemma keeps_status: "keeps g g' \<Longrightarrow> q_status g' = q_status g"
  unfolding keeps_def q_status_def by (rule q_read_part) simp

text \<open>With the quarantine gate in front: no admission and no dispatch while the lock is active.\<close>

lemma transition_to_outcome:
  assumes ok: "reg_ok g" and t: "transition_to g k new cb hr cs v = (res, g')"
  shows "reg_ok g' \<and> durable g' = durable g \<and> q_status g' = q_status g \<and>
    (refused g res g' \<or>
     admitted g k new hr cs v res g' \<and> (new = RESERVED \<or> new = DISPATCHING \<longrightarrow> \<not> q_active_now g))"
proof (cases "new = RESERVED \<or> new = DISPATCHING")
  case False
  with t have "transition_unchecked g k new cb hr cs v = (res, g')" by (simp add: transition_to_def)
  from transition_unchecked_outcome [OF ok this] False keeps_status [of g g'] show ?thesis
    by (auto simp: keeps_def q_part_def)
next
  case True
  obtain m bad g1 where q: "q_read g = ((m, bad), g1)" by (metis surj_pair)
  note f = q_read_facts [OF ok q]
  then have ok1: "reg_ok g1" and v1: "op_view g1 = op_view g" and s1: "q_status g1 = q_status g"
    by (auto simp: q_status_def q)
  have act: "mark_active m = q_active_now g" by (simp add: q_active_now_def q_status_def q)
  show ?thesis
  proof (cases "mark_active m")
    case True
    with t q \<open>new = RESERVED \<or> new = DISPATCHING\<close> have "g' = reg_load g1"
      "\<exists>s. res = Inr (False, s)"
      by (auto simp: transition_to_def quarantine_is_active_def get_op_def Let_def)
    moreover have "keeps g1 (reg_load g1)" "op_view (reg_load g1) = op_view g1" using keeps_load [OF ok1] by auto
    moreover have "durable g1 = durable g" using f by simp
    ultimately show ?thesis using v1 s1 keeps_status [of g1 "reg_load g1"]
      by (auto simp: refused_def keeps_def q_part_def)
  next
    case False
    with t q \<open>new = RESERVED \<or> new = DISPATCHING\<close> have
      "transition_unchecked g1 k new cb hr cs v = (res, g')"
      by (auto simp: transition_to_def quarantine_is_active_def)
    from transition_unchecked_outcome [OF ok1 this] have
      o: "keeps g1 g'" "refused g res g' \<or> admitted g k new hr cs v res g'"
      by (auto simp: refused_def admitted_def v1)
    moreover have "durable g1 = durable g" using f by simp
    ultimately show ?thesis using s1 False act keeps_status [OF o(1)] by (auto simp: keeps_def q_part_def)
  qed
qed

subsection \<open>What the quarantine operations do\<close>

text \<open>Reading the mark depends on the quarantine files only; a read mark reads the same again.\<close>

definition same_store :: "registry \<Rightarrow> registry \<Rightarrow> bool" where
  "same_store g g' \<longleftrightarrow>
     durable g' = durable g \<and> store_f (disk g') = store_f (disk g) \<and> records g' = records g \<and>
     corrupted g' = corrupted g"

lemma same_store_facts:
  assumes "same_store g g'" and "reg_ok g"
  shows "reg_ok g'" and "op_view g' = op_view g"
  using assms by (auto simp: same_store_def reg_ok_def op_view_def stored_def store_good_def)

lemma same_store_refl [simp]: "same_store g g"
  by (simp add: same_store_def)

lemma same_store_read: "q_read g = (m, g1) \<Longrightarrow> same_store g g1"
  by (auto simp: q_read_def Let_def same_store_def split: if_splits mark_file.splits)

lemma q_write_store: "img \<in> set (q_write g m) \<Longrightarrow> same_store g img"
  by (auto simp: q_write_def Let_def same_store_def split: if_splits)

lemma same_store_trans: "same_store a b \<Longrightarrow> same_store b c \<Longrightarrow> same_store a c"
  by (simp add: same_store_def)

lemma set_quarantine_store:
  assumes "set_quarantine g a lb inc u = (res, imgs)" and "img \<in> set imgs"
  shows "same_store g img"
proof -
  obtain m bad g1 where q: "q_read g = ((m, bad), g1)" by (metis surj_pair)
  note s = same_store_read [OF q]
  have "img = g \<or> img = g1 \<or> (\<exists>mk. img \<in> set (q_write g1 mk))"
    using assms q by (auto simp: set_quarantine_def Let_def split: if_splits)
  with s show ?thesis by (auto intro: same_store_trans q_write_store)
qed

lemma q_write_last: "q_write g m \<noteq> [] \<and> last (q_write g m) \<in> set (q_write g m)"
  by (simp add: q_write_def Let_def)

lemma set_pending_store: "same_store g (set_pending g b)"
  by (simp add: set_pending_def same_store_def)

lemma release_commit_cases:
  assumes "release_commit g l ai by sc rs now = (res, imgs)"
  obtains m g1 where "res = MarkCorrupt" "q_read g = ((m, True), g1)" "imgs = [g1]"
  | m g1 where "res = LockChanged" "q_read g = ((m, False), g1)" "imgs = [g1]"
      "\<not> mark_active m \<or> q_lock_id m \<noteq> Some l"
  | m g1 where "q_read g = ((m, False), g1)" "mark_active m" "q_lock_id m = Some l"
      "res = Released (receipt_for m l ai by sc rs now)"
      "imgs = [g1, set_pending g1 True] @
         q_write (set_pending g1 True) (inactive_mark l (receipt_for m l ai by sc rs now)) @
         [set_pending (last (q_write (set_pending g1 True)
            (inactive_mark l (receipt_for m l ai by sc rs now)))) False]"
proof -
  obtain m bad g1 where q: "q_read g = ((m, bad), g1)" by (metis surj_pair)
  show thesis
  proof (cases "bad \<or> \<not> mark_active m \<or> q_lock_id m \<noteq> Some l")
    case True
    with assms q that(1,2) show thesis by (cases bad) (auto simp: release_commit_def)
  next
    case False
    with assms q that(3) [of m g1] show thesis by (simp add: release_commit_def Let_def)
  qed
qed

lemma release_commit_store:
  assumes "release_commit g l ai by sc rs now = (res, imgs)" and "img \<in> set imgs"
  shows "same_store g img"
  using assms(1)
proof (cases rule: release_commit_cases)
  case (3 m g1)
  let ?w = "q_write (set_pending g1 True) (inactive_mark l (receipt_for m l ai by sc rs now))"
  have s2: "same_store g (set_pending g1 True)"
    using same_store_trans [OF same_store_read [OF 3(1)] set_pending_store] .
  have w: "same_store g i" if "i \<in> set ?w" for i
    using same_store_trans [OF s2 q_write_store [OF that]] .
  have "same_store g (set_pending (last ?w) False)"
    using same_store_trans [OF w set_pending_store] q_write_last by blast
  with 3 assms(2) s2 w same_store_read [OF 3(1)] show ?thesis by auto
qed (use assms(2) same_store_read in auto)

lemma release_store:
  assumes "authorized_release_quarantine g v by sc au rs now = (res, imgs)" and "img \<in> set imgs"
  shows "same_store g img"
proof -
  obtain a g1 where b: "release_begin g = (a, g1)" by fastforce
  have s: "same_store g g1"
    using b same_store_read [of g] by (auto simp: release_begin_def Let_def split: prod.splits if_splits option.splits)
  show ?thesis
    using assms b s by (auto simp: authorized_release_quarantine_def split: sum.splits option.splits
        dest!: release_commit_store intro: same_store_trans)
qed

subsection \<open>Several workers over one store\<close>

datatype reg_op =
    OpRegister operation
  | OpTransition string op_state string "hold_record option" "(string \<times> hold_value) list" bool
  | OpFlags string "(string \<times> flag_value) list"
  | OpAuthorizationRequest string json
  | OpAuthorizationReceipt string json
  | OpClaim string string
  | OpConsumption string json
  | OpGateStatus string string string string bool
  | OpReload
  | OpLock string incident_in string
  | OpRelease verifier string string string string string

fun reg_step :: "registry \<Rightarrow> reg_op \<Rightarrow> registry" where
  "reg_step g (OpRegister r) = snd (register g r)"
| "reg_step g (OpTransition k new cb hr cs v) = snd (transition_to g k new cb hr cs v)"
| "reg_step g (OpFlags k fs) = snd (set_budget_flags g k fs)"
| "reg_step g (OpAuthorizationRequest k j) = snd (record_authorization_request g k j)"
| "reg_step g (OpAuthorizationReceipt k j) = snd (record_authorization_receipt g k j)"
| "reg_step g (OpClaim k c) = snd (ensure_commit_dispatch_claim g k c)"
| "reg_step g (OpConsumption k j) = snd (record_consumption_receipt g k j)"
| "reg_step g (OpGateStatus k ph st rs sec) = snd (record_commit_gate_status g k ph st rs sec)"
| "reg_step g OpReload = reg_load g"
| "reg_step g (OpLock lb inc u) = last (snd (set_quarantine g True lb inc u))"
| "reg_step g (OpRelease v by sc au rs now) = last (snd (authorized_release_quarantine g v by sc au rs now))"

text \<open>The shared disk and what each worker holds in memory; a worker sees the disk when its turn comes.\<close>

type_synonym world = "reg_disk \<times> (nat \<Rightarrow> registry)"

definition worker :: "world \<Rightarrow> nat \<Rightarrow> registry" where
  "worker w i = (snd w i)\<lparr>disk := fst w\<rparr>"

definition world_step :: "world \<Rightarrow> nat \<times> reg_op \<Rightarrow> world" where
  "world_step w r = (let g = reg_step (worker w (fst r)) (snd r) in (disk g, (snd w)(fst r := g)))"

definition world_ok :: "world \<Rightarrow> bool" where
  "world_ok w \<longleftrightarrow> (\<forall>i. durable (worker w i) \<and> reg_ok (worker w i))"

definition moves :: "registry \<Rightarrow> registry \<Rightarrow> bool" where
  "moves g g' \<longleftrightarrow>
     reg_ok g' \<and> durable g' = durable g \<and> records_le (op_view g) (op_view g') \<and>
     (store_f (disk g') = FAbsent \<longrightarrow> store_f (disk g) = FAbsent)"

lemma outcome_moves: "outcome g g' \<Longrightarrow> moves g g'"
  using outcome_le [of g g'] by (auto simp: moves_def outcome_def keeps_def q_part_def)

lemma same_store_moves: "reg_ok g \<Longrightarrow> same_store g g' \<Longrightarrow> moves g g'"
  using same_store_facts [of g g'] by (simp add: moves_def same_store_def)

lemma transition_moves:
  assumes ok: "reg_ok g" and t: "transition_to g k new cb hr cs v = (res, g')"
  shows "moves g g'"
proof -
  have "store_f (disk g') = FAbsent \<longrightarrow> store_f (disk g) = FAbsent"
  proof (cases "new = RESERVED \<or> new = DISPATCHING")
    case False
    with t have "transition_unchecked g k new cb hr cs v = (res, g')" by (simp add: transition_to_def)
    from transition_unchecked_outcome [OF ok this] show ?thesis by (simp add: keeps_def)
  next
    case True
    obtain m bad g1 where q: "q_read g = ((m, bad), g1)" by (metis surj_pair)
    note f = q_read_facts [OF ok q]
    then have ok1: "reg_ok g1" by simp
    have "g' = reg_load g1 \<or> transition_unchecked g1 k new cb hr cs v = (res, g')"
      using t q True
      by (auto simp: transition_to_def quarantine_is_active_def get_op_def Let_def split: if_splits)
    with f keeps_load [OF ok1] transition_unchecked_outcome [OF ok1] show ?thesis
      by (auto simp: keeps_def)
  qed
  with transition_to_outcome [OF ok t] show ?thesis
    by (auto simp: moves_def refused_def admitted_def intro: records_le_move)
qed

lemma nonempty_images:
  "snd (set_quarantine g a lb inc u) \<noteq> []" "snd (authorized_release_quarantine g v by sc au rs now) \<noteq> []"
  by (auto simp: set_quarantine_def authorized_release_quarantine_def release_commit_def Let_def
      split: prod.split sum.split option.split)

lemma reg_step_moves:
  assumes "reg_ok g"
  shows "moves g (reg_step g r)"
proof -
  show ?thesis
  proof (cases r)
    case (OpRegister q)
    show ?thesis using register_outcome [OF assms surjective_pairing, of q]
      by (auto simp: OpRegister moves_def keeps_def q_part_def intro: records_le_new split: if_splits)
  next
    case (OpTransition k new cb hr cs v)
    show ?thesis using transition_moves [OF assms surjective_pairing] by (simp add: OpTransition)
  next
    case (OpFlags k fs)
    show ?thesis using set_budget_flags_outcome [OF assms surjective_pairing] by (simp add: OpFlags outcome_moves)
  next
    case (OpAuthorizationRequest k j)
    show ?thesis using record_authorization_request_outcome [OF assms surjective_pairing]
      by (simp add: OpAuthorizationRequest outcome_moves)
  next
    case (OpAuthorizationReceipt k j)
    show ?thesis using record_authorization_receipt_outcome [OF assms surjective_pairing]
      by (simp add: OpAuthorizationReceipt outcome_moves)
  next
    case (OpClaim k c)
    show ?thesis using ensure_claim_outcome [OF assms surjective_pairing] by (simp add: OpClaim outcome_moves)
  next
    case (OpConsumption k j)
    show ?thesis using record_consumption_receipt_outcome [OF assms surjective_pairing]
      by (simp add: OpConsumption outcome_moves)
  next
    case (OpGateStatus k ph st rs sec)
    show ?thesis using record_gate_status_outcome [OF assms surjective_pairing]
      by (simp add: OpGateStatus outcome_moves)
  next
    case OpReload
    show ?thesis using outcome_quiet [OF assms] by (simp add: OpReload outcome_moves)
  next
    case (OpLock lb inc u)
    show ?thesis
      using set_quarantine_store [OF surjective_pairing last_in_set [OF nonempty_images(1)]]
      by (simp add: OpLock same_store_moves [OF assms])
  next
    case (OpRelease v ab sc au rs now)
    show ?thesis
      using release_store [OF surjective_pairing last_in_set [OF nonempty_images(2)]]
      by (simp add: OpRelease same_store_moves [OF assms])
  qed
qed

lemma world_view: "world_ok w \<Longrightarrow> op_view (worker w i) = stored (fst w)"
  by (simp add: world_ok_def op_view_def worker_def)

lemma worker_step: "worker (world_step w r) (fst r) = reg_step (worker w (fst r)) (snd r)"
  by (simp add: worker_def world_step_def Let_def)

lemma world_step_ok:
  assumes "world_ok w"
  shows "world_ok (world_step w r)"
  unfolding world_ok_def
proof
  fix j
  let ?g = "worker w (fst r)"
  let ?g' = "reg_step ?g (snd r)"
  have g: "reg_ok ?g" "durable ?g" using assms by (auto simp: world_ok_def)
  note m = reg_step_moves [OF g(1), of "snd r", unfolded moves_def]
  show "durable (worker (world_step w r) j) \<and> reg_ok (worker (world_step w r) j)"
  proof (cases "j = fst r")
    case True
    with m g(2) worker_step [of w r] show ?thesis by simp
  next
    case False
    then have j: "worker (world_step w r) j = (worker w j)\<lparr>disk := disk ?g'\<rparr>"
      by (simp add: worker_def world_step_def Let_def)
    have wj: "durable (worker w j)" "reg_ok (worker w j)" using assms by (auto simp: world_ok_def)
    have same: "disk (worker w j) = disk ?g" by (simp add: worker_def)
    from m g(2) have "reg_ok ?g'" "durable ?g'" "store_f (disk ?g') = FAbsent \<longrightarrow> store_f (disk ?g) = FAbsent"
      by auto
    with wj same show ?thesis unfolding j by (auto simp: reg_ok_def)
  qed
qed

definition world_le :: "world \<Rightarrow> world \<Rightarrow> bool" where
  "world_le w w' \<longleftrightarrow> records_le (stored (fst w)) (stored (fst w'))"

lemma world_step_le: "world_ok w \<Longrightarrow> world_le w (world_step w r)"
proof -
  assume ok: "world_ok w"
  then have "reg_ok (worker w (fst r))" by (simp add: world_ok_def)
  from reg_step_moves [OF this, of "snd r"]
  have "records_le (op_view (worker w (fst r))) (op_view (reg_step (worker w (fst r)) (snd r)))"
    by (simp add: moves_def)
  then show ?thesis
    using world_view [OF ok] world_view [OF world_step_ok [OF ok], of r "fst r"] worker_step [of w r]
    by (simp add: world_le_def)
qed

interpretation workers: machine_order world_step world_ok world_le
  by unfold_locales
    (auto simp: world_le_def intro: world_step_ok records_le_trans world_step_le [unfolded world_le_def])

end
