(* ===== verification/Registry_Guarantees.thy ===== *)
theory Registry_Guarantees
  imports Registry
begin

section \<open>What the operation registry guarantees\<close>

text \<open>
  Properties of \<open>DurableOperationRegistry\<close> over every interleaving of the operations of any
  number of workers that share one store: the dispatch claim is exclusive, records only move
  along legal transitions and keep their identity, the quarantine lock stops admission and
  fails closed at every crash point, and it opens only for a verified, lock-bound proof.
\<close>

subsection \<open>The dispatch claim\<close>

text \<open>Does this request of this worker win the claim of operation \<open>k\<close>?\<close>

definition dispatch_win :: "registry \<Rightarrow> reg_op \<Rightarrow> string \<Rightarrow> bool" where
  "dispatch_win g r k =
     (case r of
        OpTransition k' new cb hr cs v \<Rightarrow>
          k' = k \<and> new = DISPATCHING \<and>
          (case fst (transition_to g k' new cb hr cs v) of Inr (True, _) \<Rightarrow> True | _ \<Rightarrow> False)
      | _ \<Rightarrow> False)"

fun wins :: "world \<Rightarrow> (nat \<times> reg_op) list \<Rightarrow> string \<Rightarrow> nat" where
  "wins w [] k = 0"
| "wins w (r # rs) k =
     (if dispatch_win (worker w (fst r)) (snd r) k then 1 else 0) + wins (world_step w r) rs k"

definition past_dispatch :: "op_state \<Rightarrow> bool" where
  "past_dispatch s \<longleftrightarrow> s = DISPATCHING \<or> s = CONFIRMED \<or> s = FAILED \<or> s = UNKNOWN"

lemma past_dispatch_step: "legal_step s t \<Longrightarrow> past_dispatch s \<Longrightarrow> past_dispatch t"
  by (cases s) (auto simp: legal_step_def past_dispatch_def)

lemma past_dispatch_stays: "legal_step\<^sup>*\<^sup>* s t \<Longrightarrow> past_dispatch s \<Longrightarrow> past_dispatch t"
  by (induction rule: rtranclp_induct) (auto intro: past_dispatch_step)

lemma dispatch_winD:
  assumes ok: "world_ok w" and win: "dispatch_win (worker w i) r k"
  shows "(\<exists>q. map_of (stored (fst w)) k = Some q \<and> op_state q = RESERVED) \<and>
         (\<exists>q. map_of (stored (fst (world_step w (i, r)))) k = Some q \<and> op_state q = DISPATCHING)"
proof -
  from win obtain cb hr cs v p where r: "r = OpTransition k DISPATCHING cb hr cs v"
    and res: "fst (transition_to (worker w i) k DISPATCHING cb hr cs v) = Inr (True, p)"
    by (auto simp: dispatch_win_def split: reg_op.splits sum.splits prod.splits bool.splits)
  have g: "reg_ok (worker w i)" using ok by (simp add: world_ok_def)
  obtain g' where t: "transition_to (worker w i) k DISPATCHING cb hr cs v = (Inr (True, p), g')"
    using res by (metis prod.collapse)
  from transition_to_outcome [OF g t] have "admitted (worker w i) k DISPATCHING hr cs v (Inr (True, p)) g'"
    by (auto simp: refused_def)
  then obtain q q' where q: "map_of (stored (fst w)) k = Some q" "legal_step (op_state q) DISPATCHING"
    "op_state q' = DISPATCHING" "op_view g' = dput k q' (stored (fst w))"
    by (auto simp: admitted_def world_view [OF ok])
  have "worker (world_step w (i, r)) i = g'" using worker_step [of w "(i, r)"] t r by simp
  then have "stored (fst (world_step w (i, r))) = dput k q' (stored (fst w))"
    using world_view [OF world_step_ok [OF ok], of "(i, r)" i] q(4) by metis
  then have "map_of (stored (fst (world_step w (i, r)))) k = Some q'" by (simp only: map_of_dput fun_upd_same)
  with q(3) have "\<exists>q. map_of (stored (fst (world_step w (i, r)))) k = Some q \<and> op_state q = DISPATCHING"
    by simp
  moreover have "op_state q = RESERVED"
    using q(2) by (cases "op_state q") (auto simp: legal_step_def)
  ultimately show ?thesis using q(1) by blast
qed

lemma no_wins_after:
  "world_ok w \<Longrightarrow> map_of (stored (fst w)) k = Some q \<Longrightarrow> past_dispatch (op_state q) \<Longrightarrow> wins w rs k = 0"
proof (induction rs arbitrary: w q)
  case (Cons r rs)
  have "\<not> dispatch_win (worker w (fst r)) (snd r) k"
    using dispatch_winD [OF Cons.prems(1), of "fst r" "snd r" k] Cons.prems(2,3) by (auto simp: past_dispatch_def)
  moreover obtain q' where q': "map_of (stored (fst (world_step w r))) k = Some q'" "op_le q q'"
    using world_step_le [OF Cons.prems(1), of r] Cons.prems(2) by (auto simp: world_le_def records_le_def)
  moreover have "past_dispatch (op_state q')"
    using q'(2) Cons.prems(3) past_dispatch_stays by (auto simp: op_le_def)
  ultimately show ?case using Cons.IH [OF world_step_ok [OF Cons.prems(1)]] by simp
qed simp

text \<open>
  C8. The dispatch claim is exclusive: whatever requests the workers send, in whatever
  interleaving, at most one transition of an operation to \<open>DISPATCHING\<close> succeeds.
\<close>

theorem dispatch_claimed_once:
  assumes "world_ok w"
  shows "wins w rs k \<le> 1"
  using assms
proof (induction rs arbitrary: w)
  case (Cons r rs)
  have ok: "world_ok (world_step w r)" using Cons.prems by (rule world_step_ok)
  show ?case
  proof (cases "dispatch_win (worker w (fst r)) (snd r) k")
    case False
    with Cons.IH [OF ok] show ?thesis by simp
  next
    case True
    from dispatch_winD [OF Cons.prems True] obtain q where
      "map_of (stored (fst (world_step w r))) k = Some q" "op_state q = DISPATCHING" by auto
    with no_wins_after [OF ok] show ?thesis by (simp add: past_dispatch_def)
  qed
qed simp

text \<open>
  C37. A registered operation is never lost or replaced: after any run of any workers its record
  is still there with the same identity, its state is reachable from the earlier one by legal
  transitions, a commit-gate value or claim once set has not changed, and the time bounds of
  its hold are the original ones.
\<close>

theorem records_only_advance:
  assumes "world_ok w" and "map_of (stored (fst w)) k = Some r"
  shows "\<exists>r'. map_of (stored (fst (foldl world_step w rs))) k = Some r' \<and>
     same_identity r r' \<and> legal_step\<^sup>*\<^sup>* (op_state r) (op_state r') \<and> gate_kept r r' \<and> hold_kept r r'"
  using workers.run_le [OF assms(1), of rs] assms(2)
  by (auto simp: world_le_def records_le_def op_le_def)

text \<open>
  C27. The commit gate. A dispatch of an operation that requires commit authorization succeeds
  only if the stored consumption receipt says \<open>CONSUMED\<close> for exactly the stored dispatch claim
  and the caller has verified it; and no admission or dispatch at all succeeds under quarantine.
\<close>

theorem dispatch_gate:
  assumes "reg_ok g" and "map_of (op_view g) k = Some r"
    and "transition_to g k DISPATCHING cb hr cs v = (Inr (True, p), g')"
  shows "op_state r = RESERVED \<and> \<not> q_active_now g \<and>
    (commit_gate_required r \<longrightarrow>
       v \<and> commit_dispatch_claim_id r \<noteq> [] \<and>
       body_field (commit_consumption_receipt r) ''decision'' = Inr (JStr ''CONSUMED'') \<and>
       body_field (commit_consumption_receipt r) ''dispatch_claim_id'' =
         Inr (JStr (commit_dispatch_claim_id r)))"
proof -
  from transition_to_outcome [OF assms(1,3)] assms(2) have
    *: "legal_step (op_state r) DISPATCHING" "\<not> q_active_now g"
      "commit_gate_required r \<longrightarrow> consumption_ok r v = Inr True"
    by (auto simp: refused_def admitted_def)
  moreover have "op_state r = RESERVED"
    using *(1) by (cases "op_state r") (auto simp: legal_step_def)
  ultimately show ?thesis by (auto simp: consumption_ok_def bindE_Inr_conv)
qed

subsection \<open>Quarantine\<close>

definition is_release :: "reg_op \<Rightarrow> bool" where
  "is_release r = (case r of OpRelease _ _ _ _ _ _ \<Rightarrow> True | _ \<Rightarrow> False)"

definition registers_created :: "reg_op \<Rightarrow> bool" where
  "registers_created r = (case r of OpRegister q \<Rightarrow> op_state q = CREATED | _ \<Rightarrow> True)"

definition live :: "op_state \<Rightarrow> bool" where
  "live s \<longleftrightarrow> s = RESERVED \<or> s = DISPATCHING"

text \<open>One request: while the lock is active it stays active and makes no operation live.\<close>

lemma set_quarantine_stays:
  assumes "q_active_now g" and "img \<in> set (snd (set_quarantine g True lb inc u))" and "nonblank (Some u)"
  shows "q_active_now img"
proof -
  obtain m bad g1 where q: "q_read g = ((m, bad), g1)" by (metis surj_pair)
  have m: "mark_active m" using assms(1) q by (simp add: q_active_now_def q_status_def)
  have again: "q_active_now g1"
    using q m by (auto simp: q_active_now_def q_status_def q_read_def Let_def corrupt_mark_def
        split: if_splits mark_file.splits)
  have w: "q_active_now img" if "img \<in> set (q_write g1
      \<lparr>q_active = Some True, q_lock_id = Some u, q_locked_by = lb, q_incident = i, q_receipt = None\<rparr>)"
    "\<not> bad" for img i
    using that q m assms(3)
    by (auto simp: q_write_def Let_def q_active_now_def q_status_def q_read_def mark_valid_def
        mark_active_def corrupt_mark_def no_mark_def split: if_splits mark_file.splits)
  show ?thesis
    using assms(1,2) q again w
    by (auto simp: set_quarantine_def Let_def split: if_splits)
qed

definition lock_named :: "reg_op \<Rightarrow> bool" where
  "lock_named r = (case r of OpLock lb inc u \<Rightarrow> nonblank (Some u) | _ \<Rightarrow> True)"

definition nothing_new_live :: "(string, operation) dict \<Rightarrow> (string, operation) dict \<Rightarrow> bool" where
  "nothing_new_live rs rs' \<longleftrightarrow>
     (\<forall>k q'. map_of rs' k = Some q' \<and> live (op_state q') \<longrightarrow>
        (\<exists>q. map_of rs k = Some q \<and> op_state q = op_state q'))"

lemma nothing_new_live_refl [simp]: "nothing_new_live rs rs"
  by (simp add: nothing_new_live_def)

lemma nothing_new_live_trans:
  "nothing_new_live a b \<Longrightarrow> nothing_new_live b c \<Longrightarrow> nothing_new_live a c"
  unfolding nothing_new_live_def by metis

lemma outcome_frozen: "outcome g g' \<Longrightarrow> nothing_new_live (op_view g) (op_view g')"
  by (auto simp: outcome_def nothing_new_live_def op_same_def split: if_splits)

lemma outcome_status: "outcome g g' \<Longrightarrow> q_status g' = q_status g"
  by (simp add: outcome_def keeps_status)

lemma step_frozen:
  assumes ok: "reg_ok g" and act: "q_active_now g" and nr: "\<not> is_release r"
    and cr: "registers_created r" and ln: "lock_named r"
  shows "q_active_now (reg_step g r) \<and> nothing_new_live (op_view g) (op_view (reg_step g r))"
proof -
  have out: "q_active_now g' \<and> nothing_new_live (op_view g) (op_view g')" if "outcome g g'" for g'
    using outcome_frozen [OF that] outcome_status [OF that] act by (simp add: q_active_now_def)
  show ?thesis
  proof (cases r)
    case (OpRegister q)
    with cr register_outcome [OF ok surjective_pairing, of q] act keeps_status [of g "snd (register g q)"]
    show ?thesis
      by (auto simp: registers_created_def q_active_now_def nothing_new_live_def live_def split: if_splits)
  next
    case (OpTransition k new cb hr cs v)
    from transition_to_outcome [OF ok surjective_pairing, of k new cb hr cs v] act show ?thesis
      by (auto simp: OpTransition q_active_now_def refused_def admitted_def nothing_new_live_def live_def
          split: if_splits)
  next
    case (OpFlags k fs)
    show ?thesis using out set_budget_flags_outcome [OF ok surjective_pairing] by (simp add: OpFlags)
  next
    case (OpAuthorizationRequest k j)
    show ?thesis using out record_authorization_request_outcome [OF ok surjective_pairing]
      by (simp add: OpAuthorizationRequest)
  next
    case (OpAuthorizationReceipt k j)
    show ?thesis using out record_authorization_receipt_outcome [OF ok surjective_pairing]
      by (simp add: OpAuthorizationReceipt)
  next
    case (OpClaim k c)
    show ?thesis using out ensure_claim_outcome [OF ok surjective_pairing] by (simp add: OpClaim)
  next
    case (OpConsumption k j)
    show ?thesis using out record_consumption_receipt_outcome [OF ok surjective_pairing] by (simp add: OpConsumption)
  next
    case (OpGateStatus k ph st rs sec)
    show ?thesis using out record_gate_status_outcome [OF ok surjective_pairing] by (simp add: OpGateStatus)
  next
    case OpReload
    show ?thesis using out outcome_quiet [OF ok] by (simp add: OpReload)
  next
    case (OpLock lb inc u)
    let ?g' = "last (snd (set_quarantine g True lb inc u))"
    have mem: "?g' \<in> set (snd (set_quarantine g True lb inc u))" using nonempty_images(1) by (rule last_in_set)
    have "q_active_now ?g'"
      using set_quarantine_stays [OF act mem] ln by (simp add: OpLock lock_named_def)
    moreover have "op_view ?g' = op_view g"
      by (rule same_store_facts(2) [OF set_quarantine_store [OF surjective_pairing mem] ok])
    ultimately show ?thesis by (simp add: OpLock)
  qed (use nr in \<open>simp add: is_release_def\<close>)
qed

lemma q_status_disk: "durable g \<Longrightarrow> durable g' \<Longrightarrow> disk g = disk g' \<Longrightarrow> q_status g = q_status g'"
  by (simp add: q_status_def q_read_def Let_def split: mark_file.split)

definition world_locked :: "world \<Rightarrow> bool" where
  "world_locked w \<longleftrightarrow> q_active_now (worker w 0)"

lemma world_locked_any: "world_ok w \<Longrightarrow> world_locked w \<longleftrightarrow> q_active_now (worker w i)"
  unfolding world_locked_def q_active_now_def
  using q_status_disk [of "worker w 0" "worker w i"] by (simp add: world_ok_def worker_def)


subsection \<open>Releasing the lock\<close>


text \<open>The process that starts from a disk image.\<close>

definition next_process :: "registry \<Rightarrow> registry" where
  "next_process img = reg_new True (disk img)"

lemma next_process_status: "durable img \<Longrightarrow> q_status (next_process img) = q_status img"
proof -
  assume "durable img"
  moreover have "durable (next_process img)" "disk (next_process img) = disk img"
    by (simp_all add: next_process_def reg_new_def reg_load_def split: store_file.split prod.split)
  ultimately show ?thesis by (intro q_status_disk)
qed

text \<open>
  A release fails closed at every crash point. Of the disk images a successful release of a
  file-backed registry passes through, every one but the last leaves the next process under
  quarantine, and the last one opens, provided the principal and the scope the verifier
  confirmed are not blank.
\<close>

theorem release_fails_closed:
  assumes "durable g"
    and "authorized_release_quarantine g v ab sc au reason now = (Released rc, imgs)"
  shows "imgs \<noteq> [] \<and> (\<forall>img \<in> set (butlast imgs). q_active_now (next_process img)) \<and>
     (q_active_now (next_process (last imgs)) \<longleftrightarrow> \<not> (nonblank (Some ab) \<and> nonblank (Some sc)))"
proof -
  obtain m bad g1 where q: "q_read g = ((m, bad), g1)" by (metis surj_pair)
  from assms(2) q obtain l ai where ver: "verify_quarantine_release v ab sc au reason l = Some ai"
    and rel: "release_commit g1 l ai ab sc reason now = (Released rc, imgs)"
    by (auto simp: authorized_release_quarantine_def release_begin_def split: if_splits option.splits)
  have ai: "nonblank (Some ai)"
    using ver by (auto simp: verify_quarantine_release_def split: option.splits if_splits)
  have dur: "durable g1" using q assms(1) by (auto simp: q_read_def Let_def split: if_splits mark_file.splits)
  from rel show ?thesis
  proof (cases rule: release_commit_cases)
    case (3 m2 g2)
    let ?rc = "receipt_for m2 l ai ab sc reason now"
    let ?p = "g2\<lparr>disk := (disk g2)\<lparr>q_pending := True\<rparr>\<rparr>"
    let ?i = "?p\<lparr>disk := (disk ?p)\<lparr>q_initialized := True\<rparr>\<rparr>"
    let ?w = "?i\<lparr>disk := (disk ?i)\<lparr>mark_f := QStored (inactive_mark l ?rc)\<rparr>, q_memory := inactive_mark l ?rc\<rparr>"
    let ?f = "?w\<lparr>disk := (disk ?w)\<lparr>q_pending := False\<rparr>\<rparr>"
    have d2: "durable g2" using 3(1) dur by (auto simp: q_read_def Let_def split: if_splits mark_file.splits)
    have imgs: "imgs = [g2, ?p, ?i, ?w, ?f]"
      using 3(5) d2 by (simp add: set_pending_def q_write_def Let_def)
    have lock: "nonblank (Some l)"
      using 3(1-3) dur by (auto simp: q_read_def Let_def mark_valid_def corrupt_mark_def no_mark_def
          mark_active_def split: if_splits mark_file.splits)
    have "q_active_now g2"
      using 3(1,2) dur by (auto simp: q_active_now_def q_status_def q_read_def Let_def corrupt_mark_def
          split: if_splits mark_file.splits)
    moreover have "q_active_now ?p" "q_active_now ?i" "q_active_now ?w"
      using d2 by (simp_all add: q_active_now_def q_status_def q_read_def corrupt_mark_def mark_active_def)
    moreover have "q_active_now ?f \<longleftrightarrow> \<not> (nonblank (Some ab) \<and> nonblank (Some sc))"
      using d2 lock ai
      by (simp add: q_active_now_def q_status_def q_read_def corrupt_mark_def mark_active_def mark_valid_def
          inactive_mark_def receipt_for_def Let_def)
    ultimately show ?thesis
      using d2 by (simp add: imgs q_active_now_def next_process_status)
  qed simp_all
qed

text \<open>
  A proof is bound to one incident. When a lock is renewed for a new incident, a release that
  was verified against the earlier lock identity is refused, and the lock stays active.
\<close>

theorem stale_release_refused:
  assumes "q_status g = (m, False)" and "q_active_now g" and "q_incident m \<noteq> Some inc"
    and "set_quarantine g True lb (Incident inc) u = (Inr (), imgs)" and "nonblank (Some u)"
    and "l \<noteq> u"
  shows "fst (release_commit (last imgs) l ai ab sc reason now) = LockChanged \<and>
         q_active_now (last (snd (release_commit (last imgs) l ai ab sc reason now)))"
proof -
  let ?mk = "\<lparr>q_active = Some True, q_lock_id = Some u, q_locked_by = lb, q_incident = Some inc,
    q_receipt = None\<rparr>"
  obtain g1 where q: "q_read g = ((m, False), g1)" using assms(1) by (auto simp: q_status_def) (metis surjective_pairing)
  have m: "mark_active m" using assms(2) q by (simp add: q_active_now_def q_status_def)
  have imgs: "imgs = g1 # q_write g1 ?mk"
    using assms(4) q assms(3) m by (auto simp: set_quarantine_def incident_id_def split: if_splits)
  have pend: "durable g1 \<longrightarrow> \<not> q_pending (disk g1)"
    using q by (auto simp: q_read_def Let_def corrupt_mark_def no_mark_def split: if_splits mark_file.splits)
  have "\<exists>g2. q_read (last imgs) = ((?mk, False), g2) \<and> q_active_now g2"
    using imgs pend assms(5)
    by (auto simp: q_write_def Let_def q_read_def q_active_now_def q_status_def mark_valid_def mark_active_def)
  then obtain g2 where g2: "q_read (last imgs) = ((?mk, False), g2)" "q_active_now g2" by blast
  then have "release_commit (last imgs) l ai ab sc reason now = (LockChanged, [g2])"
    using assms(6) by (simp add: release_commit_def)
  with g2 show ?thesis by simp
qed

text \<open>
  Activation. A successful activation leaves the lock active, and a crash anywhere inside it
  leaves the next process either where it was or under quarantine.
\<close>

theorem activation_fails_closed:
  assumes "durable g" and "set_quarantine g True lb inc u = (Inr (), imgs)" and "nonblank (Some u)"
  shows "imgs \<noteq> [] \<and> q_active_now (next_process (last imgs)) \<and>
     (\<forall>img \<in> set imgs. q_active_now (next_process img) \<or> q_status (next_process img) = q_status g)"
proof -
  obtain m bad g1 where q: "q_read g = ((m, bad), g1)" by (metis surj_pair)
  let ?mk = "\<lparr>q_active = Some True, q_lock_id = Some u, q_locked_by = lb, q_incident = incident_id inc,
    q_receipt = None\<rparr>"
  from assms(2) q have nb: "\<not> bad"
    and imgs: "imgs = [g1] \<and> mark_active m \<or> imgs = g1 # q_write g1 ?mk"
    by (auto simp: set_quarantine_def split: if_splits)
  have d1: "durable g1" "q_status g1 = q_status g"
    using q assms(1) by (auto simp: q_status_def q_read_def Let_def split: if_splits mark_file.splits)
  have pend: "\<not> q_pending (disk g1)"
    using q nb assms(1) by (auto simp: q_read_def Let_def split: if_splits mark_file.splits)
  have s1: "q_status (next_process g1) = q_status g" using d1 by (simp add: next_process_status)
  from imgs show ?thesis
  proof
    assume "imgs = [g1] \<and> mark_active m"
    with s1 q show ?thesis by (simp add: q_active_now_def q_status_def)
  next
    assume i: "imgs = g1 # q_write g1 ?mk"
    let ?i = "g1\<lparr>disk := (disk g1)\<lparr>q_initialized := True\<rparr>\<rparr>"
    let ?w = "?i\<lparr>disk := (disk ?i)\<lparr>mark_f := QStored ?mk\<rparr>, q_memory := ?mk\<rparr>"
    have w: "q_active_now ?w"
      using d1 pend assms(3) by (simp add: q_active_now_def q_status_def q_read_def mark_valid_def mark_active_def)
    have "q_active_now ?i" if "mark_f (disk g1) = QAbsent"
      using that d1(1) pend
      by (simp add: q_active_now_def q_status_def q_read_def mark_active_def corrupt_mark_def)
    moreover have "q_status ?i = q_status g1" if "mark_f (disk g1) \<noteq> QAbsent"
      using that d1(1) pend by (simp add: q_status_def q_read_def Let_def split: mark_file.split)
    ultimately have "q_active_now ?i \<or> q_status ?i = q_status g1" by blast
    with w d1 i s1 show ?thesis
      by (auto simp: q_write_def Let_def q_active_now_def next_process_status)
  qed
qed

subsection \<open>Corruption\<close>

definition demo_op :: "string \<Rightarrow> op_state \<Rightarrow> bool \<Rightarrow> operation" where
  "demo_op k s gate =
     \<lparr>idempotency_key = k, passage_id = ''p'', agent_id = ''a'', action_type = ''t'', op_amount = Fin 5,
      op_resource = ''r'', op_state = s, op_created_at = [], op_updated_at = [],
      composed_decision = [], dispatch_claimed_by = [], budget_reserved = False,
      budget_committed = False, hold = None, reservation_id = [], payload_hash = [],
      operation_id = [], institutional_scope = [], payload_digest = [], commit_gate_required = gate,
      commit_authorization_request = JNull, commit_authorization_receipt = JNull,
      commit_dispatch_claim_id = [], commit_consumption_receipt = JNull,
      commit_authorization_status = [], commit_consumption_status = [],
      commit_gate_last_reason = [], commit_gate_events = []\<rparr>"

definition empty_disk :: reg_disk where
  "empty_disk = \<lparr>store_f = FAbsent, mark_f = QAbsent, q_initialized = False, q_pending = False\<rparr>"

text \<open>
  The commit-gate mutations do not look at corruption after their reload: on a store another
  process has registered into and that has then become unreadable,
  \<open>record_commit_gate_status\<close> answers success and overwrites the file with this process's older memory, so the store reads
  as healthy and the other registration is gone. A transition on the same file is refused.
\<close>

theorem gate_status_overwrites_corrupt_store:
  "let a = snd (register (reg_new True empty_disk) (demo_op ''k'' RESERVED True));
       b = snd (register (reg_new True (disk a)) (demo_op ''other'' CREATED False));
       bad = (disk b)\<lparr>store_f := FUnreadable\<rparr>;
       (res, a') = record_commit_gate_status (a\<lparr>disk := bad\<rparr>) ''k'' ''authorization'' ''HOLD'' [] False
   in map fst (stored (disk b)) = [''k'', ''other''] \<and>
      fst (transition_to (a\<lparr>disk := bad\<rparr>) ''k'' FAILED [] None [] False) = Inl RuntimeError \<and>
      res = Inr True \<and> map fst (stored (disk a')) = [''k''] \<and> \<not> corrupted (reg_new True (disk a'))"
  by code_simp

subsection \<open>Concrete runs\<close>

definition demo_world :: world where
  "demo_world = (empty_disk, \<lambda>_. reg_new True empty_disk)"

lemma demo_world_ok: "world_ok demo_world"
  by (simp add: world_ok_def worker_def demo_world_def reg_new_def reg_load_def empty_disk_def reg_ok_def
      store_good_def)

definition demo_ops :: "(nat \<times> reg_op) list" where
  "demo_ops =
     [(0, OpRegister (demo_op ''k'' CREATED False)), (1, OpTransition ''k'' RESERVED [] None [] False),
      (1, OpTransition ''k'' DISPATCHING ''w1'' None [] False),
      (0, OpTransition ''k'' DISPATCHING ''w0'' None [] False)]"

theorem dispatch_claimed_once_witness: "wins demo_world demo_ops ''k'' = 1"
proof -
  have "0 < wins demo_world demo_ops ''k''" by code_simp
  with dispatch_claimed_once [OF demo_world_ok, of demo_ops "''k''"] show ?thesis by simp
qed

definition live_world :: world where
  "live_world = foldl world_step demo_world (take 2 demo_ops)"

lemma live_world_ok: "world_ok live_world"
  unfolding live_world_def by (rule workers.run_inv [OF demo_world_ok])

lemma live_world_op: "map_of (stored (fst live_world)) ''k'' = Some (demo_op ''k'' RESERVED False)"
  by code_simp

theorem records_only_advance_witness:
  "\<exists>r'. map_of (stored (fst (foldl world_step live_world (drop 2 demo_ops)))) ''k'' = Some r' \<and>
     same_identity (demo_op ''k'' RESERVED False) r' \<and> legal_step\<^sup>*\<^sup>* RESERVED (op_state r')"
  using records_only_advance [OF live_world_ok live_world_op, of "drop 2 demo_ops"]
  by (auto simp: demo_op_def)

theorem dispatch_gate_witness:
  "op_state (demo_op ''k'' RESERVED False) = RESERVED \<and> \<not> q_active_now (worker live_world 1)"
proof -
  let ?g = "worker live_world 1"
  have "fst (transition_to ?g ''k'' DISPATCHING ''w1'' None [] False) = Inr (True, Some RESERVED)"
    by code_simp
  then obtain g' where t: "transition_to ?g ''k'' DISPATCHING ''w1'' None [] False = (Inr (True, Some RESERVED), g')"
    by (metis prod.collapse)
  have ok: "reg_ok ?g" using live_world_ok by (simp add: world_ok_def)
  have r: "map_of (op_view ?g) ''k'' = Some (demo_op ''k'' RESERVED False)"
    using world_view [OF live_world_ok] live_world_op by simp
  from dispatch_gate [OF ok r t] show ?thesis by simp
qed

definition locked_world :: world where
  "locked_world = world_step live_world (0, OpLock ''ops'' NoIncident ''lock1'')"

lemma locked_world_ok: "world_ok locked_world"
  unfolding locked_world_def by (rule world_step_ok [OF live_world_ok])


text \<open>A verifier that attests everything it is asked.\<close>

definition yes_verifier :: verifier where
  "yes_verifier = Some (\<lambda>ab sc au reason l.
     Some \<lparr>pr_authorized = True, pr_principal = Some ab, pr_scope = Some sc, pr_lock_id = Some l,
           pr_authorization_id = Some ''auth-1''\<rparr>)"

lemma demo_release:
  "\<exists>rc imgs. authorized_release_quarantine (worker locked_world 1) yes_verifier ''officer'' ''lei'' ''t'' [] [] =
     (Released rc, imgs)"
proof -
  have "(case fst (authorized_release_quarantine (worker locked_world 1) yes_verifier ''officer'' ''lei'' ''t'' [] [])
         of Released rc \<Rightarrow> True | _ \<Rightarrow> False)" by code_simp
  then show ?thesis
    by (cases "authorized_release_quarantine (worker locked_world 1) yes_verifier ''officer'' ''lei'' ''t'' [] []")
      (auto split: release_answer.splits)
qed


theorem release_fails_closed_witness:
  "\<not> q_active_now (next_process (last (snd (authorized_release_quarantine (worker locked_world 1)
       yes_verifier ''officer'' ''lei'' ''t'' [] []))))"
proof -
  obtain rc imgs where r: "authorized_release_quarantine (worker locked_world 1) yes_verifier ''officer'' ''lei'' ''t'' [] [] =
     (Released rc, imgs)" using demo_release by blast
  have d: "durable (worker locked_world 1)" using locked_world_ok by (simp add: world_ok_def)
  have "nonblank (Some ''officer'') \<and> nonblank (Some ''lei'')" by code_simp
  with release_fails_closed [OF d r] r show ?thesis by simp
qed

theorem stale_release_refused_witness:
  "fst (release_commit (last (snd (set_quarantine (worker locked_world 1) True ''ops'' (Incident ''i2'') ''lock2'')))
     ''lock1'' ''auth-1'' ''officer'' ''lei'' [] []) = LockChanged"
proof -
  let ?g = "worker locked_world 1"
  have s: "q_status ?g = (\<lparr>q_active = Some True, q_lock_id = Some ''lock1'', q_locked_by = ''ops'',
    q_incident = None, q_receipt = None\<rparr>, False)" by code_simp
  then have a: "q_active_now ?g" by (simp add: q_active_now_def mark_active_def)
  have "fst (set_quarantine ?g True ''ops'' (Incident ''i2'') ''lock2'') = Inr ()" by code_simp
  then have r: "set_quarantine ?g True ''ops'' (Incident ''i2'') ''lock2'' =
      (Inr (), snd (set_quarantine ?g True ''ops'' (Incident ''i2'') ''lock2''))" by (metis prod.collapse)
  have "nonblank (Some ''lock2'')" by code_simp
  from stale_release_refused [OF s a _ r this, of "''lock1''"] show ?thesis by simp
qed

theorem activation_fails_closed_witness:
  "q_active_now (next_process (last (snd (set_quarantine (worker live_world 0) True ''ops'' NoIncident ''lock1''))))"
proof -
  let ?g = "worker live_world 0"
  have d: "durable ?g" using live_world_ok by (simp add: world_ok_def)
  have "fst (set_quarantine ?g True ''ops'' NoIncident ''lock1'') = Inr ()" by code_simp
  then have r: "set_quarantine ?g True ''ops'' NoIncident ''lock1'' =
      (Inr (), snd (set_quarantine ?g True ''ops'' NoIncident ''lock1''))" by (metis prod.collapse)
  have "nonblank (Some ''lock1'')" by code_simp
  from activation_fails_closed [OF d r this] show ?thesis by simp
qed

end
