(* ===== verification/Hold.thy ===== *)
theory Hold
  imports Registry
begin

section \<open>The hold life cycle\<close>

text \<open>
  \<open>HoldManager\<close> of \<open>tenir_governance/operations/hold.py\<close>, over the operation registry. An
  answer is the tuple of the returned dictionary's fields without the explanation text. The
  clock is an argument: as text where the code stores text, as a float where it computes.
\<close>

subsection \<open>Operations\<close>

definition new_hold :: "pyfloat \<Rightarrow> string \<Rightarrow> pyfloat \<Rightarrow> hold_record" where
  "new_hold tau source now =
     \<lparr>hold_start = Some now, tau_k_seconds = tau, tau_k_source = source, escalated_at = [],
      escalated_by = [], exit_reason = [], exit_receipt = None\<rparr>"

definition enter_hold ::
  "registry \<Rightarrow> string \<Rightarrow> pyfloat \<Rightarrow> string \<Rightarrow> pyfloat \<Rightarrow> (bool \<times> op_state option \<times> hold_record option) reg_run" where
  "enter_hold g k tau source now =
     (let (r, g1) = get_op g k in
      case r of
        None \<Rightarrow> (Inr (False, None, None), g1)
      | Some r \<Rightarrow>
        if op_state r \<noteq> CREATED then (Inr (False, Some (op_state r), hold r), g1)
        else
          (let h = new_hold tau source now in
           case transition_to g1 k HOLD [] (Some h) [] False of
             (Inl e, g2) \<Rightarrow> (Inl e, g2)
           | (Inr (True, _), g2) \<Rightarrow> (Inr (True, Some HOLD, Some h), g2)
           | (Inr (False, _), g2) \<Rightarrow>
               (let (c, g3) = get_op g2 k in (Inr (False, map_option op_state c, None), g3))))"

definition resolve_hold :: "registry \<Rightarrow> string \<Rightarrow> (bool \<times> op_state option) reg_run" where
  "resolve_hold g k = (let (r, g1) = get_op g k in (Inr (False, map_option op_state r), g1))"

text \<open>A transition with hold changes, and the state read back afterwards.\<close>

definition hold_transition ::
  "registry \<Rightarrow> string \<Rightarrow> op_state \<Rightarrow> (string \<times> hold_value) list \<Rightarrow> (bool \<times> op_state option) reg_run" where
  "hold_transition g k new changes =
     (case transition_to g k new [] None changes False of
        (Inl e, g1) \<Rightarrow> (Inl e, g1)
      | (Inr (ok, _), g1) \<Rightarrow> (let (c, g2) = get_op g1 k in (Inr (ok, map_option op_state c), g2)))"

definition escalate_hold :: "registry \<Rightarrow> string \<Rightarrow> string \<Rightarrow> string \<Rightarrow> (bool \<times> op_state option) reg_run" where
  "escalate_hold g k who now =
     (let (r, g1) = get_op g k in
      case r of
        None \<Rightarrow> (Inr (False, None), g1)
      | Some r \<Rightarrow>
        if op_state r \<noteq> HOLD then (Inr (False, Some (op_state r)), g1)
        else hold_transition g1 k ESCALATED
               [(''escalated_at'', HStr now), (''escalated_by'', HStr who),
                (''exit_reason'', HStr ''escalated'')])"

definition authorize_exit ::
  "registry \<Rightarrow> string \<Rightarrow> exit_receipt \<Rightarrow> bool \<Rightarrow> (bool \<times> op_state option \<times> exit_receipt option) reg_run" where
  "authorize_exit g k receipt approve =
     (let (r, g1) = get_op g k in
      case r of
        None \<Rightarrow> (Inr (False, None, None), g1)
      | Some r \<Rightarrow>
        if op_state r \<noteq> ESCALATED then (Inr (False, Some (op_state r), None), g1)
        else
          (let (locked, g2) = (if approve then quarantine_is_active g1 else (False, g1)) in
           if locked then (Inr (False, Some (op_state r), None), g2)
           else case hold_transition g2 k (if approve then HOLD else FAILED)
                       [(''exit_receipt'', HReceipt (Some receipt)),
                        (''exit_reason'', HStr ''authorized_exit'')] of
                  (Inl e, g3) \<Rightarrow> (Inl e, g3)
                | (Inr (ok, s), g3) \<Rightarrow> (Inr (ok, s, if ok then Some receipt else None), g3)))"

definition fmax0 :: "pyfloat \<Rightarrow> pyfloat" where
  "fmax0 x = (if flt fzero x then x else fzero)"

text \<open>\<open>current_epoch or now\<close>: an epoch of zero counts as missing.\<close>

definition pick_epoch :: "pyfloat option \<Rightarrow> pyfloat \<Rightarrow> pyfloat" where
  "pick_epoch epoch now = (case epoch of None \<Rightarrow> now | Some e \<Rightarrow> if e = fzero then now else e)"

definition tau_remaining :: "hold_record \<Rightarrow> pyfloat \<Rightarrow> pyfloat \<Rightarrow> pyfloat" where
  "tau_remaining h start t = fsub (tau_k_seconds h) (fsub t start)"

definition check_tau_k_expiry ::
  "registry \<Rightarrow> string \<Rightarrow> pyfloat option \<Rightarrow> pyfloat \<Rightarrow> (bool \<times> op_state option \<times> pyfloat) reg_run" where
  "check_tau_k_expiry g k epoch now =
     (let (r, g1) = get_op g k in
      case r of
        None \<Rightarrow> (Inr (False, None, fzero), g1)
      | Some r \<Rightarrow>
        if op_state r \<noteq> HOLD \<and> op_state r \<noteq> ESCALATED then (Inr (False, Some (op_state r), fzero), g1)
        else case hold r of
          None \<Rightarrow> (Inr (False, Some (op_state r), fzero), g1)
        | Some h \<Rightarrow>
          if fle (tau_k_seconds h) fzero then (Inr (False, Some (op_state r), fzero), g1)
          else case hold_start h of
            None \<Rightarrow> (Inl ValueError, g1)
          | Some start \<Rightarrow>
            (let remaining = tau_remaining h start (pick_epoch epoch now)
             in (Inr (fle remaining fzero, Some (op_state r), fmax0 remaining), g1)))"

definition expire_hold :: "registry \<Rightarrow> string \<Rightarrow> pyfloat \<Rightarrow> (bool \<times> op_state option) reg_run" where
  "expire_hold g k now =
     (let (r, g1) = get_op g k in
      case r of
        None \<Rightarrow> (Inr (False, None), g1)
      | Some r \<Rightarrow>
        if op_state r \<noteq> HOLD then (Inr (False, Some (op_state r)), g1)
        else case check_tau_k_expiry g1 k None now of
          (Inl e, g2) \<Rightarrow> (Inl e, g2)
        | (Inr (expired, _, _), g2) \<Rightarrow>
          if \<not> expired then (Inr (False, Some (op_state r)), g2)
          else hold_transition g2 k FAILED [(''exit_reason'', HStr ''expired'')])"

definition expire_escalated :: "registry \<Rightarrow> string \<Rightarrow> (bool \<times> op_state option) reg_run" where
  "expire_escalated g k =
     (let (r, g1) = get_op g k in
      case r of
        None \<Rightarrow> (Inr (False, None), g1)
      | Some r \<Rightarrow>
        if op_state r \<noteq> ESCALATED then (Inr (False, Some (op_state r)), g1)
        else hold_transition g1 k UNKNOWN [(''exit_reason'', HStr ''expired_escalated'')])"

definition get_hold_record :: "registry \<Rightarrow> string \<Rightarrow> hold_record option \<times> registry" where
  "get_hold_record g k =
     (let (r, g1) = get_op g k in (case r of None \<Rightarrow> None | Some r \<Rightarrow> hold r, g1))"

definition find_unresolved_holds :: "registry \<Rightarrow> operation list \<times> registry" where
  "find_unresolved_holds g =
     (let (holds, g1) = find_by_state g HOLD; (esc, g2) = find_by_state g1 ESCALATED
      in (holds @ esc, g2))"

subsection \<open>Runs\<close>

datatype hold_op =
    HEnter string pyfloat string pyfloat
  | HResolve string
  | HEscalate string string string
  | HAuthorize string exit_receipt bool
  | HExpire string pyfloat
  | HExpireEscalated string
  | HCheck string "pyfloat option" pyfloat

fun hold_step :: "registry \<Rightarrow> hold_op \<Rightarrow> registry" where
  "hold_step g (HEnter k tau src now) = snd (enter_hold g k tau src now)"
| "hold_step g (HResolve k) = snd (resolve_hold g k)"
| "hold_step g (HEscalate k who now) = snd (escalate_hold g k who now)"
| "hold_step g (HAuthorize k rc a) = snd (authorize_exit g k rc a)"
| "hold_step g (HExpire k now) = snd (expire_hold g k now)"
| "hold_step g (HExpireEscalated k) = snd (expire_escalated g k)"
| "hold_step g (HCheck k ep now) = snd (check_tau_k_expiry g k ep now)"

text \<open>
  What one hold operation can do: nothing, or one legal move of one record from \<open>s\<close> to \<open>t\<close>.
\<close>

definition hold_effect :: "registry \<Rightarrow> registry \<Rightarrow> (op_state \<times> op_state) list \<Rightarrow> bool" where
  "hold_effect g g' allowed \<longleftrightarrow>
     reg_ok g' \<and> durable g' = durable g \<and> q_status g' = q_status g \<and>
     (op_view g' = op_view g \<or>
      (\<exists>k r r'. map_of (op_view g) k = Some r \<and> (op_state r, op_state r') \<in> set allowed \<and>
         op_le r r' \<and> op_view g' = dput k r' (op_view g)))"

lemma get_op_facts:
  assumes "reg_ok g" and "get_op g k = (r, g1)"
  shows "r = map_of (op_view g) k" and "reg_ok g1" and "op_view g1 = op_view g"
    and "q_status g1 = q_status g" and "durable g1 = durable g"
  using assms(2) keeps_load [OF assms(1)] loaded_lookup [OF assms(1)] keeps_status [of g g1]
  by (auto simp: get_op_def Let_def keeps_def q_part_def)

lemma hold_transition_facts:
  assumes ok: "reg_ok g" and t: "hold_transition g k new cs = (res, g')"
    and new: "new \<noteq> RESERVED" "new \<noteq> DISPATCHING"
  shows "reg_ok g' \<and> durable g' = durable g \<and> q_status g' = q_status g \<and>
    (op_view g' = op_view g \<and> (\<forall>p. res \<noteq> Inr (True, p)) \<or>
     (\<exists>r r'. map_of (op_view g) k = Some r \<and> legal_step (op_state r) new \<and> op_state r' = new \<and>
        op_le r r' \<and> op_view g' = dput k r' (op_view g) \<and> res = Inr (True, Some new) \<and>
        hold r' = map_option (fold apply_hold_change cs) (hold r) \<and> (cs \<noteq> [] \<longrightarrow> hold r \<noteq> None)))"
proof -
  obtain q g1 where tr: "transition_to g k new [] None cs False = (q, g1)" by fastforce
  note o = transition_to_outcome [OF ok tr]
  then have ok1: "reg_ok g1" by simp
  show ?thesis
  proof (cases q)
    case (Inl e)
    with t tr o show ?thesis by (auto simp: hold_transition_def refused_def admitted_def)
  next
    case (Inr a)
    obtain b s where a: "a = (b, s)" by (cases a)
    obtain c g2 where c: "get_op g1 k = (c, g2)" by fastforce
    with t tr Inr a have res: "res = Inr (b, map_option op_state c)" "g' = g2"
      by (auto simp: hold_transition_def)
    note f = get_op_facts [OF ok1 c]
    from o Inr a consider "op_view g1 = op_view g" "\<not> b" | "admitted g k new None cs False q g1" "b"
      by (auto simp: refused_def admitted_def)
    then show ?thesis
    proof cases
      case 2
      then show ?thesis using res f o by (auto simp: admitted_def hold_after_def)
    qed (use res f o in auto)
  qed
qed

subsection \<open>What each operation can move\<close>

lemma hold_effect_quiet:
  "reg_ok g' \<Longrightarrow> durable g' = durable g \<Longrightarrow> q_status g' = q_status g \<Longrightarrow> op_view g' = op_view g \<Longrightarrow>
   hold_effect g g' allowed"
  by (simp add: hold_effect_def)

lemma hold_effect_transition:
  assumes ok: "reg_ok g" and v: "op_view g1 = op_view g" "reg_ok g1" "q_status g1 = q_status g" "durable g1 = durable g"
    and t: "hold_transition g1 k new cs = (res, g')" and new: "new \<noteq> RESERVED" "new \<noteq> DISPATCHING"
    and r: "map_of (op_view g) k = Some r" and mem: "(op_state r, new) \<in> set allowed"
  shows "hold_effect g g' allowed"
proof -
  note f = hold_transition_facts [OF v(2) t new]
  then have "op_view g' = op_view g \<or>
    (\<exists>r'. op_state r' = new \<and> op_le r r' \<and> op_view g' = dput k r' (op_view g))"
    using r v(1) by auto
  with f r mem v show ?thesis unfolding hold_effect_def by metis
qed

lemma enter_hold_effect:
  assumes ok: "reg_ok g" and e: "enter_hold g k tau src now = (res, g')"
  shows "hold_effect g g' [(CREATED, HOLD)]"
proof -
  obtain c g1 where c: "get_op g k = (c, g1)" by fastforce
  note f = get_op_facts [OF ok c]
  show ?thesis
  proof (cases "\<exists>r. c = Some r \<and> op_state r = CREATED")
    case False
    with e c have "g' = g1" by (auto simp: enter_hold_def split: option.splits if_splits)
    with f show ?thesis by (auto intro: hold_effect_quiet)
  next
    case True
    then obtain r where r: "c = Some r" "op_state r = CREATED" by blast
    obtain q g2 where t: "transition_to g1 k HOLD [] (Some (new_hold tau src now)) [] False = (q, g2)" by fastforce
    note o = transition_to_outcome [OF f(2) t]
    have eff: "hold_effect g g2 [(CREATED, HOLD)]"
    proof -
      have "op_view g2 = op_view g \<or>
          (\<exists>r'. op_state r' = HOLD \<and> op_le r r' \<and> op_view g2 = dput k r' (op_view g))"
        using o f r by (auto simp: refused_def admitted_def)
      with o f r show ?thesis unfolding hold_effect_def by (metis list.set_intros(1))
    qed
    have g': "g' = g2 \<or> (\<exists>c. get_op g2 k = (c, g'))"
      using e c r t by (auto simp: enter_hold_def Let_def split: sum.splits prod.splits bool.splits)
    have ok2: "reg_ok g2" using o by simp
    show ?thesis
    proof (cases "g' = g2")
      case False
      with g' obtain c2 where "get_op g2 k = (c2, g')" by blast
      from get_op_facts [OF ok2 this] eff show ?thesis by (simp add: hold_effect_def)
    qed (use eff in simp)
  qed
qed

lemma escalate_hold_effect:
  assumes ok: "reg_ok g" and e: "escalate_hold g k who now = (res, g')"
  shows "hold_effect g g' [(HOLD, ESCALATED)]"
proof -
  obtain c g1 where c: "get_op g k = (c, g1)" by fastforce
  note f = get_op_facts [OF ok c]
  show ?thesis
  proof (cases "\<exists>r. c = Some r \<and> op_state r = HOLD")
    case False
    with e c have "g' = g1" by (auto simp: escalate_hold_def split: option.splits if_splits)
    with f show ?thesis by (auto intro: hold_effect_quiet)
  next
    case True
    then obtain r where r: "c = Some r" "op_state r = HOLD" by blast
    from e c r have "hold_transition g1 k ESCALATED
        [(''escalated_at'', HStr now), (''escalated_by'', HStr who), (''exit_reason'', HStr ''escalated'')] = (res, g')"
      by (simp add: escalate_hold_def)
    with f r show ?thesis by (intro hold_effect_transition [OF ok f(3,2,4,5)]) auto
  qed
qed

lemma expire_escalated_effect:
  assumes ok: "reg_ok g" and e: "expire_escalated g k = (res, g')"
  shows "hold_effect g g' [(ESCALATED, UNKNOWN)]"
proof -
  obtain c g1 where c: "get_op g k = (c, g1)" by fastforce
  note f = get_op_facts [OF ok c]
  show ?thesis
  proof (cases "\<exists>r. c = Some r \<and> op_state r = ESCALATED")
    case False
    with e c have "g' = g1" by (auto simp: expire_escalated_def split: option.splits if_splits)
    with f show ?thesis by (auto intro: hold_effect_quiet)
  next
    case True
    then obtain r where r: "c = Some r" "op_state r = ESCALATED" by blast
    from e c r have "hold_transition g1 k UNKNOWN [(''exit_reason'', HStr ''expired_escalated'')] = (res, g')"
      by (simp add: expire_escalated_def)
    with f r show ?thesis by (intro hold_effect_transition [OF ok f(3,2,4,5)]) auto
  qed
qed

lemma check_facts:
  assumes "reg_ok g" and "check_tau_k_expiry g k ep now = (res, g')"
  shows "reg_ok g' \<and> op_view g' = op_view g \<and> q_status g' = q_status g \<and> durable g' = durable g"
proof -
  obtain c g1 where c: "get_op g k = (c, g1)" by fastforce
  with assms(2) have "g' = g1"
    by (auto simp: check_tau_k_expiry_def Let_def split: option.splits if_splits)
  with get_op_facts [OF assms(1) c] show ?thesis by simp
qed

lemma quarantine_is_active_facts:
  assumes "reg_ok g" and "quarantine_is_active g = (b, g1)"
  shows "b = q_active_now g" and "reg_ok g1" and "op_view g1 = op_view g"
    and "q_status g1 = q_status g" and "durable g1 = durable g"
proof -
  obtain m bad g2 where q: "q_read g = ((m, bad), g2)" by (metis surj_pair)
  with assms(2) have "b = mark_active m" "g1 = g2" by (auto simp: quarantine_is_active_def)
  with q_read_facts [OF assms(1) q] q show "b = q_active_now g" "reg_ok g1" "op_view g1 = op_view g"
    "q_status g1 = q_status g" "durable g1 = durable g"
    by (simp_all add: q_active_now_def q_status_def)
qed

text \<open>An operation expires out of \<open>HOLD\<close> only when the check says so.\<close>

lemma expire_hold_cases:
  assumes ok: "reg_ok g" and e: "expire_hold g k now = (res, g')"
  obtains "op_view g' = op_view g" "reg_ok g'" "q_status g' = q_status g" "durable g' = durable g"
      "\<forall>s. res \<noteq> Inr (True, s)"
  | r s rem g2 g3 where "map_of (op_view g) k = Some r" "op_state r = HOLD"
      "check_tau_k_expiry g2 k None now = (Inr (True, s, rem), g3)"
      "reg_ok g2" "op_view g2 = op_view g"
      "reg_ok g3" "op_view g3 = op_view g" "q_status g3 = q_status g" "durable g3 = durable g"
      "hold_transition g3 k FAILED [(''exit_reason'', HStr ''expired'')] = (res, g')"
proof -
  obtain c g1 where c: "get_op g k = (c, g1)" by fastforce
  note f = get_op_facts [OF ok c]
  show thesis
  proof (cases "\<exists>r. c = Some r \<and> op_state r = HOLD")
    case False
    with e c have "g' = g1" "\<forall>s. res \<noteq> Inr (True, s)"
      by (auto simp: expire_hold_def split: option.splits if_splits)
    with f that(1) show thesis by simp
  next
    case True
    then obtain r where r: "c = Some r" "op_state r = HOLD" by blast
    obtain q g2 where q: "check_tau_k_expiry g1 k None now = (q, g2)" by fastforce
    note h = check_facts [OF f(2) q]
    show thesis
    proof (cases "\<exists>s rem. q = Inr (True, s, rem)")
      case False
      with e c r q have "g' = g2" "\<forall>s. res \<noteq> Inr (True, s)"
        by (auto simp: expire_hold_def split: sum.splits if_splits)
      with h f that(1) show thesis by simp
    next
      case True
      then obtain s rem where "q = Inr (True, s, rem)" by blast
      moreover from this e c r q have "hold_transition g2 k FAILED [(''exit_reason'', HStr ''expired'')] = (res, g')"
        by (simp add: expire_hold_def)
      ultimately show thesis using f h r q by (intro that(2) [of r g1 s rem g2]) auto
    qed
  qed
qed

lemma expire_hold_effect:
  assumes ok: "reg_ok g" and e: "expire_hold g k now = (res, g')"
  shows "hold_effect g g' [(HOLD, FAILED)]"
  using ok e
proof (cases rule: expire_hold_cases)
  case (2 r s rem g2 g3)
  then show ?thesis by (intro hold_effect_transition [OF ok 2(7,6,8,9,10)]) auto
qed (simp add: hold_effect_quiet)

lemma authorize_exit_effect:
  assumes ok: "reg_ok g" and e: "authorize_exit g k rc approve = (res, g')"
  shows "hold_effect g g' [(ESCALATED, if approve then HOLD else FAILED)]"
    and "approve \<and> q_active_now g \<Longrightarrow> op_view g' = op_view g"
proof -
  obtain c g1 where c: "get_op g k = (c, g1)" by fastforce
  note f = get_op_facts [OF ok c]
  have "hold_effect g g' [(ESCALATED, if approve then HOLD else FAILED)] \<and>
    (approve \<and> q_active_now g \<longrightarrow> op_view g' = op_view g)"
  proof (cases "\<exists>r. c = Some r \<and> op_state r = ESCALATED")
    case False
    with e c have "g' = g1" by (auto simp: authorize_exit_def split: option.splits if_splits)
    with f show ?thesis by (auto intro: hold_effect_quiet)
  next
    case True
    then obtain r where r: "c = Some r" "op_state r = ESCALATED" by blast
    obtain locked g2 where l: "(if approve then quarantine_is_active g1 else (False, g1)) = (locked, g2)" by fastforce
    have g2: "op_view g2 = op_view g" "reg_ok g2" "q_status g2 = q_status g" "durable g2 = durable g"
      "approve \<longrightarrow> locked = q_active_now g"
    proof -
      have "op_view g2 = op_view g \<and> reg_ok g2 \<and> q_status g2 = q_status g \<and> durable g2 = durable g \<and>
          (approve \<longrightarrow> locked = q_active_now g)"
      proof (cases approve)
        case True
        with l have "quarantine_is_active g1 = (locked, g2)" by simp
        from quarantine_is_active_facts [OF f(2) this] f show ?thesis by (simp add: q_active_now_def)
      next
        case False
        with l f show ?thesis by simp
      qed
      then show "op_view g2 = op_view g" "reg_ok g2" "q_status g2 = q_status g" "durable g2 = durable g"
        "approve \<longrightarrow> locked = q_active_now g" by simp_all
    qed
    show ?thesis
    proof (cases locked)
      case True
      with e c r l have "g' = g2" by (simp add: authorize_exit_def)
      with g2 show ?thesis by (auto intro: hold_effect_quiet)
    next
      case False
      let ?new = "if approve then HOLD else FAILED"
      obtain q g3 where t: "hold_transition g2 k ?new
          [(''exit_receipt'', HReceipt (Some rc)), (''exit_reason'', HStr ''authorized_exit'')] = (q, g3)" by fastforce
      with e c r l False have "g' = g3"
        by (auto simp: authorize_exit_def split: sum.splits)
      moreover have "hold_effect g g3 [(ESCALATED, ?new)]"
        using f r by (intro hold_effect_transition [OF ok g2(1-4) t]) auto
      ultimately show ?thesis using g2(5) False by auto
    qed
  qed
  then show "hold_effect g g' [(ESCALATED, if approve then HOLD else FAILED)]"
    "approve \<and> q_active_now g \<Longrightarrow> op_view g' = op_view g" by auto
qed

definition hold_moves :: "hold_op \<Rightarrow> (op_state \<times> op_state) list" where
  "hold_moves r = (case r of
     HEnter _ _ _ _ \<Rightarrow> [(CREATED, HOLD)]
   | HEscalate _ _ _ \<Rightarrow> [(HOLD, ESCALATED)]
   | HAuthorize _ _ approve \<Rightarrow> [(ESCALATED, if approve then HOLD else FAILED)]
   | HExpire _ _ \<Rightarrow> [(HOLD, FAILED)]
   | HExpireEscalated _ \<Rightarrow> [(ESCALATED, UNKNOWN)]
   | _ \<Rightarrow> [])"

lemma hold_step_effect: "reg_ok g \<Longrightarrow> hold_effect g (hold_step g r) (hold_moves r)"
proof (cases r)
  case (HResolve k)
  assume ok: "reg_ok g"
  obtain c g1 where c: "get_op g k = (c, g1)" by fastforce
  from get_op_facts [OF ok c] c show ?thesis
    by (simp add: HResolve resolve_hold_def hold_effect_quiet)
next
  case (HCheck k ep now)
  assume "reg_ok g"
  from check_facts [OF this surjective_pairing] HCheck show ?thesis by (simp add: hold_effect_quiet)
qed (simp_all add: hold_moves_def enter_hold_effect [OF _ surjective_pairing]
    escalate_hold_effect [OF _ surjective_pairing] authorize_exit_effect(1) [OF _ surjective_pairing]
    expire_hold_effect [OF _ surjective_pairing] expire_escalated_effect [OF _ surjective_pairing])

interpretation hold_frame: machine_frame hold_step reg_ok q_status
  by unfold_locales (use hold_step_effect hold_effect_def in auto)

subsection \<open>Properties\<close>

lemma hold_step_no_live:
  assumes "reg_ok g" and "map_of (op_view (hold_step g r)) k = Some q'"
    and "op_state q' = RESERVED \<or> op_state q' = DISPATCHING \<or> op_state q' = CONFIRMED"
  shows "\<exists>q. map_of (op_view g) k = Some q \<and> op_state q = op_state q'"
  using hold_step_effect [OF assms(1), of r] assms(2,3)
  by (cases r) (auto simp: hold_effect_def hold_moves_def split: if_splits)


lemma expired_transition_succeeds:
  assumes ok: "reg_ok g" and r: "map_of (op_view g) k = Some r" "op_state r = HOLD" "hold r \<noteq> None"
  shows "fst (hold_transition g k FAILED [(''exit_reason'', HStr ''expired'')]) = Inr (True, Some FAILED)"
proof -
  let ?cs = "[(''exit_reason'', HStr ''expired'')]"
  have "hold_changes_check ?cs = None" by (simp add: hold_changes_check_def)
  then have "fst (transition_to g k FAILED [] None ?cs False) = Inr (True, Some HOLD)"
    using r by (simp add: transition_to_def transition_unchecked_def reg_begin_ok [OF ok]
        loaded_lookup [OF ok] transition_record_def)
  then obtain g1 where t: "transition_to g k FAILED [] None ?cs False = (Inr (True, Some HOLD), g1)"
    by (metis prod.collapse)
  from transition_to_outcome [OF ok t] obtain r' where ok1: "reg_ok g1"
    and r': "map_of (op_view g1) k = Some r'" "op_state r' = FAILED"
    by (auto simp: refused_def admitted_def)
  obtain c g2 where c: "get_op g1 k = (c, g2)" by fastforce
  from get_op_facts(1) [OF ok1 c] r' t c show ?thesis by (simp add: hold_transition_def)
qed

text \<open>
  Expiry fails closed and on time. An operation in \<open>HOLD\<close> expires exactly when its bound is
  positive and the float computation of bound minus elapsed time gives at most zero; it is then
  \<open>FAILED\<close>, with the exit reason recorded and its hold clock unchanged.
\<close>

theorem expire_hold_on_time:
  assumes ok: "reg_ok g" and r: "map_of (op_view g) k = Some r" "op_state r = HOLD" "hold r = Some h"
    and start: "hold_start h = Some start" and e: "expire_hold g k now = (res, g')"
  shows "(res = Inr (True, Some FAILED) \<longleftrightarrow>
            \<not> fle (tau_k_seconds h) fzero \<and> fle (fsub (tau_k_seconds h) (fsub now start)) fzero) \<and>
    (case res of
       Inr (True, _) \<Rightarrow>
         (\<exists>r' h'. op_view g' = dput k r' (op_view g) \<and> op_state r' = FAILED \<and> hold r' = Some h' \<and>
            exit_reason h' = ''expired'' \<and> hold_start h' = hold_start h \<and> tau_k_seconds h' = tau_k_seconds h)
     | _ \<Rightarrow> op_view g' = op_view g)"
proof -
  let ?due = "\<not> fle (tau_k_seconds h) fzero \<and> fle (fsub (tau_k_seconds h) (fsub now start)) fzero"
  let ?cs = "[(''exit_reason'', HStr ''expired'')]"
  obtain g1 where c1: "get_op g k = (Some r, g1)" using get_op_facts(1) [OF ok] r by (cases "get_op g k") auto
  note f1 = get_op_facts [OF ok c1]
  obtain g2 where c2: "get_op g1 k = (Some r, g2)"
    using get_op_facts(1) [OF f1(2)] f1(3) r by (cases "get_op g1 k") auto
  note f2 = get_op_facts [OF f1(2) c2]
  have "\<exists>rem. check_tau_k_expiry g1 k None now = (Inr (?due, Some HOLD, rem), g2)"
    using c2 r start by (simp add: check_tau_k_expiry_def pick_epoch_def tau_remaining_def Let_def)
  then obtain rem where ck: "check_tau_k_expiry g1 k None now = (Inr (?due, Some HOLD, rem), g2)" by blast
  show ?thesis
  proof (cases ?due)
    case False
    then have "check_tau_k_expiry g1 k None now = (Inr (False, Some HOLD, rem), g2)" using ck by auto
    with e have "res = Inr (False, Some HOLD) \<and> g' = g2" by (simp add: expire_hold_def c1 r(2))
    moreover have "op_view g2 = op_view g" by (simp only: f2(3) f1(3))
    ultimately show ?thesis using False by auto
  next
    case True
    then have "check_tau_k_expiry g1 k None now = (Inr (True, Some HOLD, rem), g2)" using ck by auto
    with e have t: "hold_transition g2 k FAILED ?cs = (res, g')" by (simp add: expire_hold_def c1 r(2))
    have v2: "map_of (op_view g2) k = Some r" by (simp only: f2(3) f1(3) r(1))
    have res: "res = Inr (True, Some FAILED)"
      using expired_transition_succeeds [OF f2(2) v2 r(2)] r(3) t by simp
    from hold_transition_facts [OF f2(2) t] obtain r0 r' where
      m: "map_of (op_view g2) k = Some r0" "op_state r' = FAILED" "op_view g' = dput k r' (op_view g2)"
        "hold r' = map_option (fold apply_hold_change ?cs) (hold r0)" using res by auto
    with v2 have "r0 = r" by simp
    with m r f1(3) f2(3) have "op_view g' = dput k r' (op_view g)"
      "hold r' = Some (h\<lparr>exit_reason := ''expired''\<rparr>)" by simp_all
    with m(2) res True show ?thesis by simp (intro exI [of _ r'], simp)
  qed
qed

text \<open>As soon as the elapsed float time reaches the bound, the computation is at most zero.\<close>

lemma remaining_nonpos:
  "fsub now start = Fin t \<Longrightarrow> tau \<le> t \<Longrightarrow> fle (fsub (Fin tau) (fsub now start)) fzero"
  by (simp add: fsub_def [of "Fin tau"] fl_nonpos)

definition leaves_escalated :: "hold_op \<Rightarrow> bool" where
  "leaves_escalated r = (case r of HAuthorize _ _ approve \<Rightarrow> True | HExpireEscalated _ \<Rightarrow> True | _ \<Rightarrow> False)"

lemma hold_step_escalated:
  assumes "reg_ok g" and "map_of (op_view g) k = Some q" and "op_state q = ESCALATED"
    and "\<not> leaves_escalated r \<or> q_active_now g \<and> (\<exists>j rc. r = HAuthorize j rc True)"
  shows "\<exists>q'. map_of (op_view (hold_step g r)) k = Some q' \<and> op_state q' = ESCALATED"
proof (cases "\<exists>j rc. r = HAuthorize j rc True")
  case True
  then obtain j rc where "r = HAuthorize j rc True" by blast
  moreover from this assms(4) have "q_active_now g" by (simp add: leaves_escalated_def)
  ultimately show ?thesis
    using authorize_exit_effect(2) [OF assms(1) surjective_pairing, of True j rc] assms(2,3) by simp
next
  case False
  with assms(4) have "\<not> leaves_escalated r" by blast
  with hold_step_effect [OF assms(1), of r] assms(2,3) show ?thesis
    by (cases r) (auto simp: hold_effect_def hold_moves_def leaves_escalated_def)
qed

text \<open>
  Escalation absorbs. While an operation is \<open>ESCALATED\<close>, the hold manager leaves it there
  unless it is asked to authorize its exit or to expire the escalation; under quarantine an
  approving exit does nothing either.
\<close>

theorem escalated_absorbs:
  assumes "reg_ok g" and "map_of (op_view g) k = Some q" and "op_state q = ESCALATED"
    and "\<forall>r \<in> set rs. \<not> leaves_escalated r \<or> q_active_now g \<and> (\<exists>j rc. r = HAuthorize j rc True)"
  shows "\<exists>q'. map_of (op_view (foldl hold_step g rs)) k = Some q' \<and> op_state q' = ESCALATED"
  using assms
proof (induction rs arbitrary: g q)
  case (Cons r rs)
  from hold_step_escalated [OF Cons.prems(1-3), of r] Cons.prems(4) obtain q' where
    q': "map_of (op_view (hold_step g r)) k = Some q'" "op_state q' = ESCALATED" by auto
  have "reg_ok (hold_step g r)" "q_active_now (hold_step g r) = q_active_now g"
    using Cons.prems(1) hold_frame.step_inv hold_frame.step_obs by (auto simp: q_active_now_def)
  with Cons.IH [OF _ q'] Cons.prems(4) show ?case by simp
qed simp

definition created_op :: "string \<Rightarrow> operation" where
  "created_op k =
     \<lparr>idempotency_key = k, passage_id = [], agent_id = [], action_type = [], op_amount = Fin 1,
      op_resource = [], op_state = CREATED, op_created_at = [], op_updated_at = [],
      composed_decision = [], dispatch_claimed_by = [], budget_reserved = False,
      budget_committed = False, hold = None, reservation_id = [], payload_hash = [],
      operation_id = [], institutional_scope = [], payload_digest = [], commit_gate_required = False,
      commit_authorization_request = JNull, commit_authorization_receipt = JNull,
      commit_dispatch_claim_id = [], commit_consumption_receipt = JNull,
      commit_authorization_status = [], commit_consumption_status = [],
      commit_gate_last_reason = [], commit_gate_events = []\<rparr>"

definition new_registry :: registry where
  "new_registry =
     \<lparr>durable = False, records = [(''k'', created_op ''k'')], corrupted = False, q_memory = no_mark,
      disk = \<lparr>store_f = FAbsent, mark_f = QAbsent, q_initialized = False, q_pending = False\<rparr>\<rparr>"

text \<open>
  \<open>expire_escalated\<close> does not look at the clock: an operation held with a bound of an hour
  and escalated at once can be expired to \<open>UNKNOWN\<close> in the same second, although
  \<open>check_tau_k_expiry\<close> says that nothing has expired.
\<close>

theorem expire_escalated_ignores_clock:
  "let g = foldl hold_step new_registry
             [HEnter ''k'' (Fin 3600) [] (Fin 1000), HEscalate ''k'' ''ops'' []]
   in fst (check_tau_k_expiry g ''k'' None (Fin 1001)) = Inr (False, Some ESCALATED, Fin 3599) \<and>
      fst (expire_escalated g ''k'') = Inr (True, Some UNKNOWN)"
  by code_simp

subsection \<open>Concrete runs\<close>

lemma new_registry_ok: "reg_ok new_registry"
  by (simp add: reg_ok_def new_registry_def keyed_def created_op_def)

definition held_registry :: registry where
  "held_registry = foldl hold_step new_registry [HEnter ''k'' (Fin 3600) [] (Fin 1000)]"

lemma held_registry_ok: "reg_ok held_registry"
  unfolding held_registry_def by (rule hold_frame.run_inv [OF new_registry_ok])

lemma held_op:
  "map_of (op_view held_registry) ''k'' =
     Some ((created_op ''k'')\<lparr>op_state := HOLD, hold := Some (new_hold (Fin 3600) [] (Fin 1000))\<rparr>)"
  by code_simp

theorem expire_hold_on_time_witness:
  "fst (expire_hold held_registry ''k'' (Fin 4599)) \<noteq> Inr (True, Some FAILED) \<and>
   fst (expire_hold held_registry ''k'' (Fin 4600)) = Inr (True, Some FAILED)"
proof -
  let ?r = "(created_op ''k'')\<lparr>op_state := HOLD, hold := Some (new_hold (Fin 3600) [] (Fin 1000))\<rparr>"
  have st: "op_state ?r = HOLD" "hold ?r = Some (new_hold (Fin 3600) [] (Fin 1000))"
    "hold_start (new_hold (Fin 3600) [] (Fin 1000)) = Some (Fin 1000)"
    "tau_k_seconds (new_hold (Fin 3600) [] (Fin 1000)) = Fin 3600" by (simp_all add: new_hold_def)
  note * = expire_hold_on_time [OF held_registry_ok held_op st(1-3) surjective_pairing]
  have "\<not> fle (fsub (Fin 3600) (fsub (Fin 4599) (Fin 1000))) fzero"
    "fle (fsub (Fin 3600) (fsub (Fin 4600) (Fin 1000))) fzero" "\<not> fle (Fin 3600) fzero" by code_simp+
  with * [of "Fin 4599"] * [of "Fin 4600"] show ?thesis by (simp add: st(4))
qed


theorem escalated_absorbs_witness:
  "\<exists>q'. map_of (op_view (foldl hold_step (hold_step held_registry (HEscalate ''k'' ''ops'' []))
      [HExpire ''k'' (Fin 9999), HResolve ''k'', HEscalate ''k'' ''x'' []])) ''k'' = Some q' \<and>
     op_state q' = ESCALATED"
proof -
  let ?g = "hold_step held_registry (HEscalate ''k'' ''ops'' [])"
  have ok: "reg_ok ?g" by (rule hold_frame.step_inv [OF held_registry_ok])
  have "map_option op_state (map_of (op_view ?g) ''k'') = Some ESCALATED" by code_simp
  then obtain q where q: "map_of (op_view ?g) ''k'' = Some q" "op_state q = ESCALATED" by auto
  show ?thesis by (rule escalated_absorbs [OF ok q]) (simp add: leaves_escalated_def)
qed

end
