(* ===== verification/Lattice.thy ===== *)
theory Lattice
  imports Py_Json Py_Float Machine
begin

section \<open>Composing the two kernels, and the hash-chained ledger\<close>

text \<open>
  \<open>compose\<close> and \<open>HashChainedLedger\<close> of \<open>tenir_governance/composition/lattice.py\<close>, with the
  decisions of \<open>decisions.py\<close> and the policy of \<open>policy.py\<close>. The explanation \<open>compose\<close>
  returns is a value of \<open>rationale\<close> that carries the data of the text. The digest
  (\<open>sha256\<close> of the canonical JSON text of an entry) is an argument of the ledger's operations.
\<close>

subsection \<open>Decisions and policy\<close>

datatype decision = PASS | FLAG | HOLD | HARD_VETO

fun severity :: "decision \<Rightarrow> nat" where
  "severity PASS = 0"
| "severity FLAG = 1"
| "severity HOLD = 2"
| "severity HARD_VETO = 3"

text \<open>\<open>Decision (s)\<close>: the enumeration member with that value, or a \<open>ValueError\<close>.\<close>

definition decision_of :: "string \<Rightarrow> decision result" where
  "decision_of s =
     (if s = ''PASS'' then Inr PASS else if s = ''FLAG'' then Inr FLAG
      else if s = ''HOLD'' then Inr HOLD else if s = ''HARD_VETO'' then Inr HARD_VETO
      else Inl ValueError)"

fun decision_str :: "decision \<Rightarrow> string" where
  "decision_str PASS = ''PASS''"
| "decision_str FLAG = ''FLAG''"
| "decision_str HOLD = ''HOLD''"
| "decision_str HARD_VETO = ''HARD_VETO''"

record composition_policy =
  policy_version :: string
  budget_escalation_threshold :: pyfloat
  fail_closed_on_error :: bool
  retain_all_reasons :: bool
  revalidate_budget_at_dispatch :: bool

text \<open>The default threshold is the float nearest to 0.85.\<close>

definition default_policy :: composition_policy where
  "default_policy =
     \<lparr>policy_version = ''composition-v1.0.0'',
      budget_escalation_threshold = Fin (7656119366529843 / 9007199254740992),
      fail_closed_on_error = True, retain_all_reasons = True, revalidate_budget_at_dispatch = True\<rparr>"

text \<open>The condition \<open>validate\<close> asserts.\<close>

definition policy_valid :: "composition_policy \<Rightarrow> bool" where
  "policy_valid p \<longleftrightarrow>
     fle fzero (budget_escalation_threshold p) \<and> fle (budget_escalation_threshold p) (Fin 1)"

subsection \<open>The lattice\<close>

datatype reason = ScoringConclusive | MembraneViolated | MembraneHoldRetained | ScoringHoldRetained

datatype kernel_name = Scoring | Membrane

datatype rationale =
    BothMissing
  | MembraneVetoScoringMissing
  | ScoringMissing
  | ScoringVetoMembraneMissing
  | MembraneMissing
  | Blocked "reason list"
  | MembraneHold
  | FlagIndeterminate kernel_name
  | FlagEscalated kernel_name pyfloat pyfloat
  | BothFlag
  | KernelFlag kernel_name
  | BothPassed

definition compose ::
  "string option \<Rightarrow> string option \<Rightarrow> pyfloat option \<Rightarrow> bool \<Rightarrow> composition_policy option \<Rightarrow>
   (decision \<times> rationale) result" where
  "compose scoring membrane utilization in_scope policy =
     (let p = (case policy of None \<Rightarrow> default_policy | Some p \<Rightarrow> p) in
      case (scoring, membrane) of
        (None, None) \<Rightarrow> Inr (HOLD, BothMissing)
      | (None, Some ms) \<Rightarrow>
          bindE (decision_of ms) (\<lambda>m.
            Inr (if m = HARD_VETO then (HARD_VETO, MembraneVetoScoringMissing) else (HOLD, ScoringMissing)))
      | (Some ss, None) \<Rightarrow>
          bindE (decision_of ss) (\<lambda>s.
            Inr (if s = HARD_VETO then (HARD_VETO, ScoringVetoMembraneMissing) else (HOLD, MembraneMissing)))
      | (Some ss, Some ms) \<Rightarrow>
          bindE (decision_of ss) (\<lambda>s. bindE (decision_of ms) (\<lambda>m. Inr
            (if s = HARD_VETO \<or> m = HARD_VETO then
               (HARD_VETO, Blocked
                  ((if s = HARD_VETO then [ScoringConclusive] else []) @
                   (if m = HARD_VETO then [MembraneViolated] else []) @
                   (if m = HOLD then [MembraneHoldRetained] else []) @
                   (if s = HOLD then [ScoringHoldRetained] else [])))
             else if m = HOLD then (HOLD, MembraneHold)
             else
               (let flagged = (s = FLAG \<or> m = FLAG);
                    source = (if s = FLAG then Scoring else Membrane);
                    threshold = budget_escalation_threshold p
                in if flagged \<and> in_scope \<and> utilization = None then (HOLD, FlagIndeterminate source)
                   else if flagged \<and> (case utilization of None \<Rightarrow> False | Some u \<Rightarrow> fle threshold u)
                   then (HOLD, FlagEscalated source (the utilization) threshold)
                   else if flagged then
                     (if s = FLAG \<and> m = FLAG then (FLAG, BothFlag)
                      else if s = FLAG then (FLAG, KernelFlag Scoring) else (FLAG, KernelFlag Membrane))
                   else (PASS, BothPassed))))))"

text \<open>Is the budget measurement bad news for a flagged action?\<close>

definition near_limit :: "pyfloat option \<Rightarrow> bool \<Rightarrow> composition_policy option \<Rightarrow> bool" where
  "near_limit utilization in_scope policy \<longleftrightarrow>
     (case utilization of
        None \<Rightarrow> in_scope
      | Some u \<Rightarrow>
          fle (budget_escalation_threshold (case policy of None \<Rightarrow> default_policy | Some p \<Rightarrow> p)) u)"

lemma decision_of_str [simp]: "decision_of (decision_str d) = Inr d"
  by (cases d) (simp_all add: decision_of_def)

lemma decision_of_Inr: "decision_of s = Inr d \<longleftrightarrow> s = decision_str d"
  by (cases d) (auto simp: decision_of_def split: if_splits)

text \<open>
  The composed decision of two present decisions, in full: a veto of either kernel wins,
  then a hold of the membrane; otherwise a flag of either kernel becomes a hold when the budget
  is near its limit or cannot be measured, and a flag when it is not; and everything else passes.
\<close>

theorem compose_table:
  "map_sum id fst (compose (Some (decision_str s)) (Some (decision_str m)) u sc pol) =
     Inr (if s = HARD_VETO \<or> m = HARD_VETO then HARD_VETO
          else if m = HOLD then HOLD
          else if s = FLAG \<or> m = FLAG then (if near_limit u sc pol then HOLD else FLAG)
          else PASS)"
  by (cases u) (auto simp: compose_def near_limit_def Let_def)

text \<open>
  Composition fails closed: when a kernel returned nothing, the outcome is a hold, or a veto
  if the other kernel vetoes, and never permits execution.
\<close>

theorem compose_fails_closed:
  assumes "s = None \<or> m = None" and "compose s m u sc pol = Inr (d, r)"
  shows "d = HOLD \<or> d = HARD_VETO \<and> (s = Some ''HARD_VETO'' \<or> m = Some ''HARD_VETO'')"
  using assms by (auto simp: compose_def Let_def bindE_Inr_conv decision_of_Inr
      split: option.splits if_splits)

text \<open>
  A scoring hold is dropped. With a passing membrane the composed decision of a scoring hold
  is a pass, and with a flagging one at most a flag, although a hold means "do not execute yet".
\<close>

theorem scoring_hold_dropped:
  "map_sum id fst (compose (Some ''HOLD'') (Some ''PASS'') u sc pol) = Inr PASS \<and>
   (\<not> near_limit u sc pol \<longrightarrow>
     map_sum id fst (compose (Some ''HOLD'') (Some ''FLAG'') u sc pol) = Inr FLAG)"
  by (cases u) (auto simp: compose_def near_limit_def Let_def decision_of_def)

theorem scoring_hold_dropped_witness:
  "map_sum id fst (compose (Some ''HOLD'') (Some ''FLAG'') (Some (Fin (1 / 2))) True None) = Inr FLAG"
proof -
  have "\<not> near_limit (Some (Fin (1 / 2))) True None" by code_simp
  with scoring_hold_dropped [of "Some (Fin (1 / 2))" True None] show ?thesis by simp
qed

theorem compose_fails_closed_witness:
  "\<exists>d r. compose None (Some ''PASS'') None False None = Inr (d, r) \<and> d \<noteq> PASS \<and> d \<noteq> FLAG"
proof -
  have c: "compose None (Some ''PASS'') None False None = Inr (HOLD, ScoringMissing)" by code_simp
  from compose_fails_closed [OF _ c] c show ?thesis by auto
qed

subsection \<open>The ledger\<close>

record ledger_entry =
  entry_id :: string
  timestamp :: string
  previous_hash :: string
  chain_hash :: string
  kernel :: string
  decision_text :: string
  rationale_text :: string
  le_passage_id :: string
  le_idempotency_key :: string
  scoring_result :: json
  membrane_result :: json
  le_composed :: string

record ledger =
  entries :: "ledger_entry list"
  last_hash :: string

definition genesis :: string where
  "genesis = ''GENESIS''"

definition ledger_init :: ledger where
  "ledger_init = \<lparr>entries = [], last_hash = genesis\<rparr>"

text \<open>The document that is serialized and hashed.\<close>

definition payload :: "ledger_entry \<Rightarrow> json" where
  "payload e =
     JObj [(''kernel'', JStr (kernel e)), (''decision'', JStr (decision_text e)),
           (''rationale'', JStr (rationale_text e)), (''passage_id'', JStr (le_passage_id e)),
           (''idempotency_key'', JStr (le_idempotency_key e)),
           (''previous_hash'', JStr (previous_hash e)), (''timestamp'', JStr (timestamp e)),
           (''scoring_result'', scoring_result e), (''membrane_result'', membrane_result e),
           (''composed_decision'', JStr (le_composed e))]"

text \<open>\<open>result or {}\<close>: nothing and the empty object become the empty object.\<close>

definition or_empty :: "json option \<Rightarrow> json" where
  "or_empty j = (case j of None \<Rightarrow> JObj [] | Some v \<Rightarrow> v)"

text \<open>The identifier and the clock an append reads are arguments.\<close>

record append_args =
  a_id :: string
  a_time :: string
  a_kernel :: string
  a_decision :: string
  a_rationale :: string
  a_passage :: string
  a_key :: string
  a_scoring :: "json option"
  a_membrane :: "json option"
  a_composed :: string

definition new_entry :: "(json \<Rightarrow> string) \<Rightarrow> string \<Rightarrow> append_args \<Rightarrow> ledger_entry" where
  "new_entry digest prev a =
     (let e = \<lparr>entry_id = a_id a, timestamp = a_time a, previous_hash = prev, chain_hash = [],
               kernel = a_kernel a, decision_text = a_decision a, rationale_text = a_rationale a,
               le_passage_id = a_passage a, le_idempotency_key = a_key a,
               scoring_result = or_empty (a_scoring a), membrane_result = or_empty (a_membrane a),
               le_composed = a_composed a\<rparr>
      in e\<lparr>chain_hash := digest (payload e)\<rparr>)"

definition ledger_append :: "(json \<Rightarrow> string) \<Rightarrow> ledger \<Rightarrow> append_args \<Rightarrow> ledger" where
  "ledger_append digest l a =
     (let e = new_entry digest (last_hash l) a
      in l\<lparr>entries := entries l @ [e], last_hash := chain_hash e\<rparr>)"

text \<open>The loop of \<open>verify_chain\<close>.\<close>

fun verify_from :: "(json \<Rightarrow> string) \<Rightarrow> string \<Rightarrow> ledger_entry list \<Rightarrow> bool" where
  "verify_from digest prev [] = True"
| "verify_from digest prev (e # es) =
     (if previous_hash e \<noteq> prev then False
      else if chain_hash e \<noteq> digest (payload e) then False
      else verify_from digest (chain_hash e) es)"

definition verify_chain :: "(json \<Rightarrow> string) \<Rightarrow> ledger \<Rightarrow> bool" where
  "verify_chain digest l = verify_from digest genesis (entries l)"

definition find_by_idempotency_key :: "ledger \<Rightarrow> string \<Rightarrow> ledger_entry list" where
  "find_by_idempotency_key l k = filter (\<lambda>e. le_idempotency_key e = k) (entries l)"

definition final_hash :: "ledger_entry list \<Rightarrow> string" where
  "final_hash es = (if es = [] then genesis else chain_hash (last es))"

lemma payload_chain_hash [simp]: "payload (e\<lparr>chain_hash := h\<rparr>) = payload e"
  by (simp add: payload_def)

lemma payload_entry_id [simp]: "payload (e\<lparr>entry_id := i\<rparr>) = payload e"
  by (simp add: payload_def)

lemma verify_from_append:
  "verify_from digest prev (es @ fs) \<longleftrightarrow>
     verify_from digest prev es \<and> verify_from digest (if es = [] then prev else chain_hash (last es)) fs"
  by (induction es arbitrary: prev) auto

lemma new_entry_facts:
  "previous_hash (new_entry digest prev a) = prev"
  "chain_hash (new_entry digest prev a) = digest (payload (new_entry digest prev a))"
  by (simp_all add: new_entry_def Let_def payload_def)

definition ledger_ok :: "(json \<Rightarrow> string) \<Rightarrow> ledger \<Rightarrow> bool" where
  "ledger_ok digest l \<longleftrightarrow> verify_chain digest l \<and> last_hash l = final_hash (entries l)"

lemma ledger_append_ok: "ledger_ok digest l \<Longrightarrow> ledger_ok digest (ledger_append digest l a)"
  by (auto simp: ledger_ok_def verify_chain_def ledger_append_def Let_def verify_from_append
      final_hash_def new_entry_facts split: if_splits)

text \<open>Appending only ever extends the list of entries.\<close>

definition ledger_le :: "ledger \<Rightarrow> ledger \<Rightarrow> bool" where
  "ledger_le l l' \<longleftrightarrow> (\<exists>es. entries l' = entries l @ es)"

interpretation chain: machine_order "ledger_append digest" "ledger_ok digest" ledger_le
  for digest
  by unfold_locales
    (auto simp: ledger_append_ok ledger_le_def, auto simp: ledger_append_def Let_def)

text \<open>
  The ledger is append-only and verifiable: after any sequence of appends, for any digest
  function, the chain verifies and the entries of every earlier moment are still its beginning.
\<close>

theorem ledger_append_only:
  "verify_chain digest (foldl (ledger_append digest) ledger_init as) \<and>
   (\<exists>es. entries (foldl (ledger_append digest) ledger_init (as @ bs)) =
          entries (foldl (ledger_append digest) ledger_init as) @ es)"
proof -
  have ok: "ledger_ok digest ledger_init"
    by (simp add: ledger_ok_def ledger_init_def verify_chain_def final_hash_def)
  have a: "ledger_ok digest (foldl (ledger_append digest) ledger_init as)" by (rule chain.run_inv [OF ok])
  from chain.run_le [OF a, of bs] a show ?thesis by (simp add: ledger_ok_def ledger_le_def)
qed

text \<open>
  Two chains that verify and end in the same hash hold the same hashed documents, when no two
  of their documents collide and no document has the genesis value for its digest.
\<close>

lemma same_end_same_payloads:
  assumes "verify_from digest genesis es" and "verify_from digest genesis fs"
    and "final_hash es = final_hash fs"
    and "inj_on digest (payload ` (set es \<union> set fs))"
    and "genesis \<notin> digest ` payload ` (set es \<union> set fs)"
  shows "map payload es = map payload fs"
  using assms
proof (induction es arbitrary: fs rule: rev_induct)
  case Nil
  show ?case
  proof (cases fs rule: rev_cases)
    case (snoc gs f)
    with Nil have "chain_hash f = digest (payload f)" "chain_hash f = genesis"
      by (auto simp: verify_from_append final_hash_def split: if_splits)
    with Nil(5) snoc show ?thesis by (auto simp: image_iff)
  qed simp
next
  case (snoc e es)
  have e: "chain_hash e = digest (payload e)" "previous_hash e = final_hash es" "verify_from digest genesis es"
    using snoc.prems(1) by (auto simp: verify_from_append final_hash_def split: if_splits)
  show ?case
  proof (cases "fs = []")
    case True
    with snoc.prems e show ?thesis by (auto simp: final_hash_def image_iff)
  next
    case False
    then obtain gs f where fs: "fs = gs @ [f]" by (metis rev_exhaust)
    have f: "chain_hash f = digest (payload f)" "previous_hash f = final_hash gs" "verify_from digest genesis gs"
      using snoc.prems(2) fs by (auto simp: verify_from_append final_hash_def split: if_splits)
    have "digest (payload e) = digest (payload f)"
      using snoc.prems(3) fs e f by (simp add: final_hash_def)
    then have pe: "payload e = payload f"
      by (rule inj_onD [OF snoc.prems(4)]) (use fs in auto)
    then have "previous_hash e = previous_hash f" by (simp add: payload_def)
    with e f have "final_hash es = final_hash gs" by simp
    moreover have "inj_on digest (payload ` (set es \<union> set gs))"
      by (rule inj_on_subset [OF snoc.prems(4)]) (use fs in auto)
    moreover have "genesis \<notin> digest ` payload ` (set es \<union> set gs)" using snoc.prems(5) fs by auto
    ultimately have "map payload es = map payload gs" using snoc.IH [OF e(3) f(3)] by simp
    with pe fs show ?thesis by simp
  qed
qed


text \<open>
  What \<open>verify_chain\<close> does not notice: a ledger cut off at any point still verifies, since
  the last hash is not compared, and so does one whose entry identifiers were rewritten.
\<close>

theorem truncation_undetected:
  assumes "verify_chain digest l"
  shows "verify_chain digest (l\<lparr>entries := take n (entries l)\<rparr>) \<and>
         verify_chain digest (l\<lparr>entries := map (entry_id_update f) (entries l)\<rparr>)"
proof -
  have "verify_from digest genesis (take n (entries l) @ drop n (entries l))"
    using assms by (simp add: verify_chain_def)
  then have "verify_from digest genesis (take n (entries l))" by (simp only: verify_from_append)
  moreover have "verify_from digest prev (map (entry_id_update f) es) = verify_from digest prev es" for prev es
    by (induction es arbitrary: prev) (auto simp: payload_def)
  ultimately show ?thesis using assms by (simp add: verify_chain_def)
qed

subsection \<open>Concrete ledgers\<close>

text \<open>A digest that separates small documents: the length of the rationale.\<close>

definition toy_digest :: "json \<Rightarrow> string" where
  "toy_digest j = (case j of JObj d \<Rightarrow> (case map_of d ''rationale'' of Some (JStr s) \<Rightarrow> CHR ''x'' # s | _ \<Rightarrow> []) | _ \<Rightarrow> [])"

definition toy_args :: "string \<Rightarrow> append_args" where
  "toy_args r =
     \<lparr>a_id = ''1'', a_time = ''t'', a_kernel = ''scoring'', a_decision = ''PASS'', a_rationale = r,
      a_passage = ''p'', a_key = ''k'', a_scoring = None, a_membrane = None, a_composed = ''PASS''\<rparr>"

definition toy_ledger :: ledger where
  "toy_ledger = foldl (ledger_append toy_digest) ledger_init [toy_args ''a'', toy_args ''b'']"

lemma toy_ledger_ok: "ledger_ok toy_digest toy_ledger"
  unfolding toy_ledger_def
  by (rule chain.run_inv) (simp add: ledger_ok_def ledger_init_def verify_chain_def final_hash_def)


theorem truncation_undetected_witness:
  "verify_chain toy_digest (toy_ledger\<lparr>entries := take 1 (entries toy_ledger)\<rparr>)"
  using truncation_undetected [of toy_digest toy_ledger 1] toy_ledger_ok by (simp add: ledger_ok_def)

end
