(* ===== verification/Linearizability.thy ===== *)
theory Linearizability
  imports Complex_Main Machine "HOL-Library.Multiset"
begin

section \<open>The linearizability checker and its sequential specification\<close>

text \<open>
  \<open>LinearizabilityChecker\<close> and \<open>consensus_sequential_spec\<close> of
  \<open>tenir_governance/operations/linearizability_checker.py\<close>. The sequential specification the
  checker is given is an argument: it returns a new state and a result, or raises (\<open>None\<close>);
  the deep copies the code makes of the state are what a function of the state is anyway. The
  recursive search is the code's: candidates in list order, the first success wins. Operations
  are told apart by their position in the history, as by object identity in the code.
\<close>

subsection \<open>Python values\<close>

datatype pyv =
    VNone
  | VBool bool
  | VNum rat
  | VStr string
  | VList "pyv list"
  | VTuple "pyv list"
  | VDict "(string \<times> pyv) list"

definition as_num :: "pyv \<Rightarrow> rat option" where
  "as_num v = (case v of VNum x \<Rightarrow> Some x | VBool b \<Rightarrow> Some (if b then 1 else 0) | _ \<Rightarrow> None)"

lemma size_zip_value [termination_simp]:
  "(a, b) \<in> set (zip xs ys) \<Longrightarrow> size a < Suc (size_list size xs)"
  by (auto dest!: set_zip_leftD size_list_estimation' [of _ _ "size a" size] simp: less_Suc_eq_le)

text \<open>Python's \<open>==\<close>: numbers by value, \<open>True\<close> and \<open>False\<close> as 1 and 0, dictionaries by their members.\<close>

fun py_eq :: "pyv \<Rightarrow> pyv \<Rightarrow> bool" where
  "py_eq (VList xs) (VList ys) = (length xs = length ys \<and> list_all (\<lambda>(x, y). py_eq x y) (zip xs ys))"
| "py_eq (VTuple xs) (VTuple ys) = (length xs = length ys \<and> list_all (\<lambda>(x, y). py_eq x y) (zip xs ys))"
| "py_eq (VDict d) (VDict e) =
     (length d = length e \<and>
      list_all (\<lambda>(k, v). case map_of e k of None \<Rightarrow> False | Some w \<Rightarrow> py_eq v w) d)"
| "py_eq v w = (case (as_num v, as_num w) of
     (Some x, Some y) \<Rightarrow> x = y
   | (None, None) \<Rightarrow> v = w
   | _ \<Rightarrow> False)"

subsection \<open>Histories\<close>

record lop =
  l_op :: string
  l_args :: "pyv list"
  l_client :: int
  l_inv :: int
  l_resp :: "(pyv \<times> int) option"

definition resp_event :: "lop \<Rightarrow> int" where
  "resp_event x = snd (the (l_resp x))"

definition resp_result :: "lop \<Rightarrow> pyv" where
  "resp_result x = fst (the (l_resp x))"

text \<open>\<open>_build_precedence\<close>: the positions of the operations that completed before one started.\<close>

definition build_precedence :: "lop list \<Rightarrow> nat \<Rightarrow> nat list" where
  "build_precedence ops j =
     filter (\<lambda>i. i \<noteq> j \<and> resp_event (ops ! i) < l_inv (ops ! j)) [0..<length ops]"

subsection \<open>Matching results\<close>

type_synonym aliases = "(string, pyv) dict"

text \<open>One member of the expected result against the actual one, binding reservation identifiers.\<close>

definition match_member :: "(string \<times> pyv) list \<Rightarrow> string \<times> pyv \<Rightarrow> aliases \<Rightarrow> aliases option" where
  "match_member actual kv al =
     (let (key, value) = kv in
      if key = ''reservation_id'' then
        (case map_of actual key of
           Some (VStr actual_id) \<Rightarrow>
             if actual_id = [] then None
             else if (case map_of al actual_id of
                        None \<Rightarrow> False | Some VNone \<Rightarrow> False | Some m \<Rightarrow> \<not> py_eq m value)
             then None
             else if list_ex (\<lambda>(concrete, m). py_eq m value \<and> concrete \<noteq> actual_id) al then None
             else Some (dput actual_id value al)
         | _ \<Rightarrow> None)
      else case map_of actual key of
             None \<Rightarrow> None
           | Some w \<Rightarrow> if py_eq w value then Some al else None)"

fun match_members :: "(string \<times> pyv) list \<Rightarrow> (string \<times> pyv) list \<Rightarrow> aliases \<Rightarrow> aliases option" where
  "match_members actual [] al = Some al"
| "match_members actual (kv # kvs) al =
     (case match_member actual kv al of None \<Rightarrow> None | Some al' \<Rightarrow> match_members actual kvs al')"

fun results_match :: "pyv \<Rightarrow> pyv \<Rightarrow> aliases \<Rightarrow> aliases option" where
  "results_match (VDict expected) (VDict actual) al = match_members actual expected al"
| "results_match expected actual al = (if py_eq expected actual then Some al else None)"

text \<open>The first argument of these operations is a reservation identifier.\<close>

definition alias_args :: "string \<Rightarrow> pyv list \<Rightarrow> aliases \<Rightarrow> pyv list" where
  "alias_args name args al =
     (if name \<in> {''commit'', ''release'', ''reconcile_commit'', ''reconcile_release''}
      then (case args of
              VStr s # rest \<Rightarrow> (case map_of al s of None \<Rightarrow> args | Some m \<Rightarrow> m # rest)
            | _ \<Rightarrow> args)
      else args)"

subsection \<open>The search\<close>

type_synonym 's spec = "string \<Rightarrow> 's \<Rightarrow> pyv list \<Rightarrow> ('s \<times> pyv) option"

text \<open>One candidate applied: the new state and aliases, when the specification explains its result.\<close>

definition apply_op :: "'s spec \<Rightarrow> lop \<Rightarrow> 's \<times> aliases \<Rightarrow> ('s \<times> aliases) option" where
  "apply_op spec x sa =
     (let (st, al) = sa in
      case spec (l_op x) st (alias_args (l_op x) (l_args x) al) of
        None \<Rightarrow> None
      | Some (st', expected) \<Rightarrow>
          map_option (\<lambda>al'. (st', al')) (results_match expected (resp_result x) al))"

definition eligible :: "(nat \<Rightarrow> nat list) \<Rightarrow> nat list \<Rightarrow> nat \<Rightarrow> bool" where
  "eligible prec lin j \<longleftrightarrow> set (prec j) \<subseteq> set lin"

text \<open>
  \<open>_search\<close> and the body of its loop: \<open>lin\<close> holds the positions linearized so far, \<open>rem\<close> the
  positions left, \<open>i\<close> the loop index.
\<close>

function
  search :: "'s spec \<Rightarrow> lop list \<Rightarrow> (nat \<Rightarrow> nat list) \<Rightarrow> nat list \<Rightarrow> nat list \<Rightarrow> 's \<times> aliases \<Rightarrow> nat list option" and
  scan :: "'s spec \<Rightarrow> lop list \<Rightarrow> (nat \<Rightarrow> nat list) \<Rightarrow> nat list \<Rightarrow> nat list \<Rightarrow> 's \<times> aliases \<Rightarrow> nat \<Rightarrow> nat list option" where
  "search spec ops prec lin rem sa =
     (if rem = [] then Some lin else scan spec ops prec lin rem sa 0)"
| "scan spec ops prec lin rem sa i =
     (if length rem \<le> i then None
      else
        (let j = rem ! i;
             attempt =
               (if eligible prec lin j then
                  (case apply_op spec (ops ! j) sa of
                     None \<Rightarrow> None
                   | Some sa' \<Rightarrow> search spec ops prec (lin @ [j]) (take i rem @ drop (Suc i) rem) sa')
                else None)
         in case attempt of Some r \<Rightarrow> Some r | None \<Rightarrow> scan spec ops prec lin rem sa (Suc i)))"
  by pat_completeness auto

termination
  by (relation "measures
      [\<lambda>x. case x of Inl (_, _, _, _, rem, _) \<Rightarrow> 2 * length rem + 1
                   | Inr (_, _, _, _, rem, _, _) \<Rightarrow> 2 * length rem,
       \<lambda>x. case x of Inl _ \<Rightarrow> 0 | Inr (_, _, _, _, rem, _, i) \<Rightarrow> length rem - i]") auto

declare search.simps [simp del] scan.simps [simp del]

text \<open>\<open>check\<close>: \<open>None\<close> for "not linearizable", otherwise the linearization found.\<close>

definition check :: "'s spec \<Rightarrow> 's \<Rightarrow> lop list \<Rightarrow> lop list option" where
  "check spec init operations =
     (let completed = filter (\<lambda>x. l_resp x \<noteq> None) operations in
      map_option (map ((!) completed))
        (search spec completed (build_precedence completed) [] [0..<length completed] (init, [])))"

subsection \<open>The sequential specification of the consensus backend\<close>

record srec =
  s_key :: pyv
  s_amount :: pyv
  s_state :: string

record spec_state =
  s_capacity :: rat
  s_reserved :: rat
  s_consumed :: rat
  s_reservations :: "(string, srec) dict"

definition spec_init :: spec_state where
  "spec_init = \<lparr>s_capacity = 100, s_reserved = 0, s_consumed = 0, s_reservations = []\<rparr>"

definition st_dict :: "string \<Rightarrow> pyv" where
  "st_dict s = VDict [(''status'', VStr s)]"

definition spec_reserve :: "spec_state \<Rightarrow> pyv \<Rightarrow> pyv \<Rightarrow> (spec_state \<times> pyv) option" where
  "spec_reserve st key amount =
     (case find (\<lambda>(rid, r). py_eq (s_key r) key) (s_reservations st) of
        Some (rid, r) \<Rightarrow>
          Some (st, if py_eq (s_amount r) amount
                    then VDict [(''status'', VStr ''RESERVED''), (''reservation_id'', VStr rid)]
                    else st_dict ''DUPLICATE_KEY'')
      | None \<Rightarrow>
        (case as_num amount of
           None \<Rightarrow> None
         | Some x \<Rightarrow>
           if s_capacity st - s_reserved st - s_consumed st < x
           then Some (st, st_dict ''INSUFFICIENT_BUDGET'')
           else
             (let rid = ''res-'' @ nat_str (length (s_reservations st)) in
              Some (st\<lparr>s_reservations :=
                         dput rid \<lparr>s_key = key, s_amount = amount, s_state = ''RESERVED''\<rparr> (s_reservations st),
                       s_reserved := s_reserved st + x\<rparr>,
                    VDict [(''status'', VStr ''RESERVED''), (''reservation_id'', VStr rid)]))))"

definition spec_commit :: "spec_state \<Rightarrow> string \<Rightarrow> (spec_state \<times> pyv) option" where
  "spec_commit st rid =
     (case map_of (s_reservations st) rid of
        None \<Rightarrow> Some (st, st_dict ''NOT_FOUND'')
      | Some r \<Rightarrow>
        if s_state r = ''COMMITTED'' then Some (st, st_dict ''ALREADY_COMMITTED'')
        else if s_state r \<noteq> ''RESERVED'' then Some (st, st_dict ''INVALID_STATE'')
        else case as_num (s_amount r) of
          None \<Rightarrow> None
        | Some x \<Rightarrow>
            Some (st\<lparr>s_reserved := s_reserved st - x, s_consumed := s_consumed st + x,
                     s_reservations := dput rid (r\<lparr>s_state := ''COMMITTED''\<rparr>) (s_reservations st)\<rparr>,
                  st_dict ''COMMITTED''))"

definition spec_release :: "spec_state \<Rightarrow> string \<Rightarrow> (spec_state \<times> pyv) option" where
  "spec_release st rid =
     (case map_of (s_reservations st) rid of
        None \<Rightarrow> Some (st, st_dict ''NOT_FOUND'')
      | Some r \<Rightarrow>
        if s_state r = ''COMMITTED'' then Some (st, st_dict ''ALREADY_COMMITTED'')
        else if s_state r \<noteq> ''RESERVED'' then Some (st, st_dict ''INVALID_STATE'')
        else case as_num (s_amount r) of
          None \<Rightarrow> None
        | Some x \<Rightarrow>
            Some (st\<lparr>s_reserved := s_reserved st - x,
                     s_reservations := dput rid (r\<lparr>s_state := ''RELEASED''\<rparr>) (s_reservations st)\<rparr>,
                  st_dict ''RELEASED''))"

definition spec_reconcile :: "spec_state \<Rightarrow> pyv \<Rightarrow> (spec_state \<times> pyv) option" where
  "spec_reconcile st key =
     (case find (\<lambda>(rid, r). py_eq (s_key r) key \<and> (s_state r = ''UNKNOWN'' \<or> s_state r = ''RESERVED''))
             (s_reservations st) of
        None \<Rightarrow> Some (st, st_dict ''NOT_FOUND'')
      | Some (rid, r) \<Rightarrow>
        (case as_num (s_amount r) of
           None \<Rightarrow> None
         | Some x \<Rightarrow>
             Some (st\<lparr>s_reserved := s_reserved st - x, s_consumed := s_consumed st + x,
                      s_reservations := dput rid (r\<lparr>s_state := ''COMMITTED''\<rparr>) (s_reservations st)\<rparr>,
                   VDict [(''status'', VStr ''CONFIRMED''), (''effect_observed'', VBool True)])))"

definition consensus_sequential_spec :: "spec_state spec" where
  "consensus_sequential_spec name st args =
     (if name = ''reserve'' then
        (case args of [key, amount, resource] \<Rightarrow> spec_reserve st key amount | _ \<Rightarrow> None)
      else if name = ''commit'' then
        (case args of VStr rid # _ \<Rightarrow> spec_commit st rid | [] \<Rightarrow> None
         | VList _ # _ \<Rightarrow> None | VDict _ # _ \<Rightarrow> None | _ \<Rightarrow> Some (st, st_dict ''NOT_FOUND''))
      else if name = ''release'' then
        (case args of VStr rid # _ \<Rightarrow> spec_release st rid | [] \<Rightarrow> None
         | VList _ # _ \<Rightarrow> None | VDict _ # _ \<Rightarrow> None | _ \<Rightarrow> Some (st, st_dict ''NOT_FOUND''))
      else if name = ''reconcile'' then
        (case args of key # _ \<Rightarrow> spec_reconcile st key | [] \<Rightarrow> None)
      else if name = ''get_state'' then
        Some (st, VDict [(''available'', VNum (s_capacity st - s_reserved st - s_consumed st)),
                         (''reserved'', VNum (s_reserved st)), (''consumed'', VNum (s_consumed st)),
                         (''capacity'', VNum (s_capacity st))])
      else Some (st, st_dict ''ERROR''))"

subsection \<open>The search is sound and complete\<close>

text \<open>
  What the search looks for: an order of the operations the specification explains one after
  the other, and in which an operation that completed before another one started comes first.
\<close>

fun explains :: "'s spec \<Rightarrow> lop list \<Rightarrow> 's \<times> aliases \<Rightarrow> bool" where
  "explains spec [] sa = True"
| "explains spec (x # xs) sa =
     (case apply_op spec x sa of None \<Rightarrow> False | Some sa' \<Rightarrow> explains spec xs sa')"

definition real_time :: "lop list \<Rightarrow> nat list \<Rightarrow> bool" where
  "real_time ops js \<longleftrightarrow>
     (\<forall>p < length js. \<forall>q < length js. p \<noteq> q \<longrightarrow>
        resp_event (ops ! (js ! q)) < l_inv (ops ! (js ! p)) \<longrightarrow> q < p)"

definition linearization :: "'s spec \<Rightarrow> 's \<Rightarrow> lop list \<Rightarrow> nat list \<Rightarrow> bool" where
  "linearization spec init ops js \<longleftrightarrow>
     distinct js \<and> set js = {0..<length ops} \<and> real_time ops js \<and>
     explains spec (map ((!) ops) js) (init, [])"

fun legal_run ::
  "'s spec \<Rightarrow> lop list \<Rightarrow> (nat \<Rightarrow> nat list) \<Rightarrow> nat list \<Rightarrow> nat list \<Rightarrow> 's \<times> aliases \<Rightarrow> bool" where
  "legal_run spec ops prec lin [] sa = True"
| "legal_run spec ops prec lin (j # js) sa =
     (eligible prec lin j \<and>
      (case apply_op spec (ops ! j) sa of
         None \<Rightarrow> False | Some sa' \<Rightarrow> legal_run spec ops prec (lin @ [j]) js sa'))"

definition found ::
  "'s spec \<Rightarrow> lop list \<Rightarrow> (nat \<Rightarrow> nat list) \<Rightarrow> nat list \<Rightarrow> nat list \<Rightarrow> 's \<times> aliases \<Rightarrow> nat list \<Rightarrow> bool" where
  "found spec ops prec lin rem sa r \<longleftrightarrow>
     (\<exists>js. r = lin @ js \<and> mset js = mset rem \<and> legal_run spec ops prec lin js sa)"

lemma mset_remove_nth:
  "i < length xs \<Longrightarrow> mset xs = add_mset (xs ! i) (mset (take i xs @ drop (Suc i) xs))"
  by (metis Cons_nth_drop_Suc append_take_drop_id mset.simps(2) mset_append union_mset_add_mset_right)

lemma found_step:
  assumes "found spec ops prec (lin @ [j]) (take i rem @ drop (Suc i) rem) sa' r"
    and "eligible prec lin j" and "apply_op spec (ops ! j) sa = Some sa'" and "i < length rem" and "j = rem ! i"
  shows "found spec ops prec lin rem sa r"
proof -
  from assms(1) obtain js where js: "r = (lin @ [j]) @ js" "mset js = mset (take i rem @ drop (Suc i) rem)"
    "legal_run spec ops prec (lin @ [j]) js sa'" unfolding found_def by blast
  with assms(2-5) mset_remove_nth [OF assms(4)] show ?thesis
    unfolding found_def by (intro exI [of _ "j # js"]) simp
qed

lemma search_sound:
  "search spec ops prec lin rem sa = Some r \<Longrightarrow> found spec ops prec lin rem sa r"
  "scan spec ops prec lin rem sa i = Some r \<Longrightarrow> found spec ops prec lin rem sa r"
proof (induction spec ops prec lin rem sa and spec ops prec lin rem sa i arbitrary: r and r rule: search_scan.induct)
  case (1 spec ops prec lin rem sa)
  show ?case
  proof (cases "rem = []")
    case True
    with 1(2) show ?thesis by (simp add: search.simps [of spec ops prec lin "[]"] found_def)
  next
    case False
    with 1 show ?thesis by (simp add: search.simps [of spec ops prec lin rem])
  qed
next
  case (2 spec ops prec lin rem sa i)
  show ?case
  proof (cases "length rem \<le> i")
    case True
    with 2(3) show ?thesis by (simp add: scan.simps [of spec ops prec lin rem])
  next
    case False
    let ?j = "rem ! i"
    show ?thesis
    proof (cases "\<exists>sa' r'. eligible prec lin ?j \<and> apply_op spec (ops ! ?j) sa = Some sa' \<and>
        search spec ops prec (lin @ [?j]) (take i rem @ drop (Suc i) rem) sa' = Some r'")
      case True
      then obtain sa' r' where t: "eligible prec lin ?j" "apply_op spec (ops ! ?j) sa = Some sa'"
        "search spec ops prec (lin @ [?j]) (take i rem @ drop (Suc i) rem) sa' = Some r'" by blast
      with 2(3) False have "r = r'" by (simp add: scan.simps [of spec ops prec lin rem] Let_def)
      with 2(1) [OF False refl t(1,2)] t False show ?thesis by (auto intro: found_step)
    next
      case no: False
      with 2(3) False have "scan spec ops prec lin rem sa (Suc i) = Some r"
        by (auto simp: scan.simps [of spec ops prec lin rem sa i] Let_def split: if_splits option.splits)
      moreover have "(if eligible prec lin ?j then
                  (case apply_op spec (ops ! ?j) sa of
                     None \<Rightarrow> None
                   | Some sa' \<Rightarrow> search spec ops prec (lin @ [?j]) (take i rem @ drop (Suc i) rem) sa')
                else None) = None" using no by (auto split: option.split)
      ultimately show ?thesis using 2(2) [OF False refl refl] by simp
    qed
  qed
qed

lemma search_complete:
  "legal_run spec ops prec lin js sa \<Longrightarrow> mset js = mset rem \<Longrightarrow> search spec ops prec lin rem sa \<noteq> None"
  "legal_run spec ops prec lin js sa \<Longrightarrow> mset js = mset rem \<Longrightarrow> js \<noteq> [] \<Longrightarrow> hd js \<in> set (drop i rem) \<Longrightarrow>
     scan spec ops prec lin rem sa i \<noteq> None"
proof (induction spec ops prec lin rem sa and spec ops prec lin rem sa i arbitrary: js and js rule: search_scan.induct)
  case (1 spec ops prec lin rem sa)
  show ?case
  proof (cases "rem = []")
    case False
    with 1(3) have "js \<noteq> []" by auto
    moreover from this 1(3) have "hd js \<in> set (drop 0 rem)" by (metis drop0 hd_in_set mset_eq_setD)
    ultimately show ?thesis using 1 False by (simp add: search.simps [of spec ops prec lin rem])
  qed (simp add: search.simps [of spec ops prec lin "[]"])
next
  case (2 spec ops prec lin rem sa i)
  from 2(6) have i: "i < length rem" by (cases "i < length rem") auto
  then have ni: "\<not> length rem \<le> i" by simp
  obtain j js' where js: "js = j # js'" using 2(5) by (cases js) auto
  define att where "att = (if eligible prec lin (rem ! i) then
                  (case apply_op spec (ops ! (rem ! i)) sa of
                     None \<Rightarrow> None
                   | Some sa' \<Rightarrow> search spec ops prec (lin @ [rem ! i]) (take i rem @ drop (Suc i) rem) sa')
                else None)"
  have sc: "scan spec ops prec lin rem sa i =
      (case att of Some r \<Rightarrow> Some r | None \<Rightarrow> scan spec ops prec lin rem sa (Suc i))"
    using ni by (simp add: scan.simps [of spec ops prec lin rem sa i] Let_def att_def)
  show ?case
  proof (cases "j = rem ! i")
    case True
    from 2(3) js obtain sa' where t: "eligible prec lin j" "apply_op spec (ops ! j) sa = Some sa'"
      "legal_run spec ops prec (lin @ [j]) js' sa'" by (auto split: option.splits)
    have "mset js' = mset (take i rem @ drop (Suc i) rem)"
      using 2(4) js mset_remove_nth [OF i] True by simp
    with 2(1) [OF ni refl] t True have "att \<noteq> None" by (simp add: att_def)
    with sc show ?thesis by (auto split: option.split)
  next
    case False
    show ?thesis
    proof (cases att)
      case None
      have "hd js \<in> set (drop (Suc i) rem)"
        using 2(6) js False i by (simp add: Cons_nth_drop_Suc [symmetric])
      with 2(2) [OF ni refl] 2(3-5) None sc show ?thesis by (simp add: att_def)
    qed (use sc in simp)
  qed
qed

lemma legal_run_alt:
  "legal_run spec ops prec lin js sa \<longleftrightarrow>
     explains spec (map ((!) ops) js) sa \<and>
     (\<forall>p < length js. set (prec (js ! p)) \<subseteq> set lin \<union> set (take p js))"
proof (induction js arbitrary: lin sa)
  case (Cons j js)
  have "(\<forall>p < length (j # js). set (prec ((j # js) ! p)) \<subseteq> set lin \<union> set (take p (j # js))) \<longleftrightarrow>
      eligible prec lin j \<and> (\<forall>p < length js. set (prec (js ! p)) \<subseteq> set (lin @ [j]) \<union> set (take p js))"
    (is "?L \<longleftrightarrow> ?R")
  proof
    assume l: ?L
    have "set (prec (js ! p)) \<subseteq> set (lin @ [j]) \<union> set (take p js)" if "p < length js" for p
      using spec [OF l, of "Suc p"] that by auto
    with spec [OF l, of 0] show ?R by (auto simp: eligible_def)
  next
    assume r: ?R
    show ?L
    proof (intro allI impI)
      fix p
      assume "p < length (j # js)"
      then show "set (prec ((j # js) ! p)) \<subseteq> set lin \<union> set (take p (j # js))"
        using r by (cases p) (auto simp: eligible_def)
    qed
  qed
  with Cons.IH show ?case by (auto split: option.split)
qed simp

lemma prec_real_time:
  assumes "distinct js" and "set js = {0..<length ops}"
  shows "(\<forall>p < length js. set (build_precedence ops (js ! p)) \<subseteq> set (take p js)) \<longleftrightarrow> real_time ops js"
proof -
  have "set (build_precedence ops (js ! p)) \<subseteq> set (take p js) \<longleftrightarrow>
      (\<forall>q < length js. p \<noteq> q \<longrightarrow> resp_event (ops ! (js ! q)) < l_inv (ops ! (js ! p)) \<longrightarrow> q < p)"
    (is "?L \<longleftrightarrow> ?R") if p: "p < length js" for p
  proof
    assume l: ?L
    show ?R
    proof (intro allI impI)
      fix q
      assume q: "q < length js" "p \<noteq> q" "resp_event (ops ! (js ! q)) < l_inv (ops ! (js ! p))"
      have "js ! q < length ops" using assms(2) nth_mem [OF q(1)] by auto
      moreover have "js ! q \<noteq> js ! p" using assms(1) p q by (simp add: nth_eq_iff_index_eq)
      ultimately have "js ! q \<in> set (take p js)" using l q(3) by (auto simp: build_precedence_def)
      then obtain r where "r < p" "r < length js" "js ! r = js ! q" by (auto simp: in_set_conv_nth)
      with assms(1) q(1) show "q < p" by (simp add: nth_eq_iff_index_eq)
    qed
  next
    assume r: ?R
    show ?L
    proof
      fix a
      assume "a \<in> set (build_precedence ops (js ! p))"
      then have a: "a < length ops" "a \<noteq> js ! p" "resp_event (ops ! a) < l_inv (ops ! (js ! p))"
        by (auto simp: build_precedence_def)
      then obtain q where q: "q < length js" "js ! q = a" using assms(2) by (metis atLeastLessThan_iff in_set_conv_nth le0)
      with a r have "q < p" by auto
      with q p show "a \<in> set (take p js)" by (auto simp: in_set_conv_nth)
    qed
  qed
  then show ?thesis by (simp add: real_time_def)
qed

lemma found_linearization:
  "found spec ops (build_precedence ops) [] [0..<length ops] (init, []) js \<longleftrightarrow>
     linearization spec init ops js"
proof -
  have m: "mset js = mset [0..<length ops] \<longleftrightarrow> distinct js \<and> set js = {0..<length ops}" for js
    by (metis distinct_upt mset_eq_imp_distinct_iff set_eq_iff_mset_eq_distinct set_upt)
  show ?thesis
    unfolding found_def linearization_def m legal_run_alt using prec_real_time [of js ops] by auto
qed

text \<open>
  C19. The checker decides linearizability. It accepts a history exactly when its completed
  operations have a linearization: an order that respects real time and that the sequential
  specification explains, result by result, with one identifier of the specification for each
  identifier the backend returned; and what it returns is such an order.
\<close>

theorem check_decides_linearizability:
  "(check spec init h \<noteq> None \<longleftrightarrow>
      (\<exists>js. linearization spec init (filter (\<lambda>x. l_resp x \<noteq> None) h) js)) \<and>
   (case check spec init h of
      None \<Rightarrow> True
    | Some xs \<Rightarrow> (\<exists>js. linearization spec init (filter (\<lambda>x. l_resp x \<noteq> None) h) js \<and>
                   xs = map ((!) (filter (\<lambda>x. l_resp x \<noteq> None) h)) js))"
proof -
  let ?c = "filter (\<lambda>x. l_resp x \<noteq> None) h"
  let ?s = "search spec ?c (build_precedence ?c) [] [0..<length ?c] (init, [])"
  have sound: "linearization spec init ?c js" if "?s = Some js" for js
    using search_sound(1) [OF that] by (simp only: found_linearization)
  have complete: "?s \<noteq> None" if "linearization spec init ?c js" for js
  proof -
    from that have "found spec ?c (build_precedence ?c) [] [0..<length ?c] (init, []) js"
      by (simp add: found_linearization)
    then show ?thesis unfolding found_def using search_complete(1) by fastforce
  qed
  show ?thesis
  proof (cases ?s)
    case None
    then have "check spec init h = None" by (simp add: check_def)
    moreover have "\<not> (\<exists>js. linearization spec init ?c js)" using complete None by blast
    ultimately show ?thesis by simp
  next
    case (Some js)
    then have "check spec init h = Some (map ((!) ?c) js)" by (simp add: check_def)
    with sound [OF Some] show ?thesis by auto
  qed
qed

subsection \<open>The sequential specification keeps the budget\<close>

definition open_weight :: "srec \<Rightarrow> rat" where
  "open_weight r = (if s_state r = ''RESERVED'' then (case as_num (s_amount r) of None \<Rightarrow> 0 | Some x \<Rightarrow> x) else 0)"

definition done_weight :: "srec \<Rightarrow> rat" where
  "done_weight r = (if s_state r = ''COMMITTED'' then (case as_num (s_amount r) of None \<Rightarrow> 0 | Some x \<Rightarrow> x) else 0)"

definition spec_ok :: "spec_state \<Rightarrow> bool" where
  "spec_ok st \<longleftrightarrow>
     wf_dict (s_reservations st) \<and>
     (\<forall>(rid, r) \<in> set (s_reservations st). (\<exists>x. as_num (s_amount r) = Some x \<and> 0 < x) \<and>
        (s_state r = ''RESERVED'' \<or> s_state r = ''COMMITTED'' \<or> s_state r = ''RELEASED'')) \<and>
     s_reserved st = dict_sum open_weight (s_reservations st) \<and>
     s_consumed st = dict_sum done_weight (s_reservations st) \<and>
     s_reserved st + s_consumed st \<le> s_capacity st"

definition positive_reserve :: "string \<Rightarrow> pyv list \<Rightarrow> bool" where
  "positive_reserve name args \<longleftrightarrow>
     name = ''reserve'' \<longrightarrow> (\<exists>key x res. args = [key, x, res] \<and> (\<exists>q. as_num x = Some q \<and> 0 < q))"

text \<open>The identifiers the specification hands out are new: one per reservation ever made.\<close>

definition ids_ok :: "spec_state \<Rightarrow> bool" where
  "ids_ok st \<longleftrightarrow>
     map fst (s_reservations st) = map (\<lambda>n. ''res-'' @ nat_str n) [0..<length (s_reservations st)]"

lemma ids_new: "ids_ok st \<Longrightarrow> map_of (s_reservations st) (''res-'' @ nat_str (length (s_reservations st))) = None"
proof -
  assume "ids_ok st"
  then have "set (map fst (s_reservations st)) =
      (\<lambda>n. ''res-'' @ nat_str n) ` {0..<length (s_reservations st)}"
    unfolding ids_ok_def by (metis list.set_map set_upt)
  then show ?thesis by (auto simp: map_of_eq_None_iff dest!: nat_str_inj)
qed

lemma ids_dput_old: "ids_ok st \<Longrightarrow> map_of (s_reservations st) rid = Some r0 \<Longrightarrow>
    ids_ok (st\<lparr>s_reservations := dput rid r (s_reservations st)\<rparr>)"
  using keys_dput_old [of "s_reservations st" rid r0 r]
  by (simp add: ids_ok_def) (metis length_map)

lemma settle_ok:
  assumes ok: "spec_ok st" and ids: "ids_ok st" and r: "map_of (s_reservations st) rid = Some r"
    and st: "s_state r = ''RESERVED''" and x: "as_num (s_amount r) = Some x"
  shows "spec_ok (st\<lparr>s_reserved := s_reserved st - x, s_consumed := s_consumed st + x,
            s_reservations := dput rid (r\<lparr>s_state := ''COMMITTED''\<rparr>) (s_reservations st)\<rparr>)"
    and "spec_ok (st\<lparr>s_reserved := s_reserved st - x,
            s_reservations := dput rid (r\<lparr>s_state := ''RELEASED''\<rparr>) (s_reservations st)\<rparr>)"
proof -
  have pos: "0 < x" using ok map_of_SomeD [OF r] x by (fastforce simp: spec_ok_def)
  show "spec_ok (st\<lparr>s_reserved := s_reserved st - x, s_consumed := s_consumed st + x,
            s_reservations := dput rid (r\<lparr>s_state := ''COMMITTED''\<rparr>) (s_reservations st)\<rparr>)"
    using ok r st x pos
    by (auto simp: spec_ok_def dict_sum_dput_old [OF r] open_weight_def done_weight_def dest!: in_set_dput)
  show "spec_ok (st\<lparr>s_reserved := s_reserved st - x,
            s_reservations := dput rid (r\<lparr>s_state := ''RELEASED''\<rparr>) (s_reservations st)\<rparr>)"
    using ok r st x pos
    by (auto simp: spec_ok_def dict_sum_dput_old [OF r] open_weight_def done_weight_def dest!: in_set_dput)
qed


lemma ids_reserved_irrelevant: "ids_ok (st\<lparr>s_reserved := a, s_consumed := b\<rparr>) = ids_ok st"
  by (simp add: ids_ok_def)

lemma spec_reserve_ok:
  assumes ok: "spec_ok st" "ids_ok st" and s: "spec_reserve st key amount = Some (st', res)"
    and pos: "as_num amount = Some x" "0 < x"
  shows "spec_ok st' \<and> ids_ok st'"
proof (cases "st' = st")
  case False
  define rid where "rid = ''res-'' @ nat_str (length (s_reservations st))"
  let ?rid = rid
  let ?r = "\<lparr>s_key = key, s_amount = amount, s_state = ''RESERVED''\<rparr>"
  from False s pos(1) have st': "st' = st\<lparr>s_reservations := dput ?rid ?r (s_reservations st), s_reserved := s_reserved st + x\<rparr>"
    and fits: "\<not> s_capacity st - s_reserved st - s_consumed st < x"
    by (auto simp: spec_reserve_def Let_def rid_def split: option.splits if_splits)
  note new = ids_new [OF ok(2), folded rid_def]
  have "spec_ok st'"
    using ok(1) pos fits
    by (auto simp: st' spec_ok_def dict_sum_dput_new [OF new] open_weight_def done_weight_def dest!: in_set_dput)
  moreover have "ids_ok st'" using ok(2) by (simp add: st' ids_ok_def dput_new [OF new]) (simp add: rid_def)
  ultimately show ?thesis by simp
qed (use ok in simp)

lemma settled_ids:
  assumes "ids_ok st" and "map_of (s_reservations st) rid = Some r0"
  shows "ids_ok (st\<lparr>s_reserved := a, s_consumed := b, s_reservations := dput rid r (s_reservations st)\<rparr>)"
    and "ids_ok (st\<lparr>s_reserved := a, s_reservations := dput rid r (s_reservations st)\<rparr>)"
  using ids_dput_old [OF assms, of r] by (simp_all add: ids_ok_def)

lemma consensus_spec_ok:
  assumes ok: "spec_ok st" "ids_ok st" and s: "consensus_sequential_spec name st args = Some (st', res)"
    and pos: "positive_reserve name args"
  shows "spec_ok st' \<and> ids_ok st'"
proof -
  have settle: "spec_ok st' \<and> ids_ok st'" if "spec_commit st rid = Some (st', res)" for rid
    using that ok settle_ok(1) [OF ok, of rid] settled_ids(1) [OF ok(2), of rid]
    by (auto simp: spec_commit_def split: option.splits if_splits)
  have free: "spec_ok st' \<and> ids_ok st'" if "spec_release st rid = Some (st', res)" for rid
    using that ok settle_ok(2) [OF ok, of rid] settled_ids(2) [OF ok(2), of rid]
    by (auto simp: spec_release_def split: option.splits if_splits)
  have rec: "spec_ok st' \<and> ids_ok st'" if t: "spec_reconcile st key = Some (st', res)" for key
  proof -
    let ?P = "\<lambda>(rid, r). py_eq (s_key r) key \<and> (s_state r = ''UNKNOWN'' \<or> s_state r = ''RESERVED'')"
    show ?thesis
    proof (cases "find ?P (s_reservations st)")
      case None
      with t ok show ?thesis by (simp add: spec_reconcile_def)
    next
      case (Some kr)
      obtain rid r where kr: "kr = (rid, r)" by (cases kr)
      from Some kr have mem: "(rid, r) \<in> set (s_reservations st)"
        and "s_state r = ''UNKNOWN'' \<or> s_state r = ''RESERVED''" by (auto dest!: find_SomeD)
      with ok(1) have "s_state r = ''RESERVED''" "map_of (s_reservations st) rid = Some r"
        by (auto simp: spec_ok_def)
      with t Some kr settle_ok(1) [OF ok] settled_ids(1) [OF ok(2)] show ?thesis
        by (auto simp: spec_reconcile_def split: option.splits)
    qed
  qed
  have "spec_ok st' \<and> ids_ok st'" if "spec_reserve st key x = Some (st', res)" "name = ''reserve''"
    "args = [key, x, resource]" for key x resource
    using spec_reserve_ok [OF ok that(1)] pos that(2,3) by (auto simp: positive_reserve_def)
  with s ok settle free rec show ?thesis
    by (auto simp: consensus_sequential_spec_def split: if_splits list.splits pyv.splits)
qed

lemma consensus_spec_capacity:
  assumes "consensus_sequential_spec name st args = Some (st', res)"
  shows "s_capacity st' = s_capacity st"
proof -
  have "spec_reserve st k a = Some (st', res) \<Longrightarrow> s_capacity st' = s_capacity st" for k a
    by (auto simp: spec_reserve_def Let_def split: option.splits if_splits)
  moreover have "spec_commit st rid = Some (st', res) \<Longrightarrow> s_capacity st' = s_capacity st" for rid
    by (auto simp: spec_commit_def split: option.splits if_splits)
  moreover have "spec_release st rid = Some (st', res) \<Longrightarrow> s_capacity st' = s_capacity st" for rid
    by (auto simp: spec_release_def split: option.splits if_splits)
  moreover have "spec_reconcile st k = Some (st', res) \<Longrightarrow> s_capacity st' = s_capacity st" for k
    by (auto simp: spec_reconcile_def split: option.splits if_splits)
  ultimately show ?thesis using assms
    by (auto simp: consensus_sequential_spec_def split: if_splits list.splits pyv.splits)
qed

definition spec_step :: "spec_state \<Rightarrow> string \<times> pyv list \<Rightarrow> spec_state" where
  "spec_step st r =
     (if positive_reserve (fst r) (snd r)
      then (case consensus_sequential_spec (fst r) st (snd r) of None \<Rightarrow> st | Some (st', _) \<Rightarrow> st')
      else st)"

interpretation spec_machine: machine spec_step "\<lambda>st. spec_ok st \<and> ids_ok st"
  by unfold_locales (auto simp: spec_step_def dest: consensus_spec_ok split: option.split)

text \<open>
  The sequential specification keeps the budget invariant: over every run of operations
  that reserve positive amounts, reserved and consumed are the exact totals of the open and the
  committed reservations, not negative, and together within the capacity of 100.
\<close>

theorem sequential_spec_budget:
  "let st = foldl spec_step spec_init rs
   in 0 \<le> s_reserved st \<and> 0 \<le> s_consumed st \<and> s_reserved st + s_consumed st \<le> 100 \<and>
      s_reserved st = dict_sum open_weight (s_reservations st) \<and>
      s_consumed st = dict_sum done_weight (s_reservations st)"
proof -
  let ?st = "foldl spec_step spec_init rs"
  have cap1: "s_capacity (spec_step st r) = s_capacity st" for st r
    by (auto simp: spec_step_def dest: consensus_spec_capacity split: option.split)
  have cap: "s_capacity ?st = 100"
  proof (induction rs rule: rev_induct)
    case (snoc r rs)
    then show ?case by (simp add: cap1)
  qed (simp add: spec_init_def)
  have "spec_ok spec_init \<and> ids_ok spec_init" by (simp add: spec_ok_def ids_ok_def spec_init_def)
  then have ok: "spec_ok ?st" using spec_machine.run_inv by blast
  then have "0 \<le> dict_sum open_weight (s_reservations ?st)" "0 \<le> dict_sum done_weight (s_reservations ?st)"
    by (auto intro!: dict_sum_nonneg simp: spec_ok_def open_weight_def done_weight_def less_imp_le split: option.split)
  with ok cap show ?thesis by (simp add: spec_ok_def Let_def)
qed

end
