(* ===== verification/Backend_Spec.thy ===== *)
theory Backend_Spec
  imports Backend_Guarantees Linearizability
begin

section \<open>The backend against the checker's specification\<close>

text \<open>
  The conformance checker compares backend histories with \<open>consensus_sequential_spec\<close>. This
  theory runs the modelled backend and gives its answers to the modelled checker.
\<close>

text \<open>The status strings of the backend's answers.\<close>

fun rstate_str :: "rstate \<Rightarrow> string" where
  "rstate_str RESERVED = ''RESERVED''"
| "rstate_str UNKNOWN = ''UNKNOWN''"
| "rstate_str COMMITTED = ''COMMITTED''"
| "rstate_str RELEASED = ''RELEASED''"
| "rstate_str REFUNDED = ''REFUNDED''"
| "rstate_str (OtherState s) = s"

fun status_str :: "status \<Rightarrow> string" where
  "status_str (St s) = rstate_str s"
| "status_str DUPLICATE_KEY = ''DUPLICATE_KEY''"
| "status_str INSUFFICIENT_BUDGET = ''INSUFFICIENT_BUDGET''"
| "status_str INVALID_AMOUNT = ''INVALID_AMOUNT''"
| "status_str INVALID_REQUEST = ''INVALID_REQUEST''"
| "status_str UNKNOWN_RESOURCE = ''UNKNOWN_RESOURCE''"
| "status_str NOT_FOUND = ''NOT_FOUND''"
| "status_str ALREADY_COMMITTED = ''ALREADY_COMMITTED''"
| "status_str ALREADY_RELEASED = ''ALREADY_RELEASED''"
| "status_str ALREADY_REFUNDED = ''ALREADY_REFUNDED''"
| "status_str NOT_COMMITTED = ''NOT_COMMITTED''"
| "status_str CONFIRMED = ''CONFIRMED''"
| "status_str FAILED = ''FAILED''"
| "status_str UNRESOLVED = ''UNRESOLVED''"
| "status_str RECONCILE_CONFLICT = ''RECONCILE_CONFLICT''"
| "status_str ERROR = ''ERROR''"

text \<open>One client's sequential history: a call and its answer, at increasing event numbers.\<close>

fun answer :: "status result \<times> string option \<Rightarrow> pyv" where
  "answer (Inl e, rid) = VNone"
| "answer (Inr s, None) = VDict [(''status'', VStr (status_str s))]"
| "answer (Inr s, Some rid) = VDict [(''status'', VStr (status_str s)), (''reservation_id'', VStr rid)]"

text \<open>A request of the client, run on the backend.\<close>

datatype client_op = CReserve string dec string | CCommit string | CRelease string

fun client_run :: "backend \<Rightarrow> client_op \<Rightarrow> (string \<times> pyv list) \<times> pyv \<times> backend" where
  "client_run d (CReserve key x uuid) =
     (let run = backend_reserve d key (AFin x) ''r'' uuid 0;
          ans = (case fst run of Inl e \<Rightarrow> (Inl e, None) | Inr (s, rid) \<Rightarrow> (Inr s, rid))
      in ((''reserve'', [VStr key, VNum (dval x), VStr ''r'']), answer ans, final d run))"
| "client_run d (CCommit rid) =
     (let run = backend_commit d rid 0 in ((''commit'', [VStr rid]), answer (fst run, None), final d run))"
| "client_run d (CRelease rid) =
     (let run = backend_release d rid 0 in ((''release'', [VStr rid]), answer (fst run, None), final d run))"

fun history :: "backend \<Rightarrow> int \<Rightarrow> client_op list \<Rightarrow> lop list" where
  "history d n [] = []"
| "history d n (r # rs) =
     (let (call, ans, d') = client_run d r
      in \<lparr>l_op = fst call, l_args = snd call, l_client = 0, l_inv = n, l_resp = Some (ans, n + 1)\<rparr>
         # history d' (n + 2) rs)"

definition spec_backend :: backend where
  "spec_backend = backend_step empty_backend (BRegister ''r'' (AFin (Dec 100 0)))"

text \<open>
  The checker accepts an ordinary sequential history of the single-host backend, but not
  every one: the backend answers a second release with \<open>ALREADY_RELEASED\<close> and a repeated
  reserve with the reservation's current state, the specification with \<open>INVALID_STATE\<close> and
  \<open>RESERVED\<close>, so two histories without any concurrency are declared not linearizable.
\<close>

theorem sequential_histories_rejected:
  "check consensus_sequential_spec spec_init
     (history spec_backend 0 [CReserve ''k'' (Dec 5 0) ''u'', CCommit ''u'', CCommit ''u'', CRelease ''u'']) \<noteq> None \<and>
   check consensus_sequential_spec spec_init
     (history spec_backend 0 [CReserve ''k'' (Dec 5 0) ''u'', CRelease ''u'', CRelease ''u'']) = None \<and>
   check consensus_sequential_spec spec_init
     (history spec_backend 0 [CReserve ''k'' (Dec 5 0) ''u'', CCommit ''u'', CReserve ''k'' (Dec 5 0) ''v'']) = None"
  by code_simp

end
