(* ===== verification/Sqlite_Backend.thy ===== *)
theory Sqlite_Backend
  imports Consensus_Backend "HOL-Library.Product_Lexorder" "HOL-Library.List_Lexorder"
    "HOL-Library.Char_ord"
begin

section \<open>The SQLite consensus backend\<close>

text \<open>
  \<open>SQLiteConsensusBackend\<close> of \<open>tenir_governance/operations/sqlite_backend.py\<close>: the tables
  \<open>resources\<close>, \<open>reservations\<close> and \<open>compensations\<close>, each a dictionary from its primary key to
  the rest of the row, in the order of insertion. A decimal column holds \<open>str (d)\<close>, which
  \<open>Decimal\<close> reads back as the same triple. A mutation is one \<open>BEGIN IMMEDIATE\<close> transaction:
  its body computes the new tables or raises, and the fault-injection seam before \<open>COMMIT\<close> may
  raise as well; either way the tables stay what they were. \<open>uuid4\<close>, the clock and the
  provider are arguments. The records and status strings are those of \<open>Consensus_Backend\<close>.
\<close>

record resource_row =
  row_capacity :: dec
  row_reserved :: dec
  row_committed :: dec

datatype comp_status = REQUIRED | RESOLVED

record compensation =
  comp_original :: string
  comp_resource :: string
  comp_amount :: dec
  comp_status :: comp_status
  comp_reason :: string
  comp_created :: rat

record database =
  tbl_resources :: "(string, resource_row) dict"
  tbl_reservations :: "(string, reservation) dict"
  tbl_compensations :: "(string, compensation) dict"

datatype register_status = REGISTERED | ALREADY_REGISTERED | RESOURCE_CONFLICT | INVALID_CAPACITY

type_synonym reserve_answer = "status \<times> string option \<times> dec option"
type_synonym reconcile_answer = "status \<times> bool option \<times> string option"

text \<open>\<open>_decimal\<close>: the value an amount has, or nothing.\<close>

fun sq_decimal :: "bool \<Rightarrow> amount_in \<Rightarrow> dec option" where
  "sq_decimal allow_zero (AFin d) =
     (if coef d < 0 \<or> (coef d = 0 \<and> \<not> allow_zero) then None
      else if ddigits d > 128 \<or> \<bar>expo d\<bar> > 128 \<or> adjusted d > 128 then None
      else Some d)"
| "sq_decimal allow_zero _ = None"

text \<open>\<open>_transaction\<close>: an early return of the body still commits.\<close>

definition sq_transaction ::
  "pyexn option \<Rightarrow> (database \<Rightarrow> ('a \<times> database) result) \<Rightarrow> database \<Rightarrow> 'a result \<times> database" where
  "sq_transaction fault body d =
     (case body d of
        Inl e \<Rightarrow> (Inl e, d)
      | Inr (a, d') \<Rightarrow> (case fault of Some e \<Rightarrow> (Inl e, d) | None \<Rightarrow> (Inr a, d')))"

text \<open>\<open>UPDATE resources SET reserved = ?, committed = ?\<close> and \<open>UPDATE reservations\<close>.\<close>

definition set_counters :: "database \<Rightarrow> string \<Rightarrow> dec \<Rightarrow> dec \<Rightarrow> database" where
  "set_counters d k p u =
     (case map_of (tbl_resources d) k of
        None \<Rightarrow> d
      | Some row \<Rightarrow>
          d\<lparr>tbl_resources := dput k (row\<lparr>row_reserved := p, row_committed := u\<rparr>) (tbl_resources d)\<rparr>)"

definition set_reservation :: "database \<Rightarrow> string \<Rightarrow> reservation \<Rightarrow> database" where
  "set_reservation d rid r = d\<lparr>tbl_reservations := dput rid r (tbl_reservations d)\<rparr>"

subsection \<open>Resources and reservations\<close>

definition sq_register ::
  "pyexn option \<Rightarrow> string \<Rightarrow> amount_in \<Rightarrow> database \<Rightarrow> register_status result \<times> database" where
  "sq_register fault k cap d =
     (case sq_decimal True cap of
        None \<Rightarrow> (Inr INVALID_CAPACITY, d)
      | Some c \<Rightarrow>
        if k = [] then (Inr INVALID_CAPACITY, d)
        else sq_transaction fault
          (\<lambda>d. case map_of (tbl_resources d) k of
                 Some row \<Rightarrow>
                   Inr (if deq (row_capacity row) c then ALREADY_REGISTERED else RESOURCE_CONFLICT, d)
               | None \<Rightarrow>
                   Inr (REGISTERED, d\<lparr>tbl_resources := dput k
                          \<lparr>row_capacity = c, row_reserved = dzero, row_committed = dzero\<rparr>
                          (tbl_resources d)\<rparr>)) d)"

text \<open>
  The body of \<open>reserve\<close>. The \<open>INSERT\<close> raises when the identifier is taken: the primary key.
\<close>

definition reserve_body ::
  "string \<Rightarrow> dec \<Rightarrow> string \<Rightarrow> string \<Rightarrow> rat \<Rightarrow> database \<Rightarrow> (reserve_answer \<times> database) result" where
  "reserve_body key x k uuid now d =
     (case find_key key (tbl_reservations d) of
        Some (rid, r) \<Rightarrow>
          Inr (if deq (amount r) x \<and> resource_id r = k then (St (rstate r), Some rid, Some x)
               else (DUPLICATE_KEY, None, None), d)
      | None \<Rightarrow>
        (case map_of (tbl_resources d) k of
           None \<Rightarrow> Inr ((UNKNOWN_RESOURCE, None, None), d)
         | Some row \<Rightarrow>
           bindE (decimal_add (row_reserved row) (row_committed row)) (\<lambda>s.
           bindE (decimal_add s x) (\<lambda>total.
           if dlt (row_capacity row) total then Inr ((INSUFFICIENT_BUDGET, None, None), d)
           else
             bindE (decimal_add (row_reserved row) x) (\<lambda>p.
             if map_of (tbl_reservations d) uuid \<noteq> None then Inl IntegrityError
             else Inr ((St RESERVED, Some uuid, Some x),
                       set_reservation (set_counters d k p (row_committed row)) uuid
                         \<lparr>rkey = key, amount = x, resource_id = k, rstate = RESERVED,
                          created_at = now, committed_at = None, released_at = None,
                          refunded_at = None\<rparr>))))))"

definition sq_reserve ::
  "pyexn option \<Rightarrow> string \<Rightarrow> amount_in \<Rightarrow> string \<Rightarrow> string \<Rightarrow> rat \<Rightarrow> database \<Rightarrow>
     reserve_answer result \<times> database" where
  "sq_reserve fault key amt k uuid now d =
     (case sq_decimal False amt of
        None \<Rightarrow> (Inr (INVALID_AMOUNT, None, None), d)
      | Some x \<Rightarrow>
        if key = [] \<or> k = [] then (Inr (INVALID_REQUEST, None, None), d)
        else sq_transaction fault (reserve_body key x k uuid now) d)"

text \<open>
  The three ways a reservation is settled, each used by an operation and by \<open>reconcile\<close>: the
  counter the amount leaves must cover it, or the answer is \<open>failed\<close>. A missing resource row
  is subscripting \<open>None\<close>.
\<close>

definition settle_commit ::
  "string \<Rightarrow> reservation \<Rightarrow> rat \<Rightarrow> 'a \<Rightarrow> 'a \<Rightarrow> database \<Rightarrow> ('a \<times> database) result" where
  "settle_commit rid r now answer failed d =
     (case map_of (tbl_resources d) (resource_id r) of
        None \<Rightarrow> Inl TypeError
      | Some row \<Rightarrow>
        if dlt (row_reserved row) (amount r) then Inr (failed, d)
        else
          bindE (decimal_subtract (row_reserved row) (amount r)) (\<lambda>p.
          bindE (decimal_add (row_committed row) (amount r)) (\<lambda>u.
          Inr (answer, set_reservation (set_counters d (resource_id r) p u) rid
                         (r\<lparr>rstate := COMMITTED, committed_at := Some now\<rparr>)))))"

definition settle_release ::
  "string \<Rightarrow> reservation \<Rightarrow> rat \<Rightarrow> 'a \<Rightarrow> 'a \<Rightarrow> database \<Rightarrow> ('a \<times> database) result" where
  "settle_release rid r now answer failed d =
     (case map_of (tbl_resources d) (resource_id r) of
        None \<Rightarrow> Inl TypeError
      | Some row \<Rightarrow>
        if dlt (row_reserved row) (amount r) then Inr (failed, d)
        else
          bindE (decimal_subtract (row_reserved row) (amount r)) (\<lambda>p.
          Inr (answer, set_reservation (set_counters d (resource_id r) p (row_committed row)) rid
                         (r\<lparr>rstate := RELEASED, released_at := Some now\<rparr>))))"

definition settle_refund ::
  "string \<Rightarrow> reservation \<Rightarrow> rat \<Rightarrow> 'a \<Rightarrow> 'a \<Rightarrow> database \<Rightarrow> ('a \<times> database) result" where
  "settle_refund rid r now answer failed d =
     (case map_of (tbl_resources d) (resource_id r) of
        None \<Rightarrow> Inl TypeError
      | Some row \<Rightarrow>
        if dlt (row_committed row) (amount r) then Inr (failed, d)
        else
          bindE (decimal_subtract (row_committed row) (amount r)) (\<lambda>u.
          Inr (answer, set_reservation (set_counters d (resource_id r) (row_reserved row) u) rid
                         (r\<lparr>rstate := REFUNDED, refunded_at := Some now\<rparr>))))"

definition sq_commit :: "pyexn option \<Rightarrow> string \<Rightarrow> rat \<Rightarrow> database \<Rightarrow> status result \<times> database" where
  "sq_commit fault rid now d = sq_transaction fault
     (\<lambda>d. case map_of (tbl_reservations d) rid of
            None \<Rightarrow> Inr (NOT_FOUND, d)
          | Some r \<Rightarrow>
            if rstate r = COMMITTED then Inr (ALREADY_COMMITTED, d)
            else if rstate r \<noteq> RESERVED then Inr (ERROR, d)
            else settle_commit rid r now (St COMMITTED) ERROR d) d"

definition sq_release :: "pyexn option \<Rightarrow> string \<Rightarrow> rat \<Rightarrow> database \<Rightarrow> status result \<times> database" where
  "sq_release fault rid now d = sq_transaction fault
     (\<lambda>d. case map_of (tbl_reservations d) rid of
            None \<Rightarrow> Inr (NOT_FOUND, d)
          | Some r \<Rightarrow>
            if rstate r = COMMITTED then Inr (ALREADY_COMMITTED, d)
            else if rstate r = RELEASED then Inr (ALREADY_RELEASED, d)
            else if rstate r \<noteq> RESERVED then Inr (ERROR, d)
            else settle_release rid r now (St RELEASED) ERROR d) d"

definition sq_refund :: "pyexn option \<Rightarrow> string \<Rightarrow> rat \<Rightarrow> database \<Rightarrow> status result \<times> database" where
  "sq_refund fault rid now d = sq_transaction fault
     (\<lambda>d. case map_of (tbl_reservations d) rid of
            None \<Rightarrow> Inr (NOT_FOUND, d)
          | Some r \<Rightarrow>
            if rstate r = REFUNDED then Inr (ALREADY_REFUNDED, d)
            else if rstate r \<noteq> COMMITTED then Inr (NOT_COMMITTED, d)
            else settle_refund rid r now (St REFUNDED) ERROR d) d"

subsection \<open>Reconciliation\<close>

text \<open>
  \<open>reconcile\<close> reads the reservation in one connection, asks the provider with no transaction
  open, and acts in a later transaction on what the row has become. \<open>reconcile_lookup\<close> is the
  first half, on the tables as they are then; \<open>finish_body\<close> is the second.
\<close>

datatype lookup = Answered reconcile_answer | MarkUnknown string | Observed string "bool option"

definition reconcile_lookup :: "provider \<Rightarrow> string \<Rightarrow> database \<Rightarrow> lookup" where
  "reconcile_lookup prov key d =
     (case find_key key (tbl_reservations d) of
        None \<Rightarrow> Answered (NOT_FOUND, None, None)
      | Some (rid, r) \<Rightarrow>
        if rstate r = COMMITTED then Answered (CONFIRMED, Some True, None)
        else
          case prov of
            None \<Rightarrow>
              if rstate r = RELEASED then Answered (FAILED, Some False, None)
              else if is_open (rstate r) then MarkUnknown rid
              else Answered (UNRESOLVED, None, None)
          | Some f \<Rightarrow>
              (case f key of Inl _ \<Rightarrow> Answered (ERROR, None, None) | Inr eff \<Rightarrow> Observed rid eff))"

definition mark_body :: "string \<Rightarrow> database \<Rightarrow> (reconcile_answer \<times> database) result" where
  "mark_body rid d =
     Inr ((UNRESOLVED, None, None),
          case map_of (tbl_reservations d) rid of
            Some r \<Rightarrow> if rstate r = RESERVED then set_reservation d rid (r\<lparr>rstate := UNKNOWN\<rparr>) else d
          | None \<Rightarrow> d)"

definition compensation_id :: "string \<Rightarrow> string" where
  "compensation_id rid = ''compensation:'' @ rid"

definition late_reason :: string where
  "late_reason = ''External effect confirmed after the reservation was released.''"

text \<open>\<open>INSERT OR IGNORE\<close>: an existing row with either key wins.\<close>

definition insert_compensation :: "string \<Rightarrow> reservation \<Rightarrow> rat \<Rightarrow> database \<Rightarrow> database" where
  "insert_compensation rid r now d =
     (if \<exists>(c, row) \<in> set (tbl_compensations d). c = compensation_id rid \<or> comp_original row = rid
      then d
      else d\<lparr>tbl_compensations := dput (compensation_id rid)
               \<lparr>comp_original = rid, comp_resource = resource_id r, comp_amount = amount r,
                comp_status = REQUIRED, comp_reason = late_reason, comp_created = now\<rparr>
               (tbl_compensations d)\<rparr>)"

definition finish_body ::
  "string \<Rightarrow> bool option \<Rightarrow> rat \<Rightarrow> database \<Rightarrow> (reconcile_answer \<times> database) result" where
  "finish_body rid eff now d =
     (case map_of (tbl_reservations d) rid of
        None \<Rightarrow> Inl TypeError
      | Some r \<Rightarrow>
        (case eff of
           Some True \<Rightarrow>
             if rstate r = RELEASED
             then Inr ((RECONCILE_CONFLICT, Some True, Some (compensation_id rid)),
                       insert_compensation rid r now d)
             else if rstate r = COMMITTED then Inr ((CONFIRMED, Some True, None), d)
             else if \<not> is_open (rstate r) then Inr ((RECONCILE_CONFLICT, Some True, None), d)
             else settle_commit rid r now (CONFIRMED, Some True, None) (ERROR, Some True, None) d
         | Some False \<Rightarrow>
             if is_open (rstate r)
             then settle_release rid r now (FAILED, Some False, None) (ERROR, Some False, None) d
             else if rstate r = RELEASED then Inr ((FAILED, Some False, None), d)
             else if rstate r = COMMITTED
             then settle_refund rid r now (FAILED, Some False, None) (ERROR, Some False, None) d
             else Inr ((RECONCILE_CONFLICT, Some False, None), d)
         | None \<Rightarrow> Inr ((UNRESOLVED, None, None), d)))"

text \<open>
  The whole operation: \<open>d0\<close> are the tables it reads, \<open>d\<close> the tables when its transaction
  begins, after whatever other processes committed while the provider was asked.
\<close>

definition sq_reconcile ::
  "pyexn option \<Rightarrow> provider \<Rightarrow> string \<Rightarrow> rat \<Rightarrow> database \<Rightarrow> database \<Rightarrow>
     reconcile_answer result \<times> database" where
  "sq_reconcile fault prov key now d0 d =
     (case reconcile_lookup prov key d0 of
        Answered a \<Rightarrow> (Inr a, d)
      | MarkUnknown rid \<Rightarrow> sq_transaction fault (mark_body rid) d
      | Observed rid eff \<Rightarrow> sq_transaction fault (finish_body rid eff now) d)"

subsection \<open>Reading the state\<close>

text \<open>\<open>get_state\<close>: rows in the order of creation, ties broken by the primary key.\<close>

definition row_ok :: "resource_row \<Rightarrow> bool" where
  "row_ok row \<longleftrightarrow> 0 \<le> coef (row_capacity row) \<and> 0 \<le> coef (row_reserved row) \<and> 0 \<le> coef (row_committed row)"

record state_report =
  rep_available :: dec
  rep_reserved :: dec
  rep_committed :: dec
  rep_capacity :: dec
  rep_reservations :: "(string \<times> reservation) list"
  rep_compensations :: "(string \<times> compensation) list"

definition sq_get_state :: "database \<Rightarrow> string \<Rightarrow> state_report result" where
  "sq_get_state d k =
     (case map_of (tbl_resources d) k of
        None \<Rightarrow> Inr \<lparr>rep_available = dzero, rep_reserved = dzero, rep_committed = dzero,
                     rep_capacity = dzero, rep_reservations = [], rep_compensations = []\<rparr>
      | Some row \<Rightarrow>
        let rs = sort_key (\<lambda>(rid, r). (created_at r, rid))
                   (filter (\<lambda>(rid, r). resource_id r = k) (tbl_reservations d));
            cs = sort_key (\<lambda>(cid, c). (comp_created c, cid))
                   (filter (\<lambda>(cid, c). comp_resource c = k) (tbl_compensations d)) in
        if \<not> row_ok row then Inl RuntimeError
        else
          bindE (decimal_add (row_reserved row) (row_committed row)) (\<lambda>s.
          if dlt (row_capacity row) s then Inl RuntimeError
          else
            bindE (decimal_subtract (row_capacity row) (row_reserved row)) (\<lambda>a1.
            bindE (decimal_subtract a1 (row_committed row)) (\<lambda>a.
            Inr \<lparr>rep_available = a, rep_reserved = row_reserved row, rep_committed = row_committed row,
                 rep_capacity = row_capacity row, rep_reservations = rs, rep_compensations = cs\<rparr>))))"

end
