(* ===== verification/Sqlite_Ledger.thy ===== *)
theory Sqlite_Ledger
  imports Sqlite_Backend Backend_Guarantees
begin

section \<open>The SQLite backend keeps its ledger\<close>

text \<open>
  The invariant of the SQLite tables, that every transaction keeps it, and how rows change. The
  contract of the settling steps is one lemma, \<open>move_ok\<close>: a reservation changes its state and
  the two counters of its resource move by its amount.
\<close>

definition db_view :: "database \<Rightarrow> string \<Rightarrow> (rat \<times> rat \<times> rat) option" where
  "db_view d k =
     (case map_of (tbl_resources d) k of
        None \<Rightarrow> None
      | Some row \<Rightarrow> Some (dval (row_capacity row), dval (row_reserved row), dval (row_committed row)))"

definition row_sound :: "resource_row \<Rightarrow> bool" where
  "row_sound row \<longleftrightarrow> in_range (row_capacity row) \<and> in_range (row_reserved row) \<and>
     in_range (row_committed row) \<and> 0 \<le> dval (row_reserved row) \<and> 0 \<le> dval (row_committed row) \<and>
     dval (row_reserved row) + dval (row_committed row) \<le> dval (row_capacity row)"

definition resv_sound :: "database \<Rightarrow> reservation \<Rightarrow> bool" where
  "resv_sound d r \<longleftrightarrow> in_range (amount r) \<and> 0 < dval (amount r) \<and>
     map_of (tbl_resources d) (resource_id r) \<noteq> None \<and> (\<forall>s. rstate r \<noteq> OtherState s)"

text \<open>A compensation is for a released reservation, and carries its amount.\<close>

definition comp_sound :: "database \<Rightarrow> string \<Rightarrow> compensation \<Rightarrow> bool" where
  "comp_sound d cid c \<longleftrightarrow> cid = compensation_id (comp_original c) \<and> comp_status c = REQUIRED \<and>
     (case map_of (tbl_reservations d) (comp_original c) of
        None \<Rightarrow> False
      | Some r \<Rightarrow> rstate r = RELEASED \<and> comp_amount c = amount r \<and> comp_resource c = resource_id r)"

definition db_ok :: "database \<Rightarrow> bool" where
  "db_ok d \<longleftrightarrow>
     wf_dict (tbl_resources d) \<and> wf_dict (tbl_reservations d) \<and> wf_dict (tbl_compensations d) \<and>
     (\<forall>k row. map_of (tbl_resources d) k = Some row \<longrightarrow> row_sound row) \<and>
     (\<forall>rid r. map_of (tbl_reservations d) rid = Some r \<longrightarrow> resv_sound d r) \<and>
     (\<forall>cid c. map_of (tbl_compensations d) cid = Some c \<longrightarrow> comp_sound d cid c) \<and>
     keys_ok (tbl_reservations d) \<and> ledger_ok (db_view d) (tbl_reservations d)"

lemma db_okD:
  assumes "db_ok d"
  shows "wf_dict (tbl_reservations d)" and "wf_dict (tbl_resources d)"
    and "map_of (tbl_resources d) k = Some row \<Longrightarrow> row_sound row"
    and "map_of (tbl_reservations d) rid = Some r \<Longrightarrow> resv_sound d r"
    and "map_of (tbl_compensations d) cid = Some c \<Longrightarrow> comp_sound d cid c"
    and "keys_ok (tbl_reservations d)" and "ledger_ok (db_view d) (tbl_reservations d)"
  using assms by (auto simp: db_ok_def)

subsection \<open>Updates\<close>

lemma set_counters_simps [simp, store_simps]:
  "tbl_reservations (set_counters d k p u) = tbl_reservations d"
  "tbl_compensations (set_counters d k p u) = tbl_compensations d"
  "map_of (tbl_resources (set_counters d k p u)) j = (if j = k
     then map_option (\<lambda>row. row\<lparr>row_reserved := p, row_committed := u\<rparr>) (map_of (tbl_resources d) k)
     else map_of (tbl_resources d) j)"
  by (auto simp: set_counters_def split: option.splits)

lemma set_reservation_simps [simp, store_simps]:
  "tbl_resources (set_reservation d rid r) = tbl_resources d"
  "tbl_compensations (set_reservation d rid r) = tbl_compensations d"
  "tbl_reservations (set_reservation d rid r) = dput rid r (tbl_reservations d)"
  by (simp_all add: set_reservation_def)

lemma wf_set_counters [simp]:
  "wf_dict (tbl_resources d) \<Longrightarrow> wf_dict (tbl_resources (set_counters d k p u))"
  by (auto simp: set_counters_def split: option.splits)

lemma db_view_set_counters:
  assumes "map_of (tbl_resources d) k = Some row"
  shows "db_view (set_reservation (set_counters d k p u) rid r) =
         (db_view d)(k \<mapsto> (dval (row_capacity row), dval p, dval u))"
  using assms by (auto simp: db_view_def fun_eq_iff)

lemma sq_transaction_cases:
  assumes "sq_transaction fault body d = (res, d')"
  shows "d' = d \<and> (\<forall>a. res = Inr a \<longrightarrow> body d = Inr (a, d)) \<or> (\<exists>a. res = Inr a \<and> body d = Inr (a, d'))"
  using assms by (auto simp: sq_transaction_def split: sum.splits option.splits)

lemma sq_transaction_ok [simp]: "sq_transaction None body d =
    (case body d of Inl e \<Rightarrow> (Inl e, d) | Inr (a, d') \<Rightarrow> (Inr a, d'))"
  by (simp add: sq_transaction_def split: sum.split prod.split)

subsection \<open>The settling step\<close>

lemma ledger_ok_move:
  assumes l: "ledger_ok v rs" and v: "v k = Some (cap, p0, u0)"
    and h: "\<And>j. held rs' j = held rs j + (if j = k then p - p0 else 0)"
    and s: "\<And>j. spent rs' j = spent rs j + (if j = k then u - u0 else 0)"
  shows "ledger_ok (v(k \<mapsto> (cap, p, u))) rs'"
  unfolding ledger_ok_def
proof
  fix j
  from l have "case v j of None \<Rightarrow> held rs j = 0 \<and> spent rs j = 0
      | Some (c, x, y) \<Rightarrow> held rs j = x \<and> spent rs j = y" by (simp add: ledger_ok_def)
  then show "case (v(k \<mapsto> (cap, p, u))) j of None \<Rightarrow> held rs' j = 0 \<and> spent rs' j = 0
      | Some (c, x, y) \<Rightarrow> held rs' j = x \<and> spent rs' j = y"
    by (auto simp: h s v split: option.splits)
qed

lemma move_ok:
  assumes ok: "db_ok d" and r: "map_of (tbl_reservations d) rid = Some r" "rstate r \<noteq> RELEASED"
    and row: "map_of (tbl_resources d) (resource_id r) = Some row"
    and r': "rkey r' = rkey r" "amount r' = amount r" "resource_id r' = resource_id r"
      "\<And>s. rstate r' \<noteq> OtherState s"
    and sound: "row_sound (row\<lparr>row_reserved := p, row_committed := u\<rparr>)"
    and p: "dval p = dval (row_reserved row) +
        (of_bool (is_open (rstate r')) - of_bool (is_open (rstate r))) * dval (amount r)"
    and u: "dval u = dval (row_committed row) +
        (of_bool (rstate r' = COMMITTED) - of_bool (rstate r = COMMITTED)) * dval (amount r)"
  shows "db_ok (set_reservation (set_counters d (resource_id r) p u) rid r')"
proof -
  let ?d = "set_reservation (set_counters d (resource_id r) p u) rid r'"
  note D = db_okD [OF ok]
  have "ledger_ok ((db_view d)(resource_id r \<mapsto> (dval (row_capacity row), dval p, dval u)))
          (dput rid r' (tbl_reservations d))"
    by (rule ledger_ok_move [OF D(7)], simp add: db_view_def row)
      (simp_all add: held_spent_shift [OF r(1) r'(3,2)] p u)
  then have led: "ledger_ok (db_view ?d) (tbl_reservations ?d)"
    by (simp add: db_view_set_counters [OF row])
  have keys: "keys_ok (tbl_reservations ?d)"
    using keys_ok_dput_old [OF D(6) r(1) r'(1)] by simp
  have rows: "row_sound row'" if "map_of (tbl_resources ?d) k = Some row'" for k row'
    using that sound row D(3) by (auto split: if_splits)
  have rs: "resv_sound ?d q" if "map_of (tbl_reservations ?d) i = Some q" for i q
    using that D(4) [of i q] D(4) [OF r(1)] r' by (auto simp: resv_sound_def split: if_splits)
  have cs: "comp_sound ?d cid c" if "map_of (tbl_compensations ?d) cid = Some c" for cid c
    using D(5) [of cid c] that r by (auto simp: comp_sound_def split: option.splits)
  have "wf_dict (tbl_compensations d)" using ok by (simp add: db_ok_def)
  with D(1,2) rows rs cs keys led show ?thesis unfolding db_ok_def by simp
qed

lemma db_ok_covers:
  assumes ok: "db_ok d" and r: "map_of (tbl_reservations d) rid = Some r"
  obtains row where "map_of (tbl_resources d) (resource_id r) = Some row" and "row_sound row"
    and "in_range (amount r)" and "0 < dval (amount r)"
    and "is_open (rstate r) \<Longrightarrow> dval (amount r) \<le> dval (row_reserved row)"
    and "rstate r = COMMITTED \<Longrightarrow> dval (amount r) \<le> dval (row_committed row)"
proof -
  note D = db_okD [OF ok]
  from D(4) [OF r] obtain row where row: "map_of (tbl_resources d) (resource_id r) = Some row"
    and a: "in_range (amount r)" "0 < dval (amount r)" by (auto simp: resv_sound_def)
  have nn: "0 \<le> held_weight (resource_id r) q" "0 \<le> spent_weight (resource_id r) q"
    if "(i, q) \<in> set (tbl_reservations d)" for i q
  proof -
    have "map_of (tbl_reservations d) i = Some q" using wf_dict_map_of [OF D(1)] that by blast
    from D(4) [OF this] have "0 < dval (amount q)" by (simp add: resv_sound_def)
    then show "0 \<le> held_weight (resource_id r) q" "0 \<le> spent_weight (resource_id r) q"
      by (simp_all add: held_weight_def spent_weight_def)
  qed
  have "held_weight (resource_id r) r \<le> held (tbl_reservations d) (resource_id r)"
    "spent_weight (resource_id r) r \<le> spent (tbl_reservations d) (resource_id r)"
    unfolding held_def spent_def
    by (rule dict_sum_member_le [where w = "held_weight (resource_id r)", OF r nn(1)], assumption)
      (rule dict_sum_member_le [where w = "spent_weight (resource_id r)", OF r nn(2)], assumption)
  moreover have "held (tbl_reservations d) (resource_id r) = dval (row_reserved row)"
    "spent (tbl_reservations d) (resource_id r) = dval (row_committed row)"
    using D(7) [unfolded ledger_ok_def, rule_format, of "resource_id r"] row by (simp_all add: db_view_def)
  ultimately show thesis
    by (intro that [OF row D(3) [OF row] a]) (simp_all add: held_weight_def spent_weight_def)
qed

text \<open>
  On sound tables a settling step never fails: the counter covers the amount and the decimal
  operations are exact. \<open>settled_by\<close> says what is left behind.
\<close>

definition moved :: "database \<Rightarrow> string \<Rightarrow> reservation \<Rightarrow> reservation \<Rightarrow> database \<Rightarrow> bool" where
  "moved d rid r r' d' \<longleftrightarrow> db_ok d' \<and>
     tbl_reservations d' = dput rid r' (tbl_reservations d) \<and>
     tbl_compensations d' = tbl_compensations d \<and>
     (\<exists>cap p u. db_view d (resource_id r) = Some (cap, p, u) \<and>
       db_view d' = (db_view d)(resource_id r \<mapsto>
         (cap, p + (of_bool (is_open (rstate r')) - of_bool (is_open (rstate r))) * dval (amount r),
               u + (of_bool (rstate r' = COMMITTED) - of_bool (rstate r = COMMITTED)) * dval (amount r))))"

lemma movedI:
  assumes ok: "db_ok d" and r: "map_of (tbl_reservations d) rid = Some r" "rstate r \<noteq> RELEASED"
    and row: "map_of (tbl_resources d) (resource_id r) = Some row" "row_sound row"
    and r': "rkey r' = rkey r" "amount r' = amount r" "resource_id r' = resource_id r"
      "\<And>s. rstate r' \<noteq> OtherState s"
    and pu: "in_range p" "in_range u" "0 \<le> dval p" "0 \<le> dval u"
      "dval p + dval u \<le> dval (row_capacity row)"
    and p: "dval p = dval (row_reserved row) +
        (of_bool (is_open (rstate r')) - of_bool (is_open (rstate r))) * dval (amount r)"
    and u: "dval u = dval (row_committed row) +
        (of_bool (rstate r' = COMMITTED) - of_bool (rstate r = COMMITTED)) * dval (amount r)"
  shows "moved d rid r r' (set_reservation (set_counters d (resource_id r) p u) rid r')"
proof -
  have "row_sound (row\<lparr>row_reserved := p, row_committed := u\<rparr>)"
    using row(2) pu by (simp add: row_sound_def)
  from move_ok [OF ok r row(1) r' this p u] show ?thesis
    by (simp add: moved_def db_view_set_counters [OF row(1)] p u) (simp add: db_view_def row(1))
qed

lemma in_range_le_capacity:
  assumes "row_sound row" and "0 \<le> x" and "x \<le> dval (row_capacity row)"
  shows "\<bar>x\<bar> < decimal_limit"
  using assms by (auto simp: row_sound_def in_range_def)

lemma settle_commit_moves:
  assumes ok: "db_ok d" and r: "map_of (tbl_reservations d) rid = Some r" and o: "is_open (rstate r)"
  obtains d' where "settle_commit rid r now a f d = Inr (a, d')"
    and "moved d rid r (r\<lparr>rstate := COMMITTED, committed_at := Some now\<rparr>) d'"
proof -
  obtain row where row: "map_of (tbl_resources d) (resource_id r) = Some row" "row_sound row"
    and x: "in_range (amount r)" "0 < dval (amount r)" "dval (amount r) \<le> dval (row_reserved row)"
    using db_ok_covers [OF ok r] o by metis
  note b = in_range_le_capacity [OF row(2)]
  from row(2) have s: "in_range (row_reserved row)" "in_range (row_committed row)"
    "0 \<le> dval (row_committed row)"
    "dval (row_reserved row) + dval (row_committed row) \<le> dval (row_capacity row)"
    by (auto simp: row_sound_def)
  obtain p where p: "decimal_subtract (row_reserved row) (amount r) = Inr p"
    "dval p = dval (row_reserved row) - dval (amount r)" "in_range p"
    by (rule decimal_subtract_in_range [OF s(1) x(1) b]) (use s x in auto)
  obtain u where u: "decimal_add (row_committed row) (amount r) = Inr u"
    "dval u = dval (row_committed row) + dval (amount r)" "in_range u"
    by (rule decimal_add_in_range [OF s(2) x(1) b]) (use s x in auto)
  show thesis
  proof (rule that)
    show "settle_commit rid r now a f d = Inr (a, set_reservation (set_counters d (resource_id r) p u)
            rid (r\<lparr>rstate := COMMITTED, committed_at := Some now\<rparr>))"
      using x(3) by (simp add: settle_commit_def row p(1) u(1) dlt_dval)
    show "moved d rid r (r\<lparr>rstate := COMMITTED, committed_at := Some now\<rparr>)
            (set_reservation (set_counters d (resource_id r) p u) rid
              (r\<lparr>rstate := COMMITTED, committed_at := Some now\<rparr>))"
      by (rule movedI [OF ok r _ row]) (use p u s x o in \<open>auto simp: is_open_def\<close>)
  qed
qed

lemma settle_release_moves:
  assumes ok: "db_ok d" and r: "map_of (tbl_reservations d) rid = Some r" and o: "is_open (rstate r)"
  obtains d' where "settle_release rid r now a f d = Inr (a, d')"
    and "moved d rid r (r\<lparr>rstate := RELEASED, released_at := Some now\<rparr>) d'"
proof -
  obtain row where row: "map_of (tbl_resources d) (resource_id r) = Some row" "row_sound row"
    and x: "in_range (amount r)" "0 < dval (amount r)" "dval (amount r) \<le> dval (row_reserved row)"
    using db_ok_covers [OF ok r] o by metis
  from row(2) have s: "in_range (row_reserved row)" "in_range (row_committed row)"
    "0 \<le> dval (row_committed row)"
    "dval (row_reserved row) + dval (row_committed row) \<le> dval (row_capacity row)"
    by (auto simp: row_sound_def)
  obtain p where p: "decimal_subtract (row_reserved row) (amount r) = Inr p"
    "dval p = dval (row_reserved row) - dval (amount r)" "in_range p"
    by (rule decimal_subtract_in_range [OF s(1) x(1) in_range_le_capacity [OF row(2)]]) (use s x in auto)
  show thesis
  proof (rule that)
    show "settle_release rid r now a f d = Inr (a, set_reservation
            (set_counters d (resource_id r) p (row_committed row))
            rid (r\<lparr>rstate := RELEASED, released_at := Some now\<rparr>))"
      using x(3) by (simp add: settle_release_def row p(1) dlt_dval)
    show "moved d rid r (r\<lparr>rstate := RELEASED, released_at := Some now\<rparr>)
            (set_reservation (set_counters d (resource_id r) p (row_committed row)) rid
              (r\<lparr>rstate := RELEASED, released_at := Some now\<rparr>))"
      by (rule movedI [OF ok r _ row]) (use p s x o in \<open>auto simp: is_open_def\<close>)
  qed
qed

lemma settle_refund_moves:
  assumes ok: "db_ok d" and r: "map_of (tbl_reservations d) rid = Some r" and c: "rstate r = COMMITTED"
  obtains d' where "settle_refund rid r now a f d = Inr (a, d')"
    and "moved d rid r (r\<lparr>rstate := REFUNDED, refunded_at := Some now\<rparr>) d'"
proof -
  obtain row where row: "map_of (tbl_resources d) (resource_id r) = Some row" "row_sound row"
    and x: "in_range (amount r)" "0 < dval (amount r)" "dval (amount r) \<le> dval (row_committed row)"
    using db_ok_covers [OF ok r] c by metis
  from row(2) have s: "in_range (row_reserved row)" "in_range (row_committed row)"
    "0 \<le> dval (row_reserved row)"
    "dval (row_reserved row) + dval (row_committed row) \<le> dval (row_capacity row)"
    by (auto simp: row_sound_def)
  obtain u where u: "decimal_subtract (row_committed row) (amount r) = Inr u"
    "dval u = dval (row_committed row) - dval (amount r)" "in_range u"
    by (rule decimal_subtract_in_range [OF s(2) x(1) in_range_le_capacity [OF row(2)]]) (use s x in auto)
  show thesis
  proof (rule that)
    show "settle_refund rid r now a f d = Inr (a, set_reservation
            (set_counters d (resource_id r) (row_reserved row) u)
            rid (r\<lparr>rstate := REFUNDED, refunded_at := Some now\<rparr>))"
      using x(3) by (simp add: settle_refund_def row u(1) dlt_dval)
    show "moved d rid r (r\<lparr>rstate := REFUNDED, refunded_at := Some now\<rparr>)
            (set_reservation (set_counters d (resource_id r) (row_reserved row) u) rid
              (r\<lparr>rstate := REFUNDED, refunded_at := Some now\<rparr>))"
      by (rule movedI [OF ok r _ row]) (use u s x c in \<open>auto simp: is_open_def\<close>)
  qed
qed

subsection \<open>Reserving and registering\<close>

lemma sq_decimal_Some:
  assumes "sq_decimal z a = Some x"
  shows "a = AFin x \<and> in_range x \<and> 0 \<le> dval x \<and> (\<not> z \<longrightarrow> 0 < dval x)"
proof -
  from assms have a: "a = AFin x" and c: "0 \<le> coef x" "\<not> z \<longrightarrow> 0 < coef x"
    and "validate_decimal_bounds x = Inr x"
    by (cases a; auto simp: validate_decimal_bounds_def MAX_DECIMAL_DIGITS_def
        MAX_DECIMAL_EXPONENT_def MAX_DECIMAL_ADJUSTED_def split: if_splits)+
  from validate_in_range [OF this(4)] have "in_range x" by simp
  moreover have "0 \<le> dval x" "\<not> z \<longrightarrow> 0 < dval x"
    using c by (simp_all add: dval_pos_coef) (simp add: dval_def)
  ultimately show ?thesis using a by simp
qed

definition new_reservation :: "string \<Rightarrow> dec \<Rightarrow> string \<Rightarrow> rat \<Rightarrow> reservation" where
  "new_reservation key x k now =
     \<lparr>rkey = key, amount = x, resource_id = k, rstate = RESERVED, created_at = now,
      committed_at = None, released_at = None, refunded_at = None\<rparr>"

lemma insert_reservation_ok:
  assumes ok: "db_ok d" and row: "map_of (tbl_resources d) k = Some row"
    and key: "find_key key (tbl_reservations d) = None" and u: "map_of (tbl_reservations d) uuid = None"
    and x: "in_range x" "0 < dval x" and p: "in_range p" "dval p = dval (row_reserved row) + dval x"
    and cap: "dval p + dval (row_committed row) \<le> dval (row_capacity row)"
  shows "db_ok (set_reservation (set_counters d k p (row_committed row)) uuid (new_reservation key x k now))"
proof -
  let ?r = "new_reservation key x k now"
  let ?d = "set_reservation (set_counters d k p (row_committed row)) uuid ?r"
  note D = db_okD [OF ok]
  have w: "rkey ?r = key" "amount ?r = x" "resource_id ?r = k" "rstate ?r = RESERVED"
    by (simp_all add: new_reservation_def)
  from D(3) [OF row] have snd: "row_sound row" .
  have "ledger_ok ((db_view d)(k \<mapsto> (dval (row_capacity row), dval p, dval (row_committed row))))
          (dput uuid ?r (tbl_reservations d))"
    by (rule ledger_ok_move [OF D(7)], simp add: db_view_def row)
      (simp_all add: total_updates(3,4) [OF u] held_weight_def spent_weight_def w is_open_def p(2))
  then have led: "ledger_ok (db_view ?d) (tbl_reservations ?d)"
    by (simp add: db_view_set_counters [OF row])
  have keys: "keys_ok (tbl_reservations ?d)"
    using keys_ok_dput_new [OF D(6) u] key w by simp
  have rows: "row_sound row'" if "map_of (tbl_resources ?d) j = Some row'" for j row'
    using that snd D(3) [of j] p x cap by (auto simp: row_sound_def row split: if_splits)
  have rs: "resv_sound ?d q" if "map_of (tbl_reservations ?d) i = Some q" for i q
    using that D(4) [of i q] x w by (auto simp: resv_sound_def row split: if_splits)
  have cs: "comp_sound ?d cid c" if "map_of (tbl_compensations ?d) cid = Some c" for cid c
    using D(5) [of cid c] that u by (auto simp: comp_sound_def split: option.splits)
  have "wf_dict (tbl_compensations d)" using ok by (simp add: db_ok_def)
  with D(1,2) rows rs cs keys led show ?thesis unfolding db_ok_def by simp
qed

text \<open>The body of \<open>reserve\<close> on sound tables, branch by branch.\<close>

lemma reserve_body_exact:
  assumes ok: "db_ok d" and x: "in_range x" "0 < dval x"
    and key: "find_key key (tbl_reservations d) = None"
    and row: "map_of (tbl_resources d) k = Some row"
  shows "dval (row_capacity row) < dval (row_reserved row) + dval (row_committed row) + dval x \<Longrightarrow>
           reserve_body key x k uuid now d = Inr ((INSUFFICIENT_BUDGET, None, None), d)"
    and "dval (row_reserved row) + dval (row_committed row) + dval x \<le> dval (row_capacity row) \<Longrightarrow>
         if map_of (tbl_reservations d) uuid \<noteq> None
         then reserve_body key x k uuid now d = Inl IntegrityError
         else \<exists>d'. reserve_body key x k uuid now d = Inr ((St RESERVED, Some uuid, Some x), d') \<and>
                db_ok d' \<and> tbl_reservations d' = dput uuid (new_reservation key x k now) (tbl_reservations d) \<and>
                tbl_compensations d' = tbl_compensations d \<and>
                db_view d' = (db_view d)(k \<mapsto>
                  (dval (row_capacity row), dval (row_reserved row) + dval x, dval (row_committed row)))"
proof -
  have rs: "row_sound row" using db_okD(3) [OF ok row] .
  then have s: "in_range (row_reserved row)" "in_range (row_committed row)"
    "0 \<le> dval (row_reserved row)" "0 \<le> dval (row_committed row)"
    "dval (row_reserved row) + dval (row_committed row) \<le> dval (row_capacity row)"
    by (auto simp: row_sound_def)
  note b = in_range_le_capacity [OF rs]
  obtain t where t: "decimal_add (row_reserved row) (row_committed row) = Inr t"
    "dval t = dval (row_reserved row) + dval (row_committed row)" "in_range t"
    by (rule decimal_add_in_range [OF s(1,2) b]) (use s in auto)
  obtain z where z: "decimal_add t x = Inr z"
    using decimal_add_Inr [OF in_range_arith_ok [OF t(3)] in_range_arith_ok [OF x(1)]] .
  have vz: "dval z = dval (row_reserved row) + dval (row_committed row) + dval x"
    using decimal_add_dval [OF z] t by simp
  show "dval (row_capacity row) < dval (row_reserved row) + dval (row_committed row) + dval x \<Longrightarrow>
           reserve_body key x k uuid now d = Inr ((INSUFFICIENT_BUDGET, None, None), d)"
    by (simp add: reserve_body_def key row t z dlt_dval vz)
  assume fit: "dval (row_reserved row) + dval (row_committed row) + dval x \<le> dval (row_capacity row)"
  obtain p where p: "decimal_add (row_reserved row) x = Inr p"
    "dval p = dval (row_reserved row) + dval x" "in_range p"
    by (rule decimal_add_in_range [OF s(1) x(1) b]) (use s x fit in auto)
  let ?d = "set_reservation (set_counters d k p (row_committed row)) uuid (new_reservation key x k now)"
  show "if map_of (tbl_reservations d) uuid \<noteq> None
         then reserve_body key x k uuid now d = Inl IntegrityError
         else \<exists>d'. reserve_body key x k uuid now d = Inr ((St RESERVED, Some uuid, Some x), d') \<and>
                db_ok d' \<and> tbl_reservations d' = dput uuid (new_reservation key x k now) (tbl_reservations d) \<and>
                tbl_compensations d' = tbl_compensations d \<and>
                db_view d' = (db_view d)(k \<mapsto>
                  (dval (row_capacity row), dval (row_reserved row) + dval x, dval (row_committed row)))"
  proof (cases "map_of (tbl_reservations d) uuid")
    case None
    have "db_ok ?d" by (rule insert_reservation_ok [OF ok row key None x p(3,2)]) (use fit p in simp)
    moreover have "reserve_body key x k uuid now d = Inr ((St RESERVED, Some uuid, Some x), ?d)"
      using fit by (simp add: reserve_body_def key row t z p(1) dlt_dval vz None new_reservation_def)
    ultimately show ?thesis using None
      by (auto simp: db_view_set_counters [OF row] p(2) intro!: exI [of _ ?d])
  qed (use fit in \<open>simp add: reserve_body_def key row t z p(1) dlt_dval vz\<close>)
qed

lemma register_ok:
  assumes ok: "db_ok d" and k: "map_of (tbl_resources d) k = None" and c: "in_range c" "0 \<le> dval c"
  shows "db_ok (d\<lparr>tbl_resources := dput k
    \<lparr>row_capacity = c, row_reserved = dzero, row_committed = dzero\<rparr> (tbl_resources d)\<rparr>)" (is "db_ok ?d")
proof -
  note D = db_okD [OF ok]
  have "held (tbl_reservations d) k = 0 \<and> spent (tbl_reservations d) k = 0"
    using D(7) [unfolded ledger_ok_def, rule_format, of k] k by (simp add: db_view_def)
  with D(7) have "ledger_ok ((db_view d)(k \<mapsto> (dval c, 0, 0))) (tbl_reservations d)"
    by (auto simp: ledger_ok_def)
  moreover have "db_view ?d = (db_view d)(k \<mapsto> (dval c, 0, 0))"
    by (auto simp: db_view_def fun_eq_iff)
  ultimately have led: "ledger_ok (db_view ?d) (tbl_reservations ?d)" by simp
  have "row_sound row" if "map_of (tbl_resources ?d) j = Some row" for j row
    using that D(3) [of j] c by (auto simp: row_sound_def split: if_splits)
  moreover have "resv_sound ?d q" if "map_of (tbl_reservations ?d) i = Some q" for i q
    using that D(4) [of i q] by (auto simp: resv_sound_def)
  moreover have "comp_sound ?d cid q" if "map_of (tbl_compensations ?d) cid = Some q" for cid q
    using D(5) [of cid q] that by (simp add: comp_sound_def)
  moreover have "wf_dict (tbl_compensations d)" using ok by (simp add: db_ok_def)
  ultimately show ?thesis using D(1,2,6) led unfolding db_ok_def by simp
qed

lemma insert_compensation_simps [simp, store_simps]:
  "tbl_reservations (insert_compensation rid r now d) = tbl_reservations d"
  "tbl_resources (insert_compensation rid r now d) = tbl_resources d"
  "db_view (insert_compensation rid r now d) = db_view d"
  by (simp_all add: insert_compensation_def db_view_def fun_eq_iff)

lemma map_of_insert_compensation:
  "map_of (tbl_compensations (insert_compensation rid r now d)) cid = Some c \<Longrightarrow>
     map_of (tbl_compensations d) cid = Some c \<or>
     cid = compensation_id rid \<and> c =
       \<lparr>comp_original = rid, comp_resource = resource_id r, comp_amount = amount r,
        comp_status = REQUIRED, comp_reason = late_reason, comp_created = now\<rparr>"
  by (auto simp: insert_compensation_def split: if_splits)

lemma insert_compensation_ok:
  assumes ok: "db_ok d" and r: "map_of (tbl_reservations d) rid = Some r" "rstate r = RELEASED"
  shows "db_ok (insert_compensation rid r now d)" (is "db_ok ?d")
proof -
  note D = db_okD [OF ok]
  have "comp_sound ?d cid c" if "map_of (tbl_compensations ?d) cid = Some c" for cid c
    using map_of_insert_compensation [OF that] D(5) [of cid c] r by (auto simp: comp_sound_def)
  moreover have "wf_dict (tbl_compensations ?d)" using ok by (simp add: db_ok_def insert_compensation_def)
  moreover have "resv_sound ?d q = resv_sound d q" for q by (simp add: resv_sound_def)
  ultimately show ?thesis using D by (simp add: db_ok_def)
qed

lemma mark_body_ok:
  assumes ok: "db_ok d" and m: "mark_body rid d = Inr (a, d')"
  shows "db_ok d' \<and> db_view d' = db_view d \<and> tbl_compensations d' = tbl_compensations d \<and>
    (d' = d \<or> (\<exists>r. map_of (tbl_reservations d) rid = Some r \<and> rstate r = RESERVED \<and>
       tbl_reservations d' = dput rid (r\<lparr>rstate := UNKNOWN\<rparr>) (tbl_reservations d)))"
proof (cases "\<exists>r. map_of (tbl_reservations d) rid = Some r \<and> rstate r = RESERVED")
  case True
  then obtain r where r: "map_of (tbl_reservations d) rid = Some r" "rstate r = RESERVED" by blast
  with m have d': "d' = set_reservation d rid (r\<lparr>rstate := UNKNOWN\<rparr>)" by (simp add: mark_body_def)
  obtain row where row: "map_of (tbl_resources d) (resource_id r) = Some row" "row_sound row"
    using db_ok_covers [OF ok r(1)] by metis
  have same: "set_counters d (resource_id r) (row_reserved row) (row_committed row) = d"
    by (simp add: set_counters_def row dput_same)
  have "db_ok d'"
    unfolding d' using move_ok [OF ok r(1) _ row(1), where r' = "r\<lparr>rstate := UNKNOWN\<rparr>" and
        p = "row_reserved row" and u = "row_committed row"] r(2) row(2)
    by (simp add: same is_open_def)
  then show ?thesis using r by (auto simp: d' db_view_def fun_eq_iff)
next
  case False
  with m have "d' = d" by (auto simp: mark_body_def split: option.splits)
  with ok show ?thesis by simp
qed

subsection \<open>Runs\<close>

text \<open>
  The transactions other processes see: \<open>SqMark\<close> and \<open>SqFinish\<close> are the second half of a
  reconcile, whatever its first half read. Each may be stopped by the fault before \<open>COMMIT\<close>.
\<close>

datatype sq_request =
    SqRegister string amount_in
  | SqReserve string amount_in string string rat
  | SqCommit string rat
  | SqRelease string rat
  | SqRefund string rat
  | SqMark string
  | SqFinish string "bool option" rat

fun sq_step :: "database \<Rightarrow> sq_request \<times> pyexn option \<Rightarrow> database" where
  "sq_step d (SqRegister k cap, fault) = snd (sq_register fault k cap d)"
| "sq_step d (SqReserve key amt k uuid now, fault) = snd (sq_reserve fault key amt k uuid now d)"
| "sq_step d (SqCommit rid now, fault) = snd (sq_commit fault rid now d)"
| "sq_step d (SqRelease rid now, fault) = snd (sq_release fault rid now d)"
| "sq_step d (SqRefund rid now, fault) = snd (sq_refund fault rid now d)"
| "sq_step d (SqMark rid, fault) = snd (sq_transaction fault (mark_body rid) d)"
| "sq_step d (SqFinish rid eff now, fault) = snd (sq_transaction fault (finish_body rid eff now) d)"

text \<open>How the tables may change: rows stay, a reservation advances, capacities are fixed.\<close>

definition sq_le :: "database \<Rightarrow> database \<Rightarrow> bool" where
  "sq_le d d' \<longleftrightarrow> registry_le (tbl_reservations d) (tbl_reservations d') \<and>
     (\<forall>cid c. map_of (tbl_compensations d) cid = Some c \<longrightarrow> map_of (tbl_compensations d') cid = Some c) \<and>
     (\<forall>k cap p u. db_view d k = Some (cap, p, u) \<longrightarrow> (\<exists>p' u'. db_view d' k = Some (cap, p', u')))"

lemma sq_le_refl [simp]: "sq_le d d"
  by (simp add: sq_le_def)

lemma sq_le_trans: "sq_le a b \<Longrightarrow> sq_le b c \<Longrightarrow> sq_le a c"
  unfolding sq_le_def by (blast intro: registry_le_trans)

definition good :: "database \<Rightarrow> database \<Rightarrow> bool" where
  "good d d' \<longleftrightarrow> db_ok d' \<and> sq_le d d'"

lemma good_refl [simp]: "good d d = db_ok d"
  by (simp add: good_def)

lemma moved_good:
  assumes "moved d rid r r' d'" and "map_of (tbl_reservations d) rid = Some r" and "resv_le r r'"
  shows "good d d'"
  using assms registry_le_move [OF assms(2,3)] 
  by (auto simp: good_def moved_def sq_le_def split: option.split)

lemma settle_good:
  assumes ok: "db_ok d" and r: "map_of (tbl_reservations d) rid = Some r"
  shows "is_open (rstate r) \<Longrightarrow> settle_commit rid r now a f d = Inr (x, d') \<Longrightarrow> good d d'"
    and "is_open (rstate r) \<Longrightarrow> settle_release rid r now a f d = Inr (x, d') \<Longrightarrow> good d d'"
    and "rstate r = COMMITTED \<Longrightarrow> settle_refund rid r now a f d = Inr (x, d') \<Longrightarrow> good d d'"
proof -
  note g = moved_good [OF _ r]
  show "is_open (rstate r) \<Longrightarrow> settle_commit rid r now a f d = Inr (x, d') \<Longrightarrow> good d d'"
    by (rule settle_commit_moves [OF ok r, of now a f]) (auto intro!: g simp: resv_le_def state_le_def)
  show "is_open (rstate r) \<Longrightarrow> settle_release rid r now a f d = Inr (x, d') \<Longrightarrow> good d d'"
    by (rule settle_release_moves [OF ok r, of now a f]) (auto intro!: g simp: resv_le_def state_le_def)
  show "rstate r = COMMITTED \<Longrightarrow> settle_refund rid r now a f d = Inr (x, d') \<Longrightarrow> good d d'"
    by (rule settle_refund_moves [OF ok r, of now a f]) (auto intro!: g simp: resv_le_def state_le_def)
qed

lemma transaction_good:
  assumes "db_ok d" and "\<And>a d'. body d = Inr (a, d') \<Longrightarrow> good d d'"
  shows "good d (snd (sq_transaction fault body d))"
  using assms by (auto simp: sq_transaction_def split: sum.splits option.splits)

lemma reserve_body_good:
  assumes ok: "db_ok d" and x: "in_range x" "0 < dval x" and b: "reserve_body key x k uuid now d = Inr (a, d')"
  shows "good d d'"
proof (cases "find_key key (tbl_reservations d) = None \<and> map_of (tbl_resources d) k \<noteq> None")
  case False
  with b have "d' = d" by (auto simp: reserve_body_def split: option.splits prod.splits)
  with ok show ?thesis by simp
next
  case True
  then obtain row where k: "find_key key (tbl_reservations d) = None" "map_of (tbl_resources d) k = Some row"
    by auto
  note e = reserve_body_exact [OF ok x k, of uuid now]
  show ?thesis
  proof (cases "dval (row_capacity row) < dval (row_reserved row) + dval (row_committed row) + dval x")
    case True
    with e(1) b ok show ?thesis by simp
  next
    case False
    have "db_view d k =
        Some (dval (row_capacity row), dval (row_reserved row), dval (row_committed row))"
      by (simp add: db_view_def k)
    with e(2) b False show ?thesis
      by (auto simp: good_def sq_le_def registry_le_new split: if_splits)
  qed
qed

lemma finish_body_good:
  assumes ok: "db_ok d" and b: "finish_body rid eff now d = Inr (a, d')"
  shows "good d d'"
proof -
  from b obtain r where r: "map_of (tbl_reservations d) rid = Some r"
    by (auto simp: finish_body_def split: option.splits)
  have "good d (insert_compensation rid r now d)" if "rstate r = RELEASED"
    using insert_compensation_ok [OF ok r that, of now] ok db_okD(5) [OF ok]
    by (auto simp: good_def sq_le_def insert_compensation_def db_view_def comp_sound_def split: option.split
        dest!: map_of_SomeD)
  with b r settle_good [OF ok r, of now] ok show ?thesis
    by (auto simp: finish_body_def split: option.splits bool.splits if_splits)
qed

lemma sq_register_good: "db_ok d \<Longrightarrow> good d (snd (sq_register fault k cap d))"
proof (cases "sq_decimal True cap")
  case (Some c)
  assume ok: "db_ok d"
  from sq_decimal_Some [OF Some] have c: "in_range c" "0 \<le> dval c" by auto
  show ?thesis
  proof (cases "k = []")
    case False
    show ?thesis unfolding sq_register_def Some option.case if_not_P [OF False]
    proof (rule transaction_good [OF ok])
      fix a d'
      assume "(case map_of (tbl_resources d) k of
          Some row \<Rightarrow> Inr (if deq (row_capacity row) c then ALREADY_REGISTERED else RESOURCE_CONFLICT, d)
        | None \<Rightarrow> Inr (REGISTERED, d\<lparr>tbl_resources := dput k
            \<lparr>row_capacity = c, row_reserved = dzero, row_committed = dzero\<rparr> (tbl_resources d)\<rparr>)) =
        (Inr (a, d') :: (register_status \<times> database) result)"
      with ok register_ok [OF ok _ c, of k] show "good d d'"
        by (auto simp: good_def sq_le_def db_view_def split: option.splits if_splits)
    qed
  qed (use ok in \<open>simp add: sq_register_def Some\<close>)
qed (simp add: sq_register_def)

lemma sq_reserve_good: "db_ok d \<Longrightarrow> good d (snd (sq_reserve fault key amt k uuid now d))"
proof (cases "sq_decimal False amt")
  case (Some x)
  assume ok: "db_ok d"
  from sq_decimal_Some [OF Some] have x: "in_range x" "0 < dval x" by auto
  have "good d (snd (sq_transaction fault (reserve_body key x k uuid now) d))"
    by (rule transaction_good [OF ok reserve_body_good [OF ok x]])
  with ok show ?thesis by (auto simp: sq_reserve_def Some)
qed (simp add: sq_reserve_def)

lemma sq_settling_good:
  assumes ok: "db_ok d"
  shows "good d (snd (sq_commit fault rid now d))" and "good d (snd (sq_release fault rid now d))"
    and "good d (snd (sq_refund fault rid now d))"
  unfolding sq_commit_def sq_release_def sq_refund_def
  by (rule transaction_good [OF ok];
      auto simp: ok is_open_def intro: settle_good [OF ok] split: option.splits if_splits)+

lemma sq_step_good: "db_ok d \<Longrightarrow> good d (sq_step d r)"
proof (induction d r rule: sq_step.induct)
  case (6 d rid fault)
  have "good d d'" if "mark_body rid d = Inr (a, d')" for a d'
  proof -
    have "resv_le r (r\<lparr>rstate := UNKNOWN\<rparr>)" if "rstate r = RESERVED" for r
      using that by (simp add: resv_le_def state_le_def is_open_def)
    then show ?thesis using mark_body_ok [OF 6 that]
      by (auto simp: good_def sq_le_def registry_le_move)
  qed
  with 6 show ?case by (simp add: transaction_good)
next
  case (7 d rid eff now fault)
  then show ?case by (simp add: transaction_good finish_body_good)
qed (simp_all add: sq_register_good sq_reserve_good sq_settling_good)

interpretation sqlite: machine_order sq_step db_ok sq_le
  by unfold_locales (auto intro: sq_le_trans dest: sq_step_good simp: good_def)

text \<open>A reconcile is one of these transactions, or changes nothing.\<close>

lemma sq_reconcile_step:
  assumes "sq_reconcile fault prov key now d0 d = (res, d')"
  shows "d' = d \<or> (\<exists>rid. d' = sq_step d (SqMark rid, fault)) \<or>
         (\<exists>rid eff. d' = sq_step d (SqFinish rid eff now, fault))"
proof (cases "reconcile_lookup prov key d0")
  case (MarkUnknown rid)
  with assms have "d' = sq_step d (SqMark rid, fault)" by (simp add: sq_reconcile_def)
  then show ?thesis by blast
next
  case (Observed rid eff)
  with assms have "d' = sq_step d (SqFinish rid eff now, fault)" by (simp add: sq_reconcile_def)
  then show ?thesis by blast
qed (use assms in \<open>simp add: sq_reconcile_def\<close>)

definition empty_database :: database where
  "empty_database = \<lparr>tbl_resources = [], tbl_reservations = [], tbl_compensations = []\<rparr>"

lemma empty_database_ok: "db_ok empty_database"
  by (simp add: db_ok_def empty_database_def keys_ok_def ledger_ok_def db_view_def held_def spent_def)

end
