(* ===== verification/Sqlite_Guarantees.thy ===== *)
theory Sqlite_Guarantees
  imports Sqlite_Ledger "HOL-Library.Multiset"
begin

section \<open>What the SQLite backend promises\<close>

text \<open>
  Properties of every run of transactions of any number of processes, with faults before any
  \<open>COMMIT\<close>, from empty tables or from any tables that satisfy the invariant.
\<close>

lemma find_key_ok:
  assumes "keys_ok rs" and "map_of rs rid = Some r"
  shows "find_key (rkey r) rs = Some (rid, r)"
  using assms
proof (induction rs)
  case (Cons q rs)
  obtain i s where q: "q = (i, s)" by (cases q)
  show ?case
  proof (cases "rkey s = rkey r")
    case True
    have "rkey r \<notin> (\<lambda>kv. rkey (snd kv)) ` set rs"
      using Cons.prems(1) True by (simp add: keys_ok_def q)
    then have "map_of rs rid \<noteq> Some r" by (force dest: map_of_SomeD)
    with Cons.prems(2) q have "i = rid" "s = r" by (auto split: if_splits)
    then show ?thesis by (simp add: find_key_def q)
  next
    case False
    with Cons q show ?thesis by (auto simp: find_key_def keys_ok_def split: if_splits)
  qed
qed simp

lemma find_key_SomeD:
  assumes "find_key key rs = Some (rid, r)"
  shows "(rid, r) \<in> set rs" and "rkey r = key"
  using find_SomeD [OF assms [unfolded find_key_def]] by auto

text \<open>
  C7. The ledger of the SQLite store. After any transactions, committed or stopped before
  \<open>COMMIT\<close>, with reconciles acting on reads as old as they like: the counters of a resource are
  exactly the totals of its open and of its committed reservations, and they fit its capacity.
\<close>

theorem sqlite_ledger:
  "let d = foldl sq_step empty_database rs in
   case db_view d k of
     None \<Rightarrow> held (tbl_reservations d) k = 0 \<and> spent (tbl_reservations d) k = 0
   | Some (cap, p, u) \<Rightarrow>
       p = held (tbl_reservations d) k \<and> u = spent (tbl_reservations d) k \<and>
       0 \<le> p \<and> 0 \<le> u \<and> p + u \<le> cap"
proof -
  let ?d = "foldl sq_step empty_database rs"
  have ok: "db_ok ?d" by (rule sqlite.run_inv [OF empty_database_ok])
  have "row_sound row" if "map_of (tbl_resources ?d) k = Some row" for row
    using db_okD(3) [OF ok that] .
  with db_okD(7) [OF ok, unfolded ledger_ok_def, rule_format, of k] show ?thesis
    by (auto simp: Let_def db_view_def row_sound_def split: option.splits)
qed

text \<open>
  Rows are never lost. A reservation keeps its key, amount, resource and creation time, and
  only moves forward in the life cycle, under any later transactions; a compensation once
  required is never withdrawn or altered.
\<close>

theorem sqlite_rows_advance:
  assumes "db_ok d"
  shows "registry_le (tbl_reservations d) (tbl_reservations (foldl sq_step d rs)) \<and>
    (\<forall>cid c. map_of (tbl_compensations d) cid = Some c \<longrightarrow>
       map_of (tbl_compensations (foldl sq_step d rs)) cid = Some c)"
  using sqlite.run_le [OF assms, of rs] by (simp add: sq_le_def)

lemma sq_le_reservation:
  assumes "sq_le d d'" and "map_of (tbl_reservations d) rid = Some r"
  obtains r' where "map_of (tbl_reservations d') rid = Some r'" and "resv_le r r'"
  using assms unfolding sq_le_def registry_le_def by blast

lemma released_stays: "resv_le r r' \<Longrightarrow> rstate r = RELEASED \<Longrightarrow> rstate r' = RELEASED"
  by (auto simp: resv_le_def state_le_def is_open_def)

text \<open>The one compensation a released reservation may have.\<close>

definition compensated :: "database \<Rightarrow> string \<Rightarrow> reservation \<Rightarrow> bool" where
  "compensated d rid r \<longleftrightarrow>
     (\<exists>c. map_of (tbl_compensations d) (compensation_id rid) = Some c \<and> comp_original c = rid \<and>
          comp_amount c = amount r \<and> comp_resource c = resource_id r \<and> comp_status c = REQUIRED) \<and>
     (\<forall>cid c. map_of (tbl_compensations d) cid = Some c \<and> comp_original c = rid \<longrightarrow>
          cid = compensation_id rid)"

lemma comp_soundD:
  "db_ok d \<Longrightarrow> map_of (tbl_compensations d) cid = Some c \<Longrightarrow>
     cid = compensation_id (comp_original c) \<and> comp_status c = REQUIRED \<and>
     (\<exists>r. map_of (tbl_reservations d) (comp_original c) = Some r \<and> rstate r = RELEASED \<and>
        comp_amount c = amount r \<and> comp_resource c = resource_id r)"
  by (drule db_okD(5), assumption) (simp add: comp_sound_def split: option.splits)

lemma compensatedI:
  assumes ok: "db_ok d" and r: "map_of (tbl_reservations d) rid = Some r"
    and c: "map_of (tbl_compensations d) cid = Some c" "comp_original c = rid"
  shows "compensated d rid r"
proof -
  note id = comp_soundD [OF ok, THEN conjunct1]
  from comp_soundD [OF ok c(1)] c r have
    "cid = compensation_id rid" "comp_status c = REQUIRED" "comp_amount c = amount r"
    "comp_resource c = resource_id r" by simp_all
  with c show ?thesis unfolding compensated_def by (blast dest: id)
qed

lemma insert_compensation_done:
  assumes ok: "db_ok d" and r: "map_of (tbl_reservations d) rid = Some r" "rstate r = RELEASED"
  shows "compensated (insert_compensation rid r now d) rid r"
proof -
  let ?d = "insert_compensation rid r now d"
  have ok': "db_ok ?d" by (rule insert_compensation_ok [OF ok r])
  have wf: "wf_dict (tbl_compensations d)" using ok by (simp add: db_ok_def)
  have "\<exists>cid c. map_of (tbl_compensations ?d) cid = Some c \<and> comp_original c = rid"
  proof (cases "\<exists>(c, row) \<in> set (tbl_compensations d). c = compensation_id rid \<or> comp_original row = rid")
    case True
    then obtain c row where m: "map_of (tbl_compensations d) c = Some row"
      and "c = compensation_id rid \<or> comp_original row = rid"
      using wf_dict_map_of [OF wf] by blast
    with comp_soundD [OF ok m] True show ?thesis
      by (auto simp: insert_compensation_def compensation_id_def)
  qed (auto simp: insert_compensation_def)
  with compensatedI [OF ok' _] r show ?thesis by auto
qed

lemma compensated_stays:
  assumes ok: "db_ok d" and c: "compensated d rid r" and r: "map_of (tbl_reservations d) rid = Some r"
    and le: "sq_le d d'" "db_ok d'"
  shows "compensated d' rid r"
proof -
  from c obtain c where c: "map_of (tbl_compensations d) (compensation_id rid) = Some c"
    "comp_original c = rid" by (auto simp: compensated_def)
  with le have c': "map_of (tbl_compensations d') (compensation_id rid) = Some c" by (simp add: sq_le_def)
  obtain r' where r': "map_of (tbl_reservations d') rid = Some r'" "resv_le r r'"
    using le(1) r by (rule sq_le_reservation)
  from compensatedI [OF le(2) r'(1) c' c(2)] r'(2) show ?thesis
    by (simp add: compensated_def resv_le_def)
qed

text \<open>What a reconcile that asked the provider works on: the row, wherever it has moved since.\<close>

lemma reconcile_lookup_observed:
  assumes ok: "db_ok d0" and r0: "map_of (tbl_reservations d0) rid = Some r0" "rstate r0 \<noteq> COMMITTED"
    and f: "f (rkey r0) = Inr eff"
  shows "sq_reconcile fault (Some f) (rkey r0) now d0 d = sq_transaction fault (finish_body rid eff now) d"
  using find_key_ok [OF db_okD(6) [OF ok] r0(1)] r0(2) f
  by (simp add: sq_reconcile_def reconcile_lookup_def)

text \<open>
  Late effects. When the provider confirms an effect whose reservation has been released
  (already when the reconcile read it, or by another process while the provider was asked), the
  answer is a conflict naming the compensation, the budget and the reservations do not move, and
  from then on, under any later transactions, the reservation has exactly one compensation,
  required, for its amount.
\<close>

theorem sqlite_late_effect:
  assumes "db_ok d0" and "map_of (tbl_reservations d0) rid = Some r0"
    and "db_ok d" and "sq_le d0 d" and "map_of (tbl_reservations d) rid = Some r" and "rstate r = RELEASED"
    and "f (rkey r0) = Inr (Some True)"
    and "sq_reconcile None (Some f) (rkey r0) now d0 d = (res, d')"
  shows "res = Inr (RECONCILE_CONFLICT, Some True, Some (compensation_id rid)) \<and>
    db_view d' = db_view d \<and> tbl_reservations d' = tbl_reservations d \<and>
    compensated (foldl sq_step d' rs) rid r"
proof -
  have "resv_le r0 r" using sq_le_reservation [OF assms(4,2)] assms(5) by (metis option.inject)
  then have "rstate r0 \<noteq> COMMITTED" using assms(6) by (auto simp: resv_le_def state_le_def is_open_def)
  from reconcile_lookup_observed [where f = f, OF assms(1,2) this assms(7)] assms(5,6,8)
  have e: "res = Inr (RECONCILE_CONFLICT, Some True, Some (compensation_id rid))"
    "d' = insert_compensation rid r now d"
    by (auto simp: finish_body_def)
  have ok': "db_ok d'" unfolding e(2) by (rule insert_compensation_ok [OF assms(3,5,6)])
  have "compensated d' rid r" unfolding e(2) by (rule insert_compensation_done [OF assms(3,5,6)])
  from compensated_stays [OF ok' this _ sqlite.run_le [OF ok'] sqlite.run_inv [OF ok']] assms(5)
  show ?thesis by (simp add: e)
qed

text \<open>
  C24. A reconcile settles. If the provider answers, then however other processes have moved the
  reservation since the reconcile read it, the reconcile does not raise and its verdict is what
  the tables hold afterwards: an effect that happened leaves the reservation committed and says
  so, or is reported as a conflict because the reservation was already released or refunded; an
  effect that did not happen leaves it released or refunded, and says so unless it was refunded
  before.
\<close>

theorem sqlite_reconcile_settles:
  assumes "db_ok d0" and "map_of (tbl_reservations d0) rid = Some r0" and "rstate r0 \<noteq> COMMITTED"
    and "db_ok d" and "sq_le d0 d" and "f (rkey r0) = Inr (Some b)"
    and "sq_reconcile None (Some f) (rkey r0) now d0 d = (res, d')"
  shows "\<exists>s cid r r'. res = Inr (s, Some b, cid) \<and> map_of (tbl_reservations d) rid = Some r \<and>
    map_of (tbl_reservations d') rid = Some r' \<and>
    (if b then s = CONFIRMED \<and> rstate r' = COMMITTED \<or>
               s = RECONCILE_CONFLICT \<and> r' = r \<and> (rstate r = RELEASED \<or> rstate r = REFUNDED)
     else s = FAILED \<and> (rstate r' = RELEASED \<or> rstate r' = REFUNDED) \<or>
          s = RECONCILE_CONFLICT \<and> r' = r \<and> rstate r = REFUNDED)"
proof -
  obtain r where r: "map_of (tbl_reservations d) rid = Some r" "resv_le r0 r"
    using assms(5,2) by (rule sq_le_reservation)
  have *: "(res, d') = (case finish_body rid (Some b) now d of Inl e \<Rightarrow> (Inl e, d) | Inr (a, d') \<Rightarrow> (Inr a, d'))"
    using reconcile_lookup_observed [where f = f, OF assms(1-3,6)] assms(7) by simp
  have st: "rstate r = RESERVED \<or> rstate r = UNKNOWN \<or> rstate r = COMMITTED \<or> rstate r = RELEASED \<or>
      rstate r = REFUNDED"
    using db_okD(4) [OF assms(4) r(1)] by (cases "rstate r") (auto simp: resv_sound_def)
  consider (commit) "b" "is_open (rstate r)" | (release) "\<not> b" "is_open (rstate r)"
    | (refund) "\<not> b" "rstate r = COMMITTED" | (stay) "b \<or> rstate r \<noteq> COMMITTED" "\<not> is_open (rstate r)"
    by blast
  then show ?thesis
  proof cases
    case commit
    obtain d1 where "settle_commit rid r now (CONFIRMED, Some True, None) (ERROR, Some True, None :: string option) d =
        Inr ((CONFIRMED, Some True, None), d1)"
      "moved d rid r (r\<lparr>rstate := COMMITTED, committed_at := Some now\<rparr>) d1"
      using assms(4) r(1) commit(2) by (rule settle_commit_moves)
    note d1 = this
    have "finish_body rid (Some b) now d = Inr ((CONFIRMED, Some True, None), d1)"
      using d1(1) r(1) commit by (auto simp: finish_body_def is_open_def)
    with * have "res = Inr (CONFIRMED, Some True, None)" "d' = d1" by simp_all
    with d1(2) r(1) commit(1) show ?thesis by (simp add: moved_def)
  next
    case release
    obtain d1 where "settle_release rid r now (FAILED, Some False, None) (ERROR, Some False, None :: string option) d =
        Inr ((FAILED, Some False, None), d1)"
      "moved d rid r (r\<lparr>rstate := RELEASED, released_at := Some now\<rparr>) d1"
      using assms(4) r(1) release(2) by (rule settle_release_moves)
    note d1 = this
    have "finish_body rid (Some b) now d = Inr ((FAILED, Some False, None), d1)"
      using d1(1) r(1) release by (auto simp: finish_body_def is_open_def)
    with * have "res = Inr (FAILED, Some False, None)" "d' = d1" by simp_all
    with d1(2) r(1) release(1) show ?thesis by (simp add: moved_def)
  next
    case refund
    obtain d1 where "settle_refund rid r now (FAILED, Some False, None) (ERROR, Some False, None :: string option) d =
        Inr ((FAILED, Some False, None), d1)"
      "moved d rid r (r\<lparr>rstate := REFUNDED, refunded_at := Some now\<rparr>) d1"
      using assms(4) r(1) refund(2) by (rule settle_refund_moves)
    note d1 = this
    have "finish_body rid (Some b) now d = Inr ((FAILED, Some False, None), d1)"
      using d1(1) r(1) refund by (auto simp: finish_body_def is_open_def)
    with * have "res = Inr (FAILED, Some False, None)" "d' = d1" by simp_all
    with d1(2) r(1) refund(1) show ?thesis by (simp add: moved_def)
  next
    case stay
    with * r st show ?thesis by (cases b) (auto simp: finish_body_def is_open_def)
  qed
qed

text \<open>
  What \<open>reserve\<close> grants. On sound tables, a reserve with a fresh key and identifier for a
  known resource is granted exactly when the amount fits beside what is held and spent; then the
  counter rises by the exact amount and the reservation is recorded, and otherwise nothing
  changes.
\<close>

theorem sqlite_reserve_iff:
  assumes "db_ok d" and "sq_decimal False amt = Some x" and "key \<noteq> []" and "k \<noteq> []"
    and "find_key key (tbl_reservations d) = None" and "map_of (tbl_reservations d) uuid = None"
    and "db_view d k = Some (cap, p, u)" and "sq_reserve None key amt k uuid now d = (res, d')"
  shows "if p + u + dval x \<le> cap
    then res = Inr (St RESERVED, Some uuid, Some x) \<and> db_view d' = (db_view d)(k \<mapsto> (cap, p + dval x, u)) \<and>
         tbl_reservations d' = tbl_reservations d @ [(uuid, new_reservation key x k now)]
    else res = Inr (INSUFFICIENT_BUDGET, None, None) \<and> d' = d"
proof -
  from sq_decimal_Some [OF assms(2)] have x: "in_range x" "0 < dval x" by auto
  from assms(7) obtain row where row: "map_of (tbl_resources d) k = Some row"
    and v: "cap = dval (row_capacity row)" "p = dval (row_reserved row)" "u = dval (row_committed row)"
    by (auto simp: db_view_def split: option.splits)
  have e: "(res, d') = (case reserve_body key x k uuid now d of
      Inl e \<Rightarrow> (Inl e, d) | Inr (a, d') \<Rightarrow> (Inr a, d'))"
    using assms(2,3,4,8) by (simp add: sq_reserve_def)
  note b = reserve_body_exact [OF assms(1) x assms(5) row, of uuid now]
  show ?thesis
  proof (cases "p + u + dval x \<le> cap")
    case True
    with b(2) assms(6) v obtain d1 where "reserve_body key x k uuid now d = Inr ((St RESERVED, Some uuid, Some x), d1)"
      "tbl_reservations d1 = dput uuid (new_reservation key x k now) (tbl_reservations d)"
      "db_view d1 = (db_view d)(k \<mapsto> (cap, p + dval x, u))" by auto
    with e True dput_new [OF assms(6)] show ?thesis by simp
  next
    case False
    with b(1) v have "reserve_body key x k uuid now d = Inr ((INSUFFICIENT_BUDGET, None, None), d)" by simp
    with e False show ?thesis by simp
  qed
qed

text \<open>
  Idempotency of \<open>reserve\<close>. Once a key has a reservation, after any later transactions a
  reserve with that key changes nothing: for the same amount (as a number) and resource it
  reports the existing reservation and its present state, for any other it is refused.
\<close>

theorem sqlite_reserve_idempotent:
  assumes "db_ok d" and "map_of (tbl_reservations d) rid = Some r"
    and "sq_decimal False amt = Some x" and "rkey r \<noteq> []" and "k \<noteq> []"
  shows "\<exists>s. state_le (rstate r) s \<and>
    sq_reserve None (rkey r) amt k uuid now (foldl sq_step d rs) =
      (Inr (if dval (amount r) = dval x \<and> resource_id r = k then (St s, Some rid, Some x)
            else (DUPLICATE_KEY, None, None)), foldl sq_step d rs)"
proof -
  let ?d = "foldl sq_step d rs"
  obtain r' where r': "map_of (tbl_reservations ?d) rid = Some r'" "resv_le r r'"
    using sqlite.run_le [OF assms(1)] assms(2) by (rule sq_le_reservation)
  have "find_key (rkey r) (tbl_reservations ?d) = Some (rid, r')"
    using find_key_ok [OF db_okD(6) [OF sqlite.run_inv [OF assms(1)]] r'(1)] r'(2) by (simp add: resv_le_def)
  with r'(2) assms(3-5) show ?thesis
    by (auto simp: sq_reserve_def reserve_body_def deq_dval resv_le_def intro!: exI [of _ "rstate r'"])
qed

lemma dval_nonneg_coef: "0 \<le> dval d \<longleftrightarrow> 0 \<le> coef d"
  by (simp add: dval_def zero_le_mult_iff not_le [of 0, symmetric])

lemma sum_list_sort_key:
  fixes f :: "'a \<Rightarrow> 'b::comm_monoid_add"
  shows "sum_list (map f (sort_key g xs)) = sum_list (map f xs)"
  by (metis mset_map mset_sort sum_mset_sum_list)

lemma sum_filtered_rows:
  "sum_list (map (\<lambda>(rid, q). if P (rstate q) then dval (amount q) else 0) (filter (\<lambda>(rid, q). resource_id q = k) rs)) =
   dict_sum (\<lambda>q. if resource_id q = k \<and> P (rstate q) then dval (amount q) else 0) rs"
  by (induction rs) auto

text \<open>
  \<open>get_state\<close> on sound tables never raises and reports a balanced account: available is what
  the capacity leaves, never negative, and the reserved and committed figures are the totals of
  the open and the committed reservations it lists, which are exactly the rows of the resource.
\<close>

theorem sqlite_get_state_balanced:
  assumes "db_ok d" and "db_view d k = Some (cap, p, u)"
  shows "\<exists>rep. sq_get_state d k = Inr rep \<and> dval (rep_available rep) = cap - p - u \<and>
    0 \<le> dval (rep_available rep) \<and>
    dval (rep_reserved rep) =
      sum_list (map (\<lambda>(rid, q). if is_open (rstate q) then dval (amount q) else 0) (rep_reservations rep)) \<and>
    dval (rep_committed rep) =
      sum_list (map (\<lambda>(rid, q). if rstate q = COMMITTED then dval (amount q) else 0) (rep_reservations rep)) \<and>
    set (rep_reservations rep) = {(rid, q) \<in> set (tbl_reservations d). resource_id q = k}"
proof -
  from assms(2) obtain row where row: "map_of (tbl_resources d) k = Some row"
    and v: "cap = dval (row_capacity row)" "p = dval (row_reserved row)" "u = dval (row_committed row)"
    by (auto simp: db_view_def split: option.splits)
  have rs: "row_sound row" using db_okD(3) [OF assms(1) row] .
  then have s: "in_range (row_capacity row)" "in_range (row_reserved row)" "in_range (row_committed row)"
    "0 \<le> dval (row_reserved row)" "0 \<le> dval (row_committed row)"
    "dval (row_reserved row) + dval (row_committed row) \<le> dval (row_capacity row)"
    by (auto simp: row_sound_def)
  note b = in_range_le_capacity [OF rs]
  obtain t where t: "decimal_add (row_reserved row) (row_committed row) = Inr t" "dval t = p + u"
    by (rule decimal_add_in_range [OF s(2,3) b]) (use s v in auto)
  obtain a1 where a1: "decimal_subtract (row_capacity row) (row_reserved row) = Inr a1"
    "dval a1 = cap - p" "in_range a1"
    by (rule decimal_subtract_in_range [OF s(1,2) b]) (use s v in auto)
  obtain a where a: "decimal_subtract a1 (row_committed row) = Inr a" "dval a = cap - p - u"
    by (rule decimal_subtract_in_range [OF a1(3) s(3) b]) (use s v a1 in auto)
  have "0 \<le> dval (row_capacity row)" using s(4-6) by linarith
  with s(4,5) have "row_ok row" by (simp add: row_ok_def dval_nonneg_coef)
  moreover have "p = held (tbl_reservations d) k \<and> u = spent (tbl_reservations d) k"
    using db_okD(7) [OF assms(1), unfolded ledger_ok_def, rule_format, of k] assms(2) by simp
  moreover have "held (tbl_reservations d) k = dict_sum (\<lambda>q. if resource_id q = k \<and> is_open (rstate q) then dval (amount q) else 0) (tbl_reservations d)"
    "spent (tbl_reservations d) k = dict_sum (\<lambda>q. if resource_id q = k \<and> rstate q = COMMITTED then dval (amount q) else 0) (tbl_reservations d)"
    by (simp_all add: held_def spent_def held_weight_def [abs_def] spent_weight_def [abs_def])
  ultimately show ?thesis
    using s v t a1(1) a
    by (auto simp: sq_get_state_def row Let_def dlt_dval sum_list_sort_key sum_filtered_rows [where P = is_open]
        sum_filtered_rows [where P = "\<lambda>s. s = COMMITTED"])
qed

subsection \<open>Concrete runs\<close>

definition demo_database :: database where
  "demo_database = foldl sq_step empty_database
     [(SqRegister ''r'' (AFin (Dec 10 0)), None),
      (SqReserve ''k'' (AFin (Dec 5 0)) ''r'' ''u'' 0, None)]"

lemma demo_database_ok: "db_ok demo_database"
  unfolding demo_database_def by (rule sqlite.run_inv [OF empty_database_ok])

lemma demo_database_rows:
  "demo_database =
     \<lparr>tbl_resources = [(''r'', \<lparr>row_capacity = Dec 10 0, row_reserved = Dec 5 0, row_committed = Dec 0 0\<rparr>)],
      tbl_reservations = [(''u'', new_reservation ''k'' (Dec 5 0) ''r'' 0)], tbl_compensations = []\<rparr>"
  by code_simp

lemma demo_reservation:
  "map_of (tbl_reservations demo_database) ''u'' = Some (new_reservation ''k'' (Dec 5 0) ''r'' 0)"
  by (simp add: demo_database_rows)

theorem sqlite_rows_advance_witness:
  "\<exists>r. map_of (tbl_reservations (foldl sq_step demo_database [(SqRelease ''u'' 1, None), (SqCommit ''u'' 2, None)]))
     ''u'' = Some r \<and> rkey r = ''k''"
proof -
  have "rkey (new_reservation ''k'' (Dec 5 0) ''r'' 0) = ''k''" by (simp add: new_reservation_def)
  with sqlite_rows_advance [OF demo_database_ok, of "[(SqRelease ''u'' 1, None), (SqCommit ''u'' 2, None)]"]
    demo_reservation
  show ?thesis unfolding registry_le_def resv_le_def by metis
qed

theorem sqlite_late_effect_witness:
  "let d' = snd (sq_reconcile None (Some (\<lambda>_. Inr (Some True))) ''k'' 2 demo_database
              (sq_step demo_database (SqRelease ''u'' 1, None)))
   in compensated (foldl sq_step d' [(SqFinish ''u'' (Some True) 3, None)]) ''u''
        (new_reservation ''k'' (Dec 5 0) ''r'' 0)"
proof -
  let ?d = "sq_step demo_database (SqRelease ''u'' 1, None)"
  let ?r = "(new_reservation ''k'' (Dec 5 0) ''r'' 0)\<lparr>rstate := RELEASED, released_at := Some 1\<rparr>"
  have "map_of (tbl_reservations ?d) ''u'' = Some ?r"
    unfolding demo_database_rows by code_simp
  note * = sqlite_late_effect [where f = "\<lambda>_. Inr (Some True)" and r = ?r and
      rs = "[(SqFinish ''u'' (Some True) 3, None)]" and now = 2,
      OF demo_database_ok demo_reservation _ _ this _ _ surjective_pairing]
  have "db_ok ?d" "sq_le demo_database ?d"
    using sq_step_good [OF demo_database_ok, of "(SqRelease ''u'' 1, None)"] by (simp_all only: good_def)
  from * [OF this] show ?thesis
    by (simp add: Let_def compensated_def new_reservation_def del: sq_step.simps)
qed

theorem sqlite_reconcile_settles_witness:
  "\<exists>s cid. fst (sq_reconcile None (Some (\<lambda>_. Inr (Some False))) ''k'' 2 demo_database
      (sq_step demo_database (SqCommit ''u'' 1, None))) = Inr (s, Some False, cid)"
proof -
  let ?d = "sq_step demo_database (SqCommit ''u'' 1, None)"
  have "db_ok ?d" "sq_le demo_database ?d"
    using sq_step_good [OF demo_database_ok, of "(SqCommit ''u'' 1, None)"] by (simp_all only: good_def)
  moreover have "rstate (new_reservation ''k'' (Dec 5 0) ''r'' 0) \<noteq> COMMITTED"
    "rkey (new_reservation ''k'' (Dec 5 0) ''r'' 0) = ''k''" by (simp_all add: new_reservation_def)
  ultimately show ?thesis
    using sqlite_reconcile_settles [where f = "\<lambda>_. Inr (Some False)" and now = 2 and b = False and d = ?d,
        OF demo_database_ok demo_reservation _ _ _ refl surjective_pairing]
    by metis
qed

theorem sqlite_reserve_iff_witness:
  "fst (sq_reserve None ''l'' (AFin (Dec 50 (-1))) ''r'' ''w'' 1 demo_database) =
     Inr (St RESERVED, Some ''w'', Some (Dec 50 (-1))) \<and>
   fst (sq_reserve None ''l'' (AFin (Dec 51 (-1))) ''r'' ''w'' 1 demo_database) =
     Inr (INSUFFICIENT_BUDGET, None, None)"
proof -
  have v: "db_view demo_database ''r'' = Some (10, 5, 0)"
    by (simp add: demo_database_rows db_view_def dval_def)
  have s: "sq_decimal False (AFin (Dec 50 (-1))) = Some (Dec 50 (-1))"
    "sq_decimal False (AFin (Dec 51 (-1))) = Some (Dec 51 (-1))" by code_simp+
  have f: "find_key ''l'' (tbl_reservations demo_database) = None"
    "map_of (tbl_reservations demo_database) ''w'' = None"
    by (simp_all add: demo_database_rows find_key_def new_reservation_def)
  note * = sqlite_reserve_iff [OF demo_database_ok _ _ _ f v surjective_pairing, of _ _ 1]
  from * [OF s(1)] * [OF s(2)] show ?thesis by (simp add: dval_def)
qed

theorem sqlite_reserve_idempotent_witness:
  "\<exists>s. sq_reserve None ''k'' (AFin (Dec 500 (-2))) ''r'' ''w'' 2
     (foldl sq_step demo_database [(SqCommit ''u'' 1, None)]) =
     (Inr (St s, Some ''u'', Some (Dec 500 (-2))), foldl sq_step demo_database [(SqCommit ''u'' 1, None)])"
proof -
  have "sq_decimal False (AFin (Dec 500 (-2))) = Some (Dec 500 (-2))" by code_simp
  from sqlite_reserve_idempotent [OF demo_database_ok demo_reservation this, of "''r''" "''w''" 2 "[(SqCommit ''u'' 1, None)]"]
  show ?thesis by (auto simp: new_reservation_def dval_def simp del: foldl.simps)
qed

theorem sqlite_get_state_balanced_witness:
  "\<exists>rep. sq_get_state demo_database ''r'' = Inr rep \<and> dval (rep_available rep) = 5"
proof -
  have "db_view demo_database ''r'' = Some (10, 5, 0)"
    by (simp add: demo_database_rows db_view_def dval_def)
  from sqlite_get_state_balanced [OF demo_database_ok this] show ?thesis by auto
qed

end
