(* ===== verification/Sqlite_Migration.thy ===== *)
theory Sqlite_Migration
  imports Sqlite_Ledger
begin

section \<open>Migrating a legacy store into SQLite\<close>

text \<open>
  \<open>SQLiteConsensusBackend._migrate_legacy_json\<close>: the files \<open>budget.json\<close>,
  \<open>reservations.json\<close> and \<open>transaction.json\<close> that \<open>SingleHostLockBackend\<close> leaves, read with
  the types of \<open>Budget\<close> and \<open>Consensus_Backend\<close>. An entry of \<open>reservations.json\<close> is a bad
  one, or has its fields with time stamps that are numbers. Every exception of the reading
  half is one of those the code turns into its refusal.
\<close>

fun known_state :: "rstate \<Rightarrow> bool" where
  "known_state (OtherState s) = False"
| "known_state _ = True"

fun norm_budget :: "string \<times> raw_budget \<Rightarrow> (string \<times> resource_row) result" where
  "norm_budget (k, RawBudget (Some a) (Some b) (Some c)) =
     (case (sq_decimal True a, sq_decimal True b, sq_decimal True c) of
        (Some cap, Some p, Some u) \<Rightarrow>
          bindE (decimal_add p u) (\<lambda>s.
            if dlt cap s then Inl ValueError
            else Inr (k, \<lparr>row_capacity = cap, row_reserved = p, row_committed = u\<rparr>))
      | _ \<Rightarrow> Inl ValueError)"
| "norm_budget (k, _) = Inl ValueError"

type_synonym totals = "(string, dec \<times> dec) dict"

definition count_in :: "reservation \<Rightarrow> dec \<Rightarrow> dec \<times> dec \<Rightarrow> (dec \<times> dec) result" where
  "count_in r x hc =
     (if is_open (rstate r) then bindE (decimal_add (fst hc) x) (\<lambda>h. Inr (h, snd hc))
      else if rstate r = COMMITTED then bindE (decimal_add (snd hc) x) (\<lambda>c. Inr (fst hc, c))
      else Inr hc)"

fun tally :: "totals \<Rightarrow> (string \<times> resv_entry) list \<Rightarrow> (totals \<times> (string \<times> reservation) list) result" where
  "tally t [] = Inr (t, [])"
| "tally t ((rid, BadEntry) # es) = Inl ValueError"
| "tally t ((rid, Entry r) # es) =
     (case (map_of t (resource_id r), sq_decimal False (AFin (amount r))) of
        (Some hc, Some x) \<Rightarrow>
          if rkey r = [] \<or> \<not> known_state (rstate r) then Inl ValueError
          else
            bindE (count_in r x hc) (\<lambda>hc'.
            bindE (tally (dput (resource_id r) hc' t) es) (\<lambda>(t', rs). Inr (t', (rid, r) # rs)))
      | _ \<Rightarrow> Inl ValueError)"

definition agrees :: "totals \<Rightarrow> (string \<times> resource_row) list \<Rightarrow> bool" where
  "agrees t rows =
     list_all (\<lambda>(k, row). case map_of t k of
         None \<Rightarrow> False
       | Some (h, c) \<Rightarrow> deq h (row_reserved row) \<and> deq c (row_committed row)) rows"

fun legacy_read ::
  "budget_file \<Rightarrow> resv_file \<Rightarrow> ((string \<times> resource_row) list \<times> (string \<times> reservation) list) result" where
  "legacy_read (BStored bd) (RStored es) =
     bindE (mapE norm_budget bd) (\<lambda>rows.
     bindE (tally (map (\<lambda>(k, row). (k, (dzero, dzero))) rows) es) (\<lambda>(t, rs).
     if agrees t rows then Inr (rows, rs) else Inl ValueError))"
| "legacy_read _ _ = Inl ValueError"

text \<open>The two \<open>INSERT\<close> loops; a reservation may collide on its key or identifier.\<close>

fun insert_rows :: "(string \<times> reservation) list \<Rightarrow> database \<Rightarrow> database result" where
  "insert_rows [] d = Inr d"
| "insert_rows ((rid, r) # rs) d =
     (if map_of (tbl_reservations d) rid \<noteq> None \<or> find_key (rkey r) (tbl_reservations d) \<noteq> None \<or>
         map_of (tbl_resources d) (resource_id r) = None
      then Inl IntegrityError
      else insert_rows rs (set_reservation d rid r))"

definition migrate_body ::
  "(string \<times> resource_row) list \<Rightarrow> (string \<times> reservation) list \<Rightarrow> database \<Rightarrow> (unit \<times> database) result" where
  "migrate_body rows rs d =
     (if tbl_resources d \<noteq> [] then Inr ((), d)
      else bindE (insert_rows rs (d\<lparr>tbl_resources := rows\<rparr>)) (\<lambda>d'. Inr ((), d')))"

definition sq_migrate ::
  "pyexn option \<Rightarrow> budget_file \<Rightarrow> resv_file \<Rightarrow> bool \<Rightarrow> database \<Rightarrow> unit result \<times> database" where
  "sq_migrate fault bf rf pending d =
     (if bf = BAbsent \<and> rf = RAbsent then (Inr (), d)
      else if pending then (Inl RuntimeError, d)
      else
        case legacy_read bf rf of
          Inl _ \<Rightarrow> (Inl RuntimeError, d)
        | Inr (rows, rs) \<Rightarrow>
          (case sq_transaction fault (migrate_body rows rs) d of
             (Inl IntegrityError, d') \<Rightarrow> (Inl RuntimeError, d')
           | other \<Rightarrow> other))"

subsection \<open>What the reading half checks\<close>

lemma norm_budget_Inr:
  assumes "norm_budget (k, raw) = Inr kr"
  shows "fst kr = k \<and> row_sound (snd kr) \<and>
    raw_counters raw = Some (dval (row_capacity (snd kr)), dval (row_reserved (snd kr)), dval (row_committed (snd kr)))"
proof -
  from assms obtain a b c where raw: "raw = RawBudget (Some a) (Some b) (Some c)"
    by (cases "(k, raw)" rule: norm_budget.cases) auto
  with assms obtain x y z s where d: "sq_decimal True a = Some x" "sq_decimal True b = Some y"
    "sq_decimal True c = Some z" "decimal_add y z = Inr s" "\<not> dlt x s"
    "kr = (k, \<lparr>row_capacity = x, row_reserved = y, row_committed = z\<rparr>)"
    by (auto simp: bindE_Inr_conv split: option.splits if_splits)
  from sq_decimal_Some [OF d(1)] sq_decimal_Some [OF d(2)] sq_decimal_Some [OF d(3)] decimal_add_dval [OF d(4)] d(5,6)
  show ?thesis by (auto simp: raw row_sound_def dlt_dval)
qed

lemma mapE_norm_budget:
  assumes "mapE norm_budget bd = Inr rows"
  shows "map fst rows = map fst bd" and "\<forall>kr \<in> set rows. row_sound (snd kr)"
    and "map_of rows k = None \<longleftrightarrow> map_of bd k = None"
    and "map_of rows k = Some row \<Longrightarrow> \<exists>raw. map_of bd k = Some raw \<and> raw_counters raw =
           Some (dval (row_capacity row), dval (row_reserved row), dval (row_committed row))"
  using assms
proof (atomize (full), induction bd arbitrary: rows)
  case (Cons q bd)
  obtain j raw where q: "q = (j, raw)" by (cases q)
  from Cons.prems q obtain kr rest where kr: "norm_budget (j, raw) = Inr kr" "mapE norm_budget bd = Inr rest"
    "rows = kr # rest" by (auto simp: bindE_Inr_conv)
  from norm_budget_Inr [OF kr(1)] Cons.IH [OF kr(2)] show ?case
    by (cases kr) (auto simp: q kr(3))
qed simp

text \<open>What the tally accepts, and what it counts.\<close>

definition entry_sound :: "totals \<Rightarrow> reservation \<Rightarrow> bool" where
  "entry_sound t r \<longleftrightarrow> map_of t (resource_id r) \<noteq> None \<and> in_range (amount r) \<and> 0 < dval (amount r) \<and>
     rkey r \<noteq> [] \<and> known_state (rstate r)"

lemma count_in_Inr:
  assumes "count_in r x hc = Inr hc'" and "x = amount r"
  shows "dval (fst hc') = dval (fst hc) + held_weight (resource_id r) r \<and>
         dval (snd hc') = dval (snd hc) + spent_weight (resource_id r) r"
  using assms
  by (auto simp: count_in_def bindE_Inr_conv held_weight_def spent_weight_def is_open_def
      dest!: decimal_add_dval split: if_splits)

definition counted :: "totals \<Rightarrow> (string \<times> reservation) list \<Rightarrow> totals \<Rightarrow> bool" where
  "counted t rs t' \<longleftrightarrow> (\<forall>k. case map_of t' k of
       None \<Rightarrow> map_of t k = None
     | Some (h', c') \<Rightarrow> (case map_of t k of None \<Rightarrow> False
         | Some (h, c) \<Rightarrow> dval h' = dval h + held rs k \<and> dval c' = dval c + spent rs k))"

lemma held_spent_Cons [simp]:
  "held ((rid, r) # rs) k = held_weight k r + held rs k"
  "spent ((rid, r) # rs) k = spent_weight k r + spent rs k"
  by (simp_all add: held_def spent_def)

lemma weight_other [simp]: "k \<noteq> resource_id r \<Longrightarrow> held_weight k r = 0 \<and> spent_weight k r = 0"
  by (simp add: held_weight_def spent_weight_def)

lemma tally_Inr:
  assumes "tally t es = Inr (t', rs)"
  shows "es = map (\<lambda>(rid, r). (rid, Entry r)) rs \<and> (\<forall>(rid, r) \<in> set rs. entry_sound t r) \<and> counted t rs t'"
  using assms
proof (induction t es arbitrary: t' rs rule: tally.induct)
  case (1 t)
  then show ?case by (auto simp: counted_def held_def spent_def split: option.split)
next
  case (3 t rid r es)
  from "3.prems" obtain hc x hc' rest where s: "map_of t (resource_id r) = Some hc"
    "sq_decimal False (AFin (amount r)) = Some x" "rkey r \<noteq> []" "known_state (rstate r)"
    "count_in r x hc = Inr hc'" "tally (dput (resource_id r) hc' t) es = Inr (t', rest)" "rs = (rid, r) # rest"
    by (auto simp: bindE_Inr_conv split: option.splits if_splits)
  from sq_decimal_Some [OF s(2)] have x: "x = amount r" "in_range (amount r)" "0 < dval (amount r)" by auto
  note ih = "3.IH" [OF refl s(1,2) _ s(6)]
  have IH: "es = map (\<lambda>(rid, r). (rid, Entry r)) rest"
    "\<forall>(i, q) \<in> set rest. entry_sound (dput (resource_id r) hc' t) q" "counted (dput (resource_id r) hc' t) rest t'"
    using ih s(3,4) by auto
  have "entry_sound t q" if "entry_sound (dput (resource_id r) hc' t) q" for q
    using that s(1) by (auto simp: entry_sound_def split: if_splits)
  moreover have "entry_sound t r" using s x by (simp add: entry_sound_def)
  moreover have "counted t ((rid, r) # rest) t'"
    unfolding counted_def
  proof
    fix k
    show "case map_of t' k of None \<Rightarrow> map_of t k = None
      | Some (h', c') \<Rightarrow> (case map_of t k of None \<Rightarrow> False
         | Some (h, c) \<Rightarrow> dval h' = dval h + held ((rid, r) # rest) k \<and> dval c' = dval c + spent ((rid, r) # rest) k)"
      using IH(3) [unfolded counted_def, rule_format, of k] count_in_Inr [OF s(5) x(1)] s(1)
      by (cases "k = resource_id r") (auto split: option.splits prod.splits)
  qed
  ultimately show ?case using IH(1,2) s(7) by auto
qed simp

subsection \<open>What the inserts leave\<close>

lemma insert_rows_Inr:
  assumes "insert_rows rs d = Inr d'"
  shows "tbl_resources d' = tbl_resources d \<and> tbl_compensations d' = tbl_compensations d \<and>
    tbl_reservations d' = tbl_reservations d @ rs \<and>
    (wf_dict (tbl_reservations d) \<longrightarrow> wf_dict (tbl_reservations d')) \<and>
    (keys_ok (tbl_reservations d) \<longrightarrow> keys_ok (tbl_reservations d'))"
  using assms
proof (induction rs d rule: insert_rows.induct)
  case (2 rid r rs d)
  have c: "\<not> (map_of (tbl_reservations d) rid \<noteq> None \<or> find_key (rkey r) (tbl_reservations d) \<noteq> None \<or>
         map_of (tbl_resources d) (resource_id r) = None)"
    by (rule notI) (use 2(2) in \<open>simp only: insert_rows.simps if_True sum.distinct\<close>)
  then have n: "map_of (tbl_reservations d) rid = None" "find_key (rkey r) (tbl_reservations d) = None"
    by blast+
  from c 2(2) have i: "insert_rows rs (set_reservation d rid r) = Inr d'"
    by (simp only: insert_rows.simps if_False)
  note ih = "2.IH" [OF c i, unfolded set_reservation_simps]
  have "tbl_reservations d' = tbl_reservations d @ (rid, r) # rs"
    using ih by (simp add: dput_new [OF n(1)])
  moreover have "wf_dict (tbl_reservations d')" if "wf_dict (tbl_reservations d)"
    by (rule ih [THEN conjunct2, THEN conjunct2, THEN conjunct2, THEN conjunct1, THEN mp])
      (rule wf_dict_dput [OF that])
  moreover have "keys_ok (tbl_reservations d')" if "keys_ok (tbl_reservations d)"
    by (rule ih [THEN conjunct2, THEN conjunct2, THEN conjunct2, THEN conjunct2, THEN mp])
      (rule keys_ok_dput_new [OF that n])
  moreover have "tbl_resources d' = tbl_resources d" "tbl_compensations d' = tbl_compensations d"
    by (rule ih [THEN conjunct1], rule ih [THEN conjunct2, THEN conjunct1])
  ultimately show ?case by simp
qed simp

lemma insert_rows_complete:
  assumes "wf_dict (tbl_reservations d @ rs)" and "keys_ok (tbl_reservations d @ rs)"
    and "\<forall>(rid, r) \<in> set rs. map_of (tbl_resources d) (resource_id r) \<noteq> None"
  shows "\<exists>d'. insert_rows rs d = Inr d'"
  using assms
proof (induction rs d rule: insert_rows.induct)
  case (2 rid r rs d)
  then have n: "map_of (tbl_reservations d) rid = None" "find_key (rkey r) (tbl_reservations d) = None"
    "map_of (tbl_resources d) (resource_id r) \<noteq> None"
    by (auto simp: find_key_None keys_ok_def map_of_eq_None_iff image_iff)
  with "2.IH" "2.prems" show ?case by (auto simp: dput_new [OF n(1)])
qed simp

lemma db_ok_no_resources:
  assumes "db_ok d" and "tbl_resources d = []"
  shows "tbl_reservations d = []" and "tbl_compensations d = []"
proof -
  have "map_of (tbl_reservations d) rid = None" for rid
    using db_okD(4) [OF assms(1), of rid] assms(2)
    by (cases "map_of (tbl_reservations d) rid") (auto simp: resv_sound_def)
  then show r: "tbl_reservations d = []" by (cases "tbl_reservations d") (fastforce split: if_splits)+
  have "map_of (tbl_compensations d) cid = None" for cid
    using db_okD(5) [OF assms(1), of cid] r
    by (cases "map_of (tbl_compensations d) cid") (auto simp: comp_sound_def)
  then show "tbl_compensations d = []" by (cases "tbl_compensations d") (fastforce split: if_splits)+
qed

lemma held_absent: "\<forall>(rid, r) \<in> set rs. resource_id r \<noteq> k \<Longrightarrow> held rs k = 0 \<and> spent rs k = 0"
  by (induction rs) (auto simp: held_def spent_def held_weight_def spent_weight_def)

text \<open>What the two files have to say for a migration to go through.\<close>

lemma legacy_read_Inr:
  assumes "legacy_read (BStored bd) (RStored es) = Inr (rows, rs)" and "wf_dict bd"
  shows "map fst rows = map fst bd" and "\<forall>kr \<in> set rows. row_sound (snd kr)"
    and "es = map (\<lambda>(rid, r). (rid, Entry r)) rs"
    and "\<forall>(rid, r) \<in> set rs. map_of rows (resource_id r) \<noteq> None \<and> in_range (amount r) \<and>
           0 < dval (amount r) \<and> rkey r \<noteq> [] \<and> known_state (rstate r)"
    and "map_of rows k = Some row \<Longrightarrow> dval (row_reserved row) = held rs k \<and> dval (row_committed row) = spent rs k"
    and "map_of rows k = None \<Longrightarrow> held rs k = 0 \<and> spent rs k = 0"
    and "\<And>k row. map_of rows k = Some row \<Longrightarrow> \<exists>raw. map_of bd k = Some raw \<and> raw_counters raw =
           Some (dval (row_capacity row), dval (row_reserved row), dval (row_committed row))"
proof -
  let ?t0 = "map (\<lambda>(k, row). (k, (dzero, dzero))) rows"
  from assms(1) obtain t where rows: "mapE norm_budget bd = Inr rows" and t: "tally ?t0 es = Inr (t, rs)"
    and a: "agrees t rows"
    by (auto simp: bindE_Inr_conv split: if_splits)
  note m = mapE_norm_budget [OF rows]
  show "map fst rows = map fst bd" "\<forall>kr \<in> set rows. row_sound (snd kr)" by (rule m(1), rule m(2))
  show "\<And>k row. map_of rows k = Some row \<Longrightarrow> \<exists>raw. map_of bd k = Some raw \<and> raw_counters raw =
           Some (dval (row_capacity row), dval (row_reserved row), dval (row_committed row))" by (rule m(4))
  have t0: "map_of ?t0 k = map_option (\<lambda>_. (dzero, dzero)) (map_of rows k)" for k
    by (induction rows) auto
  from tally_Inr [OF t] have "counted ?t0 rs t" and es: "es = map (\<lambda>(rid, r). (rid, Entry r)) rs"
    and snd: "\<forall>(rid, r) \<in> set rs. entry_sound ?t0 r" by auto
  show "es = map (\<lambda>(rid, r). (rid, Entry r)) rs" by (rule es)
  show sound: "\<forall>(rid, r) \<in> set rs. map_of rows (resource_id r) \<noteq> None \<and> in_range (amount r) \<and>
           0 < dval (amount r) \<and> rkey r \<noteq> [] \<and> known_state (rstate r)"
    using snd by (auto simp: entry_sound_def t0)
  have c: "case map_of t k of None \<Rightarrow> map_of rows k = None
      | Some (h', c') \<Rightarrow> dval h' = held rs k \<and> dval c' = spent rs k" for k
    using \<open>counted ?t0 rs t\<close> [unfolded counted_def, rule_format, of k] by (auto simp: t0 split: option.splits)
  show "dval (row_reserved row) = held rs k \<and> dval (row_committed row) = spent rs k"
    if "map_of rows k = Some row"
    using a c [of k] map_of_in_set [OF that]
    by (auto simp: agrees_def list_all_iff deq_dval split: option.splits prod.splits)
  show "held rs k = 0 \<and> spent rs k = 0" if "map_of rows k = None"
  proof -
    have "\<forall>(rid, r) \<in> set rs. resource_id r \<noteq> k" using sound that by auto
    then show ?thesis by (rule held_absent)
  qed
qed

lemma known_stateD: "known_state s \<Longrightarrow> s \<noteq> OtherState x"
  by auto

lemma migrated_ok:
  assumes read: "legacy_read (BStored bd) (RStored es) = Inr (rows, rs)" "wf_dict bd"
    and ins: "insert_rows rs \<lparr>tbl_resources = rows, tbl_reservations = [], tbl_compensations = []\<rparr> = Inr d'"
  shows "db_ok d'"
proof -
  note R = legacy_read_Inr [OF read]
  have d': "tbl_resources d' = rows" "tbl_reservations d' = rs" "tbl_compensations d' = []"
    "wf_dict rs" "keys_ok rs"
    using insert_rows_Inr [OF ins] by (auto simp: keys_ok_def)
  have "wf_dict rows" using R(1) read(2) by simp
  moreover have "row_sound row" if "map_of rows k = Some row" for k row
    using R(2) map_of_in_set [OF that] by fastforce
  moreover have "resv_sound d' r" if "map_of rs rid = Some r" for rid r
    using R(4) map_of_in_set [OF that] d'(1) by (auto simp: resv_sound_def dest: known_stateD)
  moreover have "ledger_ok (db_view d') rs"
    using R(5,6) by (auto simp: ledger_ok_def db_view_def d'(1) split: option.split)
  ultimately show ?thesis using d' by (simp add: db_ok_def)
qed

lemma legacy_read_files:
  "legacy_read bf rf = Inr x \<Longrightarrow> \<exists>bd es. bf = BStored bd \<and> rf = RStored es"
  by (cases "(bf, rf)" rule: legacy_read.cases) auto

definition legacy_dicts :: "budget_file \<Rightarrow> bool" where
  "legacy_dicts bf \<longleftrightarrow> (case bf of BStored bd \<Rightarrow> wf_dict bd | _ \<Rightarrow> True)"

text \<open>
  Migration fails closed. Whatever the legacy files hold, a migration into sound tables leaves
  sound tables; if it raises it has changed nothing; and if it succeeds on tables without
  resources, having found files, these tables now hold exactly the reservations of the file and
  the counters of the file, which agree with one another.
\<close>

theorem migration_fails_closed:
  assumes "db_ok d" and "legacy_dicts bf" and "sq_migrate fault bf rf pending d = (res, d')"
  shows "db_ok d' \<and> (\<forall>e. res = Inl e \<longrightarrow> d' = d) \<and> (tbl_resources d \<noteq> [] \<longrightarrow> d' = d) \<and>
    (res = Inr () \<and> tbl_resources d = [] \<and> \<not> (bf = BAbsent \<and> rf = RAbsent) \<longrightarrow>
       \<not> pending \<and> resv_is rf (tbl_reservations d') \<and>
       (\<exists>bd. bf = BStored bd \<and>
          (\<forall>k. db_view d' k = (case map_of bd k of None \<Rightarrow> None | Some raw \<Rightarrow> raw_counters raw))))"
proof (cases "(bf = BAbsent \<and> rf = RAbsent) \<or> pending \<or> (\<exists>e. legacy_read bf rf = Inl e)")
  case True
  then have "(res, d') = (if bf = BAbsent \<and> rf = RAbsent then Inr () else Inl RuntimeError, d)"
    using assms(3) by (auto simp: sq_migrate_def split: if_splits)
  with assms(1) show ?thesis by (simp split: if_splits)
next
  case False
  then obtain rows rs bd es where read: "legacy_read bf rf = Inr (rows, rs)" and np: "\<not> pending"
    and files: "bf = BStored bd" "rf = RStored es"
    using legacy_read_files by (cases "legacy_read bf rf") fastforce+
  note read' = read [unfolded files] and wf = assms(2) [unfolded legacy_dicts_def files budget_file.case]
  obtain res1 d1 where t: "sq_transaction fault (migrate_body rows rs) d = (res1, d1)" by fastforce
  have d1: "d' = d1" "res = Inr () \<longleftrightarrow> res1 = Inr ()"
    using assms(3) read np files t by (auto simp: sq_migrate_def split: sum.splits pyexn.splits)
  from sq_transaction_cases [OF t] consider "d1 = d" "\<forall>a. res1 = Inr a \<longrightarrow> migrate_body rows rs d = Inr (a, d)"
    | "res1 = Inr ()" "migrate_body rows rs d = Inr ((), d1)" by auto
  then have *: "d1 = d \<and> res1 \<noteq> Inr () \<or> res1 = Inr () \<and> migrate_body rows rs d = Inr ((), d1)"
    by cases auto
  show ?thesis
  proof (cases "res1 = Inr () \<and> tbl_resources d = []")
    case False
    with * have "d1 = d" by (auto simp: migrate_body_def)
    with False assms(1) d1 show ?thesis by auto
  next
    case True
    note e = db_ok_no_resources [OF assms(1)]
    have "d\<lparr>tbl_resources := rows\<rparr> =
        \<lparr>tbl_resources = rows, tbl_reservations = [], tbl_compensations = []\<rparr>"
      using e True by (cases d) simp
    with * True have ins: "insert_rows rs
        \<lparr>tbl_resources = rows, tbl_reservations = [], tbl_compensations = []\<rparr> = Inr d1"
      by (auto simp: migrate_body_def bindE_Inr_conv)
    have ok: "db_ok d1" by (rule migrated_ok [OF read' wf ins])
    have tabs: "tbl_resources d1 = rows" "tbl_reservations d1 = rs" using insert_rows_Inr [OF ins] by simp_all
    note R = legacy_read_Inr [OF read' wf]
    have "db_view d1 k = (case map_of bd k of None \<Rightarrow> None | Some raw \<Rightarrow> raw_counters raw)" for k
    proof (cases "map_of rows k")
      case None
      then have "map_of bd k = None" using R(1) by (simp add: map_of_eq_None_iff image_set [symmetric] del: set_map)
          (metis image_set)
      with None show ?thesis by (simp add: db_view_def tabs)
    next
      case (Some row)
      with R(7) [OF Some] show ?thesis by (auto simp: db_view_def tabs)
    qed
    with True d1 ok np files tabs R(3) show ?thesis by (simp add: resv_is_def)
  qed
qed

text \<open>
  A resource that was only registered cannot be migrated: the legacy backend writes
  \<open>reservations.json\<close> with its first reservation, and the migration, which expects both files
  when either exists, refuses the store although it is sound.
\<close>

theorem registered_only_not_migrated:
  "let b = backend_step empty_backend (BRegister ''r'' (AFin (Dec 10 0)))
   in restart b = Inr b \<and> coord_view (coord b) ''r'' = Some (10, 0, 0) \<and>
      sq_migrate None (store (coord b)) (resv b) False empty_database = (Inl RuntimeError, empty_database)"
  by code_simp

subsection \<open>Migrating what the legacy backend wrote\<close>

lemma sq_decimal_valid:
  assumes "validate_decimal_bounds c = Inr c" and "0 \<le> coef c" and "z \<or> 0 < coef c"
  shows "sq_decimal z (AFin c) = Some c"
proof -
  have "\<not> (ddigits c > 128 \<or> \<bar>expo c\<bar> > 128 \<or> adjusted c > 128)"
  proof (cases "coef c = 0")
    case True
    then have "ddigits c = 1" by (simp add: ddigits_def ndigits.simps)
    with assms(1) show ?thesis
      by (auto simp: validate_decimal_bounds_def MAX_DECIMAL_DIGITS_def MAX_DECIMAL_EXPONENT_def
          adjusted_def split: if_splits)
  next
    case False
    with assms(1) show ?thesis
      by (auto simp: validate_decimal_bounds_def MAX_DECIMAL_DIGITS_def MAX_DECIMAL_EXPONENT_def
          MAX_DECIMAL_ADJUSTED_def split: if_splits)
  qed
  with assms(2,3) show ?thesis by auto
qed

lemma load_counter_Inr:
  assumes "load_counter a = Inr c" and "\<not> dneg_p c"
  shows "\<exists>v. a = Some v \<and> sq_decimal True v = Some c"
proof -
  from assms(1) obtain v where v: "a = Some v" "to_decimal v = Inr c" by (cases a) auto
  from to_decimal_Inr [OF v(2)] have c: "v = AFin c" "validate_decimal_bounds c = Inr c" by auto
  have "0 \<le> coef c" using assms(2) by (simp add: dneg_p_def dlt_dval dval_def not_less zero_le_mult_iff)
  from sq_decimal_valid [OF c(2) this, of True] show ?thesis using v(1) c(1) by simp
qed

lemma positive_amount_sq:
  assumes "positive_amount (AFin x) = Some x"
  shows "sq_decimal False (AFin x) = Some x"
proof -
  from assms have "validate_decimal_bounds x = Inr x" "0 < dval x"
    by (auto simp: positive_amount_def dlt_dval split: sum.splits if_splits)
  then show ?thesis by (intro sq_decimal_valid) (auto simp: dval_pos_coef)
qed

lemma norm_of_load:
  assumes "load_entry (k, raw) = Inr kb"
  shows "norm_budget (k, raw) = Inr (k, \<lparr>row_capacity = capacity (snd kb), row_reserved = reserved (snd kb),
           row_committed = consumed (snd kb)\<rparr>) \<and> fst kb = k"
proof -
  from assms obtain b where b: "load_record raw = Inr b" "kb = (k, b)"
    by (auto simp: load_entry_def bindE_Inr_conv)
  then obtain a1 a2 a3 where raw: "raw = RawBudget a1 a2 a3" by (cases raw) auto
  from b raw obtain t where c: "load_counter a1 = Inr (capacity b)" "load_counter a2 = Inr (reserved b)"
    "load_counter a3 = Inr (consumed b)" "\<not> dneg_p (capacity b)" "\<not> dneg_p (reserved b)" "\<not> dneg_p (consumed b)"
    "decimal_add (reserved b) (consumed b) = Inr t" "\<not> dlt (capacity b) t"
    by (auto simp: bindE_Inr_conv split: if_splits)
  from load_counter_Inr [OF c(1,4)] load_counter_Inr [OF c(2,5)] load_counter_Inr [OF c(3,6)] c(7,8) b(2)
  show ?thesis by (auto simp: raw)
qed

lemma norm_of_load_all:
  assumes "mapE load_entry bd = Inr m"
  shows "mapE norm_budget bd = Inr (map (\<lambda>(k, b). (k, \<lparr>row_capacity = capacity b, row_reserved = reserved b,
           row_committed = consumed b\<rparr>)) m)"
  using assms
proof (induction bd arbitrary: m)
  case (Cons q bd)
  obtain k raw where q: "q = (k, raw)" by (cases q)
  from Cons.prems q obtain kb rest where "load_entry (k, raw) = Inr kb" "mapE load_entry bd = Inr rest"
    "m = kb # rest" by (auto simp: bindE_Inr_conv)
  with norm_of_load Cons.IH q show ?case by (cases kb) fastforce
qed simp

text \<open>The tally of sound entries succeeds as long as the totals stay in range.\<close>

lemma count_in_complete:
  assumes "in_range (amount r)" and "in_range h" and "in_range c" and "0 \<le> dval h" and "0 \<le> dval c"
    and "0 < dval (amount r)"
    and "dval h + held_weight (resource_id r) r < decimal_limit"
    and "dval c + spent_weight (resource_id r) r < decimal_limit"
  shows "\<exists>h' c'. count_in r (amount r) (h, c) = Inr (h', c') \<and> in_range h' \<and> in_range c' \<and>
    dval h' = dval h + held_weight (resource_id r) r \<and> dval c' = dval c + spent_weight (resource_id r) r"
proof -
  consider "is_open (rstate r)" | "rstate r = COMMITTED" | "\<not> is_open (rstate r)" "rstate r \<noteq> COMMITTED" by blast
  then show ?thesis
  proof cases
    case 1
    then have "rstate r \<noteq> COMMITTED" by (auto simp: is_open_def)
    moreover obtain s where "decimal_add h (amount r) = Inr s" "dval s = dval h + dval (amount r)" "in_range s"
      by (rule decimal_add_in_range [OF assms(2,1)]) (use assms 1 in \<open>auto simp: held_weight_def\<close>)
    ultimately show ?thesis using 1 assms(3) by (simp add: count_in_def held_weight_def spent_weight_def)
  next
    case 2
    obtain s where "decimal_add c (amount r) = Inr s" "dval s = dval c + dval (amount r)" "in_range s"
      by (rule decimal_add_in_range [OF assms(3,1)]) (use assms 2 in \<open>auto simp: spent_weight_def\<close>)
    with 2 assms(2) show ?thesis by (simp add: count_in_def held_weight_def spent_weight_def is_open_def)
  next
    case 3
    with assms(2,3) show ?thesis by (simp add: count_in_def held_weight_def spent_weight_def)
  qed
qed

definition totals_fit :: "totals \<Rightarrow> (string \<times> reservation) list \<Rightarrow> bool" where
  "totals_fit t rs \<longleftrightarrow> (\<forall>k h c. map_of t k = Some (h, c) \<longrightarrow> in_range h \<and> in_range c \<and> 0 \<le> dval h \<and>
     0 \<le> dval c \<and> dval h + held rs k < decimal_limit \<and> dval c + spent rs k < decimal_limit)"

definition entry_fit :: "totals \<Rightarrow> reservation \<Rightarrow> bool" where
  "entry_fit t r \<longleftrightarrow> map_of t (resource_id r) \<noteq> None \<and> sq_decimal False (AFin (amount r)) = Some (amount r) \<and>
     rkey r \<noteq> [] \<and> known_state (rstate r)"

lemma entry_fit_pos: "entry_fit t r \<Longrightarrow> 0 < dval (amount r)"
  using sq_decimal_Some [of False "AFin (amount r)" "amount r"] by (simp add: entry_fit_def)

lemma entry_fit_dput: "entry_fit t r \<Longrightarrow> entry_fit (dput k v t) r"
  by (simp add: entry_fit_def del: sq_decimal.simps)

lemma held_spent_nonneg:
  "\<forall>(rid, r) \<in> set rs. 0 < dval (amount r) \<Longrightarrow> 0 \<le> held rs k \<and> 0 \<le> spent rs k"
  by (auto simp: held_def spent_def held_weight_def spent_weight_def intro!: dict_sum_nonneg)

lemma tally_complete:
  assumes "totals_fit t rs" and "\<forall>(rid, r) \<in> set rs. entry_fit t r"
  shows "\<exists>t'. tally t (map (\<lambda>(rid, r). (rid, Entry r)) rs) = Inr (t', rs)"
  using assms
proof (induction rs arbitrary: t)
  case (Cons q rs)
  obtain rid r where q: "q = (rid, r)" by (cases q)
  from Cons.prems(2) q have e: "entry_fit t r" by simp
  then obtain h c where hc: "map_of t (resource_id r) = Some (h, c)"
    and x: "sq_decimal False (AFin (amount r)) = Some (amount r)" by (auto simp: entry_fit_def)
  have pos: "in_range (amount r)" "0 < dval (amount r)" using sq_decimal_Some [OF x] by auto
  have "\<forall>(i, s) \<in> set rs. 0 < dval (amount s)"
    using Cons.prems(2) entry_fit_pos by fastforce
  note nn = held_spent_nonneg [OF this]
  have fit: "in_range h" "in_range c" "0 \<le> dval h" "0 \<le> dval c"
    "dval h + (held_weight (resource_id r) r + held rs (resource_id r)) < decimal_limit"
    "dval c + (spent_weight (resource_id r) r + spent rs (resource_id r)) < decimal_limit"
    using Cons.prems(1) hc by (auto simp: totals_fit_def q)
  obtain h' c' where n: "count_in r (amount r) (h, c) = Inr (h', c')" "in_range h'" "in_range c'"
    "dval h' = dval h + held_weight (resource_id r) r" "dval c' = dval c + spent_weight (resource_id r) r"
    using count_in_complete [OF pos(1) fit(1-4) pos(2)] fit(5,6) nn [of "resource_id r"] by fastforce
  have "0 \<le> held_weight (resource_id r) r" "0 \<le> spent_weight (resource_id r) r"
    using pos(2) by (simp_all add: held_weight_def spent_weight_def)
  then have "totals_fit (dput (resource_id r) (h', c') t) rs"
    using Cons.prems(1) n fit by (fastforce simp: totals_fit_def q)
  moreover have "\<forall>(i, s) \<in> set rs. entry_fit (dput (resource_id r) (h', c') t) s"
    using Cons.prems(2) entry_fit_dput by fastforce
  ultimately obtain t' where "tally (dput (resource_id r) (h', c') t) (map (\<lambda>(rid, r). (rid, Entry r)) rs) = Inr (t', rs)"
    using Cons.IH by blast
  with e hc n(1) show ?case by (simp add: q entry_fit_def)
qed simp

definition migratable :: "backend \<Rightarrow> (string, reservation) dict \<Rightarrow> bool" where
  "migratable b rs \<longleftrightarrow> store (coord b) \<noteq> BAbsent \<and> resv b \<noteq> RAbsent \<and>
     (\<forall>(rid, r) \<in> set rs. rkey r \<noteq> [] \<and> known_state (rstate r) \<and> coord_view (coord b) (resource_id r) \<noteq> None)"


theorem migration_fails_closed_witness:
  "db_ok (snd (sq_migrate None (store (coord demo_backend)) (resv demo_backend) False empty_database))"
proof -
  have "legacy_dicts (store (coord demo_backend))" by code_simp
  from migration_fails_closed [OF empty_database_ok this surjective_pairing] show ?thesis by simp
qed


end
