(* ===== verification/Raft_Backend.thy ===== *)
theory Raft_Backend
  imports Sqlite_Guarantees
begin

section \<open>The Raft consensus backend\<close>

text \<open>
  \<open>_RaftStateMachine\<close> and \<open>RaftConsensusBackend\<close> of
  \<open>tenir_governance/operations/raft_backend.py\<close>. The replicated methods are functions of the
  replica's state: what a replica holds is the fold of the log prefix it has applied. Records
  are those of the SQLite backend; a logical time, an integer of the replicated clock, stands
  where a time stamp stands there. Stored amounts are Decimals, which is what this code writes.
  The library that replicates the log is not modelled: a call with \<open>sync=True\<close> has a fate, which
  is an argument of the client's operations.
\<close>

record raft_compensation = compensation +
  comp_key :: string

record raft_state =
  rf_resources :: "(string, resource_row) dict"
  rf_reservations :: "(string, reservation) dict"
  rf_index :: "(string, string) dict"
  rf_clock :: nat
  rf_incidents :: "(string \<times> string \<times> rstate \<times> nat) list"
  rf_compensations :: "(string, raft_compensation) dict"

text \<open>What the replicated methods answer: the shared statuses and their own.\<close>

datatype raft_status =
    RA status
  | INVALID_STATE
  | CORRUPT_RESERVATION_STATE
  | CORRUPT_RESOURCE_STATE
  | IDEMPOTENCY_INDEX_CORRUPTED
  | RESERVATION_ID_CONFLICT
  | INCONSISTENT_RESERVED_AMOUNT
  | INCONSISTENT_COMMITTED_AMOUNT
  | COMPENSATION_REQUIRED

type_synonym raft_run = "raft_status result \<times> raft_state"

definition MAX_AMOUNT :: dec where
  "MAX_AMOUNT = Dec 1000000000000000000 0"

fun validated_amount :: "bool \<Rightarrow> amount_in \<Rightarrow> dec option" where
  "validated_amount allow_zero (AFin d) =
     (if coef d < 0 \<or> (coef d = 0 \<and> \<not> allow_zero) then None
      else if ddigits d > 128 \<or> \<bar>expo d\<bar> > 128 then None
      else if dlt MAX_AMOUNT d then None
      else Some d)"
| "validated_amount allow_zero _ = None"

definition raft_init :: raft_state where
  "raft_init = \<lparr>rf_resources = [], rf_reservations = [], rf_index = [], rf_clock = 0,
     rf_incidents = [], rf_compensations = []\<rparr>"

definition tick :: "raft_state \<Rightarrow> raft_state" where
  "tick s = s\<lparr>rf_clock := Suc (rf_clock s)\<rparr>"

definition record_incident :: "string \<Rightarrow> string \<Rightarrow> rstate \<Rightarrow> raft_state \<Rightarrow> raft_state" where
  "record_incident code rid prev s =
     (let s1 = tick s in s1\<lparr>rf_incidents := rf_incidents s1 @ [(code, rid, prev, rf_clock s1)]\<rparr>)"

text \<open>\<open>_normalize_resource_values\<close>: the stored values pass the caller's check and fit.\<close>

definition normalize_resource :: "resource_row \<Rightarrow> bool result" where
  "normalize_resource row =
     (case (validated_amount True (AFin (row_capacity row)), validated_amount True (AFin (row_reserved row)),
            validated_amount True (AFin (row_committed row))) of
        (Some cap, Some p, Some u) \<Rightarrow> bindE (decimal_add p u) (\<lambda>t. Inr (\<not> dlt cap t))
      | _ \<Rightarrow> Inr False)"

definition rf_set_row :: "string \<Rightarrow> resource_row \<Rightarrow> raft_state \<Rightarrow> raft_state" where
  "rf_set_row k row s = s\<lparr>rf_resources := dput k row (rf_resources s)\<rparr>"

definition rf_set_resv :: "string \<Rightarrow> reservation \<Rightarrow> raft_state \<Rightarrow> raft_state" where
  "rf_set_resv rid r s = s\<lparr>rf_reservations := dput rid r (rf_reservations s)\<rparr>"

text \<open>An arithmetic step of a method body: an exception leaves the mutations made so far.\<close>

definition compute :: "dec result \<Rightarrow> raft_state \<Rightarrow> (dec \<Rightarrow> raft_run) \<Rightarrow> raft_run" where
  "compute x s f = (case x of Inl e \<Rightarrow> (Inl e, s) | Inr d \<Rightarrow> f d)"

subsection \<open>The replicated commands\<close>

definition rf_register :: "string \<Rightarrow> amount_in \<Rightarrow> raft_state \<Rightarrow> register_status \<times> raft_state" where
  "rf_register k cap s =
     (case validated_amount True cap of
        None \<Rightarrow> (INVALID_CAPACITY, s)
      | Some c \<Rightarrow>
        (case map_of (rf_resources s) k of
           Some row \<Rightarrow> (if deq (row_capacity row) c then ALREADY_REGISTERED else RESOURCE_CONFLICT, s)
         | None \<Rightarrow>
             (REGISTERED, rf_set_row k \<lparr>row_capacity = c, row_reserved = dzero, row_committed = dzero\<rparr> s)))"

text \<open>The two preambles of the methods that act on a reservation.\<close>

definition with_reservation ::
  "string \<Rightarrow> raft_state \<Rightarrow> (reservation \<Rightarrow> dec \<Rightarrow> raft_run) \<Rightarrow> raft_run" where
  "with_reservation rid s f =
     (case map_of (rf_reservations s) rid of
        None \<Rightarrow> (Inr (RA NOT_FOUND), s)
      | Some r \<Rightarrow>
        (case validated_amount True (AFin (amount r)) of
           None \<Rightarrow> (Inr CORRUPT_RESERVATION_STATE, s)
         | Some x \<Rightarrow> f r x))"

definition with_resource :: "string \<Rightarrow> raft_status \<Rightarrow> raft_state \<Rightarrow> (resource_row \<Rightarrow> raft_run) \<Rightarrow> raft_run" where
  "with_resource k missing s f =
     (case map_of (rf_resources s) k of
        None \<Rightarrow> (Inr missing, s)
      | Some row \<Rightarrow>
        (case normalize_resource row of
           Inl e \<Rightarrow> (Inl e, s)
         | Inr False \<Rightarrow> (Inr CORRUPT_RESOURCE_STATE, s)
         | Inr True \<Rightarrow> f row))"

definition rf_reserve_row ::
  "string \<Rightarrow> dec \<Rightarrow> string \<Rightarrow> string \<Rightarrow> raft_state \<Rightarrow> resource_row \<Rightarrow> raft_run" where
  "rf_reserve_row key x k rid s row =
    compute (decimal_add (row_reserved row) (row_committed row)) s (\<lambda>t.
    compute (decimal_add t x) s (\<lambda>total.
    if dlt (row_capacity row) total then (Inr (RA INSUFFICIENT_BUDGET), s)
    else if map_of (rf_reservations s) rid \<noteq> None then (Inr RESERVATION_ID_CONFLICT, s)
    else
      (let s1 = tick s;
           s2 = rf_set_resv rid
                  \<lparr>rkey = key, amount = x, resource_id = k, rstate = RESERVED,
                   created_at = of_nat (rf_clock s1), committed_at = None,
                   released_at = None, refunded_at = None\<rparr> s1;
           s3 = s2\<lparr>rf_index := dput key rid (rf_index s2)\<rparr>
       in compute (decimal_add (row_reserved row) x) s3 (\<lambda>p.
            (Inr (RA (St RESERVED)), rf_set_row k (row\<lparr>row_reserved := p\<rparr>) s3)))))"

definition rf_reserve ::
  "string \<Rightarrow> amount_in \<Rightarrow> string \<Rightarrow> string \<Rightarrow> raft_state \<Rightarrow>
     (raft_status \<times> string option \<times> dec option) result \<times> raft_state" where
  "rf_reserve key amt k rid s =
     (let plain = (\<lambda>st. (st, None, None)) in
      case validated_amount False amt of
        None \<Rightarrow> (Inr (plain (RA INVALID_AMOUNT)), s)
      | Some x \<Rightarrow>
        (case map_of (rf_index s) key of
           Some rid0 \<Rightarrow>
             (case map_of (rf_reservations s) rid0 of
                None \<Rightarrow> (Inr (plain IDEMPOTENCY_INDEX_CORRUPTED), s)
              | Some r \<Rightarrow>
                (case validated_amount True (AFin (amount r)) of
                   None \<Rightarrow> (Inr (plain CORRUPT_RESERVATION_STATE), s)
                 | Some old \<Rightarrow>
                   if deq old x \<and> resource_id r = k then (Inr (RA (St (rstate r)), Some rid0, Some x), s)
                   else (Inr (plain (RA DUPLICATE_KEY)), s)))
         | None \<Rightarrow>
           (case with_resource k (RA UNKNOWN_RESOURCE) s (rf_reserve_row key x k rid s) of
              (Inl e, s') \<Rightarrow> (Inl e, s')
            | (Inr (RA (St RESERVED)), s') \<Rightarrow> (Inr (RA (St RESERVED), Some rid, Some x), s')
            | (Inr st, s') \<Rightarrow> (Inr (plain st), s'))))"

text \<open>Moving the amount of a reservation from reserved to committed, as two methods do.\<close>

definition rf_settle_commit :: "string \<Rightarrow> reservation \<Rightarrow> dec \<Rightarrow> resource_row \<Rightarrow> raft_state \<Rightarrow> raft_run" where
  "rf_settle_commit rid r x row s =
     compute (decimal_subtract (row_reserved row) x) s (\<lambda>p.
       (let row1 = row\<lparr>row_reserved := p\<rparr>; s1 = rf_set_row (resource_id r) row1 s
        in compute (decimal_add (row_committed row1) x) s1 (\<lambda>u.
             (let s2 = tick (rf_set_row (resource_id r) (row1\<lparr>row_committed := u\<rparr>) s1)
              in (Inr (RA (St COMMITTED)),
                  rf_set_resv rid (r\<lparr>rstate := COMMITTED, committed_at := Some (of_nat (rf_clock s2))\<rparr>) s2)))))"

definition rf_settle_release :: "string \<Rightarrow> reservation \<Rightarrow> dec \<Rightarrow> resource_row \<Rightarrow> raft_state \<Rightarrow> raft_run" where
  "rf_settle_release rid r x row s =
     (if dlt (row_reserved row) x then (Inr INCONSISTENT_RESERVED_AMOUNT, s)
      else compute (decimal_subtract (row_reserved row) x) s (\<lambda>p.
        (let s1 = tick (rf_set_row (resource_id r) (row\<lparr>row_reserved := p\<rparr>) s)
         in (Inr (RA (St RELEASED)),
             rf_set_resv rid (r\<lparr>rstate := RELEASED, released_at := Some (of_nat (rf_clock s1))\<rparr>) s1))))"

definition rf_commit :: "string \<Rightarrow> raft_state \<Rightarrow> raft_run" where
  "rf_commit rid s = with_reservation rid s (\<lambda>r x.
     if rstate r = COMMITTED then (Inr (RA ALREADY_COMMITTED), s)
     else if rstate r \<noteq> RESERVED then (Inr INVALID_STATE, s)
     else with_resource (resource_id r) (RA ERROR) s (\<lambda>row.
       if dlt (row_reserved row) x then (Inr INCONSISTENT_RESERVED_AMOUNT, s)
       else rf_settle_commit rid r x row s))"

definition rf_release :: "string \<Rightarrow> raft_state \<Rightarrow> raft_run" where
  "rf_release rid s = with_reservation rid s (\<lambda>r x.
     if rstate r = COMMITTED then (Inr (RA ALREADY_COMMITTED), s)
     else if rstate r \<noteq> RESERVED then (Inr INVALID_STATE, s)
     else with_resource (resource_id r) (RA ERROR) s (\<lambda>row. rf_settle_release rid r x row s))"

definition rf_refund :: "string \<Rightarrow> raft_state \<Rightarrow> raft_run" where
  "rf_refund rid s = with_reservation rid s (\<lambda>r x.
     if rstate r = REFUNDED then (Inr (RA ALREADY_REFUNDED), s)
     else if rstate r \<noteq> COMMITTED then (Inr (RA NOT_COMMITTED), s)
     else with_resource (resource_id r) (RA ERROR) s (\<lambda>row.
       if dlt (row_committed row) x then (Inr INCONSISTENT_COMMITTED_AMOUNT, s)
       else compute (decimal_subtract (row_committed row) x) s (\<lambda>u.
         (let s1 = tick (rf_set_row (resource_id r) (row\<lparr>row_committed := u\<rparr>) s)
          in (Inr (RA (St REFUNDED)),
              rf_set_resv rid (r\<lparr>rstate := REFUNDED, refunded_at := Some (of_nat (rf_clock s1))\<rparr>) s1)))))"

text \<open>A late effect is an incident each time, and one compensation.\<close>

definition require_compensation :: "string \<Rightarrow> reservation \<Rightarrow> dec \<Rightarrow> raft_state \<Rightarrow> raft_state" where
  "require_compensation rid r x s =
     (let s1 = record_incident ''LATE_EFFECT_AFTER_RELEASE'' rid RELEASED s;
          cid = compensation_id rid
      in if map_of (rf_compensations s1) cid \<noteq> None then s1
         else (let s2 = tick s1
               in s2\<lparr>rf_compensations := dput cid
                      \<lparr>comp_original = rid, comp_resource = resource_id r, comp_amount = x,
                       comp_status = REQUIRED, comp_reason = late_reason,
                       comp_created = of_nat (rf_clock s2), comp_key = rkey r\<rparr>
                      (rf_compensations s2)\<rparr>))"

definition rf_reconcile_commit :: "string \<Rightarrow> raft_state \<Rightarrow> raft_run" where
  "rf_reconcile_commit rid s = with_reservation rid s (\<lambda>r x.
     if rstate r = COMMITTED then (Inr (RA ALREADY_COMMITTED), s)
     else if rstate r \<noteq> RESERVED then
       (if rstate r = RELEASED then (Inr COMPENSATION_REQUIRED, require_compensation rid r x s)
        else (Inr INVALID_STATE, s))
     else with_resource (resource_id r) (RA ERROR) s (\<lambda>row.
       if dlt (row_reserved row) x
       then (Inr INCONSISTENT_RESERVED_AMOUNT,
             record_incident ''RESERVED_AMOUNT_MISSING'' rid (rstate r) s)
       else rf_settle_commit rid r x row s))"

definition rf_reconcile_release :: "string \<Rightarrow> raft_state \<Rightarrow> raft_run" where
  "rf_reconcile_release rid s = with_reservation rid s (\<lambda>r x.
     if rstate r = COMMITTED then (Inr (RA ALREADY_COMMITTED), s)
     else if rstate r = RELEASED then (Inr (RA (St RELEASED)), s)
     else if \<not> is_open (rstate r) then (Inr INVALID_STATE, s)
     else with_resource (resource_id r) (RA ERROR) s (\<lambda>row. rf_settle_release rid r x row s))"

text \<open>The log: a replica's state is the fold of the commands it has applied.\<close>

datatype raft_cmd =
    RRegister string amount_in
  | RReserve string amount_in string string
  | RCommit string
  | RRelease string
  | RRefund string
  | RReconcileCommit string
  | RReconcileRelease string

fun raft_apply :: "raft_state \<Rightarrow> raft_cmd \<Rightarrow> raft_state" where
  "raft_apply s (RRegister k cap) = snd (rf_register k cap s)"
| "raft_apply s (RReserve key amt k rid) = snd (rf_reserve key amt k rid s)"
| "raft_apply s (RCommit rid) = snd (rf_commit rid s)"
| "raft_apply s (RRelease rid) = snd (rf_release rid s)"
| "raft_apply s (RRefund rid) = snd (rf_refund rid s)"
| "raft_apply s (RReconcileCommit rid) = snd (rf_reconcile_commit rid s)"
| "raft_apply s (RReconcileRelease rid) = snd (rf_reconcile_release rid s)"

subsection \<open>Local reads\<close>

text \<open>\<open>get_state_local\<close>; what is not a sound account is one \<open>RuntimeError\<close>.\<close>

definition rf_get_state ::
  "raft_state \<Rightarrow> string \<Rightarrow> (dec \<times> dec \<times> dec \<times> dec \<times> (string \<times> string \<times> dec \<times> rstate) list \<times>
     raft_compensation list) result" where
  "rf_get_state s k =
     (case map_of (rf_resources s) k of
        None \<Rightarrow> Inr (dzero, dzero, dzero, dzero, [], [])
      | Some row \<Rightarrow>
        (let mine = filter (\<lambda>(rid, r). resource_id r = k) (rf_reservations s);
             comps = filter (\<lambda>c. comp_resource c = k) (map snd (rf_compensations s)) in
         if \<not> row_ok row then Inl RuntimeError
         else
           case decimal_add (row_reserved row) (row_committed row) of
             Inl _ \<Rightarrow> Inl RuntimeError
           | Inr t \<Rightarrow>
             if dlt (row_capacity row) t then Inl RuntimeError
             else if list_ex (\<lambda>(rid, r). validated_amount True (AFin (amount r)) = None) mine
             then Inl RuntimeError
             else
               bindE (decimal_subtract (row_capacity row) (row_reserved row)) (\<lambda>a1.
               bindE (decimal_subtract a1 (row_committed row)) (\<lambda>a.
               Inr (a, row_reserved row, row_committed row, row_capacity row,
                    map (\<lambda>(rid, r). (rid, rkey r, amount r, rstate r)) mine, comps)))))"

definition rf_find_by_key :: "raft_state \<Rightarrow> string \<Rightarrow> (string \<times> reservation) option" where
  "rf_find_by_key s key =
     (case map_of (rf_index s) key of
        None \<Rightarrow> None
      | Some rid \<Rightarrow> map_option (Pair rid) (map_of (rf_reservations s) rid))"

subsection \<open>The client\<close>

text \<open>
  The fate of a call with \<open>sync=True\<close>: its answer arrives, or the call raises although the
  command was applied, or it raises and the command was not. Before it, other commands of the
  log are applied.
\<close>

datatype fate = Delivered | AppliedLost | Dropped

type_synonym call = "raft_cmd list \<times> fate"

definition call_once ::
  "call \<Rightarrow> (raft_state \<Rightarrow> 'a result \<times> raft_state) \<Rightarrow> raft_state \<Rightarrow> 'a option \<times> raft_state" where
  "call_once c f s =
     (let s1 = foldl raft_apply s (fst c) in
      case snd c of
        Dropped \<Rightarrow> (None, s1)
      | AppliedLost \<Rightarrow> (None, snd (f s1))
      | Delivered \<Rightarrow> (case f s1 of (Inl e, s2) \<Rightarrow> (None, s2) | (Inr a, s2) \<Rightarrow> (Some a, s2)))"

text \<open>
  The loop of \<open>commit\<close>, \<open>refund\<close> and \<open>release\<close>: an attempt for every call, the last one final.
  The code makes five.
\<close>

fun client_retry :: "(raft_state \<Rightarrow> raft_run) \<Rightarrow> call list \<Rightarrow> raft_state \<Rightarrow> raft_status \<times> raft_state" where
  "client_retry f [] s = (RA ERROR, s)"
| "client_retry f [c] s =
     (case call_once c f s of (None, s') \<Rightarrow> (RA ERROR, s') | (Some st, s') \<Rightarrow> (st, s'))"
| "client_retry f (c # c' # cs) s =
     (case call_once c f s of
        (None, s') \<Rightarrow> client_retry f (c' # cs) s'
      | (Some st, s') \<Rightarrow> if st = RA NOT_FOUND then client_retry f (c' # cs) s' else (st, s'))"

definition client_commit :: "string \<Rightarrow> call list \<Rightarrow> raft_state \<Rightarrow> raft_status \<times> raft_state" where
  "client_commit rid = client_retry (rf_commit rid)"

definition client_release :: "string \<Rightarrow> call list \<Rightarrow> raft_state \<Rightarrow> raft_status \<times> raft_state" where
  "client_release rid = client_retry (rf_release rid)"

definition client_refund :: "string \<Rightarrow> call list \<Rightarrow> raft_state \<Rightarrow> raft_status \<times> raft_state" where
  "client_refund rid = client_retry (rf_refund rid)"

definition client_reserve ::
  "string \<Rightarrow> amount_in \<Rightarrow> string \<Rightarrow> string \<Rightarrow> call \<Rightarrow> raft_state \<Rightarrow>
     (raft_status \<times> string option \<times> dec option) \<times> raft_state" where
  "client_reserve key amt k uuid c s =
     (case validated_amount False amt of
        None \<Rightarrow> ((RA INVALID_AMOUNT, None, None), s)
      | Some x \<Rightarrow>
        (case call_once c (rf_reserve key (AFin x) k uuid) s of
           (None, s') \<Rightarrow> ((RA ERROR, None, None), s')
         | (Some a, s') \<Rightarrow> (a, s')))"

text \<open>\<open>reconcile\<close>: \<open>local\<close> is the replica's own state, which may lag behind the log.\<close>

definition client_reconcile ::
  "provider \<Rightarrow> string \<Rightarrow> raft_state \<Rightarrow> call \<Rightarrow> raft_state \<Rightarrow> reconcile_answer \<times> raft_state" where
  "client_reconcile prov key local c s =
     (case rf_find_by_key local key of
        None \<Rightarrow> ((NOT_FOUND, None, None), s)
      | Some (rid, r) \<Rightarrow>
        if rstate r = COMMITTED then ((CONFIRMED, Some True, None), s)
        else
          case prov of
            None \<Rightarrow>
              (if rstate r = RELEASED then (FAILED, Some False, None) else (UNRESOLVED, None, None), s)
          | Some f \<Rightarrow>
            (case f key of
               Inl _ \<Rightarrow> ((ERROR, None, None), s)
             | Inr None \<Rightarrow> ((UNRESOLVED, None, None), s)
             | Inr (Some True) \<Rightarrow>
               (case call_once c (rf_reconcile_commit rid) s of
                  (None, s') \<Rightarrow> ((ERROR, Some True, None), s')
                | (Some st, s') \<Rightarrow>
                  (if st = RA (St COMMITTED) \<or> st = RA ALREADY_COMMITTED then (CONFIRMED, Some True, None)
                   else if st = COMPENSATION_REQUIRED
                   then (RECONCILE_CONFLICT, Some True, Some (compensation_id rid))
                   else (ERROR, Some True, None), s'))
             | Inr (Some False) \<Rightarrow>
               (case call_once c (rf_reconcile_release rid) s of
                  (None, s') \<Rightarrow> ((ERROR, Some False, None), s')
                | (Some st, s') \<Rightarrow>
                  (if st = RA ALREADY_COMMITTED then (CONFIRMED, Some True, None)
                   else if st = RA (St RELEASED) then (FAILED, Some False, None)
                   else (ERROR, Some False, None), s'))))"

end
