(* ===== verification/Raft_Guarantees.thy ===== *)
theory Raft_Guarantees
  imports Raft_Backend
begin

section \<open>The replicated state machine refines the SQLite transactions\<close>

text \<open>
  The abstraction forgets the index, the clock and the incidents and keeps the three tables. A
  replicated command either leaves the tables alone or acts on them as one transaction of the
  SQLite backend at the command's logical time; so the invariant, the order on rows and
  everything that follows from them carries over to every replica.
\<close>

declare validated_amount.simps [simp del]

definition raft_db :: "raft_state \<Rightarrow> database" where
  "raft_db s =
     \<lparr>tbl_resources = rf_resources s, tbl_reservations = rf_reservations s,
      tbl_compensations = map (\<lambda>(cid, c). (cid, compensation.truncate c)) (rf_compensations s)\<rparr>"

definition raft_ok :: "raft_state \<Rightarrow> bool" where
  "raft_ok s \<longleftrightarrow> db_ok (raft_db s) \<and>
     (\<forall>key. map_of (rf_index s) key = map_option fst (find_key key (rf_reservations s))) \<and>
     (\<forall>rid r. map_of (rf_reservations s) rid = Some r \<longrightarrow>
        validated_amount True (AFin (amount r)) = Some (amount r))"

lemma raft_db_simps [simp, store_simps]:
  "tbl_resources (raft_db s) = rf_resources s"
  "tbl_reservations (raft_db s) = rf_reservations s"
  "tbl_compensations (raft_db s) = map (\<lambda>(cid, c). (cid, compensation.truncate c)) (rf_compensations s)"
  by (simp_all add: raft_db_def)

lemma raft_update_simps [simp, store_simps]:
  "rf_resources (tick s) = rf_resources s" "rf_reservations (tick s) = rf_reservations s"
  "rf_index (tick s) = rf_index s" "rf_compensations (tick s) = rf_compensations s"
  "rf_clock (tick s) = Suc (rf_clock s)"
  "rf_resources (rf_set_row k row s) = dput k row (rf_resources s)"
  "rf_reservations (rf_set_row k row s) = rf_reservations s"
  "rf_index (rf_set_row k row s) = rf_index s" "rf_compensations (rf_set_row k row s) = rf_compensations s"
  "rf_clock (rf_set_row k row s) = rf_clock s"
  "rf_resources (rf_set_resv rid r s) = rf_resources s"
  "rf_reservations (rf_set_resv rid r s) = dput rid r (rf_reservations s)"
  "rf_index (rf_set_resv rid r s) = rf_index s" "rf_compensations (rf_set_resv rid r s) = rf_compensations s"
  "rf_clock (rf_set_resv rid r s) = rf_clock s"
  by (simp_all add: tick_def rf_set_row_def rf_set_resv_def)

lemma raft_init_ok: "raft_ok raft_init"
  using empty_database_ok
  by (simp add: raft_ok_def raft_init_def raft_db_def empty_database_def find_key_def)

lemma set_counters_raft:
  "map_of (rf_resources s) k = Some row \<Longrightarrow>
   set_counters (raft_db s) k p u =
     (raft_db s)\<lparr>tbl_resources := dput k (row\<lparr>row_reserved := p, row_committed := u\<rparr>) (rf_resources s)\<rparr>"
  by (simp add: set_counters_def)

lemma find_key_dput_old:
  "map_of rs rid = Some r0 \<Longrightarrow> rkey r = rkey r0 \<Longrightarrow>
   map_option fst (find_key key (dput rid r rs)) = map_option fst (find_key key rs)"
  by (induction rs) (auto simp: find_key_def split: if_splits)

lemma find_key_snoc:
  "find_key key (rs @ [(rid, r)]) =
     (case find_key key rs of None \<Rightarrow> (if rkey r = key then Some (rid, r) else None) | Some q \<Rightarrow> Some q)"
  by (induction rs) (auto simp: find_key_def)

text \<open>
  What a command that settles a reservation may do to a replica: nothing, or replace one record
  by an advanced one and its resource's counters with it.
\<close>

definition settled_step :: "raft_state \<Rightarrow> string \<Rightarrow> raft_state \<Rightarrow> bool" where
  "settled_step s rid s' \<longleftrightarrow> good (raft_db s) (raft_db s') \<and> rf_index s' = rf_index s \<and>
     (\<exists>r r'. map_of (rf_reservations s) rid = Some r \<and> rf_reservations s' = dput rid r' (rf_reservations s) \<and>
        rkey r' = rkey r \<and> amount r' = amount r)"

lemma settled_stepI:
  assumes "good (raft_db s) (raft_db s')" and "map_of (rf_reservations s) rid = Some r"
    and "rf_reservations s' = dput rid r' (rf_reservations s)" and "rf_index s' = rf_index s"
    and "rkey r' = rkey r" and "amount r' = amount r"
  shows "settled_step s rid s'"
  using assms unfolding settled_step_def by blast

lemma settled_step_ok: "raft_ok s \<Longrightarrow> settled_step s rid s' \<Longrightarrow> raft_ok s'"
  by (auto simp: raft_ok_def settled_step_def good_def find_key_dput_old split: if_splits)

text \<open>The settling steps are those of SQLite at the next logical time.\<close>

lemma rf_settle_commit_sim:
  assumes ok: "db_ok (raft_db s)" and r: "map_of (rf_reservations s) rid = Some r" "rstate r = RESERVED"
    and row: "map_of (rf_resources s) (resource_id r) = Some row"
  obtains s' q where "\<not> dlt (row_reserved row) (amount r)"
    and "rf_settle_commit rid r (amount r) row s = (Inr (RA (St COMMITTED)), s')" and "settled_step s rid s'"
    and "map_of (rf_reservations s') rid = Some q" and "rstate q = COMMITTED"
    and "\<forall>(a :: 'z) f. settle_commit rid r (of_nat (rf_clock s')) a f (raft_db s) = Inr (a, raft_db s')"
proof -
  obtain d' where d': "settle_commit rid r 0 True False (raft_db s) = Inr (True, d')"
    using settle_commit_moves [OF ok, of rid r 0 True False] r by (auto simp: is_open_def)
  then obtain p u where pu: "\<not> dlt (row_reserved row) (amount r)"
    "decimal_subtract (row_reserved row) (amount r) = Inr p" "decimal_add (row_committed row) (amount r) = Inr u"
    by (auto simp: settle_commit_def row bindE_Inr_conv split: if_splits)
  let ?s2 = "tick (rf_set_row (resource_id r) (row\<lparr>row_reserved := p, row_committed := u\<rparr>)
      (rf_set_row (resource_id r) (row\<lparr>row_reserved := p\<rparr>) s))"
  let ?r = "r\<lparr>rstate := COMMITTED, committed_at := Some (of_nat (rf_clock ?s2))\<rparr>"
  have 1: "rf_settle_commit rid r (amount r) row s = (Inr (RA (St COMMITTED)), rf_set_resv rid ?r ?s2)"
    using pu by (simp add: rf_settle_commit_def compute_def Let_def)
  have 2: "settle_commit rid r (of_nat (rf_clock (rf_set_resv rid ?r ?s2))) a f (raft_db s) =
      Inr (a, raft_db (rf_set_resv rid ?r ?s2))" for a and f :: "'x"
    using pu by (simp add: settle_commit_def row set_counters_raft)
  have "good (raft_db s) (raft_db (rf_set_resv rid ?r ?s2))"
    using settle_good(1) [OF ok _ _ 2] r by (simp add: is_open_def)
  then have "settled_step s rid (rf_set_resv rid ?r ?s2)" by (rule settled_stepI [OF _ r(1), where r' = "?r"]) simp_all
  moreover have "map_of (rf_reservations (rf_set_resv rid ?r ?s2)) rid = Some ?r" "rstate ?r = COMMITTED"
    by simp_all
  ultimately show thesis using that 1 2 pu(1) by blast
qed

lemma rf_settle_release_sim:
  assumes ok: "db_ok (raft_db s)" and r: "map_of (rf_reservations s) rid = Some r" "is_open (rstate r)"
    and row: "map_of (rf_resources s) (resource_id r) = Some row"
  obtains s' q where "rf_settle_release rid r (amount r) row s = (Inr (RA (St RELEASED)), s')"
    and "settled_step s rid s'" and "map_of (rf_reservations s') rid = Some q" and "rstate q = RELEASED"
    and "\<forall>(a :: 'z) f. settle_release rid r (of_nat (rf_clock s')) a f (raft_db s) = Inr (a, raft_db s')"
proof -
  obtain d' where d': "settle_release rid r 0 True False (raft_db s) = Inr (True, d')"
    using settle_release_moves [OF ok, of rid r 0 True False] r by auto
  then obtain p where p: "\<not> dlt (row_reserved row) (amount r)"
    "decimal_subtract (row_reserved row) (amount r) = Inr p"
    by (auto simp: settle_release_def row bindE_Inr_conv split: if_splits)
  let ?s1 = "tick (rf_set_row (resource_id r) (row\<lparr>row_reserved := p\<rparr>) s)"
  let ?r = "r\<lparr>rstate := RELEASED, released_at := Some (of_nat (rf_clock ?s1))\<rparr>"
  have same: "row\<lparr>row_reserved := p, row_committed := row_committed row\<rparr> = row\<lparr>row_reserved := p\<rparr>"
    by (cases row) simp
  have 1: "rf_settle_release rid r (amount r) row s = (Inr (RA (St RELEASED)), rf_set_resv rid ?r ?s1)"
    using p by (simp add: rf_settle_release_def compute_def Let_def)
  have 2: "settle_release rid r (of_nat (rf_clock (rf_set_resv rid ?r ?s1))) a f (raft_db s) =
      Inr (a, raft_db (rf_set_resv rid ?r ?s1))" for a and f :: "'x"
    using p by (simp add: settle_release_def row set_counters_raft same)
  have "good (raft_db s) (raft_db (rf_set_resv rid ?r ?s1))"
    using settle_good(2) [OF ok _ _ 2] r by simp
  then have "settled_step s rid (rf_set_resv rid ?r ?s1)" by (rule settled_stepI [OF _ r(1), where r' = "?r"]) simp_all
  moreover have "map_of (rf_reservations (rf_set_resv rid ?r ?s1)) rid = Some ?r" "rstate ?r = RELEASED"
    by simp_all
  ultimately show thesis using that 1 2 by blast
qed

lemma rf_settle_refund_sim:
  assumes ok: "db_ok (raft_db s)" and r: "map_of (rf_reservations s) rid = Some r" "rstate r = COMMITTED"
    and row: "map_of (rf_resources s) (resource_id r) = Some row"
  obtains u s' where "\<not> dlt (row_committed row) (amount r)"
    and "decimal_subtract (row_committed row) (amount r) = Inr u"
    and "s' = rf_set_resv rid (r\<lparr>rstate := REFUNDED, refunded_at := Some (of_nat (Suc (rf_clock s)))\<rparr>)
       (tick (rf_set_row (resource_id r) (row\<lparr>row_committed := u\<rparr>) s))"
    and "settled_step s rid s'"
    and "\<forall>(a :: 'z) f. settle_refund rid r (of_nat (rf_clock s')) a f (raft_db s) = Inr (a, raft_db s')"
proof -
  obtain d' where d': "settle_refund rid r 0 True False (raft_db s) = Inr (True, d')"
    using settle_refund_moves [OF ok, of rid r 0 True False] r by auto
  then obtain u where u: "\<not> dlt (row_committed row) (amount r)"
    "decimal_subtract (row_committed row) (amount r) = Inr u"
    by (auto simp: settle_refund_def row bindE_Inr_conv split: if_splits)
  let ?s = "rf_set_resv rid (r\<lparr>rstate := REFUNDED, refunded_at := Some (of_nat (Suc (rf_clock s)))\<rparr>)
       (tick (rf_set_row (resource_id r) (row\<lparr>row_committed := u\<rparr>) s))"
  have same: "row\<lparr>row_reserved := row_reserved row, row_committed := u\<rparr> = row\<lparr>row_committed := u\<rparr>"
    by (cases row) simp
  have 2: "settle_refund rid r (of_nat (rf_clock ?s)) a f (raft_db s) = Inr (a, raft_db ?s)" for a and f :: "'x"
    using u by (simp add: settle_refund_def row set_counters_raft same)
  have "good (raft_db s) (raft_db ?s)"
    using settle_good(3) [OF ok _ _ 2] r by simp
  then have "settled_step s rid ?s" by (rule settled_stepI [OF _ r(1), where r' = "r\<lparr>rstate := REFUNDED, refunded_at := Some (of_nat (Suc (rf_clock s)))\<rparr>"]) simp_all
  with 2 u show thesis using that [OF u refl] by blast
qed

subsection \<open>The commands\<close>

definition sq_of :: "rat \<Rightarrow> raft_cmd \<Rightarrow> sq_request" where
  "sq_of t c =
     (case c of
        RRegister k cap \<Rightarrow> SqRegister k cap
      | RReserve key amt k rid \<Rightarrow> SqReserve key amt k rid t
      | RCommit rid \<Rightarrow> SqCommit rid t
      | RRelease rid \<Rightarrow> SqRelease rid t
      | RRefund rid \<Rightarrow> SqRefund rid t
      | RReconcileCommit rid \<Rightarrow> SqFinish rid (Some True) t
      | RReconcileRelease rid \<Rightarrow> SqFinish rid (Some False) t)"

text \<open>One step: sound again, rows advance, and the tables as after the SQLite transaction.\<close>

definition named :: "raft_cmd \<Rightarrow> bool" where
  "named c = (case c of RRegister k _ \<Rightarrow> k \<noteq> [] | RReserve key _ k _ \<Rightarrow> key \<noteq> [] \<and> k \<noteq> [] | _ \<Rightarrow> True)"

definition sim_step :: "raft_state \<Rightarrow> raft_cmd \<Rightarrow> bool" where
  "sim_step s c \<longleftrightarrow> raft_ok (raft_apply s c) \<and> good (raft_db s) (raft_db (raft_apply s c)) \<and>
     (named c \<longrightarrow> raft_db (raft_apply s c) = raft_db s \<or>
        raft_db (raft_apply s c) =
          sq_step (raft_db s) (sq_of (of_nat (rf_clock (raft_apply s c))) c, None))"

lemma sim_same: "raft_ok s \<Longrightarrow> raft_apply s c = s \<Longrightarrow> sim_step s c"
  by (simp add: sim_step_def raft_ok_def)

lemma raft_okD:
  assumes "raft_ok s"
  shows "db_ok (raft_db s)"
    and "map_of (rf_index s) key = map_option fst (find_key key (rf_reservations s))"
    and "map_of (rf_reservations s) rid = Some r \<Longrightarrow> validated_amount True (AFin (amount r)) = Some (amount r)"
  using assms by (auto simp: raft_ok_def)

lemma with_resource_rule:
  assumes "\<And>row. map_of (rf_resources s) k = Some row \<Longrightarrow> P (f row)"
    and "\<And>a. a = Inr m \<or> a = Inr CORRUPT_RESOURCE_STATE \<or> (\<exists>e. a = Inl e) \<Longrightarrow> P (a, s)"
  shows "P (with_resource k m s f)"
  using assms by (auto simp: with_resource_def split: option.split sum.split bool.split)

lemma with_reservation_ok:
  "raft_ok s \<Longrightarrow> with_reservation rid s f =
     (case map_of (rf_reservations s) rid of None \<Rightarrow> (Inr (RA NOT_FOUND), s) | Some r \<Rightarrow> f r (amount r))"
  by (auto simp: with_reservation_def raft_okD(3) split: option.splits)

text \<open>
  \<open>commit\<close> either changes nothing or is the commit of SQLite, with the same answer.
\<close>

definition commit_effect :: "raft_state \<Rightarrow> string \<Rightarrow> raft_run \<Rightarrow> bool" where
  "commit_effect s rid run \<longleftrightarrow>
     (if fst run = Inr (RA (St COMMITTED)) then
        settled_step s rid (snd run) \<and>
        sq_commit None rid (of_nat (rf_clock (snd run))) (raft_db s) = (Inr (St COMMITTED), raft_db (snd run)) \<and>
        (\<exists>r. map_of (rf_reservations (snd run)) rid = Some r \<and> rstate r = COMMITTED)
      else snd run = s \<and> (fst run = Inr (RA ALREADY_COMMITTED) \<longrightarrow>
        (\<exists>r. map_of (rf_reservations s) rid = Some r \<and> rstate r = COMMITTED)))"

lemma rf_commit_sim:
  assumes ok: "raft_ok s"
  shows "commit_effect s rid (rf_commit rid s)"
proof (cases "\<exists>r. map_of (rf_reservations s) rid = Some r \<and> rstate r = RESERVED")
  case False
  then show ?thesis
    by (auto simp: rf_commit_def with_reservation_ok [OF ok] commit_effect_def split: option.splits)
next
  case True
  then obtain r where r: "map_of (rf_reservations s) rid = Some r" "rstate r = RESERVED" by blast
  have "commit_effect s rid (with_resource (resource_id r) (RA ERROR) s (\<lambda>row.
      if dlt (row_reserved row) (amount r) then (Inr INCONSISTENT_RESERVED_AMOUNT, s)
      else rf_settle_commit rid r (amount r) row s))"
  proof (rule with_resource_rule)
    fix row
    assume row: "map_of (rf_resources s) (resource_id r) = Some row"
    obtain s1 q where *: "\<not> dlt (row_reserved row) (amount r)"
      "rf_settle_commit rid r (amount r) row s = (Inr (RA (St COMMITTED)), s1)" "settled_step s rid s1"
      "map_of (rf_reservations s1) rid = Some q" "rstate q = COMMITTED"
      "\<forall>(a :: status) f. settle_commit rid r (of_nat (rf_clock s1)) a f (raft_db s) = Inr (a, raft_db s1)"
      using raft_okD(1) [OF ok] r row by (rule rf_settle_commit_sim [where ?'z = status])
    then show "commit_effect s rid (if dlt (row_reserved row) (amount r)
        then (Inr INCONSISTENT_RESERVED_AMOUNT, s) else rf_settle_commit rid r (amount r) row s)"
      using r by (simp add: commit_effect_def sq_commit_def)
  qed (auto simp: commit_effect_def)
  with r show ?thesis by (simp add: rf_commit_def with_reservation_ok [OF ok])
qed

text \<open>The other settling commands, in the same form.\<close>

definition settle_effect :: "raft_state \<Rightarrow> raft_cmd \<Rightarrow> string \<Rightarrow> raft_run \<Rightarrow> bool" where
  "settle_effect s c rid run \<longleftrightarrow>
     snd run = s \<or>
     settled_step s rid (snd run) \<and>
     sq_step (raft_db s) (sq_of (of_nat (rf_clock (snd run))) c, None) = raft_db (snd run)"

lemma settle_effect_refuse [simp]: "settle_effect s c rid (a, s)"
  by (simp add: settle_effect_def)

lemma rf_release_sim:
  assumes ok: "raft_ok s"
  shows "settle_effect s (RRelease rid) rid (rf_release rid s)"
proof (cases "\<exists>r. map_of (rf_reservations s) rid = Some r \<and> rstate r = RESERVED")
  case False
  then show ?thesis by (auto simp: rf_release_def with_reservation_ok [OF ok] split: option.splits)
next
  case True
  then obtain r where r: "map_of (rf_reservations s) rid = Some r" "rstate r = RESERVED" by blast
  have "settle_effect s (RRelease rid) rid (with_resource (resource_id r) (RA ERROR) s
      (\<lambda>row. rf_settle_release rid r (amount r) row s))"
  proof (rule with_resource_rule)
    fix row
    assume row: "map_of (rf_resources s) (resource_id r) = Some row"
    have "is_open (rstate r)" using r by (simp add: is_open_def)
    with raft_okD(1) [OF ok] r(1) obtain s1 q where
      "rf_settle_release rid r (amount r) row s = (Inr (RA (St RELEASED)), s1)" "settled_step s rid s1"
      "map_of (rf_reservations s1) rid = Some q" "rstate q = RELEASED"
      "\<forall>(a :: status) f. settle_release rid r (of_nat (rf_clock s1)) a f (raft_db s) = Inr (a, raft_db s1)"
      using row by (rule rf_settle_release_sim [where ?'z = status])
    then show "settle_effect s (RRelease rid) rid (rf_settle_release rid r (amount r) row s)"
      using r by (simp add: settle_effect_def sq_of_def sq_release_def)
  qed simp
  with r show ?thesis by (simp add: rf_release_def with_reservation_ok [OF ok])
qed

lemma rf_refund_sim:
  assumes ok: "raft_ok s"
  shows "settle_effect s (RRefund rid) rid (rf_refund rid s)"
proof (cases "\<exists>r. map_of (rf_reservations s) rid = Some r \<and> rstate r = COMMITTED")
  case False
  then show ?thesis by (auto simp: rf_refund_def with_reservation_ok [OF ok] split: option.splits)
next
  case True
  then obtain r where r: "map_of (rf_reservations s) rid = Some r" "rstate r = COMMITTED" by blast
  let ?f = "\<lambda>row. if dlt (row_committed row) (amount r) then (Inr INCONSISTENT_COMMITTED_AMOUNT, s)
       else compute (decimal_subtract (row_committed row) (amount r)) s (\<lambda>u.
         (let s1 = tick (rf_set_row (resource_id r) (row\<lparr>row_committed := u\<rparr>) s)
          in (Inr (RA (St REFUNDED)),
              rf_set_resv rid (r\<lparr>rstate := REFUNDED, refunded_at := Some (of_nat (rf_clock s1))\<rparr>) s1)))"
  have "settle_effect s (RRefund rid) rid (with_resource (resource_id r) (RA ERROR) s ?f)"
  proof (rule with_resource_rule)
    fix row
    assume row: "map_of (rf_resources s) (resource_id r) = Some row"
    obtain u s1 where *: "\<not> dlt (row_committed row) (amount r)"
      "decimal_subtract (row_committed row) (amount r) = Inr u"
      "s1 = rf_set_resv rid (r\<lparr>rstate := REFUNDED, refunded_at := Some (of_nat (Suc (rf_clock s)))\<rparr>)
         (tick (rf_set_row (resource_id r) (row\<lparr>row_committed := u\<rparr>) s))" "settled_step s rid s1"
      "\<forall>(a :: status) f. settle_refund rid r (of_nat (rf_clock s1)) a f (raft_db s) = Inr (a, raft_db s1)"
      using raft_okD(1) [OF ok] r row by (rule rf_settle_refund_sim [where ?'z = status])
    then have "?f row = (Inr (RA (St REFUNDED)), s1)" by (simp add: compute_def)
    then show "settle_effect s (RRefund rid) rid (?f row)"
      using *(4,5) r by (simp add: settle_effect_def sq_of_def sq_refund_def)
  qed simp
  with r show ?thesis by (simp add: rf_refund_def with_reservation_ok [OF ok])
qed

lemma rf_reconcile_release_sim:
  assumes ok: "raft_ok s"
  shows "settle_effect s (RReconcileRelease rid) rid (rf_reconcile_release rid s)"
proof (cases "\<exists>r. map_of (rf_reservations s) rid = Some r \<and> is_open (rstate r)")
  case False
  then show ?thesis by (auto simp: rf_reconcile_release_def with_reservation_ok [OF ok] split: option.splits)
next
  case True
  then obtain r where r: "map_of (rf_reservations s) rid = Some r" "is_open (rstate r)" by blast
  have "settle_effect s (RReconcileRelease rid) rid (with_resource (resource_id r) (RA ERROR) s
      (\<lambda>row. rf_settle_release rid r (amount r) row s))"
  proof (rule with_resource_rule)
    fix row
    assume row: "map_of (rf_resources s) (resource_id r) = Some row"
    obtain s1 q where
      "rf_settle_release rid r (amount r) row s = (Inr (RA (St RELEASED)), s1)" "settled_step s rid s1"
      "map_of (rf_reservations s1) rid = Some q" "rstate q = RELEASED"
      "\<forall>(a :: reconcile_answer) f. settle_release rid r (of_nat (rf_clock s1)) a f (raft_db s) = Inr (a, raft_db s1)"
      using raft_okD(1) [OF ok] r row by (rule rf_settle_release_sim [where ?'z = reconcile_answer])
    then show "settle_effect s (RReconcileRelease rid) rid (rf_settle_release rid r (amount r) row s)"
      using r by (simp add: settle_effect_def sq_of_def finish_body_def)
  qed simp
  with r show ?thesis
    by (auto simp: rf_reconcile_release_def with_reservation_ok [OF ok] is_open_def)
qed

text \<open>A late effect: the incident log and the clock move, and the compensation is inserted.\<close>

lemma comp_exists:
  assumes ok: "db_ok (raft_db s)"
  shows "(\<exists>(c, row) \<in> set (tbl_compensations (raft_db s)). c = compensation_id rid \<or> comp_original row = rid)
    \<longleftrightarrow> map_of (rf_compensations s) (compensation_id rid) \<noteq> None"
proof -
  have wf: "wf_dict (tbl_compensations (raft_db s))" using ok by (simp only: db_ok_def)
  have "c = compensation_id (comp_original row)" if "(c, row) \<in> set (tbl_compensations (raft_db s))" for c row
    using comp_soundD [OF ok] that wf_dict_map_of [OF wf] by blast
  then have "(\<exists>(c, row) \<in> set (tbl_compensations (raft_db s)). c = compensation_id rid \<or> comp_original row = rid)
      \<longleftrightarrow> compensation_id rid \<in> fst ` set (tbl_compensations (raft_db s))" by force
  also have "\<dots> \<longleftrightarrow> map_of (rf_compensations s) (compensation_id rid) \<noteq> None"
    by (simp add: image_image case_prod_unfold map_of_eq_None_iff)
  finally show ?thesis .
qed

lemma map_dput: "map (\<lambda>(k, v). (k, f v)) (dput k v d) = dput k (f v) (map (\<lambda>(k, v). (k, f v)) d)"
  by (induction d) auto

lemma require_compensation_sim:
  assumes ok: "raft_ok s" and r: "map_of (rf_reservations s) rid = Some r" "rstate r = RELEASED"
  defines "s' \<equiv> require_compensation rid r (amount r) s"
  shows "raft_db s' = insert_compensation rid r (of_nat (rf_clock s')) (raft_db s)"
    and "rf_reservations s' = rf_reservations s" and "rf_index s' = rf_index s"
proof -
  note c = comp_exists [OF raft_okD(1) [OF ok], of rid]
  show "rf_reservations s' = rf_reservations s" "rf_index s' = rf_index s"
    by (simp_all add: s'_def require_compensation_def record_incident_def Let_def)
  show "raft_db s' = insert_compensation rid r (of_nat (rf_clock s')) (raft_db s)"
  proof (cases "map_of (rf_compensations s) (compensation_id rid)")
    case None
    with c show ?thesis
      unfolding insert_compensation_def s'_def
      by (simp add: require_compensation_def record_incident_def Let_def raft_db_def tick_def map_dput
          compensation.truncate_def)
  next
    case (Some q)
    with c show ?thesis
      unfolding insert_compensation_def s'_def
      by (simp add: require_compensation_def record_incident_def Let_def raft_db_def tick_def)
  qed
qed

lemma validated_sq:
  assumes "validated_amount z a = Some x"
  shows "sq_decimal z a = Some x" and "a = AFin x"
proof -
  from assms obtain d where a: "a = AFin d" by (cases a) (auto simp: validated_amount.simps)
  with assms have x: "x = d" "0 \<le> coef x" "coef x = 0 \<longrightarrow> z" "ddigits x \<le> 128" "\<bar>expo x\<bar> \<le> 128"
    "dval x \<le> dval MAX_AMOUNT"
    by (auto simp: validated_amount.simps dlt_dval split: if_splits)
  have "adjusted x \<le> 128"
  proof (cases "coef x = 0")
    case True
    then have "ddigits x = 1" by (simp add: ddigits_def ndigits.simps)
    with x(5) show ?thesis by (simp add: adjusted_def)
  next
    case False
    have "\<bar>dval x\<bar> < 10 powi 19" using x(2,6) by (simp add: dval_def MAX_AMOUNT_def)
    from adjusted_less_of_dval [OF False this] show ?thesis by simp
  qed
  with x a show "sq_decimal z a = Some x" by auto
  show "a = AFin x" using a x(1) by simp
qed

lemma sim_settled:
  "raft_ok s \<Longrightarrow> settle_effect s c rid run \<Longrightarrow> raft_apply s c = snd run \<Longrightarrow> sim_step s c"
  by (auto simp: settle_effect_def sim_step_def intro: settled_step_ok)
    (auto simp: settled_step_def raft_okD(1))

lemma rf_reconcile_commit_sim:
  assumes ok: "raft_ok s"
  shows "sim_step s (RReconcileCommit rid)"
proof -
  consider (compensate) r where "map_of (rf_reservations s) rid = Some r" "rstate r = RELEASED"
    | (settle) r where "map_of (rf_reservations s) rid = Some r" "rstate r = RESERVED"
    | (same) "snd (rf_reconcile_commit rid s) = s"
  proof (cases "map_of (rf_reservations s) rid")
    case None
    with same show thesis by (simp add: rf_reconcile_commit_def with_reservation_ok [OF ok])
  next
    case (Some r)
    show thesis
    proof (cases "rstate r = RELEASED \<or> rstate r = RESERVED")
      case False
      with Some same show thesis by (simp add: rf_reconcile_commit_def with_reservation_ok [OF ok])
    qed (use Some compensate settle in blast)
  qed
  then show ?thesis
  proof cases
    case (compensate r)
    let ?s = "require_compensation rid r (amount r) s"
    note q = require_compensation_sim [OF ok compensate]
    have a: "raft_apply s (RReconcileCommit rid) = ?s"
      using compensate by (simp add: rf_reconcile_commit_def with_reservation_ok [OF ok])
    have "raft_db ?s = sq_step (raft_db s) (sq_of (of_nat (rf_clock ?s)) (RReconcileCommit rid), None)"
      using compensate by (simp add: sq_of_def finish_body_def q(1))
    moreover have "good (raft_db s) (raft_db ?s)"
      using sq_step_good [OF raft_okD(1) [OF ok]] calculation by metis
    moreover have "raft_ok ?s"
      using ok calculation(2) q(2,3) by (auto simp: raft_ok_def good_def)
    ultimately show ?thesis unfolding sim_step_def a by blast
  next
    case (settle r)
    let ?f = "\<lambda>row. if dlt (row_reserved row) (amount r)
       then (Inr INCONSISTENT_RESERVED_AMOUNT,
             record_incident ''RESERVED_AMOUNT_MISSING'' rid (rstate r) s)
       else rf_settle_commit rid r (amount r) row s"
    have "settle_effect s (RReconcileCommit rid) rid (with_resource (resource_id r) (RA ERROR) s ?f)"
    proof (rule with_resource_rule)
      fix row
      assume row: "map_of (rf_resources s) (resource_id r) = Some row"
      obtain s1 q where *: "\<not> dlt (row_reserved row) (amount r)"
        "rf_settle_commit rid r (amount r) row s = (Inr (RA (St COMMITTED)), s1)" "settled_step s rid s1"
        "map_of (rf_reservations s1) rid = Some q" "rstate q = COMMITTED"
        "\<forall>(a :: reconcile_answer) f. settle_commit rid r (of_nat (rf_clock s1)) a f (raft_db s) = Inr (a, raft_db s1)"
        using raft_okD(1) [OF ok] settle row by (rule rf_settle_commit_sim [where ?'z = reconcile_answer])
      then show "settle_effect s (RReconcileCommit rid) rid (?f row)"
        using settle by (simp add: settle_effect_def sq_of_def finish_body_def is_open_def)
    qed simp
    with ok show ?thesis
      by (rule sim_settled) (simp add: rf_reconcile_commit_def with_reservation_ok [OF ok] settle)
  next
    case same
    with ok show ?thesis by (intro sim_same) simp_all
  qed
qed

text \<open>\<open>reserve\<close>: the part that inserts, against the body of the SQLite reserve.\<close>

definition reserved_state :: "string \<Rightarrow> dec \<Rightarrow> string \<Rightarrow> string \<Rightarrow> resource_row \<Rightarrow> dec \<Rightarrow> raft_state \<Rightarrow> raft_state" where
  "reserved_state key x k rid row p s =
     rf_set_row k (row\<lparr>row_reserved := p\<rparr>)
       ((rf_set_resv rid (new_reservation key x k (of_nat (Suc (rf_clock s)))) (tick s))
          \<lparr>rf_index := dput key rid (rf_index s)\<rparr>)"

lemma reserved_state_simps [simp, store_simps]:
  "rf_reservations (reserved_state key x k rid row p s) =
     dput rid (new_reservation key x k (of_nat (Suc (rf_clock s)))) (rf_reservations s)"
  "rf_index (reserved_state key x k rid row p s) = dput key rid (rf_index s)"
  "rf_clock (reserved_state key x k rid row p s) = Suc (rf_clock s)"
  "rf_resources (reserved_state key x k rid row p s) = dput k (row\<lparr>row_reserved := p\<rparr>) (rf_resources s)"
  "rf_compensations (reserved_state key x k rid row p s) = rf_compensations s"
  by (simp_all add: reserved_state_def rf_set_row_def rf_set_resv_def)

lemma raft_db_reserved:
  assumes "map_of (rf_resources s) k = Some row"
  shows "raft_db (reserved_state key x k rid row p s) =
    set_reservation (set_counters (raft_db s) k p (row_committed row)) rid
      (new_reservation key x k (of_nat (Suc (rf_clock s))))"
proof -
  have "row\<lparr>row_reserved := p, row_committed := row_committed row\<rparr> = row\<lparr>row_reserved := p\<rparr>" by (cases row) simp
  then show ?thesis by (subst set_counters_raft [OF assms]) (simp add: raft_db_def set_reservation_def)
qed

lemma reserved_state_ok:
  assumes ok: "raft_ok s" and i: "map_of (rf_index s) key = None" and n: "map_of (rf_reservations s) rid = None"
    and x: "validated_amount False (AFin x) = Some x"
    and db: "db_ok (raft_db (reserved_state key x k rid row p s))"
  shows "raft_ok (reserved_state key x k rid row p s)"
proof -
  have v: "validated_amount True (AFin x) = Some x" using x by (auto simp: validated_amount.simps split: if_splits)
  have key: "find_key key (rf_reservations s) = None" using raft_okD(2) [OF ok, of key] i by simp
  have "map_of (dput key rid (rf_index s)) key' =
      map_option fst (find_key key' (dput rid (new_reservation key x k t) (rf_reservations s)))" for key' t
    using raft_okD(2) [OF ok, of key'] key
    by (auto simp: dput_new [OF n] find_key_snoc new_reservation_def split: option.split)
  with db v raft_okD(3) [OF ok] show ?thesis
    by (auto simp: raft_ok_def new_reservation_def split: if_splits)
qed

lemma rf_reserve_snd:
  "snd (rf_reserve key amt k rid s) =
     (case (validated_amount False amt, map_of (rf_index s) key) of
        (Some x, None) \<Rightarrow> snd (with_resource k (RA UNKNOWN_RESOURCE) s (rf_reserve_row key x k rid s))
      | _ \<Rightarrow> s)"
  by (simp add: rf_reserve_def split: option.split prod.split sum.split raft_status.split status.split rstate.split)

lemma rf_reserve_run:
  assumes ok: "raft_ok s" and x: "validated_amount False amt = Some x" and i: "map_of (rf_index s) key = None"
  defines "t \<equiv> of_nat (Suc (rf_clock s))"
  shows "snd (rf_reserve key amt k rid s) = s \<or>
    (\<exists>row p a. map_of (rf_resources s) k = Some row \<and> map_of (rf_reservations s) rid = None \<and>
      snd (rf_reserve key amt k rid s) = reserved_state key x k rid row p s \<and>
      reserve_body key x k rid t (raft_db s) = Inr (a, raft_db (reserved_state key x k rid row p s)))"
proof -
  have sx: "in_range x" "0 < dval x" using sq_decimal_Some [OF validated_sq(1) [OF x]] by auto
  have key: "find_key key (rf_reservations s) = None" using raft_okD(2) [OF ok, of key] i by simp
  let ?f = "rf_reserve_row key x k rid s"
  define P where "P s' \<longleftrightarrow> s' = s \<or>
    (\<exists>row p a. map_of (rf_resources s) k = Some row \<and> map_of (rf_reservations s) rid = None \<and>
      s' = reserved_state key x k rid row p s \<and>
      reserve_body key x k rid t (raft_db s) = Inr (a, raft_db (reserved_state key x k rid row p s)))" for s'
  have "P (snd (with_resource k (RA UNKNOWN_RESOURCE) s ?f))"
  proof (rule with_resource_rule [of s k "\<lambda>run. P (snd run)"])
    fix row
    assume row: "map_of (rf_resources s) k = Some row"
    then have rw: "map_of (tbl_resources (raft_db s)) k = Some row" by simp
    have k': "find_key key (tbl_reservations (raft_db s)) = None" using key by simp
    note e = reserve_body_exact [OF raft_okD(1) [OF ok] sx k' rw, of rid t]
    show "P (snd (?f row))"
    proof (cases "dval (row_reserved row) + dval (row_committed row) + dval x \<le> dval (row_capacity row)
        \<and> map_of (rf_reservations s) rid = None")
      case True
      with e(2) obtain d' where d': "reserve_body key x k rid t (raft_db s) = Inr ((St RESERVED, Some rid, Some x), d')"
        by auto
      then obtain a b p where dec: "decimal_add (row_reserved row) (row_committed row) = Inr a"
        "decimal_add a x = Inr b" "\<not> dlt (row_capacity row) b" "decimal_add (row_reserved row) x = Inr p"
        using True by (auto simp: reserve_body_def key row bindE_Inr_conv split: if_splits)
      have "?f row = (Inr (RA (St RESERVED)), reserved_state key x k rid row p s)"
        using dec True by (simp add: rf_reserve_row_def compute_def Let_def reserved_state_def new_reservation_def)
      moreover have "reserve_body key x k rid t (raft_db s) =
          Inr ((St RESERVED, Some rid, Some x), raft_db (reserved_state key x k rid row p s))"
        using dec True by (simp add: reserve_body_def key row raft_db_reserved t_def new_reservation_def)
      ultimately show ?thesis using row True unfolding P_def by auto
    next
      case False
      have "snd (?f row) = s"
      proof (cases "decimal_add (row_reserved row) (row_committed row)")
        case (Inr a)
        then show ?thesis
          using False decimal_add_dval [OF Inr] decimal_add_dval [of a x]
          by (cases "decimal_add a x") (auto simp: rf_reserve_row_def compute_def dlt_dval)
      qed (simp add: rf_reserve_row_def compute_def)
      then show ?thesis by (simp add: P_def)
    qed
  qed (simp add: P_def)
  moreover have "snd (rf_reserve key amt k rid s) = snd (with_resource k (RA UNKNOWN_RESOURCE) s ?f)"
    using x i by (simp add: rf_reserve_snd)
  ultimately show ?thesis unfolding P_def by simp
qed

lemma rf_reserve_sim:
  assumes ok: "raft_ok s"
  shows "sim_step s (RReserve key amt k rid)"
proof (cases "snd (rf_reserve key amt k rid s) = s")
  case True
  with ok show ?thesis by (intro sim_same) simp_all
next
  case False
  have "\<exists>x. validated_amount False amt = Some x"
    using False by (cases "validated_amount False amt") (auto simp: rf_reserve_def)
  then obtain x where x: "validated_amount False amt = Some x" by blast
  have i: "map_of (rf_index s) key = None"
    using False x by (cases "map_of (rf_index s) key") (auto simp: rf_reserve_def split: option.splits)
  obtain row p a where row: "map_of (rf_resources s) k = Some row" and n: "map_of (rf_reservations s) rid = None"
    and s': "snd (rf_reserve key amt k rid s) = reserved_state key x k rid row p s"
    and b: "reserve_body key x k rid (of_nat (Suc (rf_clock s))) (raft_db s) =
      Inr (a, raft_db (reserved_state key x k rid row p s))"
    using rf_reserve_run [OF ok x i, of k rid] False by auto
  have sx: "in_range x" "0 < dval x" using sq_decimal_Some [OF validated_sq(1) [OF x]] by auto
  have g: "good (raft_db s) (raft_db (reserved_state key x k rid row p s))"
    by (rule reserve_body_good [OF raft_okD(1) [OF ok] sx b])
  have "validated_amount False (AFin x) = Some x" using x validated_sq(2) [OF x] by simp
  then have "raft_ok (reserved_state key x k rid row p s)"
    using g by (intro reserved_state_ok [OF ok i n]) (simp_all add: good_def)
  moreover have "named (RReserve key amt k rid) \<Longrightarrow>
     raft_db (reserved_state key x k rid row p s) =
       sq_step (raft_db s) (sq_of (of_nat (Suc (rf_clock s))) (RReserve key amt k rid), None)"
    using b validated_sq(1) [OF x] by (simp add: named_def sq_of_def sq_reserve_def)
  ultimately show ?thesis using g by (simp add: sim_step_def s' del: sq_step.simps)
qed

lemma rf_register_sim:
  assumes ok: "raft_ok s"
  shows "sim_step s (RRegister k cap)"
proof (cases "snd (rf_register k cap s) = s")
  case True
  with ok show ?thesis by (intro sim_same) simp_all
next
  case False
  then obtain c where c: "validated_amount True cap = Some c" and k: "map_of (rf_resources s) k = None"
    by (auto simp: rf_register_def split: option.splits)
  let ?row = "\<lparr>row_capacity = c, row_reserved = dzero, row_committed = dzero\<rparr>"
  have s': "snd (rf_register k cap s) = rf_set_row k ?row s" by (simp add: rf_register_def c k)
  have db: "raft_db (rf_set_row k ?row s) = (raft_db s)\<lparr>tbl_resources := dput k ?row (tbl_resources (raft_db s))\<rparr>"
    by (simp add: raft_db_def)
  from sq_decimal_Some [OF validated_sq(1) [OF c]] have "in_range c" "0 \<le> dval c" by auto
  with register_ok [OF raft_okD(1) [OF ok], of k c] k have "db_ok (raft_db (rf_set_row k ?row s))"
    by (simp only: db raft_db_simps)
  moreover have "sq_le (raft_db s) (raft_db (rf_set_row k ?row s))"
    using k by (auto simp: sq_le_def db_view_def db split: option.splits if_splits)
  moreover have "named (RRegister k cap) \<Longrightarrow> raft_db (rf_set_row k ?row s) =
      sq_step (raft_db s) (sq_of t (RRegister k cap), None)" for t
    using k validated_sq(1) [OF c] by (simp add: named_def sq_of_def sq_register_def db)
  ultimately show ?thesis using ok
    by (auto simp: sim_step_def s' good_def raft_ok_def simp del: sq_step.simps)
qed

lemma rf_commit_effect: "raft_ok s \<Longrightarrow> settle_effect s (RCommit rid) rid (rf_commit rid s)"
  using rf_commit_sim [of s rid] by (auto simp: commit_effect_def settle_effect_def sq_of_def split: if_splits)

lemma raft_step_sim:
  assumes ok: "raft_ok s"
  shows "sim_step s c"
proof (cases c)
  case (RCommit rid)
  then show ?thesis using sim_settled [OF ok rf_commit_effect [OF ok, of rid]] by simp
next
  case (RRelease rid)
  then show ?thesis using sim_settled [OF ok rf_release_sim [OF ok, of rid]] by simp
next
  case (RRefund rid)
  then show ?thesis using sim_settled [OF ok rf_refund_sim [OF ok, of rid]] by simp
next
  case (RReconcileRelease rid)
  then show ?thesis using sim_settled [OF ok rf_reconcile_release_sim [OF ok, of rid]] by simp
qed (simp_all add: ok rf_register_sim rf_reserve_sim rf_reconcile_commit_sim)

text \<open>A replica over the log is a machine of the shared interface, ordered by its tables.\<close>

interpretation raft: machine_order raft_apply raft_ok "\<lambda>s s'. sq_le (raft_db s) (raft_db s')"
  by unfold_locales (use raft_step_sim in \<open>auto simp: sim_step_def good_def intro: sq_le_trans\<close>)

subsection \<open>What the replicated ledger promises\<close>


text \<open>
  C22. Replicas are sound at every lag. Whatever prefix of the log a replica has applied: its
  counters are exactly the totals of its reservations and fit the capacity; and compared with a
  replica that has applied more, it knows the same resources or fewer, and no reservation of it
  is ahead: each is there with the same key, amount and resource, in the same or a later state.
\<close>

theorem raft_replicas_sound:
  "let s = foldl raft_apply raft_init cmds; s' = foldl raft_apply s rest in
   (\<forall>k cap p u. db_view (raft_db s) k = Some (cap, p, u) \<longrightarrow>
      p = held (rf_reservations s) k \<and> u = spent (rf_reservations s) k \<and> p + u \<le> cap \<and>
      (\<exists>p' u'. db_view (raft_db s') k = Some (cap, p', u'))) \<and>
   registry_le (rf_reservations s) (rf_reservations s')"
proof -
  let ?s = "foldl raft_apply raft_init cmds"
  have ok: "raft_ok ?s" by (rule raft.run_inv [OF raft_init_ok])
  note D = db_okD [OF raft_okD(1) [OF ok]]
  have "p = held (rf_reservations ?s) k \<and> u = spent (rf_reservations ?s) k \<and> p + u \<le> cap"
    if "db_view (raft_db ?s) k = Some (cap, p, u)" for k cap p u
  proof -
    from that obtain row where row: "map_of (tbl_resources (raft_db ?s)) k = Some row"
      "(cap, p, u) = (dval (row_capacity row), dval (row_reserved row), dval (row_committed row))"
      by (auto simp: db_view_def split: option.splits)
    from D(3) [OF row(1)] D(7) [unfolded ledger_ok_def, rule_format, of k] that row(2)
    show ?thesis by (simp add: row_sound_def)
  qed
  moreover from raft.run_le [OF ok, of rest] have "sq_le (raft_db ?s) (raft_db (foldl raft_apply ?s rest))" .
  ultimately show ?thesis by (simp add: Let_def sq_le_def)
qed

lemma call_once_ok:
  assumes ok: "raft_ok s" and c: "call_once c (rf_commit rid) s = (a, s')"
  shows "raft_ok s' \<and> sq_le (raft_db s) (raft_db s') \<and>
    (a = Some (RA (St COMMITTED)) \<or> a = Some (RA ALREADY_COMMITTED) \<longrightarrow>
      (\<exists>r. map_of (rf_reservations s') rid = Some r \<and> rstate r = COMMITTED))"
proof -
  let ?s1 = "foldl raft_apply s (fst c)"
  have 1: "raft_ok ?s1" "sq_le (raft_db s) (raft_db ?s1)" by (rule raft.run_inv [OF ok], rule raft.run_le [OF ok])
  have 2: "raft_ok (raft_apply ?s1 (RCommit rid))" "sq_le (raft_db ?s1) (raft_db (raft_apply ?s1 (RCommit rid)))"
    by (rule raft.step_inv [OF 1(1)], rule raft.step_le [OF 1(1)])
  from rf_commit_sim [OF 1(1), of rid] c 1 2 sq_le_trans [OF 1(2) 2(2)] show ?thesis
    by (auto simp: call_once_def Let_def commit_effect_def split: fate.splits prod.splits sum.splits if_splits)
qed

text \<open>
  The client's commit is truthful. However often its calls are lost, applied or not, and
  whatever other commands the log carries between them, the ledger stays sound, nothing moves
  backwards, and when the client is told committed or already committed the reservation is
  committed: a commit applied twice spends once.
\<close>

theorem raft_commit_truthful:
  assumes "raft_ok s" and "client_commit rid calls s = (st, s')"
  shows "raft_ok s' \<and> sq_le (raft_db s) (raft_db s') \<and>
    (st = RA (St COMMITTED) \<or> st = RA ALREADY_COMMITTED \<longrightarrow>
      (\<exists>r. map_of (rf_reservations s') rid = Some r \<and> rstate r = COMMITTED))"
  using assms unfolding client_commit_def
proof (induction "rf_commit rid" calls s arbitrary: st s' rule: client_retry.induct)
  case (1 s)
  then show ?case by auto
next
  case (2 c s)
  then show ?case using call_once_ok [OF 2(1)]
    by (cases "call_once c (rf_commit rid) s") (auto split: option.splits)
next
  case (3 c c' cs s)
  obtain a s1 where a: "call_once c (rf_commit rid) s = (a, s1)" by fastforce
  note one = call_once_ok [OF 3(3) a]
  show ?case
  proof (cases "a = None \<or> a = Some (RA NOT_FOUND)")
    case True
    with 3(4) a have rest: "client_retry (rf_commit rid) (c' # cs) s1 = (st, s')" by auto
    have "raft_ok s' \<and> sq_le (raft_db s1) (raft_db s') \<and>
      (st = RA (St COMMITTED) \<or> st = RA ALREADY_COMMITTED \<longrightarrow>
        (\<exists>r. map_of (rf_reservations s') rid = Some r \<and> rstate r = COMMITTED))"
      using 3(1) [OF a [symmetric]] 3(2) [OF a [symmetric]] True one rest by auto
    with one show ?thesis using sq_le_trans by blast
  next
    case False
    with 3(4) a one show ?thesis by (auto split: option.splits)
  qed
qed


text \<open>What the answers of the two reconciling commands say of the state they leave.\<close>

definition in_state :: "raft_state \<Rightarrow> string \<Rightarrow> rstate \<Rightarrow> bool" where
  "in_state s rid st \<longleftrightarrow> (\<exists>r. map_of (rf_reservations s) rid = Some r \<and> rstate r = st)"

lemma settle_answers:
  "fst (rf_settle_commit rid r x row s) = Inr a \<Longrightarrow>
     a = RA (St COMMITTED) \<and> in_state (snd (rf_settle_commit rid r x row s)) rid COMMITTED"
  "fst (rf_settle_release rid r x row s) = Inr a \<Longrightarrow>
     a = INCONSISTENT_RESERVED_AMOUNT \<or>
     a = RA (St RELEASED) \<and> in_state (snd (rf_settle_release rid r x row s)) rid RELEASED"
  by (auto simp: rf_settle_commit_def rf_settle_release_def compute_def Let_def in_state_def split: sum.splits if_splits)

lemma compensation_recorded:
  "\<exists>c. map_of (rf_compensations (require_compensation rid r x s)) (compensation_id rid) = Some c"
  by (simp add: require_compensation_def record_incident_def tick_def Let_def split: if_split)

lemma with_resource_answer:
  "fst (with_resource k m s f) = Inr a \<Longrightarrow> a \<noteq> m \<Longrightarrow> a \<noteq> CORRUPT_RESOURCE_STATE \<Longrightarrow>
   \<exists>row. with_resource k m s f = f row"
  by (auto simp: with_resource_def split: option.splits sum.splits bool.splits)

lemma reconcile_commit_answers:
  assumes ok: "raft_ok s" and a: "fst (rf_reconcile_commit rid s) = Inr a"
  shows "a = RA (St COMMITTED) \<or> a = RA ALREADY_COMMITTED \<Longrightarrow> in_state (snd (rf_reconcile_commit rid s)) rid COMMITTED"
    and "a = COMPENSATION_REQUIRED \<Longrightarrow> in_state (snd (rf_reconcile_commit rid s)) rid RELEASED \<and>
      (\<exists>c. map_of (rf_compensations (snd (rf_reconcile_commit rid s))) (compensation_id rid) = Some c)"
proof -
  have "(a = RA (St COMMITTED) \<or> a = RA ALREADY_COMMITTED \<longrightarrow> in_state (snd (rf_reconcile_commit rid s)) rid COMMITTED) \<and>
    (a = COMPENSATION_REQUIRED \<longrightarrow> in_state (snd (rf_reconcile_commit rid s)) rid RELEASED \<and>
      (\<exists>c. map_of (rf_compensations (snd (rf_reconcile_commit rid s))) (compensation_id rid) = Some c))"
  proof (cases "\<exists>r. map_of (rf_reservations s) rid = Some r \<and> rstate r = RESERVED")
    case True
    then obtain r where r: "map_of (rf_reservations s) rid = Some r" "rstate r = RESERVED" by blast
    let ?f = "\<lambda>row. if dlt (row_reserved row) (amount r)
       then (Inr INCONSISTENT_RESERVED_AMOUNT, record_incident ''RESERVED_AMOUNT_MISSING'' rid (rstate r) s)
       else rf_settle_commit rid r (amount r) row s"
    have e: "rf_reconcile_commit rid s = with_resource (resource_id r) (RA ERROR) s ?f"
      using r by (simp add: rf_reconcile_commit_def with_reservation_ok [OF ok])
    show ?thesis
    proof (cases "a = RA ERROR \<or> a = CORRUPT_RESOURCE_STATE")
      case False
      with a e obtain row where "rf_reconcile_commit rid s = ?f row"
        using with_resource_answer [of "resource_id r" "RA ERROR" s ?f a] by auto
      with a show ?thesis using settle_answers(1) [of rid r "amount r" row s a] by (auto split: if_splits)
    qed auto
  next
    case False
    with a require_compensation_sim(2) [OF ok] show ?thesis
      by (auto simp: rf_reconcile_commit_def with_reservation_ok [OF ok] in_state_def compensation_recorded
          split: option.splits if_splits)
  qed
  then show "a = RA (St COMMITTED) \<or> a = RA ALREADY_COMMITTED \<Longrightarrow> in_state (snd (rf_reconcile_commit rid s)) rid COMMITTED"
    "a = COMPENSATION_REQUIRED \<Longrightarrow> in_state (snd (rf_reconcile_commit rid s)) rid RELEASED \<and>
      (\<exists>c. map_of (rf_compensations (snd (rf_reconcile_commit rid s))) (compensation_id rid) = Some c)" by auto
qed

lemma reconcile_release_answers:
  assumes ok: "raft_ok s" and a: "fst (rf_reconcile_release rid s) = Inr a"
  shows "(a = RA ALREADY_COMMITTED \<longrightarrow> in_state (snd (rf_reconcile_release rid s)) rid COMMITTED) \<and>
    (a = RA (St RELEASED) \<longrightarrow> in_state (snd (rf_reconcile_release rid s)) rid RELEASED)"
proof (cases "\<exists>r. map_of (rf_reservations s) rid = Some r \<and> is_open (rstate r)")
  case True
  then obtain r where r: "map_of (rf_reservations s) rid = Some r" "is_open (rstate r)" by blast
  let ?f = "\<lambda>row. rf_settle_release rid r (amount r) row s"
  have e: "rf_reconcile_release rid s = with_resource (resource_id r) (RA ERROR) s ?f"
    using r by (auto simp: rf_reconcile_release_def with_reservation_ok [OF ok] is_open_def)
  show ?thesis
  proof (cases "a = RA ERROR \<or> a = CORRUPT_RESOURCE_STATE")
    case False
    with a e obtain row where "rf_reconcile_release rid s = ?f row"
      using with_resource_answer [of "resource_id r" "RA ERROR" s ?f a] by auto
    with a show ?thesis using settle_answers(2) [of rid r "amount r" row s a] by auto
  qed auto
next
  case False
  with a show ?thesis
    by (auto simp: rf_reconcile_release_def with_reservation_ok [OF ok] in_state_def split: option.splits if_splits)
qed

lemma raft_one:
  assumes ok: "raft_ok s" and f: "\<And>t. snd (f t) = raft_apply t cmd" and c: "call_once c f s = (a, s')"
  shows "raft_ok s'" and "sq_le (raft_db s) (raft_db s')"
    and "a = Some x \<Longrightarrow> \<exists>t. raft_ok t \<and> fst (f t) = Inr x \<and> s' = snd (f t)"
proof -
  let ?t = "foldl raft_apply s (fst c)"
  have 1: "raft_ok ?t" "sq_le (raft_db s) (raft_db ?t)" by (rule raft.run_inv [OF ok], rule raft.run_le [OF ok])
  have 2: "raft_ok (snd (f ?t))" "sq_le (raft_db ?t) (raft_db (snd (f ?t)))"
    unfolding f by (rule raft.step_inv [OF 1(1)], rule raft.step_le [OF 1(1)])
  have "s' = ?t \<or> s' = snd (f ?t)" and x: "a = Some x \<Longrightarrow> fst (f ?t) = Inr x \<and> s' = snd (f ?t)"
    using c by (auto simp: call_once_def Let_def split: fate.splits prod.splits sum.splits)
  then show "raft_ok s'" "sq_le (raft_db s) (raft_db s')" using 1 2 sq_le_trans [OF 1(2) 2(2)] by auto
  show "a = Some x \<Longrightarrow> \<exists>t. raft_ok t \<and> fst (f t) = Inr x \<and> s' = snd (f t)" using x 1 by blast
qed

lemma in_state_later:
  assumes "in_state s rid st" and "sq_le (raft_db s) (raft_db s')"
  shows "st = COMMITTED \<Longrightarrow> in_state s' rid COMMITTED \<or> in_state s' rid REFUNDED"
    and "st = RELEASED \<Longrightarrow> in_state s' rid RELEASED"
proof -
  from assms(1) obtain r where r: "map_of (rf_reservations s) rid = Some r" "rstate r = st"
    by (auto simp: in_state_def)
  have "registry_le (rf_reservations s) (rf_reservations s')" using assms(2) by (simp add: sq_le_def)
  with r obtain r' where "map_of (rf_reservations s') rid = Some r'" "state_le st (rstate r')"
    unfolding registry_le_def resv_le_def by blast
  then show "st = COMMITTED \<Longrightarrow> in_state s' rid COMMITTED \<or> in_state s' rid REFUNDED"
    "st = RELEASED \<Longrightarrow> in_state s' rid RELEASED"
    by (auto simp: in_state_def state_le_def is_open_def)
qed


subsection \<open>A total that no longer passes the caller's check\<close>

lemma settle_frozen:
  assumes "k \<noteq> resource_id r"
  shows "map_of (rf_resources (snd (rf_settle_commit rid r x row s))) k = map_of (rf_resources s) k"
    and "map_of (rf_resources (snd (rf_settle_release rid r x row s))) k = map_of (rf_resources s) k"
  using assms
  by (auto simp: rf_settle_commit_def rf_settle_release_def compute_def Let_def map_of_dput split: sum.split)

lemma compensation_rows [simp]: "rf_resources (require_compensation rid r x s) = rf_resources s"
  by (simp add: require_compensation_def record_incident_def tick_def Let_def)

lemma incident_rows [simp]: "rf_resources (record_incident c rid p s) = rf_resources s"
  by (simp add: record_incident_def tick_def Let_def)

definition frozen :: "string \<Rightarrow> resource_row \<Rightarrow> raft_state \<Rightarrow> bool" where
  "frozen k row s \<longleftrightarrow> map_of (rf_resources s) k = Some row \<and> normalize_resource row = Inr False"

lemma frozen_with_resource:
  assumes "frozen k row s" and "\<And>row'. k \<noteq> k' \<Longrightarrow> frozen k row (snd (f row'))"
  shows "frozen k row (snd (with_resource k' m s f))"
  using assms by (cases "k = k'") (auto simp: with_resource_def frozen_def split: option.split sum.split bool.split)

lemma frozen_with_reservation:
  assumes "frozen k row s" and "\<And>r x. frozen k row (snd (f r x))"
  shows "frozen k row (snd (with_reservation rid s f))"
  using assms by (auto simp: with_reservation_def split: option.split)

lemma frozen_step: "frozen k row s \<Longrightarrow> frozen k row (raft_apply s c)"
proof (cases c)
  case (RReserve key amt k' rid)
  assume f: "frozen k row s"
  have "frozen k row (snd (with_resource k' (RA UNKNOWN_RESOURCE) s (rf_reserve_row key x k' rid s)))" for x
    by (rule frozen_with_resource [OF f]) (use f in
      \<open>auto simp: rf_reserve_row_def frozen_def compute_def Let_def map_of_dput split: sum.split\<close>)
  with f RReserve show ?thesis by (simp add: rf_reserve_snd split: option.split)
qed (simp add: rf_register_def rf_commit_def rf_release_def rf_refund_def rf_reconcile_commit_def
       rf_reconcile_release_def,
    (assumption | rule frozen_with_reservation frozen_with_resource
      | (auto simp: frozen_def compute_def Let_def settle_frozen map_of_dput
           split: if_split option.split sum.split; fail)
      | (simp only: snd_conv split: if_split; intro conjI impI))+)+

lemma frozen_run: "frozen k row s \<Longrightarrow> frozen k row (foldl raft_apply s cmds)"
  by (induction cmds arbitrary: s) (auto intro: frozen_step)

lemma ndigits_eqI: "10 ^ d \<le> n \<Longrightarrow> n < 10 ^ Suc d \<Longrightarrow> ndigits n = Suc d"
  using ndigits_le_iff [of "Suc d" n] ndigits_le_iff [of d n] by (cases d) (auto simp: ndigits.simps)

definition wide :: dec where
  "wide = Dec (10 ^ 145 + 1) (-128)"

lemma wide_digits: "ddigits wide = 146"
  unfolding ddigits_def wide_def using ndigits_eqI [of 145] by simp

lemma wide_sum: "decimal_add (Dec 100000000000000000 0) (Dec 1 (-128)) = Inr wide"
proof -
  have p: "decimal_precision [Dec 100000000000000000 0, Dec 1 (-128)] = Inr 147" by code_simp
  have e: "dadd_exact (Dec 100000000000000000 0) (Dec 1 (-128)) = wide"
    by (simp add: dadd_exact_def dalign_def wide_def)
  have "dec_fix (nat 147) wide = wide" by (rule dec_fix_short) (simp add: wide_digits)
  with p e show ?thesis by (simp add: decimal_add_def)
qed

lemma wide_fits: "\<not> dlt (Dec 1000000000000000000 0) wide"
  by (simp add: dlt_def dalign_def wide_def)

lemma wide_refused: "validated_amount True (AFin wide) = None"
  by (simp add: validated_amount.simps wide_digits)

definition wide_cap :: resource_row where
  "wide_cap = \<lparr>row_capacity = Dec 1000000000000000000 0, row_reserved = Dec 100000000000000000 0,
     row_committed = Dec 0 0\<rparr>"

definition first_state :: raft_state where
  "first_state =
     reserved_state ''k1'' (Dec 100000000000000000 0) ''r'' ''i1''
       \<lparr>row_capacity = Dec 1000000000000000000 0, row_reserved = dzero, row_committed = dzero\<rparr>
       (Dec 100000000000000000 0)
       (snd (rf_register ''r'' (AFin (Dec 1000000000000000000 0)) raft_init))"

lemma registered_state:
  "snd (rf_register ''r'' (AFin (Dec 1000000000000000000 0)) raft_init) =
     \<lparr>rf_resources =
       [(''r'', \<lparr>row_capacity = Dec 1000000000000000000 0, row_reserved = dzero, row_committed = dzero\<rparr>)],
      rf_reservations = [], rf_index = [], rf_clock = 0, rf_incidents = [], rf_compensations = []\<rparr>"
proof -
  have "validated_amount True (AFin (Dec 1000000000000000000 0)) = Some (Dec 1000000000000000000 0)" by code_simp
  then show ?thesis by (simp add: rf_register_def raft_init_def rf_set_row_def)
qed

lemma first_state:
  "rf_resources first_state = [(''r'', wide_cap)]"
  "rf_reservations first_state = [(''i1'', new_reservation ''k1'' (Dec 100000000000000000 0) ''r'' 1)]"
  "rf_index first_state = [(''k1'', ''i1'')]" "rf_clock first_state = 1"
  by (simp_all add: first_state_def registered_state wide_cap_def dzero_def)

lemma first_step:
  "foldl raft_apply raft_init
     [RRegister ''r'' (AFin (Dec 1000000000000000000 0)),
      RReserve ''k1'' (AFin (Dec 100000000000000000 0)) ''r'' ''i1''] = first_state"
proof -
  have v: "validated_amount False (AFin (Dec 100000000000000000 0)) = Some (Dec 100000000000000000 0)"
    by code_simp
  have n: "normalize_resource \<lparr>row_capacity = Dec 1000000000000000000 0, row_reserved = dzero, row_committed = dzero\<rparr>
      = Inr True" by code_simp
  have a: "decimal_add dzero dzero = Inr dzero" "decimal_add dzero (Dec 100000000000000000 0) = Inr (Dec 100000000000000000 0)"
    "\<not> dlt (Dec 1000000000000000000 0) (Dec 100000000000000000 0)"
    by code_simp+
  show ?thesis
    by (simp add: registered_state rf_reserve_snd v with_resource_def n rf_reserve_row_def compute_def
        Let_def a first_state_def reserved_state_def new_reservation_def)
qed

definition wide_state :: raft_state where
  "wide_state = reserved_state ''k2'' (Dec 1 (-128)) ''r'' ''i2'' wide_cap wide first_state"

lemma wide_step: "raft_apply first_state (RReserve ''k2'' (AFin (Dec 1 (-128))) ''r'' ''i2'') = wide_state"
proof -
  have v: "validated_amount False (AFin (Dec 1 (-128))) = Some (Dec 1 (-128))" by code_simp
  have n: "normalize_resource wide_cap = Inr True" by code_simp
  have a: "decimal_add (row_reserved wide_cap) (row_committed wide_cap) = Inr (Dec 100000000000000000 0)"
    by code_simp
  have c: "row_capacity wide_cap = Dec 1000000000000000000 0" "row_reserved wide_cap = Dec 100000000000000000 0"
    by (simp_all add: wide_cap_def)
  show ?thesis
    using wide_fits a c wide_sum
    by (simp add: rf_reserve_snd v first_state with_resource_def n rf_reserve_row_def compute_def Let_def
        wide_state_def reserved_state_def new_reservation_def)
qed

definition wide_row :: resource_row where
  "wide_row = wide_cap\<lparr>row_reserved := wide\<rparr>"

lemma wide_row_frozen: "frozen ''r'' wide_row wide_state"
  by (simp add: frozen_def wide_state_def first_state wide_row_def wide_refused normalize_resource_def
      split: option.split)

text \<open>
  Two accepted amounts freeze a resource for ever. After a reserve of \<open>10^17\<close> and one of
  \<open>10^-128\<close>, both granted, the reserved total has 146 digits; the resource then fails the
  128-digit check meant for callers, so commits and releases of what is reserved answer
  \<open>CORRUPT_RESOURCE_STATE\<close>, and no command the log may still carry changes the counters again.
\<close>

theorem raft_wide_total_frozen:
  "let s = foldl raft_apply raft_init
       [RRegister ''r'' (AFin (Dec 1000000000000000000 0)),
        RReserve ''k1'' (AFin (Dec 100000000000000000 0)) ''r'' ''i1'',
        RReserve ''k2'' (AFin (Dec 1 (-128))) ''r'' ''i2'']
   in map (\<lambda>(rid, r). (rid, rstate r)) (rf_reservations s) = [(''i1'', RESERVED), (''i2'', RESERVED)] \<and>
      fst (rf_commit ''i1'' s) = Inr CORRUPT_RESOURCE_STATE \<and>
      fst (rf_release ''i2'' s) = Inr CORRUPT_RESOURCE_STATE \<and>
      (\<forall>cmds. map_of (rf_resources (foldl raft_apply s cmds)) ''r'' = map_of (rf_resources s) ''r'')"
proof -
  have run: "foldl raft_apply raft_init
       [RRegister ''r'' (AFin (Dec 1000000000000000000 0)),
        RReserve ''k1'' (AFin (Dec 100000000000000000 0)) ''r'' ''i1'',
        RReserve ''k2'' (AFin (Dec 1 (-128))) ''r'' ''i2''] = wide_state"
    using first_step wide_step by (simp del: raft_apply.simps)
  have fr: "map_of (rf_resources (foldl raft_apply wide_state cmds)) ''r'' = Some wide_row"
      "normalize_resource wide_row = Inr False" for cmds
    using frozen_run [OF wide_row_frozen, of cmds] by (simp_all add: frozen_def)
  have rs: "rf_reservations wide_state =
     [(''i1'', new_reservation ''k1'' (Dec 100000000000000000 0) ''r'' 1),
      (''i2'', new_reservation ''k2'' (Dec 1 (-128)) ''r'' 2)]"
    by (simp add: wide_state_def first_state)
  have v: "validated_amount True (AFin (Dec 100000000000000000 0)) = Some (Dec 100000000000000000 0)"
    "validated_amount True (AFin (Dec 1 (-128))) = Some (Dec 1 (-128))" by code_simp+
  show ?thesis
    using fr fr(1) [of "[]"] unfolding Let_def run
    by (simp add: rs new_reservation_def rf_commit_def rf_release_def with_reservation_def with_resource_def v)
qed

subsection \<open>Concrete instances\<close>

definition small_log :: "raft_cmd list" where
  "small_log = [RRegister ''r'' (AFin (Dec 10 0)), RReserve ''k1'' (AFin (Dec 4 0)) ''r'' ''i1'']"


theorem raft_replicas_sound_witness:
  "let s = foldl raft_apply raft_init small_log; s' = raft_apply s (RCommit ''i1'') in
   db_view (raft_db s) ''r'' = Some (10, 4, 0) \<and> held (rf_reservations s) ''r'' = 4 \<and>
   (\<exists>p' u'. db_view (raft_db s') ''r'' = Some (10, p', u')) \<and>
   registry_le (rf_reservations s) (rf_reservations s')"
proof -
  have v: "db_view (raft_db (foldl raft_apply raft_init small_log)) ''r'' = Some (10, 4, 0)" by code_simp
  show ?thesis
    using raft_replicas_sound [of small_log "[RCommit ''i1'']"] v
    by (simp add: Let_def del: raft_apply.simps)
qed

theorem raft_commit_truthful_witness:
  "let s = foldl raft_apply raft_init small_log; calls = [([], AppliedLost), ([], Delivered)];
       s' = snd (client_commit ''i1'' calls s) in
   fst (client_commit ''i1'' calls s) = RA ALREADY_COMMITTED \<and> raft_ok s' \<and>
   (\<exists>r. map_of (rf_reservations s') ''i1'' = Some r \<and> rstate r = COMMITTED)"
proof -
  let ?s = "foldl raft_apply raft_init small_log" and ?calls = "[([], AppliedLost), ([], Delivered)]"
  have ok: "raft_ok ?s" by (rule raft.run_inv [OF raft_init_ok])
  have a: "fst (client_commit ''i1'' ?calls ?s) = RA ALREADY_COMMITTED" by code_simp
  note truthful = raft_commit_truthful [OF ok surjective_pairing, of "''i1''" ?calls]
  show ?thesis using a truthful [unfolded a] unfolding Let_def by blast
qed


end
