(* ===== verification/Membrane.thy ===== *)
theory Membrane
  imports Hold Lattice
begin

section \<open>The transition membrane\<close>

text \<open>
  \<open>TransitionMembrane\<close> and \<open>MembraneState\<close> of \<open>tenir_governance/membrane/__init__.py\<close> with the
  governed objects of \<open>tenir_governance/objects\<close>. Amounts are floats, as in the code. A
  mission invariant's predicate is a function of the state summary that may raise (\<open>None\<close>).
  The explanation texts of the checks are not modelled.
\<close>

subsection \<open>Governed objects\<close>

record resource =
  rs_capacity :: pyfloat
  rs_consumed :: pyfloat
  rs_reserved :: pyfloat

definition rs_available :: "resource \<Rightarrow> pyfloat" where
  "rs_available r = fsub (fsub (rs_capacity r) (rs_consumed r)) (rs_reserved r)"

definition rs_reserve :: "resource \<Rightarrow> pyfloat \<Rightarrow> bool \<times> resource" where
  "rs_reserve r a =
     (if fle a (rs_available r) then (True, r\<lparr>rs_reserved := fadd (rs_reserved r) a\<rparr>) else (False, r))"

definition rs_commit :: "resource \<Rightarrow> pyfloat \<Rightarrow> bool \<times> resource" where
  "rs_commit r a =
     (if fle a (rs_reserved r)
      then (True, r\<lparr>rs_reserved := fsub (rs_reserved r) a, rs_consumed := fadd (rs_consumed r) a\<rparr>)
      else (False, r))"

definition rs_release :: "resource \<Rightarrow> pyfloat \<Rightarrow> resource" where
  "rs_release r a = r\<lparr>rs_reserved := fmax0 (fsub (rs_reserved r) a)\<rparr>"

definition rs_refund :: "resource \<Rightarrow> pyfloat \<Rightarrow> resource" where
  "rs_refund r a = r\<lparr>rs_consumed := fmax0 (fsub (rs_consumed r) a)\<rparr>"

datatype passage_status =
    PsPending | PsDispatched | PsResolved | PsFailed | PsHeld | PsConfirmed | PsUnknown

record passage =
  ps_id :: string
  ps_agent :: string
  ps_action :: string
  ps_status :: passage_status
  ps_key :: string

definition ps_is_terminal :: "passage_status \<Rightarrow> bool" where
  "ps_is_terminal s \<longleftrightarrow> s = PsResolved \<or> s = PsFailed \<or> s = PsConfirmed"

record agent =
  ag_delegates :: "string list"

record delegation =
  dl_from :: string
  dl_to :: string

definition can_delegate_to :: "agent \<Rightarrow> string \<Rightarrow> bool" where
  "can_delegate_to a other \<longleftrightarrow> other \<in> set (ag_delegates a)"

record trajectory =
  tr_constraints :: "(pyfloat \<times> pyfloat) list"
  tr_stamps :: "pyfloat list"

text \<open>The loop of \<open>check_temporal_consistency\<close>, over the constraints and the remaining timestamps.\<close>

fun gaps_ok :: "(pyfloat \<times> pyfloat) list \<Rightarrow> pyfloat list \<Rightarrow> bool" where
  "gaps_ok [] ts = True"
| "gaps_ok ((lo, hi) # cs) (t # u # ts) =
     (let gap = fsub u t in if flt gap lo then False else if flt hi gap then False else gaps_ok cs (u # ts))"
| "gaps_ok (c # cs) ts = gaps_ok cs (tl ts)"

definition check_temporal_consistency :: "trajectory \<Rightarrow> bool" where
  "check_temporal_consistency t = gaps_ok (tr_constraints t) (tr_stamps t)"

record system_state =
  ss_agents :: nat
  ss_consumed :: "(string \<times> pyfloat) list"
  ss_quarantine :: bool

record mission_invariant =
  mi_id :: string
  mi_hard :: bool
  mi_predicate :: "system_state \<Rightarrow> bool option"

definition mi_holds :: "mission_invariant \<Rightarrow> system_state \<Rightarrow> bool" where
  "mi_holds i s = (case mi_predicate i s of None \<Rightarrow> False | Some b \<Rightarrow> b)"

subsection \<open>The membrane's state\<close>

record local_lock =
  ll_active :: bool
  ll_id :: string
  ll_by :: string
  ll_incident :: "string option"

record membrane_state =
  ms_agents :: "(string, agent) dict"
  ms_resources :: "(string, resource) dict"
  ms_trajectories :: "(string, trajectory) dict"
  ms_invariants :: "mission_invariant list"
  ms_lock :: local_lock

text \<open>
  \<open>register_resource\<close>: whether a known identifier names the same object is an argument.
\<close>

definition register_resource :: "string \<Rightarrow> resource \<Rightarrow> bool \<Rightarrow> membrane_state \<Rightarrow> unit result \<times> membrane_state" where
  "register_resource k r same m =
     (case map_of (ms_resources m) k of
        Some _ \<Rightarrow> if same then (Inr (), m) else (Inl ValueError, m)
      | None \<Rightarrow> (Inr (), m\<lparr>ms_resources := dput k r (ms_resources m)\<rparr>))"

text \<open>The local lock, which decides only while no registry is bound.\<close>

definition lock_local :: "string \<Rightarrow> string option \<Rightarrow> string \<Rightarrow> local_lock \<Rightarrow> local_lock" where
  "lock_local who incident uuid l =
     (let l1 = (if \<not> ll_active l \<or> (incident \<noteq> None \<and> ll_incident l \<noteq> incident)
                then l\<lparr>ll_id := uuid, ll_incident := incident\<rparr> else l)
      in l1\<lparr>ll_active := True, ll_by := who\<rparr>)"

definition no_local_lock :: local_lock where
  "no_local_lock = \<lparr>ll_active = False, ll_id = [], ll_by = [], ll_incident = None\<rparr>"

definition ms_lock_quarantine ::
  "string \<Rightarrow> incident_in \<Rightarrow> string \<Rightarrow> string \<Rightarrow> registry option \<Rightarrow> membrane_state \<Rightarrow>
     unit result \<times> registry option \<times> membrane_state" where
  "ms_lock_quarantine who incident uuid uuid' reg m =
     (if incident \<noteq> NoIncident \<and> \<not> nonblank (incident_id incident) then (Inl ValueError, reg, m)
      else
        (let locked = m\<lparr>ms_lock := lock_local who (incident_id incident) uuid' (ms_lock m)\<rparr> in
         case reg of
           None \<Rightarrow> (Inr (), None, locked)
         | Some g \<Rightarrow>
           (case set_quarantine g True who incident uuid of
              (Inl e, imgs) \<Rightarrow> (Inl e, Some (last imgs), m)
            | (Inr _, imgs) \<Rightarrow> (Inr (), Some (last imgs), locked))))"

text \<open>
  \<open>release_quarantine\<close>. The local release calls the verifier under a reentrant lock; \<open>during\<close>
  is what a new incident reported from the verifier leaves of the local lock.
\<close>

definition release_local ::
  "verifier \<Rightarrow> string \<Rightarrow> string \<Rightarrow> string \<Rightarrow> string \<Rightarrow> (local_lock \<Rightarrow> local_lock) \<Rightarrow> local_lock \<Rightarrow>
     bool \<times> local_lock" where
  "release_local v who scope authorization why during l =
     (if \<not> ll_active l then (False, l)
      else
        (let l1 = during l in
         case verify_quarantine_release v who scope authorization why (ll_id l) of
           None \<Rightarrow> (False, l1)
         | Some _ \<Rightarrow> if \<not> ll_active l1 \<or> ll_id l1 \<noteq> ll_id l then (False, l1) else (True, no_local_lock)))"

definition ms_release_quarantine ::
  "verifier \<Rightarrow> verifier \<Rightarrow> string \<Rightarrow> string \<Rightarrow> string \<Rightarrow> string \<Rightarrow> string \<Rightarrow> (local_lock \<Rightarrow> local_lock) \<Rightarrow>
     registry option \<Rightarrow> membrane_state \<Rightarrow> bool \<times> registry option \<times> membrane_state" where
  "ms_release_quarantine local_v reg_v who scope authorization why now during reg m =
     (case reg of
        None \<Rightarrow>
          (let (done, l) = release_local local_v who scope authorization why during (ms_lock m)
           in (done, None, m\<lparr>ms_lock := l\<rparr>))
      | Some g \<Rightarrow>
          (case authorized_release_quarantine g reg_v who scope authorization why now of
             (Released _, imgs) \<Rightarrow>
               (let (active, g') = quarantine_is_active (last imgs)
                in (True, Some g', if active then m else m\<lparr>ms_lock := no_local_lock\<rparr>))
           | (_, imgs) \<Rightarrow> (False, Some (last imgs), m)))"

text \<open>The property \<open>quarantine_active\<close>: a bound registry decides.\<close>

definition ms_quarantine_active :: "registry option \<Rightarrow> membrane_state \<Rightarrow> bool \<times> registry option" where
  "ms_quarantine_active reg m =
     (case reg of
        None \<Rightarrow> (ll_active (ms_lock m), None)
      | Some g \<Rightarrow> (let (b, g') = quarantine_is_active g in (b, Some g')))"

subsection \<open>The checks\<close>

text \<open>\<open>_positive_finite_float\<close> on a float.\<close>

definition positive_float :: "pyfloat \<Rightarrow> pyfloat option" where
  "positive_float x = (if ffinite x \<and> flt fzero x then Some x else None)"

definition check_i7 :: "membrane_state \<Rightarrow> delegation option \<Rightarrow> (string \<times> decision) list" where
  "check_i7 m d =
     (case d of
        None \<Rightarrow> []
      | Some d \<Rightarrow>
        [(''I7'', case map_of (ms_agents m) (dl_from d) of
            None \<Rightarrow> HARD_VETO
          | Some a \<Rightarrow> if can_delegate_to a (dl_to d) then PASS else HARD_VETO)])"

definition check_i8 ::
  "membrane_state \<Rightarrow> string option \<Rightarrow> pyfloat \<Rightarrow> pyfloat \<Rightarrow> (string \<times> decision) list" where
  "check_i8 m res amount held =
     (case res of
        None \<Rightarrow> []
      | Some k \<Rightarrow>
        [(''I8'',
          case positive_float amount of
            None \<Rightarrow> HARD_VETO
          | Some a \<Rightarrow>
            (case map_of (ms_resources m) k of
               None \<Rightarrow> HARD_VETO
             | Some r \<Rightarrow>
               (case (if held = fzero then Some fzero else positive_float held) of
                  None \<Rightarrow> HARD_VETO
                | Some e \<Rightarrow> if fle a (fadd (rs_available r) e) then PASS else HARD_VETO)))])"

definition check_i9 :: "membrane_state \<Rightarrow> string option \<Rightarrow> (string \<times> decision) list" where
  "check_i9 m t =
     (case t of
        None \<Rightarrow> []
      | Some k \<Rightarrow>
        (case map_of (ms_trajectories m) k of
           None \<Rightarrow> []
         | Some tr \<Rightarrow> [(''I9'', if check_temporal_consistency tr then PASS else HARD_VETO)]))"

definition check_missions :: "membrane_state \<Rightarrow> bool \<Rightarrow> (string \<times> decision) list" where
  "check_missions m quarantined =
     (let s = \<lparr>ss_agents = length (ms_agents m),
               ss_consumed = map (\<lambda>(k, r). (k, rs_consumed r)) (ms_resources m),
               ss_quarantine = quarantined\<rparr>
      in map (\<lambda>i. (mi_id i, if mi_hard i then HARD_VETO else FLAG))
           (filter (\<lambda>i. \<not> mi_holds i s) (ms_invariants m)))"

definition membrane_checks ::
  "membrane_state \<Rightarrow> bool \<Rightarrow> passage \<Rightarrow> delegation option \<Rightarrow> string option \<Rightarrow> pyfloat \<Rightarrow> string option \<Rightarrow>
     pyfloat \<Rightarrow> (string \<times> decision) list" where
  "membrane_checks m quarantined p d res amount traj held =
     [(''I6'', if quarantined then HARD_VETO else PASS),
      (''I3'', if ps_is_terminal (ps_status p) then HARD_VETO else PASS),
      (''I4'', if ps_status p \<noteq> PsPending \<and> ps_status p \<noteq> PsHeld then HARD_VETO else PASS)] @
     check_i7 m d @ check_i8 m res amount held @ check_i9 m traj @ check_missions m quarantined"

definition membrane_decision :: "(string \<times> decision) list \<Rightarrow> decision" where
  "membrane_decision cs =
     (let ds = map snd cs in
      if HARD_VETO \<in> set ds then HARD_VETO
      else if decision.HOLD \<in> set ds then decision.HOLD
      else if FLAG \<in> set ds then FLAG else PASS)"

definition membrane_adjudicate ::
  "membrane_state \<Rightarrow> bool \<Rightarrow> passage \<Rightarrow> delegation option \<Rightarrow> string option \<Rightarrow> pyfloat \<Rightarrow> string option \<Rightarrow>
     pyfloat \<Rightarrow> decision \<times> (string \<times> decision) list" where
  "membrane_adjudicate m quarantined p d res amount traj held =
     (let cs = membrane_checks m quarantined p d res amount traj held in (membrane_decision cs, cs))"

subsection \<open>Passages\<close>

definition on_resource ::
  "membrane_state \<Rightarrow> string option \<Rightarrow> (resource \<Rightarrow> resource) \<Rightarrow> membrane_state" where
  "on_resource m res f =
     (case res of
        None \<Rightarrow> m
      | Some k \<Rightarrow>
        (case map_of (ms_resources m) k of
           None \<Rightarrow> m
         | Some r \<Rightarrow> m\<lparr>ms_resources := dput k (f r) (ms_resources m)\<rparr>))"

definition commit_passage ::
  "membrane_state \<Rightarrow> passage \<Rightarrow> string option \<Rightarrow> pyfloat \<Rightarrow> unit result \<times> membrane_state \<times> passage" where
  "commit_passage m p res amount =
     (if res \<noteq> None \<and> positive_float amount = None then (Inl ValueError, m, p)
      else (Inr (), on_resource m res (\<lambda>r. snd (rs_commit r amount)), p\<lparr>ps_status := PsDispatched\<rparr>))"

definition fail_passage ::
  "membrane_state \<Rightarrow> passage \<Rightarrow> string option \<Rightarrow> pyfloat \<Rightarrow> unit result \<times> membrane_state \<times> passage" where
  "fail_passage m p res amount =
     (if res \<noteq> None \<and> positive_float amount = None then (Inl ValueError, m, p)
      else (Inr (), on_resource m res (\<lambda>r. rs_release r amount), p\<lparr>ps_status := PsFailed\<rparr>))"

definition reconcile_passage :: "passage \<Rightarrow> string \<times> passage" where
  "reconcile_passage p = (''unknown'', p\<lparr>ps_status := PsHeld\<rparr>)"

subsection \<open>What a decision means\<close>

lemma membrane_decision_severity:
  "severity (membrane_decision cs) = (if cs = [] then 0 else Max (severity ` snd ` set cs))"
proof (cases "cs = []")
  case False
  have "Max (severity ` snd ` set cs) = severity (membrane_decision cs)"
  proof (rule Max_eqI)
    fix n
    assume "n \<in> severity ` snd ` set cs"
    then obtain d where d: "n = severity d" "d \<in> set (map snd cs)" by auto
    then show "n \<le> severity (membrane_decision cs)"
      by (cases d) (auto simp: membrane_decision_def Let_def)
  next
    have "membrane_decision cs \<in> set (map snd cs)"
    proof (cases "membrane_decision cs = PASS")
      case True
      from False obtain c where "c \<in> set cs" by (cases cs) auto
      moreover from True have "HARD_VETO \<notin> set (map snd cs)" "decision.HOLD \<notin> set (map snd cs)"
        "FLAG \<notin> set (map snd cs)"
        by (auto simp: membrane_decision_def Let_def split: if_splits)
      ultimately have "snd c = PASS" by (cases "snd c") force+
      with True \<open>c \<in> set cs\<close> show ?thesis by force
    qed (auto simp: membrane_decision_def Let_def split: if_splits)
    then show "severity (membrane_decision cs) \<in> severity ` snd ` set cs" by force
  qed simp
  with False show ?thesis by simp
qed (simp add: membrane_decision_def)

lemma membrane_no_veto: "membrane_decision cs \<noteq> HARD_VETO \<Longrightarrow> (n, d) \<in> set cs \<Longrightarrow> d \<noteq> HARD_VETO"
  by (auto simp: membrane_decision_def Let_def image_iff split: if_splits)


definition demo_membrane :: membrane_state where
  "demo_membrane =
     \<lparr>ms_agents = [], ms_resources = [(''r'', \<lparr>rs_capacity = Fin 100, rs_consumed = Fin 30, rs_reserved = Fin 20\<rparr>)],
      ms_trajectories = [], ms_invariants = [], ms_lock = no_local_lock\<rparr>"

definition demo_passage :: passage where
  "demo_passage = \<lparr>ps_id = ''p'', ps_agent = ''a'', ps_action = ''pay'', ps_status = PsPending, ps_key = ''k''\<rparr>"


end
