(* ===== verification/Governor.thy ===== *)
theory Governor
  imports Membrane Consensus_Backend
begin

section \<open>The dual-kernel governor: state, calls and faults\<close>

text \<open>
  \<open>DualKernelGovernor\<close> of \<open>tenir_governance/composition/governor.py\<close>. A method is a program
  over the governor's world: the operation registry, the consensus backend, the membrane, the
  commit authority, the audit ledger, and what the external provider has received. The consensus
  backend is an interface (\<open>cbackend\<close>), as it is in the code; the commit authority's cryptography
  and storage are a parameter.

  Every call that changes the world can go wrong. The list \<open>g_faults\<close> says how: a call may raise
  before or after it took effect, or the process may stop. Before a call another thread, which
  does not hold the operation's settlement lock, may claim a dispatch or mark an operation
  unknown. Explanation texts are not modelled.
\<close>

subsection \<open>Programs\<close>

datatype 'a outcome = Ret 'a | Raise | Crash

type_synonym ('s, 'a) prog = "'s \<Rightarrow> 'a outcome \<times> 's"

definition ret :: "'a \<Rightarrow> ('s, 'a) prog" where
  "ret x s = (Ret x, s)"

definition raise :: "('s, 'a) prog" where
  "raise s = (Raise, s)"

definition bindM :: "('s, 'a) prog \<Rightarrow> ('a \<Rightarrow> ('s, 'b) prog) \<Rightarrow> ('s, 'b) prog" where
  "bindM m f s =
     (case m s of
        (Ret x, s') \<Rightarrow> f x s'
      | (Raise, s') \<Rightarrow> (Raise, s')
      | (Crash, s') \<Rightarrow> (Crash, s'))"

text \<open>\<open>try: ... except Exception: ...\<close>; a stopped process runs no handler.\<close>

definition tryM :: "('s, 'a) prog \<Rightarrow> ('s, 'a) prog \<Rightarrow> ('s, 'a) prog" where
  "tryM m h s = (case m s of (Raise, s') \<Rightarrow> h s' | r \<Rightarrow> r)"

definition readM :: "('s \<Rightarrow> 'a) \<Rightarrow> ('s, 'a) prog" where
  "readM f s = (Ret (f s), s)"

definition modM :: "('s \<Rightarrow> 's) \<Rightarrow> ('s, unit) prog" where
  "modM f s = (Ret (), f s)"

text \<open>\<open>try: x = ... except Exception: x = None\<close>\<close>

definition attempt :: "('s, 'a) prog \<Rightarrow> ('s, 'a option) prog" where
  "attempt m = tryM (bindM m (\<lambda>x. ret (Some x))) (ret None)"

subsection \<open>Interfaces\<close>

text \<open>
  A consensus backend. \<open>None\<close> as a status stands for a status string the governor does not know.
  An item of \<open>get_state\<close> carries \<open>float (amount)\<close>.
\<close>

record item =
  it_id :: string
  it_key :: string
  it_amount :: pyfloat
  it_state :: rstate

record usage =
  us_capacity :: pyfloat
  us_reserved :: pyfloat
  us_committed :: pyfloat

record 'b cbackend =
  cb_reserve :: "string \<Rightarrow> pyfloat \<Rightarrow> string \<Rightarrow> 'b \<Rightarrow> (status option \<times> string option) result \<times> 'b"
  cb_commit :: "string \<Rightarrow> 'b \<Rightarrow> status option result \<times> 'b"
  cb_release :: "string \<Rightarrow> 'b \<Rightarrow> status option result \<times> 'b"
  cb_refund :: "string \<Rightarrow> 'b \<Rightarrow> status option result \<times> 'b"
  cb_state :: "string \<Rightarrow> 'b \<Rightarrow> (usage \<times> item list) result \<times> 'b"

text \<open>The commit authority: requests and receipts are the JSON documents they serialize to.\<close>

record binding =
  bd_authority :: string
  bd_profile :: string
  bd_generation :: int
  bd_scope :: string
  bd_operation :: string
  bd_key :: string
  bd_passage :: string
  bd_agent :: string
  bd_action :: string
  bd_resource :: string
  bd_amount :: string
  bd_digest :: string

record 'a authority =
  au_id :: string
  au_profile :: string
  au_generation :: int
  au_binding :: "json \<Rightarrow> binding option"
  au_request_id :: "json \<Rightarrow> string"
  au_amount :: "pyfloat \<Rightarrow> string option"
  au_claim_digest :: "string \<Rightarrow> string \<Rightarrow> string"
  au_request_ok :: "json \<Rightarrow> bool"
  au_authorization_ok :: "json \<Rightarrow> bool"
  au_consumption_ok :: "json \<Rightarrow> bool"
  au_keys :: "'a \<Rightarrow> bool result \<times> 'a"
  au_verify_authorization :: "json \<Rightarrow> json \<Rightarrow> bool"
  au_verify_consumption :: "json \<Rightarrow> json \<Rightarrow> json \<Rightarrow> bool"
  au_decision :: "json \<Rightarrow> string"
  au_reason :: "json \<Rightarrow> string"
  au_claim :: "json \<Rightarrow> string"
  au_authorize :: "json \<Rightarrow> 'a \<Rightarrow> json result \<times> 'a"
  au_lookup_authorization :: "json \<Rightarrow> 'a \<Rightarrow> json option result \<times> 'a"
  au_lookup_consumption :: "json \<Rightarrow> 'a \<Rightarrow> json option result \<times> 'a"
  au_consume :: "json \<Rightarrow> json \<Rightarrow> string \<Rightarrow> 'a \<Rightarrow> json result \<times> 'a"

text \<open>The external provider's answers.\<close>

datatype provider_outcome = PConfirmed | PFailed | PPending | PUnknown

record execution_result =
  pr_outcome :: provider_outcome
  pr_violated :: bool

record reconciliation =
  rc_resolved :: bool
  rc_outcome :: provider_outcome
  rc_violated :: bool

text \<open>What the provider's \<open>execute\<close> receives.\<close>

record execution =
  ex_worker :: string
  ex_key :: string
  ex_action :: string
  ex_amount :: pyfloat
  ex_agent :: string

subsection \<open>The world and the calls\<close>

datatype fault =
    Fine
  | Before
  | After
  | Stop
  | Claim string string
  | Lose string

record ('b, 'a) gov =
  g_reg :: registry
  g_backend :: 'b
  g_membrane :: membrane_state
  g_authority :: 'a
  g_active :: "(string \<times> string) list"
  g_audit :: "(string \<times> decision \<times> string) list"
  g_executed :: "execution list"
  g_faults :: "fault list"

record ('b, 'a) config =
  cf_worker :: string
  cf_backend :: "'b cbackend option"
  cf_provider :: bool
  cf_policy :: composition_policy
  cf_gate :: bool
  cf_authority :: "'a authority"

text \<open>What another thread does to the registry without the settlement lock.\<close>

definition foreign :: "string \<Rightarrow> string \<Rightarrow> op_state \<Rightarrow> ('b, 'a) gov \<Rightarrow> ('b, 'a) gov" where
  "foreign w k new s = s\<lparr>g_reg := snd (transition_to (g_reg s) k new w None [] True)\<rparr>"

definition lift_result :: "'r result \<times> 's \<Rightarrow> 'r outcome \<times> 's" where
  "lift_result rs = (case rs of (Inl e, s) \<Rightarrow> (Raise, s) | (Inr x, s) \<Rightarrow> (Ret x, s))"

fun call_with ::
  "fault list \<Rightarrow> (('b, 'a) gov \<Rightarrow> 'r result \<times> ('b, 'a) gov) \<Rightarrow> (('b, 'a) gov, 'r) prog" where
  "call_with [] f s = lift_result (f (s\<lparr>g_faults := []\<rparr>))"
| "call_with (Fine # xs) f s = lift_result (f (s\<lparr>g_faults := xs\<rparr>))"
| "call_with (Before # xs) f s = (Raise, s\<lparr>g_faults := xs\<rparr>)"
| "call_with (After # xs) f s = (Raise, snd (f (s\<lparr>g_faults := xs\<rparr>)))"
| "call_with (Stop # xs) f s = (Crash, s\<lparr>g_faults := xs\<rparr>)"
| "call_with (Claim w k # xs) f s = call_with xs f (foreign w k op_state.DISPATCHING s)"
| "call_with (Lose k # xs) f s = call_with xs f (foreign [] k op_state.UNKNOWN s)"

definition call :: "(('b, 'a) gov \<Rightarrow> 'r result \<times> ('b, 'a) gov) \<Rightarrow> (('b, 'a) gov, 'r) prog" where
  "call f s = call_with (g_faults s) f s"

definition reg_get :: "string \<Rightarrow> (('b, 'a) gov, operation option) prog" where
  "reg_get k s = (let (r, g) = get_op (g_reg s) k in (Ret r, s\<lparr>g_reg := g\<rparr>))"

definition reg_call :: "(registry \<Rightarrow> 'r result \<times> registry) \<Rightarrow> (('b, 'a) gov, 'r) prog" where
  "reg_call f = call (\<lambda>s. let (x, g) = f (g_reg s) in (x, s\<lparr>g_reg := g\<rparr>))"

definition be_call :: "('b \<Rightarrow> 'r result \<times> 'b) \<Rightarrow> (('b, 'a) gov, 'r) prog" where
  "be_call f = call (\<lambda>s. let (x, b) = f (g_backend s) in (x, s\<lparr>g_backend := b\<rparr>))"

definition au_call :: "('a \<Rightarrow> 'r result \<times> 'a) \<Rightarrow> (('b, 'a) gov, 'r) prog" where
  "au_call f = call (\<lambda>s. let (x, a) = f (g_authority s) in (x, s\<lparr>g_authority := a\<rparr>))"

definition transition ::
  "string \<Rightarrow> op_state \<Rightarrow> string \<Rightarrow> (string \<times> hold_value) list \<Rightarrow> bool \<Rightarrow> (('b, 'a) gov, bool) prog" where
  "transition k new who changes verified =
     bindM (reg_call (\<lambda>g. transition_to g k new who None changes verified)) (\<lambda>r. ret (fst r))"

definition set_flags :: "string \<Rightarrow> (string \<times> flag_value) list \<Rightarrow> (('b, 'a) gov, bool) prog" where
  "set_flags k flags = reg_call (\<lambda>g. set_budget_flags g k flags)"

text \<open>\<open>try: ok = set_budget_flags (...) except Exception: ok = False\<close>\<close>

definition try_flags :: "string \<Rightarrow> (string \<times> flag_value) list \<Rightarrow> (('b, 'a) gov, bool) prog" where
  "try_flags k flags = tryM (set_flags k flags) (ret False)"

definition flags_of :: "bool \<Rightarrow> bool \<Rightarrow> string \<Rightarrow> (string \<times> flag_value) list" where
  "flags_of br bc rid =
     [(''budget_reserved'', FBool br), (''budget_committed'', FBool bc), (''reservation_id'', FStr rid)]"

definition pool_flags :: "bool \<Rightarrow> bool \<Rightarrow> (string \<times> flag_value) list" where
  "pool_flags br bc = [(''budget_reserved'', FBool br), (''budget_committed'', FBool bc)]"

definition audit :: "string \<Rightarrow> decision \<Rightarrow> string \<Rightarrow> (('b, 'a) gov, unit) prog" where
  "audit kern d k = modM (\<lambda>s. s\<lparr>g_audit := g_audit s @ [(kern, d, k)]\<rparr>)"

definition persistent :: "(('b, 'a) gov, bool) prog" where
  "persistent = readM (\<lambda>s. durable (g_reg s))"

text \<open>\<open>settlement_lock\<close>: acquiring the lock file may fail.\<close>

definition with_settlement :: "bool \<Rightarrow> (('b, 'a) gov, 'r) prog \<Rightarrow> (('b, 'a) gov, 'r) prog" where
  "with_settlement require_persistent m =
     bindM persistent (\<lambda>dur.
       if \<not> dur \<and> require_persistent then raise
       else bindM (call (\<lambda>s. (Inr (), s))) (\<lambda>_. m))"

definition pool :: "string \<Rightarrow> (('b, 'a) gov, resource option) prog" where
  "pool k = readM (\<lambda>s. map_of (ms_resources (g_membrane s)) k)"

definition set_pool :: "string \<Rightarrow> resource \<Rightarrow> (('b, 'a) gov, unit) prog" where
  "set_pool k r =
     modM (\<lambda>s. s\<lparr>g_membrane := (g_membrane s)\<lparr>ms_resources := dput k r (ms_resources (g_membrane s))\<rparr>\<rparr>)"

text \<open>\<open>_quarantine_blocks\<close>: the membrane asks the bound registry, then the governor asks it again.\<close>

definition quarantine_blocks :: "(('b, 'a) gov, bool) prog" where
  "quarantine_blocks s =
     (let (b, g) = quarantine_is_active (g_reg s) in
      if b then (Ret True, s\<lparr>g_reg := g\<rparr>)
      else let (b', g') = quarantine_is_active g in (Ret b', s\<lparr>g_reg := g'\<rparr>))"

definition mark_active_dispatch :: "string \<Rightarrow> string \<Rightarrow> (('b, 'a) gov, unit) prog" where
  "mark_active_dispatch w k = modM (\<lambda>s. s\<lparr>g_active := List.insert (w, k) (g_active s)\<rparr>)"

definition clear_active_dispatch :: "string \<Rightarrow> string \<Rightarrow> (('b, 'a) gov, unit) prog" where
  "clear_active_dispatch w k = modM (\<lambda>s. s\<lparr>g_active := removeAll (w, k) (g_active s)\<rparr>)"

text \<open>The recorded economic identity, and what a caller may say instead of it.\<close>

definition recorded_resource :: "operation \<Rightarrow> string option" where
  "recorded_resource r = (if op_resource r = [] then None else Some (op_resource r))"

definition feq :: "pyfloat \<Rightarrow> pyfloat \<Rightarrow> bool" where
  "feq x y \<longleftrightarrow> x \<noteq> NaN \<and> x = y"

definition effective_amount :: "pyfloat \<Rightarrow> operation \<Rightarrow> pyfloat" where
  "effective_amount amt r = (if amt = fzero \<and> flt fzero (op_amount r) then op_amount r else amt)"

definition budgeted :: "operation \<Rightarrow> bool" where
  "budgeted r \<longleftrightarrow> op_resource r \<noteq> [] \<and> flt fzero (op_amount r)"

subsection \<open>Reserving the budget\<close>

text \<open>\<open>_reserve_budget\<close>\<close>

definition reserve_backend ::
  "'b cbackend \<Rightarrow> string \<Rightarrow> string \<Rightarrow> pyfloat \<Rightarrow> (('b, 'a) gov, bool) prog" where
  "reserve_backend be k res amt =
     bindM (attempt (be_call (cb_reserve be k amt res))) (\<lambda>a.
       case a of
         Some (Some (St RESERVED), Some rid) \<Rightarrow>
           if rid = [] then ret False
           else bindM (try_flags k (flags_of True False rid)) (\<lambda>ok.
             if ok then ret True
             else bindM (attempt (be_call (cb_release be rid))) (\<lambda>_. ret False))
       | _ \<Rightarrow> ret False)"

definition reserve_pool :: "string \<Rightarrow> string \<Rightarrow> pyfloat \<Rightarrow> (('b, 'a) gov, bool) prog" where
  "reserve_pool k res amt =
     bindM (pool res) (\<lambda>p.
       case p of
         None \<Rightarrow> ret False
       | Some r \<Rightarrow>
         if \<not> fst (rs_reserve r amt) then ret False
         else bindM (set_pool res (snd (rs_reserve r amt))) (\<lambda>_.
           bindM (try_flags k [(''budget_reserved'', FBool True)]) (\<lambda>ok.
             if ok then ret True
             else bindM (pool res) (\<lambda>p'.
               bindM (case p' of None \<Rightarrow> ret () | Some r' \<Rightarrow> set_pool res (rs_release r' amt)) (\<lambda>_.
               ret False)))))"

definition reserve_budget ::
  "('b, 'a) config \<Rightarrow> string \<Rightarrow> string option \<Rightarrow> pyfloat \<Rightarrow> (('b, 'a) gov, bool) prog" where
  "reserve_budget cf k res amt =
     (case res of
        None \<Rightarrow> ret True
      | Some rs \<Rightarrow>
        if rs = [] \<or> fle amt fzero then ret True
        else bindM (reg_get k) (\<lambda>r.
          case r of
            None \<Rightarrow> ret False
          | Some r \<Rightarrow>
            bindM persistent (\<lambda>dur.
              if cf_backend cf \<noteq> None \<and> \<not> dur then ret False
              else if budget_reserved r then ret (cf_backend cf = None \<or> reservation_id r \<noteq> [])
              else case cf_backend cf of
                Some be \<Rightarrow> reserve_backend be k rs amt
              | None \<Rightarrow> reserve_pool k rs amt)))"

subsection \<open>Confirming and failing\<close>

text \<open>The first item of \<open>get_state\<close> with a property, when the call succeeds.\<close>

definition find_item ::
  "'b cbackend \<Rightarrow> string \<Rightarrow> (item \<Rightarrow> bool) \<Rightarrow> (('b, 'a) gov, item option) prog" where
  "find_item be res P = bindM (be_call (cb_state be res)) (\<lambda>st. ret (find P (snd st)))"

text \<open>The backend part of \<open>_confirm_under_settlement_lock\<close>; an exception is the answer no.\<close>

definition confirm_budget :: "'b cbackend \<Rightarrow> string \<Rightarrow> operation \<Rightarrow> (('b, 'a) gov, bool) prog" where
  "confirm_budget be k r =
     bindM (find_item be (op_resource r) (\<lambda>i. it_id i = reservation_id r)) (\<lambda>i.
       case i of
         None \<Rightarrow> ret False
       | Some i \<Rightarrow>
         bindM
           (if it_state i = RESERVED then
              bindM (be_call (cb_commit be (reservation_id r))) (\<lambda>st.
                ret (st = Some (St COMMITTED) \<or> st = Some ALREADY_COMMITTED))
            else ret (it_state i = COMMITTED))
           (\<lambda>ok. if ok then set_flags k (flags_of False True (reservation_id r)) else ret False))"

definition confirm_locked :: "('b, 'a) config \<Rightarrow> string \<Rightarrow> (('b, 'a) gov, bool) prog" where
  "confirm_locked cf k =
     bindM (reg_get k) (\<lambda>r.
       case r of
         None \<Rightarrow> ret False
       | Some r \<Rightarrow>
         if op_state r \<noteq> op_state.DISPATCHING \<and> op_state r \<noteq> op_state.UNKNOWN then ret False
         else case cf_backend cf of
           Some be \<Rightarrow>
             if flt fzero (op_amount r) then
               (if op_resource r = [] \<or> reservation_id r = [] then ret False
                else bindM (tryM (confirm_budget be k r) (ret False)) (\<lambda>ok.
                  if ok then transition k op_state.CONFIRMED [] [] False else ret False))
             else transition k op_state.CONFIRMED [] [] False
         | None \<Rightarrow> transition k op_state.CONFIRMED [] [] False)"

definition confirm :: "('b, 'a) config \<Rightarrow> string \<Rightarrow> (('b, 'a) gov, bool) prog" where
  "confirm cf k = tryM (with_settlement (cf_backend cf \<noteq> None) (confirm_locked cf k)) (ret False)"

text \<open>
  \<open>_fail_under_settlement_lock\<close>. First the repair of a reservation the backend has and the record
  does not: \<open>None\<close> is the early return, otherwise the record to go on with.
\<close>

definition orphan_flags :: "rstate \<Rightarrow> (bool \<times> bool) option" where
  "orphan_flags s =
     (case s of
        RESERVED \<Rightarrow> Some (True, False)
      | UNKNOWN \<Rightarrow> Some (True, False)
      | COMMITTED \<Rightarrow> Some (False, True)
      | RELEASED \<Rightarrow> Some (False, False)
      | REFUNDED \<Rightarrow> Some (False, False)
      | OtherState _ \<Rightarrow> None)"

definition repair_orphan ::
  "'b cbackend \<Rightarrow> string \<Rightarrow> operation \<Rightarrow> (('b, 'a) gov, operation option) prog" where
  "repair_orphan be k r =
     bindM (attempt (find_item be (op_resource r) (\<lambda>i. it_key i = k))) (\<lambda>found.
       case found of
         None \<Rightarrow> ret None
       | Some None \<Rightarrow> ret (Some r)
       | Some (Some i) \<Rightarrow>
         (case orphan_flags (it_state i) of
            None \<Rightarrow> ret None
          | Some (br, bc) \<Rightarrow>
            bindM (try_flags k (flags_of br bc (it_id i))) (\<lambda>ok. if ok then reg_get k else ret None)))"

text \<open>The compensation of an owned durable reservation.\<close>

definition compensate_backend ::
  "'b cbackend \<Rightarrow> operation \<Rightarrow> bool \<Rightarrow> (('b, 'a) gov, bool) prog" where
  "compensate_backend be r proven =
     (if budget_committed r then
        (if \<not> proven \<or> (op_state r \<noteq> op_state.DISPATCHING \<and> op_state r \<noteq> op_state.UNKNOWN) then ret False
         else bindM (attempt (be_call (cb_refund be (reservation_id r)))) (\<lambda>a.
           ret (a = Some (Some (St REFUNDED)) \<or> a = Some (Some ALREADY_REFUNDED))))
      else
        (if op_state r \<notin> {op_state.CREATED, op_state.HOLD, op_state.RESERVED, op_state.ESCALATED} then ret False
         else bindM (attempt (be_call (cb_release be (reservation_id r)))) (\<lambda>a.
           ret (a = Some (Some (St RELEASED)) \<or> a = Some (Some ALREADY_RELEASED)))))"

text \<open>The in-memory budget: flags first, then the transition, then the counters.\<close>

definition fail_pool :: "string \<Rightarrow> operation \<Rightarrow> (('b, 'a) gov, bool) prog" where
  "fail_pool k r =
     bindM (pool (op_resource r)) (\<lambda>p.
       case p of
         None \<Rightarrow> ret False
       | Some rs \<Rightarrow>
         bindM (reg_get k) (\<lambda>cur.
           case cur of
             None \<Rightarrow> ret False
           | Some cur \<Rightarrow>
             if op_state cur = op_state.FAILED \<or> op_state cur = op_state.CONFIRMED then ret False
             else if flt (if budget_committed r then rs_consumed rs else rs_reserved rs) (op_amount r)
             then ret False
             else bindM (try_flags k (pool_flags False False)) (\<lambda>ok.
               if \<not> ok then ret False
               else bindM (transition k op_state.FAILED [] [] False) (\<lambda>done.
                 if \<not> done then
                   bindM (try_flags k (pool_flags (\<not> budget_committed r) (budget_committed r))) (\<lambda>_. ret False)
                 else bindM (set_pool (op_resource r)
                        (if budget_committed r then rs_refund rs (op_amount r) else rs_release rs (op_amount r)))
                        (\<lambda>_. ret True)))))"

definition fail_with :: "('b, 'a) config \<Rightarrow> string \<Rightarrow> operation \<Rightarrow> bool \<Rightarrow> (('b, 'a) gov, bool) prog" where
  "fail_with cf k r proven =
     (let owns = (budget_reserved r \<or> budget_committed r) in
      case cf_backend cf of
        Some be \<Rightarrow>
          if owns \<and> reservation_id r = [] then ret False
          else if owns then
            bindM (compensate_backend be r proven) (\<lambda>done.
              if \<not> done then ret False
              else bindM (try_flags k (flags_of False False (reservation_id r))) (\<lambda>ok.
                if ok then transition k op_state.FAILED [] [] False else ret False))
          else transition k op_state.FAILED [] [] False
      | None \<Rightarrow>
          if budgeted r \<and> owns then fail_pool k r else transition k op_state.FAILED [] [] False)"

definition fail_locked ::
  "('b, 'a) config \<Rightarrow> string \<Rightarrow> string option \<Rightarrow> pyfloat option \<Rightarrow> bool \<Rightarrow> (('b, 'a) gov, bool) prog" where
  "fail_locked cf k res amt proven =
     bindM (reg_get k) (\<lambda>r.
       case r of
         None \<Rightarrow> ret False
       | Some r \<Rightarrow>
         if res \<noteq> None \<and> res \<noteq> recorded_resource r then ret False
         else case amt of
           None \<Rightarrow> ret False
         | Some a \<Rightarrow>
           if \<not> ffinite (effective_amount a r) \<or> \<not> feq (effective_amount a r) (op_amount r) then ret False
           else case cf_backend cf of
             Some be \<Rightarrow>
               if budgeted r \<and> reservation_id r = [] then
                 bindM (repair_orphan be k r) (\<lambda>r'. case r' of None \<Rightarrow> ret False | Some r' \<Rightarrow> fail_with cf k r' proven)
               else fail_with cf k r proven
           | None \<Rightarrow> fail_with cf k r proven)"

definition fail ::
  "('b, 'a) config \<Rightarrow> string \<Rightarrow> string option \<Rightarrow> pyfloat option \<Rightarrow> bool \<Rightarrow> (('b, 'a) gov, bool) prog" where
  "fail cf k res amt proven =
     tryM (with_settlement (cf_backend cf \<noteq> None) (fail_locked cf k res amt proven)) (ret False)"

definition mark_unknown :: "string \<Rightarrow> (('b, 'a) gov, bool) prog" where
  "mark_unknown k = transition k op_state.UNKNOWN [] [] False"

subsection \<open>Commit authorization\<close>

text \<open>\<open>_commit_request_matches_record\<close>: the binding against the record and the configured anchor.\<close>

definition request_matches :: "'a authority \<Rightarrow> json \<Rightarrow> operation \<Rightarrow> bool" where
  "request_matches au q r =
     (case au_binding au q of
        None \<Rightarrow> False
      | Some b \<Rightarrow>
        bd_authority b = au_id au \<and> bd_profile b = au_profile au \<and> bd_generation b = au_generation au \<and>
        bd_scope b = institutional_scope r \<and> bd_operation b = operation_id r \<and>
        bd_key b = idempotency_key r \<and> bd_passage b = passage_id r \<and> bd_agent b = agent_id r \<and>
        bd_action b = action_type r \<and> bd_resource b = op_resource r \<and>
        au_amount au (op_amount r) = Some (bd_amount b) \<and> bd_digest b = payload_digest r)"

text \<open>\<open>_record_commit_gate_status\<close>\<close>

definition gate_status ::
  "string \<Rightarrow> string \<Rightarrow> string \<Rightarrow> string \<Rightarrow> bool \<Rightarrow> (('b, 'a) gov, bool) prog" where
  "gate_status k phase st why security =
     bindM (tryM (reg_call (\<lambda>g. record_commit_gate_status g k phase st why security)) (ret False)) (\<lambda>ok.
     bindM (reg_get k) (\<lambda>_.
     bindM (audit ''commit_authorization'' (if security then HARD_VETO else decision.HOLD) k) (\<lambda>_.
     ret ok)))"

text \<open>The answers of \<open>authorize_commit\<close>.\<close>

datatype authorization_answer =
    GateDisabled
  | NotRegistered
  | NotReserved op_state
  | RequestMismatch
  | RequestInvalid
  | RequestConflict
  | AuthorizationUnknown
  | AuthorizationInvalid
  | AuthorizationNotPersisted
  | AuthorizationDecided bool

text \<open>The authority is asked; if that raises, the decision it may have recorded is looked up.\<close>

definition ask_authority :: "'a authority \<Rightarrow> json \<Rightarrow> (('b, 'a) gov, json option) prog" where
  "ask_authority au q =
     tryM (bindM (au_call (au_authorize au q)) (\<lambda>a. ret (Some a)))
       (tryM (au_call (au_lookup_authorization au q)) (ret None))"

definition authorize_commit ::
  "('b, 'a) config \<Rightarrow> string \<Rightarrow> json \<Rightarrow> (('b, 'a) gov, authorization_answer) prog" where
  "authorize_commit cf k q =
     (let au = cf_authority cf;
          bad = (\<lambda>why. bindM (gate_status k ''authorization'' ''HOLD'' why True) (\<lambda>_. ret AuthorizationInvalid)) in
      if \<not> cf_gate cf then ret GateDisabled
      else bindM (reg_get k) (\<lambda>r.
        case r of
          None \<Rightarrow> ret NotRegistered
        | Some r \<Rightarrow>
          if op_state r \<noteq> op_state.RESERVED then ret (NotReserved (op_state r))
          else if \<not> request_matches au q r then ret RequestMismatch
          else if \<not> au_request_ok au q then ret RequestInvalid
          else bindM (reg_call (\<lambda>g. record_authorization_request g k q)) (\<lambda>bound.
            if \<not> bound then ret RequestConflict
            else bindM (ask_authority au q) (\<lambda>a.
              case a of
                None \<Rightarrow>
                  bindM (gate_status k ''authorization'' ''TRUST_UNKNOWN''
                           ''Commit authorization outcome is unknown; dispatch remains blocked.'' False)
                    (\<lambda>_. ret AuthorizationUnknown)
              | Some a \<Rightarrow>
                bindM (attempt (au_call (au_keys au))) (\<lambda>keys.
                  if keys = None then bad ''Commit authorization trust keys are unavailable or invalid.''
                  else if \<not> au_verify_authorization au a q
                  then bad ''Commit authorization receipt verification failed.''
                  else bindM (reg_call (\<lambda>g. record_authorization_receipt g k a)) (\<lambda>kept.
                    if \<not> kept then
                      bindM (gate_status k ''authorization'' ''HOLD''
                               ''Signed authorization could not be bound durably to the operation.'' True)
                        (\<lambda>_. ret AuthorizationNotPersisted)
                    else if au_decision au a \<noteq> ''AUTHORIZED'' then
                      bindM (gate_status k ''authorization'' ''HOLD'' (au_reason au a) False)
                        (\<lambda>_. ret (AuthorizationDecided False))
                    else ret (AuthorizationDecided True)))))))"

text \<open>\<open>_consume_commit_authorization\<close>: whether the authorization is consumed for this dispatch.\<close>

definition ask_consumption :: "'a authority \<Rightarrow> json \<Rightarrow> json \<Rightarrow> string \<Rightarrow> (('b, 'a) gov, json option) prog" where
  "ask_consumption au q a claim_id =
     tryM
       (bindM (au_call (au_lookup_consumption au q)) (\<lambda>found.
          case found of
            Some c \<Rightarrow> ret (Some c)
          | None \<Rightarrow> bindM (au_call (au_consume au q a claim_id)) (\<lambda>c. ret (Some c))))
       (tryM (au_call (au_lookup_consumption au q)) (ret None))"

definition consume_authorization :: "('b, 'a) config \<Rightarrow> string \<Rightarrow> (('b, 'a) gov, bool) prog" where
  "consume_authorization cf k =
     (let au = cf_authority cf;
          bad = (\<lambda>why. bindM (gate_status k ''consumption'' ''HOLD'' why True) (\<lambda>_. ret False)) in
      bindM (reg_get k) (\<lambda>r.
        case r of
          None \<Rightarrow> ret False
        | Some r \<Rightarrow>
          (let q = commit_authorization_request r; a = commit_authorization_receipt r in
           if op_state r \<noteq> op_state.RESERVED then ret False
           else if q = JNull \<or> a = JNull then ret False
           else if \<not> au_request_ok au q \<or> \<not> au_authorization_ok au a
           then bad ''Stored commit authorization is invalid''
           else bindM (attempt (au_call (au_keys au))) (\<lambda>keys.
             if keys = None then bad ''Commit authorization trust keys are unavailable or invalid.''
             else if \<not> request_matches au q r \<or> \<not> au_verify_authorization au a q \<or>
                     au_decision au a \<noteq> ''AUTHORIZED''
             then bad ''Stored commit authorization is rejected, invalid, or operation-mismatched.''
             else bindM (reg_call (\<lambda>g. ensure_commit_dispatch_claim g k
                            (''dispatch:'' @ au_claim_digest au k (au_request_id au q)))) (\<lambda>cl.
               if \<not> fst cl then ret False
               else bindM (ask_consumption au q a (snd cl)) (\<lambda>c.
                 case c of
                   None \<Rightarrow>
                     bindM (gate_status k ''consumption'' ''TRUST_UNKNOWN''
                              ''Commit consumption outcome is unknown; dispatch remains blocked.'' False)
                       (\<lambda>_. ret False)
                 | Some c \<Rightarrow>
                   if au_claim au c \<noteq> snd cl \<or> \<not> au_verify_consumption au c q a
                   then bad ''Commit consumption receipt verification failed.''
                   else bindM (reg_call (\<lambda>g. record_consumption_receipt g k c)) (\<lambda>kept.
                     if \<not> kept
                     then bad ''Signed consumption could not be bound durably to the operation.''
                     else if au_decision au c \<noteq> ''CONSUMED'' then
                       bindM (gate_status k ''consumption'' ''HOLD'' (au_reason au c) False) (\<lambda>_. ret False)
                     else ret True)))))))"

text \<open>\<open>_valid_commit_consumption\<close>: the stored evidence is verified again at the dispatch.\<close>

definition valid_consumption :: "'a authority \<Rightarrow> operation \<Rightarrow> (('b, 'a) gov, bool) prog" where
  "valid_consumption au r =
     (if \<not> commit_gate_required r then ret True
      else
        (let q = commit_authorization_request r; a = commit_authorization_receipt r;
             c = commit_consumption_receipt r in
         if \<not> au_request_ok au q \<or> \<not> au_authorization_ok au a \<or> \<not> au_consumption_ok au c then ret False
         else tryM
           (bindM (au_call (au_keys au)) (\<lambda>_.
              ret (request_matches au q r \<and> au_decision au a = ''AUTHORIZED'' \<and>
                   au_decision au c = ''CONSUMED'' \<and> au_claim au c = commit_dispatch_claim_id r \<and>
                   au_verify_authorization au a q \<and> au_verify_consumption au c q a)))
           (ret False)))"

subsection \<open>Dispatch\<close>

text \<open>
  The supplied payload enters with its two digests; \<open>None\<close> when it is not a JSON object the
  digest accepts.
\<close>

record payload_in =
  pi_hash :: "string option"
  pi_digest :: "string option"

datatype dispatch_answer =
    Refused "op_state option"
  | BackendClaimed
  | Dispatched

text \<open>The in-memory budget at dispatch; a resource that is not registered is skipped.\<close>

definition dispatch_pool ::
  "('b, 'a) config \<Rightarrow> string \<Rightarrow> string \<Rightarrow> pyfloat \<Rightarrow> (('b, 'a) gov, dispatch_answer) prog" where
  "dispatch_pool cf k res amt =
     bindM (pool res) (\<lambda>p.
       case p of
         None \<Rightarrow> ret Dispatched
       | Some r \<Rightarrow>
         if revalidate_budget_at_dispatch (cf_policy cf) \<and> flt (rs_reserved r) amt
            \<or> \<not> fst (rs_commit r amt) then
           bindM (transition k op_state.FAILED [] [] False) (\<lambda>_. ret (Refused (Some op_state.FAILED)))
         else bindM (set_pool res (snd (rs_commit r amt))) (\<lambda>_.
           bindM (try_flags k (pool_flags False True)) (\<lambda>ok.
             if ok then ret Dispatched
             else bindM (pool res) (\<lambda>p'.
               bindM (case p' of None \<Rightarrow> ret ()
                      | Some r' \<Rightarrow> set_pool res (snd (rs_reserve (rs_refund r' amt) amt))) (\<lambda>_.
               ret (Refused (Some op_state.DISPATCHING)))))))"

text \<open>\<open>_dispatch_under_quarantine_lock\<close>\<close>

definition dispatch_claim ::
  "('b, 'a) config \<Rightarrow> string \<Rightarrow> string option \<Rightarrow> pyfloat option \<Rightarrow> payload_in \<Rightarrow>
     (('b, 'a) gov, dispatch_answer) prog" where
  "dispatch_claim cf k res amt pl =
     bindM (reg_get k) (\<lambda>r.
       case r of
         None \<Rightarrow> ret (Refused None)
       | Some r \<Rightarrow>
         (let no = ret (Refused (Some (op_state r))) in
          case pi_hash pl of
            None \<Rightarrow> ret (Refused None)
          | Some h \<Rightarrow>
            if h \<noteq> (if commit_gate_required r then payload_digest r else payload_hash r) then no
            else if commit_gate_required r \<and> pi_digest pl \<noteq> Some (payload_digest r) then no
            else bindM (valid_consumption (cf_authority cf) r) (\<lambda>verified.
              if \<not> verified then no
              else if res \<noteq> None \<and> res \<noteq> recorded_resource r then ret (Refused None)
              else case amt of
                None \<Rightarrow> ret (Refused None)
              | Some a0 \<Rightarrow>
                if \<not> ffinite a0 \<or> flt a0 fzero then ret (Refused None)
                else
                  (let a = effective_amount a0 r in
                   if \<not> feq a (op_amount r) then ret (Refused None)
                   else bindM persistent (\<lambda>dur.
                     if cf_backend cf \<noteq> None \<and> budgeted r \<and> \<not> dur then no
                     else bindM quarantine_blocks (\<lambda>blocked.
                       if blocked then no
                       else bindM (transition k op_state.DISPATCHING (cf_worker cf) [] verified) (\<lambda>won.
                         if \<not> won then
                           bindM (reg_get k) (\<lambda>c. case c of None \<Rightarrow> raise | Some c \<Rightarrow> ret (Refused (Some (op_state c))))
                         else if \<not> budgeted r then ret Dispatched
                         else if cf_backend cf \<noteq> None then ret BackendClaimed
                         else dispatch_pool cf k (op_resource r) a)))))))"

text \<open>\<open>_complete_claimed_backend_dispatch\<close>, which only a claimed dispatch reaches.\<close>

definition complete_claimed ::
  "('b, 'a) config \<Rightarrow> 'b cbackend \<Rightarrow> string \<Rightarrow> string option \<Rightarrow> pyfloat \<Rightarrow> (('b, 'a) gov, dispatch_answer) prog" where
  "complete_claimed cf be k res amt =
     (let no = ret (Refused (Some op_state.DISPATCHING)) in
      if res = None \<or> res = Some [] \<or> fle amt fzero then ret Dispatched
      else bindM (reg_get k) (\<lambda>c.
        (let rid = (case c of None \<Rightarrow> [] | Some c \<Rightarrow> reservation_id c) in
         if rid = [] then no
         else bindM (attempt
           (bindM (find_item be (the res) (\<lambda>i. it_id i = rid)) (\<lambda>i.
             if revalidate_budget_at_dispatch (cf_policy cf) \<and> map_option it_state i \<noteq> Some RESERVED
             then ret False
             else bindM (be_call (cb_commit be rid)) (\<lambda>st.
               ret (st = Some (St COMMITTED) \<or> st = Some ALREADY_COMMITTED))))) (\<lambda>done.
           if done \<noteq> Some True then no
           else bindM (try_flags k (flags_of False True rid)) (\<lambda>ok.
             if ok then ret Dispatched else no)))))"

text \<open>The gated operation's checks before the quarantine gate: \<open>None\<close> to go on.\<close>

definition dispatch_gate ::
  "('b, 'a) config \<Rightarrow> string \<Rightarrow> payload_in \<Rightarrow> (('b, 'a) gov, dispatch_answer option) prog" where
  "dispatch_gate cf k pl =
     bindM (reg_get k) (\<lambda>r.
       case r of
         None \<Rightarrow> ret None
       | Some r \<Rightarrow>
         if \<not> commit_gate_required r \<or> op_state r \<noteq> op_state.RESERVED then ret None
         else if pi_digest pl \<noteq> Some (payload_digest r) then ret (Some (Refused (Some (op_state r))))
         else bindM quarantine_blocks (\<lambda>blocked.
           if blocked then ret (Some (Refused (Some (op_state r))))
           else bindM (consume_authorization cf k) (\<lambda>ok.
             ret (if ok then None else Some (Refused (Some (op_state r)))))))"

text \<open>The settlement of a claimed dispatch under the operation's lock.\<close>

definition settle_claim :: "('b, 'a) config \<Rightarrow> 'b cbackend \<Rightarrow> string \<Rightarrow> (('b, 'a) gov, dispatch_answer) prog" where
  "settle_claim cf be k =
     tryM
       (with_settlement True
         (bindM (reg_get k) (\<lambda>c.
           case c of
             None \<Rightarrow> ret (Refused None)
           | Some c \<Rightarrow>
             if op_state c \<noteq> op_state.DISPATCHING \<or> dispatch_claimed_by c \<noteq> cf_worker cf
             then ret (Refused (Some (op_state c)))
             else complete_claimed cf be k (recorded_resource c) (op_amount c))))
       (ret (Refused (Some op_state.DISPATCHING)))"

definition dispatch ::
  "('b, 'a) config \<Rightarrow> string \<Rightarrow> string option \<Rightarrow> pyfloat option \<Rightarrow> payload_in \<Rightarrow> bool \<Rightarrow>
     (('b, 'a) gov, dispatch_answer) prog" where
  "dispatch cf k res amt pl live =
     bindM (dispatch_gate cf k pl) (\<lambda>early.
       case early of
         Some a \<Rightarrow> ret a
       | None \<Rightarrow>
         bindM (dispatch_claim cf k res amt pl) (\<lambda>a.
         bindM (if live \<and> (a = BackendClaimed \<or> a = Dispatched)
                then mark_active_dispatch (cf_worker cf) k else ret ()) (\<lambda>_.
           case (a, cf_backend cf) of
             (BackendClaimed, Some be) \<Rightarrow>
               bindM (settle_claim cf be k) (\<lambda>a'.
               bindM (if a' \<noteq> Dispatched \<and> live then clear_active_dispatch (cf_worker cf) k else ret ()) (\<lambda>_.
               ret a'))
           | _ \<Rightarrow> ret a)))"

subsection \<open>Execution\<close>

text \<open>\<open>try: ... finally: ...\<close> with a cleanup that cannot fail.\<close>

definition finallyM :: "('s, 'a) prog \<Rightarrow> ('s \<Rightarrow> 's) \<Rightarrow> ('s, 'a) prog" where
  "finallyM m f s = (case m s of (Crash, s') \<Rightarrow> (Crash, s') | (r, s') \<Rightarrow> (r, f s'))"

definition discard :: "('b, 'a) config \<Rightarrow> string \<Rightarrow> ('b, 'a) gov \<Rightarrow> ('b, 'a) gov" where
  "discard cf k s = s\<lparr>g_active := removeAll (cf_worker cf, k) (g_active s)\<rparr>"

definition state_of :: "string \<Rightarrow> (('b, 'a) gov, op_state option) prog" where
  "state_of k = bindM (reg_get k) (\<lambda>r. ret (map_option op_state r))"

text \<open>
  The answer of \<open>dispatch_and_execute\<close>: not dispatched; dispatched without a provider call; or
  the flag \<open>executed\<close> and the reported state.
\<close>

datatype execute_answer =
    ENotDispatched "op_state option"
  | EDispatched
  | EOutcome "bool option" "op_state option"

text \<open>Up to the provider call: the claim, and the record whose values the provider receives.\<close>

definition begin_execution ::
  "('b, 'a) config \<Rightarrow> string \<Rightarrow> string option \<Rightarrow> pyfloat option \<Rightarrow> payload_in \<Rightarrow>
     (('b, 'a) gov, execute_answer + operation) prog" where
  "begin_execution cf k res amt pl =
     bindM (reg_get k) (\<lambda>r0.
       if (case r0 of None \<Rightarrow> False | Some r \<Rightarrow> commit_gate_required r) \<and> pi_digest pl = None
       then ret (Inl (ENotDispatched (map_option op_state r0)))
       else bindM (dispatch cf k res amt pl (cf_provider cf)) (\<lambda>a.
         case a of
           Refused st \<Rightarrow> ret (Inl (ENotDispatched st))
         | BackendClaimed \<Rightarrow> ret (Inl (ENotDispatched (Some op_state.DISPATCHING)))
         | Dispatched \<Rightarrow>
           if \<not> cf_provider cf then ret (Inl EDispatched)
           else bindM (reg_get k) (\<lambda>r.
             case r of
               None \<Rightarrow> bindM (modM (discard cf k)) (\<lambda>_. ret (Inl EDispatched))
             | Some r \<Rightarrow> ret (Inr r))))"

definition execution_of :: "('b, 'a) config \<Rightarrow> string \<Rightarrow> operation \<Rightarrow> execution" where
  "execution_of cf k r =
     \<lparr>ex_worker = cf_worker cf, ex_key = k,
      ex_action = (if action_type r = [] then ''payment'' else action_type r),
      ex_amount = op_amount r, ex_agent = agent_id r\<rparr>"

text \<open>\<open>provider.execute\<close>: the provider has received the request unless the call raised before.\<close>

definition call_provider ::
  "(execution \<Rightarrow> execution_result) \<Rightarrow> execution \<Rightarrow> (('b, 'a) gov, execution_result) prog" where
  "call_provider prov ex = call (\<lambda>s. (Inr (prov ex), s\<lparr>g_executed := g_executed s @ [ex]\<rparr>))"

definition settle_execution ::
  "('b, 'a) config \<Rightarrow> string \<Rightarrow> operation \<Rightarrow> execution_result option \<Rightarrow> (('b, 'a) gov, execute_answer) prog" where
  "settle_execution cf k r result =
     (case result of
        None \<Rightarrow>
          bindM (finallyM (transition k op_state.UNKNOWN [] [] False) (discard cf k)) (\<lambda>_.
          ret (EOutcome (Some False) (Some op_state.UNKNOWN)))
      | Some p \<Rightarrow>
        (case pr_outcome p of
           PConfirmed \<Rightarrow>
             bindM (finallyM (confirm cf k) (discard cf k)) (\<lambda>ok.
               if ok then ret (EOutcome (Some True) (Some op_state.CONFIRMED))
               else bindM (state_of k) (\<lambda>st. ret (EOutcome (Some True) st)))
         | PFailed \<Rightarrow>
             if pr_violated p then
               bindM (finallyM (tryM (transition k op_state.UNKNOWN [] [] False) (ret False)) (discard cf k)) (\<lambda>_.
               bindM (audit ''I5'' decision.HOLD k) (\<lambda>_.
               bindM (state_of k) (\<lambda>st.
               ret (EOutcome None (Some (case st of None \<Rightarrow> op_state.UNKNOWN | Some t \<Rightarrow> t))))))
             else
               bindM (finallyM (fail cf k (recorded_resource r) (Some (op_amount r)) True) (discard cf k)) (\<lambda>ok.
                 if ok then ret (EOutcome (Some False) (Some op_state.FAILED))
                 else bindM (state_of k) (\<lambda>st. ret (EOutcome (Some False) st)))
         | PPending \<Rightarrow>
             bindM (modM (discard cf k)) (\<lambda>_. ret (EOutcome (Some False) (Some op_state.DISPATCHING)))
         | PUnknown \<Rightarrow>
             bindM (transition k op_state.UNKNOWN [] [] False) (\<lambda>_.
             bindM (modM (discard cf k)) (\<lambda>_. ret (EOutcome (Some False) (Some op_state.UNKNOWN))))))"

definition dispatch_and_execute ::
  "('b, 'a) config \<Rightarrow> (execution \<Rightarrow> execution_result) \<Rightarrow> string \<Rightarrow> string option \<Rightarrow> pyfloat option \<Rightarrow>
     payload_in \<Rightarrow> (('b, 'a) gov, execute_answer) prog" where
  "dispatch_and_execute cf prov k res amt pl =
     bindM (begin_execution cf k res amt pl) (\<lambda>b.
       case b of
         Inl a \<Rightarrow> ret a
       | Inr r \<Rightarrow>
         bindM (attempt (call_provider prov (execution_of cf k r))) (\<lambda>result.
         settle_execution cf k r result))"

subsection \<open>Reconciliation\<close>

type_synonym reconcile_result = "bool \<times> op_state option"

text \<open>\<open>reconcile_unknown\<close> up to the provider call: an early answer, or the record it goes on with.\<close>

definition begin_reconcile ::
  "('b, 'a) config \<Rightarrow> string \<Rightarrow> (('b, 'a) gov, reconcile_result + operation) prog" where
  "begin_reconcile cf k =
     bindM (reg_get k) (\<lambda>r.
       case r of
         None \<Rightarrow> ret (Inl (False, None))
       | Some r \<Rightarrow>
         (let no = ret (Inl (False, Some (op_state r))) in
          bindM (readM (\<lambda>s. (cf_worker cf, k) \<in> set (g_active s))) (\<lambda>active.
          bindM persistent (\<lambda>dur.
            if active then no
            else if op_state r \<noteq> op_state.UNKNOWN \<and> op_state r \<noteq> op_state.DISPATCHING then no
            else if \<not> cf_provider cf then no
            else if cf_backend cf \<noteq> None \<and> budgeted r \<and> \<not> dur then no
            else ret (Inr r)))))"

text \<open>
  The durable reservation of a record, found by its identifier or, when the record has none, by
  the key; its identity is persisted. It raises when it cannot be verified.
\<close>

definition recover_reservation :: "'b cbackend \<Rightarrow> string \<Rightarrow> operation \<Rightarrow> (('b, 'a) gov, item) prog" where
  "recover_reservation be k r =
     (if op_resource r = [] then raise
      else bindM (be_call (cb_state be (op_resource r))) (\<lambda>st.
        let i = (case find (\<lambda>i. reservation_id r \<noteq> [] \<and> it_id i = reservation_id r) (snd st) of
                   Some i \<Rightarrow> Some i
                 | None \<Rightarrow> if reservation_id r = [] then find (\<lambda>i. it_key i = k) (snd st) else None)
        in case i of
             None \<Rightarrow> raise
           | Some i \<Rightarrow>
             if \<not> feq (it_amount i) (op_amount r) \<or> it_id i = [] then raise
             else if reservation_id r = it_id i then ret i
             else bindM (set_flags k [(''reservation_id'', FStr (it_id i))]) (\<lambda>ok.
               if ok then ret i else raise)))"

definition reconcile_confirmed_budget :: "'b cbackend \<Rightarrow> string \<Rightarrow> operation \<Rightarrow> (('b, 'a) gov, unit) prog" where
  "reconcile_confirmed_budget be k r =
     bindM (recover_reservation be k r) (\<lambda>i.
     bindM
       (if it_state i = RESERVED then
          bindM (be_call (cb_commit be (it_id i))) (\<lambda>st.
            if st = Some (St COMMITTED) \<or> st = Some ALREADY_COMMITTED then ret () else raise)
        else if it_state i = COMMITTED then ret () else raise) (\<lambda>_.
     bindM (set_flags k (flags_of False True (it_id i))) (\<lambda>ok. if ok then ret () else raise)))"

definition reconcile_confirmed ::
  "('b, 'a) config \<Rightarrow> string \<Rightarrow> operation \<Rightarrow> (('b, 'a) gov, reconcile_result) prog" where
  "reconcile_confirmed cf k r =
     bindM (case cf_backend cf of
              Some be \<Rightarrow> if flt fzero (op_amount r) then attempt (reconcile_confirmed_budget be k r) else ret (Some ())
            | None \<Rightarrow> ret (Some ())) (\<lambda>b.
       if b = None then ret (False, Some (op_state r))
       else bindM (transition k op_state.CONFIRMED [] [] False) (\<lambda>ok.
         if ok then ret (True, Some op_state.CONFIRMED)
         else bindM (state_of k) (\<lambda>st. ret (False, st))))"

text \<open>The end of a failed reconciliation: the transition to \<open>FAILED\<close>, and what is reported.\<close>

definition finish_failed :: "string \<Rightarrow> (('b, 'a) gov, reconcile_result) prog" where
  "finish_failed k =
     bindM (transition k op_state.FAILED [] [] False) (\<lambda>ok.
       if ok then ret (True, Some op_state.FAILED) else bindM (state_of k) (\<lambda>st. ret (False, st)))"

definition reconcile_failed_backend ::
  "'b cbackend \<Rightarrow> string \<Rightarrow> operation \<Rightarrow> (('b, 'a) gov, reconcile_result) prog" where
  "reconcile_failed_backend be k r =
     (let no = ret (False, Some (op_state r)) in
      bindM (attempt (recover_reservation be k r)) (\<lambda>i.
        case i of
          None \<Rightarrow> no
        | Some i \<Rightarrow>
          if it_state i \<notin> {COMMITTED, RESERVED, REFUNDED, RELEASED} then no
          else
            (let spent = (it_state i = COMMITTED \<or> it_state i = REFUNDED) in
             bindM (attempt (be_call (if spent then cb_refund be (it_id i) else cb_release be (it_id i)))) (\<lambda>a.
               case a of
                 None \<Rightarrow> no
               | Some st \<Rightarrow>
                 if st \<notin> (if spent then {Some (St REFUNDED), Some ALREADY_REFUNDED}
                          else {Some (St RELEASED), Some ALREADY_RELEASED}) then no
                 else bindM (try_flags k (flags_of False False (it_id i))) (\<lambda>ok.
                   if \<not> ok then no
                   else bindM (transition k op_state.FAILED [] [] False) (\<lambda>done.
                     if done then ret (True, Some op_state.FAILED)
                     else bindM (state_of k) (\<lambda>t. ret (t = Some op_state.FAILED, t))))))))"

definition reconcile_failed_pool :: "string \<Rightarrow> operation \<Rightarrow> (('b, 'a) gov, reconcile_result) prog" where
  "reconcile_failed_pool k r =
     bindM (pool (op_resource r)) (\<lambda>p.
       case p of
         None \<Rightarrow> ret (False, Some op_state.UNKNOWN)
       | Some rs \<Rightarrow>
         bindM (reg_get k) (\<lambda>cur.
           case cur of
             None \<Rightarrow> ret (False, None)
           | Some cur \<Rightarrow>
             if op_state cur \<noteq> op_state.UNKNOWN \<and> op_state cur \<noteq> op_state.DISPATCHING
             then ret (False, Some (op_state cur))
             else if \<not> budget_reserved cur \<and> \<not> budget_committed cur then finish_failed k
             else
               (let spent = budget_committed cur in
                if flt (if spent then rs_consumed rs else rs_reserved rs) (op_amount r)
                then ret (False, Some op_state.UNKNOWN)
                else
                  (let change = (spent \<or> budget_reserved r) in
                   bindM (if change then try_flags k (pool_flags False False) else ret True) (\<lambda>ok.
                     if \<not> ok then ret (False, Some (op_state cur))
                     else bindM (transition k op_state.FAILED [] [] False) (\<lambda>done.
                       if \<not> done then
                         bindM (if change then try_flags k (pool_flags (\<not> spent) spent) else ret True) (\<lambda>_.
                         bindM (state_of k) (\<lambda>st. ret (False, st)))
                       else bindM (set_pool (op_resource r)
                              (if spent then rs_refund rs (op_amount r) else rs_release rs (op_amount r))) (\<lambda>_.
                         ret (True, Some op_state.FAILED))))))))"

definition reconcile_failed ::
  "('b, 'a) config \<Rightarrow> string \<Rightarrow> operation \<Rightarrow> (('b, 'a) gov, reconcile_result) prog" where
  "reconcile_failed cf k r =
     (case cf_backend cf of
        Some be \<Rightarrow>
          if flt fzero (op_amount r) then reconcile_failed_backend be k r else finish_failed k
      | None \<Rightarrow> if budgeted r then reconcile_failed_pool k r else finish_failed k)"

text \<open>The settlement phase, under the operation's lock, with the record read before the provider call.\<close>

definition settle_reconcile ::
  "('b, 'a) config \<Rightarrow> string \<Rightarrow> operation \<Rightarrow> reconciliation \<Rightarrow> (('b, 'a) gov, reconcile_result) prog" where
  "settle_reconcile cf k r rc =
     with_settlement (cf_backend cf \<noteq> None)
       (bindM (reg_get k) (\<lambda>cur.
         case cur of
           None \<Rightarrow> ret (False, None)
         | Some cur \<Rightarrow>
           if op_state cur \<noteq> op_state.UNKNOWN \<and> op_state cur \<noteq> op_state.DISPATCHING
           then ret (False, Some (op_state cur))
           else if rc_resolved rc \<and> rc_outcome rc = PFailed \<and> rc_violated rc then
             bindM (if op_state cur = op_state.DISPATCHING
                    then tryM (transition k op_state.UNKNOWN [] [] False) (ret False) else ret False) (\<lambda>_.
             bindM (audit ''I5'' decision.HOLD k) (\<lambda>_.
             bindM (state_of k) (\<lambda>st. ret (False, Some (case st of None \<Rightarrow> op_state.UNKNOWN | Some t \<Rightarrow> t)))))
           else if rc_resolved rc \<and> rc_outcome rc = PConfirmed then reconcile_confirmed cf k r
           else if rc_resolved rc \<and> rc_outcome rc = PFailed then reconcile_failed cf k r
           else bindM (state_of k) (\<lambda>st.
             if st = Some op_state.DISPATCHING
             then bindM (transition k op_state.UNKNOWN [] [] False) (\<lambda>_.
               bindM (state_of k) (\<lambda>st'. ret (False, st')))
             else ret (False, st))))"

text \<open>The provider's \<open>reconcile\<close> raised.\<close>

definition reconcile_raised :: "string \<Rightarrow> (('b, 'a) gov, reconcile_result) prog" where
  "reconcile_raised k =
     bindM (state_of k) (\<lambda>st.
       if st = Some op_state.DISPATCHING
       then bindM (transition k op_state.UNKNOWN [] [] False) (\<lambda>_. bindM (state_of k) (\<lambda>st'. ret (False, st')))
       else ret (False, st))"

definition reconcile_unknown ::
  "('b, 'a) config \<Rightarrow> (string \<Rightarrow> reconciliation) \<Rightarrow> string \<Rightarrow> (('b, 'a) gov, reconcile_result) prog" where
  "reconcile_unknown cf prov k =
     bindM (begin_reconcile cf k) (\<lambda>b.
       case b of
         Inl a \<Rightarrow> ret a
       | Inr r \<Rightarrow>
         bindM (attempt (call (\<lambda>s. (Inr (prov k), s)))) (\<lambda>rc.
           case rc of None \<Rightarrow> reconcile_raised k | Some rc \<Rightarrow> settle_reconcile cf k r rc))"

end
