(* ===== verification/Py_Arith.thy ===== *)
theory Py_Arith
  imports Py_Float
begin

section \<open>Products, quotients and rounding of floats\<close>

text \<open>
  The operations on floats that only some components use: product, quotient by a number that is
  not zero (the program tests for zero, or the caller raises), absolute value, ceiling, and
  \<open>round (x, 6)\<close>.
\<close>

fun fsign :: "pyfloat \<Rightarrow> rat" where
  "fsign (Fin x) = (if x < 0 then - 1 else if x = 0 then 0 else 1)"
| "fsign PInf = 1"
| "fsign NInf = - 1"
| "fsign NaN = 0"

definition finf :: "rat \<Rightarrow> pyfloat" where
  "finf s = (if s = 0 then NaN else if 0 < s then PInf else NInf)"

fun fmul :: "pyfloat \<Rightarrow> pyfloat \<Rightarrow> pyfloat" where
  "fmul (Fin x) (Fin y) = fl (x * y)"
| "fmul NaN _ = NaN"
| "fmul _ NaN = NaN"
| "fmul x y = finf (fsign x * fsign y)"

text \<open>\<open>x / y\<close> for a divisor that is not zero.\<close>

fun fdiv :: "pyfloat \<Rightarrow> pyfloat \<Rightarrow> pyfloat" where
  "fdiv (Fin x) (Fin y) = fl (x / y)"
| "fdiv NaN _ = NaN"
| "fdiv _ NaN = NaN"
| "fdiv (Fin x) _ = Fin 0"
| "fdiv x (Fin y) = finf (fsign x * (if y < 0 then - 1 else 1))"
| "fdiv _ _ = NaN"

fun fabs :: "pyfloat \<Rightarrow> pyfloat" where
  "fabs (Fin x) = Fin \<bar>x\<bar>"
| "fabs NInf = PInf"
| "fabs x = x"

text \<open>\<open>round (x, 6)\<close>: the float nearest to the exact value rounded to six decimals, ties to even.\<close>

fun round6 :: "pyfloat \<Rightarrow> pyfloat" where
  "round6 (Fin x) = fl (of_int (round_even (x * 1000000)) / 1000000)"
| "round6 x = x"

lemma fle_trans: "fle x y \<Longrightarrow> fle y z \<Longrightarrow> fle x z"
  by (cases x; cases y; cases z) auto

lemma fle_lt_trans: "fle x y \<Longrightarrow> flt y z \<Longrightarrow> flt x z"
  by (cases x; cases y; cases z) auto

lemma flt_fle: "flt x y \<Longrightarrow> fle x y"
  by (cases x; cases y) auto

end
