(* ===== verification/Governor_Admission.thy ===== *)
theory Governor_Admission
  imports Governor Py_Arith
begin

section \<open>The governor: admission, resumption and recovery\<close>

text \<open>
  \<open>adjudicate\<close>, \<open>resume_existing\<close> and \<open>recover\<close> of \<open>DualKernelGovernor\<close>. The scoring kernel is
  an argument: the decision string it would answer; that it raises instead is a fault of its
  call. The payload enters as the digest \<open>canonical_payload_hash\<close> gives it. Failures to acquire
  the shared quarantine gate are not modelled.
\<close>

subsection \<open>Requests\<close>

record request =
  rq_passage :: passage
  rq_scoring :: string
  rq_delegation :: "delegation option"
  rq_resource :: "string option"
  rq_amount :: "pyfloat option"
  rq_trajectory :: "string option"
  rq_hash :: "string option"
  rq_payload :: bool
  rq_digest :: "string option"
  rq_operation :: "string option"
  rq_scope :: "string option"
  rq_time :: string
  rq_now :: pyfloat

definition idem_key :: "passage \<Rightarrow> string" where
  "idem_key p = (if ps_key p = [] then ''op-'' @ ps_id p else ps_key p)"

definition str_or :: "string option \<Rightarrow> string \<Rightarrow> string" where
  "str_or s d = (case s of None \<Rightarrow> d | Some t \<Rightarrow> if t = [] then d else t)"

text \<open>The record that is registered; its other fields have their defaults.\<close>

definition new_operation ::
  "bool \<Rightarrow> request \<Rightarrow> pyfloat \<Rightarrow> string \<Rightarrow> string \<Rightarrow> operation" where
  "new_operation gate q a h oid =
     \<lparr>idempotency_key = idem_key (rq_passage q), passage_id = ps_id (rq_passage q),
      agent_id = ps_agent (rq_passage q), action_type = ps_action (rq_passage q),
      op_amount = a, op_resource = str_or (rq_resource q) [], op_state = op_state.CREATED,
      op_created_at = rq_time q, op_updated_at = rq_time q, composed_decision = [], dispatch_claimed_by = [],
      budget_reserved = False, budget_committed = False, hold = None, reservation_id = [],
      payload_hash = h, operation_id = oid, institutional_scope = str_or (rq_scope q) [],
      payload_digest = str_or (rq_digest q) [], commit_gate_required = gate,
      commit_authorization_request = JNull, commit_authorization_receipt = JNull,
      commit_dispatch_claim_id = [], commit_consumption_receipt = JNull,
      commit_authorization_status = [], commit_consumption_status = [], commit_gate_last_reason = [],
      commit_gate_events = []\<rparr>"

text \<open>The checks before the registration: the record to register, or \<open>None\<close> for a veto.\<close>

definition amount_ok :: "string option \<Rightarrow> pyfloat \<Rightarrow> bool" where
  "amount_ok res a \<longleftrightarrow> ffinite a \<and> \<not> flt a fzero \<and> (res \<noteq> None \<longrightarrow> \<not> fle a fzero)"

definition check_request :: "bool \<Rightarrow> request \<Rightarrow> operation option" where
  "check_request gate q =
     (case (rq_hash q, rq_amount q) of
        (Some h, Some a) \<Rightarrow>
          if \<not> amount_ok (rq_resource q) a then None
          else if \<not> gate then Some (new_operation gate q a h (str_or (rq_operation q) []))
          else
            (case rq_digest q of
               None \<Rightarrow> None
             | Some d \<Rightarrow>
               if \<not> hex64 d \<or> rq_payload q \<and> h \<noteq> d then None
               else
                 (let oid = str_or (rq_operation q) (idem_key (rq_passage q)) in
                  if \<not> commit_id_ok oid \<or> (case rq_scope q of None \<Rightarrow> True | Some s \<Rightarrow> \<not> commit_id_ok s)
                  then None else Some (new_operation gate q a d oid)))
      | _ \<Rightarrow> None)"

subsection \<open>Evaluation by both kernels\<close>

text \<open>\<open>_prospective_utilization\<close>\<close>

definition prospective_utilization ::
  "('b, 'a) config \<Rightarrow> string \<Rightarrow> resource \<Rightarrow> pyfloat \<Rightarrow> (('b, 'a) gov, pyfloat) prog" where
  "prospective_utilization cf k rs amt =
     bindM (reg_get k) (\<lambda>r.
       (let own = (case r of None \<Rightarrow> amt | Some r \<Rightarrow> if budget_reserved r then fzero else amt) in
        case (cf_backend cf, r) of
          (Some be, Some r) \<Rightarrow>
            if op_resource r = []
            then ret (fdiv (fadd (fadd (rs_consumed rs) (rs_reserved rs)) own) (rs_capacity rs))
            else tryM
              (bindM (be_call (cb_state be (op_resource r))) (\<lambda>st.
                let u = fst st in
                ret (if \<not> ffinite (us_capacity u) \<or> fle (us_capacity u) fzero then PInf
                     else fdiv (fadd (fadd (us_committed u) (us_reserved u)) own) (us_capacity u))))
              (ret PInf)
        | _ \<Rightarrow> ret (fdiv (fadd (fadd (rs_consumed rs) (rs_reserved rs)) own) (rs_capacity rs))))"

definition utilization ::
  "('b, 'a) config \<Rightarrow> string \<Rightarrow> string option \<Rightarrow> pyfloat \<Rightarrow> (('b, 'a) gov, pyfloat option) prog" where
  "utilization cf k res amt =
     (case res of
        None \<Rightarrow> ret None
      | Some j \<Rightarrow>
        if j = [] \<or> \<not> flt fzero amt then ret None
        else bindM (pool j) (\<lambda>p.
          case p of
            None \<Rightarrow> ret None
          | Some r \<Rightarrow>
            if flt fzero (rs_capacity r)
            then bindM (prospective_utilization cf k r amt) (\<lambda>u. ret (Some u)) else ret None))"

text \<open>
  The membrane's answer. \<open>own\<close> says whether a reservation the record already holds counts as
  available: \<open>adjudicate\<close> asks for it, the re-adjudication of a hold does not.
\<close>

definition run_membrane ::
  "bool \<Rightarrow> request \<Rightarrow> string option \<Rightarrow> pyfloat \<Rightarrow>
     (('b, 'a) gov, (decision \<times> (string \<times> decision) list) option) prog" where
  "run_membrane own q res amt =
     attempt
       (bindM
         (if own then bindM (reg_get (ps_key (rq_passage q))) (\<lambda>r.
            ret (case r of None \<Rightarrow> fzero | Some r \<Rightarrow> if budget_reserved r then amt else fzero))
          else ret fzero) (\<lambda>held.
        call (\<lambda>s. let (quarantined, g) = quarantine_is_active (g_reg s) in
          (Inr (membrane_adjudicate (g_membrane s) quarantined (rq_passage q) (rq_delegation q) res amt
                  (rq_trajectory q) held),
           s\<lparr>g_reg := g\<rparr>))))"

definition decision_or_hold :: "string option \<Rightarrow> decision" where
  "decision_or_hold s =
     (case s of None \<Rightarrow> decision.HOLD | Some t \<Rightarrow> (case decision_of t of Inl _ \<Rightarrow> decision.HOLD | Inr d \<Rightarrow> d))"

text \<open>Both kernels, the composition and the three audit entries.\<close>

definition evaluate ::
  "('b, 'a) config \<Rightarrow> bool \<Rightarrow> request \<Rightarrow> string \<Rightarrow> string option \<Rightarrow> pyfloat \<Rightarrow>
     (('b, 'a) gov, decision \<times> (decision \<times> (string \<times> decision) list) option) prog" where
  "evaluate cf own q k res amt =
     bindM (attempt (call (\<lambda>s. (Inr (rq_scoring q), s)))) (\<lambda>sc.
     bindM (run_membrane own q res amt) (\<lambda>m.
     bindM (utilization cf k res amt) (\<lambda>u.
       case compose sc (map_option (\<lambda>m. decision_str (fst m)) m) u (res \<noteq> None \<and> flt fzero amt)
              (Some (cf_policy cf)) of
         Inl e \<Rightarrow> raise
       | Inr (d, _) \<Rightarrow>
         bindM (audit ''scoring'' (decision_or_hold sc) k) (\<lambda>_.
         bindM (audit ''membrane'' (case m of None \<Rightarrow> decision.HOLD | Some m \<Rightarrow> fst m) k) (\<lambda>_.
         bindM (audit ''composed'' d k) (\<lambda>_.
         ret (d, m)))))))"

subsection \<open>Admission\<close>

datatype admission =
    Rejected
  | Duplicate op_state
  | Admission decision "op_state option"

text \<open>The external reservation, before the shared gate; \<open>False\<close> when it could not be taken.\<close>

definition reserve_external ::
  "('b, 'a) config \<Rightarrow> string \<Rightarrow> string option \<Rightarrow> pyfloat \<Rightarrow> (('b, 'a) gov, bool) prog" where
  "reserve_external cf k res amt =
     tryM
       (with_settlement True
         (bindM (reg_get k) (\<lambda>c.
           case c of
             None \<Rightarrow> ret False
           | Some c \<Rightarrow> if op_state c = op_state.CREATED then reserve_budget cf k res amt else ret False)))
       (ret False)"

text \<open>The decision, and whether an external reservation was attempted.\<close>

definition admit_external ::
  "('b, 'a) config \<Rightarrow> string \<Rightarrow> string option \<Rightarrow> pyfloat \<Rightarrow> decision \<Rightarrow> (('b, 'a) gov, decision \<times> bool) prog" where
  "admit_external cf k res amt d =
     (if d = HARD_VETO \<or> res = None \<or> \<not> flt fzero amt \<or> cf_backend cf = None then ret (d, False)
      else bindM quarantine_blocks (\<lambda>blocked.
        if blocked then bindM (audit ''composed'' HARD_VETO k) (\<lambda>_. ret (HARD_VETO, False))
        else bindM (reserve_external cf k res amt) (\<lambda>ok.
          if ok then ret (d, True)
          else bindM (audit ''composed'' HARD_VETO k) (\<lambda>_. ret (HARD_VETO, True)))))"

text \<open>The final claim under the shared gate: quarantine, then the in-memory budget.\<close>

definition admit_final ::
  "('b, 'a) config \<Rightarrow> string \<Rightarrow> string option \<Rightarrow> pyfloat \<Rightarrow> decision \<Rightarrow> (('b, 'a) gov, decision) prog" where
  "admit_final cf k res amt d =
     (if d = HARD_VETO then ret d
      else bindM quarantine_blocks (\<lambda>blocked.
        bindM
          (if \<not> blocked \<and> res \<noteq> None \<and> flt fzero amt \<and> cf_backend cf = None
           then bindM (reserve_budget cf k res amt) (\<lambda>ok.
             if ok then ret d else bindM (audit ''composed'' HARD_VETO k) (\<lambda>_. ret HARD_VETO))
           else ret (if blocked then HARD_VETO else d)) (\<lambda>d'.
        bindM (if d' = HARD_VETO then audit ''composed'' HARD_VETO k else ret ()) (\<lambda>_. ret d'))))"

text \<open>The transition the decision asks for; a failed claim of \<open>RESERVED\<close> becomes a veto.\<close>

definition admit_transition ::
  "string \<Rightarrow> pyfloat \<Rightarrow> bool \<Rightarrow> decision \<Rightarrow> (('b, 'a) gov, decision) prog" where
  "admit_transition k now ext d =
     (if d = PASS \<or> d = FLAG then
        bindM (transition k op_state.RESERVED [] [] False) (\<lambda>ok.
          if ok then ret d
          else bindM (if ext then ret False else transition k op_state.FAILED [] [] False) (\<lambda>_.
            bindM (audit ''composed'' HARD_VETO k) (\<lambda>_. ret HARD_VETO)))
      else if d = HARD_VETO then
        bindM (if ext then ret False else transition k op_state.FAILED [] [] False) (\<lambda>_. ret d)
      else
        bindM (reg_call (\<lambda>g. enter_hold g k fzero [] now)) (\<lambda>e.
        bindM (if fst e then ret () else audit ''hold_lifecycle'' decision.HOLD k) (\<lambda>_. ret d)))"

definition adjudicate :: "('b, 'a) config \<Rightarrow> request \<Rightarrow> (('b, 'a) gov, admission) prog" where
  "adjudicate cf q =
     (let k = idem_key (rq_passage q) in
      case check_request (cf_gate cf) q of
        None \<Rightarrow> bindM (audit ''composed'' HARD_VETO k) (\<lambda>_. ret Rejected)
      | Some r0 \<Rightarrow>
        bindM (reg_call (\<lambda>g. register g r0)) (\<lambda>fresh.
          if \<not> fresh then
            bindM (reg_get k) (\<lambda>r. case r of None \<Rightarrow> raise | Some r \<Rightarrow> ret (Duplicate (op_state r)))
          else
            bindM (evaluate cf True q k (rq_resource q) (op_amount r0)) (\<lambda>dm.
            bindM (admit_external cf k (rq_resource q) (op_amount r0) (fst dm)) (\<lambda>de.
            bindM (admit_final cf k (rq_resource q) (op_amount r0) (fst de)) (\<lambda>d1.
            bindM (admit_transition k (rq_now q) (snd de) d1) (\<lambda>d2.
            bindM (if snd de \<and> d2 = HARD_VETO then fail cf k None (Some fzero) False else ret True) (\<lambda>_.
            bindM (state_of k) (\<lambda>st.
            ret (Admission d2 st)))))))))"

subsection \<open>Resuming and recovering\<close>

datatype resume_action =
    NotFound | ReconcileBudget | ReAdjudicate | ResolveOrEscalate bool pyfloat | AwaitQuarantineRelease
  | Reconcile | ReconcileAuthorization | ReturnAuthorizationResult | AuthorizeCommit
  | ReconcileConsumption | Dispatch | ReturnResult | HumanReview | AwaitAuthorizedExit

text \<open>The branch of a \<open>RESERVED\<close> operation once its reservation is known to be open.\<close>

definition resume_gate :: "operation \<Rightarrow> resume_action result" where
  "resume_gate r =
     (if \<not> commit_gate_required r then Inr Dispatch
      else if commit_authorization_status r = ''TRUST_UNKNOWN'' then Inr ReconcileAuthorization
      else if commit_authorization_status r = ''HOLD'' then Inr ReturnAuthorizationResult
      else if commit_authorization_receipt r = JNull then Inr AuthorizeCommit
      else if commit_consumption_status r = ''TRUST_UNKNOWN'' then Inr ReconcileConsumption
      else if commit_consumption_status r = ''HOLD'' then Inr ReturnAuthorizationResult
      else bindE (jget (commit_authorization_receipt r) ''body'' (JObj [])) (\<lambda>body.
        bindE (jget body ''decision'' JNull) (\<lambda>d.
        Inr (if d \<noteq> JStr ''AUTHORIZED'' then ReturnAuthorizationResult else Dispatch))))"

definition resume_reserved :: "('b, 'a) config \<Rightarrow> operation \<Rightarrow> (('b, 'a) gov, resume_action) prog" where
  "resume_reserved cf r =
     bindM quarantine_blocks (\<lambda>blocked.
       if blocked then ret AwaitQuarantineRelease
       else
         bindM
           (case cf_backend cf of
              None \<Rightarrow> ret True
            | Some be \<Rightarrow>
              if \<not> budgeted r then ret True
              else if reservation_id r = [] then ret False
              else bindM (attempt (find_item be (op_resource r) (\<lambda>i. it_id i = reservation_id r))) (\<lambda>i.
                ret (case i of Some (Some i) \<Rightarrow> it_state i = RESERVED | _ \<Rightarrow> False))) (\<lambda>ok.
           if \<not> ok then ret Reconcile
           else case resume_gate r of Inl e \<Rightarrow> raise | Inr a \<Rightarrow> ret a))"

definition resume_existing ::
  "('b, 'a) config \<Rightarrow> string \<Rightarrow> pyfloat \<Rightarrow> (('b, 'a) gov, resume_action) prog" where
  "resume_existing cf k now =
     bindM (reg_get k) (\<lambda>r.
       case r of
         None \<Rightarrow> ret NotFound
       | Some r \<Rightarrow>
         (case op_state r of
            op_state.CREATED \<Rightarrow> ret (if cf_backend cf \<noteq> None \<and> budgeted r then ReconcileBudget else ReAdjudicate)
          | op_state.HOLD \<Rightarrow>
              bindM (reg_call (\<lambda>g. check_tau_k_expiry g k None now)) (\<lambda>t.
                case t of (expired, _, left) \<Rightarrow> ret (ResolveOrEscalate expired left))
          | op_state.RESERVED \<Rightarrow> resume_reserved cf r
          | op_state.DISPATCHING \<Rightarrow> ret Reconcile
          | op_state.CONFIRMED \<Rightarrow> ret ReturnResult
          | op_state.FAILED \<Rightarrow> ret ReturnResult
          | op_state.UNKNOWN \<Rightarrow> ret HumanReview
          | op_state.ESCALATED \<Rightarrow> ret AwaitAuthorizedExit))"

definition recommendation :: "bool \<Rightarrow> op_state \<Rightarrow> resume_action option" where
  "recommendation provider s =
     (case s of
        op_state.CREATED \<Rightarrow> Some ReconcileBudget
      | op_state.DISPATCHING \<Rightarrow> Some Reconcile
      | op_state.UNKNOWN \<Rightarrow> Some (if provider then Reconcile else HumanReview)
      | op_state.HOLD \<Rightarrow> Some (ResolveOrEscalate False fzero)
      | op_state.ESCALATED \<Rightarrow> Some AwaitAuthorizedExit
      | _ \<Rightarrow> None)"

text \<open>The recommendation for a hold carries no expiry, so the argument of the constructor is the default.\<close>

definition recover :: "('b, 'a) config \<Rightarrow> (('b, 'a) gov, (string \<times> op_state \<times> resume_action option) list) prog" where
  "recover cf s =
     (let (un, g1) = find_unresolved (g_reg s);
          (hs, g2) = find_by_state g1 op_state.HOLD;
          (es, g3) = find_by_state g2 op_state.ESCALATED;
          (cs, g4) = find_by_state g3 op_state.CREATED;
          rs = un @ hs @ es @ (if cf_backend cf = None then [] else filter budgeted cs)
      in (Ret (map (\<lambda>r. (idempotency_key r, op_state r, recommendation (cf_provider cf) (op_state r))) rs),
          s\<lparr>g_reg := (if cf_backend cf = None then g3 else g4)\<rparr>))"

end
