(* ===== verification/Governor_Hold.thy ===== *)
theory Governor_Hold
  imports Governor_Admission
begin

section \<open>The governor: held operations\<close>

text \<open>
  \<open>resolve_hold\<close>, \<open>escalate_hold\<close>, \<open>authorize_exit\<close>, \<open>expire_hold\<close> and \<open>expire_escalated\<close> of
  \<open>DualKernelGovernor\<close>: the operations of \<open>HoldManager\<close> under the operation's settlement lock,
  with the reservation of the held operation. An answer is whether the operation did what it is
  called for, and the state it reports.
\<close>

type_synonym hold_answer = "bool \<times> op_state option"

text \<open>The lock, and the answer when anything under it raises.\<close>

definition under_hold_lock ::
  "('b, 'a) config \<Rightarrow> string \<Rightarrow> (('b, 'a) gov, hold_answer) prog \<Rightarrow> (('b, 'a) gov, hold_answer) prog" where
  "under_hold_lock cf k m =
     tryM (bindM persistent (\<lambda>dur. with_settlement (cf_backend cf \<noteq> None \<and> dur) m))
       (bindM (state_of k) (\<lambda>st. ret (False, st)))"

definition hold_change :: "string \<Rightarrow> (string \<times> hold_value) list" where
  "hold_change why = [(''exit_reason'', HStr why)]"

subsection \<open>Releasing what a held operation owns\<close>

text \<open>\<open>_release_hold_budget_before_terminal_transition\<close>: whether nothing is left to release.\<close>

definition release_hold_budget :: "('b, 'a) config \<Rightarrow> string \<Rightarrow> operation \<Rightarrow> (('b, 'a) gov, bool) prog" where
  "release_hold_budget cf k r =
     (if budget_committed r then ret False
      else if \<not> budget_reserved r then ret True
      else if op_resource r = [] \<or> \<not> ffinite (op_amount r) \<or> fle (op_amount r) fzero then ret False
      else case cf_backend cf of
        Some be \<Rightarrow>
          bindM persistent (\<lambda>dur.
            if \<not> dur \<or> reservation_id r = [] then ret False
            else bindM (attempt (be_call (cb_release be (reservation_id r)))) (\<lambda>a.
              if a \<noteq> Some (Some (St RELEASED)) \<and> a \<noteq> Some (Some ALREADY_RELEASED) then ret False
              else try_flags k (flags_of False False (reservation_id r))))
      | None \<Rightarrow>
          bindM (pool (op_resource r)) (\<lambda>p.
            case p of
              None \<Rightarrow> ret False
            | Some rs \<Rightarrow>
              bindM (set_pool (op_resource r) (rs_release rs (op_amount r))) (\<lambda>_.
              try_flags k (pool_flags False False))))"

subsection \<open>Re-adjudication\<close>

text \<open>The transition out of a hold, and whether it resolved the hold.\<close>

definition resolve_to :: "string \<Rightarrow> op_state \<Rightarrow> string \<Rightarrow> (('b, 'a) gov, bool) prog" where
  "resolve_to k new why = transition k new [] (hold_change why) False"

text \<open>A veto: the owned reservation is released first with a backend, last with the in-memory budget.\<close>

definition veto_held_pool :: "string \<Rightarrow> string \<Rightarrow> pyfloat \<Rightarrow> (('b, 'a) gov, bool) prog" where
  "veto_held_pool k res amt =
     bindM (pool res) (\<lambda>p.
       case p of
         None \<Rightarrow> ret False
       | Some rs \<Rightarrow>
         if flt (rs_reserved rs) amt then ret False
         else bindM (resolve_to k op_state.FAILED ''resolved_veto'') (\<lambda>ok.
           if \<not> ok then ret False
           else bindM (set_pool res (rs_release rs amt)) (\<lambda>_.
             tryM (bindM (set_flags k (pool_flags False False)) (\<lambda>_. ret True)) (ret False))))"

definition veto_held :: "('b, 'a) config \<Rightarrow> string \<Rightarrow> string option \<Rightarrow> pyfloat \<Rightarrow> (('b, 'a) gov, bool) prog" where
  "veto_held cf k res amt =
     bindM (reg_get k) (\<lambda>r.
       let owns = (case r of None \<Rightarrow> False | Some r \<Rightarrow> budget_reserved r);
           rid = (case r of None \<Rightarrow> [] | Some r \<Rightarrow> reservation_id r) in
       case res of
         None \<Rightarrow> resolve_to k op_state.FAILED ''resolved_veto''
       | Some j \<Rightarrow>
         if j = [] \<or> \<not> flt fzero amt \<or> \<not> owns then resolve_to k op_state.FAILED ''resolved_veto''
         else case cf_backend cf of
           None \<Rightarrow> veto_held_pool k j amt
         | Some be \<Rightarrow>
           if rid = [] then ret False
           else bindM (attempt (be_call (cb_release be rid))) (\<lambda>a.
             if a \<noteq> Some (Some (St RELEASED)) \<and> a \<noteq> Some (Some ALREADY_RELEASED) then ret False
             else bindM (try_flags k (flags_of False False rid)) (\<lambda>ok.
               if ok then resolve_to k op_state.FAILED ''resolved_veto'' else ret False)))"

text \<open>\<open>_re_adjudicate_hold\<close>\<close>

definition re_adjudicate_hold ::
  "('b, 'a) config \<Rightarrow> request \<Rightarrow> string option \<Rightarrow> pyfloat \<Rightarrow> (('b, 'a) gov, hold_answer) prog" where
  "re_adjudicate_hold cf q res amt =
     (let k = ps_key (rq_passage q) in
      bindM (evaluate cf False q k res amt) (\<lambda>dm.
      bindM
        (if (case snd dm of None \<Rightarrow> False | Some m \<Rightarrow> (''I6'', HARD_VETO) \<in> set (snd m)) then ret True
         else quarantine_blocks) (\<lambda>locked.
      bindM (if locked then audit ''composed'' decision.HOLD k else ret ()) (\<lambda>_.
      bindM
        (if locked then ret False
         else if fst dm = PASS \<or> fst dm = FLAG then
           bindM quarantine_blocks (\<lambda>blocked.
             if blocked then bindM (audit ''composed'' decision.HOLD k) (\<lambda>_. ret False)
             else resolve_to k op_state.RESERVED ''resolved'')
         else if fst dm = HARD_VETO then veto_held cf k res amt
         else ret False) (\<lambda>ok.
      bindM (state_of k) (\<lambda>st. ret (ok, st)))))))"

text \<open>
  \<open>resolve_hold\<close>. First what the caller supplied against the record, outside the lock; then
  the identity and the payload against the current record, under it.
\<close>

definition held_request :: "operation \<Rightarrow> request \<Rightarrow> bool" where
  "held_request r q \<longleftrightarrow>
     (rq_resource q = None \<or> rq_resource q = recorded_resource r) \<and>
     (case rq_amount q of
        None \<Rightarrow> False
      | Some a \<Rightarrow> ffinite (effective_amount a r) \<and> feq (effective_amount a r) (op_amount r))"

definition held_identity :: "string \<Rightarrow> operation \<Rightarrow> request \<Rightarrow> bool" where
  "held_identity k r q \<longleftrightarrow>
     ps_key (rq_passage q) = k \<and> ps_id (rq_passage q) = passage_id r \<and>
     ps_agent (rq_passage q) = agent_id r \<and> ps_action (rq_passage q) = action_type r \<and>
     rq_hash q = Some (payload_hash r)"

definition resolve_locked ::
  "('b, 'a) config \<Rightarrow> string \<Rightarrow> request \<Rightarrow> string option \<Rightarrow> pyfloat \<Rightarrow> (('b, 'a) gov, hold_answer) prog" where
  "resolve_locked cf k q res amt =
     bindM (reg_get k) (\<lambda>c.
       case c of
         None \<Rightarrow> ret (False, None)
       | Some c \<Rightarrow>
         (let no = ret (False, Some (op_state c)) in
          if op_state c \<noteq> op_state.HOLD then no
          else bindM persistent (\<lambda>dur.
            if cf_backend cf \<noteq> None \<and> \<not> dur \<and> (budget_reserved c \<or> budget_committed c) then no
            else if \<not> held_identity k c q then bindM (audit ''hold_resolution'' decision.HOLD k) (\<lambda>_. no)
            else bindM quarantine_blocks (\<lambda>blocked.
              if blocked then no else re_adjudicate_hold cf q res amt))))"

definition gov_resolve_hold ::
  "('b, 'a) config \<Rightarrow> string \<Rightarrow> bool \<Rightarrow> request \<Rightarrow> (('b, 'a) gov, hold_answer) prog" where
  "gov_resolve_hold cf k with_passage q =
     bindM (reg_get k) (\<lambda>r.
       case r of
         None \<Rightarrow> ret (False, None)
       | Some r \<Rightarrow>
         if op_state r \<noteq> op_state.HOLD \<or> \<not> held_request r q then ret (False, Some (op_state r))
         else if \<not> with_passage then
           bindM (audit ''hold_resolution'' decision.HOLD k) (\<lambda>_. ret (False, Some (op_state r)))
         else under_hold_lock cf k
           (resolve_locked cf k q
             (case rq_resource q of None \<Rightarrow> recorded_resource r | Some j \<Rightarrow> Some j)
             (case rq_amount q of None \<Rightarrow> fzero | Some a \<Rightarrow> effective_amount a r)))"

subsection \<open>Escalation, exit and expiry\<close>

definition gov_escalate_hold ::
  "('b, 'a) config \<Rightarrow> string \<Rightarrow> string \<Rightarrow> string \<Rightarrow> (('b, 'a) gov, hold_answer) prog" where
  "gov_escalate_hold cf k who now = under_hold_lock cf k (reg_call (\<lambda>g. escalate_hold g k who now))"

definition exit_call :: "string \<Rightarrow> exit_receipt \<Rightarrow> bool \<Rightarrow> (('b, 'a) gov, hold_answer) prog" where
  "exit_call k receipt approve =
     bindM (reg_call (\<lambda>g. authorize_exit g k receipt approve)) (\<lambda>a. ret (fst a, fst (snd a)))"

definition gov_authorize_exit ::
  "('b, 'a) config \<Rightarrow> string \<Rightarrow> exit_receipt \<Rightarrow> bool \<Rightarrow> (('b, 'a) gov, hold_answer) prog" where
  "gov_authorize_exit cf k receipt approve =
     under_hold_lock cf k
       (bindM (reg_get k) (\<lambda>r.
         case r of
           None \<Rightarrow> exit_call k receipt approve
         | Some r \<Rightarrow>
           if op_state r \<noteq> op_state.ESCALATED then exit_call k receipt approve
           else bindM persistent (\<lambda>dur.
             if cf_backend cf \<noteq> None \<and> \<not> dur \<and> (budget_reserved r \<or> budget_committed r)
             then ret (False, Some (op_state r))
             else bindM (if approve then ret True else release_hold_budget cf k r) (\<lambda>ok.
               if ok then exit_call k receipt approve else ret (False, Some (op_state r))))))"

definition gov_expire_hold ::
  "('b, 'a) config \<Rightarrow> string \<Rightarrow> pyfloat \<Rightarrow> (('b, 'a) gov, hold_answer) prog" where
  "gov_expire_hold cf k now =
     under_hold_lock cf k
       (bindM (reg_get k) (\<lambda>r.
         case r of
           None \<Rightarrow> ret (False, None)
         | Some r \<Rightarrow>
           bindM (reg_call (\<lambda>g. check_tau_k_expiry g k None now)) (\<lambda>t.
             if \<not> fst t then ret (False, Some (op_state r))
             else bindM (release_hold_budget cf k r) (\<lambda>ok.
               if ok then reg_call (\<lambda>g. expire_hold g k now) else ret (False, Some (op_state r))))))"

definition gov_expire_escalated ::
  "('b, 'a) config \<Rightarrow> string \<Rightarrow> (('b, 'a) gov, hold_answer) prog" where
  "gov_expire_escalated cf k = under_hold_lock cf k (reg_call (\<lambda>g. expire_escalated g k))"

end
