(* ===== verification/Governor_Logic.thy ===== *)
theory Governor_Logic
  imports Governor_Hold Registry_Guarantees
begin

section \<open>Reasoning about governor programs\<close>

text \<open>
  Two ways to reason about a program over the governor's world. \<open>wp\<close> is its weakest
  precondition, with one postcondition for a returned value and one for every other end: an
  exception nobody handled, or a stopped process. \<open>tame\<close> is the frame every method but the
  provider call has: records only move forward, and the provider receives nothing.
\<close>

named_theorems tame_intros \<open>programs that only move records forward\<close>

named_theorems moving \<open>registry operations that only move records forward\<close>

subsection \<open>Weakest preconditions\<close>

definition wp :: "('s, 'r) prog \<Rightarrow> ('r \<Rightarrow> 's \<Rightarrow> bool) \<Rightarrow> ('s \<Rightarrow> bool) \<Rightarrow> 's \<Rightarrow> bool" where
  "wp m Q E s = (case m s of (Ret x, s') \<Rightarrow> Q x s' | (_, s') \<Rightarrow> E s')"

lemma wp_ret [simp]: "wp (ret x) Q E = Q x"
  by (simp add: fun_eq_iff wp_def ret_def)

lemma wp_raise [simp]: "wp raise Q E = E"
  by (simp add: fun_eq_iff wp_def raise_def)

lemma wp_bind [simp]: "wp (bindM m f) Q E = wp m (\<lambda>x. wp (f x) Q E) E"
  by (simp add: fun_eq_iff wp_def bindM_def split: prod.split outcome.split)

lemma wp_read [simp]: "wp (readM f) Q E = (\<lambda>s. Q (f s) s)"
  by (simp add: fun_eq_iff wp_def readM_def)

lemma wp_mod [simp]: "wp (modM f) Q E = (\<lambda>s. Q () (f s))"
  by (simp add: fun_eq_iff wp_def modM_def)

lemma wp_cons: "wp m Q' E' s \<Longrightarrow> (\<And>x s'. Q' x s' \<Longrightarrow> Q x s') \<Longrightarrow> (\<And>s'. E' s' \<Longrightarrow> E s') \<Longrightarrow> wp m Q E s"
  by (auto simp: wp_def split: prod.splits outcome.splits)

lemma wp_try: "wp m Q (\<lambda>s. E s \<and> wp h Q E s) s \<Longrightarrow> wp (tryM m h) Q E s"
  by (auto simp: wp_def tryM_def split: prod.splits outcome.splits)

lemma wp_attempt:
  "wp m (\<lambda>x. Q (Some x)) (\<lambda>s. E s \<and> Q None s) s \<Longrightarrow> wp (attempt m) Q E s"
  by (auto simp: attempt_def intro!: wp_try)

lemma wp_finally: "wp m (\<lambda>x s. Q x (f s)) (\<lambda>s. E s \<and> E (f s)) s \<Longrightarrow> wp (finallyM m f) Q E s"
  by (auto simp: wp_def finallyM_def split: prod.splits outcome.splits)

lemma wp_result: "wp m Q E s \<Longrightarrow> m s = (Ret x, s') \<Longrightarrow> Q x s'"
  by (simp add: wp_def)

lemma wp_end: "wp m (\<lambda>_. E) E s \<Longrightarrow> E (snd (m s))"
  by (auto simp: wp_def split: prod.splits outcome.splits)

lemma bind_Ret: "bindM m f s = (Ret y, s') \<longleftrightarrow> (\<exists>x t. m s = (Ret x, t) \<and> f x t = (Ret y, s'))"
  by (auto simp: bindM_def split: prod.split outcome.split)

lemma ret_Ret: "ret x s = (Ret y, s') \<longleftrightarrow> y = x \<and> s' = s"
  by (auto simp: ret_def)

text \<open>A call: what holds before survives the foreign moves, then the call or a fault happens.\<close>

definition undisturbed :: "(('b, 'a) gov \<Rightarrow> bool) \<Rightarrow> bool" where
  "undisturbed P \<longleftrightarrow>
     (\<forall>s fs. P s \<longrightarrow> P (s\<lparr>g_faults := fs\<rparr>)) \<and>
     (\<forall>s w k. P s \<longrightarrow> P (foreign w k op_state.DISPATCHING s)) \<and>
     (\<forall>s k. P s \<longrightarrow> P (foreign [] k op_state.UNKNOWN s))"

lemma wp_call:
  assumes st: "undisturbed P" and ex: "\<And>s. P s \<Longrightarrow> E s"
    and ret: "\<And>s x s'. P s \<Longrightarrow> f s = (Inr x, s') \<Longrightarrow> Q x s' \<and> E s'"
    and exn: "\<And>s e s'. P s \<Longrightarrow> f s = (Inl e, s') \<Longrightarrow> E s'"
    and P: "P s"
  shows "wp (call f) Q E s"
proof -
  have run: "wp (\<lambda>_. lift_result (f s)) Q E s'" if "P s" for s s'
    using ret [OF that] exn [OF that]
    by (auto simp: wp_def lift_result_def split: prod.splits sum.splits)
  have aft: "E (snd (f s))" if "P s" for s
    using ret [OF that] exn [OF that] by (metis prod.collapse sum.exhaust)
  have "P s \<Longrightarrow> wp (\<lambda>_. call_with fs f s) Q E s'" for fs s s'
  proof (induction fs arbitrary: s)
    case Nil
    with run [of "s\<lparr>g_faults := []\<rparr>" s'] st show ?case by (simp add: undisturbed_def)
  next
    case (Cons x xs)
    from st Cons.prems have p: "P (s\<lparr>g_faults := xs\<rparr>)"
      "P (foreign w k op_state.DISPATCHING s)" "P (foreign [] k op_state.UNKNOWN s)" for w k
      by (simp_all add: undisturbed_def)
    show ?case
      using run [OF p(1), of s'] aft [OF p(1)] ex [OF p(1)] Cons.IH [OF p(2)] Cons.IH [OF p(3)]
      by (cases x) (simp_all add: wp_def)
  qed
  from this [OF P, of "g_faults s" s] show ?thesis by (simp add: wp_def call_def)
qed

subsection \<open>The frame\<close>

definition tame :: "(('b, 'a) gov, 'r) prog \<Rightarrow> bool" where
  "tame m \<longleftrightarrow>
     (\<forall>s. reg_ok (g_reg s) \<longrightarrow>
        moves (g_reg s) (g_reg (snd (m s))) \<and> g_executed (snd (m s)) = g_executed s)"

lemma moves_refl: "reg_ok g \<Longrightarrow> moves g g"
  by (simp add: moves_def)

lemma moves_trans: "moves a b \<Longrightarrow> moves b c \<Longrightarrow> moves a c"
  by (auto simp: moves_def intro: records_le_trans)

lemma tameD:
  "tame m \<Longrightarrow> reg_ok (g_reg s) \<Longrightarrow> m s = (r, s') \<Longrightarrow>
     moves (g_reg s) (g_reg s') \<and> g_executed s' = g_executed s"
  by (auto simp: tame_def dest: spec [of _ s])

lemma tameI:
  "(\<And>s r s'. reg_ok (g_reg s) \<Longrightarrow> m s = (r, s') \<Longrightarrow>
      moves (g_reg s) (g_reg s') \<and> g_executed s' = g_executed s) \<Longrightarrow> tame m"
  by (auto simp: tame_def) (metis prod.collapse)+

lemma tame_ret [tame_intros]: "tame (ret x)"
  by (simp add: tame_def ret_def moves_refl)

lemma tame_raise [tame_intros]: "tame raise"
  by (simp add: tame_def raise_def moves_refl)

lemma tame_read [tame_intros]: "tame (readM f)"
  by (simp add: tame_def readM_def moves_refl)

lemma tame_mod:
  "(\<And>s. g_reg (f s) = g_reg s \<and> g_executed (f s) = g_executed s) \<Longrightarrow> tame (modM f)"
  by (simp add: tame_def modM_def moves_refl)

lemma tame_bind [tame_intros]:
  assumes "tame m" and "\<And>x. tame (f x)"
  shows "tame (bindM m f)"
proof (rule tameI)
  fix s r s'
  assume ok: "reg_ok (g_reg s)" and run: "bindM m f s = (r, s')"
  obtain r1 s1 where m: "m s = (r1, s1)" by fastforce
  note t = tameD [OF assms(1) ok m]
  then have ok1: "reg_ok (g_reg s1)" by (simp add: moves_def)
  show "moves (g_reg s) (g_reg s') \<and> g_executed s' = g_executed s"
    using run m t tameD [OF assms(2) ok1]
    by (cases r1) (auto simp: bindM_def intro: moves_trans)
qed

lemma tame_try [tame_intros]:
  assumes "tame m" and "tame h"
  shows "tame (tryM m h)"
proof (rule tameI)
  fix s r s'
  assume ok: "reg_ok (g_reg s)" and run: "tryM m h s = (r, s')"
  obtain r1 s1 where m: "m s = (r1, s1)" by fastforce
  note t = tameD [OF assms(1) ok m]
  then have ok1: "reg_ok (g_reg s1)" by (simp add: moves_def)
  show "moves (g_reg s) (g_reg s') \<and> g_executed s' = g_executed s"
    using run m t tameD [OF assms(2) ok1]
    by (cases r1) (auto simp: tryM_def intro: moves_trans)
qed

lemma tame_attempt [tame_intros]: "tame m \<Longrightarrow> tame (attempt m)"
  unfolding attempt_def by (intro tame_intros)

lemma tame_finally:
  assumes "tame m" and "\<And>s. g_reg (f s) = g_reg s \<and> g_executed (f s) = g_executed s"
  shows "tame (finallyM m f)"
proof (rule tameI)
  fix s r s'
  assume ok: "reg_ok (g_reg s)" and run: "finallyM m f s = (r, s')"
  obtain r1 s1 where m: "m s = (r1, s1)" by fastforce
  show "moves (g_reg s) (g_reg s') \<and> g_executed s' = g_executed s"
    using run m tameD [OF assms(1) ok m] assms(2) by (cases r1) (auto simp: finallyM_def)
qed

lemma foreign_moves:
  "reg_ok (g_reg s) \<Longrightarrow>
     moves (g_reg s) (g_reg (foreign w k new s)) \<and> g_executed (foreign w k new s) = g_executed s"
  using transition_moves [OF _ surjective_pairing] by (simp add: foreign_def)

lemma tame_call:
  assumes "\<And>s. reg_ok (g_reg s) \<Longrightarrow>
    moves (g_reg s) (g_reg (snd (f s))) \<and> g_executed (snd (f s)) = g_executed s"
  shows "tame (call f)"
proof -
  have "reg_ok (g_reg s) \<Longrightarrow> moves (g_reg s) (g_reg (snd (call_with fs f s))) \<and>
      g_executed (snd (call_with fs f s)) = g_executed s" for fs s
  proof (induction fs arbitrary: s)
    case Nil
    then show ?case using assms [of "s\<lparr>g_faults := []\<rparr>"]
      by (auto simp: lift_result_def split: prod.splits sum.splits)
  next
    case (Cons x xs)
    show ?case
    proof (cases x)
      case (Claim w k)
      with foreign_moves [OF Cons.prems, of w k op_state.DISPATCHING] Cons.IH show ?thesis
        by (auto simp: moves_def intro: records_le_trans)
    next
      case (Lose k)
      with foreign_moves [OF Cons.prems, of "[]" k op_state.UNKNOWN] Cons.IH show ?thesis
        by (auto simp: moves_def intro: records_le_trans)
    qed (use assms [of "s\<lparr>g_faults := xs\<rparr>"] Cons.prems in
        \<open>auto simp: lift_result_def moves_refl split: prod.splits sum.splits\<close>)
  qed
  then show ?thesis by (simp add: tame_def call_def)
qed

lemma tame_nop [tame_intros]: "tame (call (\<lambda>s. (Inr (h s), s)))"
  by (rule tame_call) (simp add: moves_refl)

lemma tame_be [tame_intros]: "tame (be_call f)"
  unfolding be_call_def by (rule tame_call) (simp add: moves_refl split: prod.split)

lemma tame_au [tame_intros]: "tame (au_call f)"
  unfolding au_call_def by (rule tame_call) (simp add: moves_refl split: prod.split)

lemma tame_reg:
  assumes "\<And>g. reg_ok g \<Longrightarrow> moves g (snd (f g))"
  shows "tame (reg_call f)"
proof -
  have "moves g g'" if "reg_ok g" "f g = (x, g')" for g x g' using assms [of g] that by simp
  then show ?thesis unfolding reg_call_def by (intro tame_call) (auto split: prod.split)
qed


lemma register_moves [moving]: "reg_ok g \<Longrightarrow> moves g (snd (register g r))"
  using reg_step_moves [of g "Registry.OpRegister r"] by simp

lemma transition_moves' [moving]: "reg_ok g \<Longrightarrow> moves g (snd (transition_to g k new cb hr cs v))"
  using reg_step_moves [of g "OpTransition k new cb hr cs v"] by simp

lemma flags_moves [moving]: "reg_ok g \<Longrightarrow> moves g (snd (set_budget_flags g k fs))"
  using reg_step_moves [of g "OpFlags k fs"] by simp

lemma gate_moves [moving]:
  assumes "reg_ok g"
  shows "moves g (snd (record_authorization_request g k j))"
    and "moves g (snd (record_authorization_receipt g k j))"
    and "moves g (snd (ensure_commit_dispatch_claim g k c))"
    and "moves g (snd (record_consumption_receipt g k j))"
    and "moves g (snd (record_commit_gate_status g k ph st rs sec))"
  using reg_step_moves [OF assms, of "OpAuthorizationRequest k j"]
    reg_step_moves [OF assms, of "OpAuthorizationReceipt k j"] reg_step_moves [OF assms, of "OpClaim k c"]
    reg_step_moves [OF assms, of "OpConsumption k j"] reg_step_moves [OF assms, of "OpGateStatus k ph st rs sec"]
  by simp_all

lemma get_moves: "reg_ok g \<Longrightarrow> get_op g k = (r, g') \<Longrightarrow> moves g g'"
  using reg_step_moves [of g OpReload] by (auto simp: get_op_def Let_def)

lemma quarantine_moves: "reg_ok g \<Longrightarrow> quarantine_is_active g = (b, g') \<Longrightarrow> moves g g'"
  by (auto simp: quarantine_is_active_def intro: same_store_moves same_store_read split: prod.splits)

text \<open>A hold operation is a sequence of reads and transitions.\<close>

lemma moves_get:
  assumes "\<And>r g1. reg_ok g1 \<Longrightarrow> moves g1 (snd (F r g1))" and "reg_ok g"
  shows "moves g (snd (let (r, g1) = get_op g k in F r g1))"
proof -
  obtain r g1 where r: "get_op g k = (r, g1)" by fastforce
  have m: "moves g g1" by (rule get_moves [OF assms(2) r])
  then have "moves g1 (snd (F r g1))" by (intro assms(1)) (simp add: moves_def)
  with m r show ?thesis by (auto intro: moves_trans)
qed

lemma moves_case:
  assumes "moves g (snd R)" and "\<And>e g1. reg_ok g1 \<Longrightarrow> moves g1 (snd (A e g1))"
    and "\<And>a g1. reg_ok g1 \<Longrightarrow> moves g1 (snd (B a g1))"
  shows "moves g (snd (case R of (Inl e, g1) \<Rightarrow> A e g1 | (Inr a, g1) \<Rightarrow> B a g1))"
proof -
  obtain x g1 where R: "R = (x, g1)" by fastforce
  with assms(1) have m: "moves g g1" and ok: "reg_ok g1" by (simp_all add: moves_def)
  show ?thesis
    using R assms(2,3) [OF ok] by (cases x) (auto intro: moves_trans [OF m])
qed

lemma hold_transition_moves: "reg_ok g \<Longrightarrow> moves g (snd (hold_transition g k new cs))"
  unfolding hold_transition_def
  by (intro moves_case moving) (auto simp: moves_refl split: prod.split intro: get_moves)

lemma quarantine_gate_moves:
  assumes "reg_ok g" and "\<And>b g1. reg_ok g1 \<Longrightarrow> moves g1 (snd (F b g1))"
  shows "moves g (snd (let (b, g1) = (if c then quarantine_is_active g else (False, g)) in F b g1))"
proof (cases c)
  case True
  obtain b g1 where b: "quarantine_is_active g = (b, g1)" by fastforce
  have m: "moves g g1" by (rule quarantine_moves [OF assms(1) b])
  then have "moves g1 (snd (F b g1))" by (intro assms(2)) (simp add: moves_def)
  with True b m show ?thesis by (auto intro: moves_trans)
qed (use assms in simp)

lemma check_moves [moving]:
  assumes "reg_ok g"
  shows "moves g (snd (check_tau_k_expiry g k ep now))"
  unfolding check_tau_k_expiry_def
  by (rule moves_get [OF _ assms]) (auto simp: moves_refl Let_def split: option.split)

lemma hold_moves' [moving]:
  assumes "reg_ok g"
  shows "moves g (snd (enter_hold g k tau src now))"
    and "moves g (snd (escalate_hold g k who t))"
    and "moves g (snd (authorize_exit g k rc a))"
    and "moves g (snd (expire_hold g k now))"
    and "moves g (snd (expire_escalated g k))"
proof -
  have e: "moves g2 (snd (case a of (True, _) \<Rightarrow> (x, g2) | (False, _) \<Rightarrow> (let (c, g3) = get_op g2 k in (F c, g3))))"
    if "reg_ok g2" for g2 x F and a :: "bool \<times> op_state option"
    using that by (auto simp: moves_refl split: prod.split bool.split intro: get_moves)
  have t: "moves g1 (snd (case transition_to g1 k op_state.HOLD [] (Some h) [] False of
      (Inl e, g2) \<Rightarrow> (Inl e, g2) | (Inr (True, _), g2) \<Rightarrow> (Inr (True, Some op_state.HOLD, Some h), g2)
    | (Inr (False, _), g2) \<Rightarrow> (let (c, g3) = get_op g2 k in (Inr (False, map_option op_state c, None), g3))))"
    if "reg_ok g1" for g1 h
    using moves_case [where B = "\<lambda>a g2. case a of (True, _) \<Rightarrow> (Inr (True, Some op_state.HOLD, Some h), g2)
        | (False, _) \<Rightarrow> (let (c, g3) = get_op g2 k in (Inr (False, map_option op_state c, None), g3))",
        where A = "\<lambda>e g2. (Inl e, g2)", OF transition_moves' [OF that] _ e]
    by (simp add: moves_refl case_prod_beta cong: sum.case_cong)
  show "moves g (snd (enter_hold g k tau src now))"
    unfolding enter_hold_def
    by (rule moves_get [OF _ assms]) (auto simp: moves_refl Let_def t split: option.split)
  show "moves g (snd (escalate_hold g k who t))"
    unfolding escalate_hold_def
    by (rule moves_get [OF _ assms]) (auto simp: moves_refl hold_transition_moves split: option.split)
  show "moves g (snd (expire_escalated g k))"
    unfolding expire_escalated_def
    by (rule moves_get [OF _ assms]) (auto simp: moves_refl hold_transition_moves split: option.split)
  show "moves g (snd (expire_hold g k now))"
    unfolding expire_hold_def
    by (rule moves_get [OF _ assms])
      (auto simp: moves_refl split: option.split intro!: moves_case moving,
        auto simp: moves_refl hold_transition_moves split: prod.split)
  have x: "moves g2 (snd (case hold_transition g2 k new cs of
      (Inl e, g3) \<Rightarrow> (Inl e, g3)
    | (Inr (ok, s), g3) \<Rightarrow> (Inr (ok, s, if ok then Some rc else None), g3)))" if "reg_ok g2" for g2 new cs
    by (rule moves_case [OF hold_transition_moves [OF that]]) (simp_all add: moves_refl split: prod.split)
  show "moves g (snd (authorize_exit g k rc a))"
    unfolding authorize_exit_def
  proof (rule moves_get [OF _ assms], goal_cases)
    case (1 r g1)
    note gate = quarantine_gate_moves [OF 1, of "\<lambda>locked g2. if locked then (Inr (False, Some u, None), g2)
      else case hold_transition g2 k (if a then op_state.HOLD else op_state.FAILED)
            [(''exit_receipt'', HReceipt (Some rc)), (''exit_reason'', HStr ''authorized_exit'')] of
          (Inl e, g3) \<Rightarrow> (Inl e, g3) | (Inr (ok, s), g3) \<Rightarrow> (Inr (ok, s, if ok then Some rc else None), g3)"
      for u]
    show ?case
    proof (cases "\<exists>q. r = Some q \<and> op_state q = op_state.ESCALATED")
      case True
      then obtain q where q: "r = Some q" "op_state q = op_state.ESCALATED" by blast
      then have e: "(op_state q \<noteq> op_state.ESCALATED) = False" by simp
      show ?thesis unfolding q(1) option.case e if_False
        by (rule gate) (simp add: moves_refl x)
    qed (use 1 in \<open>auto simp: moves_refl split: option.split\<close>)
  qed
qed


subsection \<open>The governor's programs are tame\<close>

lemma tame_get [tame_intros]: "tame (reg_get k)"
  by (auto simp: tame_def reg_get_def split: prod.split intro: get_moves)

lemma tame_reg_call [tame_intros]:
  "tame (reg_call (\<lambda>g. transition_to g k new cb hr cs v))"
  "tame (reg_call (\<lambda>g. set_budget_flags g k fs))"
  "tame (reg_call (\<lambda>g. register g r))"
  "tame (reg_call (\<lambda>g. record_authorization_request g k j))"
  "tame (reg_call (\<lambda>g. record_authorization_receipt g k j))"
  "tame (reg_call (\<lambda>g. ensure_commit_dispatch_claim g k c))"
  "tame (reg_call (\<lambda>g. record_consumption_receipt g k j))"
  "tame (reg_call (\<lambda>g. record_commit_gate_status g k ph st rs sec))"
  "tame (reg_call (\<lambda>g. enter_hold g k tau src now))"
  "tame (reg_call (\<lambda>g. escalate_hold g k who t))"
  "tame (reg_call (\<lambda>g. authorize_exit g k rc a))"
  "tame (reg_call (\<lambda>g. check_tau_k_expiry g k ep now))"
  "tame (reg_call (\<lambda>g. expire_hold g k now))"
  "tame (reg_call (\<lambda>g. expire_escalated g k))"
  by (intro tame_reg moving; assumption)+

lemma tame_steps [tame_intros]:
  "tame (audit kern d k)" "tame (set_pool j rs)" "tame (mark_active_dispatch w k)"
  "tame (clear_active_dispatch w k)" "tame (modM (discard cf k))"
  unfolding audit_def set_pool_def mark_active_dispatch_def clear_active_dispatch_def
  by (rule tame_mod; simp add: discard_def)+

lemma tame_reads [tame_intros]: "tame persistent" "tame (pool j)" "tame (state_of k)"
  unfolding persistent_def pool_def state_of_def by (intro tame_intros)+

lemma tame_transition [tame_intros]: "tame (transition k new who cs v)"
  unfolding transition_def by (intro tame_intros)

lemma tame_flags [tame_intros]: "tame (set_flags k fs)" "tame (try_flags k fs)"
  unfolding try_flags_def set_flags_def by (intro tame_intros)+

lemma tame_settlement [tame_intros]: "tame m \<Longrightarrow> tame (with_settlement b m)"
  unfolding with_settlement_def by (auto intro!: tame_intros)

lemma tame_quarantine [tame_intros]: "tame quarantine_blocks"
proof (rule tameI)
  fix s r s' assume ok: "reg_ok (g_reg s)" and run: "quarantine_blocks s = (r, s')"
  obtain b g where q: "quarantine_is_active (g_reg s) = (b, g)" by fastforce
  note m = quarantine_moves [OF ok q]
  then have "reg_ok g" by (simp add: moves_def)
  obtain b' g' where q': "quarantine_is_active g = (b', g')" by fastforce
  show "moves (g_reg s) (g_reg s') \<and> g_executed s' = g_executed s"
    using run q q' m quarantine_moves [OF \<open>reg_ok g\<close> q']
    by (auto simp: quarantine_blocks_def Let_def split: if_splits intro: moves_trans)
qed

lemma tame_if [tame_intros]: "(b \<Longrightarrow> tame m) \<Longrightarrow> (\<not> b \<Longrightarrow> tame m') \<Longrightarrow> tame (if b then m else m')"
  by simp

lemma tame_option [tame_intros]:
  "tame m \<Longrightarrow> (\<And>x. tame (f x)) \<Longrightarrow> tame (case y of None \<Rightarrow> m | Some x \<Rightarrow> f x)"
  by (simp split: option.split)

lemma tame_sum [tame_intros]:
  "(\<And>x. tame (f x)) \<Longrightarrow> (\<And>x. tame (h x)) \<Longrightarrow> tame (case y of Inl x \<Rightarrow> f x | Inr x \<Rightarrow> h x)"
  by (simp split: sum.split)

lemma tame_pair [tame_intros]: "(\<And>x y. tame (f x y)) \<Longrightarrow> tame (case p of (x, y) \<Rightarrow> f x y)"
  by (simp split: prod.split)

lemma tame_find [tame_intros]: "tame (find_item be res P)"
  unfolding find_item_def by (intro tame_intros)

lemma tame_reserve [tame_intros]: "tame (reserve_backend be k res amt)" "tame (reserve_pool k res amt)"
  "tame (reserve_budget cf k ores amt)"
  unfolding reserve_budget_def reserve_backend_def reserve_pool_def
  by (auto intro!: tame_intros split: option.split status.split rstate.split)

lemma tame_confirm [tame_intros]: "tame (confirm_locked cf k)" "tame (confirm cf k)"
  unfolding confirm_def confirm_locked_def confirm_budget_def
  by (intro tame_intros)+

lemma tame_fail [tame_intros]: "tame (fail cf k res amt proven)"
  unfolding fail_def fail_locked_def fail_with_def repair_orphan_def compensate_backend_def fail_pool_def Let_def
  by (intro tame_intros)

lemma tame_gate_status [tame_intros]: "tame (gate_status k ph st why sec)"
  unfolding gate_status_def by (intro tame_intros)

lemma tame_authorize [tame_intros]: "tame (authorize_commit cf k q)"
  unfolding authorize_commit_def ask_authority_def Let_def by (intro tame_intros)

lemma tame_consume [tame_intros]: "tame (consume_authorization cf k)" "tame (valid_consumption au r)"
  unfolding consume_authorization_def ask_consumption_def valid_consumption_def Let_def
  by (intro tame_intros)+

lemma tame_dispatch [tame_intros]: "tame (dispatch_gate cf k pl)" "tame (dispatch_claim cf k res amt pl)"
  "tame (settle_claim cf be k)"
  unfolding dispatch_gate_def dispatch_claim_def dispatch_pool_def settle_claim_def complete_claimed_def Let_def
  by (intro tame_intros)+

lemma tame_dispatch_whole [tame_intros]: "tame (dispatch cf k res amt pl lv)"
  unfolding dispatch_def by (intro tame_intros) (auto intro!: tame_intros split: dispatch_answer.split option.split)

lemma tame_begin [tame_intros]: "tame (begin_execution cf k res amt pl)"
  unfolding begin_execution_def
  by (intro tame_intros) (auto intro!: tame_intros split: dispatch_answer.split)

lemma tame_settle_execution [tame_intros]: "tame (settle_execution cf k r result)"
proof -
  have f: "tame (finallyM m (discard cf k))" if "tame m" for m
    by (rule tame_finally [OF that]) (simp add: discard_def)
  show ?thesis
    unfolding settle_execution_def
    by (auto intro!: tame_intros f split: option.split provider_outcome.split)
qed

lemma tame_reconcile [tame_intros]: "tame (begin_reconcile cf k)" "tame (settle_reconcile cf k r rc)"
  "tame (reconcile_raised k)"
  unfolding begin_reconcile_def settle_reconcile_def reconcile_raised_def reconcile_confirmed_def
    reconcile_confirmed_budget_def reconcile_failed_def reconcile_failed_backend_def reconcile_failed_pool_def
    recover_reservation_def finish_failed_def Let_def
  by (intro tame_intros)+

lemma tame_evaluate [tame_intros]: "tame (evaluate cf own q k res amt)"
proof -
  have m: "tame (call (\<lambda>s. let (b, g) = quarantine_is_active (g_reg s) in (Inr (F s b), s\<lparr>g_reg := g\<rparr>)))" for F
    by (rule tame_call) (auto split: prod.split intro: quarantine_moves)
  show ?thesis
    unfolding evaluate_def run_membrane_def utilization_def prospective_utilization_def Let_def
    by (intro tame_intros m [unfolded Let_def])
qed

lemma tame_adjudicate [tame_intros]: "tame (adjudicate cf q)"
  unfolding adjudicate_def reserve_external_def admit_external_def admit_final_def admit_transition_def Let_def
  by (intro tame_intros)

lemma tame_holds [tame_intros]: "tame (gov_resolve_hold cf k p q)" "tame (gov_escalate_hold cf k who now)"
  "tame (gov_authorize_exit cf k rc a)" "tame (gov_expire_hold cf k t)" "tame (gov_expire_escalated cf k)"
  unfolding gov_resolve_hold_def gov_escalate_hold_def gov_authorize_exit_def gov_expire_hold_def
    gov_expire_escalated_def under_hold_lock_def resolve_locked_def re_adjudicate_hold_def veto_held_def
    veto_held_pool_def resolve_to_def release_hold_budget_def exit_call_def Let_def
  by (intro tame_intros)+

end
