(* ===== verification/Governor_System.thy ===== *)
theory Governor_System
  imports Governor_Logic
begin

section \<open>Several governors over one store\<close>

text \<open>
  Governor processes that share the operation store and the consensus backend. A method is one
  step of the system, except where it asks the external provider: there it is two steps with
  anything in between, so \<open>dispatch_and_execute\<close> is claim, provider call and settlement, and
  \<open>reconcile_unknown\<close> is a question and its settlement. Each step has its own list of faults,
  and \<open>SCrash\<close> stops a process with whatever it had under way.
\<close>

subsection \<open>The system\<close>

record ('b, 'a) system =
  sy_gov :: "('b, 'a) gov"
  sy_calls :: "(string \<times> string \<times> operation) list"
  sy_answers :: "(string \<times> string \<times> operation \<times> execution_result option) list"
  sy_asked :: "(string \<times> string \<times> operation) list"

datatype action =
    SAdjudicate string request
  | SAuthorize string string json
  | SBegin string string "string option" "pyfloat option" payload_in
  | SCall nat "execution \<Rightarrow> execution_result"
  | SSettle nat
  | SConfirm string string
  | SFail string string "string option" "pyfloat option" bool
  | SMarkUnknown string
  | SAsk string string
  | SAnswered nat "reconciliation option"
  | SResolve string string bool request
  | SEscalate string string string string
  | SExit string string exit_receipt bool
  | SExpire string string pyfloat
  | SExpireEscalated string string
  | SLock string incident_in string
  | SRelease verifier string string string string string
  | SCrash string

definition by_worker :: "('b, 'a) config \<Rightarrow> string \<Rightarrow> ('b, 'a) config" where
  "by_worker cf w = cf\<lparr>cf_worker := w\<rparr>"

definition run_step :: "(('b, 'a) gov, 'r) prog \<Rightarrow> ('b, 'a) system \<Rightarrow> ('b, 'a) system" where
  "run_step m sy = sy\<lparr>sy_gov := snd (m (sy_gov sy))\<rparr>"

text \<open>What a phase leaves behind: the next phase of the method, when the phase returned it.\<close>

definition run_begin :: "('b, 'a) config \<Rightarrow> string \<Rightarrow> string \<Rightarrow> string option \<Rightarrow> pyfloat option \<Rightarrow> payload_in \<Rightarrow>
    ('b, 'a) system \<Rightarrow> ('b, 'a) system" where
  "run_begin cf w k res amt pl sy =
     (let (x, s) = begin_execution (by_worker cf w) k res amt pl (sy_gov sy) in
      sy\<lparr>sy_gov := s,
         sy_calls := sy_calls sy @ (case x of Ret (Inr r) \<Rightarrow> [(w, k, r)] | _ \<Rightarrow> [])\<rparr>)"

definition remove_nth :: "nat \<Rightarrow> 'x list \<Rightarrow> 'x list" where
  "remove_nth i xs = take i xs @ drop (Suc i) xs"

definition run_call :: "('b, 'a) config \<Rightarrow> nat \<Rightarrow> (execution \<Rightarrow> execution_result) \<Rightarrow>
    ('b, 'a) system \<Rightarrow> ('b, 'a) system" where
  "run_call cf i prov sy =
     (if i < length (sy_calls sy) then
        (let (w, k, r) = sy_calls sy ! i;
             (x, s) = attempt (call_provider prov (execution_of (by_worker cf w) k r)) (sy_gov sy) in
         sy\<lparr>sy_gov := s, sy_calls := remove_nth i (sy_calls sy),
            sy_answers := sy_answers sy @ (case x of Ret a \<Rightarrow> [(w, k, r, a)] | _ \<Rightarrow> [])\<rparr>)
      else sy)"

definition run_settle :: "('b, 'a) config \<Rightarrow> nat \<Rightarrow> ('b, 'a) system \<Rightarrow> ('b, 'a) system" where
  "run_settle cf i sy =
     (if i < length (sy_answers sy) then
        (let (w, k, r, a) = sy_answers sy ! i in
         (run_step (settle_execution (by_worker cf w) k r a) sy)
           \<lparr>sy_answers := remove_nth i (sy_answers sy)\<rparr>)
      else sy)"

definition run_ask :: "('b, 'a) config \<Rightarrow> string \<Rightarrow> string \<Rightarrow> ('b, 'a) system \<Rightarrow> ('b, 'a) system" where
  "run_ask cf w k sy =
     (let (x, s) = begin_reconcile (by_worker cf w) k (sy_gov sy) in
      sy\<lparr>sy_gov := s, sy_asked := sy_asked sy @ (case x of Ret (Inr r) \<Rightarrow> [(w, k, r)] | _ \<Rightarrow> [])\<rparr>)"

definition run_answered :: "('b, 'a) config \<Rightarrow> nat \<Rightarrow> reconciliation option \<Rightarrow> ('b, 'a) system \<Rightarrow> ('b, 'a) system" where
  "run_answered cf i rc sy =
     (if i < length (sy_asked sy) then
        (let (w, k, r) = sy_asked sy ! i in
         (run_step (case rc of None \<Rightarrow> reconcile_raised k
                    | Some rc \<Rightarrow> settle_reconcile (by_worker cf w) k r rc) sy)
           \<lparr>sy_asked := remove_nth i (sy_asked sy)\<rparr>)
      else sy)"

definition stop_worker :: "string \<Rightarrow> ('b, 'a) system \<Rightarrow> ('b, 'a) system" where
  "stop_worker w sy =
     sy\<lparr>sy_gov := (sy_gov sy)\<lparr>g_active := filter (\<lambda>a. fst a \<noteq> w) (g_active (sy_gov sy))\<rparr>,
        sy_calls := filter (\<lambda>c. fst c \<noteq> w) (sy_calls sy),
        sy_answers := filter (\<lambda>c. fst c \<noteq> w) (sy_answers sy),
        sy_asked := filter (\<lambda>c. fst c \<noteq> w) (sy_asked sy)\<rparr>"

definition on_registry :: "(registry \<Rightarrow> registry) \<Rightarrow> ('b, 'a) system \<Rightarrow> ('b, 'a) system" where
  "on_registry f sy = sy\<lparr>sy_gov := (sy_gov sy)\<lparr>g_reg := f (g_reg (sy_gov sy))\<rparr>\<rparr>"

fun perform :: "('b, 'a) config \<Rightarrow> action \<Rightarrow> ('b, 'a) system \<Rightarrow> ('b, 'a) system" where
  "perform cf (SAdjudicate w q) sy = run_step (adjudicate (by_worker cf w) q) sy"
| "perform cf (SAuthorize w k q) sy = run_step (authorize_commit (by_worker cf w) k q) sy"
| "perform cf (SBegin w k res amt pl) sy = run_begin cf w k res amt pl sy"
| "perform cf (SCall i prov) sy = run_call cf i prov sy"
| "perform cf (SSettle i) sy = run_settle cf i sy"
| "perform cf (SConfirm w k) sy = run_step (confirm (by_worker cf w) k) sy"
| "perform cf (SFail w k res amt proven) sy = run_step (fail (by_worker cf w) k res amt proven) sy"
| "perform cf (SMarkUnknown k) sy = run_step (mark_unknown k) sy"
| "perform cf (SAsk w k) sy = run_ask cf w k sy"
| "perform cf (SAnswered i rc) sy = run_answered cf i rc sy"
| "perform cf (SResolve w k p q) sy = run_step (gov_resolve_hold (by_worker cf w) k p q) sy"
| "perform cf (SEscalate w k who now) sy = run_step (gov_escalate_hold (by_worker cf w) k who now) sy"
| "perform cf (SExit w k rc a) sy = run_step (gov_authorize_exit (by_worker cf w) k rc a) sy"
| "perform cf (SExpire w k now) sy = run_step (gov_expire_hold (by_worker cf w) k now) sy"
| "perform cf (SExpireEscalated w k) sy = run_step (gov_expire_escalated (by_worker cf w) k) sy"
| "perform cf (SLock who inc u) sy = on_registry (\<lambda>g. last (snd (set_quarantine g True who inc u))) sy"
| "perform cf (SRelease v who sc au why now) sy =
     on_registry (\<lambda>g. last (snd (authorized_release_quarantine g v who sc au why now))) sy"
| "perform cf (SCrash w) sy = stop_worker w sy"

definition sys_step :: "('b, 'a) config \<Rightarrow> ('b, 'a) system \<Rightarrow> fault list \<times> action \<Rightarrow> ('b, 'a) system" where
  "sys_step cf sy e = perform cf (snd e) (sy\<lparr>sy_gov := (sy_gov sy)\<lparr>g_faults := fst e\<rparr>\<rparr>)"

definition sys_run :: "('b, 'a) config \<Rightarrow> ('b, 'a) system \<Rightarrow> (fault list \<times> action) list \<Rightarrow> ('b, 'a) system" where
  "sys_run cf = foldl (sys_step cf)"

text \<open>A system that starts with an empty, durable or in-memory, operation store.\<close>

definition start_gov :: "registry \<Rightarrow> 'b \<Rightarrow> membrane_state \<Rightarrow> 'a \<Rightarrow> ('b, 'a) gov" where
  "start_gov g b m a =
     \<lparr>g_reg = g, g_backend = b, g_membrane = m, g_authority = a, g_active = [], g_audit = [],
      g_executed = [], g_faults = []\<rparr>"

definition start :: "registry \<Rightarrow> 'b \<Rightarrow> membrane_state \<Rightarrow> 'a \<Rightarrow> ('b, 'a) system" where
  "start g b m a =
     \<lparr>sy_gov = start_gov g b m a, sy_calls = [], sy_answers = [], sy_asked = []\<rparr>"

subsection \<open>Winning the claim\<close>

definition gview :: "('b, 'a) gov \<Rightarrow> string \<Rightarrow> operation option" where
  "gview s k = map_of (op_view (g_reg s)) k"

definition later :: "('b, 'a) gov \<Rightarrow> ('b, 'a) gov \<Rightarrow> bool" where
  "later s s' \<longleftrightarrow> reg_ok (g_reg s') \<and> records_le (op_view (g_reg s)) (op_view (g_reg s'))"

text \<open>Between \<open>s\<close> and \<open>s'\<close> the operation was dispatched.\<close>

definition won :: "string \<Rightarrow> ('b, 'a) gov \<Rightarrow> ('b, 'a) gov \<Rightarrow> bool" where
  "won k s s' \<longleftrightarrow> reg_ok (g_reg s') \<and> records_le (op_view (g_reg s)) (op_view (g_reg s')) \<and>
     (\<forall>q. gview s k = Some q \<longrightarrow> \<not> past_dispatch (op_state q)) \<and>
     (\<exists>q. gview s' k = Some q \<and> past_dispatch (op_state q))"

lemma won_later:
  assumes "won k s0 s" and "moves (g_reg s) (g_reg s')"
  shows "won k s0 s'"
proof -
  from assms obtain q where q: "gview s k = Some q" "past_dispatch (op_state q)" by (auto simp: won_def)
  with assms(2) obtain q' where "gview s' k = Some q'" "op_le q q'"
    by (auto simp: moves_def records_le_def gview_def)
  with q assms show ?thesis
    by (auto simp: won_def op_le_def moves_def intro: past_dispatch_stays records_le_trans)
qed

text \<open>The claim itself.\<close>

lemma call_later: "undisturbed (later s0)"
  using foreign_moves by (fastforce simp: undisturbed_def later_def moves_def intro: records_le_trans)

lemma transition_wins:
  assumes "later s0 s" and "transition_to (g_reg s) k op_state.DISPATCHING w hr cs v = (Inr (True, p), g')"
  shows "won k s0 (s\<lparr>g_reg := g'\<rparr>)"
proof -
  have ok: "reg_ok (g_reg s)" using assms(1) by (simp add: later_def)
  from transition_to_outcome [OF ok assms(2)] have a: "admitted (g_reg s) k op_state.DISPATCHING hr cs v (Inr (True, p)) g'"
    and ok': "reg_ok g'" by (auto simp: refused_def)
  from a obtain q q' where q: "map_of (op_view (g_reg s)) k = Some q" "legal_step (op_state q) op_state.DISPATCHING"
    "op_le q q'" "op_state q' = op_state.DISPATCHING" "op_view g' = dput k q' (op_view (g_reg s))"
    by (auto simp: admitted_def)
  have "op_state q = op_state.RESERVED" using q(2) by (cases "op_state q") (auto simp: legal_step_def)
  then have res: "\<not> past_dispatch (op_state q)" by (simp add: past_dispatch_def)
  have "\<not> past_dispatch (op_state q0)" if "gview s0 k = Some q0" for q0
  proof -
    from assms(1) that q(1) have "op_le q0 q" by (fastforce simp: later_def records_le_def gview_def)
    with res show ?thesis using past_dispatch_stays by (auto simp: op_le_def)
  qed
  moreover have "records_le (op_view (g_reg s0)) (op_view g')"
    using assms(1) records_le_move [OF q(1,3)] q(5) by (auto simp: later_def intro: records_le_trans)
  ultimately show ?thesis using ok' q by (auto simp: won_def gview_def past_dispatch_def)
qed

subsection \<open>Programs that answer yes only after a won claim\<close>

definition wins_on :: "string \<Rightarrow> ('r \<Rightarrow> bool) \<Rightarrow> (('b, 'a) gov, 'r) prog \<Rightarrow> bool" where
  "wins_on k D m \<longleftrightarrow> tame m \<and>
     (\<forall>s0 s x s'. later s0 s \<longrightarrow> m s = (Ret x, s') \<longrightarrow> D x \<longrightarrow> won k s0 s')"

lemma later_tame: "later s0 s \<Longrightarrow> tame m \<Longrightarrow> m s = (x, s') \<Longrightarrow> later s0 s'"
  by (auto simp: later_def moves_def dest!: tameD intro: records_le_trans)

lemma wins_onD: "wins_on k D m \<Longrightarrow> later s0 s \<Longrightarrow> m s = (Ret x, s') \<Longrightarrow> D x \<Longrightarrow> won k s0 s'"
  by (auto simp: wins_on_def)

lemma win_tame: "tame m \<Longrightarrow> (\<And>x. \<not> D x) \<Longrightarrow> wins_on k D m"
  by (simp add: wins_on_def)

lemma win_ret: "\<not> D x \<Longrightarrow> wins_on k D (ret x)"
  by (auto simp: wins_on_def ret_def intro: tame_intros)

lemma win_raise: "wins_on k D raise"
  by (auto simp: wins_on_def raise_def intro: tame_intros)

lemma win_then:
  assumes m: "wins_on k D' m" and no: "\<And>x. \<not> D' x \<Longrightarrow> wins_on k D (f x)" and yes: "\<And>x. D' x \<Longrightarrow> tame (f x)"
  shows "wins_on k D (bindM m f)"
  unfolding wins_on_def
proof (intro conjI allI impI)
  have f: "tame (f x)" for x using no [of x] yes [of x] by (cases "D' x") (auto simp: wins_on_def)
  from m f show "tame (bindM m f)" by (intro tame_bind) (auto simp: wins_on_def)
  fix s0 s x s' assume s: "later s0 s" and run: "bindM m f s = (Ret x, s')" and D: "D x"
  then obtain y t where y: "m s = (Ret y, t)" "f y t = (Ret x, s')"
    by (auto simp: bindM_def split: prod.splits outcome.splits)
  from m s y(1) have t: "later s0 t" by (auto simp: wins_on_def intro: later_tame)
  show "won k s0 s'"
  proof (cases "D' y")
    case True
    with m s y(1) have "won k s0 t" by (auto simp: wins_on_def)
    then have "moves (g_reg t) (g_reg s')" using tameD [OF f _ y(2)] by (simp add: won_def)
    with \<open>won k s0 t\<close> show ?thesis by (rule won_later)
  qed (use no [of y] t y(2) D in \<open>auto simp: wins_on_def\<close>)
qed

lemma win_bind: "tame m \<Longrightarrow> (\<And>x. wins_on k D (f x)) \<Longrightarrow> wins_on k D (bindM m f)"
  by (rule win_then [where D' = "\<lambda>_. False"]) (auto intro: win_tame)

lemma win_if: "(b \<Longrightarrow> wins_on k D m) \<Longrightarrow> (\<not> b \<Longrightarrow> wins_on k D m') \<Longrightarrow> wins_on k D (if b then m else m')"
  by simp

lemma win_option:
  "wins_on k D m \<Longrightarrow> (\<And>x. wins_on k D (f x)) \<Longrightarrow> wins_on k D (case y of None \<Rightarrow> m | Some x \<Rightarrow> f x)"
  by (simp split: option.split)

lemma win_claim: "wins_on k (\<lambda>b. b) (transition k op_state.DISPATCHING w cs v)"
  unfolding wins_on_def
proof (intro conjI allI impI tame_intros)
  fix s0 s b s'
  assume "later s0 s" "transition k op_state.DISPATCHING w cs v s = (Ret b, s')" b
  moreover have "wp (transition k op_state.DISPATCHING w cs v) (\<lambda>b s'. b \<longrightarrow> won k s0 s') (\<lambda>_. True) s"
    if "later s0 s"
    unfolding transition_def reg_call_def wp_bind
  proof (rule wp_call [OF call_later _ _ _ that])
    fix t x t'
    assume t: "later s0 t"
      "(let (x, g) = transition_to (g_reg t) k op_state.DISPATCHING w None cs v in (x, t\<lparr>g_reg := g\<rparr>)) = (Inr x, t')"
    then obtain b p g where g: "transition_to (g_reg t) k op_state.DISPATCHING w None cs v = (Inr (b, p), g)"
      and x: "x = (b, p)" "t' = t\<lparr>g_reg := g\<rparr>"
      by (cases x) (auto split: prod.splits)
    then show "wp (ret (fst x)) (\<lambda>b s'. b \<longrightarrow> won k s0 s') (\<lambda>_. True) t' \<and> True"
      using transition_wins [OF t(1)] by (cases b) auto
  qed simp_all
  ultimately show "won k s0 s'" by (auto dest: wp_result)
qed

lemma win_claimed:
  assumes "wins_on k D (f False)" and "tame (f True)"
  shows "wins_on k D (bindM (transition k op_state.DISPATCHING w cs v) f)"
  by (rule win_then [OF win_claim]) (use assms in \<open>simp_all split: bool.split\<close>)

abbreviation dispatched :: "dispatch_answer \<Rightarrow> bool" where
  "dispatched a \<equiv> a = Dispatched \<or> a = BackendClaimed"

lemma dispatch_claim_wins: "wins_on k dispatched (dispatch_claim cf k res amt pl)"
  unfolding dispatch_claim_def dispatch_pool_def Let_def
  by (simp only: not_False_eq_True not_True_eq_False if_True if_False | rule win_claimed |
      rule win_if win_option win_bind win_raise | rule win_ret, simp | rule tame_intros)+

lemma dispatch_gate_refuses:
  "wins_on k (\<lambda>e. \<exists>a. e = Some a \<and> dispatched a) (dispatch_gate cf k pl)"
  unfolding dispatch_gate_def
  by (rule win_if win_option win_bind | rule win_ret, simp | rule tame_intros)+

lemma dispatch_wins: "wins_on k dispatched (dispatch cf k res amt pl lv)"
  unfolding dispatch_def
proof (rule win_then [OF dispatch_gate_refuses], goal_cases)
  case (1 e)
  show ?case
  proof (cases e)
    case None
    show ?thesis
      unfolding None option.case
    proof (rule win_then [OF dispatch_claim_wins], goal_cases)
      case (1 a)
      then show ?case by (cases a) (auto intro!: win_bind tame_intros win_ret)
    next
      case (2 a)
      then show ?case by (auto intro!: tame_intros split: option.split)
    qed
  qed (use 1 in \<open>auto intro: win_ret\<close>)
next
  case (2 e)
  then show ?case by (auto intro!: tame_intros split: dispatch_answer.split option.split)
qed

text \<open>A claimed execution: the record the provider will be called with, and that nobody claimed it before.\<close>

lemma begin_wins:
  assumes ok: "reg_ok (g_reg s)" and b: "begin_execution cf k res amt pl s = (Ret (Inr r), s')"
  shows "won k s s'" and "gview s' k = Some r"
proof -
  have "wins_on k (\<lambda>x. \<exists>r. x = Inr r) (begin_execution cf k res amt pl)"
    unfolding begin_execution_def
  proof (rule win_bind [OF tame_get], rule win_if, goal_cases)
    case (2 r0)
    show ?case
    proof (rule win_then [OF dispatch_wins], goal_cases)
      case (1 a)
      then show ?case by (cases a) (auto intro!: win_ret)
    next
      case (2 a)
      then show ?case by (auto intro!: tame_intros split: dispatch_answer.split)
    qed
  qed (simp add: win_ret)
  from wins_onD [OF this _ b] ok show "won k s s'" by (simp add: later_def)
  from b obtain r0 t0 a t where run: "reg_get k s = (Ret r0, t0)"
      "dispatch cf k res amt pl (cf_provider cf) t0 = (Ret a, t)"
    and rest: "(case a of Refused st \<Rightarrow> ret (Inl (ENotDispatched st))
       | BackendClaimed \<Rightarrow> ret (Inl (ENotDispatched (Some op_state.DISPATCHING)))
       | Dispatched \<Rightarrow>
         if \<not> cf_provider cf then ret (Inl EDispatched)
         else bindM (reg_get k) (\<lambda>r.
           case r of
             None \<Rightarrow> bindM (modM (discard cf k)) (\<lambda>_. ret (Inl EDispatched))
           | Some r \<Rightarrow> ret (Inr r))) t = (Ret (Inr r), s')"
    unfolding begin_execution_def bind_Ret by (auto simp: ret_Ret bind_Ret split: if_splits)
  have a: "a = Dispatched" using rest by (cases a) (auto simp: ret_Ret)
  have get: "reg_get k t = (Ret (Some r), s')"
  proof (cases "cf_provider cf")
    case True
    with rest a obtain q u where "reg_get k t = (Ret q, u)"
      "(case q of None \<Rightarrow> bindM (modM (discard cf k)) (\<lambda>_. ret (Inl EDispatched)) | Some r \<Rightarrow> ret (Inr r)) u = (Ret (Inr r), s')"
      by (auto simp: bind_Ret)
    then show ?thesis by (cases q) (auto simp: ret_Ret bind_Ret)
  qed (use rest a in \<open>simp add: ret_Ret\<close>)
  note t = run [unfolded a] get
  have "later s t0" by (rule later_tame [OF _ tame_get t(1)]) (use ok in \<open>simp add: later_def\<close>)
  from later_tame [OF this tame_dispatch_whole t(2)] have "reg_ok (g_reg t)" by (simp add: later_def)
  obtain q g where q: "get_op (g_reg t) k = (q, g)" by fastforce
  with get have "q = Some r" "s' = t\<lparr>g_reg := g\<rparr>" by (simp_all add: reg_get_def)
  with get_op_facts [OF \<open>reg_ok (g_reg t)\<close> q] show "gview s' k = Some r" by (simp add: gview_def)
qed


subsection \<open>At most one effect\<close>

text \<open>An execution as the provider saw it, against the record of its operation.\<close>

definition recorded :: "('b, 'a) gov \<Rightarrow> execution \<Rightarrow> bool" where
  "recorded s ex \<longleftrightarrow>
     (\<exists>r. gview s (ex_key ex) = Some r \<and> past_dispatch (op_state r) \<and> ex_amount ex = op_amount r \<and>
        ex_agent ex = agent_id r \<and>
        ex_action ex = (if action_type r = [] then ''payment'' else action_type r))"

definition call_ok :: "('b, 'a) gov \<Rightarrow> string \<times> string \<times> operation \<Rightarrow> bool" where
  "call_ok s c \<longleftrightarrow>
     (\<exists>r. gview s (fst (snd c)) = Some r \<and> past_dispatch (op_state r) \<and> same_identity (snd (snd c)) r)"

definition effects_ok :: "('b, 'a) system \<Rightarrow> bool" where
  "effects_ok sy \<longleftrightarrow>
     reg_ok (g_reg (sy_gov sy)) \<and>
     distinct (map ex_key (g_executed (sy_gov sy)) @ map (\<lambda>c. fst (snd c)) (sy_calls sy)) \<and>
     (\<forall>ex \<in> set (g_executed (sy_gov sy)). recorded (sy_gov sy) ex) \<and>
     (\<forall>c \<in> set (sy_calls sy). call_ok (sy_gov sy) c)"

lemma effects_okD:
  assumes "effects_ok sy"
  shows "reg_ok (g_reg (sy_gov sy))"
    and "ex \<in> set (g_executed (sy_gov sy)) \<Longrightarrow> recorded (sy_gov sy) ex"
    and "c \<in> set (sy_calls sy) \<Longrightarrow> call_ok (sy_gov sy) c"
  using assms unfolding effects_ok_def by blast+

lemma gview_later:
  assumes "moves (g_reg s) (g_reg s')" and "gview s k = Some r"
  obtains r' where "gview s' k = Some r'" and "op_le r r'"
  using assms by (auto simp: moves_def records_le_def gview_def)

lemma op_le_past: "op_le r r' \<Longrightarrow> past_dispatch (op_state r) \<Longrightarrow> past_dispatch (op_state r')"
  by (auto simp: op_le_def intro: past_dispatch_stays)

lemma recorded_later:
  assumes "recorded s ex" and m: "moves (g_reg s) (g_reg s')"
  shows "recorded s' ex"
proof -
  from assms(1) obtain r where r: "gview s (ex_key ex) = Some r" "past_dispatch (op_state r)"
    "ex_amount ex = op_amount r" "ex_agent ex = agent_id r"
    "ex_action ex = (if action_type r = [] then ''payment'' else action_type r)"
    unfolding recorded_def by blast
  obtain r' where r': "gview s' (ex_key ex) = Some r'" "op_le r r'" by (rule gview_later [OF m r(1)])
  have "same_identity r r'" "past_dispatch (op_state r')"
    using r'(2) r(2) op_le_past by (simp_all add: op_le_def)
  with r r' show ?thesis unfolding recorded_def by (intro exI [of _ r']) (simp add: same_identity_def)
qed

lemma same_identity_trans: "same_identity a b \<Longrightarrow> same_identity b c \<Longrightarrow> same_identity a c"
  by (simp add: same_identity_def)

lemma call_ok_later:
  assumes "call_ok s c" and m: "moves (g_reg s) (g_reg s')"
  shows "call_ok s' c"
proof -
  from assms(1) obtain r where r: "gview s (fst (snd c)) = Some r" "past_dispatch (op_state r)"
    "same_identity (snd (snd c)) r"
    unfolding call_ok_def by blast
  obtain r' where r': "gview s' (fst (snd c)) = Some r'" "op_le r r'" by (rule gview_later [OF m r(1)])
  then have "same_identity (snd (snd c)) r'"
    using same_identity_trans [OF r(3)] by (simp add: op_le_def)
  with r r' op_le_past show ?thesis unfolding call_ok_def by blast
qed

text \<open>A step that neither calls the provider nor claims.\<close>

lemma effects_quiet:
  assumes "effects_ok sy" and "moves (g_reg (sy_gov sy)) (g_reg s)" and "g_executed s = g_executed (sy_gov sy)"
    and "sy_gov sy' = s" and "set (sy_calls sy') \<subseteq> set (sy_calls sy)"
    and "distinct (map (\<lambda>c. fst (snd c)) (sy_calls sy'))"
  shows "effects_ok sy'"
proof -
  have "reg_ok (g_reg s)" using assms(2) by (simp add: moves_def)
  moreover have "recorded s ex" if "ex \<in> set (g_executed s)" for ex
    using assms(1,3) that by (auto simp: effects_ok_def intro: recorded_later [OF _ assms(2)])
  moreover have "call_ok s c" if "c \<in> set (sy_calls sy')" for c
    using assms(1,5) that by (auto simp: effects_ok_def intro: call_ok_later [OF _ assms(2)])
  moreover have "distinct (map ex_key (g_executed s) @ map (\<lambda>c. fst (snd c)) (sy_calls sy'))"
    using assms(1,3,5,6) by (auto simp: effects_ok_def)
  ultimately show ?thesis using assms(4) by (simp add: effects_ok_def)
qed

lemma effects_tame:
  assumes "effects_ok sy" and "tame m"
  shows "effects_ok (run_step m sy)"
  using assms tameD [OF assms(2) _ surjective_pairing, of "sy_gov sy"]
  by (intro effects_quiet [OF assms(1)]) (auto simp: run_step_def effects_ok_def)

lemma distinct_sub: "distinct (map f xs) \<Longrightarrow> distinct (map f (filter P xs))"
  by (induction xs) auto

lemma remove_nth_subset: "set (remove_nth i xs) \<subseteq> set xs"
  by (auto simp: remove_nth_def dest: in_set_takeD in_set_dropD)

lemma distinct_remove_nth:
  assumes "distinct (ys @ map f xs)" and "i < length xs"
  shows "distinct (ys @ f (xs ! i) # map f (remove_nth i xs))"
proof -
  have "distinct (ys @ map f (take i xs @ xs ! i # drop (Suc i) xs))"
    using assms(1) by (simp only: id_take_nth_drop [OF assms(2), symmetric])
  then show ?thesis by (auto simp: remove_nth_def)
qed

lemma effects_call:
  fixes sy :: "('b, 'a) system"
  assumes ok: "effects_ok sy"
  shows "effects_ok (run_call cf i prov sy)"
proof (cases "i < length (sy_calls sy)")
  case True
  obtain w k r where c: "sy_calls sy ! i = (w, k, r)" by (cases "sy_calls sy ! i")
  let ?ex = "execution_of (by_worker cf w) k r"
  obtain x s where run: "attempt (call_provider prov ?ex) (sy_gov sy) = (x, s)" by fastforce
  let ?sy = "run_call cf i prov sy"
  have sy: "sy_gov ?sy = s" "sy_calls ?sy = remove_nth i (sy_calls sy)"
    using True c run by (simp_all add: run_call_def)
  define P where "P t = (moves (g_reg (sy_gov sy)) (g_reg t) \<and> g_executed t = g_executed (sy_gov sy))" for t :: "('b, 'a) gov"
  define E where "E t = (moves (g_reg (sy_gov sy)) (g_reg t) \<and>
      (g_executed t = g_executed (sy_gov sy) \<or> g_executed t = g_executed (sy_gov sy) @ [?ex]))" for t :: "('b, 'a) gov"
  have "undisturbed P" using foreign_moves by (auto simp: undisturbed_def P_def moves_def intro: records_le_trans)
  moreover have "P (sy_gov sy)" using ok by (simp add: P_def effects_ok_def moves_refl)
  ultimately have "wp (attempt (call_provider prov ?ex)) (\<lambda>_. E) E (sy_gov sy)"
    by (intro wp_attempt, unfold call_provider_def, intro wp_call [where P = P]) (auto simp: P_def E_def)
  from wp_end [OF this] run have E: "E s" by simp
  then have m: "moves (g_reg (sy_gov sy)) (g_reg s)" by (simp add: E_def)
  have d: "distinct (map ex_key (g_executed (sy_gov sy)) @ k # map (\<lambda>c. fst (snd c)) (remove_nth i (sy_calls sy)))"
    using distinct_remove_nth [OF _ True, of "map ex_key (g_executed (sy_gov sy))" "\<lambda>c. fst (snd c)"] ok c
    by (simp add: effects_ok_def)
  have cs: "\<forall>c \<in> set (remove_nth i (sy_calls sy)). call_ok s c"
  proof
    fix c assume "c \<in> set (remove_nth i (sy_calls sy))"
    then have "c \<in> set (sy_calls sy)" by (rule subsetD [OF remove_nth_subset])
    then show "call_ok s c" by (rule call_ok_later [OF effects_okD(3) [OF ok] m])
  qed
  have old: "\<forall>ex \<in> set (g_executed (sy_gov sy)). recorded s ex"
    using recorded_later [OF effects_okD(2) [OF ok] m] by blast
  have "call_ok (sy_gov sy) (w, k, r)" using effects_okD(3) [OF ok] True c nth_mem by metis
  then have "call_ok s (w, k, r)" by (rule call_ok_later [OF _ m])
  then obtain q where q: "gview s k = Some q" "past_dispatch (op_state q)" "same_identity r q"
    unfolding call_ok_def by auto
  have key: "ex_key ?ex = k" by (simp add: execution_of_def)
  have new: "recorded s ?ex"
    unfolding recorded_def using q
    by (intro exI [of _ q]) (simp add: execution_of_def same_identity_def)
  have "reg_ok (g_reg s)" using m by (simp add: moves_def)
  moreover have "distinct (map ex_key (g_executed s) @ map (\<lambda>c. fst (snd c)) (remove_nth i (sy_calls sy)))"
  proof -
    have "distinct (X @ k # K) \<Longrightarrow> distinct (X @ K) \<and> distinct ((X @ [k]) @ K)" for X K by auto
    from this [OF d] E key show ?thesis by (elim conjE) (auto simp only: E_def map_append list.map)
  qed
  moreover have "\<forall>ex \<in> set (g_executed s). recorded s ex"
    using E old new by (auto simp: E_def)
  ultimately show ?thesis using cs by (simp add: effects_ok_def sy)
qed (use ok in \<open>simp add: run_call_def\<close>)

lemma effects_begin:
  assumes ok: "effects_ok sy"
  shows "effects_ok (run_begin cf w k res amt pl sy)"
proof -
  obtain x s where run: "begin_execution (by_worker cf w) k res amt pl (sy_gov sy) = (x, s)" by fastforce
  have rok: "reg_ok (g_reg (sy_gov sy))" using ok by (simp add: effects_ok_def)
  note t = tameD [OF tame_begin rok run]
  show ?thesis
  proof (cases "\<exists>r. x = Ret (Inr r)")
    case False
    then have "(case x of Ret (Inr r) \<Rightarrow> [(w, k, r)] | _ \<Rightarrow> []) = []" by (auto split: outcome.split sum.split)
    with run t ok show ?thesis
      by (intro effects_quiet [OF ok]) (auto simp: run_begin_def effects_ok_def)
  next
    case True
    then obtain r where x: "x = Ret (Inr r)" by blast
    from begin_wins [OF rok run [unfolded x]] have
      won: "won k (sy_gov sy) s" and r: "gview s k = Some r" by auto
    have "k \<noteq> ex_key ex" if "ex \<in> set (g_executed (sy_gov sy))" for ex
      using ok that won by (auto simp: effects_ok_def recorded_def won_def)
    moreover have "k \<noteq> fst (snd c)" if "c \<in> set (sy_calls sy)" for c
      using ok that won by (auto simp: effects_ok_def call_ok_def won_def)
    moreover have "call_ok s (w, k, r)" using won r by (auto simp: call_ok_def won_def same_identity_def)
    ultimately show ?thesis
      using ok t run x by (auto simp: effects_ok_def run_begin_def moves_def [of _ "g_reg s"]
          intro: recorded_later call_ok_later)
  qed
qed

lemma effects_ok_step:
  assumes ok: "effects_ok sy"
  shows "effects_ok (sys_step cf sy e)"
proof -
  obtain fs a where e: "e = (fs, a)" by (cases e)
  let ?sy = "sy\<lparr>sy_gov := (sy_gov sy)\<lparr>g_faults := fs\<rparr>\<rparr>"
  have ok': "effects_ok ?sy"
    using ok by (simp add: effects_ok_def recorded_def call_ok_def gview_def)
  have reg: "effects_ok (on_registry f ?sy)" if "\<And>g. reg_ok g \<Longrightarrow> moves g (f g)" for f
    using ok' that by (intro effects_quiet [OF ok']) (auto simp: on_registry_def effects_ok_def)
  show ?thesis
  proof (cases a)
    case (SBegin w k res amt pl)
    with effects_begin [OF ok'] show ?thesis by (simp add: sys_step_def e)
  next
    case (SCall i prov)
    with effects_call [OF ok'] show ?thesis by (simp add: sys_step_def e)
  next
    case (SSettle i)
    with effects_tame [OF ok' tame_settle_execution] ok' show ?thesis
      by (auto simp: sys_step_def e run_settle_def effects_ok_def split: prod.splits)
  next
    case (SAsk w k)
    obtain x s where run: "begin_reconcile (by_worker cf w) k (sy_gov ?sy) = (x, s)" by fastforce
    with tameD [OF tame_reconcile(1) _ run] ok' SAsk show ?thesis
      by (intro effects_quiet [OF ok']) (auto simp: sys_step_def e run_ask_def effects_ok_def)
  next
    case (SAnswered i rc)
    have "tame (case rc of None \<Rightarrow> reconcile_raised k | Some rc \<Rightarrow> settle_reconcile (by_worker cf w) k r rc)" for w k r
      by (intro tame_intros)
    from effects_tame [OF ok' this] ok' SAnswered show ?thesis
      by (auto simp: sys_step_def e run_answered_def effects_ok_def split: prod.splits)
  next
    case (SLock who inc u)
    have "moves g (last (snd (set_quarantine g True who inc u)))" if "reg_ok g" for g
      using reg_step_moves [OF that, of "Registry.OpLock who inc u"] by simp
    from reg [OF this] SLock show ?thesis by (simp add: sys_step_def e)
  next
    case (SRelease v who sc au why now)
    have "moves g (last (snd (authorized_release_quarantine g v who sc au why now)))" if "reg_ok g" for g
      using reg_step_moves [OF that, of "Registry.OpRelease v who sc au why now"] by simp
    from reg [OF this] SRelease show ?thesis by (simp add: sys_step_def e)
  next
    case (SCrash w)
    have "distinct (map (\<lambda>c. fst (snd c)) (filter P (sy_calls sy)))" for P
      using ok by (intro distinct_sub) (simp add: effects_ok_def)
    with SCrash ok' show ?thesis
      by (intro effects_quiet [OF ok']) (auto simp: sys_step_def e stop_worker_def moves_refl effects_ok_def)
  qed (auto simp: sys_step_def e mark_unknown_def intro!: effects_tame [OF ok'] tame_intros)
qed

interpretation effects: machine "sys_step cf" effects_ok for cf :: "('b, 'a) config"
  by unfold_locales (rule effects_ok_step)

lemma start_effects: "reg_ok g \<Longrightarrow> effects_ok (start g b m a)"
  by (simp add: effects_ok_def start_def start_gov_def)

subsection \<open>A run with a contended claim\<close>

text \<open>
  One resource and no backend: an admitted operation of amount 20 stands reserved, two governors
  claim it and both try to call the provider.
\<close>

definition no_authority :: "unit authority" where
  "no_authority =
     \<lparr>au_id = [], au_profile = [], au_generation = 0, au_binding = (\<lambda>_. None), au_request_id = (\<lambda>_. []),
      au_amount = (\<lambda>_. None), au_claim_digest = (\<lambda>_ _. []), au_request_ok = (\<lambda>_. False),
      au_authorization_ok = (\<lambda>_. False), au_consumption_ok = (\<lambda>_. False), au_keys = (\<lambda>a. (Inr True, a)),
      au_verify_authorization = (\<lambda>_ _. False), au_verify_consumption = (\<lambda>_ _ _. False), au_decision = (\<lambda>_. []),
      au_reason = (\<lambda>_. []), au_claim = (\<lambda>_. []), au_authorize = (\<lambda>_ a. (Inl RuntimeError, a)),
      au_lookup_authorization = (\<lambda>_ a. (Inr None, a)), au_lookup_consumption = (\<lambda>_ a. (Inr None, a)),
      au_consume = (\<lambda>_ _ _ a. (Inl RuntimeError, a))\<rparr>"

definition pool_config :: "(unit, unit) config" where
  "pool_config =
     \<lparr>cf_worker = [], cf_backend = None, cf_provider = True, cf_policy = default_policy, cf_gate = False,
      cf_authority = no_authority\<rparr>"

definition demo_request :: "string \<Rightarrow> pyfloat \<Rightarrow> request" where
  "demo_request k a =
     \<lparr>rq_passage = demo_passage\<lparr>ps_key := k\<rparr>, rq_scoring = ''PASS'', rq_delegation = None,
      rq_resource = Some ''r'', rq_amount = Some a, rq_trajectory = None, rq_hash = Some ''h'',
      rq_payload = True, rq_digest = None, rq_operation = None, rq_scope = None, rq_time = ''t'', rq_now = Fin 0\<rparr>"

definition demo_payload :: payload_in where
  "demo_payload = \<lparr>pi_hash = Some ''h'', pi_digest = None\<rparr>"

definition confirmed :: "execution \<Rightarrow> execution_result" where
  "confirmed ex = \<lparr>pr_outcome = PConfirmed, pr_violated = False\<rparr>"

definition reserved_record :: operation where
  "reserved_record =
     (the (check_request False (demo_request ''k'' (Fin 20))))\<lparr>op_state := op_state.RESERVED, budget_reserved := True\<rparr>"

definition reserved_registry :: registry where
  "reserved_registry =
     (reg_new False \<lparr>store_f = FAbsent, mark_f = QAbsent, q_initialized = False, q_pending = False\<rparr>)
       \<lparr>records := [(''k'', reserved_record)]\<rparr>"

definition contended :: "(fault list \<times> action) list" where
  "contended =
     [([], SBegin ''A'' ''k'' None (Some fzero) demo_payload), ([], SBegin ''B'' ''k'' None (Some fzero) demo_payload),
      ([], SCall 0 confirmed), ([], SCall 0 confirmed), ([], SSettle 0)]"

lemma reserved_registry_ok: "reg_ok reserved_registry"
proof -
  have "keyed (records reserved_registry) \<and> \<not> durable reserved_registry \<and> \<not> corrupted reserved_registry"
    by code_simp
  then show ?thesis by (simp add: reg_ok_def)
qed

definition contended_end :: "(unit, unit) gov" where
  "contended_end = sy_gov (sys_run pool_config (start reserved_registry () demo_membrane ()) contended)"

lemma contended_calls: "map (\<lambda>e. (ex_key e, ex_amount e)) (g_executed contended_end) = [(''k'', Fin 20)]"
  by code_simp

text \<open>
  C1. At most one effect per operation, whatever happens: any number of governor processes, any
  interleaving of their methods, exceptions before or after any call, crashes, claims and losses
  by other threads, quarantine and reconciliation. The provider's \<open>execute\<close> is never called twice
  with one idempotency key, and every call carries the amount, the agent and the action of the
  operation registered under its key.
\<close>

theorem governor_at_most_once:
  fixes cf :: "('b, 'a) config"
  assumes "reg_ok g"
  shows "let s = sy_gov (sys_run cf (start g b m a) es) in
    distinct (map ex_key (g_executed s)) \<and> (\<forall>ex \<in> set (g_executed s). recorded s ex)"
proof -
  have "effects_ok (sys_run cf (start g b m a) es)"
    unfolding sys_run_def by (rule effects.run_inv [OF start_effects [OF assms]])
  then show ?thesis by (simp add: effects_ok_def Let_def)
qed

theorem governor_at_most_once_witness:
  "reg_ok reserved_registry \<and>
   map (\<lambda>e. (ex_key e, ex_amount e)) (g_executed contended_end) = [(''k'', Fin 20)] \<and>
   distinct (map ex_key (g_executed contended_end)) \<and> list_all (recorded contended_end) (g_executed contended_end)"
  using governor_at_most_once [OF reserved_registry_ok, of pool_config "()" demo_membrane "()" contended]
    reserved_registry_ok contended_calls
  by (simp add: Let_def contended_end_def list_all_iff)

end
