(* ===== verification/Trust.thy ===== *)
theory Trust
  imports Complex_Main Prelude "HOL-Library.List_Lexorder" "HOL-Library.Char_ord" "HOL-Library.Product_Lexorder"
begin

section \<open>Signed trust: claims, snapshots and checkpoints\<close>

text \<open>
  The pure part of the EP-02 trust protocol: the documentary policy (\<open>ep01_policy.py\<close>,
  \<open>ep01_evidence.py\<close>), trust states and their binding (\<open>ep02_binding.py\<close>), signed snapshots
  (\<open>ep02_signed_trust.py\<close>), successors (\<open>ep02_rotation.py\<close>) and the comparison with an external
  anchor (\<open>ep02_external_anchor.py\<close>, \<open>ep02_authenticated_anchor.py\<close>), all under
  \<open>tenir_governance/experimental\<close>. The texts that are hashed and signed are canonical JSON behind
  a domain; a text is modelled by what it says, one constructor of \<open>message\<close> for each kind. The
  digest of a text, its length and the Ed25519 verification are arguments. Values have the types
  the code checks for at run time, so only its checks on values remain.
\<close>

subsection \<open>What is hashed and signed\<close>

text \<open>A time stamp is naive, or an instant with the offset it was written in.\<close>

datatype moment = Naive int | Aware int int

record claim =
  cl_identifier :: string
  cl_issuer :: string
  cl_replaces :: string
  cl_effective :: moment

record trust_state =
  ts_revision :: int
  ts_policy :: string
  ts_mandates :: "(string \<times> string) list"
  ts_revoked :: "string list"

text \<open>The payload of a snapshot: the trust state with sorted lists and the sorted issuer keys.\<close>

record snapshot_payload =
  sp_state :: trust_state
  sp_keys :: "(string \<times> string) list"

type_synonym checkpoint = "int \<times> string"

record signed_trust =
  sg_state :: trust_state
  sg_signature :: string
  sg_signer :: string
  sg_keys :: "(string \<times> string) list"

record signed_claim =
  sc_claim :: claim
  sc_signature :: string

datatype message =
    Claim_Text claim
  | Claim_And_Signature claim string
  | Trust_Digest trust_state
  | Trust_Text trust_state
  | Snapshot snapshot_payload
  | Anchor_Text string checkpoint string

text \<open>
  The library functions: \<open>sha256(text).hexdigest()\<close>, the number of bytes, and
  \<open>Ed25519PublicKey.verify\<close> for a raw public key and a signature.
\<close>

record crypto =
  hash :: "message \<Rightarrow> string"
  bytes :: "message \<Rightarrow> nat"
  verifies :: "string \<Rightarrow> string \<Rightarrow> message \<Rightarrow> bool"

subsection \<open>The documentary policy\<close>

datatype verdict = ADMISSIBLE | HOLD | REJECT

fun aware :: "moment \<Rightarrow> bool" where
  "aware (Aware _ _) = True"
| "aware (Naive _) = False"

fun instant :: "moment \<Rightarrow> int" where
  "instant (Aware t _) = t"
| "instant (Naive t) = t"

definition evaluate_claims ::
  "claim list \<Rightarrow> string \<Rightarrow> string \<Rightarrow> (string \<Rightarrow> string list) \<Rightarrow> moment \<Rightarrow> (verdict \<times> string) result" where
  "evaluate_claims cs prior scope mandates now =
     (if \<not> aware now then Inl ValueError
      else if cs = [] \<or> prior = [] \<or> scope = [] then Inr (HOLD, ''INSUFFICIENT_CONTEXT'')
      else if list_ex (\<lambda>c. cl_identifier c = [] \<or> cl_issuer c = [] \<or> cl_replaces c = [] \<or> \<not> aware (cl_effective c)) cs
      then Inr (HOLD, ''INVALID_INPUT'')
      else if \<not> distinct (map cl_identifier cs) then Inr (HOLD, ''DUPLICATE_CLAIM'')
      else if list_ex (\<lambda>c. scope \<notin> set (mandates (cl_issuer c))) cs then Inr (REJECT, ''INSUFFICIENT_STANDING'')
      else if list_ex (\<lambda>c. cl_replaces c \<noteq> prior) cs then Inr (HOLD, ''PRECEDENCE_UNRESOLVED'')
      else
        (let active = filter (\<lambda>c. instant (cl_effective c) \<le> instant now) cs in
         if length active > 1 then Inr (HOLD, ''CONFLICTING_ACTIVE_CLAIMS'')
         else if active = [] then Inr (HOLD, ''NOT_YET_EFFECTIVE'')
         else Inr (ADMISSIBLE, ''POLICY_PRECONDITIONS_MET'')))"

text \<open>The loop of \<open>verify_and_evaluate\<close>: the first claim that is not authenticated.\<close>

fun unauthenticated :: "crypto \<Rightarrow> (string, string) dict \<Rightarrow> signed_claim list \<Rightarrow> string option" where
  "unauthenticated cr keys [] = None"
| "unauthenticated cr keys (s # ss) =
     (case map_of keys (cl_issuer (sc_claim s)) of
        None \<Rightarrow> Some ''UNKNOWN_ISSUER_KEY''
      | Some k \<Rightarrow>
          if \<not> aware (cl_effective (sc_claim s)) \<or> \<not> verifies cr k (sc_signature s) (Claim_Text (sc_claim s))
          then Some ''INVALID_SIGNATURE''
          else unauthenticated cr keys ss)"

definition verify_and_evaluate ::
  "crypto \<Rightarrow> signed_claim list \<Rightarrow> string \<Rightarrow> string \<Rightarrow> (string, string) dict \<Rightarrow> (string \<Rightarrow> string list) \<Rightarrow> moment \<Rightarrow>
     (verdict \<times> string) result" where
  "verify_and_evaluate cr ss prior scope keys mandates now =
     (if ss = [] then Inr (HOLD, ''INSUFFICIENT_CONTEXT'')
      else case unauthenticated cr keys ss of
        Some why \<Rightarrow> Inr (REJECT, why)
      | None \<Rightarrow> evaluate_claims (map sc_claim ss) prior scope mandates now)"

subsection \<open>Trust states and findings\<close>

record finding =
  fi_revision :: int
  fi_digest :: string
  fi_policy :: string
  fi_claim :: string
  fi_prior :: string
  fi_scope :: string
  fi_snapshot :: string

definition sorted_state :: "trust_state \<Rightarrow> trust_state" where
  "sorted_state t = t\<lparr>ts_mandates := sort (ts_mandates t), ts_revoked := sort (ts_revoked t)\<rparr>"

definition trust_digest :: "crypto \<Rightarrow> trust_state \<Rightarrow> string" where
  "trust_digest cr t = hash cr (Trust_Digest (sorted_state t))"

definition bind_finding :: "crypto \<Rightarrow> trust_state \<Rightarrow> string \<Rightarrow> string \<Rightarrow> string \<Rightarrow> string \<Rightarrow> finding option" where
  "bind_finding cr t issuer scope prior cd =
     (if ts_revision t < 1 \<or> ts_policy t = [] \<or> cd = [] \<or> prior = [] \<or> issuer \<in> set (ts_revoked t) \<or>
         (issuer, scope) \<notin> set (ts_mandates t)
      then None
      else Some \<lparr>fi_revision = ts_revision t, fi_digest = trust_digest cr t, fi_policy = ts_policy t,
                 fi_claim = cd, fi_prior = prior, fi_scope = scope, fi_snapshot = []\<rparr>)"

definition revalidate :: "crypto \<Rightarrow> finding \<Rightarrow> trust_state \<Rightarrow> string \<Rightarrow> string \<Rightarrow> string \<Rightarrow> bool" where
  "revalidate cr f t cd prior scope \<longleftrightarrow>
     fi_revision f = ts_revision t \<and> fi_digest f = trust_digest cr t \<and> fi_policy f = ts_policy t \<and>
     fi_claim f = cd \<and> fi_prior f = prior \<and> fi_scope f = scope"

definition state_valid :: "trust_state \<Rightarrow> bool" where
  "state_valid t \<longleftrightarrow>
     1 \<le> ts_revision t \<and> ts_policy t \<noteq> [] \<and> list_all (\<lambda>m. fst m \<noteq> [] \<and> snd m \<noteq> []) (ts_mandates t) \<and>
     distinct (ts_mandates t) \<and> list_all (\<lambda>r. r \<noteq> []) (ts_revoked t) \<and> distinct (ts_revoked t)"

definition canonical_trust :: "trust_state \<Rightarrow> message option" where
  "canonical_trust t = (if state_valid t then Some (Trust_Text (sorted_state t)) else None)"

subsection \<open>Signed snapshots\<close>

text \<open>\<open>bound_snapshot_bytes\<close>; \<open>None\<close> when it raises.\<close>

definition bound_payload :: "signed_trust \<Rightarrow> snapshot_payload option" where
  "bound_payload s =
     (if distinct (map fst (sg_keys s)) \<and> list_all (\<lambda>k. commit_id_ok (fst k) \<and> length (snd k) = 32) (sg_keys s) \<and>
         state_valid (sg_state s)
      then Some \<lparr>sp_state = sorted_state (sg_state s), sp_keys = sort (sg_keys s)\<rparr>
      else None)"

definition signed_form :: "signed_trust \<Rightarrow> int \<Rightarrow> bool" where
  "signed_form s least \<longleftrightarrow>
     1 \<le> least \<and> commit_id_ok (sg_signer s) \<and> length (sg_signature s) = 64 \<and> state_valid (sg_state s) \<and>
     least \<le> ts_revision (sg_state s)"

definition verify_trust_snapshot :: "crypto \<Rightarrow> signed_trust \<Rightarrow> (string, string) dict \<Rightarrow> int \<Rightarrow> bool" where
  "verify_trust_snapshot cr s roots least \<longleftrightarrow>
     signed_form s least \<and>
     (case map_of roots (sg_signer s) of
        None \<Rightarrow> False
      | Some k \<Rightarrow> verifies cr k (sg_signature s) (Trust_Text (sorted_state (sg_state s))))"

definition verify_bound_snapshot :: "crypto \<Rightarrow> signed_trust \<Rightarrow> (string, string) dict \<Rightarrow> int \<Rightarrow> bool" where
  "verify_bound_snapshot cr s roots least \<longleftrightarrow>
     signed_form s least \<and>
     (case (map_of roots (sg_signer s), bound_payload s) of
        (Some k, Some p) \<Rightarrow> verifies cr k (sg_signature s) (Snapshot p)
      | _ \<Rightarrow> False)"

definition mandates_of :: "trust_state \<Rightarrow> string \<Rightarrow> string list" where
  "mandates_of t issuer = map snd (filter (\<lambda>m. fst m = issuer) (ts_mandates t))"

definition claim_digest :: "crypto \<Rightarrow> signed_claim \<Rightarrow> string" where
  "claim_digest cr c = hash cr (Claim_And_Signature (sc_claim c) (sc_signature c))"

text \<open>
  The preflight against the keys inside the snapshot. Its last component is the finding.
\<close>

definition verified_bound_preflight ::
  "crypto \<Rightarrow> signed_claim \<Rightarrow> string \<Rightarrow> string \<Rightarrow> moment \<Rightarrow> signed_trust \<Rightarrow> (string, string) dict \<Rightarrow> int \<Rightarrow>
     (verdict \<times> string \<times> finding option) result" where
  "verified_bound_preflight cr c prior scope now t roots least =
     (let issuer = cl_issuer (sc_claim c) in
      if \<not> verify_bound_snapshot cr t roots least then Inr (REJECT, ''TRUST_SNAPSHOT_UNVERIFIED'', None)
      else if issuer \<in> set (ts_revoked (sg_state t)) then Inr (REJECT, ''ISSUER_REVOKED'', None)
      else if issuer \<notin> fst ` set (sg_keys t) then Inr (REJECT, ''ISSUER_KEY_NOT_BOUND'', None)
      else bindE (verify_and_evaluate cr [c] prior scope (sg_keys t) (mandates_of (sg_state t)) now) (\<lambda>(v, why).
        if v \<noteq> ADMISSIBLE then Inr (v, why, None)
        else case bind_finding cr (sg_state t) issuer scope prior (claim_digest cr c) of
          None \<Rightarrow> Inr (REJECT, ''TRUST_SCOPE_REJECTED'', None)
        | Some f \<Rightarrow>
            Inr (ADMISSIBLE, ''BOUND_PREFLIGHT_NOT_COMMITTED'',
              Some (f\<lparr>fi_snapshot := (case bound_payload t of None \<Rightarrow> [] | Some p \<Rightarrow> hash cr (Snapshot p))\<rparr>))))"

definition revalidate_bound ::
  "crypto \<Rightarrow> finding \<Rightarrow> signed_claim \<Rightarrow> string \<Rightarrow> string \<Rightarrow> moment \<Rightarrow> signed_trust \<Rightarrow> (string, string) dict \<Rightarrow> int \<Rightarrow>
     (verdict \<times> string) result" where
  "revalidate_bound cr f c prior scope now t roots least =
     bindE (verified_bound_preflight cr c prior scope now t roots least) (\<lambda>(v, why, new).
       case (v, new) of
         (ADMISSIBLE, Some n) \<Rightarrow>
           if \<not> revalidate cr f (sg_state t) (fi_claim n) prior scope \<or> fi_snapshot f \<noteq> fi_snapshot n
           then Inr (HOLD, ''TRUST_OR_CLAIM_CHANGED'')
           else Inr (ADMISSIBLE, ''BOUND_PREFLIGHT_VALID_NOT_COMMITTED'')
       | _ \<Rightarrow> Inr (v, why))"

text \<open>The legacy preflight takes the issuer keys from its caller, and only when that is allowed.\<close>

definition verified_preflight ::
  "crypto \<Rightarrow> signed_claim \<Rightarrow> string \<Rightarrow> string \<Rightarrow> moment \<Rightarrow> signed_trust \<Rightarrow> (string, string) dict \<Rightarrow> (string, string) dict \<Rightarrow>
     int \<Rightarrow> bool \<Rightarrow> (verdict \<times> string \<times> finding option) result" where
  "verified_preflight cr c prior scope now t roots issuers least allow =
     (let issuer = cl_issuer (sc_claim c) in
      if \<not> allow then Inr (REJECT, ''LEGACY_UNBOUND_ISSUER_KEYS_DISABLED'', None)
      else if \<not> verify_trust_snapshot cr t roots least then Inr (REJECT, ''TRUST_SNAPSHOT_UNVERIFIED'', None)
      else if issuer \<in> set (ts_revoked (sg_state t)) then Inr (REJECT, ''ISSUER_REVOKED'', None)
      else bindE (verify_and_evaluate cr [c] prior scope issuers (mandates_of (sg_state t)) now) (\<lambda>(v, why).
        if v \<noteq> ADMISSIBLE then Inr (v, why, None)
        else case bind_finding cr (sg_state t) issuer scope prior (claim_digest cr c) of
          None \<Rightarrow> Inr (REJECT, ''TRUST_SCOPE_REJECTED'', None)
        | Some f \<Rightarrow> Inr (ADMISSIBLE, ''VERIFIED_PREFLIGHT_ONLY'', Some f)))"

definition verified_revalidation ::
  "crypto \<Rightarrow> finding \<Rightarrow> signed_claim \<Rightarrow> string \<Rightarrow> string \<Rightarrow> moment \<Rightarrow> signed_trust \<Rightarrow> (string, string) dict \<Rightarrow>
     (string, string) dict \<Rightarrow> int \<Rightarrow> bool \<Rightarrow> (verdict \<times> string) result" where
  "verified_revalidation cr f c prior scope now t roots issuers least allow =
     bindE (verified_preflight cr c prior scope now t roots issuers least allow) (\<lambda>(v, why, new).
       case (v, new) of
         (ADMISSIBLE, Some n) \<Rightarrow>
           if \<not> revalidate cr f (sg_state t) (fi_claim n) prior scope then Inr (HOLD, ''TRUST_OR_CLAIM_CHANGED'')
           else Inr (ADMISSIBLE, ''PREFLIGHT_STILL_VALID_NOT_COMMITTED'')
       | _ \<Rightarrow> Inr (v, why))"

subsection \<open>Successors\<close>

text \<open>\<open>validate_successor\<close>: the flag, the reason and the checkpoint to move to.\<close>

definition validate_successor ::
  "crypto \<Rightarrow> checkpoint \<Rightarrow> signed_trust \<Rightarrow> (string, string) dict \<Rightarrow> bool \<times> string \<times> checkpoint option" where
  "validate_successor cr prev cand roots =
     (if \<not> verify_bound_snapshot cr cand roots (fst prev) then (False, ''UNVERIFIED_OR_ROLLBACK'', None)
      else case bound_payload cand of
        None \<Rightarrow> (False, ''UNVERIFIED_OR_ROLLBACK'', None)
      | Some p \<Rightarrow>
          (let new = hash cr (Snapshot p); rev = ts_revision (sg_state cand) in
           if rev = fst prev then
             (if new = snd prev then (True, ''UNCHANGED'', Some prev)
              else (False, ''SAME_REVISION_EQUIVOCATION'', None))
           else if rev < fst prev then (False, ''REVISION_ROLLBACK'', None)
           else (True, ''ADVANCED'', Some (rev, new))))"

subsection \<open>External anchors\<close>

datatype anchor_status = CURRENT | UNAVAILABLE | CONFLICT

definition checkpoint_valid :: "checkpoint \<Rightarrow> bool" where
  "checkpoint_valid c \<longleftrightarrow> 1 \<le> fst c \<and> hex64 (snd c)"

definition assess_anchor :: "checkpoint \<Rightarrow> anchor_status \<times> checkpoint option \<Rightarrow> bool \<times> string" where
  "assess_anchor local obs =
     (if \<not> checkpoint_valid local then (False, ''LOCAL_CHECKPOINT_INVALID'')
      else case obs of
        (CURRENT, Some remote) \<Rightarrow>
          if \<not> checkpoint_valid remote then (False, ''ANCHOR_CHECKPOINT_INVALID'')
          else if fst remote > fst local then (False, ''LOCAL_CHECKPOINT_STALE'')
          else if fst remote < fst local then (False, ''ANCHOR_BEHIND_LOCAL'')
          else if snd remote \<noteq> snd local then (False, ''CHECKPOINT_EQUIVOCATION'')
          else (True, ''CHECKPOINTS_AGREE'')
      | _ \<Rightarrow> (False, ''ANCHOR_UNAVAILABLE_OR_CONFLICT''))"

record signed_anchor =
  an_checkpoint :: checkpoint
  an_id :: string
  an_challenge :: string
  an_signature :: string

definition challenge_ok :: "string \<Rightarrow> bool" where
  "challenge_ok c \<longleftrightarrow> 16 \<le> length c \<and> length c \<le> 64"

definition anchor_payload :: "string \<Rightarrow> checkpoint \<Rightarrow> string \<Rightarrow> message option" where
  "anchor_payload i c ch =
     (if commit_id_ok i \<and> challenge_ok ch \<and> checkpoint_valid c then Some (Anchor_Text i c ch) else None)"

definition verify_anchor :: "crypto \<Rightarrow> signed_anchor \<Rightarrow> (string, string) dict \<Rightarrow> string \<Rightarrow> bool" where
  "verify_anchor cr a trusted ch \<longleftrightarrow>
     challenge_ok ch \<and> an_challenge a = ch \<and>
     (case (map_of trusted (an_id a), anchor_payload (an_id a) (an_checkpoint a) (an_challenge a)) of
        (Some k, Some m) \<Rightarrow> verifies cr k (an_signature a) m
      | _ \<Rightarrow> False)"

definition assess_signed_anchor ::
  "crypto \<Rightarrow> checkpoint \<Rightarrow> signed_anchor option \<Rightarrow> (string, string) dict \<Rightarrow> string \<Rightarrow> bool \<times> string" where
  "assess_signed_anchor cr local obs trusted ch =
     (case obs of
        None \<Rightarrow> (False, ''ANCHOR_AUTHENTICATION_FAILED'')
      | Some a \<Rightarrow>
          if \<not> verify_anchor cr a trusted ch then (False, ''ANCHOR_AUTHENTICATION_FAILED'')
          else assess_anchor local (CURRENT, Some (an_checkpoint a)))"

end
