(* ===== verification/Trust_CAS.thy ===== *)
theory Trust_CAS
  imports Trust
begin

section \<open>The durable compare-and-swap of trust checkpoints\<close>

text \<open>
  \<open>DurableAnchorCAS\<close> of \<open>tenir_governance/experimental/ep02_durable_cas.py\<close>. The database is its
  three tables, the names of its triggers and the answer of \<open>PRAGMA quick_check\<close>; no database is
  \<open>None\<close>. The envelope of a request is the JSON text that is hashed; a stored text is \<open>None\<close> when it
  is not JSON, not canonical, lacks a field or has one of another type. \<open>BadValue\<close> stands for
  \<open>ValueError\<close>, \<open>TypeError\<close> and \<open>FileExistsError\<close>. A transaction has a seam before and one after
  its commit, where an exception or the end of the process may strike; the reply reads the
  checkpoint again afterwards. Links in the file system and the settings of the connection are
  not modelled.
\<close>

subsection \<open>Tables\<close>

record profile =
  pf_authority :: string
  pf_profile :: string
  pf_generation :: int
  pf_digest :: string
  pf_roots :: "(string, string) dict"

record envelope =
  en_version :: int
  en_domain :: string
  en_operation :: string
  en_authority :: string
  en_profile :: string
  en_generation :: int
  en_profile_digest :: string
  en_expected :: "checkpoint option"
  en_signer :: string
  en_signature :: string
  en_payload :: snapshot_payload
  en_fingerprint :: string

text \<open>The digests this module computes over texts of its own.\<close>

record cas_crypto = crypto +
  profile_hash :: "string \<Rightarrow> int \<Rightarrow> (string, string) dict \<Rightarrow> string"
  envelope_hash :: "envelope \<Rightarrow> string"
  envelope_bytes :: "envelope \<Rightarrow> nat"

record cas_row =
  cw_sequence :: int
  cw_request :: string
  cw_digest :: string
  cw_operation :: string
  cw_result :: string
  cw_reason :: string
  cw_observed :: "int option \<times> string option"
  cw_checkpoint :: "int option \<times> string option"
  cw_successor :: string
  cw_envelope :: "envelope option"

record authority_row = profile +
  ar_schema :: int

record cas_db =
  db_quick :: bool
  db_authority :: "authority_row option"
  db_checkpoint :: "(int \<times> string) option"
  db_requests :: "cas_row list"
  db_triggers :: "string list"

datatype cas_result = APPLIED | UNCHANGED | CONFLICT | NOT_INITIALIZED | REJECTED

fun cas_str :: "cas_result \<Rightarrow> string" where
  "cas_str APPLIED = ''APPLIED''"
| "cas_str UNCHANGED = ''UNCHANGED''"
| "cas_str CONFLICT = ''CONFLICT''"
| "cas_str NOT_INITIALIZED = ''NOT_INITIALIZED''"
| "cas_str REJECTED = ''REJECTED''"

definition cas_of :: "string \<Rightarrow> cas_result option" where
  "cas_of s = find (\<lambda>r. cas_str r = s) [APPLIED, UNCHANGED, CONFLICT, NOT_INITIALIZED, REJECTED]"

datatype cas_exn =
    StoreIntegrity
  | NotProvisioned
  | RequestIdConflict
  | BadValue
  | Seam

record response =
  re_request :: string
  re_digest :: string
  re_operation :: string
  re_result :: cas_result
  re_reason :: string
  re_observed :: "checkpoint option"
  re_checkpoint :: "checkpoint option"
  re_sequence :: int
  re_replayed :: bool

subsection \<open>Reading the database\<close>

text \<open>\<open>_checkpoint\<close> on two nullable columns.\<close>

fun read_columns :: "int option \<times> string option \<Rightarrow> (cas_exn + checkpoint option)" where
  "read_columns (None, None) = Inr None"
| "read_columns (Some r, Some f) = (if 1 \<le> r \<and> hex64 f then Inr (Some (r, f)) else Inl StoreIntegrity)"
| "read_columns _ = Inl StoreIntegrity"

definition columns :: "checkpoint option \<Rightarrow> int option \<times> string option" where
  "columns c = (map_option fst c, map_option snd c)"

definition read_checkpoint :: "cas_db \<Rightarrow> (cas_exn + checkpoint option)" where
  "read_checkpoint d = read_columns (columns (db_checkpoint d))"

definition guards :: "string list" where
  "guards = [''authority_no_update'', ''authority_no_delete'', ''requests_no_update'', ''requests_no_delete'']"

definition guarded :: "cas_db \<Rightarrow> bool" where
  "guarded d \<longleftrightarrow> set guards \<subseteq> set (db_triggers d)"

definition profile_row :: "profile \<Rightarrow> authority_row" where
  "profile_row p = profile.extend p \<lparr>ar_schema = 1\<rparr>"

text \<open>\<open>_connect\<close>: the handle's profile must still be the stored one.\<close>

definition cas_connect :: "profile \<Rightarrow> cas_db option \<Rightarrow> (cas_exn + cas_db)" where
  "cas_connect p db =
     (case db of
        None \<Rightarrow> Inl NotProvisioned
      | Some d \<Rightarrow>
          if db_quick d \<and> db_authority d = Some (profile_row p) \<and> guarded d then Inr d
          else Inl StoreIntegrity)"

subsection \<open>Snapshots and envelopes\<close>

definition MAX_ENVELOPE :: nat where
  "MAX_ENVELOPE = 1048576"

text \<open>\<open>_freeze_snapshot\<close>: the checks and the payload; \<open>None\<close> when it raises.\<close>

definition freeze :: "('x cas_crypto_scheme) \<Rightarrow> signed_trust \<Rightarrow> snapshot_payload option" where
  "freeze cr s =
     (if \<not> state_valid (sg_state s) \<or> \<not> commit_id_ok (sg_signer s) \<or> length (sg_signature s) \<noteq> 64 then None
      else case bound_payload s of
        None \<Rightarrow> None
      | Some p \<Rightarrow>
          if bytes cr (Snapshot p) + length (sg_signature s) > MAX_ENVELOPE then None else Some p)"

definition fingerprint :: "('x cas_crypto_scheme) \<Rightarrow> snapshot_payload \<Rightarrow> string" where
  "fingerprint cr p = hash cr (Snapshot p)"

text \<open>\<open>_request_context\<close>.\<close>

definition request_context ::
  "('x cas_crypto_scheme) \<Rightarrow> profile \<Rightarrow> string \<Rightarrow> checkpoint option \<Rightarrow> signed_trust \<Rightarrow> (cas_exn + envelope)" where
  "request_context cr p operation expected s =
     (if operation \<notin> {''BOOTSTRAP'', ''CAS''} \<or> (operation = ''CAS'' \<and> expected = None) then Inl BadValue
      else case freeze cr s of
        None \<Rightarrow> Inl BadValue
      | Some pl \<Rightarrow>
          (let e = \<lparr>en_version = 1, en_domain = ''TENIR-EP02-DURABLE-CAS'', en_operation = operation,
                    en_authority = pf_authority p, en_profile = pf_profile p, en_generation = pf_generation p,
                    en_profile_digest = pf_digest p, en_expected = expected, en_signer = sg_signer s,
                    en_signature = sg_signature s, en_payload = pl, en_fingerprint = fingerprint cr pl\<rparr> in
           if (case expected of None \<Rightarrow> False | Some c \<Rightarrow> \<not> checkpoint_valid c) \<or> envelope_bytes cr e > MAX_ENVELOPE
           then Inl BadValue else Inr e))"

text \<open>\<open>_snapshot_from_envelope\<close>: the stored successor, which must be in canonical form.\<close>

definition snapshot_from_envelope :: "('x cas_crypto_scheme) \<Rightarrow> envelope \<Rightarrow> signed_trust option" where
  "snapshot_from_envelope cr e =
     (let s = \<lparr>sg_state = sp_state (en_payload e), sg_signature = en_signature e, sg_signer = en_signer e,
               sg_keys = sp_keys (en_payload e)\<rparr> in
      case freeze cr s of
        None \<Rightarrow> None
      | Some p \<Rightarrow> if p \<noteq> en_payload e \<or> en_fingerprint e \<noteq> fingerprint cr p then None else Some s)"

subsection \<open>The decision\<close>

text \<open>
  Both \<open>_execute\<close> and the check of the stored history decide an operation on a checkpoint: the
  result, the reason and the checkpoint afterwards.
\<close>

definition decide ::
  "('x cas_crypto_scheme) \<Rightarrow> (string, string) dict \<Rightarrow> string \<Rightarrow> checkpoint option \<Rightarrow> signed_trust \<Rightarrow> string \<Rightarrow>
     checkpoint option \<Rightarrow> cas_result \<times> string \<times> checkpoint option" where
  "decide cr roots operation expected s fp current =
     (if operation = ''BOOTSTRAP'' then
        (if current \<noteq> None then (CONFLICT, ''ALREADY_INITIALIZED'', current)
         else if \<not> verify_bound_snapshot (crypto.truncate cr) s roots 1
         then (REJECTED, ''UNVERIFIED_INITIAL_SNAPSHOT'', current)
         else (APPLIED, ''BOOTSTRAPPED'', Some (ts_revision (sg_state s), fp)))
      else case current of
        None \<Rightarrow> (NOT_INITIALIZED, ''NOT_INITIALIZED'', None)
      | Some c \<Rightarrow>
          if Some c \<noteq> expected then (CONFLICT, ''EXPECTED_STATE_MISMATCH'', current)
          else (let (ok, why, new) = validate_successor (crypto.truncate cr) c s roots in
                if \<not> ok then (CONFLICT, why, current)
                else if why = ''UNCHANGED'' then (UNCHANGED, why, current)
                else (APPLIED, why, new)))"

subsection \<open>Opening\<close>

text \<open>
  \<open>_validate_request_rows\<close>: the stored requests are decided again, from no checkpoint, and every
  stored outcome must be the one derived.
\<close>

definition row_bound :: "('x cas_crypto_scheme) \<Rightarrow> profile \<Rightarrow> cas_row \<Rightarrow> envelope \<Rightarrow> bool" where
  "row_bound cr p w e \<longleftrightarrow>
     1 \<le> cw_sequence w \<and> commit_id_ok (cw_request w) \<and> hex64 (cw_digest w) \<and>
     cw_operation w \<in> {''BOOTSTRAP'', ''CAS''} \<and> hex64 (cw_successor w) \<and>
     envelope_hash cr e = cw_digest w \<and> en_version e = 1 \<and> en_domain e = ''TENIR-EP02-DURABLE-CAS'' \<and>
     en_operation e = cw_operation w \<and> en_authority e = pf_authority p \<and> en_profile e = pf_profile p \<and>
     en_generation e = pf_generation p \<and> en_profile_digest e = pf_digest p"

text \<open>The expectation a stored request was made with.\<close>

definition expectation_ok :: "cas_row \<Rightarrow> envelope \<Rightarrow> bool" where
  "expectation_ok w e \<longleftrightarrow>
     (case en_expected e of None \<Rightarrow> True | Some c \<Rightarrow> checkpoint_valid c \<and> cw_operation w \<noteq> ''BOOTSTRAP'')"

definition check_row ::
  "('x cas_crypto_scheme) \<Rightarrow> profile \<Rightarrow> checkpoint option \<Rightarrow> cas_row \<Rightarrow> (cas_exn + checkpoint option)" where
  "check_row cr p sim w =
     (case (read_columns (cw_observed w), read_columns (cw_checkpoint w), cw_envelope w, cas_of (cw_result w)) of
        (Inr observed, Inr result_cp, Some e, Some result) \<Rightarrow>
          if \<not> row_bound cr p w e then Inl StoreIntegrity
          else case snapshot_from_envelope cr e of
            None \<Rightarrow> Inl StoreIntegrity
          | Some s \<Rightarrow>
              if cw_successor w \<noteq> en_fingerprint e \<or> \<not> expectation_ok w e \<or> observed \<noteq> sim
              then Inl StoreIntegrity
              else (let (r, why, cp) = decide cr (pf_roots p) (cw_operation w) (en_expected e) s (en_fingerprint e) sim in
                    if result \<noteq> r \<or> cw_reason w \<noteq> why \<or> result_cp \<noteq> cp then Inl StoreIntegrity
                    else Inr (if result = APPLIED then cp else sim))
      | _ \<Rightarrow> Inl StoreIntegrity)"

fun check_rows ::
  "('x cas_crypto_scheme) \<Rightarrow> profile \<Rightarrow> checkpoint option \<Rightarrow> cas_row list \<Rightarrow> (cas_exn + checkpoint option)" where
  "check_rows cr p sim [] = Inr sim"
| "check_rows cr p sim (w # ws) = bindE (check_row cr p sim w) (\<lambda>sim'. check_rows cr p sim' ws)"

definition roots_ok :: "(string, string) dict \<Rightarrow> bool" where
  "roots_ok rs \<longleftrightarrow> rs \<noteq> [] \<and> list_all (\<lambda>r. commit_id_ok (fst r) \<and> length (snd r) = 32) rs \<and> wf_dict rs"

text \<open>\<open>open\<close>: every check on the file; the handle is the stored profile.\<close>

definition cas_open :: "('x cas_crypto_scheme) \<Rightarrow> cas_db option \<Rightarrow> (cas_exn + profile)" where
  "cas_open cr db =
     (case db of
        None \<Rightarrow> Inl NotProvisioned
      | Some d \<Rightarrow>
          (case db_authority d of
             None \<Rightarrow> Inl StoreIntegrity
           | Some a \<Rightarrow>
               (let p = profile.truncate a in
                if \<not> db_quick d \<or> ar_schema a \<noteq> 1 \<or> \<not> commit_id_ok (pf_authority p) \<or> \<not> commit_id_ok (pf_profile p) \<or>
                   pf_generation p < 1 \<or> \<not> roots_ok (pf_roots p) \<or> \<not> sorted (pf_roots p) \<or>
                   pf_digest p \<noteq> profile_hash cr (pf_profile p) (pf_generation p) (pf_roots p) \<or> \<not> guarded d
                then Inl StoreIntegrity
                else bindE (read_checkpoint d) (\<lambda>current.
                  bindE (check_rows cr p None (db_requests d)) (\<lambda>sim.
                    if sim \<noteq> current then Inl StoreIntegrity else Inr p)))))"

definition cas_provision ::
  "('x cas_crypto_scheme) \<Rightarrow> cas_db option \<Rightarrow> string \<Rightarrow> string \<Rightarrow> int \<Rightarrow> (string, string) dict \<Rightarrow>
     (cas_exn + profile) \<times> cas_db option" where
  "cas_provision cr db authority prof generation roots =
     (if \<not> commit_id_ok authority \<or> \<not> commit_id_ok prof \<or> generation < 1 \<or> \<not> roots_ok roots \<or> db \<noteq> None
      then (Inl BadValue, db)
      else
        (let rs = sort roots;
             p = \<lparr>pf_authority = authority, pf_profile = prof, pf_generation = generation,
                  pf_digest = profile_hash cr prof generation rs, pf_roots = rs\<rparr>;
             d = Some \<lparr>db_quick = True, db_authority = Some (profile_row p), db_checkpoint = None,
                       db_requests = [], db_triggers = guards\<rparr>
         in (cas_open cr d, d)))"

subsection \<open>Executing\<close>

definition response_of :: "cas_row \<Rightarrow> (cas_exn + response)" where
  "response_of w =
     bindE (read_columns (cw_observed w)) (\<lambda>ob. bindE (read_columns (cw_checkpoint w)) (\<lambda>cp.
       case cas_of (cw_result w) of
         None \<Rightarrow> Inl BadValue
       | Some r \<Rightarrow>
           Inr \<lparr>re_request = cw_request w, re_digest = cw_digest w, re_operation = cw_operation w, re_result = r,
                re_reason = cw_reason w, re_observed = ob, re_checkpoint = cp, re_sequence = cw_sequence w,
                re_replayed = True\<rparr>))"

definition next_sequence :: "cas_row list \<Rightarrow> int" where
  "next_sequence ws = 1 + fold max (map cw_sequence ws) 0"

definition find_request :: "cas_db \<Rightarrow> string \<Rightarrow> cas_row option" where
  "find_request d rid = find (\<lambda>w. cw_request w = rid) (db_requests d)"

text \<open>The body of the transaction of \<open>_execute\<close>: the response and the tables it would commit.\<close>

definition cas_body ::
  "('x cas_crypto_scheme) \<Rightarrow> profile \<Rightarrow> string \<Rightarrow> string \<Rightarrow> checkpoint option \<Rightarrow> signed_trust \<Rightarrow> envelope \<Rightarrow>
     cas_db \<Rightarrow> (cas_exn + response \<times> cas_db)" where
  "cas_body cr p operation rid expected s e d =
     bindE (read_checkpoint d) (\<lambda>current.
       case find_request d rid of
         Some w \<Rightarrow>
           bindE (response_of w) (\<lambda>r. if re_digest r \<noteq> envelope_hash cr e then Inl RequestIdConflict else Inr (r, d))
       | None \<Rightarrow>
           (let (result, why, cp) = decide cr (pf_roots p) operation expected s (en_fingerprint e) current;
                w = \<lparr>cw_sequence = next_sequence (db_requests d), cw_request = rid, cw_digest = envelope_hash cr e,
                     cw_operation = operation, cw_result = cas_str result, cw_reason = why,
                     cw_observed = columns current, cw_checkpoint = columns cp,
                     cw_successor = en_fingerprint e, cw_envelope = Some e\<rparr>
            in Inr (\<lparr>re_request = rid, re_digest = envelope_hash cr e, re_operation = operation, re_result = result,
                     re_reason = why, re_observed = current, re_checkpoint = cp,
                     re_sequence = cw_sequence w, re_replayed = False\<rparr>,
                    d\<lparr>db_checkpoint := (if result = APPLIED then cp else db_checkpoint d),
                      db_requests := db_requests d @ [w]\<rparr>)))"

text \<open>Where an exception strikes: nowhere, before the commit, after it.\<close>

datatype seam = Quiet | Before | After

definition cas_execute ::
  "('x cas_crypto_scheme) \<Rightarrow> profile \<Rightarrow> string \<Rightarrow> string \<Rightarrow> checkpoint option \<Rightarrow> signed_trust \<Rightarrow> seam \<Rightarrow>
     cas_db option \<Rightarrow> (cas_exn + response) \<times> cas_db option" where
  "cas_execute cr p operation rid expected s f db =
     (if \<not> commit_id_ok rid then (Inl BadValue, db)
      else case request_context cr p operation expected s of
        Inl x \<Rightarrow> (Inl x, db)
      | Inr e \<Rightarrow>
          (case bindE (cas_connect p db) (cas_body cr p operation rid expected s e) of
             Inl x \<Rightarrow> (Inl x, db)
           | Inr (r, d') \<Rightarrow>
               (case f of
                  Before \<Rightarrow> (Inl Seam, db)
                | After \<Rightarrow> (Inl Seam, Some d')
                | Quiet \<Rightarrow> (Inr r, Some d'))))"

definition cas_bootstrap ::
  "('x cas_crypto_scheme) \<Rightarrow> profile \<Rightarrow> string \<Rightarrow> signed_trust \<Rightarrow> seam \<Rightarrow> cas_db option \<Rightarrow>
     (cas_exn + response) \<times> cas_db option" where
  "cas_bootstrap cr p rid s = cas_execute cr p ''BOOTSTRAP'' rid None s"

definition compare_and_swap ::
  "('x cas_crypto_scheme) \<Rightarrow> profile \<Rightarrow> string \<Rightarrow> checkpoint option \<Rightarrow> signed_trust \<Rightarrow> seam \<Rightarrow> cas_db option \<Rightarrow>
     (cas_exn + response) \<times> cas_db option" where
  "compare_and_swap cr p rid expected s = cas_execute cr p ''CAS'' rid expected s"

definition cas_get :: "profile \<Rightarrow> cas_db option \<Rightarrow> (cas_exn + checkpoint option)" where
  "cas_get p db = bindE (cas_connect p db) read_checkpoint"

text \<open>\<open>lookup\<close>: the recorded outcome of a request, with the checkpoint it reads beside it.\<close>

definition cas_lookup ::
  "profile \<Rightarrow> string \<Rightarrow> string \<Rightarrow> cas_db option \<Rightarrow> (cas_exn + response option \<times> checkpoint option)" where
  "cas_lookup p rid dg db =
     (if \<not> commit_id_ok rid \<or> \<not> hex64 dg then Inl BadValue
      else bindE (cas_connect p db) (\<lambda>d. bindE (read_checkpoint d) (\<lambda>current.
        case find_request d rid of
          None \<Rightarrow> Inr (None, current)
        | Some w \<Rightarrow>
            bindE (response_of w) (\<lambda>r. if re_digest r \<noteq> dg then Inl RequestIdConflict else Inr (Some r, current)))))"

definition request_count :: "profile \<Rightarrow> cas_db option \<Rightarrow> (cas_exn + nat)" where
  "request_count p db = bindE (cas_connect p db) (\<lambda>d. Inr (length (db_requests d)))"

end
