(* ===== verification/Trust_CAS_Guarantees.thy ===== *)
theory Trust_CAS_Guarantees
  imports Trust_CAS Machine
begin

section \<open>What the durable compare-and-swap guarantees\<close>

text \<open>
  Properties of every sequence of requests that any number of processes make on one authority
  file, with an exception before or after any commit: a reopened file is always accepted, a
  request has one outcome whatever is retried, the checkpoint only moves to newer snapshots
  that a root of the profile signed, and what \<open>open\<close> accepts was so decided.
\<close>

subsection \<open>Canonical snapshots\<close>

definition canonical_signed :: "signed_trust \<Rightarrow> signed_trust" where
  "canonical_signed s = s\<lparr>sg_state := sorted_state (sg_state s), sg_keys := sort (sg_keys s)\<rparr>"

lemma sorted_state_simps [simp]:
  "ts_revision (sorted_state t) = ts_revision t" "sorted_state (sorted_state t) = sorted_state t"
  "state_valid (sorted_state t) = state_valid t"
  by (simp_all add: sorted_state_def state_valid_def list_all_iff sort_key_id_if_sorted sorted_sort)

lemma canonical_signed_simps [simp]:
  "sg_signature (canonical_signed s) = sg_signature s" "sg_signer (canonical_signed s) = sg_signer s"
  "ts_revision (sg_state (canonical_signed s)) = ts_revision (sg_state s)"
  "state_valid (sg_state (canonical_signed s)) = state_valid (sg_state s)"
  by (simp_all add: canonical_signed_def)

lemma distinct_map_sort: "distinct (map f (sort xs)) = distinct (map f xs)"
  for xs :: "'a::linorder list"
  by (simp add: distinct_map)

lemma bound_payload_canonical [simp]: "bound_payload (canonical_signed s) = bound_payload s"
  by (simp add: bound_payload_def canonical_signed_def distinct_map_sort list_all_iff sort_key_id_if_sorted sorted_sort)

lemma verify_canonical [simp]:
  "verify_bound_snapshot cr (canonical_signed s) roots n = verify_bound_snapshot cr s roots n"
  by (simp add: verify_bound_snapshot_def signed_form_def cong: option.case_cong)

lemma successor_canonical [simp]: "validate_successor cr c (canonical_signed s) roots = validate_successor cr c s roots"
  by (simp add: validate_successor_def cong: option.case_cong)

lemma freeze_canonical [simp]: "freeze cr (canonical_signed s) = freeze cr s"
  by (simp add: freeze_def cong: option.case_cong)

lemma decide_canonical [simp]:
  "decide cr roots oper ex (canonical_signed s) fp cur = decide cr roots oper ex s fp cur"
  by (cases cur) (simp_all add: decide_def)

lemma freeze_Some:
  assumes "freeze cr s = Some p"
  shows "bound_payload s = Some p"
    and "p = \<lparr>sp_state = sorted_state (sg_state s), sp_keys = sort (sg_keys s)\<rparr>"
  using assms by (auto simp: freeze_def bound_payload_def split: if_splits option.splits)

lemma verify_SomeD:
  assumes "verify_bound_snapshot cr s roots n"
  obtains k p where "map_of roots (sg_signer s) = Some k" "bound_payload s = Some p"
    "verifies cr k (sg_signature s) (Snapshot p)" "1 \<le> n" "n \<le> ts_revision (sg_state s)"
  using assms by (auto simp: verify_bound_snapshot_def signed_form_def split: option.splits)

subsection \<open>Decisions\<close>

text \<open>SHA-256 digests are 64 lower-case hexadecimal digits.\<close>

definition hashes :: "'x cas_crypto_scheme \<Rightarrow> bool" where
  "hashes cr \<longleftrightarrow> (\<forall>m. hex64 (hash cr m)) \<and> (\<forall>e. hex64 (envelope_hash cr e))"

definition valid_opt :: "checkpoint option \<Rightarrow> bool" where
  "valid_opt c \<longleftrightarrow> (case c of None \<Rightarrow> True | Some c \<Rightarrow> checkpoint_valid c)"

lemma read_columns_columns [simp]: "valid_opt c \<Longrightarrow> read_columns (columns c) = Inr c"
  by (cases c) (auto simp: valid_opt_def columns_def checkpoint_valid_def)

lemma read_columns_valid: "read_columns c = Inr cp \<Longrightarrow> valid_opt cp"
  by (cases c rule: read_columns.cases) (auto simp: valid_opt_def checkpoint_valid_def split: if_splits)

lemma read_columns_eq: "read_columns (columns c) = Inr cp \<Longrightarrow> cp = c"
  by (cases c) (auto simp: columns_def split: if_splits)

text \<open>An applied decision moves to the signed snapshot, above the checkpoint it found.\<close>

lemma decide_applied:
  assumes d: "decide cr roots oper ex s fp cur = (APPLIED, why, cp)"
    and p: "bound_payload s = Some p" and fp: "fp = fingerprint cr p"
  obtains k where "cp = Some (ts_revision (sg_state s), fp)" "map_of roots (sg_signer s) = Some k"
    "verifies (crypto.truncate cr) k (sg_signature s) (Snapshot p)" "1 \<le> ts_revision (sg_state s)"
    "case cur of None \<Rightarrow> True | Some c \<Rightarrow> ex = Some c \<and> oper \<noteq> ''BOOTSTRAP'' \<and> fst c < ts_revision (sg_state s)"
proof (cases "oper = ''BOOTSTRAP''")
  case True
  with d have n: "cur = None" "cp = Some (ts_revision (sg_state s), fp)"
    and v: "verify_bound_snapshot (crypto.truncate cr) s roots 1"
    by (cases cur; auto simp: decide_def split: if_splits)+
  from v obtain k where "map_of roots (sg_signer s) = Some k" "verifies (crypto.truncate cr) k (sg_signature s) (Snapshot p)"
    "1 \<le> ts_revision (sg_state s)"
    by (rule verify_SomeD) (use p in auto)
  then show ?thesis using that n by simp
next
  case False
  with d obtain c where c: "cur = Some c" "ex = Some c"
    and v: "validate_successor (crypto.truncate cr) c s roots = (True, why, cp)" "why \<noteq> ''UNCHANGED''"
    by (auto simp: decide_def Let_def split: option.splits if_splits prod.splits)
  from v p have "verify_bound_snapshot (crypto.truncate cr) s roots (fst c)" "fst c < ts_revision (sg_state s)"
    "cp = Some (ts_revision (sg_state s), fp)"
    by (auto simp: validate_successor_def Let_def fp fingerprint_def crypto.truncate_def split: if_splits)
  moreover from this(1) obtain k where "map_of roots (sg_signer s) = Some k"
    "verifies (crypto.truncate cr) k (sg_signature s) (Snapshot p)" "1 \<le> ts_revision (sg_state s)"
    by (rule verify_SomeD) (use p in auto)
  ultimately show ?thesis using that c False by simp
qed

lemma decide_valid:
  assumes "hashes cr" and "bound_payload s = Some p" and "fp = fingerprint cr p" and "valid_opt cur"
    and d: "decide cr roots oper ex s fp cur = (r, why, cp)"
  shows "valid_opt cp" and "r \<noteq> APPLIED \<Longrightarrow> cp = cur"
proof -
  show same: "cp = cur" if "r \<noteq> APPLIED"
    using d that by (auto simp: decide_def Let_def split: if_splits option.splits prod.splits)
  show "valid_opt cp"
  proof (cases "r = APPLIED")
    case True
    from decide_applied [OF d [unfolded True] assms(2,3)] assms(1,3) show ?thesis
      by (metis (no_types, lifting) checkpoint_valid_def fingerprint_def fst_conv hashes_def option.case(2) snd_conv
          valid_opt_def)
  qed (use same assms(4) in simp)
qed

subsection \<open>The rows that are written are accepted\<close>

lemma request_contextD:
  assumes "request_context cr p oper ex s = Inr e"
  obtains pl where "freeze cr s = Some pl"
    "e = \<lparr>en_version = 1, en_domain = ''TENIR-EP02-DURABLE-CAS'', en_operation = oper,
          en_authority = pf_authority p, en_profile = pf_profile p, en_generation = pf_generation p,
          en_profile_digest = pf_digest p, en_expected = ex, en_signer = sg_signer s,
          en_signature = sg_signature s, en_payload = pl, en_fingerprint = fingerprint cr pl\<rparr>"
    "oper = ''BOOTSTRAP'' \<or> oper = ''CAS''" "oper = ''CAS'' \<Longrightarrow> ex \<noteq> None" "valid_opt ex"
  using assms by (auto simp: request_context_def Let_def valid_opt_def split: if_splits option.splits)

lemma stored_snapshot:
  assumes "request_context cr p oper ex s = Inr e"
  shows "snapshot_from_envelope cr e = Some (canonical_signed s)"
  using assms
proof (elim request_contextD)
  fix pl assume f: "freeze cr s = Some pl" and e: "e = \<lparr>en_version = 1, en_domain = ''TENIR-EP02-DURABLE-CAS'',
    en_operation = oper, en_authority = pf_authority p, en_profile = pf_profile p, en_generation = pf_generation p,
    en_profile_digest = pf_digest p, en_expected = ex, en_signer = sg_signer s,
    en_signature = sg_signature s, en_payload = pl, en_fingerprint = fingerprint cr pl\<rparr>"
  have c: "\<lparr>sg_state = sp_state pl, sg_signature = sg_signature s, sg_signer = sg_signer s, sg_keys = sp_keys pl\<rparr> =
    canonical_signed s"
    using freeze_Some(2) [OF f] by (simp add: canonical_signed_def)
  from f have "freeze cr (canonical_signed s) = Some pl" by simp
  then show ?thesis by (simp add: snapshot_from_envelope_def e c Let_def)
qed

lemma cas_of_str [simp]: "cas_of (cas_str r) = Some r"
  by (cases r) (simp_all add: cas_of_def)

lemma cas_ofD: "cas_of s = Some r \<Longrightarrow> cas_str r = s"
  by (auto simp: cas_of_def split: if_splits)

subsection \<open>The invariant of the file\<close>

text \<open>What \<open>open\<close> asks of the file that belongs to profile \<open>p\<close>, and that request identities are unique.\<close>

definition profile_good :: "'x cas_crypto_scheme \<Rightarrow> profile \<Rightarrow> bool" where
  "profile_good cr p \<longleftrightarrow>
     commit_id_ok (pf_authority p) \<and> commit_id_ok (pf_profile p) \<and> 1 \<le> pf_generation p \<and> roots_ok (pf_roots p) \<and>
     sorted (pf_roots p) \<and> pf_digest p = profile_hash cr (pf_profile p) (pf_generation p) (pf_roots p)"

definition db_good :: "'x cas_crypto_scheme \<Rightarrow> profile \<Rightarrow> cas_db \<Rightarrow> bool" where
  "db_good cr p d \<longleftrightarrow>
     db_quick d \<and> db_authority d = Some (profile_row p) \<and> guarded d \<and> profile_good cr p \<and>
     valid_opt (db_checkpoint d) \<and> distinct (map cw_request (db_requests d)) \<and>
     check_rows cr p None (db_requests d) = Inr (db_checkpoint d)"

lemma check_rows_append:
  "check_rows cr p sim (ws @ [w]) = bindE (check_rows cr p sim ws) (\<lambda>t. check_row cr p t w)"
proof (induction ws arbitrary: sim)
  case (Cons v ws)
  then show ?case by (cases "check_row cr p sim v") simp_all
next
  case Nil
  show ?case by (cases "check_row cr p sim w") simp_all
qed

lemma profile_row_simps [simp]:
  "ar_schema (profile_row p) = 1" "profile.truncate (profile_row p) = p"
  by (simp_all add: profile_row_def profile.defs)

lemma profile_row_eq: "ar_schema a = 1 \<Longrightarrow> profile.truncate a = p \<Longrightarrow> a = profile_row p"
  by (cases a) (auto simp: profile_row_def profile.defs)

lemma good_open: "db_good cr p d \<Longrightarrow> cas_open cr (Some d) = Inr p"
  by (auto simp: db_good_def cas_open_def read_checkpoint_def profile_good_def Let_def)

lemma good_connect:
  assumes "db_good cr p d" and "cas_connect q (Some d) = Inr d'"
  shows "q = p" and "d' = d"
proof -
  from assms have "profile_row p = profile_row q" "d' = d"
    by (auto simp: db_good_def cas_connect_def split: if_splits)
  then show "q = p" "d' = d" by (auto dest: arg_cong [where f = profile.truncate])
qed

lemma connect_good: "db_good cr p d \<Longrightarrow> cas_connect p (Some d) = Inr d"
  by (simp add: db_good_def cas_connect_def)

lemma next_sequence_pos: "1 \<le> next_sequence ws"
proof -
  have "n \<le> fold max xs n" for xs :: "int list" and n
  proof (induction xs arbitrary: n)
    case (Cons x xs)
    show ?case using Cons.IH [of "max x n"] by simp
  qed simp
  from this [of 0 "map cw_sequence ws"] show ?thesis by (simp add: next_sequence_def)
qed

text \<open>The new row, and that the check of the history accepts it.\<close>

lemma new_row_checks:
  assumes h: "hashes cr" and rid: "commit_id_ok rid" and e: "request_context cr p oper ex s = Inr e"
    and cur: "valid_opt cur" and d: "decide cr (pf_roots p) oper ex s (en_fingerprint e) cur = (r, why, cp)"
    and b: "oper = ''BOOTSTRAP'' \<Longrightarrow> ex = None"
    and w: "cw_sequence w = next_sequence ws" "cw_request w = rid" "cw_digest w = envelope_hash cr e"
      "cw_operation w = oper" "cw_result w = cas_str r" "cw_reason w = why" "cw_observed w = columns cur"
      "cw_checkpoint w = columns cp" "cw_successor w = en_fingerprint e" "cw_envelope w = Some e"
  shows "check_row cr p cur w = Inr (if r = APPLIED then cp else cur)" and "valid_opt cp"
proof -
  from e obtain pl where f: "freeze cr s = Some pl" and ee: "en_version e = 1"
    "en_domain e = ''TENIR-EP02-DURABLE-CAS''" "en_operation e = oper" "en_authority e = pf_authority p"
    "en_profile e = pf_profile p" "en_generation e = pf_generation p" "en_profile_digest e = pf_digest p"
    "en_expected e = ex" "en_fingerprint e = fingerprint cr pl" "oper = ''BOOTSTRAP'' \<or> oper = ''CAS''" "valid_opt ex"
    by (elim request_contextD) auto
  show cp: "valid_opt cp"
    using decide_valid(1) [OF h freeze_Some(1) [OF f] ee(9) cur d] .
  have "1 \<le> next_sequence ws" by (rule next_sequence_pos)
  moreover have "hex64 (fingerprint cr pl)" "hex64 (envelope_hash cr e)" using h by (auto simp: hashes_def fingerprint_def)
  ultimately show "check_row cr p cur w = Inr (if r = APPLIED then cp else cur)"
    using stored_snapshot [OF e] d cp cur rid ee b unfolding check_row_def row_bound_def expectation_ok_def w
    by (auto simp: valid_opt_def split: option.splits)
qed

subsection \<open>One request\<close>

text \<open>A later file: requests are only appended, the checkpoint stays or moves to a higher revision.\<close>

definition cas_le :: "cas_db \<Rightarrow> cas_db \<Rightarrow> bool" where
  "cas_le d d' \<longleftrightarrow>
     (\<exists>ws. db_requests d' = db_requests d @ ws) \<and>
     (\<forall>c. db_checkpoint d = Some c \<longrightarrow> (\<exists>c'. db_checkpoint d' = Some c' \<and> (c' = c \<or> fst c < fst c')))"

lemma cas_le_refl [simp]: "cas_le d d"
  by (simp add: cas_le_def)

lemma cas_le_trans: "cas_le d e \<Longrightarrow> cas_le e f \<Longrightarrow> cas_le d f"
  unfolding cas_le_def by (elim conjE exE, intro conjI allI impI, simp, fastforce)

lemma find_request_later:
  assumes "cas_le d d'" and "find_request d rid = Some w"
  shows "find_request d' rid = Some w"
proof -
  have "find P (xs @ ys) = Some w" if "find P xs = Some w" for P and xs ys :: "cas_row list"
    using that by (induction xs) (auto split: if_splits)
  with assms show ?thesis by (auto simp: cas_le_def find_request_def)
qed

lemma find_request_None: "find_request d rid = None \<Longrightarrow> rid \<notin> cw_request ` set (db_requests d)"
  by (auto simp: find_request_def find_None_iff)

definition reply_row :: "cas_row \<Rightarrow> bool \<Rightarrow> response \<Rightarrow> bool" where
  "reply_row w replayed r \<longleftrightarrow>
     re_request r = cw_request w \<and> re_digest r = cw_digest w \<and> re_operation r = cw_operation w \<and>
     re_reason r = cw_reason w \<and> re_sequence r = cw_sequence w \<and> re_replayed r = replayed \<and>
     cas_of (cw_result w) = Some (re_result r) \<and> read_columns (cw_observed w) = Inr (re_observed r) \<and>
     read_columns (cw_checkpoint w) = Inr (re_checkpoint r)"

lemma response_reply: "response_of w = Inr r \<longleftrightarrow> reply_row w True r"
  by (cases r) (auto simp: response_of_def reply_row_def bindE_Inr_conv split: option.splits)

text \<open>
  A committed body either replays the row of its request or appends the decided row; after it the
  row of the request is there and the reply shows it.
\<close>

lemma cas_body_cases:
  assumes h: "hashes cr" and good: "db_good cr p d" and rid: "commit_id_ok rid"
    and e: "request_context cr p oper ex s = Inr e" and b: "oper = ''BOOTSTRAP'' \<Longrightarrow> ex = None"
    and body: "cas_body cr p oper rid ex s e d = Inr (r, d')"
  shows "db_good cr p d'" and "cas_le d d'"
    and "\<exists>w. find_request d' rid = Some w \<and> cw_digest w = envelope_hash cr e \<and> reply_row w (re_replayed r) r"
    and "re_replayed r \<Longrightarrow> d' = d"
    and "\<not> re_replayed r \<Longrightarrow> find_request d rid = None \<and> re_observed r = db_checkpoint d \<and>
      decide cr (pf_roots p) oper ex s (en_fingerprint e) (db_checkpoint d) = (re_result r, re_reason r, re_checkpoint r) \<and>
      db_checkpoint d' = (if re_result r = APPLIED then re_checkpoint r else db_checkpoint d)"
proof -
  let ?cur = "db_checkpoint d"
  from good have cur: "valid_opt ?cur" and cr: "read_checkpoint d = Inr ?cur"
    by (auto simp: db_good_def read_checkpoint_def)
  have "db_good cr p d' \<and> cas_le d d' \<and>
    (\<exists>w. find_request d' rid = Some w \<and> cw_digest w = envelope_hash cr e \<and> reply_row w (re_replayed r) r) \<and>
    (re_replayed r \<longrightarrow> d' = d) \<and>
    (\<not> re_replayed r \<longrightarrow> find_request d rid = None \<and> re_observed r = ?cur \<and>
      decide cr (pf_roots p) oper ex s (en_fingerprint e) ?cur = (re_result r, re_reason r, re_checkpoint r) \<and>
      db_checkpoint d' = (if re_result r = APPLIED then re_checkpoint r else ?cur))"
  proof (cases "find_request d rid")
    case (Some w)
    with body cr have "response_of w = Inr r" "re_digest r = envelope_hash cr e" "d' = d"
      by (auto simp: cas_body_def bindE_Inr_conv split: if_splits)
    then have w: "reply_row w True r" "re_digest r = envelope_hash cr e" "d' = d" by (auto simp: response_reply)
    then have "re_replayed r" "re_digest r = cw_digest w" by (simp_all add: reply_row_def)
    with w Some good show ?thesis by auto
  next
    case None
    obtain res why cp where dec: "decide cr (pf_roots p) oper ex s (en_fingerprint e) ?cur = (res, why, cp)"
      by (metis prod_cases3)
    define w where "w = \<lparr>cw_sequence = next_sequence (db_requests d), cw_request = rid, cw_digest = envelope_hash cr e,
      cw_operation = oper, cw_result = cas_str res, cw_reason = why, cw_observed = columns ?cur,
      cw_checkpoint = columns cp, cw_successor = en_fingerprint e, cw_envelope = Some e\<rparr>"
    have r: "r = \<lparr>re_request = rid, re_digest = envelope_hash cr e, re_operation = oper, re_result = res,
        re_reason = why, re_observed = ?cur, re_checkpoint = cp,
        re_sequence = next_sequence (db_requests d), re_replayed = False\<rparr>"
      and d': "d' = d\<lparr>db_checkpoint := (if res = APPLIED then cp else ?cur), db_requests := db_requests d @ [w]\<rparr>"
      using body None cr dec by (simp_all add: cas_body_def w_def)
    have chk: "check_row cr p ?cur w = Inr (if res = APPLIED then cp else ?cur)" and cp: "valid_opt cp"
      using new_row_checks [OF h rid e cur dec b, of w "db_requests d"] by (simp_all add: w_def)
    have "check_rows cr p None (db_requests d) = Inr ?cur" using good by (simp add: db_good_def)
    then have "check_rows cr p None (db_requests d @ [w]) = Inr (if res = APPLIED then cp else ?cur)"
      using chk by (simp only: check_rows_append bindE_simps)
    then have g: "db_good cr p d'"
      using good cp find_request_None [OF None] unfolding db_good_def d'
      by (auto simp: guarded_def w_def)
    have "find_request d' rid = Some w"
    proof -
      have "find P (xs @ [w]) = Some w" if "find P xs = None" "P w" for P and xs :: "cas_row list"
        using that by (induction xs) (auto split: if_splits)
      from this [of "\<lambda>v. cw_request v = rid" "db_requests d"] None show ?thesis
        by (simp add: find_request_def d' w_def)
    qed
    moreover have "reply_row w False r" using cur cp by (simp add: reply_row_def r w_def)
    moreover have "cas_le d d'"
    proof (cases "res = APPLIED")
      case True
      from e obtain pl where f: "freeze cr s = Some pl" "en_fingerprint e = fingerprint cr pl"
        by (elim request_contextD) auto
      have "cp = Some (ts_revision (sg_state s), en_fingerprint e) \<and>
        (case ?cur of None \<Rightarrow> True | Some c \<Rightarrow> fst c < ts_revision (sg_state s))"
        by (rule decide_applied [OF dec [unfolded True] freeze_Some(1) [OF f(1)] f(2)]) (auto split: option.splits)
      with True show ?thesis by (auto simp: cas_le_def d')
    qed (auto simp: cas_le_def d')
    ultimately show ?thesis using g None dec by (auto simp: r d' w_def)
  qed
  then show "db_good cr p d'" "cas_le d d'"
    "\<exists>w. find_request d' rid = Some w \<and> cw_digest w = envelope_hash cr e \<and> reply_row w (re_replayed r) r"
    "re_replayed r \<Longrightarrow> d' = d"
    "\<not> re_replayed r \<Longrightarrow> find_request d rid = None \<and> re_observed r = db_checkpoint d \<and>
      decide cr (pf_roots p) oper ex s (en_fingerprint e) (db_checkpoint d) = (re_result r, re_reason r, re_checkpoint r) \<and>
      db_checkpoint d' = (if re_result r = APPLIED then re_checkpoint r else db_checkpoint d)"
    by blast+
qed

subsection \<open>Runs\<close>

text \<open>A request of a process that holds a handle with profile \<open>p\<close>.\<close>

datatype cas_op =
    Boot string signed_trust
  | Swap string "checkpoint option" signed_trust

fun cas_request ::
  "'x cas_crypto_scheme \<Rightarrow> profile \<Rightarrow> cas_op \<Rightarrow> seam \<Rightarrow> cas_db option \<Rightarrow> (cas_exn + response) \<times> cas_db option" where
  "cas_request cr p (Boot rid s) f db = cas_bootstrap cr p rid s f db"
| "cas_request cr p (Swap rid ex s) f db = compare_and_swap cr p rid ex s f db"

definition cas_step ::
  "'x cas_crypto_scheme \<Rightarrow> cas_db option \<Rightarrow> profile \<times> cas_op \<times> seam \<Rightarrow> cas_db option" where
  "cas_step cr db e = (case e of (p, r, f) \<Rightarrow> snd (cas_request cr p r f db))"

definition file_good :: "'x cas_crypto_scheme \<Rightarrow> profile \<Rightarrow> cas_db option \<Rightarrow> bool" where
  "file_good cr p db \<longleftrightarrow> hashes cr \<and> (\<exists>d. db = Some d \<and> db_good cr p d)"

definition file_le :: "cas_db option \<Rightarrow> cas_db option \<Rightarrow> bool" where
  "file_le a b \<longleftrightarrow> a = b \<or> (\<exists>d d'. a = Some d \<and> b = Some d' \<and> cas_le d d')"

lemma file_le_trans: "file_le a b \<Longrightarrow> file_le b c \<Longrightarrow> file_le a c"
  by (auto simp: file_le_def intro: cas_le_trans)

lemma execute_cases:
  assumes g: "file_good cr p (Some d)" and run: "cas_execute cr q oper rid ex s f (Some d) = (x, db')"
  obtains (Refused) "db' = Some d" "\<And>r. x \<noteq> Inr r"
  | (Done) e r d' where "q = p" "commit_id_ok rid" "request_context cr p oper ex s = Inr e"
      "cas_body cr p oper rid ex s e d = Inr (r, d')" "f = Before \<Longrightarrow> db' = Some d" "f \<noteq> Before \<Longrightarrow> db' = Some d'"
      "x = (if f = Quiet then Inr r else Inl Seam)"
proof (cases "commit_id_ok rid")
  case True
  show ?thesis
  proof (cases "request_context cr q oper ex s")
    case (Inr e)
    show ?thesis
    proof (cases "bindE (cas_connect q (Some d)) (cas_body cr q oper rid ex s e)")
      case (Inl a)
      with run True Inr have "x = Inl a" "db' = Some d" by (simp_all add: cas_execute_def)
      then show ?thesis by (intro Refused) simp_all
    next
      case body: (Inr rd)
      then obtain d0 where d0: "cas_connect q (Some d) = Inr d0" "cas_body cr q oper rid ex s e d0 = Inr rd"
        by (auto simp: bindE_Inr_conv)
      with g have "q = p" "d0 = d" by (auto simp: file_good_def dest: good_connect)
      obtain r d' where rd: "rd = (r, d')" by (cases rd)
      from run True Inr body have "x = (if f = Quiet then Inr r else Inl Seam)"
        "f = Before \<Longrightarrow> db' = Some d" "f \<noteq> Before \<Longrightarrow> db' = Some d'"
        by (cases f; simp add: cas_execute_def rd)+
      with \<open>q = p\<close> \<open>d0 = d\<close> True Inr d0 rd show ?thesis by (intro Done [of e r d']) simp_all
    qed
  next
    case (Inl a)
    with run True have "x = Inl a" "db' = Some d" by (simp_all add: cas_execute_def)
    then show ?thesis by (intro Refused) simp_all
  qed
next
  case False
  with run have "x = Inl BadValue" "db' = Some d" by (simp_all add: cas_execute_def)
  then show ?thesis by (intro Refused) simp_all
qed

lemma execute_good:
  assumes g: "file_good cr p db" and b: "oper = ''BOOTSTRAP'' \<Longrightarrow> ex = None"
    and run: "cas_execute cr q oper rid ex s f db = (x, db')"
  shows "file_good cr p db' \<and> file_le db db'"
proof -
  from g obtain d where d: "db = Some d" "hashes cr" "db_good cr p d" by (auto simp: file_good_def)
  from g [unfolded d(1)] run [unfolded d(1)] show ?thesis
  proof (cases rule: execute_cases)
    case (Done e r d')
    with cas_body_cases(1,2) [OF d(2,3) Done(2,3) b Done(4)] d show ?thesis
      by (cases "f = Before") (auto simp: file_good_def file_le_def)
  qed (use g d in \<open>auto simp: file_le_def\<close>)
qed

lemma cas_step_good:
  assumes "file_good cr p db"
  shows "file_good cr p (cas_step cr db e) \<and> file_le db (cas_step cr db e)"
proof -
  obtain q r f where e: "e = (q, r, f)" by (cases e)
  show ?thesis
  proof (cases r)
    case (Boot rid s)
    then show ?thesis
      using execute_good [OF assms, of "''BOOTSTRAP''" None q rid s f]
      by (simp add: cas_step_def e cas_bootstrap_def prod_eq_iff)
  next
    case (Swap rid ex s)
    then show ?thesis
      using execute_good [OF assms, of "''CAS''" ex q rid s f]
      by (simp add: cas_step_def e compare_and_swap_def prod_eq_iff)
  qed
qed

interpretation cas: machine_order "cas_step cr" "file_good cr p" file_le
proof unfold_locales
  show "file_le s s" for s by (simp add: file_le_def)
qed (auto dest: cas_step_good intro: file_le_trans)

lemma provisioned:
  assumes "hashes cr" and "cas_provision cr None a pf n roots = (Inr p, db)"
  shows "file_good cr p db"
proof -
  let ?p = "\<lparr>pf_authority = a, pf_profile = pf, pf_generation = n, pf_digest = profile_hash cr pf n (sort roots),
    pf_roots = sort roots\<rparr>"
  from assms(2) have ok: "commit_id_ok a" "commit_id_ok pf" "1 \<le> n" "roots_ok roots"
    and o: "cas_open cr db = Inr p"
    and db: "db = Some \<lparr>db_quick = True, db_authority = Some (profile_row ?p), db_checkpoint = None,
      db_requests = [], db_triggers = guards\<rparr>"
    by (auto simp: cas_provision_def Let_def split: if_splits)
  have "roots_ok (sort roots)"
    using ok(4) by (auto simp: roots_ok_def list_all_iff distinct_map_sort simp flip: set_empty)
  then have "db_good cr ?p (the db)"
    using ok by (simp add: db db_good_def guarded_def profile_good_def valid_opt_def)
  moreover from good_open [OF this] o have "?p = p" by (simp add: db)
  ultimately show ?thesis using assms(1) db by (simp add: file_good_def)
qed

subsection \<open>The guarantees\<close>

text \<open>
  C32. A file that was provisioned and then used by any number of processes, with exceptions before
  and after any commit, is accepted when it is opened again: the whole history of outcomes is
  derived once more by the check, and it agrees with the checkpoint.
\<close>

theorem cas_reopens:
  assumes "hashes cr" and "cas_provision cr None a pf n roots = (Inr p, db)"
  shows "cas_open cr (foldl (cas_step cr) db es) = Inr p"
  using cas.run_inv [OF provisioned [OF assms], of es] by (auto simp: file_good_def intro: good_open)

text \<open>
  C36. Neither rollback nor equivocation: however the file is used later, its checkpoint stays or is
  replaced by one of a strictly higher revision.
\<close>

theorem cas_never_rolls_back:
  assumes "hashes cr" and "cas_provision cr None a pf n roots = (Inr p, db)"
    and "cas_get p (foldl (cas_step cr) db es) = Inr (Some c)"
  shows "\<exists>c'. cas_get p (foldl (cas_step cr) db (es @ fs)) = Inr (Some c') \<and> (c' = c \<or> fst c < fst c')"
proof -
  have get: "cas_get p (Some d) = Inr (db_checkpoint d)" if "db_good cr p d" for d
    using that by (simp add: cas_get_def connect_good read_checkpoint_def) (simp add: db_good_def)
  let ?m = "foldl (cas_step cr) db es" and ?e = "foldl (cas_step cr) db (es @ fs)"
  have m: "file_good cr p ?m" by (rule cas.run_inv [OF provisioned [OF assms(1,2)]])
  then have le: "file_le ?m ?e" and e: "file_good cr p ?e"
    using cas.run_le [OF m, of fs] cas.run_inv [OF m, of fs] by simp_all
  from m obtain d where d: "?m = Some d" "db_good cr p d" by (auto simp: file_good_def)
  from e le d obtain d' where d': "?e = Some d'" "db_good cr p d'" "cas_le d d'"
    by (auto simp: file_good_def file_le_def)
  from assms(3) d get have "db_checkpoint d = Some c" by simp
  with d' get show ?thesis by (auto simp: cas_le_def)
qed

text \<open>
  A lost reply is found again: a request that was committed although its caller saw an exception
  is answered, whenever it is repeated, with the outcome it had, and changes nothing more.
\<close>

theorem cas_lost_reply:
  assumes g: "file_good cr p db"
    and lost: "cas_request cr p r After db = (Inl Seam, db')"
    and quiet: "cas_request cr p r Quiet db = (Inr x, db'')"
  shows "cas_request cr p r Quiet (foldl (cas_step cr) db' es) =
    (Inr (x\<lparr>re_replayed := True\<rparr>), foldl (cas_step cr) db' es)"
proof -
  obtain oper rid ex s where r: "\<And>f e. cas_request cr p r f e = cas_execute cr p oper rid ex s f e"
    and b: "oper = ''BOOTSTRAP'' \<Longrightarrow> ex = None"
    by (cases r) (auto simp: cas_bootstrap_def compare_and_swap_def)
  from g obtain d where d: "db = Some d" "hashes cr" "db_good cr p d" by (auto simp: file_good_def)
  from g [unfolded d(1)] quiet [unfolded r d(1)] obtain e d1 where rid: "commit_id_ok rid"
    and e: "request_context cr p oper ex s = Inr e" and body: "cas_body cr p oper rid ex s e d = Inr (x, d1)"
    by (cases rule: execute_cases) auto
  have db': "db' = Some d1"
    using lost rid e body connect_good [OF d(3)] by (simp add: r d(1) cas_execute_def)
  note c = cas_body_cases [OF d(2,3) rid e b body]
  from c(3) obtain w where w: "find_request d1 rid = Some w" "cw_digest w = envelope_hash cr e"
    "reply_row w (re_replayed x) x" by auto
  have m: "file_good cr p db'" using c(1) d by (simp add: file_good_def db')
  let ?f = "foldl (cas_step cr) db' es"
  from cas.run_inv [OF m, of es] cas.run_le [OF m, of es] obtain d2 where d2: "?f = Some d2" "db_good cr p d2" "cas_le d1 d2"
    by (auto simp: file_good_def file_le_def db')
  have found: "find_request d2 rid = Some w" by (rule find_request_later [OF d2(3) w(1)])
  have "response_of w = Inr (x\<lparr>re_replayed := True\<rparr>)" "re_digest x = envelope_hash cr e"
    using w(2,3) by (auto simp: response_reply reply_row_def)
  moreover have "read_checkpoint d2 = Inr (db_checkpoint d2)" using d2(2) by (simp add: read_checkpoint_def db_good_def)
  ultimately have "cas_body cr p oper rid ex s e d2 = Inr (x\<lparr>re_replayed := True\<rparr>, d2)"
    using found by (simp add: cas_body_def)
  then show ?thesis using rid e connect_good [OF d2(2)] by (simp add: r d2(1) cas_execute_def)
qed

subsection \<open>What the check of a history establishes\<close>

definition rank :: "checkpoint option \<Rightarrow> int" where
  "rank c = (case c of None \<Rightarrow> 0 | Some c \<Rightarrow> fst c)"

text \<open>What an accepted row says: the snapshot it moved to is signed by a root of the profile.\<close>

definition signed_row :: "'x cas_crypto_scheme \<Rightarrow> profile \<Rightarrow> cas_row \<Rightarrow> checkpoint \<Rightarrow> bool" where
  "signed_row cr p w c \<longleftrightarrow>
     (\<exists>e k. cw_envelope w = Some e \<and> cw_digest w = envelope_hash cr e \<and>
        c = (ts_revision (sp_state (en_payload e)), hash cr (Snapshot (en_payload e))) \<and>
        map_of (pf_roots p) (en_signer e) = Some k \<and>
        verifies (crypto.truncate cr) k (en_signature e) (Snapshot (en_payload e)))"

lemma check_rowD:
  assumes "check_row cr p sim w = Inr t"
  shows "read_columns (cw_observed w) = Inr sim"
    and "cas_of (cw_result w) = Some APPLIED \<Longrightarrow>
      rank sim < rank t \<and> read_columns (cw_checkpoint w) = Inr t \<and> (\<exists>c. t = Some c \<and> signed_row cr p w c)"
    and "cas_of (cw_result w) \<noteq> Some APPLIED \<Longrightarrow> t = sim"
proof -
  from assms obtain e s res r why cp where ob: "read_columns (cw_observed w) = Inr sim"
    and rc: "read_columns (cw_checkpoint w) = Inr cp" and e: "cw_envelope w = Some e" "cas_of (cw_result w) = Some res"
    and s: "snapshot_from_envelope cr e = Some s" and dig: "envelope_hash cr e = cw_digest w"
    and dec: "decide cr (pf_roots p) (cw_operation w) (en_expected e) s (en_fingerprint e) sim = (res, why, cp)"
    and t: "t = (if res = APPLIED then cp else sim)"
    unfolding check_row_def
    by (auto simp: Let_def row_bound_def split: sum.splits option.splits if_splits prod.splits)
  show "read_columns (cw_observed w) = Inr sim" by (rule ob)
  show "cas_of (cw_result w) \<noteq> Some APPLIED \<Longrightarrow> t = sim" using e t by simp
  assume "cas_of (cw_result w) = Some APPLIED"
  with e t have r: "res = APPLIED" "t = cp" by simp_all
  let ?s = "\<lparr>sg_state = sp_state (en_payload e), sg_signature = en_signature e, sg_signer = en_signer e,
    sg_keys = sp_keys (en_payload e)\<rparr>"
  from s have f: "freeze cr s = Some (en_payload e)" "en_fingerprint e = fingerprint cr (en_payload e)" "s = ?s"
    by (auto simp: snapshot_from_envelope_def Let_def split: option.splits if_splits)
  obtain k where
    k: "cp = Some (ts_revision (sg_state s), en_fingerprint e)" "map_of (pf_roots p) (sg_signer s) = Some k"
      "verifies (crypto.truncate cr) k (sg_signature s) (Snapshot (en_payload e))" "1 \<le> ts_revision (sg_state s)"
      "case sim of None \<Rightarrow> True
       | Some c \<Rightarrow> en_expected e = Some c \<and> cw_operation w \<noteq> ''BOOTSTRAP'' \<and> fst c < ts_revision (sg_state s)"
    by (rule decide_applied [OF dec [unfolded r(1)] freeze_Some(1) [OF f(1)] f(2)])
  then have "rank sim < rank t" using r by (cases sim) (auto simp: rank_def)
  moreover have "signed_row cr p w (ts_revision (sg_state s), en_fingerprint e)"
    using k e dig f by (auto simp: signed_row_def fingerprint_def)
  ultimately show "rank sim < rank t \<and> read_columns (cw_checkpoint w) = Inr t \<and> (\<exists>c. t = Some c \<and> signed_row cr p w c)"
    using k r rc by auto
qed

lemma check_rows_rank:
  "check_rows cr p sim ws = Inr t \<Longrightarrow> rank sim \<le> rank t"
proof (induction ws arbitrary: sim)
  case (Cons v ws)
  then obtain t0 where t0: "check_row cr p sim v = Inr t0" "check_rows cr p t0 ws = Inr t"
    by (auto simp: bindE_Inr_conv)
  have "rank sim \<le> rank t0" using check_rowD(2,3) [OF t0(1)] by (cases "cas_of (cw_result v) = Some APPLIED") auto
  with Cons.IH [OF t0(2)] show ?case by simp
qed simp

lemma check_rows_observed:
  "check_rows cr p sim ws = Inr t \<Longrightarrow> w \<in> set ws \<Longrightarrow> read_columns (cw_observed w) = Inr ob \<Longrightarrow> rank sim \<le> rank ob"
proof (induction ws arbitrary: sim)
  case (Cons v ws)
  then obtain t0 where t0: "check_row cr p sim v = Inr t0" "check_rows cr p t0 ws = Inr t"
    by (auto simp: bindE_Inr_conv)
  have "rank sim \<le> rank t0" using check_rowD(2,3) [OF t0(1)] by (cases "cas_of (cw_result v) = Some APPLIED") auto
  with Cons.IH [OF t0(2)] Cons.prems(2,3) check_rowD(1) [OF t0(1)] show ?case by auto
qed simp

lemma applied_unique:
  assumes "check_rows cr p sim ws = Inr t" and "v \<in> set ws" and "w \<in> set ws"
    and "cas_of (cw_result v) = Some APPLIED" and "cas_of (cw_result w) = Some APPLIED"
    and "read_columns (cw_observed v) = Inr ob" and "read_columns (cw_observed w) = Inr ob"
  shows "v = w"
  using assms
proof (induction ws arbitrary: sim)
  case (Cons u ws)
  from Cons.prems(1) obtain t0 where t0: "check_row cr p sim u = Inr t0" "check_rows cr p t0 ws = Inr t"
    by (auto simp: bindE_Inr_conv)
  have later: "rank sim < rank ob" if "cas_of (cw_result u) = Some APPLIED" "x \<in> set ws"
    "read_columns (cw_observed x) = Inr ob" for x
    using check_rowD(2) [OF t0(1) that(1)] check_rows_observed [OF t0(2) that(2,3)] by simp
  show ?case
    using Cons.prems check_rowD(1) [OF t0(1)] later Cons.IH [OF t0(2)] by fastforce
qed auto

text \<open>
  At most one successor: two requests that were applied to the same checkpoint, or to none, at
  any two moments of the life of the file, are the same request.
\<close>

theorem cas_single_successor:
  assumes g: "file_good cr p db"
    and first: "cas_request cr p r f db = (Inr x, db')" "re_result x = APPLIED"
    and second: "cas_request cr p r' f' (foldl (cas_step cr) db' es) = (Inr y, db'')" "re_result y = APPLIED"
    and same: "re_observed x = re_observed y"
  shows "re_request x = re_request y"
proof -
  have row: "\<exists>d w. b = Some d \<and> db_good cr p d \<and> w \<in> set (db_requests d) \<and> reply_row w (re_replayed z) z"
    if "file_good cr p a" "cas_request cr p q h a = (Inr z, b)" for a b q h z
  proof -
    from that(1) obtain d where d: "a = Some d" "hashes cr" "db_good cr p d" by (auto simp: file_good_def)
    obtain oper rid ex s where q: "\<And>f e. cas_request cr p q f e = cas_execute cr p oper rid ex s f e"
      and b: "oper = ''BOOTSTRAP'' \<Longrightarrow> ex = None"
      by (cases q) (auto simp: cas_bootstrap_def compare_and_swap_def)
    from that(1) [unfolded d(1)] that(2) [unfolded q d(1)] obtain e d1 where e: "commit_id_ok rid"
      "request_context cr p oper ex s = Inr e" "cas_body cr p oper rid ex s e d = Inr (z, d1)" "b = Some d1"
      by (cases rule: execute_cases) (auto split: if_splits)
    from cas_body_cases [OF d(2,3) e(1,2) b e(3)] e(4) show ?thesis
      by (auto simp: find_request_def dest: find_SomeD)
  qed
  have m: "file_good cr p db'" using cas_step_good [OF g, of "(p, r, f)"] first by (simp add: cas_step_def)
  let ?m = "foldl (cas_step cr) db' es"
  have n: "file_good cr p ?m" by (rule cas.run_inv [OF m])
  have "db'' = cas_step cr ?m (p, r', f')" using second by (simp add: cas_step_def)
  then have "db'' = foldl (cas_step cr) db' (es @ [(p, r', f')])" by simp
  then have le: "file_le db' db''" using cas.run_le [OF m] by metis
  from row [OF g first(1)] obtain d v where v: "db' = Some d" "v \<in> set (db_requests d)" "reply_row v (re_replayed x) x" by auto
  from row [OF n second(1)] obtain d2 w where w: "db'' = Some d2" "db_good cr p d2" "w \<in> set (db_requests d2)"
    "reply_row w (re_replayed y) y" by auto
  from v le w(1) have v2: "v \<in> set (db_requests d2)" by (auto simp: file_le_def cas_le_def)
  from w(2) have c: "check_rows cr p None (db_requests d2) = Inr (db_checkpoint d2)" by (simp add: db_good_def)
  have "v = w"
    using applied_unique [OF c v2 w(3)] v(3) w(4) first(2) second(2) same by (auto simp: reply_row_def)
  then show ?thesis using v(3) w(4) by (simp add: reply_row_def)
qed

text \<open>
  C35. What \<open>open\<close> proves about a file nobody vouches for: its checkpoint is the snapshot of a
  recorded request that was applied and that a root of the profile signed, and no applied
  request has a higher revision.
\<close>

theorem cas_open_sound:
  assumes "cas_open cr (Some d) = Inr p" and "db_checkpoint d = Some c"
  shows "(\<exists>w \<in> set (db_requests d). cas_of (cw_result w) = Some APPLIED \<and> signed_row cr p w c) \<and>
    (\<forall>w \<in> set (db_requests d). \<forall>c'. cas_of (cw_result w) = Some APPLIED \<longrightarrow>
       read_columns (cw_checkpoint w) = Inr (Some c') \<longrightarrow> fst c' \<le> fst c)"
proof -
  have applied: "(t \<noteq> sim \<longrightarrow> (\<exists>w \<in> set ws. \<exists>c. t = Some c \<and> cas_of (cw_result w) = Some APPLIED \<and> signed_row cr p w c)) \<and>
      (\<forall>w \<in> set ws. \<forall>c'. cas_of (cw_result w) = Some APPLIED \<longrightarrow>
         read_columns (cw_checkpoint w) = Inr (Some c') \<longrightarrow> fst c' \<le> rank t)"
    if "check_rows cr p sim ws = Inr t" for sim ws t
    using that
  proof (induction ws arbitrary: sim)
    case (Cons v ws)
    then obtain t0 where t0: "check_row cr p sim v = Inr t0" "check_rows cr p t0 ws = Inr t"
      by (auto simp: bindE_Inr_conv)
    note v = check_rowD [OF t0(1)] and ih = Cons.IH [OF t0(2)] and le = check_rows_rank [OF t0(2)]
    have a: "\<exists>w \<in> set (v # ws). \<exists>c. t = Some c \<and> cas_of (cw_result w) = Some APPLIED \<and> signed_row cr p w c"
      if "t \<noteq> sim"
      using that v ih by (cases "cas_of (cw_result v) = Some APPLIED"; cases "t = t0") auto
    moreover have "fst c' \<le> rank t" if "cas_of (cw_result v) = Some APPLIED" "read_columns (cw_checkpoint v) = Inr (Some c')" for c'
      using v(2) [OF that(1)] that(2) le by (auto simp: rank_def)
    ultimately show ?case using ih by auto
  qed simp
  from assms(1) have "check_rows cr p None (db_requests d) = Inr (db_checkpoint d)"
    by (auto simp: cas_open_def Let_def bindE_Inr_conv read_checkpoint_def dest!: read_columns_eq
        split: option.splits if_splits)
  from applied [OF this] assms(2) show ?thesis by (auto simp: rank_def)
qed

subsection \<open>A file at work\<close>

definition demo_hash :: "message \<Rightarrow> string" where
  "demo_hash m =
     replicate 64 (case m of Snapshot p \<Rightarrow> if ts_revision (sp_state p) = 1 then CHR ''1'' else CHR ''2'' | _ \<Rightarrow> CHR ''0'')"

definition demo_crypto :: cas_crypto where
  "demo_crypto =
     \<lparr>hash = demo_hash, bytes = (\<lambda>_. 100), verifies = (\<lambda>k s m. s = replicate 64 CHR ''s''),
      profile_hash = (\<lambda>_ _ _. ''d''), envelope_hash = (\<lambda>_. replicate 64 CHR ''e''), envelope_bytes = (\<lambda>_. 200)\<rparr>"

definition demo_roots :: "(string, string) dict" where
  "demo_roots = [(''root'', replicate 32 CHR ''k'')]"

definition demo_snapshot :: "int \<Rightarrow> signed_trust" where
  "demo_snapshot n =
     \<lparr>sg_state = \<lparr>ts_revision = n, ts_policy = ''v1'', ts_mandates = [(''issuer'', ''scope'')], ts_revoked = []\<rparr>,
      sg_signature = replicate 64 CHR ''s'', sg_signer = ''root'', sg_keys = [(''issuer'', replicate 32 CHR ''i'')]\<rparr>"

definition demo_profile :: profile where
  "demo_profile =
     \<lparr>pf_authority = ''auth'', pf_profile = ''prof'', pf_generation = 1, pf_digest = ''d'', pf_roots = demo_roots\<rparr>"

definition demo_file :: "cas_db option" where
  "demo_file = snd (cas_provision demo_crypto None ''auth'' ''prof'' 1 demo_roots)"

definition demo_swap :: "profile \<times> cas_op \<times> seam" where
  "demo_swap = (demo_profile, Swap ''r2'' (Some (1, replicate 64 CHR ''1'')) (demo_snapshot 2), Quiet)"

definition demo_boot :: cas_op where
  "demo_boot = Boot ''r1'' (demo_snapshot 1)"

definition demo_booted :: "cas_db option" where
  "demo_booted = snd (cas_request demo_crypto demo_profile demo_boot After demo_file)"

lemma demo_hashes: "hashes demo_crypto"
  by (auto simp: hashes_def demo_crypto_def demo_hash_def hex64_def char_in_def list_all_iff split: message.split)

lemma demo_provision: "cas_provision demo_crypto None ''auth'' ''prof'' 1 demo_roots = (Inr demo_profile, demo_file)"
  by code_simp

lemma demo_file_good: "file_good demo_crypto demo_profile demo_file"
  by (rule provisioned [OF demo_hashes demo_provision])

lemma demo_lost: "cas_request demo_crypto demo_profile demo_boot After demo_file = (Inl Seam, demo_booted)"
  by code_simp

lemma demo_get:
  "cas_get demo_profile demo_booted = Inr (Some (1, replicate 64 CHR ''1''))"
  "cas_get demo_profile (cas_step demo_crypto demo_booted demo_swap) = Inr (Some (2, replicate 64 CHR ''2''))"
  by code_simp+

definition demo_steps :: "(profile \<times> cas_op \<times> seam) list" where
  "demo_steps = [(demo_profile, demo_boot, After)]"

lemma demo_steps_booted: "foldl (cas_step demo_crypto) demo_file demo_steps = demo_booted"
  by (simp add: demo_steps_def cas_step_def demo_booted_def)

theorem cas_reopens_witness:
  "hashes demo_crypto \<and> cas_open demo_crypto (foldl (cas_step demo_crypto) demo_file (demo_steps @ [demo_swap])) =
     Inr demo_profile"
  using cas_reopens [OF demo_hashes demo_provision, of "demo_steps @ [demo_swap]"] demo_hashes by blast

theorem cas_never_rolls_back_witness:
  "cas_get demo_profile (foldl (cas_step demo_crypto) demo_file demo_steps) = Inr (Some (1, replicate 64 CHR ''1'')) \<and>
   (\<exists>c'. cas_get demo_profile (foldl (cas_step demo_crypto) demo_file (demo_steps @ [demo_swap])) = Inr (Some c') \<and> 1 < fst c')"
proof -
  have g: "cas_get demo_profile (foldl (cas_step demo_crypto) demo_file demo_steps) = Inr (Some (1, replicate 64 CHR ''1''))"
    by (simp only: demo_steps_booted demo_get)
  have "cas_get demo_profile (foldl (cas_step demo_crypto) demo_file (demo_steps @ [demo_swap])) =
      Inr (Some (2, replicate 64 CHR ''2''))"
    by (simp add: demo_steps_booted demo_get)
  with cas_never_rolls_back [OF demo_hashes demo_provision g, of "[demo_swap]"] g show ?thesis by auto
qed

definition demo_reply :: response where
  "demo_reply =
     (case cas_request demo_crypto demo_profile demo_boot Quiet demo_file of (Inr r, _) \<Rightarrow> r)"

lemma demo_quiet: "cas_request demo_crypto demo_profile demo_boot Quiet demo_file = (Inr demo_reply, demo_booted)"
  by code_simp

theorem cas_lost_reply_witness:
  "cas_request demo_crypto demo_profile demo_boot After demo_file = (Inl Seam, demo_booted) \<and>
   cas_request demo_crypto demo_profile demo_boot Quiet (cas_step demo_crypto demo_booted demo_swap) =
     (Inr (demo_reply\<lparr>re_replayed := True\<rparr>), cas_step demo_crypto demo_booted demo_swap) \<and>
   re_checkpoint demo_reply = Some (1, replicate 64 CHR ''1'')"
proof -
  have "re_checkpoint demo_reply = Some (1, replicate 64 CHR ''1'')" by code_simp
  with cas_lost_reply [OF demo_file_good demo_lost demo_quiet, of "[demo_swap]"] demo_lost show ?thesis by simp
qed

lemma demo_replay:
  "cas_request demo_crypto demo_profile demo_boot Quiet (foldl (cas_step demo_crypto) demo_booted [demo_swap]) =
     (Inr (demo_reply\<lparr>re_replayed := True\<rparr>), cas_step demo_crypto demo_booted demo_swap)"
  by code_simp

theorem cas_single_successor_witness:
  "cas_request demo_crypto demo_profile demo_boot Quiet demo_file = (Inr demo_reply, demo_booted) \<and>
   re_result demo_reply = APPLIED \<and> re_request demo_reply = re_request (demo_reply\<lparr>re_replayed := True\<rparr>)"
proof -
  have "re_result demo_reply = APPLIED" by code_simp
  with cas_single_successor [OF demo_file_good demo_quiet _ demo_replay] demo_quiet show ?thesis by simp
qed

theorem cas_open_sound_witness:
  "cas_open demo_crypto demo_booted = Inr demo_profile \<and>
   list_ex (\<lambda>w. signed_row demo_crypto demo_profile w (1, replicate 64 CHR ''1'')) (db_requests (the demo_booted))"
proof -
  have "cas_open demo_crypto (Some (the demo_booted)) = Inr demo_profile \<and>
    db_checkpoint (the demo_booted) = Some (1, replicate 64 CHR ''1'') \<and> demo_booted = Some (the demo_booted)"
    by code_simp
  then have o: "cas_open demo_crypto (Some (the demo_booted)) = Inr demo_profile"
    "db_checkpoint (the demo_booted) = Some (1, replicate 64 CHR ''1'')" "demo_booted = Some (the demo_booted)" by auto
  from cas_open_sound [OF o(1,2)] o show ?thesis by (simp add: list_ex_iff) blast
qed

end
