(* ===== verification/Commit_Authority.thy ===== *)
theory Commit_Authority
  imports Trust_CAS Py_Decimal Py_Json
begin

section \<open>The commit authorization authority\<close>

text \<open>
  \<open>ProfileSCommitAuthority\<close> of \<open>tenir_governance/experimental/ep02_commit_authorization.py\<close>: an
  authorization ledger and a consumption ledger in the file of the trust authority. A text that
  is hashed or signed is modelled by what it says; its digest, its length and the Ed25519
  signature are arguments, one for each kind of text. A stored text is \<open>None\<close> when it is not
  canonical JSON with the fields and types its reader asks for. A transaction has the seams of
  \<open>Trust_CAS\<close>, before and after its commit.
\<close>

subsection \<open>Amounts as canonical text\<close>

text \<open>\<open>Decimal.normalize\<close>: rounded to the 28 digits of the default context, no trailing zeros.\<close>

fun strip_zeros :: "nat \<Rightarrow> int \<Rightarrow> nat \<times> int" where
  "strip_zeros n e = (if n = 0 then (0, 0) else if n mod 10 = 0 then strip_zeros (n div 10) (e + 1) else (n, e))"

declare strip_zeros.simps [simp del]

definition normalize :: "dec \<Rightarrow> nat \<times> int" where
  "normalize d = (let r = dec_fix 28 d in strip_zeros (nat \<bar>coef r\<bar>) (expo r))"

text \<open>\<open>format (x, 'f')\<close> for a normalized number: the fraction has no trailing zero.\<close>

definition fixed_text :: "nat \<times> int \<Rightarrow> string" where
  "fixed_text x =
     (case x of (n, e) \<Rightarrow>
        let ds = nat_str n in
        if 0 \<le> e then ds @ replicate (nat e) CHR ''0''
        else
          (let k = nat (- e);
               padded = replicate (Suc k - length ds) CHR ''0'' @ ds
           in take (length padded - k) padded @ ''.'' @ drop (length padded - k) padded))"

fun canonical_amount :: "amount_in \<Rightarrow> string option" where
  "canonical_amount (AFin d) =
     (if coef d < 0 then None
      else if coef d = 0 then Some ''0''
      else (let s = fixed_text (normalize d) in if length s > 128 then None else Some s))"
| "canonical_amount _ = None"

text \<open>
  A text is canonical when it is the canonical form of the number it denotes. Only plain digits
  with at most one point can be.
\<close>

definition digit_value :: "char \<Rightarrow> nat option" where
  "digit_value c = (if char_in 48 57 c then Some (of_char c - 48) else None)"

fun read_digits :: "string \<Rightarrow> nat \<Rightarrow> nat option" where
  "read_digits [] n = Some n"
| "read_digits (c # cs) n = (case digit_value c of None \<Rightarrow> None | Some v \<Rightarrow> read_digits cs (10 * n + v))"

definition plain_decimal :: "string \<Rightarrow> dec option" where
  "plain_decimal s =
     (let whole = takeWhile (\<lambda>c. c \<noteq> CHR ''.'') s; rest = dropWhile (\<lambda>c. c \<noteq> CHR ''.'') s in
      if whole = [] \<or> rest = ''.'' then None
      else map_option (\<lambda>n. Dec (int n) (- int (length (tl rest)))) (read_digits (whole @ tl rest) 0))"

definition amount_text_ok :: "string \<Rightarrow> bool" where
  "amount_text_ok s \<longleftrightarrow> (case plain_decimal s of None \<Rightarrow> False | Some d \<Rightarrow> canonical_amount (AFin d) = Some s)"

subsection \<open>Requests\<close>

record op_binding =
  ob_authority :: string
  ob_profile :: string
  ob_generation :: int
  ob_scope :: string
  ob_operation :: string
  ob_key :: string
  ob_passage :: string
  ob_agent :: string
  ob_action :: string
  ob_resource :: string
  ob_amount :: string
  ob_payload :: string
  ob_claim :: string
  ob_prior :: string
  ob_evidence :: string
  ob_policy :: string
  ob_revision :: int
  ob_trust :: string
  ob_snapshot :: string

record auth_request =
  aq_id :: string
  aq_binding :: op_binding

datatype auth_decision = AUTHORIZED | REJECTED

datatype cons_decision = CONSUMED | STALE | REFUSED

record auth_body =
  ab_authority :: string
  ab_profile :: string
  ab_generation :: int
  ab_key_id :: string
  ab_key_generation :: int
  ab_request :: string
  ab_digest :: string
  ab_binding :: string
  ab_decision :: auth_decision
  ab_reason :: string
  ab_checkpoint :: "checkpoint option"
  ab_sequence :: int

record cons_body =
  cb_authority :: string
  cb_profile :: string
  cb_generation :: int
  cb_key_id :: string
  cb_key_generation :: int
  cb_request :: string
  cb_digest :: string
  cb_binding :: string
  cb_authorization :: int
  cb_claim :: string
  cb_decision :: cons_decision
  cb_reason :: string
  cb_checkpoint :: "checkpoint option"
  cb_sequence :: int

text \<open>A receipt is a body with its signature; the flag \<open>replayed\<close> is not signed.\<close>

record auth_receipt =
  rc_body :: auth_body
  rc_signature :: string
  rc_replayed :: bool

record cons_receipt =
  rd_body :: cons_body
  rd_signature :: string
  rd_replayed :: bool

record authority_crypto = cas_crypto +
  request_hash :: "auth_request \<Rightarrow> string"
  request_bytes :: "auth_request \<Rightarrow> nat"
  binding_hash :: "op_binding \<Rightarrow> string"
  public_key :: "string \<Rightarrow> string"
  sign_auth :: "string \<Rightarrow> auth_body \<Rightarrow> string"
  verify_auth :: "string \<Rightarrow> string \<Rightarrow> auth_body \<Rightarrow> bool"
  sign_cons :: "string \<Rightarrow> cons_body \<Rightarrow> string"
  verify_cons :: "string \<Rightarrow> string \<Rightarrow> cons_body \<Rightarrow> bool"

definition text_ok :: "string \<Rightarrow> bool" where
  "text_ok s \<longleftrightarrow> s \<noteq> [] \<and> length s \<le> 256 \<and> list_all (\<lambda>c. (32::nat) \<le> of_char c) s"

definition binding_ok :: "op_binding \<Rightarrow> bool" where
  "binding_ok b \<longleftrightarrow>
     commit_id_ok (ob_authority b) \<and> commit_id_ok (ob_profile b) \<and> 1 \<le> ob_generation b \<and>
     commit_id_ok (ob_scope b) \<and> commit_id_ok (ob_operation b) \<and> commit_id_ok (ob_key b) \<and>
     commit_id_ok (ob_passage b) \<and> commit_id_ok (ob_agent b) \<and> text_ok (ob_action b) \<and>
     (ob_resource b = [] \<or> commit_id_ok (ob_resource b)) \<and> amount_text_ok (ob_amount b) \<and>
     hex64 (ob_payload b) \<and> hex64 (ob_claim b) \<and> text_ok (ob_prior b) \<and> text_ok (ob_evidence b) \<and>
     text_ok (ob_policy b) \<and> 1 \<le> ob_revision b \<and> hex64 (ob_trust b) \<and> hex64 (ob_snapshot b)"

text \<open>\<open>operation_binding\<close>: the binding of an operation to a finding; \<open>None\<close> when it raises.\<close>

definition operation_binding ::
  "string \<Rightarrow> string \<Rightarrow> int \<Rightarrow> string \<Rightarrow> string \<Rightarrow> string \<Rightarrow> string \<Rightarrow> string \<Rightarrow> string \<Rightarrow> string \<Rightarrow> amount_in \<Rightarrow> string \<Rightarrow>
     finding \<Rightarrow> op_binding option" where
  "operation_binding authority prof generation scope oid key pid agent act resource amount payload f =
     (case canonical_amount amount of
        None \<Rightarrow> None
      | Some a \<Rightarrow>
          (let b = \<lparr>ob_authority = authority, ob_profile = prof, ob_generation = generation, ob_scope = scope,
                    ob_operation = oid, ob_key = key, ob_passage = pid, ob_agent = agent, ob_action = act,
                    ob_resource = resource, ob_amount = a, ob_payload = payload, ob_claim = fi_claim f,
                    ob_prior = fi_prior f, ob_evidence = fi_scope f, ob_policy = fi_policy f,
                    ob_revision = fi_revision f, ob_trust = fi_digest f, ob_snapshot = fi_snapshot f\<rparr>
           in if binding_ok b then Some b else None))"

text \<open>\<open>_request_context\<close>: is it a request, of an admissible size?\<close>

definition request_ok :: "'x authority_crypto_scheme \<Rightarrow> auth_request \<Rightarrow> bool" where
  "request_ok cr q \<longleftrightarrow> commit_id_ok (aq_id q) \<and> binding_ok (aq_binding q) \<and> request_bytes cr q \<le> 32768"

subsection \<open>Verifying receipts\<close>

type_synonym receipt_keys = "((string \<times> int) \<times> string) list"

definition verify_authorization_receipt ::
  "'x authority_crypto_scheme \<Rightarrow> receipt_keys \<Rightarrow> auth_receipt \<Rightarrow> auth_request \<Rightarrow> bool" where
  "verify_authorization_receipt cr keys r q \<longleftrightarrow>
     request_ok cr q \<and>
     (case map_of keys (ab_key_id (rc_body r), ab_key_generation (rc_body r)) of
        None \<Rightarrow> False
      | Some k \<Rightarrow>
          ab_authority (rc_body r) = ob_authority (aq_binding q) \<and> ab_profile (rc_body r) = ob_profile (aq_binding q) \<and>
          ab_generation (rc_body r) = ob_generation (aq_binding q) \<and> ab_request (rc_body r) = aq_id q \<and>
          ab_digest (rc_body r) = request_hash cr q \<and> ab_binding (rc_body r) = binding_hash cr (aq_binding q) \<and>
          1 \<le> ab_sequence (rc_body r) \<and> length (rc_signature r) = 64 \<and>
          verify_auth cr k (rc_signature r) (rc_body r))"

definition verify_consumption_receipt ::
  "'x authority_crypto_scheme \<Rightarrow> receipt_keys \<Rightarrow> cons_receipt \<Rightarrow> auth_request \<Rightarrow> auth_receipt \<Rightarrow> bool" where
  "verify_consumption_receipt cr keys r q a \<longleftrightarrow>
     verify_authorization_receipt cr keys a q \<and>
     (case map_of keys (cb_key_id (rd_body r), cb_key_generation (rd_body r)) of
        None \<Rightarrow> False
      | Some k \<Rightarrow>
          cb_authority (rd_body r) = ab_authority (rc_body a) \<and> cb_profile (rd_body r) = ab_profile (rc_body a) \<and>
          cb_generation (rd_body r) = ab_generation (rc_body a) \<and> cb_request (rd_body r) = ab_request (rc_body a) \<and>
          cb_digest (rd_body r) = ab_digest (rc_body a) \<and> cb_binding (rd_body r) = ab_binding (rc_body a) \<and>
          cb_authorization (rd_body r) = ab_sequence (rc_body a) \<and> 1 \<le> cb_sequence (rd_body r) \<and>
          length (rd_signature r) = 64 \<and> verify_cons cr k (rd_signature r) (rd_body r))"

subsection \<open>The ledgers\<close>

fun auth_str :: "auth_decision \<Rightarrow> string" where
  "auth_str AUTHORIZED = ''AUTHORIZED''"
| "auth_str auth_decision.REJECTED = ''REJECTED''"

fun cons_str :: "cons_decision \<Rightarrow> string" where
  "cons_str CONSUMED = ''CONSUMED''"
| "cons_str STALE = ''STALE''"
| "cons_str REFUSED = ''REJECTED''"

record auth_row =
  aw_sequence :: int
  aw_request :: string
  aw_digest :: string
  aw_binding :: string
  aw_envelope :: "auth_request option"
  aw_decision :: string
  aw_reason :: string
  aw_body :: "auth_body option"
  aw_signature :: string

record cons_row =
  dw_sequence :: int
  dw_request :: string
  dw_digest :: string
  dw_binding :: string
  dw_claim :: string
  dw_decision :: string
  dw_reason :: string
  dw_body :: "cons_body option"
  dw_signature :: string

record commit_profile =
  cp_schema :: int
  cp_key_id :: string
  cp_key_generation :: int
  cp_public :: string

record commit_db =
  cd_anchor :: cas_db
  cd_profile :: "commit_profile option"
  cd_auths :: "auth_row list"
  cd_conss :: "cons_row list"

text \<open>A handle: the anchor's profile and the receipt key.\<close>

record service =
  sv_profile :: profile
  sv_secret :: string
  sv_key_id :: string
  sv_key_generation :: int

definition trusted_keys :: "'x authority_crypto_scheme \<Rightarrow> service \<Rightarrow> receipt_keys" where
  "trusted_keys cr sv = [((sv_key_id sv, sv_key_generation sv), public_key cr (sv_secret sv))]"

definition commit_guards :: "string list" where
  "commit_guards =
     [''commit_profile_no_update'', ''commit_profile_no_delete'', ''commit_authorizations_no_update'',
      ''commit_authorizations_no_delete'', ''commit_consumptions_no_update'', ''commit_consumptions_no_delete'']"

definition service_row :: "'x authority_crypto_scheme \<Rightarrow> service \<Rightarrow> commit_profile" where
  "service_row cr sv =
     \<lparr>cp_schema = 1, cp_key_id = sv_key_id sv, cp_key_generation = sv_key_generation sv,
      cp_public = public_key cr (sv_secret sv)\<rparr>"

definition commit_connect ::
  "'x authority_crypto_scheme \<Rightarrow> service \<Rightarrow> commit_db option \<Rightarrow> (cas_exn + commit_db)" where
  "commit_connect cr sv db =
     bindE (cas_connect (sv_profile sv) (map_option cd_anchor db)) (\<lambda>_.
       let d = the db in
       if cd_profile d = Some (service_row cr sv) \<and> set commit_guards \<subseteq> set (db_triggers (cd_anchor d)) then Inr d
       else Inl StoreIntegrity)"

text \<open>\<open>_authorization_from_body\<close> and \<open>_consumption_from_body\<close> on a stored row.\<close>

definition auth_from_row :: "auth_row \<Rightarrow> bool \<Rightarrow> (cas_exn + auth_receipt)" where
  "auth_from_row w rep =
     (case aw_body w of
        None \<Rightarrow> Inl BadValue
      | Some b \<Rightarrow>
          if (case ab_checkpoint b of None \<Rightarrow> True | Some c \<Rightarrow> checkpoint_valid c)
          then Inr \<lparr>rc_body = b, rc_signature = aw_signature w, rc_replayed = rep\<rparr> else Inl BadValue)"

definition cons_from_row :: "cons_row \<Rightarrow> bool \<Rightarrow> (cas_exn + cons_receipt)" where
  "cons_from_row w rep =
     (case dw_body w of
        None \<Rightarrow> Inl BadValue
      | Some b \<Rightarrow>
          if (case cb_checkpoint b of None \<Rightarrow> True | Some c \<Rightarrow> checkpoint_valid c)
          then Inr \<lparr>rd_body = b, rd_signature = dw_signature w, rd_replayed = rep\<rparr> else Inl BadValue)"

subsection \<open>Opening\<close>

definition auth_row_ok :: "'x authority_crypto_scheme \<Rightarrow> service \<Rightarrow> auth_row \<Rightarrow> bool" where
  "auth_row_ok cr sv w \<longleftrightarrow>
     (case (aw_envelope w, auth_from_row w False) of
        (Some q, Inr r) \<Rightarrow>
          request_ok cr q \<and> 1 \<le> aw_sequence w \<and> aw_request w = aq_id q \<and> aw_digest w = request_hash cr q \<and>
          aw_binding w = binding_hash cr (aq_binding q) \<and> ab_sequence (rc_body r) = aw_sequence w \<and>
          ab_request (rc_body r) = aw_request w \<and> auth_str (ab_decision (rc_body r)) = aw_decision w \<and>
          ab_reason (rc_body r) = aw_reason w \<and> verify_authorization_receipt cr (trusted_keys cr sv) r q
      | _ \<Rightarrow> False)"

definition find_auth :: "commit_db \<Rightarrow> string \<Rightarrow> auth_row option" where
  "find_auth d i = find (\<lambda>w. aw_request w = i) (cd_auths d)"

definition find_cons :: "commit_db \<Rightarrow> string \<Rightarrow> cons_row option" where
  "find_cons d i = find (\<lambda>w. dw_request w = i) (cd_conss d)"

definition cons_row_ok :: "'x authority_crypto_scheme \<Rightarrow> service \<Rightarrow> commit_db \<Rightarrow> cons_row \<Rightarrow> bool" where
  "cons_row_ok cr sv d w \<longleftrightarrow>
     (case find_auth d (dw_request w) of
        None \<Rightarrow> False
      | Some a \<Rightarrow>
          (case (aw_envelope a, auth_from_row a False, cons_from_row w False) of
             (Some q, Inr ra, Inr r) \<Rightarrow>
               cb_sequence (rd_body r) = dw_sequence w \<and> cb_request (rd_body r) = dw_request w \<and>
               cb_digest (rd_body r) = dw_digest w \<and> cb_binding (rd_body r) = dw_binding w \<and>
               cb_claim (rd_body r) = dw_claim w \<and> cons_str (cb_decision (rd_body r)) = dw_decision w \<and>
               cb_reason (rd_body r) = dw_reason w \<and> verify_consumption_receipt cr (trusted_keys cr sv) r q ra
           | _ \<Rightarrow> False))"

definition commit_open ::
  "'x authority_crypto_scheme \<Rightarrow> commit_db option \<Rightarrow> string \<Rightarrow> (cas_exn + service)" where
  "commit_open cr db secret =
     bindE (cas_open cr (map_option cd_anchor db)) (\<lambda>p.
       let d = the db in
       case cd_profile d of
         None \<Rightarrow> Inl StoreIntegrity
       | Some c \<Rightarrow>
           (let sv = \<lparr>sv_profile = p, sv_secret = secret, sv_key_id = cp_key_id c, sv_key_generation = cp_key_generation c\<rparr> in
            if cp_schema c \<noteq> 1 \<or> \<not> commit_id_ok (cp_key_id c) \<or> cp_key_generation c < 1 \<or>
               length (cp_public c) \<noteq> 32 \<or> cp_public c \<noteq> public_key cr secret \<or>
               \<not> set commit_guards \<subseteq> set (db_triggers (cd_anchor d)) \<or>
               \<not> list_all (auth_row_ok cr sv) (cd_auths d) \<or> \<not> list_all (cons_row_ok cr sv d) (cd_conss d)
            then Inl StoreIntegrity else Inr sv))"

definition commit_provision ::
  "'x authority_crypto_scheme \<Rightarrow> string \<Rightarrow> string \<Rightarrow> int \<Rightarrow> (string, string) dict \<Rightarrow> string \<Rightarrow> int \<Rightarrow> string \<Rightarrow>
     (cas_exn + service) \<times> commit_db option" where
  "commit_provision cr authority prof generation roots kid kgen secret =
     (if \<not> commit_id_ok kid \<or> kgen < 1 then (Inl BadValue, None)
      else case cas_provision cr None authority prof generation roots of
        (Inl x, _) \<Rightarrow> (Inl x, None)
      | (Inr p, anchor) \<Rightarrow>
          (let a = the anchor;
               d = Some \<lparr>cd_anchor = a\<lparr>db_triggers := db_triggers a @ commit_guards\<rparr>,
                         cd_profile = Some \<lparr>cp_schema = 1, cp_key_id = kid, cp_key_generation = kgen,
                                            cp_public = public_key cr secret\<rparr>,
                         cd_auths = [], cd_conss = []\<rparr>
           in (commit_open cr d secret, d)))"

subsection \<open>Authorizing\<close>

text \<open>\<open>_evaluate\<close>. A finding or a snapshot of the wrong type is \<open>None\<close>.\<close>

definition evaluate_request ::
  "'x authority_crypto_scheme \<Rightarrow> profile \<Rightarrow> auth_request \<Rightarrow> finding option \<Rightarrow> signed_claim \<Rightarrow>
     signed_trust option \<Rightarrow> moment \<Rightarrow> checkpoint option \<Rightarrow> auth_decision \<times> string" where
  "evaluate_request cr p q f c s now current =
     (let b = aq_binding q; no = (\<lambda>why. (auth_decision.REJECTED, why)) in
      if ob_authority b \<noteq> pf_authority p \<or> ob_profile b \<noteq> pf_profile p \<or> ob_generation b \<noteq> pf_generation p
      then no ''AUTHORITY_BINDING_MISMATCH''
      else if current = None then no ''TRUST_NOT_INITIALIZED''
      else if current \<noteq> Some (ob_revision b, ob_snapshot b) then no ''TRUST_CHECKPOINT_STALE''
      else if (case f of None \<Rightarrow> True | Some f \<Rightarrow>
                 fi_revision f \<noteq> ob_revision b \<or> fi_digest f \<noteq> ob_trust b \<or> fi_policy f \<noteq> ob_policy b \<or>
                 fi_claim f \<noteq> ob_claim b \<or> fi_prior f \<noteq> ob_prior b \<or> fi_scope f \<noteq> ob_evidence b \<or>
                 fi_snapshot f \<noteq> ob_snapshot b)
      then no ''PREFLIGHT_BINDING_MISMATCH''
      else case (s, map_option bound_payload s) of
        (Some s, Some (Some pl)) \<Rightarrow>
          if ts_revision (sg_state s) \<noteq> ob_revision b \<or> trust_digest (crypto.truncate cr) (sg_state s) \<noteq> ob_trust b \<or>
             ts_policy (sg_state s) \<noteq> ob_policy b \<or> fingerprint cr pl \<noteq> ob_snapshot b
          then no ''TRUST_SNAPSHOT_MISMATCH''
          else (case revalidate_bound (crypto.truncate cr) (the f) c (ob_prior b) (ob_evidence b) now s (pf_roots p)
                       (fst (the current)) of
                  Inl _ \<Rightarrow> no ''EVIDENCE_REVALIDATION_ERROR''
                | Inr (v, why) \<Rightarrow>
                    if v \<noteq> ADMISSIBLE then no (''EVIDENCE_'' @ why) else (AUTHORIZED, ''COMMIT_AUTHORIZED''))
      | _ \<Rightarrow> no ''TRUST_SNAPSHOT_MALFORMED'')"

definition next_number :: "int list \<Rightarrow> int" where
  "next_number ns = 1 + fold max ns 0"

text \<open>The row of an authorization: the body of its receipt, signed.\<close>

definition auth_body_of ::
  "'x authority_crypto_scheme \<Rightarrow> service \<Rightarrow> auth_request \<Rightarrow> auth_decision \<Rightarrow> string \<Rightarrow> checkpoint option \<Rightarrow> int \<Rightarrow> auth_body" where
  "auth_body_of cr sv q dec why current n =
     \<lparr>ab_authority = pf_authority (sv_profile sv), ab_profile = pf_profile (sv_profile sv),
      ab_generation = pf_generation (sv_profile sv), ab_key_id = sv_key_id sv,
      ab_key_generation = sv_key_generation sv, ab_request = aq_id q, ab_digest = request_hash cr q,
      ab_binding = binding_hash cr (aq_binding q), ab_decision = dec, ab_reason = why,
      ab_checkpoint = current, ab_sequence = n\<rparr>"

definition auth_entry ::
  "'x authority_crypto_scheme \<Rightarrow> service \<Rightarrow> auth_request \<Rightarrow> auth_decision \<Rightarrow> string \<Rightarrow> checkpoint option \<Rightarrow> int \<Rightarrow> auth_row" where
  "auth_entry cr sv q dec why current n =
     (let b = auth_body_of cr sv q dec why current n in
      \<lparr>aw_sequence = n, aw_request = aq_id q, aw_digest = request_hash cr q,
       aw_binding = binding_hash cr (aq_binding q), aw_envelope = Some q, aw_decision = auth_str dec,
       aw_reason = why, aw_body = Some b, aw_signature = sign_auth cr (sv_secret sv) b\<rparr>)"

definition authorize_body ::
  "'x authority_crypto_scheme \<Rightarrow> service \<Rightarrow> auth_request \<Rightarrow> finding option \<Rightarrow> signed_claim \<Rightarrow>
     signed_trust option \<Rightarrow> moment \<Rightarrow> commit_db \<Rightarrow> (cas_exn + auth_receipt \<times> commit_db)" where
  "authorize_body cr sv q f c s now d =
     (case find_auth d (aq_id q) of
        Some w \<Rightarrow>
          if aw_digest w \<noteq> request_hash cr q then Inl RequestIdConflict
          else bindE (auth_from_row w True) (\<lambda>r. Inr (r, d))
      | None \<Rightarrow>
          bindE (read_checkpoint (cd_anchor d)) (\<lambda>current.
            let (dec, why) = evaluate_request cr (sv_profile sv) q f c s now current;
                n = next_number (map aw_sequence (cd_auths d));
                b = auth_body_of cr sv q dec why current n
            in Inr (\<lparr>rc_body = b, rc_signature = sign_auth cr (sv_secret sv) b, rc_replayed = False\<rparr>,
                    d\<lparr>cd_auths := cd_auths d @ [auth_entry cr sv q dec why current n]\<rparr>)))"

text \<open>A transaction with its seams.\<close>

definition transact :: "seam \<Rightarrow> commit_db option \<Rightarrow> (cas_exn + 'r \<times> commit_db) \<Rightarrow> (cas_exn + 'r) \<times> commit_db option" where
  "transact f db x =
     (case x of
        Inl e \<Rightarrow> (Inl e, db)
      | Inr (r, d') \<Rightarrow>
          (case f of Before \<Rightarrow> (Inl Seam, db) | After \<Rightarrow> (Inl Seam, Some d') | Quiet \<Rightarrow> (Inr r, Some d')))"

definition authorize ::
  "'x authority_crypto_scheme \<Rightarrow> service \<Rightarrow> auth_request \<Rightarrow> finding option \<Rightarrow> signed_claim \<Rightarrow>
     signed_trust option \<Rightarrow> moment \<Rightarrow> seam \<Rightarrow> commit_db option \<Rightarrow> (cas_exn + auth_receipt) \<times> commit_db option" where
  "authorize cr sv q f c s now x db =
     (if \<not> request_ok cr q then (Inl BadValue, db)
      else transact x db (bindE (commit_connect cr sv db) (authorize_body cr sv q f c s now)))"

definition lookup_authorization ::
  "'x authority_crypto_scheme \<Rightarrow> service \<Rightarrow> auth_request \<Rightarrow> commit_db option \<Rightarrow> (cas_exn + auth_receipt option)" where
  "lookup_authorization cr sv q db =
     (if \<not> request_ok cr q then Inl BadValue
      else bindE (commit_connect cr sv db) (\<lambda>d.
        case find_auth d (aq_id q) of
          None \<Rightarrow> Inr None
        | Some w \<Rightarrow>
            if aw_digest w \<noteq> request_hash cr q then Inl RequestIdConflict
            else bindE (auth_from_row w True) (\<lambda>r. Inr (Some r))))"

subsection \<open>Consuming\<close>

definition consume_decision :: "auth_receipt \<Rightarrow> checkpoint option \<Rightarrow> cons_decision \<times> string" where
  "consume_decision stored current =
     (if ab_decision (rc_body stored) \<noteq> AUTHORIZED then (REFUSED, ''AUTHORIZATION_NOT_GRANTED'')
      else if current \<noteq> ab_checkpoint (rc_body stored) then (STALE, ''TRUST_CHECKPOINT_CHANGED'')
      else (CONSUMED, ''DISPATCH_CLAIM_AUTHORIZED''))"

definition cons_body_of ::
  "'x authority_crypto_scheme \<Rightarrow> service \<Rightarrow> auth_request \<Rightarrow> int \<Rightarrow> string \<Rightarrow> cons_decision \<Rightarrow> string \<Rightarrow> checkpoint option \<Rightarrow>
     int \<Rightarrow> cons_body" where
  "cons_body_of cr sv q authorization claim dec why current n =
     \<lparr>cb_authority = pf_authority (sv_profile sv), cb_profile = pf_profile (sv_profile sv),
      cb_generation = pf_generation (sv_profile sv), cb_key_id = sv_key_id sv,
      cb_key_generation = sv_key_generation sv, cb_request = aq_id q, cb_digest = request_hash cr q,
      cb_binding = binding_hash cr (aq_binding q), cb_authorization = authorization, cb_claim = claim,
      cb_decision = dec, cb_reason = why, cb_checkpoint = current, cb_sequence = n\<rparr>"

definition cons_entry ::
  "'x authority_crypto_scheme \<Rightarrow> service \<Rightarrow> auth_request \<Rightarrow> int \<Rightarrow> string \<Rightarrow> cons_decision \<Rightarrow> string \<Rightarrow> checkpoint option \<Rightarrow>
     int \<Rightarrow> cons_row" where
  "cons_entry cr sv q authorization claim dec why current n =
     (let b = cons_body_of cr sv q authorization claim dec why current n in
      \<lparr>dw_sequence = n, dw_request = aq_id q, dw_digest = request_hash cr q,
       dw_binding = binding_hash cr (aq_binding q), dw_claim = claim, dw_decision = cons_str dec,
       dw_reason = why, dw_body = Some b, dw_signature = sign_cons cr (sv_secret sv) b\<rparr>)"

text \<open>
  Another request that already holds the dispatch claim makes the \<open>INSERT\<close> fail: the column is
  unique. \<open>ConsumptionConflict\<close> and the database error are both \<open>RequestIdConflict\<close> here.
\<close>

definition consume_body ::
  "'x authority_crypto_scheme \<Rightarrow> service \<Rightarrow> auth_request \<Rightarrow> auth_receipt \<Rightarrow> string \<Rightarrow> commit_db \<Rightarrow>
     (cas_exn + cons_receipt \<times> commit_db)" where
  "consume_body cr sv q a claim d =
     (case find_auth d (aq_id q) of
        None \<Rightarrow> Inl BadValue
      | Some w \<Rightarrow>
          if aw_digest w \<noteq> request_hash cr q then Inl BadValue
          else bindE (auth_from_row w False) (\<lambda>stored.
            if rc_signature stored \<noteq> rc_signature a \<or> rc_body stored \<noteq> rc_body a then Inl BadValue
            else case find_cons d (aq_id q) of
              Some e \<Rightarrow>
                if dw_claim e \<noteq> claim then Inl RequestIdConflict
                else bindE (cons_from_row e True) (\<lambda>r. Inr (r, d))
            | None \<Rightarrow>
                bindE (read_checkpoint (cd_anchor d)) (\<lambda>current.
                  let (dec, why) = consume_decision stored current;
                      n = next_number (map dw_sequence (cd_conss d));
                      authorization = ab_sequence (rc_body stored);
                      b = cons_body_of cr sv q authorization claim dec why current n
                  in if list_ex (\<lambda>v. dw_claim v = claim) (cd_conss d) then Inl RequestIdConflict
                     else Inr (\<lparr>rd_body = b, rd_signature = sign_cons cr (sv_secret sv) b, rd_replayed = False\<rparr>,
                               d\<lparr>cd_conss := cd_conss d @ [cons_entry cr sv q authorization claim dec why current n]\<rparr>))))"

definition consume ::
  "'x authority_crypto_scheme \<Rightarrow> service \<Rightarrow> auth_request \<Rightarrow> auth_receipt \<Rightarrow> string \<Rightarrow> seam \<Rightarrow>
     commit_db option \<Rightarrow> (cas_exn + cons_receipt) \<times> commit_db option" where
  "consume cr sv q a claim x db =
     (if \<not> commit_id_ok claim \<or> \<not> request_ok cr q \<or> \<not> verify_authorization_receipt cr (trusted_keys cr sv) a q
      then (Inl BadValue, db)
      else transact x db (bindE (commit_connect cr sv db) (consume_body cr sv q a claim)))"

definition lookup_consumption ::
  "'x authority_crypto_scheme \<Rightarrow> service \<Rightarrow> auth_request \<Rightarrow> commit_db option \<Rightarrow> (cas_exn + cons_receipt option)" where
  "lookup_consumption cr sv q db =
     (if \<not> request_ok cr q then Inl BadValue
      else bindE (commit_connect cr sv db) (\<lambda>d.
        case find_cons d (aq_id q) of
          None \<Rightarrow> Inr None
        | Some w \<Rightarrow>
            if dw_digest w \<noteq> request_hash cr q then Inl RequestIdConflict
            else bindE (cons_from_row w True) (\<lambda>r. Inr (Some r))))"

text \<open>The canonical text of an amount is not unique to it: beyond 28 digits amounts are rounded.\<close>

lemma canonical_amount_rounds:
  "canonical_amount (AFin (Dec 10000000000000000000000000001 0)) = canonical_amount (AFin (Dec 10000000000000000000000000000 0)) \<and>
   canonical_amount (AFin (Dec 10000000000000000000000000001 0)) \<noteq> None"
  by (simp add: normalize_def dec_fix_def ddigits_def ndigits.simps strip_zeros.simps fixed_text_def nat_str.simps Let_def)

end
