(* ===== verification/Commit_Guarantees.thy ===== *)
theory Commit_Guarantees
  imports Commit_Authority Trust_CAS_Guarantees
begin

section \<open>What a commit authorization is worth\<close>

text \<open>
  Properties of the authorization and consumption ledgers over every sequence of requests that
  any processes make on one authority file, with trust updates in between and an exception
  before or after any commit.
\<close>

subsection \<open>The evidence behind an authorization\<close>

text \<open>
  What \<open>AUTHORIZED\<close> means: the checkpoint is the one the request is bound to; the snapshot behind
  it is signed by a root of the profile; the claim the request is bound to is signed by a key of
  that snapshot, its issuer is not revoked and has the mandate for the scope, and the claim
  replaces the prior document and is in force.
\<close>

definition evidence ::
  "'x authority_crypto_scheme \<Rightarrow> profile \<Rightarrow> op_binding \<Rightarrow> signed_claim \<Rightarrow> signed_trust \<Rightarrow> moment \<Rightarrow> bool" where
  "evidence cr p b c s now \<longleftrightarrow>
     (\<exists>root issuer pl.
        map_of (pf_roots p) (sg_signer s) = Some root \<and> bound_payload s = Some pl \<and>
        verifies (crypto.truncate cr) root (sg_signature s) (Snapshot pl) \<and> fingerprint cr pl = ob_snapshot b \<and>
        ts_revision (sg_state s) = ob_revision b \<and>
        map_of (sg_keys s) (cl_issuer (sc_claim c)) = Some issuer \<and>
        verifies (crypto.truncate cr) issuer (sc_signature c) (Claim_Text (sc_claim c))) \<and>
     claim_digest (crypto.truncate cr) c = ob_claim b \<and>
     cl_issuer (sc_claim c) \<notin> set (ts_revoked (sg_state s)) \<and>
     (cl_issuer (sc_claim c), ob_evidence b) \<in> set (ts_mandates (sg_state s)) \<and>
     cl_replaces (sc_claim c) = ob_prior b \<and> instant (cl_effective (sc_claim c)) \<le> instant now"

lemma evaluate_claims_one:
  assumes "evaluate_claims [c] prior scope mandates now = Inr (ADMISSIBLE, why)"
  shows "cl_replaces c = prior" and "instant (cl_effective c) \<le> instant now" and "scope \<in> set (mandates (cl_issuer c))"
  using assms by (auto simp: evaluate_claims_def Let_def split: if_splits)

lemma verify_and_evaluate_one:
  assumes "verify_and_evaluate cr [c] prior scope keys mandates now = Inr (ADMISSIBLE, why)"
  obtains k where "map_of keys (cl_issuer (sc_claim c)) = Some k" "verifies cr k (sc_signature c) (Claim_Text (sc_claim c))"
    "cl_replaces (sc_claim c) = prior" "instant (cl_effective (sc_claim c)) \<le> instant now"
    "scope \<in> set (mandates (cl_issuer (sc_claim c)))"
  using assms evaluate_claims_one by (auto simp: verify_and_evaluate_def split: option.splits if_splits)

lemma preflight_admissible:
  assumes "verified_bound_preflight cr c prior scope now s roots n = Inr (ADMISSIBLE, why, f)"
  obtains fd where "f = Some fd" "fi_claim fd = claim_digest cr c"
    "verify_bound_snapshot cr s roots n" "cl_issuer (sc_claim c) \<notin> set (ts_revoked (sg_state s))"
    "verify_and_evaluate cr [c] prior scope (sg_keys s) (mandates_of (sg_state s)) now =
      Inr (ADMISSIBLE, ''POLICY_PRECONDITIONS_MET'')"
proof -
  let ?v = "verify_and_evaluate cr [c] prior scope (sg_keys s) (mandates_of (sg_state s)) now"
  from assms have v: "verify_bound_snapshot cr s roots n" "cl_issuer (sc_claim c) \<notin> set (ts_revoked (sg_state s))"
    and r: "bindE ?v (\<lambda>(v, why). if v \<noteq> ADMISSIBLE then Inr (v, why, None)
        else case bind_finding cr (sg_state s) (cl_issuer (sc_claim c)) scope prior (claim_digest cr c) of
          None \<Rightarrow> Inr (REJECT, ''TRUST_SCOPE_REJECTED'', None)
        | Some f \<Rightarrow> Inr (ADMISSIBLE, ''BOUND_PREFLIGHT_NOT_COMMITTED'',
              Some (f\<lparr>fi_snapshot := (case bound_payload s of None \<Rightarrow> [] | Some p \<Rightarrow> hash cr (Snapshot p))\<rparr>)))
      = Inr (ADMISSIBLE, why, f)"
    by (auto simp: verified_bound_preflight_def Let_def split: if_splits)
  from r obtain why' where a: "?v = Inr (ADMISSIBLE, why')"
    by (auto simp: bindE_Inr_conv split: if_splits)
  then have why': "why' = ''POLICY_PRECONDITIONS_MET''"
    by (auto simp: verify_and_evaluate_def evaluate_claims_def Let_def split: option.splits if_splits)
  from r a obtain g where "bind_finding cr (sg_state s) (cl_issuer (sc_claim c)) scope prior (claim_digest cr c) = Some g"
    and f: "f = Some (g\<lparr>fi_snapshot := (case bound_payload s of None \<Rightarrow> [] | Some p \<Rightarrow> hash cr (Snapshot p))\<rparr>)"
    by (auto split: option.splits)
  then have "fi_claim g = claim_digest cr c" by (auto simp: bind_finding_def split: if_splits)
  with v a why' show ?thesis by (intro that [OF f]) simp_all
qed

lemma revalidate_admissible:
  assumes "revalidate_bound cr f c prior scope now s roots n = Inr (ADMISSIBLE, why)"
  obtains "verify_bound_snapshot cr s roots n" "cl_issuer (sc_claim c) \<notin> set (ts_revoked (sg_state s))"
    "fi_claim f = claim_digest cr c"
    "verify_and_evaluate cr [c] prior scope (sg_keys s) (mandates_of (sg_state s)) now =
      Inr (ADMISSIBLE, ''POLICY_PRECONDITIONS_MET'')"
proof -
  from assms obtain v w new where pf: "verified_bound_preflight cr c prior scope now s roots n = Inr (v, w, new)"
    and r: "(case (v, new) of
         (ADMISSIBLE, Some n) \<Rightarrow>
           if \<not> revalidate cr f (sg_state s) (fi_claim n) prior scope \<or> fi_snapshot f \<noteq> fi_snapshot n
           then Inr (HOLD, ''TRUST_OR_CLAIM_CHANGED'')
           else Inr (ADMISSIBLE, ''BOUND_PREFLIGHT_VALID_NOT_COMMITTED'')
       | _ \<Rightarrow> Inr (v, w)) = (Inr (ADMISSIBLE, why) :: (verdict \<times> string) result)"
    by (auto simp: revalidate_bound_def bindE_Inr_conv)
  from r have v: "v = ADMISSIBLE" by (cases v; cases new) auto
  from pf [unfolded v] obtain fd where fd: "new = Some fd" "fi_claim fd = claim_digest cr c"
    "verify_bound_snapshot cr s roots n" "cl_issuer (sc_claim c) \<notin> set (ts_revoked (sg_state s))"
    "verify_and_evaluate cr [c] prior scope (sg_keys s) (mandates_of (sg_state s)) now =
      Inr (ADMISSIBLE, ''POLICY_PRECONDITIONS_MET'')"
    by (rule preflight_admissible)
  from r v fd(1) have "revalidate cr f (sg_state s) (fi_claim fd) prior scope" by (auto split: if_splits)
  then have "fi_claim f = fi_claim fd" by (simp add: revalidate_def)
  with fd show ?thesis by (intro that) simp_all
qed

text \<open>The authority granted this request at this checkpoint.\<close>

definition granted :: "'x authority_crypto_scheme \<Rightarrow> profile \<Rightarrow> auth_request \<Rightarrow> checkpoint option \<Rightarrow> bool" where
  "granted cr p q cur \<longleftrightarrow>
     (\<exists>f c s now why. evaluate_request cr p q f c s now cur = (AUTHORIZED, why))"

lemma evaluate_authorized:
  assumes "evaluate_request cr p q f c s now cur = (AUTHORIZED, why)"
  shows "ob_authority (aq_binding q) = pf_authority p \<and> ob_profile (aq_binding q) = pf_profile p \<and>
      ob_generation (aq_binding q) = pf_generation p \<and>
      cur = Some (ob_revision (aq_binding q), ob_snapshot (aq_binding q)) \<and>
      (\<exists>s'. s = Some s' \<and> evidence cr p (aq_binding q) c s' now)"
proof -
  let ?b = "aq_binding q"
  from assms obtain fd s' pl w where cur: "cur = Some (ob_revision ?b, ob_snapshot ?b)" and f: "f = Some fd" "fi_claim fd = ob_claim ?b"
    and s: "s = Some s'" "bound_payload s' = Some pl" "ts_revision (sg_state s') = ob_revision ?b" "fingerprint cr pl = ob_snapshot ?b"
    and a: "ob_authority ?b = pf_authority p" "ob_profile ?b = pf_profile p" "ob_generation ?b = pf_generation p"
    and r: "revalidate_bound (crypto.truncate cr) fd c (ob_prior ?b) (ob_evidence ?b) now s' (pf_roots p) (ob_revision ?b) =
      Inr (ADMISSIBLE, w)"
    by (auto simp: evaluate_request_def Let_def split: if_splits option.splits sum.splits)
  from r obtain v: "verify_bound_snapshot (crypto.truncate cr) s' (pf_roots p) (ob_revision ?b)"
    and nr: "cl_issuer (sc_claim c) \<notin> set (ts_revoked (sg_state s'))"
    and cl: "fi_claim fd = claim_digest (crypto.truncate cr) c"
    and ev: "verify_and_evaluate (crypto.truncate cr) [c] (ob_prior ?b) (ob_evidence ?b) (sg_keys s')
      (mandates_of (sg_state s')) now = Inr (ADMISSIBLE, ''POLICY_PRECONDITIONS_MET'')"
    by (rule revalidate_admissible)
  from ev obtain k where k: "map_of (sg_keys s') (cl_issuer (sc_claim c)) = Some k"
    "verifies (crypto.truncate cr) k (sc_signature c) (Claim_Text (sc_claim c))" "cl_replaces (sc_claim c) = ob_prior ?b"
    "instant (cl_effective (sc_claim c)) \<le> instant now"
    "ob_evidence ?b \<in> set (mandates_of (sg_state s') (cl_issuer (sc_claim c)))"
    by (rule verify_and_evaluate_one)
  then have m: "(cl_issuer (sc_claim c), ob_evidence ?b) \<in> set (ts_mandates (sg_state s'))"
    by (force simp: mandates_of_def)
  from v s(2) obtain root where "map_of (pf_roots p) (sg_signer s') = Some root"
    "verifies (crypto.truncate cr) root (sg_signature s') (Snapshot pl)"
    by (auto elim: verify_SomeD)
  then show ?thesis using a cur f s k m nr cl by (auto simp: evidence_def)
qed

subsection \<open>The invariant of the ledgers\<close>

definition auth_good :: "'x authority_crypto_scheme \<Rightarrow> service \<Rightarrow> auth_row \<Rightarrow> bool" where
  "auth_good cr sv w \<longleftrightarrow>
     (\<exists>q dec why cur n. w = auth_entry cr sv q dec why cur n \<and> request_ok cr q \<and> 1 \<le> n \<and> valid_opt cur \<and>
        (dec = AUTHORIZED \<longrightarrow> granted cr (sv_profile sv) q cur))"

text \<open>A consumption row belongs to the authorization row of its request.\<close>

definition cons_good :: "'x authority_crypto_scheme \<Rightarrow> service \<Rightarrow> commit_db \<Rightarrow> cons_row \<Rightarrow> bool" where
  "cons_good cr sv d e \<longleftrightarrow>
     (\<exists>q claim dec why cur n q' dec' why' cur' n'.
        e = cons_entry cr sv q n' claim dec why cur n \<and> request_ok cr q \<and> 1 \<le> n \<and> valid_opt cur \<and>
        auth_entry cr sv q' dec' why' cur' n' \<in> set (cd_auths d) \<and> aq_id q' = aq_id q \<and>
        request_hash cr q' = request_hash cr q \<and>
        binding_hash cr (aq_binding q') = binding_hash cr (aq_binding q) \<and>
        (dec = CONSUMED \<longrightarrow> dec' = AUTHORIZED \<and> cur = cur'))"

definition commit_good :: "'x authority_crypto_scheme \<Rightarrow> service \<Rightarrow> commit_db \<Rightarrow> bool" where
  "commit_good cr sv d \<longleftrightarrow>
     db_good cr (sv_profile sv) (cd_anchor d) \<and> cd_profile d = Some (service_row cr sv) \<and>
     set commit_guards \<subseteq> set (db_triggers (cd_anchor d)) \<and> commit_id_ok (sv_key_id sv) \<and> 1 \<le> sv_key_generation sv \<and>
     distinct (map aw_request (cd_auths d)) \<and> distinct (map dw_request (cd_conss d)) \<and>
     distinct (map dw_claim (cd_conss d)) \<and>
     (\<forall>w \<in> set (cd_auths d). auth_good cr sv w) \<and> (\<forall>e \<in> set (cd_conss d). cons_good cr sv d e)"

definition commit_le :: "commit_db \<Rightarrow> commit_db \<Rightarrow> bool" where
  "commit_le d d' \<longleftrightarrow>
     cas_le (cd_anchor d) (cd_anchor d') \<and> (\<exists>ws. cd_auths d' = cd_auths d @ ws) \<and> (\<exists>es. cd_conss d' = cd_conss d @ es)"

lemma commit_le_refl [simp]: "commit_le d d"
  by (simp add: commit_le_def)

lemma commit_le_trans: "commit_le d e \<Longrightarrow> commit_le e f \<Longrightarrow> commit_le d f"
  by (auto simp: commit_le_def intro: cas_le_trans)

lemma connect_commit_good:
  assumes "commit_good cr sv d" and "commit_connect cr sv' (Some d) = Inr d'"
  shows "d' = d" and "sv_profile sv' = sv_profile sv" and "service_row cr sv' = service_row cr sv"
  using assms by (auto simp: commit_good_def commit_connect_def bindE_Inr_conv Let_def split: if_splits dest: good_connect)

lemma commit_good_connect: "commit_good cr sv d \<Longrightarrow> commit_connect cr sv (Some d) = Inr d"
  using connect_good [of cr "sv_profile sv" "cd_anchor d"] by (simp add: commit_good_def commit_connect_def)

lemma service_row_key:
  "service_row cr sv' = service_row cr sv \<longleftrightarrow>
     sv_key_id sv' = sv_key_id sv \<and> sv_key_generation sv' = sv_key_generation sv \<and>
     public_key cr (sv_secret sv') = public_key cr (sv_secret sv)"
  by (simp add: service_row_def)

text \<open>Reading the entries back.\<close>

lemma auth_entry_simps [simp]:
  "aw_request (auth_entry cr sv q dec why cur n) = aq_id q"
  "aw_digest (auth_entry cr sv q dec why cur n) = request_hash cr q"
  "aw_envelope (auth_entry cr sv q dec why cur n) = Some q"
  "aw_sequence (auth_entry cr sv q dec why cur n) = n"
  "valid_opt cur \<Longrightarrow> auth_from_row (auth_entry cr sv q dec why cur n) rep =
     Inr \<lparr>rc_body = auth_body_of cr sv q dec why cur n,
          rc_signature = sign_auth cr (sv_secret sv) (auth_body_of cr sv q dec why cur n), rc_replayed = rep\<rparr>"
  by (simp_all add: auth_entry_def auth_from_row_def auth_body_of_def valid_opt_def Let_def split: option.splits)

lemma cons_entry_simps [simp]:
  "dw_request (cons_entry cr sv q a claim dec why cur n) = aq_id q"
  "dw_digest (cons_entry cr sv q a claim dec why cur n) = request_hash cr q"
  "dw_claim (cons_entry cr sv q a claim dec why cur n) = claim"
  "valid_opt cur \<Longrightarrow> cons_from_row (cons_entry cr sv q a claim dec why cur n) rep =
     Inr \<lparr>rd_body = cons_body_of cr sv q a claim dec why cur n,
          rd_signature = sign_cons cr (sv_secret sv) (cons_body_of cr sv q a claim dec why cur n), rd_replayed = rep\<rparr>"
  by (simp_all add: cons_entry_def cons_from_row_def cons_body_of_def valid_opt_def Let_def split: option.splits)

lemma next_number_pos: "1 \<le> next_number ns"
proof -
  have "n \<le> fold max xs n" for xs :: "int list" and n
  proof (induction xs arbitrary: n)
    case (Cons x xs)
    show ?case using Cons.IH [of "max x n"] by simp
  qed simp
  from this [of 0 ns] show ?thesis by (simp add: next_number_def)
qed

lemma find_auth_later: "commit_le d d' \<Longrightarrow> find_auth d i = Some w \<Longrightarrow> find_auth d' i = Some w"
  by (auto simp: commit_le_def find_auth_def find_append)

lemma find_cons_later: "commit_le d d' \<Longrightarrow> find_cons d i = Some w \<Longrightarrow> find_cons d' i = Some w"
  by (auto simp: commit_le_def find_cons_def find_append)

lemma find_auth_in: "find_auth d i = Some w \<Longrightarrow> w \<in> set (cd_auths d) \<and> aw_request w = i"
  by (auto simp: find_auth_def dest: find_SomeD)

lemma find_cons_in: "find_cons d i = Some w \<Longrightarrow> w \<in> set (cd_conss d) \<and> dw_request w = i"
  by (auto simp: find_cons_def dest: find_SomeD)

lemma cons_good_later: "cons_good cr sv d e \<Longrightarrow> commit_le d d' \<Longrightarrow> cons_good cr sv d' e"
  unfolding cons_good_def commit_le_def by fastforce

subsection \<open>Authorizing and consuming\<close>

text \<open>
  Handles of the same file may hold different private keys with the same public key; the model of
  a run uses one service \<open>sv\<close>.
\<close>

lemma authorize_body_cases:
  assumes g: "commit_good cr sv d" and ok: "request_ok cr q"
    and body: "authorize_body cr sv q f c s now d = Inr (r, d')"
  shows "commit_good cr sv d'" and "commit_le d d'"
    and "\<exists>w. find_auth d' (aq_id q) = Some w \<and> aw_digest w = request_hash cr q \<and> auth_from_row w (rc_replayed r) = Inr r"
    and "rc_replayed r \<Longrightarrow> d' = d"
proof -
  let ?cur = "db_checkpoint (cd_anchor d)"
  from g have cur: "valid_opt ?cur" and rd: "read_checkpoint (cd_anchor d) = Inr ?cur"
    by (auto simp: commit_good_def db_good_def read_checkpoint_def)
  have "commit_good cr sv d' \<and> commit_le d d' \<and>
    (\<exists>w. find_auth d' (aq_id q) = Some w \<and> aw_digest w = request_hash cr q \<and> auth_from_row w (rc_replayed r) = Inr r) \<and>
    (rc_replayed r \<longrightarrow> d' = d)"
  proof (cases "find_auth d (aq_id q)")
    case (Some w)
    with body have r: "auth_from_row w True = Inr r" "aw_digest w = request_hash cr q" "d' = d"
      by (auto simp: authorize_body_def bindE_Inr_conv split: if_splits)
    from r(1) have "rc_replayed r" by (auto simp: auth_from_row_def split: option.splits if_splits)
    with r Some g show ?thesis by auto
  next
    case None
    obtain dec why where ev: "evaluate_request cr (sv_profile sv) q f c s now ?cur = (dec, why)"
      by (cases "evaluate_request cr (sv_profile sv) q f c s now ?cur")
    define n where "n = next_number (map aw_sequence (cd_auths d))"
    let ?w = "auth_entry cr sv q dec why ?cur n"
    from body None rd ev have d': "d' = d\<lparr>cd_auths := cd_auths d @ [?w]\<rparr>"
      and r: "r = \<lparr>rc_body = auth_body_of cr sv q dec why ?cur n,
        rc_signature = sign_auth cr (sv_secret sv) (auth_body_of cr sv q dec why ?cur n), rc_replayed = False\<rparr>"
      by (simp_all add: authorize_body_def Let_def n_def)
    have le: "commit_le d d'" by (simp add: commit_le_def d')
    have new: "aq_id q \<notin> aw_request ` set (cd_auths d)" using None by (auto simp: find_auth_def find_None_iff)
    have "dec = AUTHORIZED \<longrightarrow> granted cr (sv_profile sv) q ?cur" using ev unfolding granted_def by blast
    then have "auth_good cr sv ?w"
      unfolding auth_good_def by (intro exI conjI) (use ok cur in \<open>auto simp: n_def next_number_pos\<close>)
    moreover have "\<forall>e \<in> set (cd_conss d). cons_good cr sv d' e" using g le by (auto simp: commit_good_def intro: cons_good_later)
    ultimately have "commit_good cr sv d'"
      using g new by (auto simp: commit_good_def d')
    moreover have "find_auth d' (aq_id q) = Some ?w" using None by (simp add: find_auth_def d' find_append)
    ultimately show ?thesis using le cur by (auto simp: r)
  qed
  then show "commit_good cr sv d'" "commit_le d d'"
    "\<exists>w. find_auth d' (aq_id q) = Some w \<and> aw_digest w = request_hash cr q \<and> auth_from_row w (rc_replayed r) = Inr r"
    "rc_replayed r \<Longrightarrow> d' = d"
    by blast+
qed

lemma consume_body_cases:
  assumes g: "commit_good cr sv d" and ok: "request_ok cr q" "verify_authorization_receipt cr (trusted_keys cr sv) a q"
    and body: "consume_body cr sv q a claim d = Inr (r, d')"
  shows "commit_good cr sv d'" and "commit_le d d'"
    and "\<exists>e. find_cons d' (aq_id q) = Some e \<and> dw_claim e = claim \<and> cons_from_row e (rd_replayed r) = Inr r"
    and "rd_replayed r \<Longrightarrow> d' = d"
    and "\<not> rd_replayed r \<Longrightarrow> cb_decision (rd_body r) = CONSUMED \<Longrightarrow>
      find_cons d (aq_id q) = None \<and> ab_checkpoint (rc_body a) = db_checkpoint (cd_anchor d)"
proof -
  let ?cur = "db_checkpoint (cd_anchor d)"
  from g have cur: "valid_opt ?cur" and rd: "read_checkpoint (cd_anchor d) = Inr ?cur"
    by (auto simp: commit_good_def db_good_def read_checkpoint_def)
  from body obtain w stored where w: "find_auth d (aq_id q) = Some w" "aw_digest w = request_hash cr q"
    and st: "auth_from_row w False = Inr stored" "rc_body stored = rc_body a"
    and rest: "(case find_cons d (aq_id q) of
              Some e \<Rightarrow> if dw_claim e \<noteq> claim then Inl RequestIdConflict
                else bindE (cons_from_row e True) (\<lambda>r. Inr (r, d))
            | None \<Rightarrow>
                bindE (read_checkpoint (cd_anchor d)) (\<lambda>current.
                  let (dec, why) = consume_decision stored current;
                      n = next_number (map dw_sequence (cd_conss d));
                      authorization = ab_sequence (rc_body stored);
                      b = cons_body_of cr sv q authorization claim dec why current n
                  in if list_ex (\<lambda>v. dw_claim v = claim) (cd_conss d) then Inl RequestIdConflict
                     else Inr (\<lparr>rd_body = b, rd_signature = sign_cons cr (sv_secret sv) b, rd_replayed = False\<rparr>,
                               d\<lparr>cd_conss := cd_conss d @ [cons_entry cr sv q authorization claim dec why current n]\<rparr>)))
       = Inr (r, d')"
    unfolding consume_body_def
    by (cases "find_auth d (aq_id q)"; (cases "auth_from_row (the (find_auth d (aq_id q))) False")?)
      (simp_all split: if_splits)
  have "commit_good cr sv d' \<and> commit_le d d' \<and>
    (\<exists>e. find_cons d' (aq_id q) = Some e \<and> dw_claim e = claim \<and> cons_from_row e (rd_replayed r) = Inr r) \<and>
    (rd_replayed r \<longrightarrow> d' = d) \<and>
    (\<not> rd_replayed r \<longrightarrow> cb_decision (rd_body r) = CONSUMED \<longrightarrow>
      find_cons d (aq_id q) = None \<and> ab_checkpoint (rc_body a) = ?cur)"
  proof (cases "find_cons d (aq_id q)")
    case (Some e)
    with rest have r: "cons_from_row e True = Inr r" "dw_claim e = claim" "d' = d"
      by (auto simp: bindE_Inr_conv split: if_splits)
    from r(1) have "rd_replayed r" by (auto simp: cons_from_row_def split: option.splits if_splits)
    with r Some g show ?thesis by auto
  next
    case None
    obtain dec why where ev: "consume_decision stored ?cur = (dec, why)" by (cases "consume_decision stored ?cur")
    define n where "n = next_number (map dw_sequence (cd_conss d))"
    define m where "m = ab_sequence (rc_body stored)"
    let ?e = "cons_entry cr sv q m claim dec why ?cur n"
    from rest None rd ev have d': "d' = d\<lparr>cd_conss := cd_conss d @ [?e]\<rparr>"
      and r: "r = \<lparr>rd_body = cons_body_of cr sv q m claim dec why ?cur n,
        rd_signature = sign_cons cr (sv_secret sv) (cons_body_of cr sv q m claim dec why ?cur n), rd_replayed = False\<rparr>"
      and fresh: "claim \<notin> dw_claim ` set (cd_conss d)"
      by (auto simp: Let_def n_def m_def list_ex_iff split: if_splits)
    have le: "commit_le d d'" by (simp add: commit_le_def d')
    have new: "aq_id q \<notin> dw_request ` set (cd_conss d)" using None by (auto simp: find_cons_def find_None_iff)
    from g w(1) obtain q' dec' why' cur' n' where w': "w = auth_entry cr sv q' dec' why' cur' n'" "valid_opt cur'"
      by (auto simp: commit_good_def auth_good_def dest!: find_auth_in)
    with st have sb: "rc_body a = auth_body_of cr sv q' dec' why' cur' n'"
      "rc_body stored = auth_body_of cr sv q' dec' why' cur' n'"
      by auto
    then have mn: "m = n'" by (simp add: m_def auth_body_of_def)
    have id: "aq_id q' = aq_id q" using find_auth_in [OF w(1)] w'(1) by simp
    have bh: "binding_hash cr (aq_binding q') = binding_hash cr (aq_binding q)"
      using ok(2) sb by (auto simp: verify_authorization_receipt_def auth_body_of_def split: option.splits)
    have cd: "dec = CONSUMED \<longrightarrow> dec' = AUTHORIZED \<and> ?cur = cur'"
      using ev sb(2) by (auto simp: consume_decision_def auth_body_of_def split: if_splits)
    have "cons_good cr sv d' ?e"
      unfolding cons_good_def
    proof (intro exI conjI)
      show "?e = cons_entry cr sv q n' claim dec why ?cur n" using mn by simp
      show "auth_entry cr sv q' dec' why' cur' n' \<in> set (cd_auths d')" using find_auth_in [OF w(1)] w'(1) by (simp add: d')
      show "1 \<le> n" by (simp add: n_def next_number_pos)
      show "request_hash cr q' = request_hash cr q" using w(2) w'(1) by simp
    qed (use ok cur cd id bh in auto)
    moreover have "\<forall>e \<in> set (cd_conss d). cons_good cr sv d' e" using g le by (auto simp: commit_good_def intro: cons_good_later)
    ultimately have "commit_good cr sv d'"
      using g new fresh by (auto simp: commit_good_def d')
    moreover have "find_cons d' (aq_id q) = Some ?e" using None by (simp add: find_cons_def d' find_append)
    moreover have "dec = CONSUMED \<longrightarrow> ab_checkpoint (rc_body a) = ?cur" using cd sb(1) by (simp add: auth_body_of_def)
    ultimately show ?thesis using le cur None by (auto simp: r cons_body_of_def)
  qed
  then show "commit_good cr sv d'" "commit_le d d'"
    "\<exists>e. find_cons d' (aq_id q) = Some e \<and> dw_claim e = claim \<and> cons_from_row e (rd_replayed r) = Inr r"
    "rd_replayed r \<Longrightarrow> d' = d"
    "\<not> rd_replayed r \<Longrightarrow> cb_decision (rd_body r) = CONSUMED \<Longrightarrow>
      find_cons d (aq_id q) = None \<and> ab_checkpoint (rc_body a) = db_checkpoint (cd_anchor d)"
    by blast+
qed

subsection \<open>Runs\<close>

text \<open>A request of a process with a handle of the service: to the anchor or to the ledgers.\<close>

datatype commit_op =
    Trust_Update cas_op seam
  | Authorize auth_request "finding option" signed_claim "signed_trust option" moment seam
  | Consume auth_request auth_receipt string seam

definition on_anchor ::
  "'x authority_crypto_scheme \<Rightarrow> service \<Rightarrow> cas_op \<Rightarrow> seam \<Rightarrow> commit_db option \<Rightarrow> commit_db option" where
  "on_anchor cr sv r f db =
     (case db of
        None \<Rightarrow> None
      | Some d \<Rightarrow>
          map_option (\<lambda>a. d\<lparr>cd_anchor := a\<rparr>) (snd (cas_request cr (sv_profile sv) r f (Some (cd_anchor d)))))"

fun commit_step :: "'x authority_crypto_scheme \<Rightarrow> service \<Rightarrow> commit_db option \<Rightarrow> commit_op \<Rightarrow> commit_db option" where
  "commit_step cr sv db (Trust_Update r f) = on_anchor cr sv r f db"
| "commit_step cr sv db (Authorize q f c s now x) = snd (authorize cr sv q f c s now x db)"
| "commit_step cr sv db (Consume q a claim x) = snd (consume cr sv q a claim x db)"

definition commit_file :: "'x authority_crypto_scheme \<Rightarrow> service \<Rightarrow> commit_db option \<Rightarrow> bool" where
  "commit_file cr sv db \<longleftrightarrow> hashes cr \<and> (\<exists>d. db = Some d \<and> commit_good cr sv d)"

definition commit_file_le :: "commit_db option \<Rightarrow> commit_db option \<Rightarrow> bool" where
  "commit_file_le a b \<longleftrightarrow> a = b \<or> (\<exists>d d'. a = Some d \<and> b = Some d' \<and> commit_le d d')"

lemma cas_request_triggers:
  assumes "cas_request cr p r f (Some a) = (x, Some a')"
  shows "db_triggers a' = db_triggers a"
proof -
  have body: "db_triggers b' = db_triggers b" if "cas_body cr p oper rid ex s e b = Inr (y, b')" for oper rid ex s e b y b'
    using that by (auto simp: cas_body_def Let_def bindE_Inr_conv split: option.splits if_splits prod.splits)
  have "db_triggers a' = db_triggers a" if "cas_execute cr p oper rid ex s f (Some a) = (x, Some a')" for oper rid ex s
    using that by (auto simp: cas_execute_def cas_connect_def split: if_splits sum.splits seam.splits dest!: body)
  with assms show ?thesis by (cases r) (auto simp: cas_bootstrap_def compare_and_swap_def)
qed

lemma on_anchor_good:
  assumes h: "hashes cr" and g: "commit_good cr sv d"
  obtains d' where "on_anchor cr sv r f (Some d) = Some d'" "commit_good cr sv d'" "commit_le d d'" "cd_conss d' = cd_conss d"
proof -
  let ?a = "snd (cas_request cr (sv_profile sv) r f (Some (cd_anchor d)))"
  have a: "?a = cas_step cr (Some (cd_anchor d)) (sv_profile sv, r, f)" by (simp add: cas_step_def)
  have "file_good cr (sv_profile sv) (Some (cd_anchor d))" using h g by (simp add: file_good_def commit_good_def)
  from cas_step_good [OF this, of "(sv_profile sv, r, f)"] a obtain b where b: "?a = Some b"
    "db_good cr (sv_profile sv) b" "cas_le (cd_anchor d) b"
    by (auto simp: file_good_def file_le_def)
  have t: "db_triggers b = db_triggers (cd_anchor d)"
    using cas_request_triggers [of cr "sv_profile sv" r f "cd_anchor d" _ b] b(1) by (metis prod.collapse)
  let ?d = "d\<lparr>cd_anchor := b\<rparr>"
  have le: "commit_le d ?d" using b by (simp add: commit_le_def)
  moreover have "commit_good cr sv ?d"
  proof -
    have "\<forall>e \<in> set (cd_conss d). cons_good cr sv ?d e" using g le by (auto simp: commit_good_def intro: cons_good_later)
    with g b t show ?thesis by (simp add: commit_good_def)
  qed
  ultimately show ?thesis using that [of ?d] b by (simp add: on_anchor_def)
qed

lemma authorize_cases:
  assumes g: "commit_good cr sv d" and run: "authorize cr sv q f c s now x (Some d) = (y, db')"
  obtains (Refused) "db' = Some d" "\<And>r. y \<noteq> Inr r"
  | (Done) r d' where "request_ok cr q" "authorize_body cr sv q f c s now d = Inr (r, d')"
      "db' = (if x = Before then Some d else Some d')" "y = (if x = Quiet then Inr r else Inl Seam)"
proof (cases "request_ok cr q")
  case True
  show ?thesis
  proof (cases "authorize_body cr sv q f c s now d")
    case (Inl e)
    with True run commit_good_connect [OF g] show ?thesis by (intro Refused) (auto simp: authorize_def transact_def)
  next
    case (Inr rd)
    with True run commit_good_connect [OF g] Done [of "fst rd" "snd rd"] show ?thesis
      by (cases rd; cases x; simp add: authorize_def transact_def)
  qed
next
  case False
  with run show ?thesis by (intro Refused) (auto simp: authorize_def)
qed

lemma consume_cases:
  assumes g: "commit_good cr sv d" and run: "consume cr sv q a claim x (Some d) = (y, db')"
  obtains (Refused) "db' = Some d" "\<And>r. y \<noteq> Inr r"
  | (Done) r d' where "request_ok cr q" "verify_authorization_receipt cr (trusted_keys cr sv) a q"
      "consume_body cr sv q a claim d = Inr (r, d')"
      "db' = (if x = Before then Some d else Some d')" "y = (if x = Quiet then Inr r else Inl Seam)"
proof (cases "commit_id_ok claim \<and> request_ok cr q \<and> verify_authorization_receipt cr (trusted_keys cr sv) a q")
  case True
  show ?thesis
  proof (cases "consume_body cr sv q a claim d")
    case (Inl e)
    with True run commit_good_connect [OF g] show ?thesis by (intro Refused) (auto simp: consume_def transact_def)
  next
    case (Inr rd)
    with True run commit_good_connect [OF g] Done [of "fst rd" "snd rd"] show ?thesis
      by (cases rd; cases x; simp add: consume_def transact_def)
  qed
next
  case False
  with run have "y = Inl BadValue" "db' = Some d" by (auto simp: consume_def split: if_splits)
  then show ?thesis by (intro Refused) simp_all
qed

lemma commit_step_good:
  assumes f: "commit_file cr sv db"
  shows "commit_file cr sv (commit_step cr sv db e) \<and> commit_file_le db (commit_step cr sv db e)"
proof -
  from f obtain d where d: "db = Some d" "hashes cr" "commit_good cr sv d" by (auto simp: commit_file_def)
  have "\<exists>d'. commit_step cr sv (Some d) e = Some d' \<and> commit_good cr sv d' \<and> commit_le d d'"
  proof (cases e)
    case (Trust_Update r f)
    then show ?thesis by (auto intro: on_anchor_good [OF d(2,3), of r f])
  next
    case (Authorize q f c s now x)
    obtain y db' where run: "authorize cr sv q f c s now x (Some d) = (y, db')" by (cases "authorize cr sv q f c s now x (Some d)")
    from d(3) run show ?thesis
    proof (cases rule: authorize_cases)
      case (Done r d')
      with authorize_body_cases(1,2) [OF d(3) Done(1,2)] run d(3) Authorize show ?thesis by auto
    qed (use run d(3) Authorize in simp)
  next
    case (Consume q a claim x)
    obtain y db' where run: "consume cr sv q a claim x (Some d) = (y, db')" by (cases "consume cr sv q a claim x (Some d)")
    from d(3) run show ?thesis
    proof (cases rule: consume_cases)
      case (Done r d')
      with consume_body_cases(1,2) [OF d(3) Done(1,2,3)] run d(3) Consume show ?thesis by auto
    qed (use run d(3) Consume in simp)
  qed
  with d show ?thesis by (auto simp: commit_file_def commit_file_le_def)
qed

interpretation ledgers: machine_order "commit_step cr sv" "commit_file cr sv" commit_file_le
proof unfold_locales
  show "commit_file_le s s" for s by (simp add: commit_file_le_def)
  show "commit_file_le s t \<Longrightarrow> commit_file_le t u \<Longrightarrow> commit_file_le s u" for s t u
    by (auto simp: commit_file_le_def intro: commit_le_trans)
qed (auto dest: commit_step_good)

lemma ledgers_run:
  assumes "commit_file cr sv (Some d)"
  obtains d' where "foldl (commit_step cr sv) (Some d) es = Some d'" "commit_good cr sv d'" "commit_le d d'"
  using ledgers.run_inv [OF assms, of es] ledgers.run_le [OF assms, of es]
  by (auto simp: commit_file_def commit_file_le_def)

subsection \<open>The guarantees\<close>

lemma consumed_row:
  assumes f: "commit_file cr sv db" and run: "consume cr sv q a claim x db = (Inr r, db')"
  obtains d d' e where "db = Some d" "db' = Some d'" "commit_good cr sv d" "commit_good cr sv d'" "commit_le d d'"
    "find_cons d' (aq_id q) = Some e" "dw_claim e = claim" "dw_body e = Some (rd_body r)" "request_ok cr q"
    "verify_authorization_receipt cr (trusted_keys cr sv) a q" "consume_body cr sv q a claim d = Inr (r, d')"
proof -
  from f obtain d where d: "db = Some d" "commit_good cr sv d" by (auto simp: commit_file_def)
  from d(2) run [unfolded d(1)] show ?thesis
  proof (cases rule: consume_cases)
    case (Done r0 d')
    then have "r0 = r" "db' = Some d'" by (auto split: if_splits)
    note body = Done(3) [unfolded \<open>r0 = r\<close>]
    note c = consume_body_cases [OF d(2) Done(1,2) body]
    from c(3) obtain e where e: "find_cons d' (aq_id q) = Some e" "dw_claim e = claim"
      "cons_from_row e (rd_replayed r) = Inr r" by blast
    from e(3) have "dw_body e = Some (rd_body r)"
      by (cases r) (auto simp: cons_from_row_def split: option.splits if_splits)
    with that [OF d(1) \<open>db' = Some d'\<close> d(2) c(1,2) e(1,2) _ Done(1,2) body] show ?thesis by blast
  qed blast
qed

lemma distinct_map_eq: "distinct (map f xs) \<Longrightarrow> x \<in> set xs \<Longrightarrow> y \<in> set xs \<Longrightarrow> f x = f y \<Longrightarrow> x = y"
  by (auto simp: distinct_map dest: inj_onD)

lemma consume_body_stored:
  assumes "consume_body cr sv q a claim d = Inr (r, d')"
  obtains w st where "find_auth d (aq_id q) = Some w" "aw_digest w = request_hash cr q"
    "auth_from_row w False = Inr st" "rc_body st = rc_body a"
  using assms unfolding consume_body_def
  by (cases "find_auth d (aq_id q)"; (cases "auth_from_row (the (find_auth d (aq_id q))) False")?)
    (simp_all split: if_splits)

text \<open>A consumed row and the authorization it consumed.\<close>

lemma consumed_authorization:
  assumes g: "commit_good cr sv d'" and le: "commit_le d d'"
    and w: "find_auth d i = Some w" and e: "find_cons d' i = Some e"
    and b: "dw_body e = Some b" "cb_decision b = CONSUMED"
  obtains q q' claim why why' cur n n' where
    "w = auth_entry cr sv q' AUTHORIZED why' cur n'" "e = cons_entry cr sv q n' claim CONSUMED why cur n"
    "b = cons_body_of cr sv q n' claim CONSUMED why cur n" "request_hash cr q' = request_hash cr q"
    "granted cr (sv_profile sv) q' cur" "valid_opt cur"
proof -
  from find_cons_in [OF e] g have "cons_good cr sv d' e" by (simp add: commit_good_def)
  then obtain q cl dec why cur n q' dec' why' cur' n' where
    e': "e = cons_entry cr sv q n' cl dec why cur n" and a': "auth_entry cr sv q' dec' why' cur' n' \<in> set (cd_auths d')"
    and eq: "aq_id q' = aq_id q" "request_hash cr q' = request_hash cr q" "dec = CONSUMED \<longrightarrow> dec' = AUTHORIZED \<and> cur = cur'"
      "valid_opt cur"
    by (auto simp: cons_good_def)
  from e' b(1) have b': "b = cons_body_of cr sv q n' cl dec why cur n" by (simp add: cons_entry_def Let_def)
  with b(2) have dec: "dec = CONSUMED" by (simp add: cons_body_of_def)
  have "aq_id q = i" using find_cons_in [OF e] e' by simp
  moreover have "distinct (map aw_request (cd_auths d'))" using g by (simp add: commit_good_def)
  ultimately have w': "w = auth_entry cr sv q' dec' why' cur' n'"
    using find_auth_in [OF find_auth_later [OF le w]] a' eq(1) by (elim distinct_map_eq) simp_all
  from a' g have "auth_good cr sv (auth_entry cr sv q' dec' why' cur' n')" by (simp add: commit_good_def)
  then obtain q2 dec2 why2 cur2 n2 where ag: "auth_entry cr sv q' dec' why' cur' n' = auth_entry cr sv q2 dec2 why2 cur2 n2"
    "dec2 = AUTHORIZED \<longrightarrow> granted cr (sv_profile sv) q2 cur2" by (auto simp: auth_good_def)
  from ag(1) have "aw_body (auth_entry cr sv q' dec' why' cur' n') = aw_body (auth_entry cr sv q2 dec2 why2 cur2 n2)"
    "aw_envelope (auth_entry cr sv q' dec' why' cur' n') = aw_envelope (auth_entry cr sv q2 dec2 why2 cur2 n2)" by simp_all
  then have "q' = q2" "dec' = dec2" "cur' = cur2" by (simp_all add: auth_entry_def auth_body_of_def Let_def)
  with ag(2) eq dec w' e' b' show ?thesis by (intro that [of q' why' cur' n' q cl why n]) auto
qed

text \<open>
  C2. An authorization is consumed by one dispatch claim, and a dispatch claim consumes one
  authorization, whatever is retried, lost or crashes in between; a repeated consumption is
  answered with the receipt of the first.
\<close>

theorem consumed_once:
  assumes f: "commit_file cr sv db"
    and first: "consume cr sv q a claim x db = (Inr r, db')"
    and second: "consume cr sv q' a' claim' x' (foldl (commit_step cr sv) db' es) = (Inr r', db'')"
  shows "(aq_id q' = aq_id q \<longleftrightarrow> claim' = claim) \<and> (claim' = claim \<longrightarrow> rd_body r' = rd_body r)"
proof -
  from f first obtain d d1 e where d1: "db = Some d" "db' = Some d1" "commit_good cr sv d1"
    "find_cons d1 (aq_id q) = Some e" "dw_claim e = claim" "dw_body e = Some (rd_body r)"
    by (rule consumed_row)
  from f have h: "hashes cr" by (simp add: commit_file_def)
  with d1 have f1: "commit_file cr sv (Some d1)" by (simp add: commit_file_def)
  from ledgers_run [OF f1] obtain d2 where d2: "foldl (commit_step cr sv) (Some d1) es = Some d2" "commit_good cr sv d2"
    "commit_le d1 d2" by metis
  then have f2: "commit_file cr sv (foldl (commit_step cr sv) db' es)" using h d1 by (simp add: commit_file_def)
  from f2 second obtain d2' d3 e' where d3: "foldl (commit_step cr sv) db' es = Some d2'" "commit_good cr sv d3"
    "commit_le d2' d3" "find_cons d3 (aq_id q') = Some e'" "dw_claim e' = claim'" "dw_body e' = Some (rd_body r')"
    by (rule consumed_row)
  from d1 d2 d3 have "commit_le d1 d3" by (auto intro: commit_le_trans)
  with d1 have e3: "find_cons d3 (aq_id q) = Some e" by (simp add: find_cons_later)
  note in3 = find_cons_in [OF e3] find_cons_in [OF d3(4)]
  from d3(2) have "distinct (map dw_claim (cd_conss d3))" by (simp add: commit_good_def)
  from distinct_map_eq [OF this, of e e'] in3 have c: "e = e'" if "claim' = claim" using that d1(5) d3(5) by simp
  have k: "e = e'" if "aq_id q' = aq_id q" using that e3 d3(4) by simp
  have "claim' = claim" if "aq_id q' = aq_id q" using k [OF that] d1(5) d3(5) by simp
  moreover have "aq_id q' = aq_id q" if "claim' = claim" using c [OF that] in3 by simp
  moreover have "rd_body r' = rd_body r" if "claim' = claim" using c [OF that] d1(6) d3(6) by simp
  ultimately show ?thesis by blast
qed

text \<open>
  C3. What a \<open>CONSUMED\<close> receipt proves, even a replayed one, when no other request has the digest
  of this one: the request is bound to this authority and profile, and there was signed evidence for
  exactly its binding under the snapshot of the receipt's checkpoint.
\<close>

theorem consumed_means:
  assumes f: "commit_file cr sv db" and own: "\<And>q'. request_hash cr q' = request_hash cr q \<Longrightarrow> q' = q"
    and run: "consume cr sv q a claim x db = (Inr r, db')" and c: "cb_decision (rd_body r) = CONSUMED"
  shows "ob_authority (aq_binding q) = pf_authority (sv_profile sv) \<and>
    ob_profile (aq_binding q) = pf_profile (sv_profile sv) \<and>
    cb_checkpoint (rd_body r) = Some (ob_revision (aq_binding q), ob_snapshot (aq_binding q)) \<and>
    cb_claim (rd_body r) = claim \<and> cb_digest (rd_body r) = request_hash cr q \<and>
    (\<exists>c s now. evidence cr (sv_profile sv) (aq_binding q) c s now)"
proof -
  from f run obtain d d' e where e: "commit_good cr sv d'" "find_cons d' (aq_id q) = Some e" "dw_claim e = claim"
    "dw_body e = Some (rd_body r)" "consume_body cr sv q a claim d = Inr (r, d')" "commit_le d d'"
    by (rule consumed_row)
  from e(5) obtain w where w: "find_auth d (aq_id q) = Some w" "aw_digest w = request_hash cr q"
    by (rule consume_body_stored)
  from e(1,6) w(1) e(2,4) c obtain q1 q' cl why why' cur n n' where
    row: "w = auth_entry cr sv q' AUTHORIZED why' cur n'" "e = cons_entry cr sv q1 n' cl CONSUMED why cur n"
      "rd_body r = cons_body_of cr sv q1 n' cl CONSUMED why cur n" "request_hash cr q' = request_hash cr q1"
      "granted cr (sv_profile sv) q' cur"
    by (rule consumed_authorization)
  have q: "q' = q" using w(2) row(1) by (auto intro: own)
  then have "q1 = q" using row(4) by (auto intro: own)
  from row(5) q obtain f c s now why3 where "evaluate_request cr (sv_profile sv) q f c s now cur = (AUTHORIZED, why3)"
    by (auto simp: granted_def)
  from evaluate_authorized [OF this] show ?thesis
    using row(2,3) e(3) q \<open>q1 = q\<close> by (auto simp: cons_body_of_def)
qed

text \<open>Rows written after a moment carry a checkpoint at least as high as the one of that moment.\<close>

definition later_rows :: "int \<Rightarrow> nat \<Rightarrow> commit_db option \<Rightarrow> bool" where
  "later_rows c n db \<longleftrightarrow>
     (\<exists>d. db = Some d \<and> c \<le> rank (db_checkpoint (cd_anchor d)) \<and>
        (\<forall>e \<in> set (drop n (cd_conss d)). \<forall>b. dw_body e = Some b \<longrightarrow> c \<le> rank (cb_checkpoint b)))"

lemma later_anchor: "later_rows c n (Some d) \<Longrightarrow> cas_le (cd_anchor d) (cd_anchor d') \<Longrightarrow> c \<le> rank (db_checkpoint (cd_anchor d'))
    \<or> db_checkpoint (cd_anchor d) = None"
  by (cases "db_checkpoint (cd_anchor d)") (auto simp: later_rows_def cas_le_def rank_def)

lemma later_rows_step:
  assumes f: "commit_file cr sv db" and l: "later_rows c n db" and c: "1 \<le> c"
  shows "later_rows c n (commit_step cr sv db e)"
proof -
  from f l obtain d where d: "db = Some d" "hashes cr" "commit_good cr sv d" "c \<le> rank (db_checkpoint (cd_anchor d))"
    and rows: "\<forall>e \<in> set (drop n (cd_conss d)). \<forall>b. dw_body e = Some b \<longrightarrow> c \<le> rank (cb_checkpoint b)"
    by (auto simp: commit_file_def later_rows_def)
  have anchor: "c \<le> rank (db_checkpoint (cd_anchor d'))" if "commit_le d d'" for d'
    using that d(4) c by (cases "db_checkpoint (cd_anchor d)") (auto simp: commit_le_def cas_le_def rank_def)
  have same: "later_rows c n (Some d')" if "commit_le d d'" "cd_conss d' = cd_conss d" for d'
    using that anchor rows by (simp add: later_rows_def)
  show ?thesis
  proof (cases e)
    case (Trust_Update r f)
    then show ?thesis using same d(1) by (auto intro: on_anchor_good [OF d(2,3), of r f])
  next
    case (Authorize q f t s now x)
    obtain y db' where run: "authorize cr sv q f t s now x (Some d) = (y, db')" by (cases "authorize cr sv q f t s now x (Some d)")
    from d(3) run show ?thesis
    proof (cases rule: authorize_cases)
      case (Done r d')
      have "cd_conss d' = cd_conss d"
        using Done(2) by (auto simp: authorize_body_def bindE_Inr_conv Let_def case_prod_beta split: option.splits if_splits)
      with authorize_body_cases(2) [OF d(3) Done(1,2)] run l Done Authorize same d(1) show ?thesis by auto
    qed (use run l Authorize d(1) in simp)
  next
    case (Consume q a claim x)
    obtain y db' where run: "consume cr sv q a claim x (Some d) = (y, db')" by (cases "consume cr sv q a claim x (Some d)")
    from d(3) run show ?thesis
    proof (cases rule: consume_cases)
      case (Done r d')
      have new: "cd_conss d' = cd_conss d \<or> (\<exists>e b. cd_conss d' = cd_conss d @ [e] \<and> dw_body e = Some b \<and>
          cb_checkpoint b = db_checkpoint (cd_anchor d))"
        using Done(3) d(3) unfolding consume_body_def
        by (auto simp: bindE_Inr_conv Let_def cons_entry_def cons_body_of_def commit_good_def db_good_def
            read_checkpoint_def case_prod_beta split: option.splits if_splits)
      have le: "commit_le d d'" by (rule consume_body_cases(2) [OF d(3) Done(1,2,3)])
      have "later_rows c n (Some d')"
        using new anchor [OF le] rows d(4) by (auto simp: later_rows_def dest!: in_set_dropD [where xs = "[_]"])
      with run l Done Consume d(1) show ?thesis by auto
    qed (use run l Consume d(1) in simp)
  qed
qed

text \<open>
  C4. Revocation takes effect: once the trust checkpoint has moved past the one an authorization was
  granted under, and nothing has consumed it yet, no later consumption of it succeeds, whatever
  else happens.
\<close>

theorem revoked_never_consumed:
  assumes f: "commit_file cr sv db" and unused: "lookup_consumption cr sv q db = Inr None"
    and moved: "cas_get (sv_profile sv) (map_option cd_anchor db) = Inr (Some c')"
      "ab_checkpoint (rc_body a) = Some c" "fst c < fst c'"
    and run: "consume cr sv q a claim x (foldl (commit_step cr sv) db es) = (Inr r, db')"
  shows "cb_decision (rd_body r) \<noteq> CONSUMED"
proof
  assume con: "cb_decision (rd_body r) = CONSUMED"
  from f obtain d where d: "db = Some d" "hashes cr" "commit_good cr sv d" by (auto simp: commit_file_def)
  from unused d(1) commit_good_connect [OF d(3)] have none: "find_cons d (aq_id q) = None"
    by (auto simp: lookup_consumption_def bindE_Inr_conv split: if_splits option.splits)
  have good: "db_good cr (sv_profile sv) (cd_anchor d)" using d(3) by (simp add: commit_good_def)
  then have "read_checkpoint (cd_anchor d) = Inr (db_checkpoint (cd_anchor d))" by (simp add: read_checkpoint_def db_good_def)
  with moved(1) connect_good [OF good] d(1) have cp: "db_checkpoint (cd_anchor d) = Some c'" by (simp add: cas_get_def)
  from good cp have pos: "1 \<le> fst c'" by (auto simp: db_good_def valid_opt_def checkpoint_valid_def)
  let ?n = "length (cd_conss d)" and ?e = "foldl (commit_step cr sv) db es"
  have "later_rows (fst c') ?n db" by (simp add: later_rows_def d(1) cp rank_def)
  with f have l: "later_rows (fst c') ?n ?e"
  proof (induction es arbitrary: db)
    case (Cons e es)
    then show ?case using later_rows_step [OF Cons.prems(1,2) pos] commit_step_good [OF Cons.prems(1)] by simp
  qed simp
  from f d(1) have "commit_file cr sv (Some d)" by simp
  from ledgers_run [OF this] obtain d2 where d2: "?e = Some d2" "commit_good cr sv d2" "commit_le d d2" using d(1) by metis
  have f2: "commit_file cr sv ?e" using d(2) d2 by (simp add: commit_file_def)
  from f2 run obtain d2' d3 e where row: "?e = Some d2'" "commit_good cr sv d3" "commit_le d2' d3"
    "find_cons d3 (aq_id q) = Some e" "dw_body e = Some (rd_body r)" "request_ok cr q"
    "verify_authorization_receipt cr (trusted_keys cr sv) a q" "consume_body cr sv q a claim d2' = Inr (r, d3)"
    by (rule consumed_row)
  have d2': "d2' = d2" using row(1) d2(1) by simp
  have "later_rows (fst c') ?n (commit_step cr sv ?e (Consume q a claim Quiet))" by (rule later_rows_step [OF f2 l pos])
  moreover have "commit_step cr sv ?e (Consume q a claim Quiet) = Some d3"
  proof -
    have "commit_id_ok claim" using run by (auto simp: consume_def split: if_splits)
    then show ?thesis using row d2' d2 commit_good_connect [OF d2(2)] by (simp add: consume_def transact_def)
  qed
  ultimately have l3: "later_rows (fst c') ?n (Some d3)" by simp
  have "commit_le d d3" using d2 row(3) d2' by (auto intro: commit_le_trans)
  then obtain es' where es': "cd_conss d3 = cd_conss d @ es'" by (auto simp: commit_le_def)
  have "e \<in> set es'" using row(4) none es' by (auto simp: find_cons_def find_append dest: find_SomeD)
  with l3 es' row(5) have high: "fst c' \<le> rank (cb_checkpoint (rd_body r))" by (auto simp: later_rows_def)
  from row(8) obtain w st where w: "find_auth d2' (aq_id q) = Some w" "auth_from_row w False = Inr st" "rc_body st = rc_body a"
    by (rule consume_body_stored)
  from row(2,3) w(1) row(4,5) con obtain q1 q' cl why why' cur n n' where
    e': "w = auth_entry cr sv q' AUTHORIZED why' cur n'" "rd_body r = cons_body_of cr sv q1 n' cl CONSUMED why cur n" "valid_opt cur"
    by (rule consumed_authorization)
  from w(2) e'(1,3) have "rc_body st = auth_body_of cr sv q' AUTHORIZED why' cur n'" by auto
  then have "ab_checkpoint (rc_body st) = cur" by (simp add: auth_body_of_def)
  then have "ab_checkpoint (rc_body a) = cur" using w(3) by simp
  with moved(2) e'(2) high moved(3) show False by (simp add: cons_body_of_def rank_def)
qed

subsection \<open>Reopening the ledgers\<close>

text \<open>Signatures have 64 bytes and verify under the public key, which has 32.\<close>

definition signatures :: "'x authority_crypto_scheme \<Rightarrow> bool" where
  "signatures cr \<longleftrightarrow>
     (\<forall>k. length (public_key cr k) = 32) \<and>
     (\<forall>k b. length (sign_auth cr k b) = 64 \<and> verify_auth cr (public_key cr k) (sign_auth cr k b) b) \<and>
     (\<forall>k b. length (sign_cons cr k b) = 64 \<and> verify_cons cr (public_key cr k) (sign_cons cr k b) b)"

definition bound_to :: "service \<Rightarrow> auth_request \<Rightarrow> bool" where
  "bound_to sv q \<longleftrightarrow>
     ob_authority (aq_binding q) = pf_authority (sv_profile sv) \<and> ob_profile (aq_binding q) = pf_profile (sv_profile sv) \<and>
     ob_generation (aq_binding q) = pf_generation (sv_profile sv)"

fun op_bound :: "service \<Rightarrow> commit_op \<Rightarrow> bool" where
  "op_bound sv (Authorize q f c s now x) = bound_to sv q"
| "op_bound sv _ = True"

definition rows_bound :: "service \<Rightarrow> commit_db \<Rightarrow> bool" where
  "rows_bound sv d \<longleftrightarrow> (\<forall>w \<in> set (cd_auths d). \<forall>q. aw_envelope w = Some q \<longrightarrow> bound_to sv q)"

lemma auth_row_checks:
  assumes "signatures cr" and "auth_good cr sv w" and "\<forall>q. aw_envelope w = Some q \<longrightarrow> bound_to sv q"
  shows "auth_row_ok cr sv w"
proof -
  from assms(2) obtain q dec why cur n where w: "w = auth_entry cr sv q dec why cur n" and q: "request_ok cr q" "1 \<le> n" "valid_opt cur"
    by (auto simp: auth_good_def)
  have "bound_to sv q" using assms(3) w by simp
  then have "verify_authorization_receipt cr (trusted_keys cr sv) \<lparr>rc_body = auth_body_of cr sv q dec why cur n,
      rc_signature = sign_auth cr (sv_secret sv) (auth_body_of cr sv q dec why cur n), rc_replayed = False\<rparr> q"
    using q assms(1) by (simp add: verify_authorization_receipt_def trusted_keys_def auth_body_of_def bound_to_def signatures_def)
  then show ?thesis
    using q unfolding auth_row_ok_def w by simp (simp add: auth_entry_def auth_body_of_def Let_def)
qed

lemma cons_row_checks:
  assumes sg: "signatures cr" and g: "commit_good cr sv d" and b: "rows_bound sv d" and e: "e \<in> set (cd_conss d)"
  shows "cons_row_ok cr sv d e"
proof -
  from g e have "cons_good cr sv d e" by (simp add: commit_good_def)
  then obtain q cl dec why cur n q' dec' why' cur' n' where
    e': "e = cons_entry cr sv q n' cl dec why cur n" "request_ok cr q" "1 \<le> n" "valid_opt cur"
    and a: "auth_entry cr sv q' dec' why' cur' n' \<in> set (cd_auths d)"
    and eq: "aq_id q' = aq_id q" "request_hash cr q' = request_hash cr q"
      "binding_hash cr (aq_binding q') = binding_hash cr (aq_binding q)"
    by (auto simp: cons_good_def)
  let ?a = "auth_entry cr sv q' dec' why' cur' n'" and ?ab = "auth_body_of cr sv q' dec' why' cur' n'"
    and ?cb = "cons_body_of cr sv q n' cl dec why cur n"
  have ag: "auth_good cr sv ?a" using g a by (simp add: commit_good_def)
  have bt: "\<forall>q. aw_envelope ?a = Some q \<longrightarrow> bound_to sv q" using b a by (simp only: rows_bound_def) blast
  have ok: "auth_row_ok cr sv ?a" by (rule auth_row_checks [OF sg ag bt])
  then obtain r where r: "auth_from_row ?a False = Inr r" "verify_authorization_receipt cr (trusted_keys cr sv) r q'"
    by (auto simp: auth_row_ok_def split: sum.splits)
  have rb: "rc_body r = ?ab" using r(1) by (auto simp: auth_from_row_def auth_entry_def Let_def split: option.splits if_splits)
  have "find_auth d (aq_id q') = Some ?a"
  proof (cases "find_auth d (aq_id q')")
    case None
    with a show ?thesis by (auto simp: find_auth_def find_None_iff)
  next
    case (Some w)
    moreover have "distinct (map aw_request (cd_auths d))" using g by (simp add: commit_good_def)
    ultimately have "w = ?a" using find_auth_in [OF Some] a by (elim distinct_map_eq) simp_all
    with Some show ?thesis by simp
  qed
  moreover have "verify_consumption_receipt cr (trusted_keys cr sv) \<lparr>rd_body = ?cb,
      rd_signature = sign_cons cr (sv_secret sv) ?cb, rd_replayed = False\<rparr> q' r"
    using r(2) rb eq e'(3) sg
    by (simp add: verify_consumption_receipt_def trusted_keys_def cons_body_of_def auth_body_of_def signatures_def)
  ultimately show ?thesis
    using eq(1) e'(4) r(1) unfolding cons_row_ok_def e'(1) by simp (simp add: cons_entry_def cons_body_of_def Let_def)
qed

lemma good_commit_open:
  assumes sg: "signatures cr" and g: "commit_good cr sv d" and b: "rows_bound sv d"
  shows "commit_open cr (Some d) (sv_secret sv) = Inr sv"
proof -
  have "cas_open cr (Some (cd_anchor d)) = Inr (sv_profile sv)" using g by (auto simp: commit_good_def intro: good_open)
  moreover have "list_all (auth_row_ok cr sv) (cd_auths d)"
    using g b auth_row_checks [OF sg] by (simp add: list_all_iff commit_good_def rows_bound_def)
  moreover have "list_all (cons_row_ok cr sv d) (cd_conss d)"
    using cons_row_checks [OF sg g b] by (simp add: list_all_iff)
  ultimately show ?thesis
    using g sg by (cases sv) (simp add: commit_open_def commit_good_def service_row_def signatures_def Let_def)
qed

lemma commit_step_bound:
  assumes f: "commit_file cr sv (Some d)" and b: "rows_bound sv d" and e: "op_bound sv e"
    and s: "commit_step cr sv (Some d) e = Some d'"
  shows "rows_bound sv d'"
proof -
  from f have g: "hashes cr" "commit_good cr sv d" by (auto simp: commit_file_def)
  show ?thesis
  proof (cases e)
    case (Trust_Update r h)
    with s b show ?thesis by (auto simp: on_anchor_def rows_bound_def)
  next
    case (Authorize q f c t now x)
    obtain y db' where run: "authorize cr sv q f c t now x (Some d) = (y, db')" by (cases "authorize cr sv q f c t now x (Some d)")
    from g(2) run show ?thesis
    proof (cases rule: authorize_cases)
      case (Done r d2)
      have "rows_bound sv d2"
        using Done(2) b e Authorize
        by (auto simp: authorize_body_def bindE_Inr_conv Let_def case_prod_beta rows_bound_def split: option.splits if_splits)
      with run s Authorize Done b show ?thesis by (auto split: if_splits)
    qed (use run s Authorize b in auto)
  next
    case (Consume q a claim x)
    obtain y db' where run: "consume cr sv q a claim x (Some d) = (y, db')" by (cases "consume cr sv q a claim x (Some d)")
    from g(2) run show ?thesis
    proof (cases rule: consume_cases)
      case (Done r d2)
      have "cd_auths d2 = cd_auths d"
        using Done(3) by (auto simp: consume_body_def bindE_Inr_conv Let_def case_prod_beta split: option.splits if_splits)
      with run s Consume Done b show ?thesis by (auto simp: rows_bound_def split: if_splits)
    qed (use run s Consume b in auto)
  qed
qed

lemma commit_provisioned:
  assumes h: "hashes cr" and pr: "commit_provision cr a pf n roots kid kgen secret = (Inr sv, db)"
  obtains d where "db = Some d" "commit_good cr sv d" "rows_bound sv d" "sv_secret sv = secret"
proof -
  from pr obtain p anchor where k: "commit_id_ok kid" "1 \<le> kgen" and an: "cas_provision cr None a pf n roots = (Inr p, anchor)"
    and db: "db = Some \<lparr>cd_anchor = (the anchor)\<lparr>db_triggers := db_triggers (the anchor) @ commit_guards\<rparr>,
        cd_profile = Some \<lparr>cp_schema = 1, cp_key_id = kid, cp_key_generation = kgen, cp_public = public_key cr secret\<rparr>,
        cd_auths = [], cd_conss = []\<rparr>"
    and o: "commit_open cr db secret = Inr sv"
    by (auto simp: commit_provision_def Let_def split: if_splits prod.splits sum.splits)
  from provisioned [OF h an] obtain d0 where d0: "anchor = Some d0" "db_good cr p d0" by (auto simp: file_good_def)
  let ?a = "d0\<lparr>db_triggers := db_triggers d0 @ commit_guards\<rparr>"
  have g: "db_good cr p ?a" using d0(2) by (auto simp: db_good_def guarded_def)
  from good_open [OF g] o have sv: "sv = \<lparr>sv_profile = p, sv_secret = secret, sv_key_id = kid, sv_key_generation = kgen\<rparr>"
    by (auto simp: commit_open_def db d0 Let_def split: if_splits)
  have "commit_good cr sv (the db)"
    using g k by (simp add: commit_good_def db d0 sv service_row_def)
  then show ?thesis using that [of "the db"] by (simp add: db rows_bound_def sv)
qed

text \<open>
  C33. Whatever authorizations, consumptions, trust updates and faults a provisioned authority has
  seen, if every authorization request was bound to it, the file opens again: each stored row
  is rebuilt from its texts and each signature verifies.
\<close>

theorem commit_reopens:
  assumes "hashes cr" and sg: "signatures cr"
    and pr: "commit_provision cr a pf n roots kid kgen secret = (Inr sv, db)" and es: "list_all (op_bound sv) es"
  shows "commit_open cr (foldl (commit_step cr sv) db es) secret = Inr sv"
proof -
  from commit_provisioned [OF assms(1) pr] obtain d where d: "db = Some d" "commit_good cr sv d" "rows_bound sv d"
    and s: "sv_secret sv = secret" by metis
  have "\<exists>d'. foldl (commit_step cr sv) (Some d) es = Some d' \<and> commit_good cr sv d' \<and> rows_bound sv d'"
    using d(2,3) es
  proof (induction es arbitrary: d)
    case (Cons e es)
    have f: "commit_file cr sv (Some d)" using assms(1) Cons.prems by (simp add: commit_file_def)
    from commit_step_good [OF f, of e] obtain d1 where d1: "commit_step cr sv (Some d) e = Some d1" "commit_good cr sv d1"
      by (auto simp: commit_file_def)
    with Cons.IH [of d1] commit_step_bound [OF f _ _ d1(1)] Cons.prems show ?case by simp
  qed auto
  with good_commit_open [OF sg] d(1) s show ?thesis by auto
qed

text \<open>
  C34. The bound is needed: a well-formed request that names another authority is rejected, but the
  rejection is recorded under this authority's identity, and the check at the next \<open>open\<close> compares
  that identity with the request's. From then on no process can open the authority again.
\<close>

theorem foreign_request_bricks_authority:
  assumes f: "commit_file cr sv db" and q: "ob_authority (aq_binding q) \<noteq> pf_authority (sv_profile sv)"
    and new: "lookup_authorization cr sv q db = Inr None"
    and run: "authorize cr sv q fd c s now Quiet db = (Inr r, db')"
  shows "ab_decision (rc_body r) = auth_decision.REJECTED \<and>
    commit_open cr (foldl (commit_step cr sv) db' es) secret = Inl StoreIntegrity"
proof -
  from f obtain d where d: "db = Some d" "hashes cr" "commit_good cr sv d" by (auto simp: commit_file_def)
  from new d(1) commit_good_connect [OF d(3)] have none: "find_auth d (aq_id q) = None"
    by (auto simp: lookup_authorization_def bindE_Inr_conv split: if_splits option.splits)
  from d(3) run [unfolded d(1)] obtain d1 where ok: "request_ok cr q" and body: "authorize_body cr sv q fd c s now d = Inr (r, d1)"
    and db': "db' = Some d1"
    by (cases rule: authorize_cases) auto
  from body none q have dec: "ab_decision (rc_body r) = auth_decision.REJECTED" and ids: "ab_authority (rc_body r) = pf_authority (sv_profile sv)"
    by (auto simp: authorize_body_def bindE_Inr_conv Let_def auth_body_of_def evaluate_request_def)
  note c = authorize_body_cases [OF d(3) ok body]
  from body none q obtain why cur n where w: "find_auth d1 (aq_id q) = Some (auth_entry cr sv q auth_decision.REJECTED why cur n)"
    by (auto simp: authorize_body_def bindE_Inr_conv Let_def evaluate_request_def find_auth_def find_append)
  have "commit_file cr sv (Some d1)" using d(2) c(1) by (simp add: commit_file_def)
  from ledgers_run [OF this] obtain d2 where d2: "foldl (commit_step cr sv) (Some d1) es = Some d2" "commit_good cr sv d2"
    "commit_le d1 d2" by metis
  have "auth_entry cr sv q auth_decision.REJECTED why cur n \<in> set (cd_auths d2)"
    using find_auth_in [OF find_auth_later [OF d2(3) w]] by simp
  moreover have "\<not> auth_row_ok cr sv' (auth_entry cr sv q auth_decision.REJECTED why cur n)" for sv'
    using q by (auto simp: auth_row_ok_def auth_from_row_def auth_entry_def auth_body_of_def
        verify_authorization_receipt_def Let_def split: option.splits if_splits)
  ultimately have bad: "\<not> list_all (auth_row_ok cr sv') (cd_auths d2)" for sv' by (auto simp: list_all_iff)
  have "cas_open cr (Some (cd_anchor d2)) = Inr (sv_profile sv)" using d2(2) by (auto simp: commit_good_def intro: good_open)
  with bad d2 db' dec show ?thesis by (simp add: commit_open_def Let_def split: option.split)
qed

subsection \<open>An authority at work\<close>

definition demo_binding :: op_binding where
  "demo_binding =
     \<lparr>ob_authority = ''auth'', ob_profile = ''prof'', ob_generation = 1, ob_scope = ''inst'', ob_operation = ''op1'',
      ob_key = ''k1'', ob_passage = ''p1'', ob_agent = ''agent'', ob_action = ''pay'', ob_resource = [],
      ob_amount = ''12.5'', ob_payload = replicate 64 CHR ''0'', ob_claim = replicate 64 CHR ''0'', ob_prior = ''doc0'',
      ob_evidence = ''scope'', ob_policy = ''v1'', ob_revision = 1, ob_trust = replicate 64 CHR ''0'',
      ob_snapshot = replicate 64 CHR ''1''\<rparr>"

definition demo_query :: auth_request where
  "demo_query = \<lparr>aq_id = ''q1'', aq_binding = demo_binding\<rparr>"

definition demo_foreign :: auth_request where
  "demo_foreign = \<lparr>aq_id = ''q2'', aq_binding = demo_binding\<lparr>ob_authority := ''other''\<rparr>\<rparr>"

definition demo_authority :: authority_crypto where
  "demo_authority =
     \<lparr>hash = demo_hash, bytes = (\<lambda>_. 100), verifies = (\<lambda>k s m. s = replicate 64 CHR ''s''),
      profile_hash = (\<lambda>_ _ _. ''d''), envelope_hash = (\<lambda>_. replicate 64 CHR ''e''), envelope_bytes = (\<lambda>_. 200),
      request_hash = (\<lambda>q. replicate 64 (if q = demo_query then CHR ''9'' else CHR ''8'')), request_bytes = (\<lambda>_. 900),
      binding_hash = (\<lambda>_. replicate 64 CHR ''b''), public_key = (\<lambda>_. replicate 32 CHR ''P''),
      sign_auth = (\<lambda>_ _. replicate 64 CHR ''A''), verify_auth = (\<lambda>_ s _. s = replicate 64 CHR ''A''),
      sign_cons = (\<lambda>_ _. replicate 64 CHR ''C''), verify_cons = (\<lambda>_ s _. s = replicate 64 CHR ''C'')\<rparr>"

definition demo_claim :: signed_claim where
  "demo_claim =
     \<lparr>sc_claim = \<lparr>cl_identifier = ''doc1'', cl_issuer = ''issuer'', cl_replaces = ''doc0'', cl_effective = Aware 5 0\<rparr>,
      sc_signature = replicate 64 CHR ''s''\<rparr>"

definition demo_finding :: finding where
  "demo_finding =
     \<lparr>fi_revision = 1, fi_digest = replicate 64 CHR ''0'', fi_policy = ''v1'', fi_claim = replicate 64 CHR ''0'',
      fi_prior = ''doc0'', fi_scope = ''scope'', fi_snapshot = replicate 64 CHR ''1''\<rparr>"

definition demo_service :: service where
  "demo_service =
     \<lparr>sv_profile = demo_profile, sv_secret = ''secret'', sv_key_id = ''key'', sv_key_generation = 1\<rparr>"

text \<open>The rows a boot and a rotation leave, and the tables with them.\<close>

definition demo_row :: "int \<Rightarrow> string \<Rightarrow> string \<Rightarrow> string \<Rightarrow> checkpoint option \<Rightarrow> char \<Rightarrow> cas_row" where
  "demo_row n r op why before dgt =
     \<lparr>cw_sequence = n, cw_request = r, cw_digest = replicate 64 CHR ''e'', cw_operation = op, cw_result = ''APPLIED'',
      cw_reason = why, cw_observed = (map_option fst before, map_option snd before),
      cw_checkpoint = (Some n, Some (replicate 64 dgt)), cw_successor = replicate 64 dgt,
      cw_envelope = Some
        \<lparr>en_version = 1, en_domain = ''TENIR-EP02-DURABLE-CAS'', en_operation = op, en_authority = ''auth'',
         en_profile = ''prof'', en_generation = 1, en_profile_digest = ''d'', en_expected = before, en_signer = ''root'',
         en_signature = replicate 64 CHR ''s'',
         en_payload = \<lparr>sp_state = sg_state (demo_snapshot n), sp_keys = sg_keys (demo_snapshot n)\<rparr>,
         en_fingerprint = replicate 64 dgt\<rparr>\<rparr>"

definition demo_first :: cas_row where
  "demo_first = demo_row 1 ''r1'' ''BOOTSTRAP'' ''BOOTSTRAPPED'' None CHR ''1''"

definition demo_second :: cas_row where
  "demo_second = demo_row 2 ''r2'' ''CAS'' ''ADVANCED'' (Some (1, replicate 64 CHR ''1'')) CHR ''2''"

definition demo_db :: "checkpoint option \<Rightarrow> cas_row list \<Rightarrow> auth_row list \<Rightarrow> cons_row list \<Rightarrow> commit_db option" where
  "demo_db cp rows auths conss = Some
     \<lparr>cd_anchor =
        \<lparr>db_quick = True, db_authority = Some (profile_row demo_profile), db_checkpoint = cp, db_requests = rows,
         db_triggers = guards @ commit_guards\<rparr>,
      cd_profile = Some \<lparr>cp_schema = 1, cp_key_id = ''key'', cp_key_generation = 1, cp_public = replicate 32 CHR ''P''\<rparr>,
      cd_auths = auths, cd_conss = conss\<rparr>"

definition demo_ledgers :: "commit_db option" where
  "demo_ledgers = demo_db None [] [] []"

definition demo_trusting :: "commit_db option" where
  "demo_trusting = demo_db (Some (1, replicate 64 CHR ''1'')) [demo_first] [] []"

definition demo_ask :: "auth_request \<Rightarrow> commit_db option \<Rightarrow> (cas_exn + auth_receipt) \<times> commit_db option" where
  "demo_ask q db =
     authorize demo_authority demo_service q (Some demo_finding) demo_claim (Some (demo_snapshot 1)) (Aware 9 0) Quiet db"

definition demo_body :: auth_body where
  "demo_body = auth_body_of demo_authority demo_service demo_query AUTHORIZED ''COMMIT_AUTHORIZED''
     (Some (1, replicate 64 CHR ''1'')) 1"

definition demo_receipt :: auth_receipt where
  "demo_receipt = \<lparr>rc_body = demo_body, rc_signature = replicate 64 CHR ''A'', rc_replayed = False\<rparr>"

definition demo_granted :: auth_row where
  "demo_granted = auth_entry demo_authority demo_service demo_query AUTHORIZED ''COMMIT_AUTHORIZED''
     (Some (1, replicate 64 CHR ''1'')) 1"

definition demo_authorized :: "commit_db option" where
  "demo_authorized = demo_db (Some (1, replicate 64 CHR ''1'')) [demo_first] [demo_granted] []"

definition demo_rotate :: commit_op where
  "demo_rotate = Trust_Update (Swap ''r2'' (Some (1, replicate 64 CHR ''1'')) (demo_snapshot 2)) Quiet"

definition demo_consume :: "commit_db option \<Rightarrow> (cas_exn + cons_receipt) \<times> commit_db option" where
  "demo_consume db = consume demo_authority demo_service demo_query demo_receipt ''claim1'' Quiet db"

definition demo_used :: cons_receipt where
  "demo_used =
     \<lparr>rd_body = cons_body_of demo_authority demo_service demo_query 1 ''claim1'' CONSUMED ''DISPATCH_CLAIM_AUTHORIZED''
        (Some (1, replicate 64 CHR ''1'')) 1, rd_signature = replicate 64 CHR ''C'', rd_replayed = False\<rparr>"

definition demo_spent :: cons_row where
  "demo_spent = cons_entry demo_authority demo_service demo_query 1 ''claim1'' CONSUMED ''DISPATCH_CLAIM_AUTHORIZED''
     (Some (1, replicate 64 CHR ''1'')) 1"

definition demo_consumed :: "commit_db option" where
  "demo_consumed = demo_db (Some (1, replicate 64 CHR ''1'')) [demo_first] [demo_granted] [demo_spent]"

definition demo_later :: "commit_db option" where
  "demo_later = demo_db (Some (2, replicate 64 CHR ''2'')) [demo_first, demo_second] [demo_granted] [demo_spent]"

definition demo_rotated :: "commit_db option" where
  "demo_rotated = demo_db (Some (2, replicate 64 CHR ''2'')) [demo_first, demo_second] [demo_granted] []"

definition demo_stale :: cons_receipt where
  "demo_stale =
     \<lparr>rd_body = cons_body_of demo_authority demo_service demo_query 1 ''claim1'' STALE ''TRUST_CHECKPOINT_CHANGED''
        (Some (2, replicate 64 CHR ''2'')) 1, rd_signature = replicate 64 CHR ''C'', rd_replayed = False\<rparr>"


text \<open>What the evaluation of the demonstrations needs.\<close>

lemma demo_ids:
  "commit_id_ok ''auth''" "commit_id_ok ''prof''" "commit_id_ok ''key''" "commit_id_ok ''root''" "commit_id_ok ''issuer''"
  "commit_id_ok ''r1''" "commit_id_ok ''r2''" "commit_id_ok ''q1''" "commit_id_ok ''q2''" "commit_id_ok ''inst''"
  "commit_id_ok ''op1''" "commit_id_ok ''k1''" "commit_id_ok ''p1''" "commit_id_ok ''agent''" "commit_id_ok ''claim1''"
  "commit_id_ok ''doc0''" "commit_id_ok ''scope''" "commit_id_ok ''v1''" "commit_id_ok ''other''"
  by code_simp+

lemma demo_texts:
  "text_ok ''pay''" "amount_text_ok ''12.5''" "text_ok ''doc0''" "text_ok ''scope''" "text_ok ''v1''"
  by code_simp+

lemma hex64_block: "hex64 (replicate 64 c) \<longleftrightarrow> char_in 48 57 c \<or> char_in 97 102 c"
  by (simp add: hex64_def list_all_iff)

lemmas demo_defs =
  demo_ids demo_texts hex64_block char_in_def demo_authority_def demo_crypto_def demo_hash_def demo_roots_def demo_snapshot_def
  demo_profile_def demo_boot_def demo_binding_def demo_query_def demo_foreign_def demo_claim_def demo_finding_def
  demo_service_def demo_first_def demo_second_def demo_row_def demo_db_def demo_ledgers_def demo_trusting_def


lemma demo_cas_provision:
  "cas_provision demo_authority None ''auth'' ''prof'' 1 demo_roots =
     (Inr demo_profile, Some \<lparr>db_quick = True, db_authority = Some (profile_row demo_profile), db_checkpoint = None,
        db_requests = [], db_triggers = guards\<rparr>)"
  by (simp add: demo_defs cas_provision_def cas_open_def roots_ok_def guarded_def
      guards_def profile_row_def Let_def profile.defs read_checkpoint_def columns_def)

lemma demo_cas_open:
  "cas_open demo_authority (Some \<lparr>db_quick = True, db_authority = Some (profile_row demo_profile), db_checkpoint = None,
        db_requests = [], db_triggers = guards @ commit_guards\<rparr>) = Inr demo_profile"
  by (simp add: demo_defs cas_open_def roots_ok_def guarded_def profile_row_def Let_def profile.defs read_checkpoint_def columns_def)

lemma demo_provisioned_commit:
  "commit_provision demo_authority ''auth'' ''prof'' 1 demo_roots ''key'' 1 ''secret'' = (Inr demo_service, demo_ledgers)"
  unfolding commit_provision_def demo_cas_provision
  by (simp add: commit_open_def demo_ids Let_def demo_cas_open)
    (simp add: demo_ledgers_def demo_db_def demo_service_def demo_authority_def)

lemma demo_context:
  "request_context demo_authority demo_profile ''BOOTSTRAP'' None (demo_snapshot 1) = Inr (the (cw_envelope demo_first))"
  "request_context demo_authority demo_profile ''CAS'' (Some (1, replicate 64 CHR ''1'')) (demo_snapshot 2) =
     Inr (the (cw_envelope demo_second))"
  by (simp_all add: request_context_def freeze_def demo_defs bound_payload_def state_valid_def sorted_state_def
      fingerprint_def MAX_ENVELOPE_def checkpoint_valid_def)

lemma demo_decides:
  "decide demo_authority demo_roots ''BOOTSTRAP'' None (demo_snapshot 1) (replicate 64 CHR ''1'') None =
     (APPLIED, ''BOOTSTRAPPED'', Some (1, replicate 64 CHR ''1''))"
  "decide demo_authority demo_roots ''CAS'' (Some (1, replicate 64 CHR ''1'')) (demo_snapshot 2) (replicate 64 CHR ''2'')
     (Some (1, replicate 64 CHR ''1'')) = (APPLIED, ''ADVANCED'', Some (2, replicate 64 CHR ''2''))"
  by (simp_all add: decide_def demo_defs verify_bound_snapshot_def signed_form_def bound_payload_def state_valid_def
      sorted_state_def validate_successor_def crypto.defs)

lemma demo_service_simps:
  "sv_profile demo_service = demo_profile" "pf_roots demo_profile = demo_roots" "sv_secret demo_service = ''secret''"
  by (simp_all add: demo_service_def demo_profile_def)

lemma demo_updates:
  "demo_db cp ws us vs = Some d \<Longrightarrow> cas_connect demo_profile (Some (cd_anchor d)) = Inr (cd_anchor d)"
  "commit_step demo_authority demo_service (demo_db None [] us vs) (Trust_Update demo_boot Quiet) =
     demo_db (Some (1, replicate 64 CHR ''1'')) [demo_first] us vs"
  "commit_step demo_authority demo_service (demo_db (Some (1, replicate 64 CHR ''1'')) [demo_first] us vs) demo_rotate =
     demo_db (Some (2, replicate 64 CHR ''2'')) [demo_first, demo_second] us vs"
proof -
  show c: "cas_connect demo_profile (Some (cd_anchor d)) = Inr (cd_anchor d)" if "demo_db cp ws us vs = Some d" for cp ws us vs d
    using that by (auto simp: demo_db_def cas_connect_def guarded_def)
  have h: "envelope_hash demo_authority e = replicate 64 CHR ''e''" for e by (simp add: demo_authority_def)
  show "commit_step demo_authority demo_service (demo_db None [] us vs) (Trust_Update demo_boot Quiet) =
      demo_db (Some (1, replicate 64 CHR ''1'')) [demo_first] us vs"
    using c [of None "[]" us vs]
    by (simp add: on_anchor_def demo_boot_def demo_service_simps cas_bootstrap_def cas_execute_def demo_ids demo_context
        cas_body_def read_checkpoint_def columns_def find_request_def demo_decides next_sequence_def h demo_db_def)
      (simp add: demo_first_def demo_row_def demo_decides columns_def)
  show "commit_step demo_authority demo_service (demo_db (Some (1, replicate 64 CHR ''1'')) [demo_first] us vs) demo_rotate =
      demo_db (Some (2, replicate 64 CHR ''2'')) [demo_first, demo_second] us vs"
    using c [of "Some (1, replicate 64 CHR ''1'')" "[demo_first]" us vs]
    by (simp add: on_anchor_def demo_rotate_def demo_service_simps compare_and_swap_def cas_execute_def demo_ids demo_context
        cas_body_def read_checkpoint_def columns_def find_request_def next_sequence_def h demo_db_def hex64_block char_in_def)
      (simp add: demo_first_def demo_second_def demo_row_def demo_decides columns_def)
qed

lemma demo_requests: "request_ok demo_authority demo_query" "request_ok demo_authority demo_foreign"
  by (simp_all add: request_ok_def binding_ok_def demo_defs)

lemma demo_evaluates:
  "evaluate_request demo_authority demo_profile demo_query (Some demo_finding) demo_claim (Some (demo_snapshot 1))
     (Aware 9 0) (Some (1, replicate 64 CHR ''1'')) = (AUTHORIZED, ''COMMIT_AUTHORIZED'')"
  "evaluate_request demo_authority demo_profile demo_foreign (Some demo_finding) demo_claim (Some (demo_snapshot 1))
     (Aware 9 0) (Some (1, replicate 64 CHR ''1'')) = (auth_decision.REJECTED, ''AUTHORITY_BINDING_MISMATCH'')"
  by (simp_all add: evaluate_request_def demo_defs bound_payload_def state_valid_def sorted_state_def trust_digest_def
      fingerprint_def revalidate_bound_def verified_bound_preflight_def verify_bound_snapshot_def signed_form_def
      verify_and_evaluate_def evaluate_claims_def mandates_of_def bind_finding_def claim_digest_def revalidate_def
      crypto.defs)

lemma demo_connect:
  "commit_connect demo_authority demo_service (demo_db cp ws us vs) = Inr (the (demo_db cp ws us vs))"
  by (simp add: commit_connect_def demo_db_def demo_service_simps cas_connect_def guarded_def)
    (simp add: service_row_def demo_service_def demo_authority_def)

lemma demo_asks:
  "demo_ask demo_query demo_trusting = (Inr demo_receipt, demo_authorized)"
  "lookup_authorization demo_authority demo_service demo_foreign demo_trusting = Inr None"
  "fst (demo_ask demo_foreign demo_trusting) =
     Inr \<lparr>rc_body = auth_body_of demo_authority demo_service demo_foreign auth_decision.REJECTED
            ''AUTHORITY_BINDING_MISMATCH'' (Some (1, replicate 64 CHR ''1'')) 1,
          rc_signature = replicate 64 CHR ''A'', rc_replayed = False\<rparr>"
proof -
  have s: "sign_auth demo_authority x b = replicate 64 CHR ''A''" for x b by (simp add: demo_authority_def)
  have body: "authorize_body demo_authority demo_service q (Some demo_finding) demo_claim (Some (demo_snapshot 1)) (Aware 9 0)
      (the demo_trusting) =
      (let (dec, why) = evaluate_request demo_authority demo_profile q (Some demo_finding) demo_claim (Some (demo_snapshot 1))
         (Aware 9 0) (Some (1, replicate 64 CHR ''1''));
           b = auth_body_of demo_authority demo_service q dec why (Some (1, replicate 64 CHR ''1'')) 1 in
       Inr (\<lparr>rc_body = b, rc_signature = replicate 64 CHR ''A'', rc_replayed = False\<rparr>,
            the (demo_db (Some (1, replicate 64 CHR ''1'')) [demo_first]
              [auth_entry demo_authority demo_service q dec why (Some (1, replicate 64 CHR ''1'')) 1] [])))" for q
    by (simp add: demo_trusting_def demo_db_def authorize_body_def find_auth_def read_checkpoint_def columns_def hex64_block
        char_in_def next_number_def demo_service_simps s Let_def case_prod_beta)
  show "demo_ask demo_query demo_trusting = (Inr demo_receipt, demo_authorized)"
    using body [of demo_query]
    by (simp add: demo_ask_def authorize_def demo_requests demo_trusting_def demo_connect demo_evaluates transact_def
        demo_receipt_def demo_body_def demo_authorized_def demo_granted_def) (simp add: demo_db_def)
  show "lookup_authorization demo_authority demo_service demo_foreign demo_trusting = Inr None"
    by (simp add: lookup_authorization_def demo_requests demo_trusting_def demo_connect) (simp add: demo_db_def find_auth_def)
  show "fst (demo_ask demo_foreign demo_trusting) =
     Inr \<lparr>rc_body = auth_body_of demo_authority demo_service demo_foreign auth_decision.REJECTED
            ''AUTHORITY_BINDING_MISMATCH'' (Some (1, replicate 64 CHR ''1'')) 1,
          rc_signature = replicate 64 CHR ''A'', rc_replayed = False\<rparr>"
    using body [of demo_foreign]
    by (simp add: demo_ask_def authorize_def demo_requests demo_trusting_def demo_connect demo_evaluates transact_def)
qed

lemma demo_checks:
  "verify_authorization_receipt demo_authority (trusted_keys demo_authority demo_service) demo_receipt demo_query"
  by (simp add: verify_authorization_receipt_def trusted_keys_def demo_requests checkpoint_valid_def hex64_block char_in_def)
    (simp add: demo_receipt_def demo_body_def auth_body_of_def demo_service_def demo_query_def demo_binding_def
      demo_profile_def demo_authority_def)

lemma demo_consumes:
  "demo_consume demo_authorized = (Inr demo_used, demo_consumed)"
  "demo_consume demo_later = (Inr (demo_used\<lparr>rd_replayed := True\<rparr>), demo_later)"
  "fst (demo_consume demo_rotated) = Inr demo_stale"
  "lookup_consumption demo_authority demo_service demo_query demo_rotated = Inr None"
proof -
  have s: "sign_cons demo_authority x b = replicate 64 CHR ''C''" for x b by (simp add: demo_authority_def)
  have stored: "auth_from_row demo_granted False = Inr demo_receipt"
    by (simp add: auth_from_row_def demo_granted_def demo_receipt_def demo_body_def auth_entry_def)
      (simp add: demo_authority_def auth_body_of_def checkpoint_valid_def hex64_block char_in_def)
  have key: "aw_request demo_granted = aq_id demo_query" "aw_digest demo_granted = request_hash demo_authority demo_query"
    "dw_request demo_spent = aq_id demo_query" "dw_claim demo_spent = ''claim1''"
    by (simp_all add: demo_granted_def auth_entry_def demo_spent_def cons_entry_def Let_def)
  have again: "cons_from_row demo_spent True = Inr (demo_used\<lparr>rd_replayed := True\<rparr>)"
    by (simp add: cons_from_row_def demo_spent_def demo_used_def cons_entry_def)
      (simp add: demo_authority_def cons_body_of_def checkpoint_valid_def hex64_block char_in_def)
  have dec: "consume_decision demo_receipt c =
      (if c = Some (1, replicate 64 CHR ''1'') then (CONSUMED, ''DISPATCH_CLAIM_AUTHORIZED'') else (STALE, ''TRUST_CHECKPOINT_CHANGED''))"
    "ab_sequence (rc_body demo_receipt) = 1" for c
    by (simp_all add: consume_decision_def demo_receipt_def demo_body_def auth_body_of_def)
  note defs = demo_consume_def consume_def demo_ids demo_requests demo_checks demo_connect transact_def
  note body = consume_body_def find_auth_def find_cons_def key stored again read_checkpoint_def columns_def hex64_block
    char_in_def dec next_number_def s
  show "demo_consume demo_authorized = (Inr demo_used, demo_consumed)"
    by (simp add: defs demo_authorized_def) (simp add: body demo_db_def demo_used_def demo_consumed_def demo_spent_def)
  show "demo_consume demo_later = (Inr (demo_used\<lparr>rd_replayed := True\<rparr>), demo_later)"
    by (simp add: defs demo_later_def) (simp add: body demo_db_def)
  show "fst (demo_consume demo_rotated) = Inr demo_stale"
    by (simp add: defs demo_rotated_def) (simp add: body demo_db_def demo_stale_def)
  show "lookup_consumption demo_authority demo_service demo_query demo_rotated = Inr None"
    by (simp add: lookup_consumption_def demo_requests demo_rotated_def demo_connect) (simp add: demo_db_def find_cons_def)
qed

lemma demo_authority_hashes: "hashes demo_authority"
  using demo_hashes by (simp add: hashes_def demo_crypto_def demo_authority_def)

lemma demo_authority_signatures: "signatures demo_authority"
  by (simp add: signatures_def demo_authority_def)

lemma demo_ledgers_file: "commit_file demo_authority demo_service demo_ledgers"
  using commit_provisioned [OF demo_authority_hashes demo_provisioned_commit] demo_authority_hashes
  by (metis commit_file_def)

lemma demo_trusting_file: "commit_file demo_authority demo_service demo_trusting"
  using commit_step_good [OF demo_ledgers_file, of "Trust_Update demo_boot Quiet"]
  by (simp add: demo_ledgers_def demo_updates demo_trusting_def del: commit_step.simps)

lemma demo_authorized_file: "commit_file demo_authority demo_service demo_authorized"
  using commit_step_good [OF demo_trusting_file, of "Authorize demo_query (Some demo_finding) demo_claim
    (Some (demo_snapshot 1)) (Aware 9 0) Quiet"] demo_asks(1)
  by (simp add: demo_ask_def)

lemma demo_rotated_file: "commit_file demo_authority demo_service demo_rotated"
  using commit_step_good [OF demo_authorized_file, of demo_rotate]
  by (simp add: demo_authorized_def demo_updates demo_rotated_def del: commit_step.simps)

lemma demo_opens: "commit_open demo_authority demo_trusting ''secret'' = Inr demo_service"
proof -
  from demo_trusting_file obtain d where d: "demo_trusting = Some d" "commit_good demo_authority demo_service d"
    by (auto simp: commit_file_def)
  have "rows_bound demo_service d" using d(1) by (auto simp: rows_bound_def demo_trusting_def demo_db_def)
  with good_commit_open [OF demo_authority_signatures d(2)] d(1) show ?thesis by (simp add: demo_service_simps)
qed

lemma demo_turned: "commit_step demo_authority demo_service demo_consumed demo_rotate = demo_later"
  by (simp add: demo_consumed_def demo_later_def demo_updates del: commit_step.simps)

lemma demo_own: "request_hash demo_authority q = request_hash demo_authority demo_query \<Longrightarrow> q = demo_query"
  by (simp add: demo_authority_def split: if_splits)

theorem consumed_once_witness:
  "demo_consume demo_authorized = (Inr demo_used, demo_consumed) \<and>
   demo_consume (commit_step demo_authority demo_service demo_consumed demo_rotate) =
     (Inr (demo_used\<lparr>rd_replayed := True\<rparr>), commit_step demo_authority demo_service demo_consumed demo_rotate) \<and>
   rd_body (demo_used\<lparr>rd_replayed := True\<rparr>) = rd_body demo_used"
  using consumed_once [OF demo_authorized_file demo_consumes(1) [unfolded demo_consume_def], of demo_query demo_receipt
      "''claim1''" Quiet "[demo_rotate]"] demo_consumes(1,2) demo_turned
  by (auto simp: demo_consume_def)

theorem consumed_means_witness:
  "cb_decision (rd_body demo_used) = CONSUMED \<and>
   cb_checkpoint (rd_body demo_used) = Some (1, ob_snapshot demo_binding) \<and>
   (\<exists>c s now. evidence demo_authority demo_profile demo_binding c s now)"
proof -
  have c: "cb_decision (rd_body demo_used) = CONSUMED" by (simp add: demo_used_def cons_body_of_def)
  from consumed_means [OF demo_authorized_file demo_own demo_consumes(1) [unfolded demo_consume_def] c] c show ?thesis
    by (simp add: demo_query_def demo_service_def) (simp add: demo_binding_def)
qed

theorem revoked_never_consumed_witness:
  "fst (demo_consume demo_rotated) = Inr demo_stale \<and> cb_decision (rd_body demo_stale) \<noteq> CONSUMED"
proof -
  have g: "cas_get (sv_profile demo_service) (map_option cd_anchor demo_rotated) = Inr (Some (2, replicate 64 CHR ''2''))"
    using demo_updates(1) by (simp add: cas_get_def demo_service_simps demo_rotated_def demo_db_def read_checkpoint_def
        columns_def hex64_block char_in_def)
  have c: "ab_checkpoint (rc_body demo_receipt) = Some (1, replicate 64 CHR ''1'')"
    by (simp add: demo_receipt_def demo_body_def auth_body_of_def)
  have run: "consume demo_authority demo_service demo_query demo_receipt ''claim1'' Quiet
      (foldl (commit_step demo_authority demo_service) demo_rotated []) = (Inr demo_stale, snd (demo_consume demo_rotated))"
    using demo_consumes(3) by (simp add: demo_consume_def prod_eq_iff)
  from revoked_never_consumed [OF demo_rotated_file demo_consumes(4) g c _ run] demo_consumes(3) show ?thesis by simp
qed

theorem commit_reopens_witness:
  "signatures demo_authority \<and>
   commit_open demo_authority (foldl (commit_step demo_authority demo_service) demo_ledgers
     [Trust_Update demo_boot Quiet, demo_rotate, Consume demo_query demo_receipt ''claim1'' After]) ''secret'' =
     Inr demo_service"
  using commit_reopens [OF demo_authority_hashes demo_authority_signatures demo_provisioned_commit,
      of "[Trust_Update demo_boot Quiet, demo_rotate, Consume demo_query demo_receipt ''claim1'' After]"]
    demo_authority_signatures
  by (simp add: demo_rotate_def)

theorem foreign_request_bricks_authority_witness:
  "commit_open demo_authority demo_trusting ''secret'' = Inr demo_service \<and>
   commit_open demo_authority (snd (demo_ask demo_foreign demo_trusting)) ''secret'' = Inl StoreIntegrity"
proof -
  have "ob_authority (aq_binding demo_foreign) \<noteq> pf_authority (sv_profile demo_service)"
    by (simp add: demo_foreign_def demo_service_simps demo_profile_def demo_binding_def)
  from foreign_request_bricks_authority [OF demo_trusting_file this demo_asks(2),
      of "Some demo_finding" demo_claim "Some (demo_snapshot 1)" "Aware 9 0" _ _ "[]"]
  have "commit_open demo_authority (snd (demo_ask demo_foreign demo_trusting)) ''secret'' = Inl StoreIntegrity"
    using demo_asks(3) by (auto simp: demo_ask_def prod_eq_iff)
  with demo_opens show ?thesis by simp
qed

end
