(* ===== verification/External_CAS.thy ===== *)
theory External_CAS
  imports Trust_CAS_Guarantees
begin

section \<open>The external protocol around the trust authority\<close>

text \<open>
  \<open>tenir_governance/experimental/ep02_external_cas.py\<close>: signed requests, lookups and receipts
  between \<open>ExternalCASClient\<close> and \<open>ExternalAuthorityService\<close>, which stands on one
  \<open>DurableAnchorCAS\<close>. A text that is hashed, signed or sent is modelled by what it says; its
  SHA-256 digest, its length and the Ed25519 verification of a signature on it are arguments.
  Bytes that are not canonical JSON with the fields and types their reader asks for are \<open>None\<close>.
  Values have the types the code checks for at run time, so only its checks on values remain.
\<close>

subsection \<open>Texts\<close>

record successor_body =
  xs_signer :: string
  xs_signature :: string
  xs_payload :: snapshot_payload

record request_body =
  xr_authority :: string
  xr_client :: string
  xr_generation :: int
  xr_request :: string
  xr_operation :: string
  xr_expected :: "checkpoint option"
  xr_successor :: successor_body

record lookup_body =
  xl_authority :: string
  xl_client :: string
  xl_generation :: int
  xl_request :: string
  xl_digest :: string
  xl_challenge :: string

datatype lookup_status = RECORDED | NOT_RECORDED

record receipt_body =
  xt_anchor :: string
  xt_authority :: string
  xt_client :: string
  xt_generation :: int
  xt_request :: string
  xt_digest :: string
  xt_status :: lookup_status
  xt_operation :: string
  xt_result :: "cas_result option"
  xt_reason :: "string option"
  xt_observed :: "checkpoint option"
  xt_outcome :: "checkpoint option"
  xt_current :: "checkpoint option"
  xt_sequence :: "int option"
  xt_replayed :: bool
  xt_challenge :: "string option"

datatype ext_text =
    RequestText request_body
  | LookupText lookup_body
  | ReceiptText receipt_body
  | Namespace string int string
  | RequestMessage request_body string
  | LookupMessage request_body string lookup_body string
  | ReceiptMessage receipt_body string

record ext_crypto =
  xc_digest :: "ext_text \<Rightarrow> string"
  xc_bytes :: "ext_text \<Rightarrow> nat"
  xc_verifies :: "string \<Rightarrow> string \<Rightarrow> ext_text \<Rightarrow> bool"

datatype ext_exn = ProtocolError | OutcomeUnknown | BadArgument | FromStore cas_exn

definition MAX_MESSAGE :: nat where
  "MAX_MESSAGE = 1048576"

text \<open>\<open>_checkpoint_body\<close> and \<open>_checkpoint_from_body\<close>: the value stays, if it is valid.\<close>

definition checkpoint_body_ok :: "checkpoint option \<Rightarrow> bool" where
  "checkpoint_body_ok c \<longleftrightarrow> (case c of None \<Rightarrow> True | Some c \<Rightarrow> checkpoint_valid c)"

definition successor_to_body :: "signed_trust \<Rightarrow> successor_body option" where
  "successor_to_body s =
     (case bound_payload s of
        None \<Rightarrow> None
      | Some p \<Rightarrow>
          if length (sg_signature s) \<noteq> 64 \<or> \<not> commit_id_ok (sg_signer s) then None
          else Some \<lparr>xs_signer = sg_signer s, xs_signature = sg_signature s, xs_payload = p\<rparr>)"

definition request_to_body ::
  "string \<Rightarrow> string \<Rightarrow> int \<Rightarrow> string \<Rightarrow> string \<Rightarrow> checkpoint option \<Rightarrow> signed_trust \<Rightarrow> request_body option" where
  "request_to_body authority client generation rid operation expected successor =
     (if \<not> commit_id_ok authority \<or> \<not> commit_id_ok client \<or> \<not> commit_id_ok rid \<or> generation < 1 \<or>
         operation \<notin> {''BOOTSTRAP'', ''CAS''} \<or> (operation = ''BOOTSTRAP'' \<and> expected \<noteq> None) \<or>
         (operation = ''CAS'' \<and> expected = None) \<or> \<not> checkpoint_body_ok expected
      then None
      else case successor_to_body successor of
        None \<Rightarrow> None
      | Some sb \<Rightarrow>
          Some \<lparr>xr_authority = authority, xr_client = client, xr_generation = generation, xr_request = rid,
                xr_operation = operation, xr_expected = expected, xr_successor = sb\<rparr>)"

subsection \<open>Requests\<close>

record ext_request =
  es_authority :: string
  es_client :: string
  es_generation :: int
  es_request :: string
  es_operation :: string
  es_expected :: "checkpoint option"
  es_successor :: signed_trust
  es_payload :: "request_body option"
  es_digest :: string
  es_signature :: string

definition body_of :: "ext_request \<Rightarrow> request_body option" where
  "body_of q = request_to_body (es_authority q) (es_client q) (es_generation q) (es_request q) (es_operation q)
     (es_expected q) (es_successor q)"

definition build_external_request ::
  "ext_crypto \<Rightarrow> (ext_text \<Rightarrow> string) \<Rightarrow> string \<Rightarrow> string \<Rightarrow> int \<Rightarrow> string \<Rightarrow> string \<Rightarrow> checkpoint option \<Rightarrow>
     signed_trust \<Rightarrow> ext_exn + ext_request" where
  "build_external_request cr sign authority client generation rid operation expected successor =
     (case request_to_body authority client generation rid operation expected successor of
        None \<Rightarrow> Inl BadArgument
      | Some b \<Rightarrow>
          if xc_bytes cr (RequestText b) > MAX_MESSAGE then Inl BadArgument
          else Inr \<lparr>es_authority = authority, es_client = client, es_generation = generation, es_request = rid,
                    es_operation = operation, es_expected = expected, es_successor = successor, es_payload = Some b,
                    es_digest = xc_digest cr (RequestText b), es_signature = sign (RequestText b)\<rparr>)"

definition encode_request :: "ext_crypto \<Rightarrow> ext_request \<Rightarrow> ext_exn + ext_text" where
  "encode_request cr q =
     (case es_payload q of
        None \<Rightarrow> Inl BadArgument
      | Some b \<Rightarrow>
          (let m = RequestMessage b (es_signature q) in if xc_bytes cr m > MAX_MESSAGE then Inl BadArgument else Inr m))"

text \<open>\<open>_successor_from_body\<close>: the state in the order of the payload, which must be canonical.\<close>

definition successor_from_body :: "successor_body \<Rightarrow> signed_trust option" where
  "successor_from_body b =
     (if \<not> commit_id_ok (xs_signer b) \<or> length (xs_signature b) \<noteq> 64 then None
      else
        (let s = \<lparr>sg_state = sp_state (xs_payload b), sg_signature = xs_signature b, sg_signer = xs_signer b,
                  sg_keys = sp_keys (xs_payload b)\<rparr>
         in if bound_payload s \<noteq> Some (xs_payload b) then None else Some s))"

text \<open>The part of \<open>decode_request\<close> after the outer object, which \<open>decode_lookup_query\<close> shares.\<close>

definition request_from_body :: "ext_crypto \<Rightarrow> request_body \<Rightarrow> string \<Rightarrow> ext_exn + ext_request" where
  "request_from_body cr b sig =
     (case successor_from_body (xr_successor b) of
        None \<Rightarrow> Inl ProtocolError
      | Some s \<Rightarrow>
          if \<not> checkpoint_body_ok (xr_expected b) \<or>
             request_to_body (xr_authority b) (xr_client b) (xr_generation b) (xr_request b) (xr_operation b)
               (xr_expected b) s \<noteq> Some b \<or> length sig \<noteq> 64
          then Inl ProtocolError
          else Inr \<lparr>es_authority = xr_authority b, es_client = xr_client b, es_generation = xr_generation b,
                    es_request = xr_request b, es_operation = xr_operation b, es_expected = xr_expected b,
                    es_successor = s, es_payload = Some b, es_digest = xc_digest cr (RequestText b),
                    es_signature = sig\<rparr>)"

fun decode_request :: "ext_crypto \<Rightarrow> ext_text option \<Rightarrow> ext_exn + ext_request" where
  "decode_request cr (Some (RequestMessage b sig)) =
     (if xc_bytes cr (RequestMessage b sig) > MAX_MESSAGE then Inl ProtocolError else request_from_body cr b sig)"
| "decode_request cr _ = Inl ProtocolError"

text \<open>\<open>_validate_request\<close>: every failure is a \<open>ProtocolError\<close>.\<close>

definition request_valid :: "ext_crypto \<Rightarrow> (string \<times> int, string) dict \<Rightarrow> string \<Rightarrow> ext_request \<Rightarrow> bool" where
  "request_valid cr keys authority q \<longleftrightarrow>
     (case body_of q of
        None \<Rightarrow> False
      | Some b \<Rightarrow>
          es_authority q = authority \<and> es_payload q = Some b \<and> es_digest q = xc_digest cr (RequestText b) \<and>
          (case map_of keys (es_client q, es_generation q) of
             None \<Rightarrow> False
           | Some k \<Rightarrow> xc_verifies cr k (es_signature q) (RequestText b)))"

subsection \<open>Lookups\<close>

record lookup_query =
  eq_request :: ext_request
  eq_challenge :: string
  eq_payload :: "lookup_body option"
  eq_signature :: string

definition lookup_to_body :: "ext_request \<Rightarrow> string \<Rightarrow> lookup_body option" where
  "lookup_to_body q ch =
     (if \<not> challenge_ok ch then None
      else Some \<lparr>xl_authority = es_authority q, xl_client = es_client q, xl_generation = es_generation q,
                 xl_request = es_request q, xl_digest = es_digest q, xl_challenge = ch\<rparr>)"

definition build_lookup_query :: "(ext_text \<Rightarrow> string) \<Rightarrow> ext_request \<Rightarrow> string \<Rightarrow> ext_exn + lookup_query" where
  "build_lookup_query sign q ch =
     (case lookup_to_body q ch of
        None \<Rightarrow> Inl BadArgument
      | Some b \<Rightarrow> Inr \<lparr>eq_request = q, eq_challenge = ch, eq_payload = Some b, eq_signature = sign (LookupText b)\<rparr>)"

definition encode_lookup_query :: "ext_crypto \<Rightarrow> lookup_query \<Rightarrow> ext_exn + ext_text" where
  "encode_lookup_query cr y =
     bindE (encode_request cr (eq_request y)) (\<lambda>m.
       case (m, eq_payload y) of
         (RequestMessage b sig, Some lb) \<Rightarrow>
           (let n = LookupMessage b sig lb (eq_signature y) in
            if xc_bytes cr n > MAX_MESSAGE then Inl BadArgument else Inr n)
       | _ \<Rightarrow> Inl BadArgument)"

fun decode_lookup_query :: "ext_crypto \<Rightarrow> ext_text option \<Rightarrow> ext_exn + lookup_query" where
  "decode_lookup_query cr (Some (LookupMessage b sig lb lsig)) =
     (if xc_bytes cr (LookupMessage b sig lb lsig) > MAX_MESSAGE then Inl ProtocolError
      else bindE (decode_request cr (Some (RequestMessage b sig))) (\<lambda>q.
        if lookup_to_body q (xl_challenge lb) \<noteq> Some lb \<or> length lsig \<noteq> 64 then Inl ProtocolError
        else Inr \<lparr>eq_request = q, eq_challenge = xl_challenge lb, eq_payload = Some lb, eq_signature = lsig\<rparr>))"
| "decode_lookup_query cr _ = Inl ProtocolError"

definition internal_request_id :: "ext_crypto \<Rightarrow> ext_request \<Rightarrow> string" where
  "internal_request_id cr q = ''external:'' @ xc_digest cr (Namespace (es_client q) (es_generation q) (es_request q))"

subsection \<open>Receipts\<close>

definition receipt_body_ok :: "receipt_body \<Rightarrow> bool" where
  "receipt_body_ok b \<longleftrightarrow>
     checkpoint_body_ok (xt_observed b) \<and> checkpoint_body_ok (xt_outcome b) \<and> checkpoint_body_ok (xt_current b)"

text \<open>What \<open>decode_receipt\<close> asks of the fields.\<close>

definition receipt_fields_ok :: "receipt_body \<Rightarrow> bool" where
  "receipt_fields_ok b \<longleftrightarrow>
     commit_id_ok (xt_anchor b) \<and> commit_id_ok (xt_authority b) \<and> commit_id_ok (xt_client b) \<and>
     commit_id_ok (xt_request b) \<and> 1 \<le> xt_generation b \<and> hex64 (xt_digest b) \<and>
     xt_operation b \<in> {''BOOTSTRAP'', ''CAS''} \<and> (case xt_sequence b of None \<Rightarrow> True | Some n \<Rightarrow> 1 \<le> n) \<and>
     (case xt_challenge b of None \<Rightarrow> True | Some c \<Rightarrow> challenge_ok c) \<and> receipt_body_ok b"

definition nothing_recorded :: "receipt_body \<Rightarrow> bool" where
  "nothing_recorded b \<longleftrightarrow>
     xt_result b = None \<and> xt_reason b = None \<and> xt_sequence b = None \<and> xt_observed b = None \<and>
     xt_outcome b = None \<and> \<not> xt_replayed b"

type_synonym ext_receipt = "receipt_body \<times> string"

fun decode_receipt :: "ext_crypto \<Rightarrow> ext_text option \<Rightarrow> ext_exn + ext_receipt" where
  "decode_receipt cr (Some (ReceiptMessage b sig)) =
     (if xc_bytes cr (ReceiptMessage b sig) > MAX_MESSAGE \<or> \<not> receipt_fields_ok b \<or> length sig \<noteq> 64 \<or>
         (xt_status b = NOT_RECORDED \<and> \<not> nothing_recorded b)
      then Inl ProtocolError else Inr (b, sig))"
| "decode_receipt cr _ = Inl ProtocolError"

definition verify_receipt ::
  "ext_crypto \<Rightarrow> ext_receipt \<Rightarrow> ext_request \<Rightarrow> (string, string) dict \<Rightarrow> string option \<Rightarrow> bool" where
  "verify_receipt cr rc q trusted challenge =
     (let b = fst rc in
      case body_of q of
        None \<Rightarrow> False
      | Some qb \<Rightarrow>
          es_payload q = Some qb \<and> es_digest q = xc_digest cr (RequestText qb) \<and>
          xt_authority b = es_authority q \<and> xt_client b = es_client q \<and> xt_generation b = es_generation q \<and>
          xt_request b = es_request q \<and> xt_digest b = es_digest q \<and> xt_operation b = es_operation q \<and>
          xt_challenge b = challenge \<and>
          (case map_of trusted (xt_anchor b) of
             None \<Rightarrow> False
           | Some k \<Rightarrow> receipt_body_ok b \<and> xc_verifies cr k (snd rc) (ReceiptText b)))"

subsection \<open>The service\<close>

record ext_service =
  xv_store :: profile
  xv_anchor :: string
  xv_keys :: "(string \<times> int, string) dict"

definition new_service :: "profile \<Rightarrow> string \<Rightarrow> ((string \<times> int) \<times> string) list \<Rightarrow> ext_exn + ext_service" where
  "new_service p anchor keys =
     (if \<not> commit_id_ok anchor \<or> list_ex (\<lambda>((client, generation), k). \<not> commit_id_ok client \<or> generation < 1) keys \<or> keys = []
      then Inl BadArgument else Inr \<lparr>xv_store = p, xv_anchor = anchor, xv_keys = keys\<rparr>)"

definition receipt_for_response ::
  "ext_service \<Rightarrow> ext_request \<Rightarrow> response option \<Rightarrow> lookup_status \<Rightarrow> string option \<Rightarrow> checkpoint option \<Rightarrow> receipt_body" where
  "receipt_for_response v q r status challenge current =
     \<lparr>xt_anchor = xv_anchor v, xt_authority = pf_authority (xv_store v), xt_client = es_client q,
      xt_generation = es_generation q, xt_request = es_request q, xt_digest = es_digest q, xt_status = status,
      xt_operation = es_operation q, xt_result = map_option re_result r, xt_reason = map_option re_reason r,
      xt_observed = (case r of None \<Rightarrow> None | Some r \<Rightarrow> re_observed r),
      xt_outcome = (case r of None \<Rightarrow> None | Some r \<Rightarrow> re_checkpoint r), xt_current = current,
      xt_sequence = map_option re_sequence r, xt_replayed = (case r of None \<Rightarrow> False | Some r \<Rightarrow> re_replayed r),
      xt_challenge = challenge\<rparr>"

definition send_receipt :: "ext_crypto \<Rightarrow> (ext_text \<Rightarrow> string) \<Rightarrow> receipt_body \<Rightarrow> ext_exn + ext_text" where
  "send_receipt cr sign b =
     (if \<not> receipt_body_ok b then Inl BadArgument
      else let m = ReceiptMessage b (sign (ReceiptText b)) in
        if xc_bytes cr m > MAX_MESSAGE then Inl ProtocolError else Inr m)"

text \<open>
  \<open>execute\<close> on a decoded request. The current checkpoint of a new outcome is read from the file
  again after the commit, as it is then (\<open>later\<close>); that of a replayed one in the transaction.
\<close>

definition service_execute ::
  "('x cas_crypto_scheme) \<Rightarrow> ext_crypto \<Rightarrow> (ext_text \<Rightarrow> string) \<Rightarrow> ext_service \<Rightarrow> ext_request \<Rightarrow> seam \<Rightarrow> cas_db option \<Rightarrow>
     cas_db option \<Rightarrow> (ext_exn + ext_text) \<times> cas_db option" where
  "service_execute cc cr sign v q f later db =
     (let p = xv_store v; i = internal_request_id cr q in
      if \<not> request_valid cr (xv_keys v) (pf_authority p) q then (Inl ProtocolError, db)
      else
        (case (if es_operation q = ''BOOTSTRAP'' then cas_bootstrap cc p i (es_successor q) f db
               else compare_and_swap cc p i (es_expected q) (es_successor q) f db) of
           (Inl BadValue, d) \<Rightarrow> (Inl ProtocolError, d)
         | (Inl x, d) \<Rightarrow> (Inl (FromStore x), d)
         | (Inr r, d) \<Rightarrow>
             (bindE (case cas_get p (if re_replayed r then db else later) of Inl x \<Rightarrow> Inl (FromStore x) | Inr c \<Rightarrow> Inr c)
                (\<lambda>current. send_receipt cr sign (receipt_for_response v q (Some r) RECORDED None current)), d)))"

definition service_execute_bytes ::
  "('x cas_crypto_scheme) \<Rightarrow> ext_crypto \<Rightarrow> (ext_text \<Rightarrow> string) \<Rightarrow> ext_service \<Rightarrow> ext_text option \<Rightarrow> seam \<Rightarrow> cas_db option \<Rightarrow>
     cas_db option \<Rightarrow> (ext_exn + ext_text) \<times> cas_db option" where
  "service_execute_bytes cc cr sign v m f later db =
     (case decode_request cr m of Inl x \<Rightarrow> (Inl x, db) | Inr q \<Rightarrow> service_execute cc cr sign v q f later db)"

text \<open>The digest under which the store holds a request.\<close>

definition store_digest :: "('x cas_crypto_scheme) \<Rightarrow> profile \<Rightarrow> ext_request \<Rightarrow> cas_exn + string" where
  "store_digest cc p q =
     bindE (if es_operation q = ''BOOTSTRAP'' then request_context cc p ''BOOTSTRAP'' None (es_successor q)
            else request_context cc p ''CAS'' (es_expected q) (es_successor q)) (\<lambda>e. Inr (envelope_hash cc e))"

definition query_valid :: "ext_crypto \<Rightarrow> ext_service \<Rightarrow> lookup_query \<Rightarrow> bool" where
  "query_valid cr v y \<longleftrightarrow>
     request_valid cr (xv_keys v) (pf_authority (xv_store v)) (eq_request y) \<and>
     (case lookup_to_body (eq_request y) (eq_challenge y) of
        None \<Rightarrow> False
      | Some b \<Rightarrow>
          eq_payload y = Some b \<and>
          (case map_of (xv_keys v) (es_client (eq_request y), es_generation (eq_request y)) of
             None \<Rightarrow> False
           | Some k \<Rightarrow> xc_verifies cr k (eq_signature y) (LookupText b)))"

definition service_lookup ::
  "('x cas_crypto_scheme) \<Rightarrow> ext_crypto \<Rightarrow> (ext_text \<Rightarrow> string) \<Rightarrow> ext_service \<Rightarrow> lookup_query \<Rightarrow> cas_db option \<Rightarrow>
     cas_db option \<Rightarrow> ext_exn + ext_text" where
  "service_lookup cc cr sign v y later db =
     (let p = xv_store v; q = eq_request y in
      if \<not> query_valid cr v y then Inl ProtocolError
      else case bindE (store_digest cc p q) (\<lambda>dg. cas_lookup p (internal_request_id cr q) dg db) of
        Inl x \<Rightarrow> Inl (FromStore x)
      | Inr (Some r, current) \<Rightarrow>
          send_receipt cr sign (receipt_for_response v q (Some r) RECORDED (Some (eq_challenge y)) current)
      | Inr (None, _) \<Rightarrow>
          (case cas_get p later of
             Inl x \<Rightarrow> Inl (FromStore x)
           | Inr current \<Rightarrow>
               send_receipt cr sign (receipt_for_response v q None NOT_RECORDED (Some (eq_challenge y)) current)))"

definition service_lookup_bytes ::
  "('x cas_crypto_scheme) \<Rightarrow> ext_crypto \<Rightarrow> (ext_text \<Rightarrow> string) \<Rightarrow> ext_service \<Rightarrow> ext_text option \<Rightarrow> cas_db option \<Rightarrow>
     cas_db option \<Rightarrow> ext_exn + ext_text" where
  "service_lookup_bytes cc cr sign v m later db =
     bindE (decode_lookup_query cr m) (\<lambda>y. service_lookup cc cr sign v y later db)"

subsection \<open>The client\<close>

text \<open>What the transport gives back: nothing, or some bytes.\<close>

datatype answer = NoAnswer | Answer "ext_text option"

definition accept_receipt ::
  "ext_crypto \<Rightarrow> (string, string) dict \<Rightarrow> ext_request \<Rightarrow> string option \<Rightarrow> answer \<Rightarrow> ext_exn + ext_receipt" where
  "accept_receipt cr trusted q challenge a =
     (case a of
        NoAnswer \<Rightarrow> Inl OutcomeUnknown
      | Answer m \<Rightarrow>
          bindE (decode_receipt cr m) (\<lambda>rc.
            if verify_receipt cr rc q trusted challenge then Inr rc else Inl ProtocolError))"

definition client_execute ::
  "ext_crypto \<Rightarrow> (string, string) dict \<Rightarrow> ext_request \<Rightarrow> (ext_text \<Rightarrow> answer) \<Rightarrow> ext_exn + ext_receipt" where
  "client_execute cr trusted q transport =
     bindE (encode_request cr q) (\<lambda>m. accept_receipt cr trusted q None (transport m))"

definition client_lookup ::
  "ext_crypto \<Rightarrow> (string, string) dict \<Rightarrow> lookup_query \<Rightarrow> (ext_text \<Rightarrow> answer) \<Rightarrow> ext_exn + ext_receipt" where
  "client_lookup cr trusted y transport =
     bindE (encode_lookup_query cr y) (\<lambda>m. accept_receipt cr trusted (eq_request y) (Some (eq_challenge y)) (transport m))"

subsection \<open>Requests survive the wire\<close>

text \<open>SHA-256 digests are 64 lower-case hexadecimal digits, Ed25519 signatures are 64 bytes long.\<close>

definition ext_hashes :: "ext_crypto \<Rightarrow> bool" where
  "ext_hashes cr \<longleftrightarrow> (\<forall>t. hex64 (xc_digest cr t))"

lemma to_body_Some:
  "successor_to_body s = Some sb \<longleftrightarrow> (\<exists>p. bound_payload s = Some p \<and> length (sg_signature s) = 64 \<and>
     commit_id_ok (sg_signer s) \<and> sb = \<lparr>xs_signer = sg_signer s, xs_signature = sg_signature s, xs_payload = p\<rparr>)"
  by (auto simp: successor_to_body_def split: option.splits)

lemma successor_there_and_back: "successor_to_body s = Some sb \<Longrightarrow> successor_from_body sb = Some (canonical_signed s)"
proof -
  assume "successor_to_body s = Some sb"
  then obtain p where p: "bound_payload s = Some p" "length (sg_signature s) = 64" "commit_id_ok (sg_signer s)"
    "sb = \<lparr>xs_signer = sg_signer s, xs_signature = sg_signature s, xs_payload = p\<rparr>" by (auto simp: to_body_Some)
  from p(1) have "p = \<lparr>sp_state = sorted_state (sg_state s), sp_keys = sort (sg_keys s)\<rparr>"
    by (auto simp: bound_payload_def split: if_splits)
  then have "\<lparr>sg_state = sp_state p, sg_signature = sg_signature s, sg_signer = sg_signer s, sg_keys = sp_keys p\<rparr> =
      canonical_signed s" by (simp add: canonical_signed_def)
  with p show ?thesis by (simp add: successor_from_body_def)
qed

lemma to_body_canonical [simp]: "successor_to_body (canonical_signed s) = successor_to_body s"
  by (simp add: successor_to_body_def split: option.split)

lemma request_body_canonical [simp]:
  "request_to_body a c g i oper ex (canonical_signed s) = request_to_body a c g i oper ex s"
  by (simp only: request_to_body_def to_body_canonical)

lemma request_to_body_Some:
  assumes "request_to_body a c g i oper ex s = Some b"
  shows "xr_authority b = a" "xr_client b = c" "xr_generation b = g" "xr_request b = i" "xr_operation b = oper"
    "xr_expected b = ex" "successor_to_body s = Some (xr_successor b)" "checkpoint_body_ok ex"
    "oper = ''BOOTSTRAP'' \<and> ex = None \<or> oper = ''CAS'' \<and> ex \<noteq> None" "commit_id_ok a" "commit_id_ok c" "commit_id_ok i" "1 \<le> g"
  using assms by (auto simp: request_to_body_def split: if_splits option.splits)


subsection \<open>Requests at the store\<close>

lemma internal_id_ok:
  assumes "ext_hashes cr"
  shows "commit_id_ok (internal_request_id cr q)"
proof -
  let ?d = "xc_digest cr (Namespace (es_client q) (es_generation q) (es_request q))"
  have d: "length ?d = 64" "list_all (\<lambda>c. char_in 48 57 c \<or> char_in 97 102 c) ?d"
    using assms by (auto simp: ext_hashes_def hex64_def)
  have "char_in 97 102 c \<Longrightarrow> char_in 97 122 c" for c by (auto simp: char_in_def)
  then have "list_all (\<lambda>c. (char_in 65 90 c \<or> char_in 97 122 c \<or> char_in 48 57 c) \<or>
      c \<in> {CHR ''.'', CHR ''_'', CHR '':'', CHR ''-''}) ?d"
    using d(2) by (auto simp: list_all_iff)
  then show ?thesis using d(1) by (simp add: internal_request_id_def commit_id_ok_def char_in_def)
qed

text \<open>What a valid request asks of the store: one execution, with the context of its body.\<close>

lemma valid_request:
  assumes "request_valid cr keys a q"
  obtains b where "body_of q = Some b" "es_digest q = xc_digest cr (RequestText b)" "es_payload q = Some b"
    "es_operation q = ''BOOTSTRAP'' \<and> es_expected q = None \<or> es_operation q = ''CAS'' \<and> es_expected q \<noteq> None"
  using assms request_to_body_Some(9) by (fastforce simp: request_valid_def body_of_def split: option.splits)

lemma service_store:
  assumes "request_valid cr keys a q"
  shows "(if es_operation q = ''BOOTSTRAP'' then cas_bootstrap cc p i (es_successor q) f db
     else compare_and_swap cc p i (es_expected q) (es_successor q) f db) =
   cas_execute cc p (es_operation q) i (es_expected q) (es_successor q) f db"
  using assms by (rule valid_request) (auto simp: cas_bootstrap_def compare_and_swap_def)

lemma store_digest_valid:
  assumes "request_valid cr keys a q"
  shows "store_digest cc p q =
    bindE (request_context cc p (es_operation q) (es_expected q) (es_successor q)) (\<lambda>e. Inr (envelope_hash cc e))"
  using assms by (rule valid_request) (auto simp: store_digest_def)

lemma context_of_body:
  assumes "body_of q = Some b" "body_of q' = Some b"
  shows "request_context cc p (es_operation q) (es_expected q) (es_successor q) =
    request_context cc p (es_operation q') (es_expected q') (es_successor q')"
proof -
  note f = request_to_body_Some [OF assms(1) [unfolded body_of_def]]
    and f' = request_to_body_Some [OF assms(2) [unfolded body_of_def]]
  have "bound_payload (es_successor q) = bound_payload (es_successor q')"
    "sg_signer (es_successor q) = sg_signer (es_successor q')" "sg_signature (es_successor q) = sg_signature (es_successor q')"
    using f(7) f'(7) by (auto simp: to_body_Some)
  moreover have "state_valid (sg_state (es_successor q))" "state_valid (sg_state (es_successor q'))"
    using f(7) f'(7) by (auto simp: to_body_Some bound_payload_def split: if_splits)
  ultimately have "freeze cc (es_successor q) = freeze cc (es_successor q')" by (simp add: freeze_def split: option.split)
  moreover have "es_operation q = es_operation q'" "es_expected q = es_expected q'" using f(5,6) f'(5,6) by simp_all
  ultimately show ?thesis
    unfolding request_context_def
    by (simp only: \<open>sg_signer (es_successor q) = _\<close> \<open>sg_signature (es_successor q) = _\<close>)
qed

lemma namespace_of_body:
  assumes "body_of q = Some b" "body_of q' = Some b"
  shows "internal_request_id cr q = internal_request_id cr q'"
  using request_to_body_Some(2-4) [OF assms(1) [unfolded body_of_def]]
    request_to_body_Some(2-4) [OF assms(2) [unfolded body_of_def]] by (simp add: internal_request_id_def)

text \<open>The row that a receipt for \<open>q\<close> reports.\<close>

definition reports :: "('x cas_crypto_scheme) \<Rightarrow> ext_crypto \<Rightarrow> profile \<Rightarrow> ext_request \<Rightarrow> receipt_body \<Rightarrow> cas_db option \<Rightarrow> bool" where
  "reports cc cr p q b db \<longleftrightarrow>
     (\<exists>d w e. db = Some d \<and> find_request d (internal_request_id cr q) = Some w \<and>
        request_context cc p (es_operation q) (es_expected q) (es_successor q) = Inr e \<and>
        cw_digest w = envelope_hash cc e \<and> map_option cas_str (xt_result b) = Some (cw_result w) \<and>
        xt_reason b = Some (cw_reason w) \<and> xt_sequence b = Some (cw_sequence w) \<and>
        read_columns (cw_observed w) = Inr (xt_observed b) \<and> read_columns (cw_checkpoint w) = Inr (xt_outcome b))"

lemma reports_later: "reports cc cr p q b db \<Longrightarrow> file_le db db' \<Longrightarrow> reports cc cr p q b db'"
  unfolding reports_def file_le_def using find_request_later by blast

lemma reply_reports:
  assumes "find_request d (internal_request_id cr q) = Some w" "cw_digest w = envelope_hash cc e"
    "request_context cc p (es_operation q) (es_expected q) (es_successor q) = Inr e" "reply_row w re r"
  shows "reports cc cr p q (receipt_for_response v q (Some r) st ch cur) (Some d)"
  using assms unfolding reports_def reply_row_def receipt_for_response_def
  by (intro exI [of _ d] exI [of _ w] exI [of _ e]) (auto dest: cas_ofD)

lemma send_receipt_Inr: "send_receipt cr sign b = Inr m \<Longrightarrow> m = ReceiptMessage b (sign (ReceiptText b)) \<and> receipt_body_ok b"
  by (auto simp: send_receipt_def Let_def split: if_splits)

lemma service_execute_cases:
  assumes g: "file_good cc (xv_store v) db" and run: "service_execute cc cr sign v q f later db = (x, db')"
  shows "file_good cc (xv_store v) db' \<and> file_le db db' \<and>
    (\<forall>m. x = Inr m \<longrightarrow> request_valid cr (xv_keys v) (pf_authority (xv_store v)) q \<and>
       (\<exists>r cur. m = ReceiptMessage (receipt_for_response v q (Some r) RECORDED None cur)
            (sign (ReceiptText (receipt_for_response v q (Some r) RECORDED None cur))) \<and>
          reports cc cr (xv_store v) q (receipt_for_response v q (Some r) RECORDED None cur) db'))"
proof (cases "request_valid cr (xv_keys v) (pf_authority (xv_store v)) q")
  case False
  then show ?thesis using run g by (auto simp: service_execute_def file_le_def)
next
  case valid: True
  let ?p = "xv_store v" and ?i = "internal_request_id cr q"
  obtain y d' where ex: "cas_execute cc ?p (es_operation q) ?i (es_expected q) (es_successor q) f db = (y, d')"
    by fastforce
  have b: "es_operation q = ''BOOTSTRAP'' \<Longrightarrow> es_expected q = None" using valid by (rule valid_request) auto
  have d': "db' = d'"
    using run valid ex by (auto simp: service_execute_def service_store [OF valid] Let_def
        split: sum.splits cas_exn.splits)
  have good: "file_good cc ?p d' \<and> file_le db d'" by (rule execute_good [OF g b ex])
  have "reports cc cr ?p q (receipt_for_response v q (Some r) st ch cur) d'" if r: "y = Inr r" for r st ch cur
  proof -
    from g obtain d where d: "db = Some d" "hashes cc" "db_good cc ?p d" by (auto simp: file_good_def)
    from g [unfolded d(1)] ex [unfolded d(1)] show ?thesis
    proof (cases rule: execute_cases)
      case (Done e r' d1)
      then have "f = Quiet" "r' = r" using r by (auto split: if_splits)
      with Done cas_body_cases(3) [OF d(2,3) Done(2,3) b Done(4)] show ?thesis by (auto intro: reply_reports)
    qed (use r in auto)
  qed
  moreover have "\<exists>r cur. y = Inr r \<and> m = ReceiptMessage (receipt_for_response v q (Some r) RECORDED None cur)
            (sign (ReceiptText (receipt_for_response v q (Some r) RECORDED None cur)))" if "x = Inr m" for m
    using run valid ex that
    by (auto simp: service_execute_def service_store [OF valid] Let_def bindE_Inr_conv
        split: sum.splits cas_exn.splits dest!: send_receipt_Inr)
  ultimately show ?thesis using good valid unfolding d' by blast
qed

lemma service_lookup_cases:
  assumes g: "file_good cc (xv_store v) db" and run: "service_lookup cc cr sign v y later db = Inr m"
  obtains r cur where "query_valid cr v y"
      "m = ReceiptMessage (receipt_for_response v (eq_request y) (Some r) RECORDED (Some (eq_challenge y)) cur)
        (sign (ReceiptText (receipt_for_response v (eq_request y) (Some r) RECORDED (Some (eq_challenge y)) cur)))"
      "reports cc cr (xv_store v) (eq_request y) (receipt_for_response v (eq_request y) (Some r) RECORDED (Some (eq_challenge y)) cur) db"
  | cur where "query_valid cr v y" "m = ReceiptMessage (receipt_for_response v (eq_request y) None NOT_RECORDED (Some (eq_challenge y)) cur)
        (sign (ReceiptText (receipt_for_response v (eq_request y) None NOT_RECORDED (Some (eq_challenge y)) cur)))"
proof -
  let ?p = "xv_store v" and ?q = "eq_request y"
  from run have v: "query_valid cr v y" by (auto simp: service_lookup_def Let_def split: if_splits)
  then have rv: "request_valid cr (xv_keys v) (pf_authority ?p) ?q" by (simp add: query_valid_def)
  from run v obtain ro current where look: "bindE (store_digest cc ?p ?q) (\<lambda>dg. cas_lookup ?p (internal_request_id cr ?q) dg db) =
      Inr (ro, current)" by (auto simp: service_lookup_def Let_def split: sum.splits prod.splits)
  show thesis
  proof (cases ro)
    case None
    with run v look obtain cur where
      "send_receipt cr sign (receipt_for_response v ?q None NOT_RECORDED (Some (eq_challenge y)) cur) = Inr m"
      by (auto simp: service_lookup_def Let_def split: sum.splits)
    then show thesis using v that(2) by (blast dest: send_receipt_Inr)
  next
    case (Some r)
    from look obtain e where e: "request_context cc ?p (es_operation ?q) (es_expected ?q) (es_successor ?q) = Inr e"
      and l: "cas_lookup ?p (internal_request_id cr ?q) (envelope_hash cc e) db = Inr (ro, current)"
      unfolding store_digest_valid [OF rv] by (auto simp: bindE_Inr_conv)
    from g l Some obtain d w where d: "db = Some d" and w: "find_request d (internal_request_id cr ?q) = Some w"
      "reply_row w True r" "re_digest r = envelope_hash cc e"
      by (auto simp: cas_lookup_def bindE_Inr_conv response_reply file_good_def connect_good split: if_splits option.splits)
    then have "cw_digest w = envelope_hash cc e" by (simp add: reply_row_def)
    with w e d have "reports cc cr ?p ?q (receipt_for_response v ?q (Some r) RECORDED (Some (eq_challenge y)) current) db"
      by (auto intro: reply_reports)
    moreover from run v look Some have
      "send_receipt cr sign (receipt_for_response v ?q (Some r) RECORDED (Some (eq_challenge y)) current) = Inr m"
      by (simp add: service_lookup_def Let_def)
    then have "m = ReceiptMessage (receipt_for_response v ?q (Some r) RECORDED (Some (eq_challenge y)) current)
        (sign (ReceiptText (receipt_for_response v ?q (Some r) RECORDED (Some (eq_challenge y)) current)))"
      by (blast dest: send_receipt_Inr)
    ultimately show thesis using v that(1) by blast
  qed
qed

subsection \<open>A lost reply is found\<close>

lemma execute_after:
  "cas_execute cc p oper i ex s Quiet db = (Inr r, d) \<Longrightarrow> cas_execute cc p oper i ex s After db = (Inl Seam, d)"
  by (auto simp: cas_execute_def split: if_splits sum.splits prod.splits)

lemma lookup_reports:
  assumes g: "file_good cc (xv_store v) db" and h: "ext_hashes cr" and y: "query_valid cr v y"
    and fits: "\<And>t. xc_bytes cr t \<le> MAX_MESSAGE" and rep: "reports cc cr (xv_store v) (eq_request y) b db"
  shows "\<exists>b'. service_lookup cc cr sign v y later db = Inr (ReceiptMessage b' (sign (ReceiptText b'))) \<and>
    xt_status b' = RECORDED \<and> xt_challenge b' = Some (eq_challenge y) \<and> xt_replayed b' \<and>
    (xt_result b', xt_reason b', xt_observed b', xt_outcome b', xt_sequence b') =
      (xt_result b, xt_reason b, xt_observed b, xt_outcome b, xt_sequence b)"
proof -
  let ?p = "xv_store v" and ?q = "eq_request y"
  from y have rv: "request_valid cr (xv_keys v) (pf_authority ?p) ?q" by (simp add: query_valid_def)
  from rep obtain d w e where d: "db = Some d" and w: "find_request d (internal_request_id cr ?q) = Some w"
    and e: "request_context cc ?p (es_operation ?q) (es_expected ?q) (es_successor ?q) = Inr e"
    and f: "cw_digest w = envelope_hash cc e" "map_option cas_str (xt_result b) = Some (cw_result w)"
      "xt_reason b = Some (cw_reason w)" "xt_sequence b = Some (cw_sequence w)"
      "read_columns (cw_observed w) = Inr (xt_observed b)" "read_columns (cw_checkpoint w) = Inr (xt_outcome b)"
    by (auto simp: reports_def)
  from f(2) obtain res where res: "xt_result b = Some res" "cw_result w = cas_str res" by auto
  define r where "r = \<lparr>re_request = cw_request w, re_digest = cw_digest w, re_operation = cw_operation w, re_result = res,
    re_reason = cw_reason w, re_observed = xt_observed b, re_checkpoint = xt_outcome b, re_sequence = cw_sequence w,
    re_replayed = True\<rparr>"
  have r: "response_of w = Inr r" using f(5,6) res(2) by (simp add: response_of_def r_def)
  from g d have good: "db_good cc ?p d" "hashes cc" by (auto simp: file_good_def)
  then have cur: "read_checkpoint d = Inr (db_checkpoint d)" "valid_opt (db_checkpoint d)"
    by (auto simp: read_checkpoint_def db_good_def)
  have "cas_lookup ?p (internal_request_id cr ?q) (envelope_hash cc e) db = Inr (Some r, db_checkpoint d)"
    using good cur(1) w r f(1) internal_id_ok [OF h] by (simp add: cas_lookup_def d connect_good hashes_def r_def)
  then have look: "bindE (store_digest cc ?p ?q) (\<lambda>dg. cas_lookup ?p (internal_request_id cr ?q) dg db) =
      Inr (Some r, db_checkpoint d)"
    by (simp add: store_digest_valid [OF rv] e)
  let ?b = "receipt_for_response v ?q (Some r) RECORDED (Some (eq_challenge y)) (db_checkpoint d)"
  have "receipt_body_ok ?b"
    using read_columns_valid [OF f(5)] read_columns_valid [OF f(6)] cur(2)
    by (simp add: receipt_body_ok_def receipt_for_response_def r_def checkpoint_body_ok_def valid_opt_def)
  then have "service_lookup cc cr sign v y later db = Inr (ReceiptMessage ?b (sign (ReceiptText ?b)))"
    using y look fits by (simp add: service_lookup_def send_receipt_def Let_def not_less)
  then show ?thesis
    by (intro exI [of _ ?b]) (simp add: receipt_for_response_def r_def res f(3,4))
qed


subsection \<open>What an accepted receipt means\<close>

text \<open>
  The life of the service: requests and lookups it answers, and other processes on the same file.
  The receipts it signs are collected.
\<close>

datatype ext_event =
    Execute ext_request seam "cas_db option"
  | Look lookup_query "cas_db option"
  | Elsewhere "profile \<times> cas_op \<times> seam"

fun ext_step ::
  "('x cas_crypto_scheme) \<Rightarrow> ext_crypto \<Rightarrow> (ext_text \<Rightarrow> string) \<Rightarrow> ext_service \<Rightarrow> receipt_body list \<times> cas_db option \<Rightarrow>
     ext_event \<Rightarrow> receipt_body list \<times> cas_db option" where
  "ext_step cc cr sign v (bs, db) (Execute q f later) =
     (case service_execute cc cr sign v q f later db of
        (Inr (ReceiptMessage b s), db') \<Rightarrow> (bs @ [b], db')
      | (_, db') \<Rightarrow> (bs, db'))"
| "ext_step cc cr sign v (bs, db) (Look y later) =
     (case service_lookup cc cr sign v y later db of Inr (ReceiptMessage b s) \<Rightarrow> (bs @ [b], db) | _ \<Rightarrow> (bs, db))"
| "ext_step cc cr sign v (bs, db) (Elsewhere e) = (bs, cas_step cc db e)"

definition ext_ok :: "('x cas_crypto_scheme) \<Rightarrow> ext_crypto \<Rightarrow> ext_service \<Rightarrow> receipt_body list \<times> cas_db option \<Rightarrow> bool" where
  "ext_ok cc cr v st \<longleftrightarrow> file_good cc (xv_store v) (snd st) \<and>
     (\<forall>b\<in>set (fst st). xt_status b = RECORDED \<longrightarrow>
        (\<exists>q. request_valid cr (xv_keys v) (pf_authority (xv_store v)) q \<and> xt_digest b = es_digest q \<and>
             reports cc cr (xv_store v) q b (snd st)))"

lemma ext_ok_later: "ext_ok cc cr v (bs, db) \<Longrightarrow> file_good cc (xv_store v) db' \<Longrightarrow> file_le db db' \<Longrightarrow> ext_ok cc cr v (bs, db')"
  unfolding ext_ok_def using reports_later by fastforce

lemma ext_ok_add:
  "ext_ok cc cr v (bs, db) \<Longrightarrow> request_valid cr (xv_keys v) (pf_authority (xv_store v)) q \<Longrightarrow> xt_digest b = es_digest q \<Longrightarrow>
     xt_status b = NOT_RECORDED \<or> reports cc cr (xv_store v) q b db \<Longrightarrow> ext_ok cc cr v (bs @ [b], db)"
  by (auto simp: ext_ok_def)

lemma ext_step_ok:
  assumes "ext_ok cc cr v st"
  shows "ext_ok cc cr v (ext_step cc cr sign v st e)"
proof -
  obtain bs db where st: "st = (bs, db)" by fastforce
  from assms have g: "file_good cc (xv_store v) db" by (simp add: ext_ok_def st)
  show ?thesis
  proof (cases e)
    case (Execute q f later)
    obtain x db' where run: "service_execute cc cr sign v q f later db = (x, db')" by fastforce
    note c = service_execute_cases [OF g run]
    then have old: "ext_ok cc cr v (bs, db')" using assms ext_ok_later unfolding st by blast
    show ?thesis
    proof (cases x)
      case (Inr m)
      with c obtain r cur where "request_valid cr (xv_keys v) (pf_authority (xv_store v)) q"
        "m = ReceiptMessage (receipt_for_response v q (Some r) RECORDED None cur)
            (sign (ReceiptText (receipt_for_response v q (Some r) RECORDED None cur)))"
        "reports cc cr (xv_store v) q (receipt_for_response v q (Some r) RECORDED None cur) db'" by blast
      then show ?thesis
        using ext_ok_add [OF old] Inr run by (simp add: st Execute receipt_for_response_def)
    qed (use old run st Execute in simp)
  next
    case (Look y later)
    show ?thesis
    proof (cases "service_lookup cc cr sign v y later db")
      case (Inr m)
      show ?thesis
        using assms Inr
        by (cases rule: service_lookup_cases [OF g Inr])
          (auto simp: st Look query_valid_def receipt_for_response_def intro!: ext_ok_add)
    qed (use assms st Look in simp)
  next
    case (Elsewhere e')
    then show ?thesis
      using assms cas_step_good [OF g, of e'] ext_ok_later unfolding st by fastforce
  qed
qed

interpretation external: machine "ext_step cc cr sign v" "ext_ok cc cr v"
  for cc cr sign v
  by unfold_locales (rule ext_step_ok)

text \<open>
  C30. What a client learns from a receipt it accepts: if the key it trusts for the anchor signs only
  what the service signs and no other request has the digest of this one, then the outcome it reads in a
  RECORDED receipt is the row the file holds for exactly this request, and stays there.
\<close>

theorem receipt_means:
  assumes g: "file_good cc (xv_store v) db" and run: "foldl (ext_step cc cr sign v) ([], db) evs = (issued, db')"
    and trust: "\<And>k s b. map_of trusted (xt_anchor b) = Some k \<Longrightarrow> xc_verifies cr k s (ReceiptText b) \<Longrightarrow> b \<in> set issued"
    and inj: "\<And>b'. xc_digest cr (RequestText b') = es_digest q \<Longrightarrow> es_payload q = Some b'"
    and accepted: "accept_receipt cr trusted q ch a = Inr (b, s)" and rec: "xt_status b = RECORDED"
  shows "reports cc cr (xv_store v) q b db'"
proof -
  have "ext_ok cc cr v ([], db)" using g by (simp add: ext_ok_def)
  from external.run_inv [OF this, of sign evs] have ok: "ext_ok cc cr v (issued, db')" by (simp add: run)
  from accepted have ver: "verify_receipt cr (b, s) q trusted ch"
    by (auto simp: accept_receipt_def bindE_Inr_conv split: answer.splits if_splits)
  then obtain qb k where q: "body_of q = Some qb" "es_payload q = Some qb" "xt_digest b = es_digest q"
    and "map_of trusted (xt_anchor b) = Some k" "xc_verifies cr k s (ReceiptText b)"
    by (auto simp: verify_receipt_def split: option.splits)
  then have "b \<in> set issued" using trust by blast
  with ok rec obtain q' where q': "request_valid cr (xv_keys v) (pf_authority (xv_store v)) q'" "xt_digest b = es_digest q'"
    "reports cc cr (xv_store v) q' b db'" by (auto simp: ext_ok_def)
  from q'(1) obtain b' where b': "body_of q' = Some b'" "es_digest q' = xc_digest cr (RequestText b')"
    by (rule valid_request)
  then have "b' = qb" using q(2,3) q'(2) inj [of b'] by simp
  then show ?thesis
    using q'(3) context_of_body [OF q(1), of q' cc "xv_store v"] namespace_of_body [OF q(1), of q' cr] b'(1)
    by (simp add: reports_def)
qed

subsection \<open>A service at work\<close>

definition xd_body :: request_body where
  "xd_body =
     \<lparr>xr_authority = ''auth'', xr_client = ''client'', xr_generation = 1, xr_request = ''r1'',
      xr_operation = ''BOOTSTRAP'', xr_expected = None,
      xr_successor = \<lparr>xs_signer = ''root'', xs_signature = replicate 64 CHR ''s'',
        xs_payload = \<lparr>sp_state = sg_state (demo_snapshot 1), sp_keys = sg_keys (demo_snapshot 1)\<rparr>\<rparr>\<rparr>"

definition xd_receipt :: receipt_body where
  "xd_receipt =
     \<lparr>xt_anchor = ''anchor'', xt_authority = ''auth'', xt_client = ''client'', xt_generation = 1, xt_request = ''r1'',
      xt_digest = replicate 64 CHR ''a'', xt_status = RECORDED, xt_operation = ''BOOTSTRAP'', xt_result = Some APPLIED,
      xt_reason = Some ''BOOTSTRAPPED'', xt_observed = None, xt_outcome = Some (1, replicate 64 CHR ''1''),
      xt_current = Some (1, replicate 64 CHR ''1''), xt_sequence = Some 1, xt_replayed = False, xt_challenge = None\<rparr>"

definition xd_digest :: "ext_text \<Rightarrow> string" where
  "xd_digest t = replicate 64 (case t of RequestText b \<Rightarrow> if b = xd_body then CHR ''a'' else CHR ''b'' | _ \<Rightarrow> CHR ''c'')"

definition xd_verifies :: "string \<Rightarrow> string \<Rightarrow> ext_text \<Rightarrow> bool" where
  "xd_verifies k s t \<longleftrightarrow>
     s = replicate 64 CHR ''s'' \<and> (case t of ReceiptText b \<Rightarrow> b = xd_receipt | _ \<Rightarrow> True)"

definition xd_crypto :: ext_crypto where
  "xd_crypto = \<lparr>xc_digest = xd_digest, xc_bytes = (\<lambda>t. 100), xc_verifies = xd_verifies\<rparr>"

definition xd_sign :: "ext_text \<Rightarrow> string" where
  "xd_sign t = replicate 64 CHR ''s''"

definition xd_service :: ext_service where
  "xd_service = \<lparr>xv_store = demo_profile, xv_anchor = ''anchor'', xv_keys = [((''client'', 1), ''ck'')]\<rparr>"

definition xd_request :: ext_request where
  "xd_request =
     \<lparr>es_authority = ''auth'', es_client = ''client'', es_generation = 1, es_request = ''r1'',
      es_operation = ''BOOTSTRAP'', es_expected = None, es_successor = demo_snapshot 1, es_payload = Some xd_body,
      es_digest = replicate 64 CHR ''a'', es_signature = replicate 64 CHR ''s''\<rparr>"

definition xd_file :: "cas_db option" where
  "xd_file = snd (service_execute demo_crypto xd_crypto xd_sign xd_service xd_request Quiet demo_booted demo_file)"

definition xd_query :: lookup_query where
  "xd_query =
     \<lparr>eq_request = xd_request, eq_challenge = replicate 32 CHR ''c'',
      eq_payload = lookup_to_body xd_request (replicate 32 CHR ''c''), eq_signature = replicate 64 CHR ''s''\<rparr>"

lemma xd_body_eq: "request_to_body ''auth'' ''client'' 1 ''r1'' ''BOOTSTRAP'' None (demo_snapshot 1) = Some xd_body"
  by code_simp

lemma xd_executed:
  "service_execute demo_crypto xd_crypto xd_sign xd_service xd_request Quiet demo_booted demo_file =
     (Inr (ReceiptMessage xd_receipt (replicate 64 CHR ''s'')), xd_file)"
proof -
  have "fst (service_execute demo_crypto xd_crypto xd_sign xd_service xd_request Quiet demo_booted demo_file) =
      Inr (ReceiptMessage xd_receipt (replicate 64 CHR ''s''))"
    by code_simp
  then show ?thesis unfolding xd_file_def by (metis prod.collapse)
qed

lemma xd_digest_64: "hex64 (xd_digest t)"
  by (cases t) (auto simp: xd_digest_def hex64_def char_in_def list_all_iff)



theorem receipt_means_witness:
  "accept_receipt xd_crypto [(''anchor'', ''ak'')] xd_request None
     (Answer (Some (ReceiptMessage xd_receipt (replicate 64 CHR ''s'')))) = Inr (xd_receipt, replicate 64 CHR ''s'') \<and>
   reports demo_crypto xd_crypto demo_profile xd_request xd_receipt xd_file"
proof -
  have good: "file_good demo_crypto (xv_store xd_service) demo_file" by (simp add: xd_service_def demo_file_good)
  have run: "foldl (ext_step demo_crypto xd_crypto xd_sign xd_service) ([], demo_file) [Execute xd_request Quiet demo_booted] =
      ([xd_receipt], xd_file)" by (simp add: xd_executed)
  have acc: "accept_receipt xd_crypto [(''anchor'', ''ak'')] xd_request None
      (Answer (Some (ReceiptMessage xd_receipt (replicate 64 CHR ''s'')))) = Inr (xd_receipt, replicate 64 CHR ''s'')"
    by code_simp
  have "reports demo_crypto xd_crypto (xv_store xd_service) xd_request xd_receipt xd_file"
    by (rule receipt_means [OF good run _ _ acc])
      (auto simp: xd_crypto_def xd_verifies_def xd_digest_def xd_request_def xd_receipt_def split: if_splits)
  with acc show ?thesis by (simp add: xd_service_def)
qed

end
