(* ===== verification/Composition_Hold.thy ===== *)
theory Composition_Hold
  imports Machine Py_Float
begin

section \<open>Holds across a composition\<close>

text \<open>
  \<open>CompositionHoldManager\<close> of \<open>composition/hold_strategy.py\<close>. The dictionary of timed units is an
  association list in insertion order; the code's sorted lists hold the same objects, so an
  update through them is an update of the dictionary. \<open>sorted\<close> is stable, and so is
  \<open>sort_key\<close>. The texts of the answers are constructors that carry what the texts show, and so
  is the stored reason of the hold of the composition. \<open>now\<close> is the clock's text.
\<close>

subsection \<open>State\<close>

datatype strategy = PriorityEnforce | Serialize | ParetoRestore | Escalate | FailClosedCollectif

fun strategy_conflicts :: "strategy \<Rightarrow> string set" where
  "strategy_conflicts PriorityEnforce = {''C1'', ''C2''}"
| "strategy_conflicts Serialize = {''C1'', ''C2'', ''C3''}"
| "strategy_conflicts ParetoRestore = {''C1''}"
| "strategy_conflicts Escalate = {''C1'', ''C2'', ''C3''}"
| "strategy_conflicts FailClosedCollectif = {''C4'', ''tau_k_expired''}"

record tau_hold =
  th_id :: string
  th_priority :: int
  th_held :: bool
  th_reason :: string
  th_start :: string
  th_tau_k :: pyfloat
  th_violated :: bool

datatype hold_cause = Unset | RiskOfficer | InvariantAndExpiry | DefaultCause | Stated string

record composition =
  ch_id :: string
  ch_tau_k :: pyfloat
  ch_source :: string
  ch_taus :: "(string, tau_hold) dict"
  ch_active :: bool
  ch_cause :: hold_cause
  ch_fail_closed :: bool
  ch_enabled :: bool
  ch_order :: "string list"
  ch_index :: nat

definition new_composition :: "string \<Rightarrow> pyfloat \<Rightarrow> string \<Rightarrow> composition" where
  "new_composition i tau_k source =
     \<lparr>ch_id = i, ch_tau_k = tau_k, ch_source = source, ch_taus = [], ch_active = False, ch_cause = Unset,
      ch_fail_closed = False, ch_enabled = False, ch_order = [], ch_index = 0\<rparr>"

subsection \<open>Operations\<close>

definition register_tau :: "string \<Rightarrow> int \<Rightarrow> pyfloat \<Rightarrow> composition \<Rightarrow> composition" where
  "register_tau i priority tau_k c =
     c\<lparr>ch_taus := dput i \<lparr>th_id = i, th_priority = priority, th_held = False, th_reason = [], th_start = [],
                         th_tau_k = tau_k, th_violated = False\<rparr> (ch_taus c)\<rparr>"

definition comp_enter_hold :: "string \<Rightarrow> string \<Rightarrow> string \<Rightarrow> bool \<Rightarrow> composition \<Rightarrow> bool \<times> composition" where
  "comp_enter_hold now i reason violated c =
     (case map_of (ch_taus c) i of
        None \<Rightarrow> (False, c)
      | Some t \<Rightarrow> (True, c\<lparr>ch_taus := dput i (t\<lparr>th_held := True, th_reason := reason, th_start := now,
                                              th_violated := violated\<rparr>) (ch_taus c)\<rparr>))"

text \<open>The units in the order of their priority, and setting the flag of some of them.\<close>

definition sorted_taus :: "composition \<Rightarrow> tau_hold list" where
  "sorted_taus c = sort_key th_priority (map snd (ch_taus c))"

definition set_held :: "(tau_hold \<Rightarrow> bool) \<Rightarrow> composition \<Rightarrow> composition" where
  "set_held f c = c\<lparr>ch_taus := map (\<lambda>(i, t). (i, t\<lparr>th_held := f t\<rparr>)) (ch_taus c)\<rparr>"

definition release_one :: "string \<Rightarrow> composition \<Rightarrow> composition" where
  "release_one i = set_held (\<lambda>t. th_held t \<and> th_id t \<noteq> i)"

datatype why =
    NotApplicable strategy string
  | NoUnits
  | Passes string nat
  | Queued string nat
  | Restored nat nat
  | AllEscalated
  | AllLocked

record resolution =
  rz_held :: "string list"
  rz_released :: "string list"
  rz_vetoed :: "string list"
  rz_hold :: bool
  rz_fail_closed :: bool
  rz_why :: why

definition nothing_resolved :: "why \<Rightarrow> resolution" where
  "nothing_resolved w =
     \<lparr>rz_held = [], rz_released = [], rz_vetoed = [], rz_hold = False, rz_fail_closed = False, rz_why = w\<rparr>"

fun resolve_by :: "strategy \<Rightarrow> composition \<Rightarrow> resolution \<times> composition" where
  "resolve_by PriorityEnforce c =
     (case sorted_taus c of
        [] \<Rightarrow> (nothing_resolved NoUnits, c)
      | w # ws \<Rightarrow>
          (\<lparr>rz_held = [], rz_released = [th_id w], rz_vetoed = map th_id ws, rz_hold = False, rz_fail_closed = False,
            rz_why = Passes (th_id w) (length ws)\<rparr>,
           (release_one (th_id w) c)\<lparr>ch_active := False\<rparr>))"
| "resolve_by Serialize c =
     (case sorted_taus c of
        [] \<Rightarrow> (nothing_resolved NoUnits, c)
      | w # ws \<Rightarrow>
          (let held = map th_id (filter th_held ws) in
           (\<lparr>rz_held = held, rz_released = [th_id w], rz_vetoed = [], rz_hold = (0 < length held),
             rz_fail_closed = False, rz_why = Queued (th_id w) (length held)\<rparr>,
            (release_one (th_id w) c)\<lparr>ch_active := 0 < length held\<rparr>)))"
| "resolve_by ParetoRestore c =
     (let held = map th_id (filter th_violated (sorted_taus c));
          free = map th_id (filter (\<lambda>t. \<not> th_violated t) (sorted_taus c))
      in (\<lparr>rz_held = held, rz_released = free, rz_vetoed = [], rz_hold = (0 < length held), rz_fail_closed = False,
           rz_why = Restored (length held) (length free)\<rparr>,
          (set_held th_violated c)\<lparr>ch_active := 0 < length held\<rparr>))"
| "resolve_by Escalate c =
     (\<lparr>rz_held = map th_id (sorted_taus c), rz_released = [], rz_vetoed = [], rz_hold = True, rz_fail_closed = False,
       rz_why = AllEscalated\<rparr>,
      (set_held (\<lambda>t. True) c)\<lparr>ch_active := True, ch_cause := RiskOfficer\<rparr>)"
| "resolve_by FailClosedCollectif c =
     (\<lparr>rz_held = map th_id (sorted_taus c), rz_released = [], rz_vetoed = [], rz_hold = True, rz_fail_closed = True,
       rz_why = AllLocked\<rparr>,
      (set_held (\<lambda>t. True) c)\<lparr>ch_active := True, ch_fail_closed := True, ch_cause := InvariantAndExpiry\<rparr>)"

definition resolve_composition_hold :: "strategy \<Rightarrow> string \<Rightarrow> composition \<Rightarrow> resolution \<times> composition" where
  "resolve_composition_hold st conflict c =
     (if conflict \<notin> strategy_conflicts st then (nothing_resolved (NotApplicable st conflict), c) else resolve_by st c)"

definition enter_fail_closed :: "string \<Rightarrow> composition \<Rightarrow> string list \<times> composition" where
  "enter_fail_closed reason c =
     (map th_id (map snd (ch_taus c)),
      (set_held (\<lambda>t. True) c)\<lparr>ch_fail_closed := True, ch_active := True,
                              ch_cause := (if reason = [] then DefaultCause else Stated reason)\<rparr>)"

definition enable_progressive_unblock :: "composition \<Rightarrow> composition" where
  "enable_progressive_unblock c =
     c\<lparr>ch_enabled := True, ch_index := 0,
       ch_order := sort_key (\<lambda>i. th_priority (the (map_of (ch_taus c) i))) (map fst (ch_taus c))\<rparr>"

datatype unblock = NotEnabled | AllUnblocked | NotVerified nat | Unblocked string nat

definition progressive_unblock_next :: "bool \<Rightarrow> composition \<Rightarrow> unblock result \<times> composition" where
  "progressive_unblock_next verified c =
     (if \<not> ch_enabled c then (Inr NotEnabled, c)
      else if length (ch_order c) \<le> ch_index c then (Inr AllUnblocked, c)
      else if \<not> verified then (Inr (NotVerified (length (ch_order c) - ch_index c)), c)
      else
        (let i = ch_order c ! ch_index c in
         case map_of (ch_taus c) i of
           None \<Rightarrow> (Inl KeyError, c)
         | Some t \<Rightarrow>
             (let c1 = c\<lparr>ch_taus := dput i (t\<lparr>th_held := False\<rparr>) (ch_taus c), ch_index := Suc (ch_index c)\<rparr>;
                  remaining = length (ch_order c) - Suc (ch_index c);
                  c2 = (if remaining = 0 then c1\<lparr>ch_fail_closed := False, ch_active := False\<rparr> else c1)
              in (Inr (Unblocked i remaining), c2))))"

definition get_held_taus :: "composition \<Rightarrow> string list" where
  "get_held_taus c = map th_id (filter th_held (map snd (ch_taus c)))"

definition get_tau_states :: "composition \<Rightarrow> (string, int \<times> bool \<times> string \<times> bool) dict" where
  "get_tau_states c = map (\<lambda>(k, t). (th_id t, th_priority t, th_held t, th_reason t, th_violated t)) (ch_taus c)"

subsection \<open>Runs\<close>

datatype comp_op =
    Register string int pyfloat
  | Enter string string string bool
  | Resolve strategy string
  | Lock string
  | Enable
  | Next bool

fun comp_step :: "composition \<Rightarrow> comp_op \<Rightarrow> composition" where
  "comp_step c (Register i p k) = register_tau i p k c"
| "comp_step c (Enter now i why v) = snd (comp_enter_hold now i why v c)"
| "comp_step c (Resolve st k) = snd (resolve_composition_hold st k c)"
| "comp_step c (Lock why) = snd (enter_fail_closed why c)"
| "comp_step c Enable = enable_progressive_unblock c"
| "comp_step c (Next v) = snd (progressive_unblock_next v c)"

text \<open>Keys are identities, no key occurs twice, and the order of the protocol names existing units.\<close>

definition comp_ok :: "composition \<Rightarrow> bool" where
  "comp_ok c \<longleftrightarrow> wf_dict (ch_taus c) \<and> list_all (\<lambda>(i, t). th_id t = i) (ch_taus c) \<and>
     distinct (ch_order c) \<and> set (ch_order c) \<subseteq> fst ` set (ch_taus c) \<and> ch_index c \<le> length (ch_order c)"

lemma keys_set_held [simp]: "map fst (ch_taus (set_held f c)) = map fst (ch_taus c)"
  by (simp add: set_held_def comp_def case_prod_beta)

lemma comp_ok_set_held: "comp_ok c \<Longrightarrow> comp_ok (set_held f c)"
proof -
  assume ok: "comp_ok c"
  have "fst ` set (ch_taus (set_held f c)) = fst ` set (ch_taus c)"
    using keys_set_held [of f c] by (metis list.set_map)
  moreover have "list_all (\<lambda>(i, t). th_id t = i) (ch_taus (set_held f c))"
    using ok by (auto simp: comp_ok_def set_held_def list_all_iff)
  ultimately show ?thesis using ok keys_set_held [of f c]
    by (simp add: comp_ok_def) (simp add: set_held_def)
qed

lemma comp_ok_cong:
  "comp_ok c \<Longrightarrow> ch_taus c' = ch_taus c \<Longrightarrow> ch_order c' = ch_order c \<Longrightarrow> ch_index c' = ch_index c \<Longrightarrow> comp_ok c'"
  by (simp add: comp_ok_def)

lemma comp_ok_dput:
  assumes "comp_ok c" "th_id t = i"
  shows "comp_ok (c\<lparr>ch_taus := dput i t (ch_taus c)\<rparr>)"
  using assms by (auto simp: comp_ok_def list_all_iff dom_update dest!: in_set_dput) 

lemma ok_id: "comp_ok c \<Longrightarrow> map_of (ch_taus c) i = Some t \<Longrightarrow> th_id t = i"
  by (auto simp: comp_ok_def list_all_iff dest!: map_of_in_set)

lemma resolve_by_ok: "comp_ok c \<Longrightarrow> comp_ok (snd (resolve_by st c))"
  by (cases st) (auto simp: release_one_def Let_def intro!: comp_ok_set_held elim!: comp_ok_cong [rotated]
      intro: comp_ok_cong [OF comp_ok_set_held] split: list.splits)

lemma enable_ok: "comp_ok c \<Longrightarrow> comp_ok (enable_progressive_unblock c)"
  by (simp add: comp_ok_def enable_progressive_unblock_def)

lemma next_cases:
  assumes "comp_ok c"
  obtains "snd (progressive_unblock_next v c) = c" "\<not> ch_enabled c \<or> length (ch_order c) \<le> ch_index c \<or> \<not> v"
      "\<exists>u. fst (progressive_unblock_next v c) = Inr u"
  | i t where "ch_enabled c" "ch_index c < length (ch_order c)" "v" "i = ch_order c ! ch_index c"
      "map_of (ch_taus c) i = Some t"
      "progressive_unblock_next v c =
         (Inr (Unblocked i (length (ch_order c) - Suc (ch_index c))),
          c\<lparr>ch_taus := dput i (t\<lparr>th_held := False\<rparr>) (ch_taus c), ch_index := Suc (ch_index c),
            ch_fail_closed := (ch_fail_closed c \<and> Suc (ch_index c) \<noteq> length (ch_order c)),
            ch_active := (ch_active c \<and> Suc (ch_index c) \<noteq> length (ch_order c))\<rparr>)"
proof (cases "\<not> ch_enabled c \<or> length (ch_order c) \<le> ch_index c \<or> \<not> v")
  case True
  then show thesis by (intro that(1)) (auto simp: progressive_unblock_next_def)
next
  case False
  let ?i = "ch_order c ! ch_index c"
  have "?i \<in> fst ` set (ch_taus c)" using assms False by (auto simp: comp_ok_def)
  then obtain t where "map_of (ch_taus c) ?i = Some t" by (metis map_of_eq_None_iff not_None_eq)
  moreover from False have "length (ch_order c) - Suc (ch_index c) = 0 \<longleftrightarrow> Suc (ch_index c) = length (ch_order c)"
    by linarith
  ultimately show thesis using False
    by (intro that(2)) (auto simp: progressive_unblock_next_def Let_def)
qed

lemma comp_step_ok: "comp_ok c \<Longrightarrow> comp_ok (comp_step c r)"
proof (cases r)
  case (Register i p k)
  then show "comp_ok c \<Longrightarrow> comp_ok (comp_step c r)" by (simp add: register_tau_def comp_ok_dput)
next
  case (Enter now i why v)
  then show "comp_ok c \<Longrightarrow> comp_ok (comp_step c r)"
    by (auto simp: comp_enter_hold_def intro!: comp_ok_dput dest: ok_id split: option.splits)
next
  case (Resolve st k)
  then show "comp_ok c \<Longrightarrow> comp_ok (comp_step c r)" by (simp add: resolve_composition_hold_def resolve_by_ok)
next
  case (Lock why)
  then show "comp_ok c \<Longrightarrow> comp_ok (comp_step c r)"
    by (auto simp: enter_fail_closed_def intro: comp_ok_cong [OF comp_ok_set_held])
next
  case (Next v)
  assume ok: "comp_ok c"
  show ?thesis
  proof (cases rule: next_cases [OF ok, of v])
    case (2 i t)
    then have "comp_ok (c\<lparr>ch_taus := dput i (t\<lparr>th_held := False\<rparr>) (ch_taus c)\<rparr>)"
      using ok by (intro comp_ok_dput) (auto dest: ok_id)
    then show ?thesis using Next 2 by (simp add: comp_ok_def)
  qed (use ok Next in simp)
qed (simp add: enable_ok)

interpretation composing: machine comp_step comp_ok
  by unfold_locales (rule comp_step_ok)

lemma new_ok: "comp_ok (new_composition i k s)"
  by (simp add: comp_ok_def new_composition_def)

lemmas comp_run_ok = composing.run_inv [OF new_ok]

lemma held_iff:
  assumes "comp_ok c"
  shows "i \<in> set (get_held_taus c) \<longleftrightarrow> (\<exists>t. map_of (ch_taus c) i = Some t \<and> th_held t)"
proof -
  have "wf_dict (ch_taus c)" using assms by (simp add: comp_ok_def)
  moreover have "th_id t = j" if "(j, t) \<in> set (ch_taus c)" for j t
    using assms that by (auto simp: comp_ok_def list_all_iff)
  ultimately show ?thesis by (force simp: get_held_taus_def map_of_eq_Some_iff)
qed

lemma map_of_set_held: "map_of (ch_taus (set_held f c)) i = map_option (\<lambda>t. t\<lparr>th_held := f t\<rparr>) (map_of (ch_taus c) i)"
  by (simp add: set_held_def map_of_map)

subsection \<open>Resolution tells the truth\<close>

lemma in_sorted:
  assumes "comp_ok c"
  shows "t \<in> set (sorted_taus c) \<longleftrightarrow> map_of (ch_taus c) (th_id t) = Some t"
proof -
  have "(th_id t, t) \<in> set (ch_taus c) \<longleftrightarrow> t \<in> snd ` set (ch_taus c)"
  proof
    assume "t \<in> snd ` set (ch_taus c)"
    then obtain i where i: "(i, t) \<in> set (ch_taus c)" by auto
    moreover from i assms have "th_id t = i" by (auto simp: comp_ok_def list_all_iff)
    ultimately show "(th_id t, t) \<in> set (ch_taus c)" by simp
  qed force
  then show ?thesis using assms by (simp add: sorted_taus_def comp_ok_def map_of_eq_Some_iff)
qed

lemma sorted_ids:
  assumes "comp_ok c"
  shows "distinct (map th_id (sorted_taus c))"
proof -
  have "map th_id (map snd (ch_taus c)) = map fst (ch_taus c)"
    using assms by (auto simp: comp_ok_def list_all_iff)
  moreover have "distinct (map fst (ch_taus c))" using assms by (simp add: comp_ok_def)
  ultimately have "distinct (map th_id (map snd (ch_taus c)))" by (simp only:)
  then show ?thesis by (simp only: distinct_map [of th_id] sorted_taus_def distinct_sort set_sort)
qed

lemma held_cong: "ch_taus c' = ch_taus c \<Longrightarrow> get_held_taus c' = get_held_taus c"
  by (simp add: get_held_taus_def)

lemma held_set_held:
  assumes "comp_ok c" "t \<in> set (sorted_taus c)"
  shows "th_id t \<in> set (get_held_taus (set_held f c)) \<longleftrightarrow> f t"
  using assms by (simp add: held_iff comp_ok_set_held map_of_set_held in_sorted)

text \<open>
  What the answer of a strategy says is so afterwards: the units it lists as held are held, those
  it lists as released are not, and the hold of the composition is the one it reports.
\<close>

theorem resolution_truthful:
  assumes run: "c = foldl comp_step (new_composition i k s) ops" and ne: "ch_taus c \<noteq> []"
    and st: "conflict \<in> strategy_conflicts st" and r: "resolve_composition_hold st conflict c = (r, c')"
  shows "list_all (\<lambda>i. i \<in> set (get_held_taus c')) (rz_held r) \<and> list_all (\<lambda>i. i \<notin> set (get_held_taus c')) (rz_released r) \<and>
    ch_active c' = rz_hold r \<and> rz_hold r = (rz_held r \<noteq> [])"
proof -
  have ok: "comp_ok c" unfolding run by (rule comp_run_ok)
  have "sorted_taus c \<noteq> []" using ne by (simp add: sorted_taus_def) (metis length_0_conv length_map length_sort)
  then obtain w ws where w: "sorted_taus c = w # ws" by (cases "sorted_taus c") auto
  note held = held_set_held [OF ok]
  have d: "th_id t \<noteq> th_id w" if "t \<in> set ws" for t using sorted_ids [OF ok] image_eqI [OF _ that, of "th_id w" th_id] by (auto simp: w)
  have r': "resolve_by st c = (r, c')" using r st by (simp add: resolve_composition_hold_def)
  have cong: "get_held_taus (x\<lparr>ch_active := a\<rparr>) = get_held_taus x" for x a by (simp add: get_held_taus_def)
  have all: "get_held_taus (x\<lparr>ch_active := a, ch_cause := y\<rparr>) = get_held_taus x"
    "get_held_taus (x\<lparr>ch_active := a, ch_fail_closed := z, ch_cause := y\<rparr>) = get_held_taus x" for x a y z
    by (simp_all add: get_held_taus_def)
  have won: "th_id w \<notin> set (get_held_taus (release_one (th_id w) c))"
    using held [of w] by (simp add: w release_one_def)
  show ?thesis
  proof (cases st)
    case PriorityEnforce
    then show ?thesis using r' won by (auto simp: w cong)
  next
    case Serialize
    have "th_id t \<in> set (get_held_taus (release_one (th_id w) c))" if "t \<in> set ws" "th_held t" for t
      using held [of t] d that by (simp add: w release_one_def)
    then show ?thesis using r' Serialize won by (auto simp: w Let_def list_all_iff cong)
  next
    case ParetoRestore
    have "th_id t \<in> set (get_held_taus (set_held th_violated c)) \<longleftrightarrow> th_violated t" if "t \<in> set (sorted_taus c)" for t
      using that by (rule held)
    then show ?thesis using r' ParetoRestore by (auto simp: Let_def list_all_iff cong)
  next
    case Escalate
    then show ?thesis using r' held [of _ "\<lambda>t. True"] w by (auto simp: list_all_iff all)
  next
    case FailClosedCollectif
    then show ?thesis using r' held [of _ "\<lambda>t. True"] w by (auto simp: list_all_iff all)
  qed
qed

subsection \<open>The progressive unblock ends\<close>

text \<open>After \<open>n\<close> verified calls: the first \<open>n\<close> units of the order are free, the others held.\<close>

definition unblocked :: "string list \<Rightarrow> nat \<Rightarrow> composition \<Rightarrow> bool" where
  "unblocked ord n c \<longleftrightarrow> comp_ok c \<and> ch_enabled c \<and> ch_order c = ord \<and> ch_index c = min n (length ord) \<and>
     set (get_held_taus c) = set (drop n ord) \<and> (ch_fail_closed c \<longleftrightarrow> n < length ord)"

lemma unblocked_next:
  assumes u: "unblocked ord n c"
  shows "unblocked ord (if v then Suc n else n) (snd (progressive_unblock_next v c))"
proof -
  have ok: "comp_ok c" using u by (simp add: unblocked_def)
  show ?thesis
  proof (cases rule: next_cases [OF ok, of v])
    case 1
    then show ?thesis using u by (auto simp: unblocked_def min_def)
  next
    case (2 i t)
    let ?c = "snd (progressive_unblock_next v c)"
    have n: "n < length ord" "i = ord ! n" using 2 u by (auto simp: unblocked_def)
    have ok': "comp_ok ?c" using comp_step_ok [OF ok, of "Next v"] by simp
    have ord: "distinct ord" using ok u by (simp add: comp_ok_def unblocked_def)
    have "drop n ord = i # drop (Suc n) ord" using n by (simp add: Cons_nth_drop_Suc)
    moreover from this ord have "i \<notin> set (drop (Suc n) ord)" by (metis distinct.simps(2) distinct_drop)
    ultimately have "set (drop (Suc n) ord) = set (get_held_taus c) - {i}" using u by (auto simp: unblocked_def)
    moreover have "set (get_held_taus ?c) = set (get_held_taus c) - {i}"
    proof -
      have taus: "ch_taus ?c = dput i (t\<lparr>th_held := False\<rparr>) (ch_taus c)" unfolding 2(6) by simp
      have "map_of (ch_taus ?c) j = (if j = i then Some (t\<lparr>th_held := False\<rparr>) else map_of (ch_taus c) j)" for j
        unfolding taus by simp
      then have "j \<in> set (get_held_taus ?c) \<longleftrightarrow> j \<in> set (get_held_taus c) \<and> j \<noteq> i" for j
        unfolding held_iff [OF ok] held_iff [OF ok'] by simp
      then show ?thesis by blast
    qed
    ultimately have held: "set (get_held_taus ?c) = set (drop (Suc n) ord)" by simp
    have "ch_enabled ?c" "ch_order ?c = ord" "ch_index ?c = Suc n" "ch_fail_closed ?c \<longleftrightarrow> Suc n < length ord"
      unfolding 2(6) using u n(1) 2(1) by (auto simp: unblocked_def)
    then show ?thesis using 2(3) n(1) ok' held by (simp add: unblocked_def)
  qed
qed

lemma unblocked_run:
  "unblocked ord n c \<Longrightarrow>
     unblocked ord (n + length (filter id flags)) (foldl (\<lambda>c v. snd (progressive_unblock_next v c)) c flags)"
proof (induction flags arbitrary: n c)
  case (Cons v flags)
  from Cons.IH [OF unblocked_next [OF Cons.prems, of v]] show ?case by (cases v) simp_all
qed simp

lemma locked_enabled:
  assumes ok: "comp_ok c" and ne: "ch_taus c \<noteq> []"
  shows "unblocked (ch_order (enable_progressive_unblock (snd (enter_fail_closed why c)))) 0
    (enable_progressive_unblock (snd (enter_fail_closed why c)))"
proof -
  let ?l = "snd (enter_fail_closed why c)"
  let ?e = "enable_progressive_unblock ?l"
  have l: "comp_ok ?l" using comp_step_ok [OF ok, of "Lock why"] by simp
  have keys: "map fst (ch_taus ?l) = map fst (ch_taus c)"
    using keys_set_held [of "\<lambda>t. True" c] by (simp add: enter_fail_closed_def)
  have "set (get_held_taus ?l) = fst ` set (ch_taus c)"
  proof -
    have "i \<in> set (get_held_taus ?l) \<longleftrightarrow> map_of (ch_taus c) i \<noteq> None" for i
      unfolding held_iff [OF l] by (auto simp: enter_fail_closed_def map_of_set_held)
    then show ?thesis by (auto simp: map_of_eq_None_iff)
  qed
  moreover have "set (ch_order ?e) = fst ` set (ch_taus c)" "ch_order ?e \<noteq> []"
    using arg_cong [OF keys, of set] arg_cong [OF keys, of length] ne
    by (auto simp: enable_progressive_unblock_def simp flip: length_greater_0_conv)
  moreover have "get_held_taus ?e = get_held_taus ?l" by (simp add: get_held_taus_def enable_progressive_unblock_def)
  ultimately show ?thesis using enable_ok [OF l]
    by (simp add: unblocked_def) (simp add: enable_progressive_unblock_def enter_fail_closed_def)
qed

text \<open>
  C15. The progressive unblock ends: after a collective lock, whatever calls fail their verification
  in between, the composition leaves the locked state with exactly the verified call that frees
  its last unit; until then the units still held are those the priority order has not reached.
\<close>

theorem progressive_unblock_ends:
  assumes run: "c = foldl comp_step (new_composition i k s) ops" and ne: "ch_taus c \<noteq> []"
    and e: "c1 = enable_progressive_unblock (snd (enter_fail_closed why c))"
    and c2: "c2 = foldl (\<lambda>c v. snd (progressive_unblock_next v c)) c1 flags"
  shows "(ch_fail_closed c2 \<longleftrightarrow> length (filter id flags) < length (ch_taus c)) \<and>
    set (get_held_taus c2) = set (drop (length (filter id flags)) (ch_order c1)) \<and>
    sorted (map (\<lambda>i. th_priority (the (map_of (ch_taus c1) i))) (ch_order c1)) \<and> length (ch_order c1) = length (ch_taus c)"
proof -
  have "unblocked (ch_order c1) 0 c1" unfolding e run by (rule locked_enabled [OF comp_run_ok]) (use run ne in simp)
  from unblocked_run [OF this, of flags] have "unblocked (ch_order c1) (length (filter id flags)) c2"
    unfolding c2 by simp
  moreover have "length (ch_order c1) = length (ch_taus c)"
    by (simp add: e enable_progressive_unblock_def enter_fail_closed_def set_held_def)
  moreover have "sorted (map (\<lambda>i. th_priority (the (map_of (ch_taus c1) i))) (ch_order c1))"
    by (simp add: e enable_progressive_unblock_def)
  ultimately show ?thesis by (simp add: unblocked_def)
qed

text \<open>The protocol never looks up a unit that is not there.\<close>

lemma unblock_never_raises: "comp_ok c \<Longrightarrow> \<exists>u. fst (progressive_unblock_next v c) = Inr u"
  by (rule next_cases [of c v]) auto

subsection \<open>Where the lock does not hold\<close>

definition two_units :: composition where
  "two_units = register_tau ''b'' 1 (Fin 0) (register_tau ''a'' 1 (Fin 0) (new_composition ''c'' (Fin 0) []))"

text \<open>
  A locked composition is unlocked by any other strategy: the hold ends and a unit is free while
  the lock still stands. Two units of equal priority are no reason for the strategy to lock.
\<close>

lemma locked_yet_released:
  "let (r, c) = resolve_composition_hold PriorityEnforce ''C1'' (snd (enter_fail_closed [] two_units)) in
   ch_fail_closed c \<and> \<not> ch_active c \<and> get_held_taus c = [''b''] \<and> rz_vetoed r = [''b'']"
  by (simp add: two_units_def register_tau_def new_composition_def enter_fail_closed_def resolve_composition_hold_def
      sorted_taus_def set_held_def release_one_def get_held_taus_def Let_def)

text \<open>A unit that is registered and held after the protocol has begun stays held when the lock is lifted.\<close>

lemma late_unit_left_behind:
  "let c = enable_progressive_unblock (snd (enter_fail_closed [] two_units));
       c1 = snd (comp_enter_hold [] ''z'' [] True (register_tau ''z'' 0 (Fin 0) c));
       c2 = foldl (\<lambda>c v. snd (progressive_unblock_next v c)) c1 [True, True]
   in \<not> ch_fail_closed c2 \<and> \<not> ch_active c2 \<and> get_held_taus c2 = [''z'']"
  by code_simp

subsection \<open>Compositions at work\<close>

definition comp_ops :: "comp_op list" where
  "comp_ops = [Register ''a'' 2 (Fin 0), Register ''b'' 1 (Fin 0), Enter ''t'' ''a'' ''r'' True]"

lemmas comp_run_simps = comp_ops_def register_tau_def new_composition_def comp_enter_hold_def

theorem resolution_truthful_witness:
  "let c = foldl comp_step (new_composition ''c'' (Fin 0) []) comp_ops; c' = snd (resolve_composition_hold ParetoRestore ''C1'' c)
   in get_held_taus c' = [''a''] \<and> ch_active c'"
proof -
  let ?c = "foldl comp_step (new_composition ''c'' (Fin 0) []) comp_ops"
  obtain r c' where r: "resolve_composition_hold ParetoRestore ''C1'' ?c = (r, c')" by fastforce
  have "rz_held r = [''a'']" "get_held_taus c' = [''a'']"
    using r by (auto simp: comp_run_simps resolve_composition_hold_def sorted_taus_def get_held_taus_def set_held_def Let_def)
  moreover have "ch_active c' = rz_hold r \<and> rz_hold r = (rz_held r \<noteq> [])"
    using resolution_truthful [OF refl _ _ r] by (simp add: comp_run_simps)
  ultimately show ?thesis using r by (simp add: Let_def)
qed

theorem progressive_unblock_ends_witness:
  "let c1 = enable_progressive_unblock (snd (enter_fail_closed [] (foldl comp_step (new_composition ''c'' (Fin 0) []) comp_ops)))
   in ch_fail_closed (foldl (\<lambda>c v. snd (progressive_unblock_next v c)) c1 [True, False]) \<and>
      \<not> ch_fail_closed (foldl (\<lambda>c v. snd (progressive_unblock_next v c)) c1 [True, False, True])"
proof -
  let ?c = "foldl comp_step (new_composition ''c'' (Fin 0) []) comp_ops"
  have "ch_taus ?c \<noteq> []" "length (ch_taus ?c) = 2" by (simp_all add: comp_run_simps)
  with progressive_unblock_ends [OF refl _ refl refl, of "''c''" "Fin 0" "[]" comp_ops "[]" "[True, False]"]
    progressive_unblock_ends [OF refl _ refl refl, of "''c''" "Fin 0" "[]" comp_ops "[]" "[True, False, True]"]
  show ?thesis by (simp add: Let_def)
qed

end
