(* ===== verification/Merkle.thy ===== *)
theory Merkle
  imports Prelude
begin

section \<open>The Merkle tree of a ledger epoch\<close>

text \<open>
  \<open>build_merkle_tree\<close>, \<open>merkle_proof\<close> and \<open>verify_merkle_proof\<close> of
  \<open>r5_distributed_crypto/merkle/distributed_ledger.py\<close>. The argument \<open>h\<close> is \<open>_sha256\<close>: the
  hexadecimal digest of a text. The levels of a tree are the lists the code builds, with its
  aliasing: \<open>tree_levels[0]\<close> is a copy of the leaves, every other level is the list that is
  padded in place when the next level is built from it.
\<close>

datatype ledger_error = IndexError | LedgerIntegrityError | OSError | ValueError

datatype side = OnLeft | OnRight

type_synonym merkle_step = "side \<times> string"

definition merkle_pair :: "(string \<Rightarrow> string) \<Rightarrow> string \<Rightarrow> string \<Rightarrow> string" where
  "merkle_pair h l r = h (l @ r)"

fun pair_up :: "(string \<Rightarrow> string) \<Rightarrow> string list \<Rightarrow> string list" where
  "pair_up h (a # b # xs) = merkle_pair h a b # pair_up h xs"
| "pair_up h xs = []"

definition pad :: "string list \<Rightarrow> string list" where
  "pad xs = (if odd (length xs) then xs @ [last xs] else xs)"

lemma length_pad: "length (pad xs) = length xs + length xs mod 2"
  by (auto simp: pad_def odd_iff_mod_2_eq_one)

lemma length_pair_up: "length (pair_up h xs) = length xs div 2"
  by (induction h xs rule: pair_up.induct) auto

lemma length_parents: "length (pair_up h (pad xs)) = (length xs + 1) div 2"
  by (simp add: length_pair_up length_pad) presburger

text \<open>The loop of \<open>build_merkle_tree\<close>: the lists \<open>current\<close> takes, each after its padding.\<close>

function tree_above :: "(string \<Rightarrow> string) \<Rightarrow> string list \<Rightarrow> string list list" where
  "tree_above h xs = (if length xs \<le> 1 then [xs] else pad xs # tree_above h (pair_up h (pad xs)))"
  by auto

termination
  by (relation "measure (\<lambda>(h, xs). length xs)") (auto simp: length_parents)

declare tree_above.simps [simp del]

definition build_merkle_tree :: "(string \<Rightarrow> string) \<Rightarrow> string list \<Rightarrow> string \<times> string list list" where
  "build_merkle_tree h leaves =
     (if leaves = [] then (h ''EMPTY_EPOCH'', [[]])
      else if length leaves = 1 then (h (hd leaves @ hd leaves), [leaves])
      else let levels = leaves # tl (tree_above h leaves) in (hd (last levels), levels))"

text \<open>\<open>level[sibling_idx]\<close>, or \<open>level[idx]\<close> when there is no sibling.\<close>

definition sibling :: "nat \<Rightarrow> string list \<Rightarrow> ledger_error + merkle_step" where
  "sibling i level =
     (let (j, d) = (if even i then (i + 1, OnRight) else (i - 1, OnLeft)) in
      if j < length level then Inr (d, level ! j)
      else if i < length level then Inr (d, level ! i) else Inl IndexError)"

fun audit_path :: "nat \<Rightarrow> string list list \<Rightarrow> ledger_error + merkle_step list" where
  "audit_path i [] = Inr []"
| "audit_path i (l # ls) =
     bindE (sibling i l) (\<lambda>s. bindE (audit_path (i div 2) ls) (\<lambda>p. Inr (s # p)))"

definition merkle_proof :: "nat \<Rightarrow> string list list \<Rightarrow> ledger_error + merkle_step list" where
  "merkle_proof i levels = audit_path i (butlast levels)"

fun fold_step :: "(string \<Rightarrow> string) \<Rightarrow> string \<Rightarrow> merkle_step \<Rightarrow> string" where
  "fold_step h x (OnRight, s) = merkle_pair h x s"
| "fold_step h x (OnLeft, s) = merkle_pair h s x"

definition verify_merkle_proof :: "(string \<Rightarrow> string) \<Rightarrow> string \<Rightarrow> merkle_step list \<Rightarrow> string \<Rightarrow> bool" where
  "verify_merkle_proof h leaf p root \<longleftrightarrow> foldl (fold_step h) leaf p = root"

subsection \<open>Every leaf has a proof\<close>

lemma pair_up_nth:
  "even (length xs) \<Longrightarrow> i < length xs \<Longrightarrow>
     pair_up h xs ! (i div 2) = merkle_pair h (xs ! (2 * (i div 2))) (xs ! (2 * (i div 2) + 1))"
proof (induction h xs arbitrary: i rule: pair_up.induct)
  case (1 h a b xs)
  show ?case
  proof (cases "i < 2")
    case True
    then have "i div 2 = 0" by simp
    then show ?thesis by simp
  next
    case False
    then have "i div 2 = Suc ((i - 2) div 2)" by presburger
    moreover have "pair_up h xs ! ((i - 2) div 2) =
        merkle_pair h (xs ! (2 * ((i - 2) div 2))) (xs ! (2 * ((i - 2) div 2) + 1))"
      using "1.prems" False by (intro "1.IH") auto
    ultimately show ?thesis by simp
  qed
qed auto

lemma pad_even: "even (length (pad xs))"
  by (simp add: length_pad)

lemma pad_nth: "i < length xs \<Longrightarrow> pad xs ! i = xs ! i"
  by (simp add: pad_def nth_append)

text \<open>One step up: the sibling of a node, taken from its level padded or not, hashes to its parent.\<close>

lemma sibling_parent:
  assumes i: "i < length xs" and l: "l = xs \<or> l = pad xs"
  shows "\<exists>s. sibling i l = Inr s \<and> fold_step h (xs ! i) s = pair_up h (pad xs) ! (i div 2)"
proof -
  have li: "i < length l" "l ! i = xs ! i"
    using i l by (auto simp: length_pad pad_nth)
  have up: "pair_up h (pad xs) ! (i div 2) =
      merkle_pair h (pad xs ! (2 * (i div 2))) (pad xs ! (2 * (i div 2) + 1))"
    using i by (intro pair_up_nth pad_even) (simp add: length_pad)
  consider (odd) "odd i" | (inner) "even i" "i + 1 < length xs" | (last) "even i" "i + 1 = length xs"
    using i by linarith
  then show ?thesis
  proof cases
    case odd
    then have "i - 1 < length l" "l ! (i - 1) = xs ! (i - 1)" "2 * (i div 2) = i - 1" "2 * (i div 2) + 1 = i"
      using i l by (auto simp: length_pad pad_nth)
    moreover have "0 < i" using odd by (cases i) auto
    ultimately show ?thesis
      using odd i up by (simp add: sibling_def pad_nth)
  next
    case inner
    then have "l ! (i + 1) = xs ! (i + 1)" "i + 1 < length l" "2 * (i div 2) = i"
      using l by (auto simp: length_pad pad_nth)
    then show ?thesis
      using inner i up by (simp add: sibling_def pad_nth)
  next
    case last
    then have two: "2 * (i div 2) = i" by simp
    have end_is: "last xs = xs ! i"
    proof -
      have "xs \<noteq> []" "length xs - 1 = i" using i last(2) by auto
      then show ?thesis by (simp add: last_conv_nth)
    qed
    have lst: "pad xs ! (i + 1) = xs ! i" and len: "length (pad xs) = i + 2"
      using last by (auto simp: pad_def nth_append end_is simp flip: last(2))
    have "sibling i l = Inr (OnRight, xs ! i)"
      using last l li lst len by (auto simp: sibling_def)
    then show ?thesis
      using up two lst i by (simp add: pad_nth)
  qed
qed

lemma butlast_tree_above:
  "1 < length xs \<Longrightarrow> butlast (tree_above h xs) = pad xs # butlast (tree_above h (pair_up h (pad xs)))"
  by (subst tree_above.simps) (simp add: tree_above.simps [of h "pair_up h (pad xs)"])

lemma tree_above_nonempty: "tree_above h xs \<noteq> []"
  by (subst tree_above.simps) simp

lemma last_tree_above:
  "1 < length xs \<Longrightarrow> last (tree_above h xs) = last (tree_above h (pair_up h (pad xs)))"
  by (subst tree_above.simps) (simp add: tree_above_nonempty)

lemma path_in_tree:
  "xs \<noteq> [] \<Longrightarrow> i < length xs \<Longrightarrow>
     \<exists>p. audit_path i (butlast (tree_above h xs)) = Inr p \<and>
         foldl (fold_step h) (xs ! i) p = hd (last (tree_above h xs))"
proof (induction h xs arbitrary: i rule: tree_above.induct)
  case (1 h xs)
  show ?case
  proof (cases "length xs \<le> 1")
    case True
    then show ?thesis using "1.prems" by (cases xs) (auto simp: tree_above.simps)
  next
    case False
    let ?ys = "pair_up h (pad xs)"
    have up: "i div 2 < length ?ys"
      using "1.prems"(2) by (simp add: length_parents)
    moreover from up have "?ys \<noteq> []" by auto
    ultimately obtain p where p: "audit_path (i div 2) (butlast (tree_above h ?ys)) = Inr p"
      "foldl (fold_step h) (?ys ! (i div 2)) p = hd (last (tree_above h ?ys))"
      using "1.IH" [OF False] by blast
    obtain s where s: "sibling i (pad xs) = Inr s" "fold_step h (xs ! i) s = ?ys ! (i div 2)"
      using sibling_parent [OF "1.prems"(2), of "pad xs" h] by blast
    show ?thesis using False p s by (simp add: butlast_tree_above last_tree_above)
  qed
qed

theorem merkle_complete:
  assumes n: "2 \<le> length leaves" and i: "i < length leaves"
  shows "\<exists>p. merkle_proof i (snd (build_merkle_tree h leaves)) = Inr p \<and>
             verify_merkle_proof h (leaves ! i) p (fst (build_merkle_tree h leaves))"
proof -
  let ?ys = "pair_up h (pad leaves)"
  have more: "1 < length leaves" "leaves \<noteq> []" using n by auto
  have up: "i div 2 < length ?ys" using i by (simp add: length_parents)
  moreover from up have "?ys \<noteq> []" by auto
  ultimately obtain p where p: "audit_path (i div 2) (butlast (tree_above h ?ys)) = Inr p"
      "foldl (fold_step h) (?ys ! (i div 2)) p = hd (last (tree_above h ?ys))"
    using path_in_tree by blast
  obtain s where s: "sibling i leaves = Inr s" "fold_step h (leaves ! i) s = ?ys ! (i div 2)"
    using sibling_parent [OF i, of leaves h] by blast
  have tl: "tl (tree_above h leaves) = tree_above h ?ys"
    by (subst tree_above.simps) (use more in simp)
  show ?thesis
    using more p s
    by (simp add: build_merkle_tree_def merkle_proof_def verify_merkle_proof_def tl tree_above_nonempty Let_def)
qed

subsection \<open>What a proof proves\<close>

text \<open>The texts that are hashed when a tree is built, and when a proof is checked.\<close>

fun pair_texts :: "string list \<Rightarrow> string list" where
  "pair_texts (a # b # xs) = (a @ b) # pair_texts xs"
| "pair_texts xs = []"

lemma pair_up_texts: "pair_up h xs = map h (pair_texts xs)"
  by (induction xs rule: pair_texts.induct) (auto simp: merkle_pair_def)

function tree_texts :: "(string \<Rightarrow> string) \<Rightarrow> string list \<Rightarrow> string list" where
  "tree_texts h xs =
     (if length xs \<le> 1 then [] else pair_texts (pad xs) @ tree_texts h (pair_up h (pad xs)))"
  by auto

termination
  by (relation "measure (\<lambda>(h, xs). length xs)") (auto simp: length_parents)

declare tree_texts.simps [simp del]

fun step_text :: "string \<Rightarrow> merkle_step \<Rightarrow> string" where
  "step_text x (OnRight, s) = x @ s"
| "step_text x (OnLeft, s) = s @ x"

lemma fold_step_text: "fold_step h x s = h (step_text x s)"
  by (cases "(h, x, s)" rule: fold_step.cases) (auto simp: merkle_pair_def)

fun path_texts :: "(string \<Rightarrow> string) \<Rightarrow> string \<Rightarrow> merkle_step list \<Rightarrow> string list" where
  "path_texts h x [] = []"
| "path_texts h x (s # p) = step_text x s # path_texts h (fold_step h x s) p"

definition tree_nodes :: "(string \<Rightarrow> string) \<Rightarrow> string list \<Rightarrow> string set" where
  "tree_nodes h xs = set xs \<union> h ` set (tree_texts h xs)"

lemma pair_texts_parts: "t \<in> set (pair_texts xs) \<Longrightarrow> \<exists>a \<in> set xs. \<exists>b \<in> set xs. t = a @ b"
  by (induction xs rule: pair_texts.induct) auto

lemma set_pad: "xs \<noteq> [] \<Longrightarrow> set (pad xs) = set xs"
  by (auto simp: pad_def)

lemma tree_texts_parts:
  "t \<in> set (tree_texts h xs) \<Longrightarrow> \<exists>a \<in> tree_nodes h xs. \<exists>b \<in> tree_nodes h xs. t = a @ b"
proof (induction h xs rule: tree_texts.induct)
  case (1 h xs)
  then have more: "\<not> length xs \<le> 1" by (auto simp: tree_texts.simps [of h xs])
  let ?ys = "pair_up h (pad xs)"
  have all: "set (tree_texts h xs) = set (pair_texts (pad xs)) \<union> set (tree_texts h ?ys)"
    using more by (simp add: tree_texts.simps [of h xs])
  then have sub: "tree_nodes h ?ys \<subseteq> tree_nodes h xs"
    by (auto simp: tree_nodes_def pair_up_texts)
  have pads: "set (pad xs) = set xs" using more by (intro set_pad) auto
  consider "t \<in> set (pair_texts (pad xs))" | "t \<in> set (tree_texts h ?ys)"
    using "1.prems" all by blast
  then show ?case
  proof cases
    case 1
    from pair_texts_parts [OF this] show ?thesis unfolding pads by (auto simp: tree_nodes_def)
  next
    case 2
    from "1.IH" [OF more this] sub show ?thesis by blast
  qed
qed

lemma root_in_tree: "xs \<noteq> [] \<Longrightarrow> hd (last (tree_above h xs)) \<in> tree_nodes h xs"
proof (induction h xs rule: tree_above.induct)
  case (1 h xs)
  show ?case
  proof (cases "length xs \<le> 1")
    case True
    then show ?thesis using "1.prems" by (cases xs) (auto simp: tree_above.simps tree_nodes_def)
  next
    case False
    let ?ys = "pair_up h (pad xs)"
    have "?ys \<noteq> []" using False by (simp flip: length_greater_0_conv add: length_parents)
    then have "hd (last (tree_above h ?ys)) \<in> tree_nodes h ?ys" by (rule "1.IH" [OF False])
    moreover have "tree_nodes h ?ys \<subseteq> tree_nodes h xs"
      using False by (auto simp: tree_nodes_def pair_up_texts tree_texts.simps [of h xs])
    ultimately show ?thesis using False by (auto simp: last_tree_above)
  qed
qed

lemma root_of_tree:
  assumes "2 \<le> length xs"
  shows "fst (build_merkle_tree h xs) = hd (last (tree_above h xs))"
proof -
  have "xs \<noteq> []" "length xs \<noteq> 1" "1 < length xs" using assms by auto
  then show ?thesis
    by (simp add: build_merkle_tree_def Let_def last_tree_above tree_above.simps [of h xs] tree_above_nonempty)
qed

text \<open>A document is a JSON object: its text begins and ends with a brace, a digest does neither.\<close>

definition document :: "string \<Rightarrow> bool" where
  "document t \<longleftrightarrow> t \<noteq> [] \<and> hd t = CHR 0x7B \<and> last t = CHR 0x7D"

lemma hex64_ends: "hex64 a \<Longrightarrow> a \<noteq> [] \<and> hd a \<noteq> CHR 0x7B \<and> last a \<noteq> CHR 0x7D"
proof -
  assume a: "hex64 a"
  then have ne: "a \<noteq> []" and hex: "\<forall>c \<in> set a. char_in 48 57 c \<or> char_in 97 102 c"
    by (auto simp: hex64_def list_all_iff)
  have "hd a \<in> set a" "last a \<in> set a" using ne by auto
  with hex have "char_in 48 57 (hd a) \<or> char_in 97 102 (hd a)" "char_in 48 57 (last a) \<or> char_in 97 102 (last a)"
    by blast+
  with ne show ?thesis by (auto simp: char_in_def)
qed

lemma document_not_step: "hex64 x \<Longrightarrow> \<not> document (step_text x s)"
  using hex64_ends [of x] by (cases "(x, s)" rule: step_text.cases) (auto simp: document_def)

lemma path_stays_in_tree:
  assumes dg: "\<And>t. hex64 (h t)" and docs: "\<forall>t \<in> set texts. document t"
    and inj: "inj_on h (set texts \<union> set (tree_texts h (map h texts)) \<union> set (path_texts h x p))"
    and x: "hex64 x" and root: "foldl (fold_step h) x p \<in> tree_nodes h (map h texts)"
  shows "x \<in> tree_nodes h (map h texts)"
  using inj x root
proof (induction p arbitrary: x)
  case (Cons s p)
  let ?N = "tree_nodes h (map h texts)" and ?T = "set (tree_texts h (map h texts))"
  have inj: "inj_on h (set texts \<union> ?T \<union> set (path_texts h (fold_step h x s) p))"
    using Cons.prems(1) by (rule inj_on_subset) auto
  have hex: "hex64 (fold_step h x s)" by (simp only: fold_step_text dg)
  have rest: "foldl (fold_step h) (fold_step h x s) p \<in> ?N" using Cons.prems(3) by simp
  have "fold_step h x s \<in> ?N" by (rule Cons.IH [OF inj hex rest])
  then have up: "h (step_text x s) \<in> h ` (set texts \<union> ?T)"
    unfolding tree_nodes_def fold_step_text by (simp add: image_Un)
  then obtain u where u: "h (step_text x s) = h u" "u \<in> set texts \<union> ?T" by blast
  have "step_text x s = u"
    using Cons.prems(1) u(1) by (rule inj_onD) (use u(2) in auto)
  then have "step_text x s \<in> set texts \<union> ?T" using u(2) by simp
  then have "step_text x s \<in> ?T"
    using docs document_not_step [OF Cons.prems(2), of s] by blast
  then obtain a b where ab: "a \<in> ?N" "b \<in> ?N" "step_text x s = a @ b"
    using tree_texts_parts by blast
  have "hex64 a" "hex64 b" using ab(1,2) dg by (auto simp: tree_nodes_def)
  then have "length a = 64" "length b = 64" "length x = 64"
    using Cons.prems(2) by (auto simp: hex64_def)
  then have "x = a \<or> x = b"
    using ab(3) by (cases "(x, s)" rule: step_text.cases) auto
  then show ?case using ab by auto
qed auto

theorem merkle_sound:
  assumes dg: "\<And>t. hex64 (h t)"
    and docs: "list_all document texts" "document t" and n: "2 \<le> length texts"
    and inj: "inj_on h (set (t # texts @ tree_texts h (map h texts) @ path_texts h (h t) p))"
    and ok: "verify_merkle_proof h (h t) p (fst (build_merkle_tree h (map h texts)))"
  shows "t \<in> set texts"
proof -
  let ?T = "set (tree_texts h (map h texts))"
  have all: "\<forall>u \<in> set texts. document u" using docs by (simp add: list_all_iff)
  have ne: "map h texts \<noteq> []" using n by auto
  have root: "foldl (fold_step h) (h t) p \<in> tree_nodes h (map h texts)"
    using ok root_in_tree [OF ne, of h] n by (simp add: verify_merkle_proof_def root_of_tree)
  have "h t \<in> tree_nodes h (map h texts)"
    by (rule path_stays_in_tree [OF dg all _ dg root]) (use inj in \<open>auto elim: inj_on_subset\<close>)
  then have "h t \<in> h ` (set texts \<union> ?T)" by (auto simp: tree_nodes_def)
  then obtain u where u: "h t = h u" "u \<in> set texts \<union> ?T" by blast
  have "t = u" using inj u(1) by (rule inj_onD) (use u(2) in auto)
  then have "t \<in> set texts \<union> ?T" using u(2) by simp
  moreover have "t \<notin> ?T"
  proof
    assume "t \<in> ?T"
    then obtain a b where "a \<in> tree_nodes h (map h texts)" "t = a @ b"
      using tree_texts_parts by blast
    moreover from this have "hex64 a" using dg by (auto simp: tree_nodes_def)
    ultimately show False using docs(2) hex64_ends [of a] by (auto simp: document_def)
  qed
  ultimately show ?thesis by auto
qed

subsection \<open>What a root determines\<close>

lemma pair_texts_inj:
  "even (length xs) \<Longrightarrow> length ys = length xs \<Longrightarrow> list_all hex64 xs \<Longrightarrow> list_all hex64 ys \<Longrightarrow>
     pair_texts xs = pair_texts ys \<Longrightarrow> xs = ys"
proof (induction xs arbitrary: ys rule: pair_texts.induct)
  case (1 a b xs)
  then obtain c d zs where ys: "ys = c # d # zs"
    by (cases ys rule: pair_texts.cases) auto
  with 1 show ?case by (auto simp: hex64_def)
qed auto

lemma pad_inj: "length xs = length ys \<Longrightarrow> pad xs = pad ys \<Longrightarrow> xs = ys"
  by (auto simp: pad_def split: if_splits)

lemma root_determines:
  "length xs = length ys \<Longrightarrow> list_all hex64 xs \<Longrightarrow> list_all hex64 ys \<Longrightarrow> (\<And>t. hex64 (h t)) \<Longrightarrow>
     inj_on h (set (tree_texts h xs @ tree_texts h ys)) \<Longrightarrow>
     last (tree_above h xs) = last (tree_above h ys) \<Longrightarrow> xs = ys"
proof (induction h xs arbitrary: ys rule: tree_above.induct)
  case (1 h xs)
  show ?case
  proof (cases "length xs \<le> 1")
    case True
    then show ?thesis using "1.prems" by (simp add: tree_above.simps)
  next
    case False
    let ?px = "pad xs" and ?py = "pad ys"
    have tx: "tree_texts h xs = pair_texts ?px @ tree_texts h (pair_up h ?px)"
      and ty: "tree_texts h ys = pair_texts ?py @ tree_texts h (pair_up h ?py)"
      using False "1.prems"(1) by (simp_all add: tree_texts.simps [of h xs] tree_texts.simps [of h ys])
    have "pair_up h ?px = pair_up h ?py"
    proof (rule "1.IH" [OF False])
      show "length (pair_up h ?px) = length (pair_up h ?py)"
        using "1.prems"(1) by (simp add: length_parents)
      show "last (tree_above h (pair_up h ?px)) = last (tree_above h (pair_up h ?py))"
        using "1.prems"(1,6) False by (simp add: last_tree_above)
      show "inj_on h (set (tree_texts h (pair_up h ?px) @ tree_texts h (pair_up h ?py)))"
        using "1.prems"(5) tx ty by (auto elim: inj_on_subset)
    qed (auto simp: pair_up_texts list_all_iff "1.prems"(4))
    then have "map h (pair_texts ?px) = map h (pair_texts ?py)" by (simp add: pair_up_texts)
    then have "pair_texts ?px = pair_texts ?py"
      by (rule map_inj_on) (use "1.prems"(5) tx ty in \<open>auto elim: inj_on_subset\<close>)
    moreover have "list_all hex64 ?px" "list_all hex64 ?py"
    proof -
      have "xs \<noteq> []" "ys \<noteq> []" using False "1.prems"(1) by auto
      with "1.prems"(2,3) show "list_all hex64 ?px" "list_all hex64 ?py"
        by (simp_all add: list_all_iff set_pad)
    qed
    ultimately have "?px = ?py"
      using "1.prems"(1) pair_texts_inj [OF pad_even, of ?py xs] by (simp add: length_pad)
    with "1.prems"(1) show ?thesis by (rule pad_inj)
  qed
qed

text \<open>The same root for different leaves: an odd last leaf counts twice.\<close>

lemma duplicated_leaf_same_root:
  assumes "odd (length xs)" "1 < length xs"
  shows "fst (build_merkle_tree h (xs @ [last xs])) = fst (build_merkle_tree h xs)"
proof -
  have "pad (xs @ [last xs]) = pad xs" using assms by (simp add: pad_def)
  then show ?thesis
    using assms last_tree_above [of "xs @ [last xs]" h] last_tree_above [of xs h]
    by (simp add: root_of_tree length_greater_0_conv [symmetric] del: length_greater_0_conv)
qed

text \<open>The only entry of an epoch has the empty proof, which verifies only a digest of its own double.\<close>

lemma single_leaf_proof_fails:
  "merkle_proof 0 (snd (build_merkle_tree h [x])) = Inr [] \<and>
   (verify_merkle_proof h x [] (fst (build_merkle_tree h [x])) \<longleftrightarrow> x = h (x @ x))"
  by (simp add: build_merkle_tree_def merkle_proof_def verify_merkle_proof_def)

end
