(* ===== verification/Distributed_Ledger.thy ===== *)
theory Distributed_Ledger
  imports Merkle Py_Arith Machine
begin

section \<open>The distributed ledger of the R5 server\<close>

text \<open>
  \<open>DistributedLedger\<close>, \<open>ConsensusBroadcast\<close> and \<open>KeyCeremony\<close> of
  \<open>r5_hardened/IRON_OMEGA_R5/r5_distributed_crypto/merkle/distributed_ledger.py\<close>. The file is
  its lines; a line is blank, unreadable, or a JSON object, given by the entry it stands for and
  the names of the optional fields it lacks. An unreadable line is one that is not JSON or lacks
  a required field or has an unknown one. \<open>h\<close> is \<open>_sha256\<close> and \<open>dump\<close> is \<open>json.dumps\<close> of the
  canonical payload, so \<open>h (dump b)\<close> is a digest. The time at which an epoch was sealed is
  stored and never read; it is left out, as are the log messages.
\<close>

subsection \<open>Entries\<close>

record body =
  dl_id :: string
  dl_epoch :: int
  dl_sequence :: int
  dl_time :: string
  dl_tenant :: string
  dl_workflow :: string
  dl_decision :: string
  dl_mode :: string
  dl_score :: pyfloat
  dl_slope :: pyfloat
  dl_ces :: string
  dl_rationale :: string
  dl_ast :: string
  dl_previous :: string
  dl_type :: string
  dl_to_mode :: "string option"
  dl_policy :: string
  dl_signature :: "string option"
  dl_operator :: "string option"
  dl_nonce :: "string option"

record entry = body +
  dl_hash :: string

definition canonical_payload :: "'x body_scheme \<Rightarrow> body" where
  "canonical_payload b =
     (let c = body.truncate b in c\<lparr>dl_score := round6 (dl_score c), dl_slope := round6 (dl_slope c)\<rparr>)"

definition compute_entry_hash :: "(string \<Rightarrow> string) \<Rightarrow> (body \<Rightarrow> string) \<Rightarrow> 'x body_scheme \<Rightarrow> string" where
  "compute_entry_hash h dump b = h (dump (canonical_payload b))"

text \<open>
  \<open>create\<close>: identifier and time are fresh, the caller gives the other fields, and the hash
  covers them all.
\<close>

record fresh =
  fr_id :: string
  fr_time :: string

definition create_entry ::
  "(string \<Rightarrow> string) \<Rightarrow> (body \<Rightarrow> string) \<Rightarrow> string \<Rightarrow> int \<Rightarrow> int \<Rightarrow> fresh \<Rightarrow> body \<Rightarrow> entry" where
  "create_entry h dump prev sequence epoch fr b =
     (let b' = b\<lparr>dl_id := fr_id fr, dl_time := fr_time fr, dl_previous := prev, dl_sequence := sequence,
                dl_epoch := epoch\<rparr>
      in body.extend b' \<lparr>dl_hash = compute_entry_hash h dump b'\<rparr>)"

subsection \<open>Epochs\<close>

record epoch =
  ep_id :: int
  ep_entries :: "entry list"
  ep_root :: "string option"
  ep_sealed :: bool
  ep_levels :: "string list list"

definition EPOCH_SIZE :: nat where "EPOCH_SIZE = 100"

definition new_epoch :: "int \<Rightarrow> epoch" where
  "new_epoch n = \<lparr>ep_id = n, ep_entries = [], ep_root = None, ep_sealed = False, ep_levels = []\<rparr>"

definition is_full :: "epoch \<Rightarrow> bool" where
  "is_full ep \<longleftrightarrow> EPOCH_SIZE \<le> length (ep_entries ep)"

definition seal :: "(string \<Rightarrow> string) \<Rightarrow> epoch \<Rightarrow> epoch" where
  "seal h ep =
     (if ep_sealed ep then ep
      else let (root, levels) = build_merkle_tree h (map dl_hash (ep_entries ep))
           in ep\<lparr>ep_root := Some root, ep_levels := levels, ep_sealed := True\<rparr>)"

fun proof_at :: "string \<Rightarrow> nat \<Rightarrow> entry list \<Rightarrow> string list list \<Rightarrow> ledger_error + merkle_step list option" where
  "proof_at eid i [] levels = Inr None"
| "proof_at eid i (e # es) levels =
     (if dl_id e = eid then bindE (merkle_proof i levels) (\<lambda>p. Inr (Some p)) else proof_at eid (Suc i) es levels)"

definition get_proof :: "epoch \<Rightarrow> string \<Rightarrow> ledger_error + merkle_step list option" where
  "get_proof ep eid = (if \<not> ep_sealed ep then Inr None else proof_at eid 0 (ep_entries ep) (ep_levels ep))"

subsection \<open>The ledger and its file\<close>

datatype line = Blank | Garbage | Document entry "string list"

record dledger =
  le_epochs :: "epoch list"
  le_entries :: "entry list"
  le_file :: "line list option"

definition GENESIS_HASH :: string where
  "GENESIS_HASH = ''GENESIS_BLOCK_TENIR_R5_TAU_INVARIANT''"

definition head_hash :: "dledger \<Rightarrow> string" where
  "head_hash l = (if le_entries l = [] then GENESIS_HASH else dl_hash (last (le_entries l)))"

definition current_epoch :: "dledger \<Rightarrow> epoch" where
  "current_epoch l = last (le_epochs l)"

text \<open>\<open>setdefault\<close> and the defaults of the dataclass.\<close>

definition with_defaults :: "string list \<Rightarrow> entry \<Rightarrow> entry" where
  "with_defaults miss e =
     e\<lparr>dl_type := (if ''entry_type'' \<in> set miss then ''observation'' else dl_type e),
       dl_to_mode := (if ''transition_to_mode'' \<in> set miss then None else dl_to_mode e),
       dl_policy := (if ''policy_version'' \<in> set miss then ''unknown'' else dl_policy e),
       dl_signature := (if ''override_signature'' \<in> set miss then None else dl_signature e),
       dl_operator := (if ''override_operator'' \<in> set miss then None else dl_operator e),
       dl_nonce := (if ''override_nonce'' \<in> set miss then None else dl_nonce e),
       dl_hash := (if ''entry_hash'' \<in> set miss then [] else dl_hash e)\<rparr>"

fun read_lines :: "line list \<Rightarrow> ledger_error + entry list" where
  "read_lines [] = Inr []"
| "read_lines (Blank # ls) = read_lines ls"
| "read_lines (Garbage # ls) = Inl LedgerIntegrityError"
| "read_lines (Document e miss # ls) = bindE (read_lines ls) (\<lambda>es. Inr (with_defaults miss e # es))"

text \<open>The hash \<open>_load_from_disk\<close> computes: it passes neither \<open>override_signature\<close> nor \<open>override_operator\<close>.\<close>

definition loaded_hash :: "(string \<Rightarrow> string) \<Rightarrow> (body \<Rightarrow> string) \<Rightarrow> entry \<Rightarrow> string" where
  "loaded_hash h dump e = compute_entry_hash h dump (e\<lparr>dl_signature := None, dl_operator := None\<rparr>)"

fun check_loaded :: "(string \<Rightarrow> string) \<Rightarrow> (body \<Rightarrow> string) \<Rightarrow> string \<Rightarrow> entry list \<Rightarrow> bool" where
  "check_loaded h dump prev [] = True"
| "check_loaded h dump prev (e # es) \<longleftrightarrow>
     dl_previous e = prev \<and> loaded_hash h dump e = dl_hash e \<and> check_loaded h dump (dl_hash e) es"

text \<open>The epochs are rebuilt from the epoch numbers of the entries; full ones are sealed again.\<close>

definition stored_epoch :: "(string \<Rightarrow> string) \<Rightarrow> entry list \<Rightarrow> int \<Rightarrow> epoch" where
  "stored_epoch h es i =
     (let ep = (new_epoch i)\<lparr>ep_entries := filter (\<lambda>e. dl_epoch e = i) es\<rparr> in if is_full ep then seal h ep else ep)"

definition rebuild :: "(string \<Rightarrow> string) \<Rightarrow> entry list \<Rightarrow> ledger_error + epoch list" where
  "rebuild h es =
     (if es = [] then Inr [new_epoch 0]
      else
        (let top = fold max (map dl_epoch es) (dl_epoch (hd es));
             eps = map (stored_epoch h es) [0..top]
         in if eps = [] then Inl IndexError
            else Inr (if is_full (last eps) then eps @ [new_epoch (ep_id (last eps) + 1)] else eps)))"

definition load_ledger ::
  "(string \<Rightarrow> string) \<Rightarrow> (body \<Rightarrow> string) \<Rightarrow> line list option \<Rightarrow> ledger_error + dledger" where
  "load_ledger h dump file =
     (case file of
        None \<Rightarrow> Inr \<lparr>le_epochs = [new_epoch 0], le_entries = [], le_file = None\<rparr>
      | Some ls \<Rightarrow>
          bindE (read_lines ls) (\<lambda>es.
            if \<not> check_loaded h dump GENESIS_HASH es then Inl LedgerIntegrityError
            else bindE (rebuild h es) (\<lambda>eps.
              Inr \<lparr>le_epochs = eps, le_entries = es, le_file = Some ls\<rparr>)))"

subsection \<open>Appending\<close>

text \<open>
  The steps the three operations share. When the write raises, nothing is kept in memory. An
  epoch that is full after the append is sealed, unless it was sealed by hand before, and the
  next one is opened.
\<close>

definition put_entry :: "(string \<Rightarrow> string) \<Rightarrow> entry \<Rightarrow> dledger \<Rightarrow> dledger" where
  "put_entry h e l =
     (let ep = (current_epoch l)\<lparr>ep_entries := ep_entries (current_epoch l) @ [e]\<rparr> in
      \<lparr>le_epochs = butlast (le_epochs l) @
         (if is_full ep then [seal h ep, new_epoch (ep_id ep + 1)] else [ep]),
       le_entries = le_entries l @ [e],
       le_file = Some ((case le_file l of None \<Rightarrow> [] | Some ls \<Rightarrow> ls) @ [Document e []])\<rparr>)"

definition next_entry ::
  "(string \<Rightarrow> string) \<Rightarrow> (body \<Rightarrow> string) \<Rightarrow> fresh \<Rightarrow> body \<Rightarrow> dledger \<Rightarrow> entry" where
  "next_entry h dump fr b l =
     create_entry h dump (head_hash l) (int (length (ep_entries (current_epoch l)))) (ep_id (current_epoch l)) fr b"

definition append_entry ::
  "(string \<Rightarrow> string) \<Rightarrow> (body \<Rightarrow> string) \<Rightarrow> bool \<Rightarrow> fresh \<Rightarrow> body \<Rightarrow> dledger \<Rightarrow> (ledger_error + entry) \<times> dledger" where
  "append_entry h dump written fr b l =
     (let e = next_entry h dump fr b l in
      if \<not> written then (Inl OSError, l) else (Inr e, put_entry h e l))"

text \<open>\<open>append\<close>: an observation, without a nonce.\<close>

definition dl_append ::
  "(string \<Rightarrow> string) \<Rightarrow> (body \<Rightarrow> string) \<Rightarrow> bool \<Rightarrow> fresh \<Rightarrow> body \<Rightarrow> dledger \<Rightarrow> (ledger_error + entry) \<times> dledger" where
  "dl_append h dump written fr b =
     append_entry h dump written fr (b\<lparr>dl_type := ''observation'', dl_to_mode := None, dl_nonce := None\<rparr>)"

text \<open>\<open>append_sync\<close>: the event's digest stands for the syntax tree.\<close>

definition append_sync ::
  "(string \<Rightarrow> string) \<Rightarrow> (body \<Rightarrow> string) \<Rightarrow> bool \<Rightarrow> fresh \<Rightarrow> string \<Rightarrow> body \<Rightarrow> dledger \<Rightarrow>
     (ledger_error + entry) \<times> dledger" where
  "append_sync h dump written fr event b =
     append_entry h dump written fr
       (b\<lparr>dl_type := ''observation'', dl_to_mode := None, dl_ces := [], dl_ast := h event\<rparr>)"

definition append_control_transition ::
  "(string \<Rightarrow> string) \<Rightarrow> (body \<Rightarrow> string) \<Rightarrow> bool \<Rightarrow> fresh \<Rightarrow> string \<Rightarrow> string \<Rightarrow> string \<Rightarrow> string \<Rightarrow> string \<Rightarrow>
     string option \<Rightarrow> string option \<Rightarrow> string option \<Rightarrow> dledger \<Rightarrow> (ledger_error + entry) \<times> dledger" where
  "append_control_transition h dump written fr transition to_mode operator reason policy signature signer nonce =
     append_entry h dump written fr
       \<lparr>dl_id = [], dl_epoch = 0, dl_sequence = 0, dl_time = [], dl_tenant = ''system'',
        dl_workflow = ''CONTROL_TRANSITION'', dl_decision = transition, dl_mode = to_mode,
        dl_score = fzero, dl_slope = fzero, dl_ces = ''TRANSITION'', dl_rationale = operator @ '': '' @ reason,
        dl_ast = h (transition @ ''|'' @ operator @ ''|'' @ reason), dl_previous = [],
        dl_type = ''control_transition'', dl_to_mode = Some to_mode, dl_policy = policy,
        dl_signature = signature, dl_operator = signer, dl_nonce = nonce\<rparr>"

text \<open>\<open>seal_current_epoch\<close>: the root and the epoch it belongs to.\<close>

definition seal_current_epoch :: "(string \<Rightarrow> string) \<Rightarrow> dledger \<Rightarrow> (string option \<times> int) \<times> dledger" where
  "seal_current_epoch h l =
     (let ep = seal h (current_epoch l) in
      ((ep_root ep, ep_id ep),
       l\<lparr>le_epochs := butlast (le_epochs l) @ (if is_full ep then [ep, new_epoch (ep_id ep + 1)] else [ep])\<rparr>))"

subsection \<open>Reading\<close>

record inclusion =
  in_epoch :: int
  in_root :: "string option"
  in_path :: "merkle_step list"

fun find_proof :: "string \<Rightarrow> epoch list \<Rightarrow> ledger_error + inclusion option" where
  "find_proof eid [] = Inr None"
| "find_proof eid (ep # eps) =
     (if ep_sealed ep then
        bindE (get_proof ep eid) (\<lambda>p.
          case p of None \<Rightarrow> find_proof eid eps
          | Some p \<Rightarrow> Inr (Some \<lparr>in_epoch = ep_id ep, in_root = ep_root ep, in_path = p\<rparr>))
      else find_proof eid eps)"

definition get_merkle_proof :: "dledger \<Rightarrow> string \<Rightarrow> ledger_error + inclusion option" where
  "get_merkle_proof l eid = find_proof eid (le_epochs l)"

record report =
  rp_valid :: bool
  rp_count :: nat
  rp_broken :: nat
  rp_mismatches :: nat
  rp_epochs :: nat
  rp_sealed :: nat
  rp_roots :: "(int \<times> string option) list"

fun count_breaks :: "(string \<Rightarrow> string) \<Rightarrow> (body \<Rightarrow> string) \<Rightarrow> string \<Rightarrow> entry list \<Rightarrow> nat \<times> nat" where
  "count_breaks h dump prev [] = (0, 0)"
| "count_breaks h dump prev (e # es) =
     (let (b, m) = count_breaks h dump (dl_hash e) es in
      ((if dl_previous e \<noteq> prev then Suc b else b),
       (if compute_entry_hash h dump e \<noteq> dl_hash e then Suc m else m)))"

definition verify_full_chain :: "(string \<Rightarrow> string) \<Rightarrow> (body \<Rightarrow> string) \<Rightarrow> dledger \<Rightarrow> report" where
  "verify_full_chain h dump l =
     (let (b, m) = count_breaks h dump GENESIS_HASH (le_entries l);
          shut = filter ep_sealed (le_epochs l)
      in \<lparr>rp_valid = (b = 0 \<and> m = 0), rp_count = length (le_entries l), rp_broken = b, rp_mismatches = m,
          rp_epochs = length (le_epochs l), rp_sealed = length shut,
          rp_roots = map (\<lambda>ep. (ep_id ep, ep_root ep)) shut\<rparr>)"

text \<open>\<open>self._all_entries[-n:]\<close>: the slice of a negative number, of zero and of a positive one.\<close>

definition get_recent_entries :: "int \<Rightarrow> dledger \<Rightarrow> entry list" where
  "get_recent_entries n l =
     (let es = le_entries l in
      if 0 < n then drop (length es - nat n) es else drop (nat (- n)) es)"

definition get_epoch_root :: "dledger \<Rightarrow> int \<Rightarrow> string option" where
  "get_epoch_root l n =
     (case find (\<lambda>ep. ep_id ep = n \<and> ep_sealed ep) (le_epochs l) of None \<Rightarrow> None | Some ep \<Rightarrow> ep_root ep)"

fun last_mode :: "string \<Rightarrow> entry list \<Rightarrow> string" where
  "last_mode d [] = d"
| "last_mode d (e # es) =
     (case dl_to_mode e of
        Some m \<Rightarrow> if dl_type e = ''control_transition'' \<and> m \<noteq> [] then m
                  else if dl_mode e \<noteq> [] then dl_mode e else last_mode d es
      | None \<Rightarrow> if dl_mode e \<noteq> [] then dl_mode e else last_mode d es)"

definition recover_last_mode :: "string \<Rightarrow> dledger \<Rightarrow> string" where
  "recover_last_mode d l = last_mode d (rev (le_entries l))"

definition recover_used_nonces :: "dledger \<Rightarrow> string set" where
  "recover_used_nonces l =
     set (concat (map (\<lambda>e. case dl_nonce e of Some n \<Rightarrow> if n \<noteq> [] then [n] else [] | None \<Rightarrow> []) (le_entries l)))"

end
