(* ===== verification/Distributed_Ledger_Guarantees.thy ===== *)
theory Distributed_Ledger_Guarantees
  imports Distributed_Ledger
begin

section \<open>What the distributed ledger keeps\<close>

text \<open>
  Properties of every sequence of appends of any kind on a new ledger, with writes that fail in
  between: the ledger in memory is determined by the entries, the entries by the file, and a
  sealed epoch proves each of its entries.
\<close>

subsection \<open>The shape of a ledger\<close>

definition chunk :: "nat \<Rightarrow> 'a list \<Rightarrow> 'a list" where
  "chunk i xs = take EPOCH_SIZE (drop (EPOCH_SIZE * i) xs)"

definition epoch_holding :: "(string \<Rightarrow> string) \<Rightarrow> int \<Rightarrow> entry list \<Rightarrow> epoch" where
  "epoch_holding h n es =
     (let ep = (new_epoch n)\<lparr>ep_entries := es\<rparr> in if is_full ep then seal h ep else ep)"

definition epochs_of :: "(string \<Rightarrow> string) \<Rightarrow> entry list \<Rightarrow> epoch list" where
  "epochs_of h es = map (\<lambda>i. epoch_holding h (int i) (chunk i es)) [0..<Suc (length es div EPOCH_SIZE)]"

definition numbered :: "entry list \<Rightarrow> bool" where
  "numbered es \<longleftrightarrow>
     map dl_epoch es = map (\<lambda>k. int (k div EPOCH_SIZE)) [0..<length es] \<and>
     map dl_sequence es = map (\<lambda>k. int (k mod EPOCH_SIZE)) [0..<length es]"

fun chained :: "(string \<Rightarrow> string) \<Rightarrow> (body \<Rightarrow> string) \<Rightarrow> string \<Rightarrow> entry list \<Rightarrow> bool" where
  "chained h dump prev [] = True"
| "chained h dump prev (e # es) \<longleftrightarrow>
     dl_previous e = prev \<and> dl_hash e = compute_entry_hash h dump e \<and> chained h dump (dl_hash e) es"

definition on_disk :: "line list option \<Rightarrow> entry list \<Rightarrow> bool" where
  "on_disk file es \<longleftrightarrow> (case file of None \<Rightarrow> es = [] | Some ls \<Rightarrow> read_lines ls = Inr es)"

definition dl_good :: "(string \<Rightarrow> string) \<Rightarrow> (body \<Rightarrow> string) \<Rightarrow> dledger \<Rightarrow> bool" where
  "dl_good h dump l \<longleftrightarrow>
     le_epochs l = epochs_of h (le_entries l) \<and> numbered (le_entries l) \<and>
     chained h dump GENESIS_HASH (le_entries l) \<and> on_disk (le_file l) (le_entries l)"

lemma size_pos [simp]: "0 < EPOCH_SIZE"
  by (simp add: EPOCH_SIZE_def)

lemma chunk_append_old:
  "i < length xs div EPOCH_SIZE \<Longrightarrow> chunk i (xs @ ys) = chunk i xs"
proof -
  assume "i < length xs div EPOCH_SIZE"
  then have "Suc i * EPOCH_SIZE \<le> length xs"
    by (metis Suc_leI less_eq_div_iff_mult_less_eq size_pos)
  then have "EPOCH_SIZE * i + EPOCH_SIZE \<le> length xs" by (simp add: mult.commute)
  then show ?thesis by (simp add: chunk_def)
qed

lemma length_chunk: "length (chunk i xs) = min EPOCH_SIZE (length xs - EPOCH_SIZE * i)"
  by (simp add: chunk_def)

lemma length_last_chunk: "length (chunk (length xs div EPOCH_SIZE) xs) = length xs mod EPOCH_SIZE"
proof -
  have "length xs mod EPOCH_SIZE < EPOCH_SIZE" by simp
  then show ?thesis by (simp only: length_chunk minus_mult_div_eq_mod)
qed

lemma chunk_append_last:
  "chunk (length xs div EPOCH_SIZE) (xs @ [x]) = chunk (length xs div EPOCH_SIZE) xs @ [x]"
proof -
  have "length xs - EPOCH_SIZE * (length xs div EPOCH_SIZE) < EPOCH_SIZE"
    by (simp add: minus_mult_div_eq_mod)
  moreover have "EPOCH_SIZE * (length xs div EPOCH_SIZE) \<le> length xs" by simp
  ultimately show ?thesis by (simp add: chunk_def)
qed

lemma holding_id [simp]: "ep_id (epoch_holding h n es) = n"
  by (simp add: epoch_holding_def seal_def new_epoch_def Let_def case_prod_beta)

lemma holding_entries [simp]: "ep_entries (epoch_holding h n es) = es"
  by (simp add: epoch_holding_def seal_def new_epoch_def Let_def case_prod_beta)

lemma holding_open: "length es < EPOCH_SIZE \<Longrightarrow> epoch_holding h n es = (new_epoch n)\<lparr>ep_entries := es\<rparr>"
  by (simp add: epoch_holding_def is_full_def Let_def)

lemma epochs_of_last: "last (epochs_of h es) =
    (new_epoch (int (length es div EPOCH_SIZE)))\<lparr>ep_entries := chunk (length es div EPOCH_SIZE) es\<rparr>"
  by (simp add: epochs_of_def holding_open length_last_chunk)

lemma epochs_of_append:
  "epochs_of h (es @ [e]) = butlast (epochs_of h es) @
     (let ep = (last (epochs_of h es))\<lparr>ep_entries := ep_entries (last (epochs_of h es)) @ [e]\<rparr> in
      if is_full ep then [seal h ep, new_epoch (ep_id ep + 1)] else [ep])"
proof -
  let ?q = "length es div EPOCH_SIZE"
  let ?ep = "(new_epoch (int ?q))\<lparr>ep_entries := chunk ?q es @ [e]\<rparr>"
  have full: "is_full ?ep \<longleftrightarrow> Suc (length es mod EPOCH_SIZE) = EPOCH_SIZE"
  proof -
    have "length es mod EPOCH_SIZE < EPOCH_SIZE" by simp
    then have "EPOCH_SIZE \<le> Suc (length es mod EPOCH_SIZE) \<longleftrightarrow> Suc (length es mod EPOCH_SIZE) = EPOCH_SIZE" by linarith
    then show ?thesis by (simp add: is_full_def length_last_chunk)
  qed
  have old: "map (\<lambda>i. epoch_holding h (int i) (chunk i (es @ [e]))) [0..<?q] = butlast (epochs_of h es)"
    by (auto simp: epochs_of_def chunk_append_old)
  have held: "epoch_holding h (int ?q) (chunk ?q (es @ [e])) = (if is_full ?ep then seal h ?ep else ?ep)"
    by (simp add: chunk_append_last epoch_holding_def Let_def)
  show ?thesis
  proof (cases "is_full ?ep")
    case True
    then have m: "Suc (length es mod EPOCH_SIZE) = EPOCH_SIZE" using full by simp
    then have q: "Suc (length es) div EPOCH_SIZE = Suc ?q" by (simp add: div_Suc mod_Suc)
    have "length es = EPOCH_SIZE * ?q + length es mod EPOCH_SIZE" by simp
    with m have "Suc (length es) = EPOCH_SIZE * Suc ?q" by (simp only: mult_Suc_right)
    then have "chunk (Suc ?q) (es @ [e]) = []" by (simp add: chunk_def)
    then have "epoch_holding h (int (Suc ?q)) (chunk (Suc ?q) (es @ [e])) = new_epoch (int ?q + 1)"
      by (simp add: holding_open new_epoch_def add.commute)
    then show ?thesis
      using True q old held by (simp add: epochs_of_def [of h "es @ [e]"] epochs_of_last new_epoch_def Let_def)
  next
    case False
    then have "Suc (length es) div EPOCH_SIZE = ?q"
      using full mod_less_divisor [OF size_pos, of "length es"] by (simp add: div_Suc mod_Suc)
    then show ?thesis
      using False old held by (simp add: epochs_of_def [of h "es @ [e]"] epochs_of_last new_epoch_def Let_def)
  qed
qed

lemma numbered_append:
  "numbered (es @ [e]) \<longleftrightarrow> numbered es \<and> dl_epoch e = int (length es div EPOCH_SIZE) \<and>
     dl_sequence e = int (length es mod EPOCH_SIZE)"
  by (auto simp: numbered_def)

lemma chained_append:
  "chained h dump prev (es @ [e]) \<longleftrightarrow> chained h dump prev es \<and>
     dl_previous e = (if es = [] then prev else dl_hash (last es)) \<and> dl_hash e = compute_entry_hash h dump e"
  by (induction es arbitrary: prev) auto

lemma with_no_defaults [simp]: "with_defaults [] e = e"
  by (cases e) (simp add: with_defaults_def)

lemma read_lines_append: "read_lines (ls @ [Document e []]) = bindE (read_lines ls) (\<lambda>es. Inr (es @ [e]))"
proof (induction ls rule: read_lines.induct)
  case (4 e' miss ls)
  then show ?case by (cases "read_lines ls") auto
qed auto

subsection \<open>Loading a ledger\<close>

lemma upto_int: "[0..int m] = map int [0..<Suc m]"
  by (induction m) (auto simp: upto_rec2)

lemma top_epoch: "fold max (map (\<lambda>k. int (k div EPOCH_SIZE)) [0..<Suc n]) 0 = int (n div EPOCH_SIZE)"
proof (induction n)
  case (Suc n)
  have "n div EPOCH_SIZE \<le> Suc n div EPOCH_SIZE" by (rule div_le_mono) simp
  with Suc show ?case by simp
qed simp

lemma numbered_filter: "numbered es \<Longrightarrow> filter (\<lambda>e. dl_epoch e = int i) es = chunk i es"
proof (induction es rule: rev_induct)
  case (snoc e es)
  then have IH: "filter (\<lambda>e. dl_epoch e = int i) es = chunk i es"
    and e: "dl_epoch e = int (length es div EPOCH_SIZE)" by (simp_all add: numbered_append)
  consider "i < length es div EPOCH_SIZE" | "i = length es div EPOCH_SIZE" | "length es div EPOCH_SIZE < i" by linarith
  then show ?case
  proof cases
    case 3
    then have "length es < i * EPOCH_SIZE" by (simp add: div_less_iff_less_mult)
    then have "chunk i es = []" "chunk i (es @ [e]) = []" by (simp_all add: chunk_def mult.commute)
    with 3 e IH show ?thesis by simp
  qed (use e IH in \<open>simp_all add: chunk_append_old chunk_append_last\<close>)
qed (simp add: chunk_def)

lemma rebuild_numbered:
  assumes "numbered es"
  shows "rebuild h es = Inr (epochs_of h es)"
proof (cases "es = []")
  case True
  then show ?thesis by (simp add: rebuild_def epochs_of_def chunk_def holding_open new_epoch_def)
next
  case False
  then obtain n where n: "length es = Suc n" by (cases es) auto
  let ?m = "n div EPOCH_SIZE"
  have ids: "map dl_epoch es = map (\<lambda>k. int (k div EPOCH_SIZE)) [0..<Suc n]"
    using assms n by (simp add: numbered_def)
  have "dl_epoch (hd es) = hd (map dl_epoch es)" using False by (simp add: hd_map)
  also have "\<dots> = 0" unfolding ids by (simp add: upt_conv_Cons del: upt_Suc)
  finally have hd: "dl_epoch (hd es) = 0" .
  have top: "fold max (map dl_epoch es) (dl_epoch (hd es)) = int ?m"
    unfolding ids hd by (rule top_epoch)
  let ?eps = "map (\<lambda>i. epoch_holding h (int i) (chunk i es)) [0..<Suc ?m]"
  have eps: "map (stored_epoch h es) [0..int ?m] = ?eps"
    unfolding upto_int using assms by (simp add: numbered_filter epoch_holding_def stored_epoch_def)
  have len: "length (chunk ?m es) = Suc (n mod EPOCH_SIZE)"
  proof -
    have "n - EPOCH_SIZE * ?m = n mod EPOCH_SIZE" by (rule minus_mult_div_eq_mod)
    moreover have "n mod EPOCH_SIZE < EPOCH_SIZE" "EPOCH_SIZE * ?m \<le> n" by simp_all
    ultimately show ?thesis by (simp only: length_chunk n)
  qed
  have full: "is_full (epoch_holding h (int ?m) (chunk ?m es)) \<longleftrightarrow> Suc (n mod EPOCH_SIZE) = EPOCH_SIZE"
  proof -
    have "n mod EPOCH_SIZE < EPOCH_SIZE" by simp
    then have "EPOCH_SIZE \<le> Suc (n mod EPOCH_SIZE) \<longleftrightarrow> Suc (n mod EPOCH_SIZE) = EPOCH_SIZE" by linarith
    then show ?thesis by (simp add: is_full_def len)
  qed
  have all: "rebuild h es = Inr (if is_full (last ?eps) then ?eps @ [new_epoch (ep_id (last ?eps) + 1)] else ?eps)"
    using False by (simp add: rebuild_def Let_def top eps)
  show ?thesis
  proof (cases "Suc (n mod EPOCH_SIZE) = EPOCH_SIZE")
    case True
    then have q: "length es div EPOCH_SIZE = Suc ?m" by (simp add: n div_Suc mod_Suc)
    have "n = EPOCH_SIZE * ?m + n mod EPOCH_SIZE" by simp
    with True have "length es = EPOCH_SIZE * Suc ?m" unfolding n by (simp only: mult_Suc_right)
    then have "chunk (Suc ?m) es = []" by (simp add: chunk_def)
    then have "epoch_holding h (int (Suc ?m)) (chunk (Suc ?m) es) = new_epoch (int ?m + 1)"
      by (simp add: holding_open new_epoch_def add.commute)
    then show ?thesis using True full q all by (simp add: epochs_of_def)
  next
    case False
    have "n mod EPOCH_SIZE < EPOCH_SIZE" by simp
    with False have "length es div EPOCH_SIZE = ?m" by (simp add: n div_Suc mod_Suc)
    then show ?thesis using False full all by (simp add: epochs_of_def)
  qed
qed

definition overridden :: "entry \<Rightarrow> bool" where
  "overridden e \<longleftrightarrow> dl_signature e \<noteq> None \<or> dl_operator e \<noteq> None"

lemma chained_loads:
  "chained h dump prev es \<Longrightarrow> check_loaded h dump prev es \<longleftrightarrow> list_all (\<lambda>e. loaded_hash h dump e = dl_hash e) es"
  by (induction es arbitrary: prev) auto

lemma chained_hash: "chained h dump prev es \<Longrightarrow> e \<in> set es \<Longrightarrow> dl_hash e = compute_entry_hash h dump e"
  by (induction es arbitrary: prev) auto

lemma not_overridden: "\<not> overridden e \<Longrightarrow> e\<lparr>dl_signature := None, dl_operator := None\<rparr> = e"
  by (cases e) (simp add: overridden_def)

lemma overridden_payload:
  "overridden e \<Longrightarrow> canonical_payload (e\<lparr>dl_signature := None, dl_operator := None\<rparr>) \<noteq> canonical_payload e"
  by (cases e) (auto simp: overridden_def canonical_payload_def body.defs Let_def)

lemma load_good:
  assumes "dl_good h dump l"
  shows "load_ledger h dump (le_file l) =
    (if list_all (\<lambda>e. loaded_hash h dump e = dl_hash e) (le_entries l) then Inr l else Inl LedgerIntegrityError)"
proof (cases "le_file l")
  case None
  then have "le_entries l = []" using assms by (simp add: dl_good_def on_disk_def)
  with None assms show ?thesis
    by (cases l) (simp add: load_ledger_def dl_good_def epochs_of_def chunk_def holding_open, simp add: new_epoch_def)
next
  case (Some ls)
  then show ?thesis
    using assms chained_loads [of h dump GENESIS_HASH "le_entries l"] rebuild_numbered [of "le_entries l" h]
    by (cases l) (simp add: load_ledger_def dl_good_def on_disk_def)
qed

subsection \<open>Sequences of appends\<close>

datatype dl_op =
    Append bool fresh body
  | Append_Sync bool fresh string body
  | Control bool fresh string string string string string "string option" "string option" "string option"

fun dl_step :: "(string \<Rightarrow> string) \<Rightarrow> (body \<Rightarrow> string) \<Rightarrow> dledger \<Rightarrow> dl_op \<Rightarrow> dledger" where
  "dl_step h dump l (Append w fr b) = snd (dl_append h dump w fr b l)"
| "dl_step h dump l (Append_Sync w fr event b) = snd (append_sync h dump w fr event b l)"
| "dl_step h dump l (Control w fr t m oper why pol sig signer nonce) =
     snd (append_control_transition h dump w fr t m oper why pol sig signer nonce l)"

fun op_written :: "dl_op \<Rightarrow> bool" where
  "op_written (Append w fr b) = w"
| "op_written (Append_Sync w fr event b) = w"
| "op_written (Control w fr t m oper why pol sig signer nonce) = w"

fun op_fresh :: "dl_op \<Rightarrow> fresh" where
  "op_fresh (Append w fr b) = fr"
| "op_fresh (Append_Sync w fr event b) = fr"
| "op_fresh (Control w fr t m oper why pol sig signer nonce) = fr"

definition new_ledger :: dledger where
  "new_ledger = \<lparr>le_epochs = [new_epoch 0], le_entries = [], le_file = None\<rparr>"

lemma dl_step_cases:
  "dl_step h dump l r = l \<and> \<not> op_written r \<or>
   op_written r \<and> (\<exists>b. dl_step h dump l r = put_entry h (next_entry h dump (op_fresh r) b l) l)"
  by (cases r) (auto simp: dl_append_def append_sync_def append_control_transition_def append_entry_def Let_def)

lemma next_entry_hash: "dl_hash (next_entry h dump fr b l) = compute_entry_hash h dump (next_entry h dump fr b l)"
  by (simp add: next_entry_def create_entry_def compute_entry_hash_def canonical_payload_def body.defs Let_def)

lemma next_entry_simps:
  "dl_id (next_entry h dump fr b l) = fr_id fr"
  "dl_previous (next_entry h dump fr b l) = head_hash l"
  "dl_epoch (next_entry h dump fr b l) = ep_id (current_epoch l)"
  "dl_sequence (next_entry h dump fr b l) = int (length (ep_entries (current_epoch l)))"
  by (simp_all add: next_entry_def create_entry_def body.defs Let_def)

lemma put_entry_good:
  assumes g: "dl_good h dump l"
  shows "dl_good h dump (put_entry h (next_entry h dump fr b l) l)"
proof -
  let ?e = "next_entry h dump fr b l"
  have eps: "le_epochs l = epochs_of h (le_entries l)" using g by (simp add: dl_good_def)
  then have cur: "ep_id (current_epoch l) = int (length (le_entries l) div EPOCH_SIZE)"
    "length (ep_entries (current_epoch l)) = length (le_entries l) mod EPOCH_SIZE"
    by (simp_all add: current_epoch_def epochs_of_last length_last_chunk new_epoch_def)
  have "on_disk (le_file l) (le_entries l)" using g by (simp add: dl_good_def)
  then have disk: "on_disk (le_file (put_entry h ?e l)) (le_entries l @ [?e])"
    by (auto simp: on_disk_def put_entry_def Let_def read_lines_append split: option.splits)
  have "le_epochs (put_entry h ?e l) = epochs_of h (le_entries l @ [?e])"
    by (simp add: epochs_of_append put_entry_def current_epoch_def eps Let_def)
  moreover have "numbered (le_entries l @ [?e])"
    using g by (simp add: numbered_append next_entry_simps cur dl_good_def)
  moreover have "chained h dump GENESIS_HASH (le_entries l @ [?e])"
    using g next_entry_hash [of h dump fr b l] by (simp add: chained_append next_entry_simps head_hash_def dl_good_def)
  ultimately show ?thesis using disk by (simp add: dl_good_def put_entry_def Let_def)
qed

lemma dl_step_good: "dl_good h dump l \<Longrightarrow> dl_good h dump (dl_step h dump l r)"
  using dl_step_cases [of h dump l r] put_entry_good by metis

definition grows :: "dledger \<Rightarrow> dledger \<Rightarrow> bool" where
  "grows l l' \<longleftrightarrow> (\<exists>es. le_entries l' = le_entries l @ es)"

lemma dl_step_grows: "grows l (dl_step h dump l r)"
  using dl_step_cases [of h dump l r] by (auto simp: grows_def put_entry_def Let_def)

interpretation dled: machine_order "dl_step h dump" "dl_good h dump" grows
  for h dump
proof
  show "dl_good h dump (dl_step h dump l r)" if "dl_good h dump l" for l r
    using that by (rule dl_step_good)
  show "grows l l" for l by (simp add: grows_def)
  show "grows l l''" if "grows l l'" "grows l' l''" for l l' l''
    using that by (auto simp: grows_def)
  show "grows l (dl_step h dump l r)" for l r by (rule dl_step_grows)
qed

lemma new_ledger_good: "dl_good h dump new_ledger"
  by (simp add: dl_good_def new_ledger_def epochs_of_def chunk_def holding_open numbered_def on_disk_def)
    (simp add: new_epoch_def)

lemmas ledger_run_good = dled.run_inv [OF new_ledger_good]

lemma run_ids:
  "map dl_id (le_entries (foldl (dl_step h dump) l rs)) =
     map dl_id (le_entries l) @ map (\<lambda>r. fr_id (op_fresh r)) (filter op_written rs)"
proof (induction rs arbitrary: l)
  case (Cons r rs)
  show ?case
    using dl_step_cases [of h dump l r] by (auto simp: Cons.IH put_entry_def next_entry_simps Let_def)
qed simp

text \<open>The digests of the payloads, with and without the override, must not collide.\<close>

definition payload_digests_differ :: "(string \<Rightarrow> string) \<Rightarrow> (body \<Rightarrow> string) \<Rightarrow> entry list \<Rightarrow> bool" where
  "payload_digests_differ h dump es \<longleftrightarrow>
     list_all (\<lambda>e. canonical_payload (e\<lparr>dl_signature := None, dl_operator := None\<rparr>) \<noteq> canonical_payload e \<longrightarrow>
       h (dump (canonical_payload (e\<lparr>dl_signature := None, dl_operator := None\<rparr>))) \<noteq> h (dump (canonical_payload e))) es"

lemma good_reopens:
  assumes g: "dl_good h dump l" and d: "payload_digests_differ h dump (le_entries l)"
  shows "load_ledger h dump (le_file l) =
    (if list_ex overridden (le_entries l) then Inl LedgerIntegrityError else Inr l)"
proof -
  have "loaded_hash h dump e = dl_hash e \<longleftrightarrow> \<not> overridden e" if e: "e \<in> set (le_entries l)" for e
  proof -
    have "dl_hash e = compute_entry_hash h dump e"
      using g e by (auto simp: dl_good_def intro: chained_hash)
    moreover have "overridden e \<Longrightarrow> loaded_hash h dump e \<noteq> compute_entry_hash h dump e"
      using d e overridden_payload [of e]
      by (auto simp: payload_digests_differ_def list_all_iff loaded_hash_def compute_entry_hash_def)
    ultimately show ?thesis by (auto simp: loaded_hash_def not_overridden)
  qed
  then have "list_all (\<lambda>e. loaded_hash h dump e = dl_hash e) (le_entries l) \<longleftrightarrow> \<not> list_ex overridden (le_entries l)"
    by (auto simp: list_all_iff list_ex_iff)
  with load_good [OF g] show ?thesis by simp
qed

text \<open>
  A ledger that was only appended to is read back from its file exactly as it was in memory,
  entries, epochs and sealed roots, unless an entry carries an override signature or operator:
  the hash that is checked on loading leaves these two fields out, and the file is refused.
\<close>

theorem ledger_reopens:
  assumes "l = foldl (dl_step h dump) new_ledger rs" and "payload_digests_differ h dump (le_entries l)"
  shows "load_ledger h dump (le_file l) =
    (if list_ex overridden (le_entries l) then Inl LedgerIntegrityError else Inr l)"
  using good_reopens [OF ledger_run_good [of h dump rs]] assms by simp

text \<open>The running process sees nothing wrong with such a ledger.\<close>

lemma chained_counts: "chained h dump prev es \<Longrightarrow> count_breaks h dump prev es = (0, 0)"
  by (induction es arbitrary: prev) auto

lemma ledger_verifies: "rp_valid (verify_full_chain h dump (foldl (dl_step h dump) new_ledger rs))"
  using ledger_run_good [of h dump rs] by (simp add: verify_full_chain_def dl_good_def chained_counts Let_def)

subsection \<open>Proofs of inclusion\<close>

lemma proof_at_none: "eid \<notin> dl_id ` set es \<Longrightarrow> proof_at eid i es levels = Inr None"
  by (induction es arbitrary: i) auto

lemma proof_at_some:
  "distinct (map dl_id es) \<Longrightarrow> k < length es \<Longrightarrow>
     proof_at (dl_id (es ! k)) i es levels = bindE (merkle_proof (i + k) levels) (\<lambda>p. Inr (Some p))"
proof (induction es arbitrary: i k)
  case (Cons e es)
  show ?case
  proof (cases k)
    case (Suc j)
    then have j: "j < length es" using Cons.prems by simp
    then have "dl_id (es ! j) \<in> dl_id ` set es" by simp
    then have "dl_id e \<noteq> dl_id (es ! j)" using Cons.prems(1) by auto
    then show ?thesis using Suc Cons.IH [of j "Suc i"] Cons.prems j by simp
  qed simp
qed simp

lemma find_proof_skip:
  "list_all (\<lambda>ep. eid \<notin> dl_id ` set (ep_entries ep)) eps \<Longrightarrow> find_proof eid (eps @ eps') = find_proof eid eps'"
  by (induction eps) (auto simp: get_proof_def proof_at_none)

lemma holding_full:
  assumes "length es = EPOCH_SIZE"
  shows "epoch_holding h n es =
    \<lparr>ep_id = n, ep_entries = es, ep_root = Some (fst (build_merkle_tree h (map dl_hash es))), ep_sealed = True,
     ep_levels = snd (build_merkle_tree h (map dl_hash es))\<rparr>"
  using assms by (simp add: epoch_holding_def is_full_def seal_def new_epoch_def Let_def case_prod_beta)

lemma chunk_nth: "k < length es \<Longrightarrow> chunk (k div EPOCH_SIZE) es ! (k mod EPOCH_SIZE) = es ! k"
proof -
  assume "k < length es"
  then have "EPOCH_SIZE * (k div EPOCH_SIZE) \<le> length es"
    using times_div_less_eq_dividend [of EPOCH_SIZE k] by linarith
  then show ?thesis by (simp add: chunk_def)
qed

lemma chunk_others:
  assumes "distinct (map f es)" and "k < length es" and "i \<noteq> k div EPOCH_SIZE"
  shows "f (es ! k) \<notin> f ` set (chunk i es)"
proof
  assume "f (es ! k) \<in> f ` set (chunk i es)"
  then obtain j where j: "j < length (chunk i es)" "f (chunk i es ! j) = f (es ! k)"
    by (auto simp: in_set_conv_nth)
  then have b: "j < EPOCH_SIZE" "EPOCH_SIZE * i + j < length es" by (auto simp: length_chunk)
  then have "f (es ! (EPOCH_SIZE * i + j)) = f (es ! k)" using j(2) by (simp add: chunk_def)
  then have "map f es ! (EPOCH_SIZE * i + j) = map f es ! k" using b assms(2) by simp
  then have "EPOCH_SIZE * i + j = k" using assms(1,2) b by (subst (asm) nth_eq_iff_index_eq) auto
  with b(1) assms(3) show False by auto
qed

text \<open>
  C13. Every entry of a full epoch has an inclusion proof, which verifies against the root the ledger
  publishes for the epoch of the entry.
\<close>

theorem sealed_entries_proved:
  assumes l: "l = foldl (dl_step h dump) new_ledger rs" and ids: "distinct (map dl_id (le_entries l))"
    and k: "k < EPOCH_SIZE * (length (le_entries l) div EPOCH_SIZE)"
  shows "\<exists>r p. get_merkle_proof l (dl_id (le_entries l ! k)) =
      Inr (Some \<lparr>in_epoch = dl_epoch (le_entries l ! k), in_root = Some r, in_path = p\<rparr>) \<and>
    verify_merkle_proof h (dl_hash (le_entries l ! k)) p r \<and> get_epoch_root l (dl_epoch (le_entries l ! k)) = Some r"
proof -
  let ?es = "le_entries l" and ?S = "EPOCH_SIZE"
  let ?q = "k div ?S" and ?j = "k mod ?S" and ?eid = "dl_id (le_entries l ! k)"
  let ?c = "chunk ?q ?es" and ?f = "\<lambda>i. epoch_holding h (int i) (chunk i ?es)"
  have g: "dl_good h dump l" unfolding l by (rule ledger_run_good)
  have kl: "k < length ?es" using k times_div_less_eq_dividend [of ?S "length ?es"] by linarith
  have q: "?q < length ?es div ?S" using k by (simp add: div_less_iff_less_mult mult.commute)
  then have "Suc ?q * ?S \<le> length ?es" by (metis Suc_leI less_eq_div_iff_mult_less_eq size_pos)
  then have c: "length ?c = ?S" by (simp add: length_chunk mult.commute)
  have "map dl_epoch ?es ! k = int ?q" using g kl by (simp add: dl_good_def numbered_def)
  then have ep: "dl_epoch (?es ! k) = int ?q" using kl by simp
  have split: "le_epochs l = map ?f [0..<?q] @ ?f ?q # map ?f [Suc ?q..<Suc (length ?es div ?S)]"
  proof -
    have "[0..<Suc (length ?es div ?S)] = [0..<?q] @ ?q # [Suc ?q..<Suc (length ?es div ?S)]"
      using q upt_add_eq_append [of 0 ?q "Suc (length ?es div ?S) - ?q"] upt_conv_Cons [of ?q "Suc (length ?es div ?S)"]
      by (simp del: upt_Suc)
    then show ?thesis using g by (simp only: dl_good_def epochs_of_def list.map map_append)
  qed
  have cn: "?c ! ?j = ?es ! k" using kl by (rule chunk_nth)
  have j: "?j < length ?c" using c by simp
  have "distinct (map dl_id ?c)"
    using ids by (simp add: chunk_def take_map [symmetric] drop_map [symmetric])
  then have at: "proof_at ?eid 0 ?c levels = bindE (merkle_proof ?j levels) (\<lambda>p. Inr (Some p))" for levels
    using proof_at_some [of ?c ?j 0 levels] j cn by simp
  let ?t = "build_merkle_tree h (map dl_hash ?c)"
  obtain p where p: "merkle_proof ?j (snd ?t) = Inr p" "verify_merkle_proof h (dl_hash (?es ! k)) p (fst ?t)"
    using merkle_complete [of "map dl_hash ?c" ?j h] c j cn by (auto simp: EPOCH_SIZE_def)
  have "list_all (\<lambda>ep. ?eid \<notin> dl_id ` set (ep_entries ep)) (map ?f [0..<?q])"
    using chunk_others [OF ids kl] by (auto simp: list_all_iff)
  then have "get_merkle_proof l ?eid = Inr (Some \<lparr>in_epoch = int ?q, in_root = Some (fst ?t), in_path = p\<rparr>)"
    using p(1) at by (simp add: get_merkle_proof_def split find_proof_skip holding_full [OF c] get_proof_def)
  moreover have "get_epoch_root l (int ?q) = Some (fst ?t)"
  proof -
    have "find (\<lambda>ep. ep_id ep = int ?q \<and> ep_sealed ep) (map ?f [0..<?q]) = None"
      by (auto simp: find_None_iff)
    then have "find (\<lambda>ep. ep_id ep = int ?q \<and> ep_sealed ep) (le_epochs l) = Some (?f ?q)"
      by (simp add: split find_append holding_full [OF c])
    then show ?thesis by (simp add: get_epoch_root_def holding_full [OF c])
  qed
  ultimately show ?thesis using p(2) ep by auto
qed

subsection \<open>What peers agree on\<close>

lemma root_singleton: "xs \<noteq> [] \<Longrightarrow> length (last (tree_above h xs)) = 1"
proof (induction h xs rule: tree_above.induct)
  case (1 h xs)
  show ?case
  proof (cases "length xs \<le> 1")
    case True
    then show ?thesis using "1.prems" by (cases xs) (auto simp: tree_above.simps)
  next
    case False
    have "pair_up h (pad xs) \<noteq> []" using False by (simp flip: length_greater_0_conv add: length_parents)
    with "1.IH" [OF False] False show ?thesis by (simp add: last_tree_above)
  qed
qed


subsection \<open>Where the ledger does not do what it says\<close>

text \<open>
  The file is not protected against what the loading hash leaves out: rewriting the override
  signature and the operator of every entry goes unnoticed.
\<close>

lemma forged_override_loads:
  "check_loaded h dump prev (map (\<lambda>e. e\<lparr>dl_signature := sig e, dl_operator := signer e\<rparr>) es) \<longleftrightarrow>
   check_loaded h dump prev es"
  by (induction es arbitrary: prev)
    (simp_all add: loaded_hash_def compute_entry_hash_def canonical_payload_def body.defs Let_def)

text \<open>The cap of 200 on recent entries does not bound a request for zero of them.\<close>

lemma recent_zero_is_everything: "get_recent_entries (min 0 200) l = le_entries l"
  by (simp add: get_recent_entries_def)

text \<open>
  An epoch sealed by hand stays the current one: its root is the one of that moment, so an entry
  appended later belongs to a sealed epoch whose root does not cover it.
\<close>

lemma sealed_by_hand_stays:
  assumes "le_epochs l \<noteq> []" "ep_sealed (current_epoch l)" "ep_root (current_epoch l) = Some r"
    and "Suc (length (ep_entries (current_epoch l))) < EPOCH_SIZE"
  shows "current_epoch (put_entry h e l) = (current_epoch l)\<lparr>ep_entries := ep_entries (current_epoch l) @ [e]\<rparr>"
  using assms by (simp add: put_entry_def current_epoch_def is_full_def Let_def)

subsection \<open>Ledgers at work\<close>

definition dld_body :: body where
  "dld_body =
     \<lparr>dl_id = [], dl_epoch = 0, dl_sequence = 0, dl_time = [], dl_tenant = ''t'', dl_workflow = ''w'',
      dl_decision = ''allow'', dl_mode = ''SHADOW_PASSIVE'', dl_score = Fin 1, dl_slope = Fin 0, dl_ces = ''REST'',
      dl_rationale = [], dl_ast = [], dl_previous = [], dl_type = [], dl_to_mode = None, dl_policy = ''p'',
      dl_signature = None, dl_operator = None, dl_nonce = None\<rparr>"

definition dld_observed :: dl_op where
  "dld_observed = Append True \<lparr>fr_id = ''a'', fr_time = ''t1''\<rparr> dld_body"

definition dld_enforced :: dl_op where
  "dld_enforced = Control True \<lparr>fr_id = ''b'', fr_time = ''t2''\<rparr> ''x'' ''ENFORCE'' ''op'' ''r'' ''p'' (Some ''sig'') (Some ''op'') (Some ''n'')"

text \<open>A text of a payload that tells apart what the demonstration needs told apart.\<close>

definition dld_dump :: "body \<Rightarrow> string" where
  "dld_dump b = dl_id b @ (case dl_signature b of None \<Rightarrow> ''-'' | Some x \<Rightarrow> x)"

theorem ledger_reopens_witness:
  "load_ledger id dld_dump (le_file (foldl (dl_step id dld_dump) new_ledger [dld_observed])) =
     Inr (foldl (dl_step id dld_dump) new_ledger [dld_observed]) \<and>
   load_ledger id dld_dump (le_file (foldl (dl_step id dld_dump) new_ledger [dld_observed, dld_enforced])) =
     Inl LedgerIntegrityError"
proof -
  have es: "payload_digests_differ id dld_dump (le_entries (foldl (dl_step id dld_dump) new_ledger [dld_observed]))"
    "\<not> list_ex overridden (le_entries (foldl (dl_step id dld_dump) new_ledger [dld_observed]))"
    "payload_digests_differ id dld_dump (le_entries (foldl (dl_step id dld_dump) new_ledger [dld_observed, dld_enforced]))"
    "list_ex overridden (le_entries (foldl (dl_step id dld_dump) new_ledger [dld_observed, dld_enforced]))"
    by (simp_all add: dld_observed_def dld_enforced_def dl_append_def append_control_transition_def append_entry_def
        next_entry_def create_entry_def put_entry_def new_ledger_def payload_digests_differ_def canonical_payload_def
        dld_dump_def dld_body_def overridden_def body.defs Let_def)
  show ?thesis
    using ledger_reopens [OF refl es(1)] ledger_reopens [OF refl es(3)] es(2,4) by simp
qed

definition dld_ops :: "dl_op list" where
  "dld_ops = map (\<lambda>i. Append True \<lparr>fr_id = nat_str i, fr_time = ''t''\<rparr> dld_body) [0..<100]"

theorem sealed_entries_proved_witness:
  "let l = foldl (dl_step id dld_dump) new_ledger dld_ops in
   \<exists>r p. get_merkle_proof l (nat_str 42) =
       Inr (Some \<lparr>in_epoch = dl_epoch (le_entries l ! 42), in_root = Some r, in_path = p\<rparr>) \<and>
     verify_merkle_proof id (dl_hash (le_entries l ! 42)) p r \<and> get_epoch_root l (dl_epoch (le_entries l ! 42)) = Some r"
proof -
  let ?l = "foldl (dl_step id dld_dump) new_ledger dld_ops"
  have ids: "map dl_id (le_entries ?l) = map nat_str [0..<100]"
    by (simp add: run_ids dld_ops_def filter_map comp_def new_ledger_def)
  then have len: "length (le_entries ?l) = 100" by (metis length_map length_upt diff_zero)
  have "map dl_id (le_entries ?l) ! 42 = nat_str 42" unfolding ids by simp
  then have at: "dl_id (le_entries ?l ! 42) = nat_str 42" using len by simp
  have "distinct (map dl_id (le_entries ?l))"
    unfolding ids by (auto simp: distinct_map intro: inj_onI dest: nat_str_inj)
  moreover have "42 < EPOCH_SIZE * (length (le_entries ?l) div EPOCH_SIZE)" by (simp add: len EPOCH_SIZE_def)
  ultimately show ?thesis using sealed_entries_proved [OF refl, of id dld_dump dld_ops 42] unfolding Let_def at by blast
qed

text \<open>Two peers with the same two records.\<close>

definition dld_digest :: "string \<Rightarrow> string" where
  "dld_digest t = replicate 64 (if t = ''a'' then CHR ''1'' else if t = ''b'' then CHR ''2'' else CHR ''3'')"

definition dld_entry :: "string \<Rightarrow> pyfloat \<Rightarrow> entry" where
  "dld_entry i x = body.extend (dld_body\<lparr>dl_id := i, dl_score := x\<rparr>) \<lparr>dl_hash = dld_digest i\<rparr>"

text \<open>A score that is rounded to 1 in the payload.\<close>

definition dld_close :: pyfloat where
  "dld_close = Fin (1 + 1 / 2 ^ 40)"

definition dld_epoch :: "int \<Rightarrow> pyfloat \<Rightarrow> epoch" where
  "dld_epoch n x = (new_epoch n)\<lparr>ep_entries := [dld_entry ''a'' x, dld_entry ''b'' (Fin 1)]\<rparr>"

lemma dld_rounded: "round6 (Fin 1) = Fin 1" "round6 dld_close = Fin 1"
  by code_simp+


end
