(* ===== verification/Policy_Engine.thy ===== *)
theory Policy_Engine
  imports Py_Arith Prelude
begin

section \<open>The policy engine\<close>

text \<open>
  \<open>PolicyEngine\<close> of \<open>tenir_governance/policy_engine.py\<close>, with the mode, decision and state names
  of \<open>nomenclature.py\<close>. Thresholds are floats, counts are integers. \<open>PolicyViolation\<close> is the
  name of the check that raised it. The rationale of a decision is the list of the reasons whose
  texts the code joins. \<open>fingerprint\<close> is a digest of the fields and is left out.
\<close>

subsection \<open>The policy and its validation\<close>

record policy =
  pe_version :: string
  pe_scope :: string
  pe_tau_floor :: pyfloat
  pe_epsilon :: pyfloat
  pe_s_alert :: pyfloat
  pe_s_block :: pyfloat
  pe_ds_alert :: pyfloat
  pe_d2s_alert :: pyfloat
  pe_budget :: int
  pe_window :: int
  pe_os_alert :: pyfloat
  pe_os_block :: pyfloat
  pe_confidence :: pyfloat
  pe_epoch_size :: int

text \<open>The defaults, each decimal as the float nearest to it.\<close>

definition default_engine :: policy where
  "default_engine =
     \<lparr>pe_version = ''tenir-canonical-v1.0.0'', pe_scope = ''canonical'',
      pe_tau_floor = Fin (7566047373982433 / 18014398509481984),
      pe_epsilon = Fin (4722366482869645 / 4722366482869645213696),
      pe_s_alert = Fin (8106479329266893 / 9007199254740992), pe_s_block = Fin (3 / 4),
      pe_ds_alert = Fin (- 3602879701896397 / 72057594037927936),
      pe_d2s_alert = Fin (- 1080863910568919 / 36028797018963968), pe_budget = 5, pe_window = 8,
      pe_os_alert = Fin (3152519739159347 / 9007199254740992),
      pe_os_block = Fin (3602879701896397 / 18014398509481984),
      pe_confidence = Fin (7385903388887613 / 9007199254740992), pe_epoch_size = 100\<rparr>"

text \<open>The characters \<open>str.strip\<close> removes, up to code point 255.\<close>

definition py_space :: "char \<Rightarrow> bool" where
  "py_space c \<longleftrightarrow> char_in 9 13 c \<or> char_in 28 32 c \<or> of_char c \<in> {133 :: nat, 160}"

definition blank :: "string \<Rightarrow> bool" where
  "blank s \<longleftrightarrow> list_all py_space s"

definition check_version :: "policy \<Rightarrow> bool" where
  "check_version p \<longleftrightarrow> \<not> blank (pe_version p) \<and> \<not> blank (pe_scope p)"

definition in_range :: "pyfloat \<Rightarrow> pyfloat option \<Rightarrow> pyfloat option \<Rightarrow> bool" where
  "in_range x lo hi \<longleftrightarrow>
     ffinite x \<and> (case lo of None \<Rightarrow> True | Some l \<Rightarrow> \<not> flt x l) \<and> (case hi of None \<Rightarrow> True | Some u \<Rightarrow> \<not> flt u x)"

definition check_floats :: "policy \<Rightarrow> bool" where
  "check_floats p \<longleftrightarrow>
     in_range (pe_epsilon p) (Some (Fin (2535301200456459 / 2535301200456458802993406410752))) None \<and>
     in_range (pe_s_alert p) (Some fzero) None \<and>
     in_range (pe_s_block p) (Some fzero) None \<and> in_range (pe_tau_floor p) (Some fzero) (Some (Fin 1)) \<and>
     in_range (pe_ds_alert p) None (Some fzero) \<and> in_range (pe_d2s_alert p) None (Some fzero) \<and>
     in_range (pe_os_alert p) (Some fzero) (Some (Fin 1)) \<and> in_range (pe_os_block p) (Some fzero) (Some (Fin 1)) \<and>
     in_range (pe_confidence p) (Some fzero) (Some (Fin 1))"

definition check_integers :: "policy \<Rightarrow> bool" where
  "check_integers p \<longleftrightarrow> 3 \<le> pe_window p \<and> 1 \<le> pe_budget p \<and> 10 \<le> pe_epoch_size p"

definition check_ordering :: "policy \<Rightarrow> bool" where
  "check_ordering p \<longleftrightarrow>
     \<not> flt (pe_s_alert p) (pe_s_block p) \<and> \<not> flt (pe_os_alert p) (pe_os_block p) \<and>
     \<not> fle (pe_s_block p) (pe_tau_floor p)"

datatype violation = VersionCheck | FloatCheck | IntegerCheck | OrderingCheck | VersionMismatch

definition validate_policy :: "policy \<Rightarrow> violation + unit" where
  "validate_policy p =
     (if \<not> check_version p then Inl VersionCheck else if \<not> check_floats p then Inl FloatCheck
      else if \<not> check_integers p then Inl IntegerCheck else if \<not> check_ordering p then Inl OrderingCheck
      else Inr ())"

definition assert_version_matches :: "policy \<Rightarrow> string \<Rightarrow> violation + unit" where
  "assert_version_matches p v = (if pe_version p \<noteq> v then Inl VersionMismatch else Inr ())"

subsection \<open>The membrane decision\<close>

datatype mode = SHADOW_OFF | SHADOW_PASSIVE | SHADOW_CRITICAL | ENFORCE

datatype membrane_decision =
    NOT_EVALUATED | ALLOW | ALLOW_WITH_ALERT | ALLOW_WITH_INTENDED_BLOCK | BLOCK

datatype alert_reason = AlertS | AlertSlope | AlertCurvature | AlertHorizon | AlertOptions

datatype block_reason = BlockS | TauBreach | BlockHorizon | BlockOptions

datatype membrane_rationale =
    Disabled
  | Stable
  | BlockedBecause "block_reason list"
  | IntendedBecause "block_reason list"
  | AdvisoryBecause "alert_reason list"

text \<open>What is measured: the score, its two derivatives, the option space and the events left to zero.\<close>

record measurement =
  ms_s :: pyfloat
  ms_ds :: pyfloat
  ms_d2s :: pyfloat
  ms_options :: "pyfloat option"
  ms_horizon :: "int option"

definition given :: "bool \<Rightarrow> 'a \<Rightarrow> 'a list" where
  "given b x = (if b then [x] else [])"

definition alert_reasons :: "policy \<Rightarrow> measurement \<Rightarrow> alert_reason list" where
  "alert_reasons p m =
     given (fle (ms_s m) (pe_s_alert p)) AlertS @ given (fle (ms_ds m) (pe_ds_alert p)) AlertSlope @
     given (fle (ms_d2s m) (pe_d2s_alert p)) AlertCurvature @
     given (case ms_horizon m of None \<Rightarrow> False | Some n \<Rightarrow> n \<le> pe_budget p) AlertHorizon @
     given (case ms_options m of None \<Rightarrow> False | Some x \<Rightarrow> fle x (pe_os_alert p)) AlertOptions"

definition block_reasons :: "policy \<Rightarrow> measurement \<Rightarrow> block_reason list" where
  "block_reasons p m =
     given (fle (ms_s m) (pe_s_block p)) BlockS @ given (fle (ms_s m) (pe_tau_floor p)) TauBreach @
     given (case ms_horizon m of None \<Rightarrow> False | Some n \<Rightarrow> n \<le> max 1 (pe_budget p div 2)) BlockHorizon @
     given (case ms_options m of None \<Rightarrow> False | Some x \<Rightarrow> fle x (pe_os_block p)) BlockOptions"

definition evaluate_membrane ::
  "policy \<Rightarrow> measurement \<Rightarrow> mode \<Rightarrow> membrane_decision \<times> membrane_rationale \<times> bool \<times> bool" where
  "evaluate_membrane p m md =
     (if md = SHADOW_OFF then (NOT_EVALUATED, Disabled, False, False)
      else
        (let alerts = alert_reasons p m; blocks = block_reasons p m; alert = alerts \<noteq> []; block = blocks \<noteq> [];
             (decision, why) =
               (if \<not> alert \<and> \<not> block then (ALLOW, Stable)
                else if block then
                  (if md = ENFORCE then (BLOCK, BlockedBecause blocks)
                   else (ALLOW_WITH_INTENDED_BLOCK, IntendedBecause blocks))
                else (ALLOW_WITH_ALERT, AdvisoryBecause alerts))
         in (decision, why, alert, block)))"

subsection \<open>Classification\<close>

datatype ces_state = REST | METABOLIZING | TENSION | SIGNAL_CONFLICT | COLLAPSE

definition classify_ces ::
  "policy \<Rightarrow> pyfloat \<Rightarrow> pyfloat option \<Rightarrow> pyfloat option \<Rightarrow> pyfloat option \<Rightarrow> ces_state" where
  "classify_ces p s options pressure velocity =
     (let os = (case options of None \<Rightarrow> Fin 1 | Some x \<Rightarrow> x) in
      if flt s (pe_tau_floor p) then COLLAPSE
      else if fle s (pe_s_block p) then
        (if fle os (Fin (5404319552844595 / 18014398509481984)) then COLLAPSE
         else if fle (Fin (2476979795053773 / 4503599627370496)) os then SIGNAL_CONFLICT else TENSION)
      else if flt s (pe_s_alert p) then
        (if fle (Fin (3152519739159347 / 4503599627370496)) os \<and>
            flt s (fdiv (fadd (pe_s_block p) (pe_s_alert p)) (Fin 2)) then SIGNAL_CONFLICT
         else TENSION)
      else if \<not> fle (fmul (Fin (5 / 2)) (pe_s_alert p)) s then
        (case (pressure, velocity) of
           (Some x, Some y) \<Rightarrow> if fle (Fin 1) (fmul x y) then METABOLIZING else REST
         | _ \<Rightarrow> REST)
      else REST)"

text \<open>\<open>K / (P * V + epsilon)\<close>; \<open>None\<close> for a division by zero.\<close>

definition capacity_s :: "policy \<Rightarrow> pyfloat \<Rightarrow> pyfloat \<Rightarrow> pyfloat \<Rightarrow> pyfloat option" where
  "capacity_s p pressure velocity capacity =
     (let d = fadd (fmul pressure velocity) (pe_epsilon p) in if d = fzero then None else Some (fdiv capacity d))"

subsection \<open>What a validated policy guarantees\<close>

text \<open>A worse measurement: every component that is there is at most as large, and none is lost.\<close>

definition opt_le :: "('a \<Rightarrow> 'a \<Rightarrow> bool) \<Rightarrow> 'a option \<Rightarrow> 'a option \<Rightarrow> bool" where
  "opt_le le x y \<longleftrightarrow> (case y of None \<Rightarrow> True | Some b \<Rightarrow> (case x of None \<Rightarrow> False | Some a \<Rightarrow> le a b))"

definition worse :: "measurement \<Rightarrow> measurement \<Rightarrow> bool" where
  "worse m' m \<longleftrightarrow>
     fle (ms_s m') (ms_s m) \<and> fle (ms_ds m') (ms_ds m) \<and> fle (ms_d2s m') (ms_d2s m) \<and>
     opt_le fle (ms_options m') (ms_options m) \<and> opt_le (\<le>) (ms_horizon m') (ms_horizon m)"

fun decision_rank :: "membrane_decision \<Rightarrow> nat" where
  "decision_rank NOT_EVALUATED = 0"
| "decision_rank ALLOW = 0"
| "decision_rank ALLOW_WITH_ALERT = 1"
| "decision_rank ALLOW_WITH_INTENDED_BLOCK = 2"
| "decision_rank BLOCK = 2"

lemma given_mono: "(b \<Longrightarrow> c) \<Longrightarrow> set (given b x) \<subseteq> set (given c x)"
  by (cases b; cases c) (simp_all add: given_def)

lemma opt_le_holds:
  "opt_le le x y \<Longrightarrow> (\<And>a b. le a b \<Longrightarrow> P b \<Longrightarrow> P a) \<Longrightarrow> (case y of None \<Rightarrow> False | Some b \<Rightarrow> P b) \<Longrightarrow>
     (case x of None \<Rightarrow> False | Some a \<Rightarrow> P a)"
  by (auto simp: opt_le_def split: option.splits)

lemma worse_reasons:
  assumes "worse m' m"
  shows "set (alert_reasons p m) \<subseteq> set (alert_reasons p m')" "set (block_reasons p m) \<subseteq> set (block_reasons p m')"
proof -
  from assms have w: "fle (ms_s m') (ms_s m)" "fle (ms_ds m') (ms_ds m)" "fle (ms_d2s m') (ms_d2s m)"
    and o: "opt_le fle (ms_options m') (ms_options m)" and n: "opt_le (\<le>) (ms_horizon m') (ms_horizon m)"
    by (auto simp: worse_def)
  note f = fle_trans [OF w(1)] fle_trans [OF w(2)] fle_trans [OF w(3)]
  have os: "(case ms_options m of None \<Rightarrow> False | Some x \<Rightarrow> fle x c) \<Longrightarrow>
      (case ms_options m' of None \<Rightarrow> False | Some x \<Rightarrow> fle x c)" for c
    by (rule opt_le_holds [OF o]) (auto intro: fle_trans)
  have hz: "(case ms_horizon m of None \<Rightarrow> False | Some x \<Rightarrow> x \<le> c) \<Longrightarrow>
      (case ms_horizon m' of None \<Rightarrow> False | Some x \<Rightarrow> x \<le> c)" for c :: int
    by (rule opt_le_holds [OF n]) auto
  show "set (alert_reasons p m) \<subseteq> set (alert_reasons p m')"
    unfolding alert_reasons_def set_append by (intro Un_mono given_mono) (rule f os hz, assumption)+
  show "set (block_reasons p m) \<subseteq> set (block_reasons p m')"
    unfolding block_reasons_def set_append by (intro Un_mono given_mono) (rule f os hz, assumption)+
qed

text \<open>
  The decision is monotone: whatever the policy, a measurement that is worse in every component
  gets a decision that is at least as severe, in the same mode.
\<close>

theorem membrane_monotone:
  assumes "worse m' m"
  shows "decision_rank (fst (evaluate_membrane p m md)) \<le> decision_rank (fst (evaluate_membrane p m' md))"
proof -
  from worse_reasons [OF assms, of p]
  have "alert_reasons p m \<noteq> [] \<Longrightarrow> alert_reasons p m' \<noteq> []" "block_reasons p m \<noteq> [] \<Longrightarrow> block_reasons p m' \<noteq> []"
    by auto
  then show ?thesis by (auto simp: evaluate_membrane_def Let_def)
qed

theorem membrane_monotone_witness:
  "decision_rank (fst (evaluate_membrane default_engine
       \<lparr>ms_s = Fin 1, ms_ds = Fin 0, ms_d2s = Fin 0, ms_options = None, ms_horizon = None\<rparr> ENFORCE)) \<le>
   decision_rank (fst (evaluate_membrane default_engine
       \<lparr>ms_s = Fin (1 / 2), ms_ds = Fin (- 1), ms_d2s = Fin 0, ms_options = Some (Fin 1), ms_horizon = Some 1\<rparr> ENFORCE))"
  by (rule membrane_monotone) (simp add: worse_def opt_le_def)

lemma blocks_alert:
  assumes v: "validate_policy p = Inr ()" and b: "block_reasons p m \<noteq> []"
  shows "alert_reasons p m \<noteq> []"
proof -
  from v have fin: "ffinite (pe_s_alert p)" "ffinite (pe_s_block p)" "ffinite (pe_tau_floor p)" "ffinite (pe_os_alert p)"
      "ffinite (pe_os_block p)" and n: "1 \<le> pe_budget p" and o: "\<not> flt (pe_s_alert p) (pe_s_block p)"
      "\<not> flt (pe_os_alert p) (pe_os_block p)" "\<not> fle (pe_s_block p) (pe_tau_floor p)"
    by (auto simp: validate_policy_def check_floats_def in_range_def check_integers_def check_ordering_def split: if_splits)
  have s: "fle (pe_s_block p) (pe_s_alert p)" "fle (pe_tau_floor p) (pe_s_alert p)" "fle (pe_os_block p) (pe_os_alert p)"
    using fin o by (auto simp: ffinite_def split: pyfloat.splits)
  have h: "max 1 (pe_budget p div 2) \<le> pe_budget p" using n by auto
  from b consider "fle (ms_s m) (pe_s_block p) \<or> fle (ms_s m) (pe_tau_floor p)"
    | k where "ms_horizon m = Some k" "k \<le> max 1 (pe_budget p div 2)"
    | x where "ms_options m = Some x" "fle x (pe_os_block p)"
    by (auto simp: block_reasons_def given_def split: if_splits option.splits)
  then show ?thesis
  proof cases
    case 1
    then have "fle (ms_s m) (pe_s_alert p)" using s fle_trans by blast
    then show ?thesis by (simp add: alert_reasons_def given_def)
  next
    case 2
    then show ?thesis using h by (auto simp: alert_reasons_def given_def)
  next
    case 3
    then have "fle x (pe_os_alert p)" using s(3) fle_trans by blast
    with 3 show ?thesis by (simp add: alert_reasons_def given_def)
  qed
qed

text \<open>
  C18. Under a validated policy the answer is consistent: the decision is one of the four of the mode,
  BLOCK appears in ENFORCE only, exactly when a block is intended, and an intended block always
  comes with an alert.
\<close>

theorem membrane_consistent:
  assumes v: "validate_policy p = Inr ()" and e: "evaluate_membrane p m md = (decision, why, alert, block)"
  shows "(block \<longrightarrow> alert) \<and> (decision = BLOCK \<longleftrightarrow> md = ENFORCE \<and> block) \<and>
    (decision = ALLOW_WITH_INTENDED_BLOCK \<longleftrightarrow> md \<noteq> ENFORCE \<and> block) \<and>
    (decision = ALLOW_WITH_ALERT \<longleftrightarrow> alert \<and> \<not> block) \<and>
    (decision = NOT_EVALUATED \<longleftrightarrow> md = SHADOW_OFF)"
  using e blocks_alert [OF v, of m]
  by (cases "md = SHADOW_OFF"; cases "alert_reasons p m = []"; cases "block_reasons p m = []"; cases "md = ENFORCE")
    (auto simp: evaluate_membrane_def Let_def)

lemma default_valid: "validate_policy default_engine = Inr ()"
  by (simp add: validate_policy_def check_version_def check_floats_def check_integers_def check_ordering_def in_range_def
      default_engine_def blank_def py_space_def char_in_def ffinite_def fzero_def)

theorem membrane_consistent_witness:
  "fst (evaluate_membrane default_engine
     \<lparr>ms_s = Fin (1 / 2), ms_ds = Fin 0, ms_d2s = Fin 0, ms_options = None, ms_horizon = None\<rparr> ENFORCE) = BLOCK"
proof -
  let ?m = "\<lparr>ms_s = Fin (1 / 2), ms_ds = Fin 0, ms_d2s = Fin 0, ms_options = None, ms_horizon = None\<rparr>"
  obtain d w a b where e: "evaluate_membrane default_engine ?m ENFORCE = (d, w, a, b)" by (metis surj_pair)
  have "snd (snd (snd (evaluate_membrane default_engine ?m ENFORCE)))"
    by (simp add: evaluate_membrane_def block_reasons_def given_def default_engine_def)
  with membrane_consistent [OF default_valid e] e show ?thesis by simp
qed

subsection \<open>Where the code and its comments part\<close>

text \<open>A score that is not a number passes every comparison: the membrane allows it.\<close>

lemma nan_score_allowed:
  "fst (evaluate_membrane p \<lparr>ms_s = NaN, ms_ds = NaN, ms_d2s = NaN, ms_options = Some NaN, ms_horizon = None\<rparr> ENFORCE) = ALLOW"
  by (simp add: evaluate_membrane_def alert_reasons_def block_reasons_def given_def)

text \<open>With a very high score the state is REST whatever the activity, against the documented partition.\<close>

lemma busy_but_rest:
  assumes "\<not> flt s (pe_tau_floor p)" "\<not> fle s (pe_s_block p)" "\<not> flt s (pe_s_alert p)"
    and "fle (fmul (Fin (5 / 2)) (pe_s_alert p)) s"
  shows "classify_ces p s options pressure velocity = REST"
  using assms by (simp add: classify_ces_def)

end
