(* ===== verification/R5_Server.thy ===== *)
theory R5_Server
  imports Distributed_Ledger_Guarantees Policy_Engine
begin

section \<open>The R5 server: oaths, consensus on roots, mode transitions\<close>

text \<open>
  \<open>KeyCeremony\<close> and \<open>ConsensusBroadcast\<close> of
  \<open>r5_hardened/IRON_OMEGA_R5/r5_distributed_crypto/merkle/distributed_ledger.py\<close>,
  \<open>TrajectoryKernel\<close> of \<open>core/trajectory.py\<close> and the start-up, adjudication and transition
  endpoints of \<open>r5_server.py\<close>. \<open>kdf\<close> is the raw SHA-256 digest and \<open>mac\<close> the hexadecimal
  HMAC-SHA256. What adjudication receives from the language front end, the kernel of the runtime
  object and the text of the rationale are inputs; the graph database and the web sockets, whose
  failures the code ignores, are left out.
\<close>

subsection \<open>Oaths\<close>

definition OATH_TEXT :: string where
  "OATH_TEXT = ''J'' @ [CHR 0x27] @ ''assume la friction. Je pr'' @ [CHR 0xE9] @ ''serve le TAU.''"

definition strip :: "string \<Rightarrow> string" where
  "strip s = rev (dropWhile py_space (rev (dropWhile py_space s)))"

record ceremony =
  kc_secret :: string
  kc_used :: "string set"

definition new_ceremony :: "string \<Rightarrow> string set \<Rightarrow> ledger_error + ceremony" where
  "new_ceremony secret used =
     (if blank secret then Inl ValueError else Inr \<lparr>kc_secret = secret, kc_used = used\<rparr>)"

definition epoch_key :: "(string \<Rightarrow> string) \<Rightarrow> ceremony \<Rightarrow> int \<Rightarrow> string" where
  "epoch_key kdf kc epoch = kdf (kc_secret kc @ int_str epoch)"

definition oath_payload :: "string \<Rightarrow> int \<Rightarrow> string \<Rightarrow> string \<Rightarrow> string \<Rightarrow> string" where
  "oath_payload oath epoch operator nonce stamp =
     oath @ ''|'' @ int_str epoch @ ''|'' @ operator @ ''|'' @ nonce @ ''|'' @ stamp"

record signed_oath =
  so_signature :: string
  so_epoch :: string
  so_operator :: string
  so_stamp :: string
  so_nonce :: string
  so_hash :: string

definition sign_oath ::
  "(string \<Rightarrow> string) \<Rightarrow> (string \<Rightarrow> string) \<Rightarrow> (string \<Rightarrow> string \<Rightarrow> string) \<Rightarrow> ceremony \<Rightarrow> string \<Rightarrow> int \<Rightarrow> string \<Rightarrow>
     string \<Rightarrow> string \<Rightarrow> ledger_error + signed_oath" where
  "sign_oath h kdf mac kc oath epoch operator nonce stamp =
     (if strip oath \<noteq> strip OATH_TEXT then Inl ValueError
      else let m = oath_payload oath epoch operator nonce stamp in
        Inr \<lparr>so_signature = mac (epoch_key kdf kc epoch) m, so_epoch = int_str epoch, so_operator = operator,
             so_stamp = stamp, so_nonce = nonce, so_hash = h m\<rparr>)"

definition verify_oath ::
  "(string \<Rightarrow> string) \<Rightarrow> (string \<Rightarrow> string \<Rightarrow> string) \<Rightarrow> ceremony \<Rightarrow> string \<Rightarrow> string \<Rightarrow> int \<Rightarrow> string \<Rightarrow> string \<Rightarrow> string \<Rightarrow>
     bool \<times> ceremony" where
  "verify_oath kdf mac kc oath signature epoch operator nonce stamp =
     (if nonce \<in> kc_used kc then (False, kc)
      else if signature = mac (epoch_key kdf kc epoch) (oath_payload oath epoch operator nonce stamp)
      then (True, kc\<lparr>kc_used := insert nonce (kc_used kc)\<rparr>)
      else (False, kc))"

subsection \<open>Consensus on epoch roots\<close>

text \<open>The endpoint \<open>validate_epoch\<close> of a peer.\<close>

definition validate_epoch :: "dledger \<Rightarrow> int \<Rightarrow> string \<Rightarrow> bool" where
  "validate_epoch l n rt \<longleftrightarrow>
     (case find (\<lambda>ep. ep_id ep = n \<and> ep_sealed ep) (le_epochs l) of None \<Rightarrow> False | Some ep \<Rightarrow> ep_root ep = Some rt)"

datatype vote = Agrees | Disagrees | Unreachable

definition validate_with_peer :: "bool option \<Rightarrow> vote" where
  "validate_with_peer answer = (case answer of None \<Rightarrow> Unreachable | Some b \<Rightarrow> if b then Agrees else Disagrees)"

record consensus_report =
  cs_consensus :: bool
  cs_agreements :: nat
  cs_disagreements :: nat
  cs_errors :: nat

definition broadcast_epoch_root :: "bool option list \<Rightarrow> consensus_report" where
  "broadcast_epoch_root answers =
     (let votes = map validate_with_peer answers; n = length answers;
          yes = length (filter (\<lambda>v. v = Agrees) votes)
      in \<lparr>cs_consensus = (n div 2 + 1 \<le> yes \<or> n = 0), cs_agreements = yes,
          cs_disagreements = length (filter (\<lambda>v. v = Disagrees) votes),
          cs_errors = length (filter (\<lambda>v. v = Unreachable) votes)\<rparr>)"

text \<open>A peer that disagrees is outvoted; nothing is raised for human review.\<close>

lemma dissent_is_outvoted:
  "cs_consensus (broadcast_epoch_root [Some True, Some True, Some False]) \<and>
   cs_disagreements (broadcast_epoch_root [Some True, Some True, Some False]) = 1"
  by (simp add: broadcast_epoch_root_def validate_with_peer_def)

subsection \<open>The trajectory kernel\<close>

record kernel =
  tk_epsilon :: pyfloat
  tk_history :: "pyfloat list"
  tk_slopes :: "pyfloat list"

text \<open>\<open>math.ceil\<close>, which raises on infinities and NaN.\<close>

definition fceil :: "pyfloat \<Rightarrow> int option" where
  "fceil x = (case x of Fin r \<Rightarrow> Some \<lceil>r\<rceil> | _ \<Rightarrow> None)"

definition trajectory_compute ::
  "pyfloat \<Rightarrow> pyfloat \<Rightarrow> pyfloat \<Rightarrow> kernel \<Rightarrow> measurement option \<times> kernel" where
  "trajectory_compute pressure velocity capacity k =
     (let d = fadd (fmul pressure velocity) (tk_epsilon k) in
      if d = fzero then (None, k)
      else
        (let s = fdiv capacity d;
             hist = tk_history k @ [s];
             ds = (if 2 \<le> length hist then fsub s (last (tk_history k)) else fzero);
             slopes = (if 2 \<le> length hist then tk_slopes k @ [ds] else tk_slopes k);
             d2s = (if 2 \<le> length slopes then fsub (last slopes) (last (butlast slopes)) else fzero);
             k' = k\<lparr>tk_history := hist, tk_slopes := slopes\<rparr>;
             m = \<lparr>ms_s = round6 s, ms_ds = round6 ds, ms_d2s = round6 d2s, ms_options = None, ms_horizon = None\<rparr>
         in if flt ds fzero then
              (case fceil (fdiv s (fabs ds)) of
                 None \<Rightarrow> (None, k')
               | Some n \<Rightarrow> (Some (m\<lparr>ms_horizon := Some (max 0 n)\<rparr>), k'))
            else (Some m, k')))"

subsection \<open>The server\<close>

fun mode_name :: "mode \<Rightarrow> string" where
  "mode_name SHADOW_OFF = ''SHADOW_OFF''"
| "mode_name SHADOW_PASSIVE = ''SHADOW_PASSIVE''"
| "mode_name SHADOW_CRITICAL = ''SHADOW_CRITICAL''"
| "mode_name ENFORCE = ''ENFORCE''"

definition modes :: "mode list" where
  "modes = [SHADOW_OFF, SHADOW_PASSIVE, SHADOW_CRITICAL, ENFORCE]"

text \<open>\<open>_policy_mode\<close>: the mode of a name, passive when it is none.\<close>

definition policy_mode :: "string \<Rightarrow> mode" where
  "policy_mode s = (case find (\<lambda>m. mode_name m = s) modes of None \<Rightarrow> SHADOW_PASSIVE | Some m \<Rightarrow> m)"

fun decision_name :: "membrane_decision \<Rightarrow> string" where
  "decision_name NOT_EVALUATED = ''not_evaluated''"
| "decision_name ALLOW = ''allow''"
| "decision_name ALLOW_WITH_ALERT = ''allow_with_alert''"
| "decision_name ALLOW_WITH_INTENDED_BLOCK = ''allow_with_intended_block''"
| "decision_name BLOCK = ''block''"

record server =
  sr_mode :: string
  sr_ledger :: dledger
  sr_ceremony :: ceremony
  sr_operator :: string
  sr_policy :: policy
  sr_kernel :: kernel
  sr_tenant :: string

datatype start_error =
  NoToken | NoOperator | NoSuchPolicy | NoSecret | BadLedger ledger_error | BadMode | EmptyLedger

record settings =
  en_token :: string
  en_operator :: string
  en_profile :: string
  en_secret :: string
  en_mode :: string
  en_tenant :: string

text \<open>
  The start of the process, from the settings in the form in which the code compares them: the
  profile in lower case, the mode in upper case. A profile other than the default one names a
  constructor that \<open>PolicyEngine\<close> does not have.
\<close>

definition start_up ::
  "(string \<Rightarrow> string) \<Rightarrow> (body \<Rightarrow> string) \<Rightarrow> settings \<Rightarrow> line list option \<Rightarrow> start_error + server" where
  "start_up h dump en file =
     (if length (en_token en) < 32 then Inl NoToken
      else if strip (en_operator en) = [] then Inl NoOperator
      else if en_profile en \<notin> {''default'', ''canonical''} then Inl NoSuchPolicy
      else if length (strip (en_secret en)) < 32 then Inl NoSecret
      else case load_ledger h dump file of
        Inl x \<Rightarrow> Inl (BadLedger x)
      | Inr l \<Rightarrow>
          if en_mode en \<notin> set (map mode_name modes) then Inl BadMode
          else if le_entries l = [] \<and> en_mode en \<in> {''SHADOW_CRITICAL'', ''ENFORCE''} then Inl EmptyLedger
          else Inr \<lparr>sr_mode = recover_last_mode (en_mode en) l, sr_ledger = l,
                    sr_ceremony = \<lparr>kc_secret = strip (en_secret en), kc_used = recover_used_nonces l\<rparr>,
                    sr_operator = strip (en_operator en), sr_policy = default_engine,
                    sr_kernel = \<lparr>tk_epsilon = pe_epsilon default_engine, tk_history = [], tk_slopes = []\<rparr>,
                    sr_tenant = en_tenant en\<rparr>)"

datatype http = OK | Refused nat

record transition_request =
  tq_operator :: string
  tq_target :: string
  tq_oath :: string
  tq_signature :: string
  tq_nonce :: string
  tq_stamp :: string

text \<open>\<open>request_transition\<close>: the answer is 200 or the status of the exception.\<close>

definition request_transition ::
  "(string \<Rightarrow> string) \<Rightarrow> (body \<Rightarrow> string) \<Rightarrow> (string \<Rightarrow> string) \<Rightarrow> (string \<Rightarrow> string \<Rightarrow> string) \<Rightarrow> bool \<Rightarrow> fresh \<Rightarrow>
     transition_request \<Rightarrow> server \<Rightarrow> http \<times> server" where
  "request_transition h dump kdf mac written fr q sr =
     (if tq_target q \<notin> set (map mode_name modes) then (Refused 422, sr)
      else if sr_operator sr = [] \<or> tq_operator q \<noteq> sr_operator sr then (Refused 403, sr)
      else if tq_target q = ''ENFORCE'' \<and> sr_mode sr \<noteq> ''SHADOW_CRITICAL'' then (Refused 409, sr)
      else if tq_target q = sr_mode sr then (Refused 409, sr)
      else
        (let (ok, kc) = verify_oath kdf mac (sr_ceremony sr) (tq_oath q) (tq_signature q)
               (ep_id (current_epoch (sr_ledger sr))) (tq_operator q) (tq_nonce q) (tq_stamp q);
             sr' = sr\<lparr>sr_ceremony := kc\<rparr>
         in if \<not> ok then (Refused 403, sr')
            else
              (case append_control_transition h dump written fr (sr_mode sr @ ''_TO_'' @ tq_target q) (tq_target q)
                 (tq_operator q) ''operator-authenticated oath transition'' (pe_version (sr_policy sr))
                 (Some (tq_signature q)) (Some (tq_operator q)) (Some (tq_nonce q)) (sr_ledger sr) of
                 (Inl _, _) \<Rightarrow> (Refused 503, sr')
               | (Inr _, l) \<Rightarrow> (OK, sr'\<lparr>sr_ledger := l, sr_mode := tq_target q\<rparr>))))"

text \<open>
  What adjudication is given: which input was present, whether the validator or the language
  front end accepted it, the numbers in it, and for a runtime object the decision of the kernel.
\<close>

datatype kernel_decision = KPass | KFlag | KHardVeto

record adjudication =
  aj_runtime :: "kernel_decision option"
  aj_raw :: bool
  aj_accepted :: bool
  aj_pressure :: pyfloat
  aj_velocity :: pyfloat
  aj_capacity :: pyfloat
  aj_options :: pyfloat
  aj_workflow :: string
  aj_ast :: string

text \<open>\<open>_scalar_to_ces_state\<close>, each constant as the float nearest to the decimal.\<close>

definition scalar_to_ces :: "pyfloat \<Rightarrow> pyfloat \<Rightarrow> pyfloat \<Rightarrow> string" where
  "scalar_to_ces s ds options =
     (if fle (Fin (3 / 2)) s \<and> flt (fabs ds) (Fin (3602879701896397 / 72057594037927936)) then ''REST''
      else if fle (Fin (3602879701896397 / 4503599627370496)) s then
        (if flt (Fin (3602879701896397 / 36028797018963968)) (fabs ds) then ''TENSION'' else ''METABOLIZING'')
      else if fle (Fin (3602879701896397 / 9007199254740992)) s then ''METABOLIZING''
      else if flt options (Fin (3602879701896397 / 36028797018963968)) \<and>
              flt ds (Fin (- 3602879701896397 / 18014398509481984)) then ''COLLAPSE''
      else if flt (Fin (5404319552844595 / 18014398509481984)) ds \<and> flt s (Fin (5404319552844595 / 9007199254740992))
      then ''SCHIZOPHRENIA'' else ''COLLAPSE'')"

definition final_decision :: "string \<Rightarrow> kernel_decision option \<Rightarrow> membrane_decision \<Rightarrow> membrane_decision" where
  "final_decision md gate d =
     (case gate of
        Some KHardVeto \<Rightarrow> if md = ''ENFORCE'' then BLOCK else ALLOW_WITH_INTENDED_BLOCK
      | Some KFlag \<Rightarrow> if d = ALLOW then ALLOW_WITH_ALERT else d
      | _ \<Rightarrow> d)"

text \<open>
  \<open>adjudicate\<close>: the status and, when one was taken, the decision. \<open>explain\<close> is the text of the
  rationale; 500 stands for an exception that no handler catches.
\<close>

definition server_adjudicate ::
  "(string \<Rightarrow> string) \<Rightarrow> (body \<Rightarrow> string) \<Rightarrow> (measurement \<Rightarrow> membrane_decision \<Rightarrow> string) \<Rightarrow> bool \<Rightarrow> fresh \<Rightarrow> adjudication \<Rightarrow>
     server \<Rightarrow> (http \<times> membrane_decision option) \<times> server" where
  "server_adjudicate h dump explain written fr a sr =
     (if sr_mode sr = ''SHADOW_OFF'' then ((OK, Some NOT_EVALUATED), sr)
      else if (aj_runtime a = None) = (\<not> aj_raw a) then ((Refused 422, None), sr)
      else if aj_runtime a = None \<and> sr_mode sr = ''ENFORCE'' then ((Refused 422, None), sr)
      else if \<not> aj_accepted a then ((Refused 422, None), sr)
      else
        (let (t, k) = trajectory_compute (aj_pressure a) (aj_velocity a) (aj_capacity a) (sr_kernel sr);
             sr' = sr\<lparr>sr_kernel := k\<rparr>
         in case t of
              None \<Rightarrow> ((Refused 500, None), sr')
            | Some m \<Rightarrow>
                (let m' = m\<lparr>ms_options := Some (aj_options a)\<rparr>;
                     d = final_decision (sr_mode sr) (aj_runtime a)
                           (fst (evaluate_membrane (sr_policy sr) m' (policy_mode (sr_mode sr))))
                 in case dl_append h dump written fr
                        (\<lparr>dl_id = [], dl_epoch = 0, dl_sequence = 0, dl_time = [], dl_tenant = sr_tenant sr,
                          dl_workflow = aj_workflow a, dl_decision = decision_name d, dl_mode = sr_mode sr,
                          dl_score = ms_s m, dl_slope = ms_ds m,
                          dl_ces = scalar_to_ces (ms_s m) (ms_ds m) (aj_options a), dl_rationale = explain m' d,
                          dl_ast = aj_ast a, dl_previous = [], dl_type = [], dl_to_mode = None,
                          dl_policy = pe_version (sr_policy sr), dl_signature = None, dl_operator = None,
                          dl_nonce = None\<rparr>) (sr_ledger sr) of
                      (Inl _, _) \<Rightarrow> ((Refused 500, None), sr')
                    | (Inr _, l) \<Rightarrow> ((OK, Some d), sr'\<lparr>sr_ledger := l\<rparr>))))"

subsection \<open>One signature, one request\<close>

text \<open>Fields joined by bars, as in the payload of an oath.\<close>

fun joined :: "string list \<Rightarrow> string" where
  "joined [] = []"
| "joined [x] = x"
| "joined (x # y # ys) = x @ CHR ''|'' # joined (y # ys)"

definition bar_free :: "string \<Rightarrow> bool" where
  "bar_free s \<longleftrightarrow> CHR ''|'' \<notin> set s"

lemma oath_joined: "oath_payload oath e operator nonce stamp = joined [oath, int_str e, operator, nonce, stamp]"
  by (simp add: oath_payload_def)

lemma bars_in_joined: "xs \<noteq> [] \<Longrightarrow> Suc (count_list (joined xs) (CHR ''|'')) = length xs + sum_list (map (\<lambda>x. count_list x (CHR ''|'')) xs)"
  by (induction xs rule: joined.induct) auto

lemma no_bars: "sum_list (map (\<lambda>x. count_list x (CHR ''|'')) xs) = 0 \<longleftrightarrow> list_all bar_free xs"
  by (auto simp: list_all_iff bar_free_def count_list_0_iff)

lemma bar_split: "bar_free x \<Longrightarrow> bar_free u \<Longrightarrow> x @ CHR ''|'' # r = u @ CHR ''|'' # s \<Longrightarrow> x = u \<and> r = s"
proof (induction x arbitrary: u)
  case Nil
  then show ?case by (cases u) (auto simp: bar_free_def)
next
  case (Cons c x)
  then show ?case by (cases u) (auto simp: bar_free_def)
qed

lemma joined_inj_free:
  "length xs = length ys \<Longrightarrow> list_all bar_free xs \<Longrightarrow> list_all bar_free ys \<Longrightarrow> joined xs = joined ys \<Longrightarrow> xs = ys"
proof (induction xs arbitrary: ys rule: joined.induct)
  case (2 x)
  then show ?case by (cases ys rule: joined.cases) auto
next
  case (3 x y zs)
  then obtain u v ws where ys: "ys = u # v # ws" by (cases ys rule: joined.cases) auto
  then have "x = u \<and> joined (y # zs) = joined (v # ws)" using 3 by (intro bar_split) auto
  moreover have "y # zs = v # ws" using 3 ys calculation by (intro "3.IH") auto
  ultimately show ?case using ys by simp
qed simp

text \<open>If one side has no bars inside its fields, neither has the other, as the bars are as many.\<close>

lemma joined_inj:
  assumes "length xs = length ys" "list_all bar_free ys" "joined xs = joined ys"
  shows "xs = ys"
proof (cases "xs = []")
  case False
  then have "ys \<noteq> []" using assms(1) by auto
  have "sum_list (map (\<lambda>x. count_list x (CHR ''|'')) xs) = sum_list (map (\<lambda>x. count_list x (CHR ''|'')) ys)"
    using bars_in_joined [OF False] bars_in_joined [OF \<open>ys \<noteq> []\<close>] assms(1,3) by simp
  then have "list_all bar_free xs" using assms(2) by (simp flip: no_bars)
  then show ?thesis using assms joined_inj_free by blast
qed (use assms in simp)

lemma bar_free_nat_str: "bar_free (nat_str n)"
proof (induction n rule: nat_str.induct)
  case (1 n)
  have n: "CHR ''|'' \<noteq> char_of (48 + d)" if "d < 10" for d :: nat
  proof
    assume "CHR ''|'' = char_of (48 + d)"
    then have "of_char (char_of (48 + d)) = (of_char CHR ''|'' :: nat)" by metis
    with that show False by (simp add: of_char_of)
  qed
  then have d: "bar_free [char_of (48 + m mod 10)]" for m :: nat using n [of "m mod 10"] by (simp add: bar_free_def)
  show ?case
  proof (cases "n < 10")
    case True
    then show ?thesis using d [of n] by (simp add: nat_str.simps [of n])
  next
    case False
    then show ?thesis using 1 d [of n] by (simp add: nat_str.simps [of n] bar_free_def)
  qed
qed

lemma bar_free_int_str: "bar_free (int_str n)"
  using bar_free_nat_str by (simp add: int_str_def bar_free_def)

lemma bar_free_strip: "bar_free (strip s) \<Longrightarrow> bar_free s"
proof -
  have bar: "\<not> py_space CHR ''|''" by (simp add: py_space_def char_in_def)
  have keep: "CHR ''|'' \<in> set (dropWhile py_space xs)" if "CHR ''|'' \<in> set xs" for xs
    using that bar by (induction xs) auto
  show "bar_free (strip s) \<Longrightarrow> bar_free s"
    unfolding strip_def bar_free_def using keep [of s] keep [of "rev (dropWhile py_space s)"] by auto
qed

lemma oath_text_bar_free: "strip oath = strip OATH_TEXT \<Longrightarrow> bar_free oath"
proof (rule bar_free_strip)
  assume s: "strip oath = strip OATH_TEXT"
  have "set (dropWhile P xs) \<subseteq> set xs" for P and xs :: string by (metis set_dropWhileD subsetI)
  then have "set (strip OATH_TEXT) \<subseteq> set OATH_TEXT" unfolding strip_def by (metis set_rev subset_trans)
  moreover have "bar_free OATH_TEXT" by (simp add: bar_free_def OATH_TEXT_def)
  ultimately show "bar_free (strip oath)" using s by (auto simp: bar_free_def)
qed

text \<open>The requests to verify an oath, with any arguments, one after the other on one ceremony.\<close>

record attempt =
  at_oath :: string
  at_signature :: string
  at_epoch :: int
  at_operator :: string
  at_nonce :: string
  at_stamp :: string

fun verify_all ::
  "(string \<Rightarrow> string) \<Rightarrow> (string \<Rightarrow> string \<Rightarrow> string) \<Rightarrow> ceremony \<Rightarrow> attempt list \<Rightarrow> attempt list \<times> ceremony" where
  "verify_all kdf mac kc [] = ([], kc)"
| "verify_all kdf mac kc (a # as) =
     (let (ok, kc1) = verify_oath kdf mac kc (at_oath a) (at_signature a) (at_epoch a) (at_operator a) (at_nonce a)
            (at_stamp a);
          (good, kc2) = verify_all kdf mac kc1 as
      in (if ok then a # good else good, kc2))"

definition authentic :: "(string \<Rightarrow> string) \<Rightarrow> (string \<Rightarrow> string \<Rightarrow> string) \<Rightarrow> ceremony \<Rightarrow> attempt \<Rightarrow> bool" where
  "authentic kdf mac kc a \<longleftrightarrow>
     at_signature a = mac (epoch_key kdf kc (at_epoch a))
       (oath_payload (at_oath a) (at_epoch a) (at_operator a) (at_nonce a) (at_stamp a))"

lemma verify_oath_True:
  "verify_oath kdf mac kc oath sig e oper nonce stamp = (True, kc1) \<Longrightarrow>
     nonce \<notin> kc_used kc \<and> sig = mac (epoch_key kdf kc e) (oath_payload oath e oper nonce stamp) \<and>
     kc1 = kc\<lparr>kc_used := insert nonce (kc_used kc)\<rparr>"
  by (auto simp: verify_oath_def split: if_splits)

lemma verify_oath_False: "verify_oath kdf mac kc oath sig e oper nonce stamp = (False, kc1) \<Longrightarrow> kc1 = kc"
  by (auto simp: verify_oath_def split: if_splits)

lemma verify_all_good:
  "verify_all kdf mac kc as = (good, kc') \<Longrightarrow>
     distinct (map at_nonce good) \<and> list_all (\<lambda>a. at_nonce a \<notin> kc_used kc \<and> authentic kdf mac kc a) good"
proof (induction as arbitrary: kc good kc')
  case (Cons a as)
  obtain ok kc1 where v: "verify_oath kdf mac kc (at_oath a) (at_signature a) (at_epoch a) (at_operator a) (at_nonce a)
      (at_stamp a) = (ok, kc1)" by fastforce
  obtain good1 kc2 where r: "verify_all kdf mac kc1 as = (good1, kc2)" by fastforce
  show ?case
  proof (cases ok)
    case True
    then have w: "at_nonce a \<notin> kc_used kc" "authentic kdf mac kc a" "kc1 = kc\<lparr>kc_used := insert (at_nonce a) (kc_used kc)\<rparr>"
      using verify_oath_True [of kdf mac kc] v by (auto simp: authentic_def)
    have g: "good = a # good1" using Cons.prems v r True by simp
    show ?thesis
      using Cons.IH [OF r] w unfolding g by (auto simp: list_all_iff authentic_def epoch_key_def)
  next
    case False
    then have "kc1 = kc" using v verify_oath_False [of kdf mac kc] by simp
    then show ?thesis using Cons.prems v r Cons.IH [OF r] False by simp
  qed
qed simp

lemma distinct_same_one: "distinct (replicate n x) \<Longrightarrow> n \<le> 1"
  by (cases n) auto


subsection \<open>What the record of a server shows\<close>

datatype sv_request = Adjudicate bool fresh adjudication | Transit bool fresh transition_request

fun sv_step ::
  "(string \<Rightarrow> string) \<Rightarrow> (body \<Rightarrow> string) \<Rightarrow> (measurement \<Rightarrow> membrane_decision \<Rightarrow> string) \<Rightarrow> (string \<Rightarrow> string) \<Rightarrow>
     (string \<Rightarrow> string \<Rightarrow> string) \<Rightarrow> server \<Rightarrow> sv_request \<Rightarrow> server" where
  "sv_step h dump explain kdf mac sr (Adjudicate w fr a) = snd (server_adjudicate h dump explain w fr a sr)"
| "sv_step h dump explain kdf mac sr (Transit w fr q) = snd (request_transition h dump kdf mac w fr q sr)"

definition controls :: "entry list \<Rightarrow> entry list" where
  "controls es = filter (\<lambda>e. dl_type e = ''control_transition'') es"

definition nonce_of :: "entry \<Rightarrow> string" where
  "nonce_of e = (case dl_nonce e of None \<Rightarrow> [] | Some n \<Rightarrow> n)"

text \<open>A control record carries the oath of the operator of the server for its epoch.\<close>

definition sworn :: "(string \<Rightarrow> string) \<Rightarrow> (string \<Rightarrow> string \<Rightarrow> string) \<Rightarrow> server \<Rightarrow> entry \<Rightarrow> bool" where
  "sworn kdf mac sr e \<longleftrightarrow> dl_nonce e = Some (nonce_of e) \<and> dl_operator e = Some (sr_operator sr) \<and>
     (\<exists>oath stamp. dl_signature e = Some (mac (epoch_key kdf (sr_ceremony sr) (dl_epoch e))
        (oath_payload oath (dl_epoch e) (sr_operator sr) (nonce_of e) stamp)))"

text \<open>
  The modes along the records: an observation is made in the current mode and blocks in ENFORCE
  only; a control record changes the mode, to ENFORCE from SHADOW_CRITICAL only.
\<close>

fun mode_path :: "string \<Rightarrow> entry list \<Rightarrow> bool" where
  "mode_path md [] \<longleftrightarrow> True"
| "mode_path md (e # es) \<longleftrightarrow>
     (if dl_type e = ''control_transition''
      then dl_to_mode e = Some (dl_mode e) \<and> dl_mode e \<noteq> md \<and> (dl_mode e = ''ENFORCE'' \<longrightarrow> md = ''SHADOW_CRITICAL'')
      else \<not> overridden e \<and> dl_mode e = md \<and> (dl_decision e = ''block'' \<longrightarrow> md = ''ENFORCE'')) \<and>
     mode_path (dl_mode e) es"

definition sv_records :: "(string \<Rightarrow> string) \<Rightarrow> (string \<Rightarrow> string \<Rightarrow> string) \<Rightarrow> server \<Rightarrow> server \<Rightarrow> entry list \<Rightarrow> bool" where
  "sv_records kdf mac s s' new \<longleftrightarrow>
     le_entries (sr_ledger s') = le_entries (sr_ledger s) @ new \<and>
     (sr_operator s', sr_policy s', sr_tenant s', kc_secret (sr_ceremony s')) =
       (sr_operator s, sr_policy s, sr_tenant s, kc_secret (sr_ceremony s)) \<and>
     kc_used (sr_ceremony s) \<union> nonce_of ` set (controls new) \<subseteq> kc_used (sr_ceremony s') \<and>
     nonce_of ` set (controls new) \<inter> kc_used (sr_ceremony s) = {} \<and> distinct (map nonce_of (controls new)) \<and>
     list_all (sworn kdf mac s) (controls new) \<and>
     mode_path (sr_mode s) new \<and> sr_mode s' = last (sr_mode s # map dl_mode new)"

definition sv_follows :: "(string \<Rightarrow> string) \<Rightarrow> (string \<Rightarrow> string \<Rightarrow> string) \<Rightarrow> server \<Rightarrow> server \<Rightarrow> bool" where
  "sv_follows kdf mac s s' \<longleftrightarrow> (\<exists>new. sv_records kdf mac s s' new)"

lemma mode_path_append: "mode_path md (xs @ ys) \<longleftrightarrow> mode_path md xs \<and> mode_path (last (md # map dl_mode xs)) ys"
  by (induction xs arbitrary: md) auto

lemma sworn_cong:
  "sr_operator s' = sr_operator s \<Longrightarrow> kc_secret (sr_ceremony s') = kc_secret (sr_ceremony s) \<Longrightarrow>
     sworn kdf mac s' = sworn kdf mac s"
  by (auto simp: sworn_def epoch_key_def fun_eq_iff)

lemma sv_records_nothing: "sv_records kdf mac s (s\<lparr>sr_kernel := k\<rparr>) []" "sv_records kdf mac s s []"
  by (simp_all add: sv_records_def controls_def)

lemma last_append_last: "last (x # xs @ ys) = last (last (x # xs) # ys)"
  by (cases ys) auto

lemma sv_records_trans:
  assumes X: "sv_records kdf mac s s' xs" and Y: "sv_records kdf mac s' s'' ys"
  shows "sv_records kdf mac s s'' (xs @ ys)"
proof -
  from X have x: "le_entries (sr_ledger s') = le_entries (sr_ledger s) @ xs"
      "(sr_operator s', sr_policy s', sr_tenant s', kc_secret (sr_ceremony s')) =
         (sr_operator s, sr_policy s, sr_tenant s, kc_secret (sr_ceremony s))"
      "kc_used (sr_ceremony s) \<union> nonce_of ` set (controls xs) \<subseteq> kc_used (sr_ceremony s')"
      "nonce_of ` set (controls xs) \<inter> kc_used (sr_ceremony s) = {}" "distinct (map nonce_of (controls xs))"
      "list_all (sworn kdf mac s) (controls xs)" "mode_path (sr_mode s) xs" "sr_mode s' = last (sr_mode s # map dl_mode xs)"
    by (simp_all only: sv_records_def)
  from Y have y: "le_entries (sr_ledger s'') = le_entries (sr_ledger s') @ ys"
      "(sr_operator s'', sr_policy s'', sr_tenant s'', kc_secret (sr_ceremony s'')) =
         (sr_operator s', sr_policy s', sr_tenant s', kc_secret (sr_ceremony s'))"
      "kc_used (sr_ceremony s') \<union> nonce_of ` set (controls ys) \<subseteq> kc_used (sr_ceremony s'')"
      "nonce_of ` set (controls ys) \<inter> kc_used (sr_ceremony s') = {}" "distinct (map nonce_of (controls ys))"
      "list_all (sworn kdf mac s') (controls ys)" "mode_path (sr_mode s') ys" "sr_mode s'' = last (sr_mode s' # map dl_mode ys)"
    by (simp_all only: sv_records_def)
  have c: "controls (xs @ ys) = controls xs @ controls ys" by (simp add: controls_def)
  have "list_all (sworn kdf mac s) (controls ys)" using y(6) x(2) by (simp add: sworn_cong [of s' s])
  moreover have "mode_path (sr_mode s) (xs @ ys)" using x(7) y(7) unfolding mode_path_append x(8) by simp
  moreover have "sr_mode s'' = last (sr_mode s # map dl_mode (xs @ ys))"
    unfolding y(8) x(8) map_append last_append_last ..
  moreover have "kc_used (sr_ceremony s) \<union> nonce_of ` set (controls (xs @ ys)) \<subseteq> kc_used (sr_ceremony s'')"
    using x(3) y(3) by (auto simp: c)
  moreover have "nonce_of ` set (controls (xs @ ys)) \<inter> kc_used (sr_ceremony s) = {}"
    using x(3,4) y(4) unfolding c set_append image_Un by blast
  moreover have "distinct (map nonce_of (controls (xs @ ys)))"
    using x(3,5) y(4,5) unfolding c map_append distinct_append set_map by blast
  moreover have "le_entries (sr_ledger s'') = le_entries (sr_ledger s) @ (xs @ ys)" using x(1) y(1) by simp
  ultimately show ?thesis
    unfolding sv_records_def using x(2,6) y(2) by (simp add: c)
qed

lemma next_entry_fields:
  "dl_type (next_entry h dump fr b l) = dl_type b" "dl_mode (next_entry h dump fr b l) = dl_mode b"
  "dl_decision (next_entry h dump fr b l) = dl_decision b" "dl_to_mode (next_entry h dump fr b l) = dl_to_mode b"
  "dl_nonce (next_entry h dump fr b l) = dl_nonce b" "dl_signature (next_entry h dump fr b l) = dl_signature b"
  "dl_operator (next_entry h dump fr b l) = dl_operator b"
  by (simp_all add: next_entry_def create_entry_def body.defs Let_def)

lemma decision_name_block: "decision_name d = ''block'' \<longleftrightarrow> d = BLOCK"
  by (cases d) simp_all

lemma policy_mode_enforce: "policy_mode md = ENFORCE \<longleftrightarrow> md = ''ENFORCE''"
  by (auto simp: policy_mode_def modes_def)

lemma final_decision_block:
  "final_decision md gate (fst (evaluate_membrane p m (policy_mode md))) = BLOCK \<Longrightarrow> md = ''ENFORCE''"
  by (auto simp: final_decision_def evaluate_membrane_def policy_mode_enforce Let_def
      split: option.splits kernel_decision.splits if_splits)

lemma adjudicate_cases:
  obtains k where "snd (server_adjudicate h dump explain w fr a s) = s\<lparr>sr_kernel := k\<rparr>"
  | k b d where "snd (server_adjudicate h dump explain w fr a s) =
        s\<lparr>sr_kernel := k, sr_ledger := put_entry h (next_entry h dump fr b (sr_ledger s)) (sr_ledger s)\<rparr>"
      "dl_type b = ''observation''" "dl_mode b = sr_mode s" "dl_decision b = decision_name d"
      "d = BLOCK \<Longrightarrow> sr_mode s = ''ENFORCE''" "dl_signature b = None" "dl_operator b = None" "dl_nonce b = None"
proof -
  obtain t k where tk: "trajectory_compute (aj_pressure a) (aj_velocity a) (aj_capacity a) (sr_kernel s) = (t, k)"
    by fastforce
  have none: "s = s\<lparr>sr_kernel := sr_kernel s\<rparr>" by simp
  show thesis
  proof (cases "snd (server_adjudicate h dump explain w fr a s) = s\<lparr>sr_kernel := k\<rparr> \<or>
      snd (server_adjudicate h dump explain w fr a s) = s")
    case True
    then show thesis using that(1) none by metis
  next
    case False
    then obtain m where m: "t = Some m" "w"
      and guards: "sr_mode s \<noteq> ''SHADOW_OFF''" "(aj_runtime a = None) \<noteq> (\<not> aj_raw a)"
        "\<not> (aj_runtime a = None \<and> sr_mode s = ''ENFORCE'')" "aj_accepted a"
      unfolding server_adjudicate_def
      by (auto simp: tk dl_append_def append_entry_def Let_def split: option.splits if_splits)
    show thesis
      by (rule that(2) [where d = "final_decision (sr_mode s) (aj_runtime a) (fst (evaluate_membrane (sr_policy s)
            (m\<lparr>ms_options := Some (aj_options a)\<rparr>) (policy_mode (sr_mode s))))"], subst server_adjudicate_def)
        (use m guards final_decision_block in \<open>auto simp: tk dl_append_def append_entry_def Let_def\<close>)
  qed
qed

lemma observation_follows:
  assumes "dl_type b = ''observation''" "dl_mode b = sr_mode s" "dl_decision b = decision_name d"
    "d = BLOCK \<Longrightarrow> sr_mode s = ''ENFORCE''" "dl_signature b = None" "dl_operator b = None"
  shows "sv_records kdf mac s
    (s\<lparr>sr_kernel := k, sr_ledger := put_entry h (next_entry h dump fr b (sr_ledger s)) (sr_ledger s)\<rparr>)
    [next_entry h dump fr b (sr_ledger s)]"
  using assms
  by (auto simp: sv_records_def controls_def next_entry_fields put_entry_def overridden_def decision_name_block Let_def)

lemma control_put:
  "\<exists>b. append_control_transition h dump True fr t m oper why pol sig signer nonce l =
      (Inr (next_entry h dump fr b l), put_entry h (next_entry h dump fr b l) l) \<and>
    dl_type b = ''control_transition'' \<and> dl_mode b = m \<and> dl_to_mode b = Some m \<and> dl_signature b = sig \<and>
    dl_operator b = signer \<and> dl_nonce b = nonce"
  unfolding append_control_transition_def append_entry_def Let_def not_True_eq_False if_False
  by (rule exI, rule conjI, rule refl) simp

lemma transition_cases:
  assumes "request_transition h dump kdf mac w fr q s = (answer, s')"
  obtains "answer \<noteq> OK" "s' = s"
  | n where "answer \<noteq> OK" "s' = s\<lparr>sr_ceremony := (sr_ceremony s)\<lparr>kc_used := insert n (kc_used (sr_ceremony s))\<rparr>\<rparr>"
  | b where "answer = OK" "w" "tq_operator q = sr_operator s" "tq_nonce q \<notin> kc_used (sr_ceremony s)"
      "tq_target q \<noteq> sr_mode s" "tq_target q = ''ENFORCE'' \<Longrightarrow> sr_mode s = ''SHADOW_CRITICAL''"
      "tq_signature q = mac (epoch_key kdf (sr_ceremony s) (ep_id (current_epoch (sr_ledger s))))
        (oath_payload (tq_oath q) (ep_id (current_epoch (sr_ledger s))) (tq_operator q) (tq_nonce q) (tq_stamp q))"
      "s' = s\<lparr>sr_ceremony := (sr_ceremony s)\<lparr>kc_used := insert (tq_nonce q) (kc_used (sr_ceremony s))\<rparr>,
        sr_ledger := put_entry h (next_entry h dump fr b (sr_ledger s)) (sr_ledger s), sr_mode := tq_target q\<rparr>"
      "dl_type b = ''control_transition''" "dl_mode b = tq_target q" "dl_to_mode b = Some (tq_target q)"
      "dl_signature b = Some (tq_signature q)" "dl_operator b = Some (tq_operator q)" "dl_nonce b = Some (tq_nonce q)"
proof -
  let ?e = "ep_id (current_epoch (sr_ledger s))"
  obtain ok kc where v: "verify_oath kdf mac (sr_ceremony s) (tq_oath q) (tq_signature q) ?e (tq_operator q)
      (tq_nonce q) (tq_stamp q) = (ok, kc)" by fastforce
  let ?G = "tq_target q \<in> set (map mode_name modes) \<and> sr_operator s \<noteq> [] \<and> tq_operator q = sr_operator s \<and>
    (tq_target q = ''ENFORCE'' \<longrightarrow> sr_mode s = ''SHADOW_CRITICAL'') \<and> tq_target q \<noteq> sr_mode s"
  show thesis
  proof (cases "?G \<and> ok")
    case False
    have "answer \<noteq> OK \<and> s' = s"
    proof (cases ?G)
      case True
      with False have "kc = sr_ceremony s" using v verify_oath_False [of kdf mac "sr_ceremony s"] by auto
      with True False assms v show ?thesis by (auto simp: request_transition_def Let_def)
    qed (use assms in \<open>auto simp: request_transition_def split: if_splits\<close>)
    then show thesis using that(1) by blast
  next
    case True
    with v verify_oath_True [of kdf mac "sr_ceremony s"]
    have o: "tq_nonce q \<notin> kc_used (sr_ceremony s)"
      "tq_signature q = mac (epoch_key kdf (sr_ceremony s) ?e) (oath_payload (tq_oath q) ?e (tq_operator q) (tq_nonce q) (tq_stamp q))"
      "kc = (sr_ceremony s)\<lparr>kc_used := insert (tq_nonce q) (kc_used (sr_ceremony s))\<rparr>" by auto
    show thesis
    proof (cases w)
      case True
      obtain b where b: "append_control_transition h dump w fr (sr_mode s @ ''_TO_'' @ tq_target q) (tq_target q)
          (tq_operator q) ''operator-authenticated oath transition'' (pe_version (sr_policy s)) (Some (tq_signature q))
          (Some (tq_operator q)) (Some (tq_nonce q)) (sr_ledger s) =
          (Inr (next_entry h dump fr b (sr_ledger s)), put_entry h (next_entry h dump fr b (sr_ledger s)) (sr_ledger s))"
        "dl_type b = ''control_transition''" "dl_mode b = tq_target q" "dl_to_mode b = Some (tq_target q)"
        "dl_signature b = Some (tq_signature q)" "dl_operator b = Some (tq_operator q)" "dl_nonce b = Some (tq_nonce q)"
        using True control_put [of h dump fr "sr_mode s @ ''_TO_'' @ tq_target q" "tq_target q" "tq_operator q"
            "''operator-authenticated oath transition''" "pe_version (sr_policy s)"] by fastforce
      have "request_transition h dump kdf mac w fr q s = (OK, s\<lparr>sr_ceremony := kc,
          sr_ledger := put_entry h (next_entry h dump fr b (sr_ledger s)) (sr_ledger s), sr_mode := tq_target q\<rparr>)"
        unfolding request_transition_def using \<open>?G \<and> ok\<close> v b(1) by simp
      then have "answer = OK" "s' = s\<lparr>sr_ceremony := kc,
          sr_ledger := put_entry h (next_entry h dump fr b (sr_ledger s)) (sr_ledger s), sr_mode := tq_target q\<rparr>"
        using assms by simp_all
      then show thesis using \<open>?G \<and> ok\<close> True o b(2-7) by (intro that(3)) auto
    next
      case False
      with assms \<open>?G \<and> ok\<close> v o(3) have "answer = Refused 503" "s' = s\<lparr>sr_ceremony := kc\<rparr>"
        by (auto simp: request_transition_def append_control_transition_def append_entry_def Let_def)
      then show thesis using o(3) that(2) by simp
    qed
  qed
qed

lemma sv_step_cases:
  obtains new where "sv_records kdf mac s (sv_step h dump explain kdf mac s r) new"
    "sr_ledger (sv_step h dump explain kdf mac s r) = sr_ledger s \<or>
     (\<exists>fr b. sr_ledger (sv_step h dump explain kdf mac s r) =
        put_entry h (next_entry h dump fr b (sr_ledger s)) (sr_ledger s))"
proof (cases r)
  case (Adjudicate w fr a)
  show thesis
  proof (cases rule: adjudicate_cases [of h dump explain w fr a s])
    case (1 k)
    then show thesis using that [of "[]"] sv_records_nothing(1) [where s = s and k = k] Adjudicate by simp
  next
    case (2 k b d)
    then show thesis
      using that [of "[next_entry h dump fr b (sr_ledger s)]"] observation_follows [OF 2(2-7)] Adjudicate by auto
  qed
next
  case (Transit w fr q)
  obtain answer s' where q: "request_transition h dump kdf mac w fr q s = (answer, s')" by fastforce
  then have s': "sv_step h dump explain kdf mac s r = s'" using Transit by simp
  show thesis
  proof (cases rule: transition_cases [OF q])
    case 1
    then show thesis using that [of "[]"] sv_records_nothing(2) s' by simp
  next
    case (2 n)
    then have "sv_records kdf mac s s' []" by (auto simp: sv_records_def controls_def)
    then show thesis using that 2 s' by simp
  next
    case (3 b)
    let ?e = "next_entry h dump fr b (sr_ledger s)"
    have "nonce_of ?e = tq_nonce q" using 3 by (simp add: nonce_of_def next_entry_fields)
    moreover have "sworn kdf mac s ?e"
      using 3 by (auto simp: sworn_def nonce_of_def next_entry_fields next_entry_simps epoch_key_def)
    ultimately have "sv_records kdf mac s s' [?e]"
      using 3 by (auto simp: sv_records_def controls_def next_entry_fields put_entry_def Let_def)
    then show thesis using that 3(8) s' by auto
  qed
qed

definition sv_good :: "(string \<Rightarrow> string) \<Rightarrow> (body \<Rightarrow> string) \<Rightarrow> server \<Rightarrow> bool" where
  "sv_good h dump s \<longleftrightarrow> dl_good h dump (sr_ledger s)"

interpretation serving: machine "sv_step h dump explain kdf mac" "sv_good h dump"
  for h dump explain kdf mac
proof
  show "sv_good h dump (sv_step h dump explain kdf mac s r)" if "sv_good h dump s" for s r
    using that sv_step_cases [of kdf mac s h dump explain r] put_entry_good unfolding sv_good_def by metis
qed

interpretation recording: machine_order "sv_step h dump explain kdf mac" "\<lambda>s. True" "sv_follows kdf mac"
  for h dump explain kdf mac
proof
  show "sv_follows kdf mac s s" for s using sv_records_nothing(2) unfolding sv_follows_def by blast
  show "sv_follows kdf mac s u" if "sv_follows kdf mac s t" "sv_follows kdf mac t u" for s t u
    using that sv_records_trans unfolding sv_follows_def by blast
  show "sv_follows kdf mac s (sv_step h dump explain kdf mac s r)" for s r
    using sv_step_cases [of kdf mac s h dump explain r] unfolding sv_follows_def by metis
qed simp

text \<open>
  C10. What a running server recorded: from any state, after any requests with failing writes, the
  ledger is extended by records whose control records each carry an authenticated oath of the
  operator for their epoch, with a nonce that was never used before, and the modes along the
  records are legal: ENFORCE is entered from SHADOW_CRITICAL only, a block is decided in ENFORCE
  only, and the mode in force is the one of the last record.
\<close>

theorem transitions_authorized:
  "let s' = foldl (sv_step h dump explain kdf mac) s rs;
       new = drop (length (le_entries (sr_ledger s))) (le_entries (sr_ledger s'))
   in le_entries (sr_ledger s') = le_entries (sr_ledger s) @ new \<and> list_all (sworn kdf mac s) (controls new) \<and>
      distinct (map nonce_of (controls new)) \<and> nonce_of ` set (controls new) \<inter> kc_used (sr_ceremony s) = {} \<and>
      mode_path (sr_mode s) new \<and> sr_mode s' = last (sr_mode s # map dl_mode new)"
proof -
  obtain new where "sv_records kdf mac s (foldl (sv_step h dump explain kdf mac) s rs) new"
    using recording.run_le [where s = s and rs = rs] unfolding sv_follows_def by blast
  then show ?thesis by (simp add: sv_records_def Let_def)
qed

subsection \<open>Restarting a server\<close>

lemma path_overridden:
  "mode_path md es \<Longrightarrow> list_all (sworn kdf mac s) (controls es) \<Longrightarrow>
     list_ex overridden es \<longleftrightarrow> list_ex (\<lambda>e. dl_type e = ''control_transition'') es"
proof (induction es arbitrary: md)
  case (Cons e es)
  then show ?case
    using Cons.IH [of "dl_mode e"] by (cases "dl_type e = ''control_transition''") (auto simp: controls_def sworn_def overridden_def)
qed simp

lemma path_last_mode:
  "mode_path md es \<Longrightarrow> md \<noteq> [] \<Longrightarrow> \<not> list_ex (\<lambda>e. dl_type e = ''control_transition'') es \<Longrightarrow>
     list_all (\<lambda>e. dl_mode e = md \<and> dl_type e \<noteq> ''control_transition'') es"
  by (induction es) auto

lemma last_mode_same:
  "list_all (\<lambda>e. dl_mode e = md \<and> dl_type e \<noteq> ''control_transition'') es \<Longrightarrow> md \<noteq> [] \<Longrightarrow> last_mode md es = md"
  by (cases es) (auto split: option.splits)

text \<open>
  C11. A server that began with an empty ledger and recorded no transition is found again, with its
  ledger and mode, when it is started from its file. After the first transition, signed as the
  design demands, the file is refused and the server does not start any more.
\<close>

theorem transition_bricks_restart:
  assumes start: "start_up h dump en None = Inr s" and run: "s' = foldl (sv_step h dump explain kdf mac) s rs"
    and digests: "payload_digests_differ h dump (le_entries (sr_ledger s'))"
  shows "if list_ex (\<lambda>e. dl_type e = ''control_transition'') (le_entries (sr_ledger s'))
    then start_up h dump en (le_file (sr_ledger s')) = Inl (BadLedger LedgerIntegrityError)
    else \<exists>s''. start_up h dump en (le_file (sr_ledger s')) = Inr s'' \<and> sr_ledger s'' = sr_ledger s' \<and> sr_mode s'' = sr_mode s'"
proof -
  let ?es = "le_entries (sr_ledger s')"
  have s: "sr_ledger s = new_ledger" "sr_mode s = en_mode en" "en_mode en \<in> set (map mode_name modes)"
    "en_mode en \<notin> {''SHADOW_CRITICAL'', ''ENFORCE''}"
    and env: "\<not> length (en_token en) < 32" "strip (en_operator en) \<noteq> []" "en_profile en \<in> {''default'', ''canonical''}"
      "\<not> length (strip (en_secret en)) < 32"
    using start by (auto simp: start_up_def load_ledger_def new_ledger_def recover_last_mode_def split: if_splits)
  have "sv_good h dump s" by (simp add: sv_good_def s(1) new_ledger_good)
  then have g: "dl_good h dump (sr_ledger s')"
    using serving.run_inv [where s = s and rs = rs] unfolding run by (simp add: sv_good_def)
  have rec: "list_all (sworn kdf mac s) (controls ?es)" "mode_path (en_mode en) ?es"
    "sr_mode s' = last (en_mode en # map dl_mode ?es)"
  proof -
    obtain new where "sv_records kdf mac s s' new"
      using recording.run_le [where s = s and rs = rs] unfolding run sv_follows_def by blast
    then show "list_all (sworn kdf mac s) (controls ?es)" "mode_path (en_mode en) ?es"
      "sr_mode s' = last (en_mode en # map dl_mode ?es)" by (simp_all add: sv_records_def s new_ledger_def)
  qed
  have load: "load_ledger h dump (le_file (sr_ledger s')) =
      (if list_ex (\<lambda>e. dl_type e = ''control_transition'') ?es then Inl LedgerIntegrityError else Inr (sr_ledger s'))"
    using good_reopens [OF g digests] path_overridden [OF rec(2,1)] by simp
  show ?thesis
  proof (cases "list_ex (\<lambda>e. dl_type e = ''control_transition'') ?es")
    case True
    then show ?thesis using load env by (simp add: start_up_def)
  next
    case False
    have ne: "en_mode en \<noteq> []" using s(3) by (auto simp: modes_def)
    have same: "list_all (\<lambda>e. dl_mode e = en_mode en \<and> dl_type e \<noteq> ''control_transition'') ?es"
      using rec(2) ne False by (rule path_last_mode)
    then have "last_mode (en_mode en) (rev ?es) = en_mode en" using ne by (intro last_mode_same) auto
    moreover have "sr_mode s' = en_mode en" using same unfolding rec(3) by (auto simp: list_all_iff last_map)
    ultimately show ?thesis using False load env s(3,4) by (simp add: start_up_def recover_last_mode_def)
  qed
qed

subsection \<open>A server at work\<close>

definition r5_settings :: settings where
  "r5_settings = \<lparr>en_token = replicate 32 CHR ''t'', en_operator = ''op'', en_profile = ''default'',
     en_secret = replicate 32 CHR ''s'', en_mode = ''SHADOW_PASSIVE'', en_tenant = ''a''\<rparr>"

definition r5_request :: "string \<Rightarrow> transition_request" where
  "r5_request signature = \<lparr>tq_operator = ''op'', tq_target = ''SHADOW_CRITICAL'', tq_oath = OATH_TEXT,
     tq_signature = signature, tq_nonce = ''n'', tq_stamp = ''t''\<rparr>"

text \<open>The tag of a text is the text itself, with one more character.\<close>

definition r5_mac :: "string \<Rightarrow> string \<Rightarrow> string" where
  "r5_mac key m = m @ ''.''"

definition r5_signature :: string where
  "r5_signature = r5_mac [] (oath_payload OATH_TEXT 0 ''op'' ''n'' ''t'')"

definition r5_ceremony :: ceremony where
  "r5_ceremony = \<lparr>kc_secret = replicate 32 CHR ''s'', kc_used = {}\<rparr>"

definition r5_attempt :: attempt where
  "r5_attempt = \<lparr>at_oath = OATH_TEXT, at_signature = r5_signature, at_epoch = 0, at_operator = ''op'',
     at_nonce = ''n'', at_stamp = ''t''\<rparr>"


definition r5_explain :: "measurement \<Rightarrow> membrane_decision \<Rightarrow> string" where
  "r5_explain m d = []"

lemma r5_started:
  "\<exists>s. start_up id dld_dump r5_settings None = Inr s \<and> sr_ledger s = new_ledger \<and> sr_mode s = ''SHADOW_PASSIVE'' \<and>
     sr_operator s = ''op'' \<and> kc_used (sr_ceremony s) = {}"
  by (simp add: start_up_def r5_settings_def load_ledger_def new_ledger_def modes_def strip_def py_space_def char_in_def
      recover_last_mode_def recover_used_nonces_def)

theorem transition_bricks_restart_witness:
  "\<exists>s. start_up id dld_dump r5_settings None = Inr s \<and>
     start_up id dld_dump r5_settings
       (le_file (sr_ledger (sv_step id dld_dump r5_explain id r5_mac s
         (Transit True \<lparr>fr_id = ''a'', fr_time = ''t''\<rparr> (r5_request r5_signature))))) =
       Inl (BadLedger LedgerIntegrityError)"
proof -
  obtain s where s: "start_up id dld_dump r5_settings None = Inr s" "sr_ledger s = new_ledger" "sr_mode s = ''SHADOW_PASSIVE''"
    "sr_operator s = ''op''" "kc_used (sr_ceremony s) = {}" using r5_started by blast
  let ?r = "Transit True \<lparr>fr_id = ''a'', fr_time = ''t''\<rparr> (r5_request r5_signature)"
  let ?s = "foldl (sv_step id dld_dump r5_explain id r5_mac) s [?r]"
  obtain e where e: "le_entries (sr_ledger ?s) = [e]" "dl_type e = ''control_transition''" "dl_signature e = Some r5_signature"
    by (simp add: request_transition_def s r5_request_def modes_def verify_oath_def r5_mac_def r5_signature_def
        append_control_transition_def append_entry_def put_entry_def next_entry_fields new_ledger_def current_epoch_def
        new_epoch_def Let_def)
  have "r5_signature \<noteq> ''-''" by (simp add: r5_signature_def r5_mac_def oath_payload_def OATH_TEXT_def)
  then have "payload_digests_differ id dld_dump (le_entries (sr_ledger ?s))"
    unfolding e(1) using e(3) by (simp add: payload_digests_differ_def canonical_payload_def dld_dump_def body.defs Let_def)
  from transition_bricks_restart [OF s(1) refl this, unfolded e(1)] e(2) s(1) show ?thesis by (intro exI [of _ s]) simp
qed

end
