(* ===== verification/Tenir_Kernel.thy ===== *)
theory Tenir_Kernel
  imports Py_Arith "HOL-Library.List_Lexorder" "HOL-Library.Char_ord"
begin

section \<open>The scoring kernel\<close>

text \<open>
  \<open>tenir_kernel/kernel.py\<close>, \<open>tenir_kernel/geometry.py\<close> and the Python connector. Numbers enter as
  the caller passes them (\<open>pynum\<close>) and become floats where the code converts them. Error messages
  are not kept; a rationale is a list of \<open>kernel_reason\<close>s, with the numbers that the code formats into
  the two messages that carry a score. The validation of a runtime object by \<open>jsonschema\<close> is an
  argument.
\<close>

subsection \<open>Arithmetic of the interpreter\<close>

text \<open>
  \<open>sum\<close> of a list of floats: plain addition up to Python 3.11, Neumaier's compensated addition
  from 3.12 on. The project runs on both, so the choice is an argument. The first summand is
  added to the integer 0.
\<close>

definition neumaier :: "pyfloat \<times> pyfloat \<Rightarrow> pyfloat \<Rightarrow> pyfloat \<times> pyfloat" where
  "neumaier = (\<lambda>(hi, c) x.
     let t = fadd hi x
     in (t, fadd c (if fle (fabs x) (fabs hi) then fadd (fsub hi t) x else fadd (fsub x t) hi)))"

fun fsum :: "bool \<Rightarrow> pyfloat list \<Rightarrow> pyfloat" where
  "fsum compensated [] = fzero"
| "fsum compensated (x # xs) =
     (if compensated
      then (let (hi, c) = foldl neumaier (fadd fzero x, fzero) xs
            in if c \<noteq> fzero \<and> ffinite c then fadd hi c else hi)
      else foldl fadd (fadd fzero x) xs)"

text \<open>
  \<open>math.sqrt\<close> of a number that is not negative, correctly rounded: the integer root of the
  number scaled to at least 119 bits, with a half added when the root is not exact, so that the
  rounding sees on which side of a tie the exact root lies.
\<close>

fun isqrt :: "nat \<Rightarrow> nat" where
  "isqrt n =
     (if n = 0 then 0 else let r = 2 * isqrt (n div 4) in if (r + 1) * (r + 1) \<le> n then r + 1 else r)"

declare isqrt.simps [simp del]

fun fsqrt :: "pyfloat \<Rightarrow> pyfloat" where
  "fsqrt (Fin x) =
     (if x \<le> 0 then fzero
      else
        (let k = 60 - lead_exp x div 2; y = x * pow2 (2 * k); r = isqrt (nat \<lfloor>y\<rfloor>)
         in fl ((of_nat r + (if of_nat (r * r) = y then 0 else 1 / 2)) / pow2 k)))"
| "fsqrt x = x"

text \<open>\<open>round (x, 8)\<close>\<close>

fun round8 :: "pyfloat \<Rightarrow> pyfloat" where
  "round8 (Fin x) = fl (of_int (round_even (x * 100000000)) / 100000000)"
| "round8 x = x"

text \<open>\<open>min\<close> of a list that is not empty: the first of the smallest in the order of \<open><\<close>.\<close>

definition fmin_list :: "pyfloat list \<Rightarrow> pyfloat" where
  "fmin_list xs = foldl (\<lambda>m x. if flt x m then x else m) (hd xs) (tl xs)"

definition upper_char :: "char \<Rightarrow> char" where
  "upper_char c = (if CHR ''a'' \<le> c \<and> c \<le> CHR ''z'' then char_of (of_char c - 32 :: nat) else c)"

definition upper :: "string \<Rightarrow> string" where
  "upper s = map upper_char s"

subsection \<open>Inputs\<close>

datatype kernel_error = KernelInputError | GeometryError | ZeroDivisionError | OverflowError

datatype pynum = NumBool bool | NumInt int | NumFloat pyfloat | NotNumber

text \<open>\<open>float (value)\<close> behind the type test; a boolean is refused although it is an \<open>int\<close>.\<close>

fun to_float :: "kernel_error \<Rightarrow> pynum \<Rightarrow> kernel_error + pyfloat" where
  "to_float e (NumInt n) = (if ffinite (fl (of_int n)) then Inr (fl (of_int n)) else Inl OverflowError)"
| "to_float e (NumFloat x) = Inr x"
| "to_float e _ = Inl e"

definition in_unit :: "pyfloat \<Rightarrow> bool" where
  "in_unit x \<longleftrightarrow> ffinite x \<and> fle fzero x \<and> fle x (Fin 1)"

definition unit_interval :: "kernel_error \<Rightarrow> pynum \<Rightarrow> kernel_error + pyfloat" where
  "unit_interval e v = bindE (to_float e v) (\<lambda>x. if in_unit x then Inr x else Inl e)"

subsection \<open>Constraint geometry\<close>

record facet =
  fc_id :: string
  fc_normal :: "(string, pyfloat) dict"
  fc_bound :: pyfloat
  fc_severity :: string
  fc_rationale :: string

record geometry =
  ge_id :: string
  ge_version :: string
  ge_facets :: "facet list"

definition allowed_axes :: "string list" where
  "allowed_axes =
     [''pressure'', ''velocity'', ''capacity'', ''option_space'', ''cooperative_control_score'',
      ''trajectory_risk_score'', ''irreversible_pathway_materiality'', ''evidence_quality'',
      ''manipulation_risk'', ''drift'', ''authority'', ''context_fit'']"

definition reference_geometry :: geometry where
  "reference_geometry =
     \<lparr>ge_id = ''tenir-2.0-reference'', ge_version = ''tenir-geometry-1.2.0'',
      ge_facets =
       [\<lparr>fc_id = ''authority-floor'', fc_normal = [(''authority'', Fin (- 1))],
         fc_bound = Fin (- 1 / 2), fc_severity = ''hard'',
         fc_rationale = ''The proposed transition lacks the reference minimum authority score.''\<rparr>,
        \<lparr>fc_id = ''context-fit-floor'', fc_normal = [(''context_fit'', Fin (- 1))],
         fc_bound = Fin (- 1 / 2), fc_severity = ''hard'',
         fc_rationale = ''The proposed transition does not sufficiently fit its declared context.''\<rparr>,
        \<lparr>fc_id = ''irreversibility-authority-boundary'',
         fc_normal = [(''irreversible_pathway_materiality'', Fin 1), (''authority'', Fin (- 1))],
         fc_bound = Fin (1 / 4), fc_severity = ''hard'',
         fc_rationale = ''Irreversible-pathway materiality exceeds the authority margin.''\<rparr>,
        \<lparr>fc_id = ''evidence-quality-floor'', fc_normal = [(''evidence_quality'', Fin (- 1))],
         fc_bound = Fin (- 3602879701896397 / 9007199254740992), fc_severity = ''soft'',
         fc_rationale = ''Evidence quality is below the reference review threshold.''\<rparr>,
        \<lparr>fc_id = ''load-capacity-envelope'',
         fc_normal = [(''pressure'', Fin 1), (''velocity'', Fin 1), (''capacity'', Fin (- 1))],
         fc_bound = Fin (3 / 4), fc_severity = ''soft'',
         fc_rationale = ''Combined pressure and velocity approach the declared capacity boundary.''\<rparr>]\<rparr>"

definition validate_point :: "(string, pynum) dict \<Rightarrow> kernel_error + (string, pyfloat) dict" where
  "validate_point p =
     (if list_ex (\<lambda>(a, _). a \<notin> set allowed_axes) p then Inl GeometryError
      else mapE (\<lambda>(a, v). bindE (unit_interval GeometryError v) (\<lambda>x. Inr (a, x))) p)"

record facet_result =
  fr_id :: string
  fr_severity :: string
  fr_margin :: "pyfloat option"
  fr_rationale :: string

record geometry_report =
  gr_id :: string
  gr_version :: string
  gr_feasible :: bool
  gr_minimum :: "pyfloat option"
  gr_results :: "facet_result list"
  gr_hard :: "facet_result list"
  gr_soft :: "facet_result list"

text \<open>The signed margin of a facet whose coordinates are all present.\<close>

definition facet_margin ::
  "bool \<Rightarrow> (string, pyfloat) dict \<Rightarrow> facet \<Rightarrow> kernel_error + pyfloat" where
  "facet_margin cs p f =
     (let value = fsum cs (map (\<lambda>(a, c). fmul c (the (map_of p a))) (fc_normal f));
          norm = fsqrt (fsum cs (map (\<lambda>(_, c). fmul c c) (fc_normal f)))
      in if norm = fzero then Inl ZeroDivisionError else Inr (fdiv (fsub (fc_bound f) value) norm))"

definition missing_axes :: "(string, pyfloat) dict \<Rightarrow> facet \<Rightarrow> string list" where
  "missing_axes p f = sort (filter (\<lambda>a. map_of p a = None) (map fst (fc_normal f)))"

text \<open>\<open>-1e-9\<close> as the float nearest to it.\<close>

definition tolerance :: pyfloat where
  "tolerance = Fin (- 4835703278458517 / 4835703278458516698824704)"

text \<open>A step of the loop: the facets' results, the hard and soft violations, the margins.\<close>

type_synonym evaluation = "facet_result list \<times> facet_result list \<times> facet_result list \<times> pyfloat list"

definition comma_join :: "string list \<Rightarrow> string" where
  "comma_join xs = concat (case xs of [] \<Rightarrow> [] | y # ys \<Rightarrow> y # map (\<lambda>a. '', '' @ a) ys)"

definition facet_step ::
  "bool \<Rightarrow> (string, pyfloat) dict \<Rightarrow> facet \<Rightarrow> evaluation \<Rightarrow> kernel_error + evaluation" where
  "facet_step cs p f = (\<lambda>(rs, hs, ss, ms).
     if missing_axes p f \<noteq> [] then
       (let r = \<lparr>fr_id = fc_id f, fr_severity = ''hard'', fr_margin = None,
                 fr_rationale = ''Missing required geometry coordinate(s): '' @
                   comma_join (missing_axes p f) @ ''.''\<rparr>
        in Inr (rs @ [r], hs @ [r], ss, ms))
     else
       bindE (facet_margin cs p f) (\<lambda>m.
         let r = \<lparr>fr_id = fc_id f, fr_severity = fc_severity f, fr_margin = Some (round8 m),
                  fr_rationale = fc_rationale f\<rparr>
         in Inr (rs @ [r],
                 if flt m tolerance \<and> fc_severity f \<noteq> ''soft'' then hs @ [r] else hs,
                 if flt m tolerance \<and> fc_severity f = ''soft'' then ss @ [r] else ss,
                 ms @ [m])))"

fun facets_loop ::
  "bool \<Rightarrow> (string, pyfloat) dict \<Rightarrow> facet list \<Rightarrow> evaluation \<Rightarrow> kernel_error + evaluation" where
  "facets_loop cs p [] acc = Inr acc"
| "facets_loop cs p (f # fs) acc = bindE (facet_step cs p f acc) (facets_loop cs p fs)"

text \<open>The report of a geometry that is not evaluated: one hard violation.\<close>

definition infeasible :: "string \<Rightarrow> string \<Rightarrow> string \<Rightarrow> string \<Rightarrow> geometry_report" where
  "infeasible gid version fid why =
     \<lparr>gr_id = gid, gr_version = version, gr_feasible = False, gr_minimum = None, gr_results = [],
      gr_hard = [\<lparr>fr_id = fid, fr_severity = ''hard'', fr_margin = None, fr_rationale = why\<rparr>],
      gr_soft = []\<rparr>"

definition evaluate_geometry ::
  "bool \<Rightarrow> (string, pynum) dict \<Rightarrow> string \<Rightarrow> geometry \<Rightarrow> kernel_error + geometry_report" where
  "evaluate_geometry cs point gid g =
     (if gid \<noteq> ge_id g then
        Inr (infeasible gid (ge_version g) ''unknown-geometry''
          ''Geometry ID is not configured by the active server policy.'')
      else
        bindE (validate_point point) (\<lambda>p.
        bindE (facets_loop cs p (ge_facets g) ([], [], [], [])) (\<lambda>(rs, hs, ss, ms). Inr
          \<lparr>gr_id = gid, gr_version = ge_version g, gr_feasible = (hs = []),
           gr_minimum = (if ms = [] then None else Some (round8 (fmin_list ms))),
           gr_results = rs, gr_hard = hs, gr_soft = ss\<rparr>)))"

subsection \<open>The kernel\<close>

record kernel_policy =
  kp_version :: string
  kp_epsilon :: pyfloat
  kp_hard_veto_below :: pyfloat
  kp_flag_below :: pyfloat
  kp_geometry :: geometry

definition kernel_policy_ok :: "kernel_policy \<Rightarrow> bool" where
  "kernel_policy_ok p \<longleftrightarrow>
     ffinite (kp_epsilon p) \<and> ffinite (kp_hard_veto_below p) \<and> ffinite (kp_flag_below p) \<and>
     \<not> (fle (kp_epsilon p) fzero \<or> flt (kp_hard_veto_below p) fzero \<or>
        fle (kp_flag_below p) (kp_hard_veto_below p))"

definition default_kernel_policy :: kernel_policy where
  "default_kernel_policy =
     \<lparr>kp_version = ''tenir-kernel-1.2.0'',
      kp_epsilon = Fin (4722366482869645 / 4722366482869645213696), kp_hard_veto_below = Fin (3 / 4),
      kp_flag_below = Fin (8106479329266893 / 9007199254740992), kp_geometry = reference_geometry\<rparr>"

datatype kernel_reason =
    Because string
  | AtVetoFloor pyfloat pyfloat
  | BelowFlagFloor pyfloat pyfloat
  | TauBreach pyfloat pyfloat
  | OptionSpaceBlock pyfloat
  | OptionSpaceAlert pyfloat

datatype verdict = NOT_EVALUATED | PASS | FLAG | HARD_VETO

datatype disposition = allow_unobserved | block | allow_with_intended_block | allow_with_alert | allow

record adjudication =
  ad_policy :: string
  ad_mode :: string
  ad_score :: "pyfloat option"
  ad_decision :: verdict
  ad_disposition :: disposition
  ad_allowed :: bool
  ad_rationale :: "kernel_reason list"
  ad_geometry :: "geometry_report option"

definition valid_modes :: "string list" where
  "valid_modes = [''SHADOW_OFF'', ''SHADOW_PASSIVE'', ''SHADOW_CRITICAL'', ''ENFORCE'']"

text \<open>\<open>k / (p * v + epsilon)\<close>\<close>

definition s_score :: "pyfloat \<Rightarrow> pyfloat \<Rightarrow> pyfloat \<Rightarrow> pyfloat \<Rightarrow> kernel_error + pyfloat" where
  "s_score eps p v k =
     (let d = fadd (fmul p v) eps in if d = fzero then Inl ZeroDivisionError else Inr (fdiv k d))"

definition geometry_of ::
  "bool \<Rightarrow> kernel_policy \<Rightarrow> (string, pynum) dict option \<Rightarrow> string \<Rightarrow> kernel_error + geometry_report" where
  "geometry_of cs pol point gid =
     (case point of
        None \<Rightarrow> Inr (infeasible gid (ge_version (kp_geometry pol)) ''missing-geometry-point''
          ''Constraint geometry coordinates are required for adjudication.'')
      | Some p \<Rightarrow> evaluate_geometry cs p gid (kp_geometry pol))"

definition hard_reasons :: "kernel_policy \<Rightarrow> pyfloat \<Rightarrow> geometry_report \<Rightarrow> kernel_reason list \<Rightarrow> kernel_reason list" where
  "hard_reasons pol s r gate =
     gate @
     (if fle s (kp_hard_veto_below pol) then [AtVetoFloor s (kp_hard_veto_below pol)] else []) @
     map (\<lambda>v. Because (fr_rationale v)) (gr_hard r)"

definition soft_reasons :: "kernel_policy \<Rightarrow> pyfloat \<Rightarrow> geometry_report \<Rightarrow> kernel_reason list \<Rightarrow> kernel_reason list" where
  "soft_reasons pol s r gate =
     gate @
     (if flt s (kp_flag_below pol) then [BelowFlagFloor s (kp_flag_below pol)] else []) @
     map (\<lambda>v. Because (fr_rationale v)) (gr_soft r)"

definition decide ::
  "string \<Rightarrow> kernel_reason list \<Rightarrow> kernel_reason list \<Rightarrow> verdict \<times> disposition \<times> bool \<times> kernel_reason list" where
  "decide mode hs ss =
     (if hs \<noteq> [] then
        (HARD_VETO, if mode = ''ENFORCE'' then block else allow_with_intended_block,
         mode \<noteq> ''ENFORCE'', hs)
      else if ss \<noteq> [] then (FLAG, allow_with_alert, True, ss)
      else (PASS, allow, True,
            [Because ''Score and configured constraint geometry are within policy bounds.'']))"

definition kernel_adjudicate ::
  "bool \<Rightarrow> kernel_policy \<Rightarrow> pynum \<Rightarrow> pynum \<Rightarrow> pynum \<Rightarrow> (string, pynum) dict option \<Rightarrow> string \<Rightarrow>
   string \<Rightarrow> kernel_reason list \<Rightarrow> kernel_reason list \<Rightarrow> kernel_error + adjudication" where
  "kernel_adjudicate cs pol pressure velocity capacity point gid mode hard soft =
     (let mode = upper mode in
      if mode \<notin> set valid_modes then Inl KernelInputError
      else if mode = ''SHADOW_OFF'' then
        Inr \<lparr>ad_policy = kp_version pol, ad_mode = mode, ad_score = None, ad_decision = NOT_EVALUATED,
             ad_disposition = allow_unobserved, ad_allowed = True,
             ad_rationale = [Because ''Governance evaluation is explicitly disabled in SHADOW_OFF.''],
             ad_geometry = None\<rparr>
      else
        bindE (unit_interval KernelInputError pressure) (\<lambda>p.
        bindE (unit_interval KernelInputError velocity) (\<lambda>v.
        bindE (unit_interval KernelInputError capacity) (\<lambda>k.
        bindE (s_score (kp_epsilon pol) p v k) (\<lambda>s.
        bindE (geometry_of cs pol point gid) (\<lambda>r.
          let (d, disp, allowed, why) =
                decide mode (hard_reasons pol s r hard) (soft_reasons pol s r soft)
          in Inr \<lparr>ad_policy = kp_version pol, ad_mode = mode, ad_score = Some (round8 s),
                  ad_decision = d, ad_disposition = disp, ad_allowed = allowed,
                  ad_rationale = why, ad_geometry = Some r\<rparr>))))))"

subsection \<open>Runtime objects\<close>

text \<open>The members of a validated schema 1.2 object that the kernel reads.\<close>

record runtime_object =
  ro_pressure :: pynum
  ro_velocity :: pynum
  ro_capacity :: pynum
  ro_option_space :: pynum
  ro_cooperative_control :: pynum
  ro_trajectory_risk :: pynum
  ro_materiality :: pynum
  ro_evidence_quality :: pynum
  ro_manipulation_risk :: pynum
  ro_drift :: pynum
  ro_authority :: pynum
  ro_context_fit :: pynum
  ro_geometry_id :: string
  ro_tau_integrity :: string
  ro_epistemic_status :: string
  ro_posture :: string
  ro_collapse_flags :: "string list"
  ro_pathway :: "(bool \<times> bool \<times> bool) option"

definition coordinates_from_runtime_object ::
  "runtime_object \<Rightarrow> kernel_error + (string, pyfloat) dict" where
  "coordinates_from_runtime_object o' = validate_point
     [(''pressure'', ro_pressure o'), (''velocity'', ro_velocity o'), (''capacity'', ro_capacity o'),
      (''option_space'', ro_option_space o'),
      (''cooperative_control_score'', ro_cooperative_control o'),
      (''trajectory_risk_score'', ro_trajectory_risk o'),
      (''irreversible_pathway_materiality'', ro_materiality o'),
      (''evidence_quality'', ro_evidence_quality o'), (''manipulation_risk'', ro_manipulation_risk o'),
      (''drift'', ro_drift o'), (''authority'', ro_authority o'), (''context_fit'', ro_context_fit o')]"

text \<open>Does the pathway need a human check that it lacks?\<close>

definition unverified_pathway :: "runtime_object \<Rightarrow> bool" where
  "unverified_pathway o' =
     (case ro_pathway o' of None \<Rightarrow> False | Some (affects, required, verified) \<Rightarrow>
        affects \<and> required \<and> \<not> verified)"

definition object_hard_reasons :: "runtime_object \<Rightarrow> kernel_reason list" where
  "object_hard_reasons o' =
     (if ro_tau_integrity o' = ''breached'' then [Because ''TENIR invariant tau is breached.''] else []) @
     (if ro_epistemic_status o' = ''invalid''
      then [Because ''Epistemic inputs are marked invalid.''] else []) @
     (if ro_posture o' = ''HOLDING-FIRST''
      then [Because ''The TENIR 2.0 posture is HOLDING-FIRST.''] else []) @
     (if ro_collapse_flags o' \<noteq> []
      then [Because ''TENIR 2.0 collapse flags are present.''] else []) @
     (if unverified_pathway o' then
        [Because ''Material irreversible-pathway evidence lacks required human verification.''] else [])"

definition object_soft_reasons :: "runtime_object \<Rightarrow> kernel_reason list" where
  "object_soft_reasons o' =
     (if ro_posture o' = ''CAUTION'' then [Because ''Runtime posture is CAUTION.''] else [])"

text \<open>
  \<open>adjudicate_runtime_object\<close>; \<open>validate\<close> is the schema check, with \<open>None\<close> for the object it
  refuses. The coordinates of the second stage are floats already.
\<close>

definition adjudicate_runtime_object ::
  "bool \<Rightarrow> kernel_policy \<Rightarrow> ('o \<Rightarrow> runtime_object option) \<Rightarrow> 'o \<Rightarrow> string \<Rightarrow>
   kernel_error + adjudication" where
  "adjudicate_runtime_object cs pol validate x mode =
     (if upper mode = ''SHADOW_OFF'' then
        kernel_adjudicate cs pol (NumFloat fzero) (NumFloat fzero) (NumFloat fzero) None
          ''tenir-2.0-reference'' mode [] []
      else
        (case validate x of
           None \<Rightarrow> Inl GeometryError
         | Some o' \<Rightarrow>
             bindE (coordinates_from_runtime_object o') (\<lambda>c.
               kernel_adjudicate cs pol (ro_pressure o') (ro_velocity o') (ro_capacity o')
                 (Some (map (\<lambda>(a, v). (a, NumFloat v)) c)) (ro_geometry_id o') mode
                 (object_hard_reasons o') (object_soft_reasons o'))))"

text \<open>
  \<open>PythonConnector.execute\<close>: the callable acts on a state \<open>'s\<close>; the result says whether it ran.
\<close>

datatype 'r guarded = Raised kernel_error | GovernanceBlocked adjudication | Ran 'r adjudication

definition connector_execute ::
  "bool \<Rightarrow> kernel_policy \<Rightarrow> ('o \<Rightarrow> runtime_object option) \<Rightarrow> string \<Rightarrow> 'o \<Rightarrow> ('s \<Rightarrow> 'r \<times> 's) \<Rightarrow> 's \<Rightarrow>
   'r guarded \<times> 's" where
  "connector_execute cs pol validate mode x action s =
     (case adjudicate_runtime_object cs pol validate x mode of
        Inl e \<Rightarrow> (Raised e, s)
      | Inr d \<Rightarrow>
          if \<not> ad_allowed d then (GovernanceBlocked d, s)
          else (let (r, s') = action s in (Ran r d, s')))"

subsection \<open>Rounding errors\<close>

lemma round_even_near: "\<bar>of_int (round_even x) - x\<bar> \<le> 1 / 2"
  using of_int_floor_le [of x] floor_correct [of x] unfolding round_even_def Let_def by (auto split: if_splits; linarith)

lemma flr_near:
  assumes "\<bar>x\<bar> \<le> 4"
  shows "\<bar>flr x - x\<bar> \<le> 1 / 10 ^ 15"
proof (cases "x = 0")
  case False
  have "lead_exp \<bar>x\<bar> \<le> lead_exp 4" using assms False by (intro lead_exp_mono) auto
  moreover have "lead_exp 4 = 2" by code_simp
  ultimately have "ulp x \<le> pow2 (- 50)" unfolding ulp_def by (intro pow2_mono) simp
  then have u: "ulp x \<le> 1 / 2 ^ 50" by (simp add: pow2_def)
  have "flr x - x = (of_int (round_even (x / ulp x)) - x / ulp x) * ulp x"
    using False less_imp_neq [OF ulp_pos [of x]] by (simp add: flr_def left_diff_distrib)
  then have "\<bar>flr x - x\<bar> = \<bar>of_int (round_even (x / ulp x)) - x / ulp x\<bar> * ulp x"
    by (simp add: abs_mult abs_of_pos [OF ulp_pos])
  also have "\<dots> \<le> 1 / 2 * ulp x"
    by (rule mult_right_mono [OF round_even_near less_imp_le [OF ulp_pos]])
  also have "\<dots> \<le> 1 / 10 ^ 15" using u by simp
  finally show ?thesis .
qed simp

lemma fl_small:
  assumes "\<bar>x\<bar> \<le> 4"
  shows "fl x = Fin (flr x)"
proof -
  have "(5::rat) < pow2 3" "pow2 3 \<le> pow2 1024" by (simp_all add: pow2_def pow2_mono)
  moreover have "(1 :: rat) / 10 ^ 15 \<le> 1" by simp
  then have "\<bar>flr x\<bar> \<le> 5" using flr_near [OF assms] assms by linarith
  ultimately show ?thesis by (cases rule: fl_cases [of x]) auto
qed

lemma isqrt_bounds: "isqrt n * isqrt n \<le> n \<and> n < (isqrt n + 1) * (isqrt n + 1)"
proof (induction n rule: isqrt.induct)
  case (1 n)
  show ?case
  proof (cases "n = 0")
    case False
    define m where "m = isqrt (n div 4)"
    have ih: "m * m \<le> n div 4" "n div 4 < (m + 1) * (m + 1)" using 1 [OF False] by (simp_all add: m_def)
    have "isqrt n = (if (2 * m + 1) * (2 * m + 1) \<le> n then 2 * m + 1 else 2 * m)"
      using False by (subst isqrt.simps) (simp add: m_def Let_def)
    moreover have "2 * m * (2 * m) \<le> n" using ih(1) by simp
    moreover have "n < (2 * m + 2) * (2 * m + 2)" using ih(2) by simp
    ultimately show ?thesis by simp
  qed (simp add: isqrt.simps)
qed

lemma in_unit_conv: "in_unit x \<longleftrightarrow> (\<exists>q. x = Fin q \<and> 0 \<le> q \<and> q \<le> 1)"
  by (cases x) (auto simp: in_unit_def ffinite_def fzero_def)

lemma unit_interval_Inr:
  assumes "unit_interval e v = Inr x"
  shows "in_unit x"
  using assms by (auto simp: unit_interval_def bindE_Inr_conv split: if_splits)

lemma unit_interval_float [simp]: "in_unit x \<Longrightarrow> unit_interval e (NumFloat x) = Inr x"
  by (simp add: unit_interval_def)

lemma fsum_one: "fsum cs [fl x] = fl x" if "\<bar>x\<bar> \<le> 4"
proof -
  have "fadd fzero (fl x) = fl x"
    using fl_small [OF that] fl_fin by (simp add: fzero_def)
  then show ?thesis by (cases cs) simp_all
qed


lemma fadd_near:
  assumes "\<bar>a + b\<bar> \<le> 4"
  obtains z where "fadd (Fin a) (Fin b) = Fin z" "\<bar>z - (a + b)\<bar> \<le> 1 / 10 ^ 15"
  using that [of "flr (a + b)"] flr_near [OF assms] fl_small [OF assms] by simp

text \<open>A difference of two floats of the unit interval, by either summation.\<close>

lemma fsum_diff:
  assumes "0 \<le> x" "x \<le> 1" "0 \<le> y" "y \<le> 1"
  obtains z where "fsum cs [fl x, fl (- y)] = Fin z" "\<bar>z - (x - y)\<bar> \<le> 1 / 10 ^ 14"
proof -
  define e :: rat where "e = 1 / 10 ^ 15"
  have e: "0 < e" "e \<le> 1 / 100" "1 / 10 ^ 14 = 10 * e" by (simp_all add: e_def)
  obtain A where A: "fl x = Fin A" "\<bar>A - x\<bar> \<le> e"
    using fl_small [of x] flr_near [of x] assms by (auto simp: e_def)
  obtain B where B: "fl (- y) = Fin B" "\<bar>B + y\<bar> \<le> e"
    using fl_small [of "- y"] flr_near [of "- y"] assms by (auto simp: e_def)
  have "\<bar>A + B\<bar> \<le> 4" using A B assms e by linarith
  then obtain t where t: "fadd (Fin A) (Fin B) = Fin t" "\<bar>t - (A + B)\<bar> \<le> e"
    unfolding e_def by (rule fadd_near)
  have first: "fadd fzero (Fin A) = Fin A" using fl_fin [OF A(1)] by (simp add: fzero_def)
  have near: "\<bar>t - (x - y)\<bar> \<le> 3 * e" using t A B by linarith
  show ?thesis
  proof (cases cs)
    case False
    with that [of t] t first near e show ?thesis by (simp add: A B)
  next
    case True
    define P Q where "P = (if fle (fabs (Fin B)) (fabs (Fin A)) then A else B)"
      and "Q = (if fle (fabs (Fin B)) (fabs (Fin A)) then B else A)"
    have PQ: "P + Q = A + B" by (simp add: P_def Q_def)
    have "\<bar>P + - t\<bar> \<le> 4" using A B t assms e by (simp add: P_def split: if_splits) linarith+
    then obtain u where u: "fadd (Fin P) (Fin (- t)) = Fin u" "\<bar>u - (P + - t)\<bar> \<le> e"
      unfolding e_def by (rule fadd_near)
    have "\<bar>u + Q\<bar> \<le> 4" using u t PQ e by linarith
    then obtain v where v: "fadd (Fin u) (Fin Q) = Fin v" "\<bar>v - (u + Q)\<bar> \<le> e"
      unfolding e_def by (rule fadd_near)
    have "\<bar>0 + v\<bar> \<le> 4" using u v t PQ e by linarith
    then obtain c where c: "fadd (Fin 0) (Fin v) = Fin c" "\<bar>c - (0 + v)\<bar> \<le> e"
      unfolding e_def by (rule fadd_near)
    have cs: "\<bar>c\<bar> \<le> 4 * e" using u v c t PQ by linarith
    have "\<bar>t + c\<bar> \<le> 4" using cs near assms e by linarith
    then obtain w where w: "fadd (Fin t) (Fin c) = Fin w" "\<bar>w - (t + c)\<bar> \<le> e"
      unfolding e_def by (rule fadd_near)
    have "neumaier (Fin A, Fin 0) (Fin B) = (Fin t, Fin c)"
      using t(1) u(1) v(1) c(1) by (auto simp: neumaier_def Let_def P_def Q_def fsub_def simp del: fadd.simps split: if_splits)
    then have "fsum True [fl x, fl (- y)] = (if c \<noteq> 0 then Fin w else Fin t)"
      using first w(1) by (simp add: A B fzero_def ffinite_def del: fadd.simps)
    moreover have "\<bar>w - (x - y)\<bar> \<le> 10 * e" using w cs near by linarith
    ultimately show ?thesis using that near e True by (cases "c = 0") auto
  qed
qed

subsection \<open>Evaluated facets\<close>

text \<open>A facet is respected: its axes are present and the point is inside, or it is only soft.\<close>

definition facet_holds :: "bool \<Rightarrow> (string, pyfloat) dict \<Rightarrow> facet \<Rightarrow> bool" where
  "facet_holds cs p f \<longleftrightarrow>
     missing_axes p f = [] \<and>
     (case facet_margin cs p f of Inl _ \<Rightarrow> False | Inr m \<Rightarrow> fc_severity f = ''soft'' \<or> \<not> flt m tolerance)"

lemma facet_step_hard:
  assumes "facet_step cs p f (rs, hs, ss, ms) = Inr (rs', [], ss', ms')"
  shows "hs = [] \<and> facet_holds cs p f"
  using assms
  by (auto simp: facet_step_def facet_holds_def bindE_Inr_conv Let_def split: if_splits)

lemma facets_loop_hard:
  assumes "facets_loop cs p fs (rs, hs, ss, ms) = Inr (rs', [], ss', ms')"
  shows "hs = [] \<and> list_all (facet_holds cs p) fs"
  using assms
proof (induction fs arbitrary: rs hs ss ms)
  case (Cons f fs)
  then obtain r h s m where st: "facet_step cs p f (rs, hs, ss, ms) = Inr (r, h, s, m)"
    and rest: "facets_loop cs p fs (r, h, s, m) = Inr (rs', [], ss', ms')"
    by (auto simp: bindE_Inr_conv)
  from Cons.IH [OF rest] st have "facet_step cs p f (rs, hs, ss, ms) = Inr (r, [], s, m)" by simp
  with Cons.IH [OF rest] show ?case by (auto dest: facet_step_hard)
qed simp

lemma evaluate_geometry_hard:
  assumes "evaluate_geometry cs point gid g = Inr r" and "gr_hard r = []"
  obtains p where "gid = ge_id g" "validate_point point = Inr p" "list_all (facet_holds cs p) (ge_facets g)"
  using assms that facets_loop_hard [THEN conjunct2]
  by (auto simp: evaluate_geometry_def infeasible_def bindE_Inr_conv split: if_splits; blast)

lemma validate_point_unit:
  assumes "validate_point q = Inr p" and "map_of p a = Some x"
  shows "in_unit x"
  using assms map_of_SomeD [OF assms(2)]
  by (auto simp: validate_point_def bindE_Inr_conv split: if_splits dest!: mapE_Inr_set dest: unit_interval_Inr)

lemma mapE_unit_float:
  "list_all (\<lambda>(_, x). in_unit x) p \<Longrightarrow>
     mapE (\<lambda>(a, v). bindE (unit_interval e v) (\<lambda>x. Inr (a, x))) (map (\<lambda>(a, x). (a, NumFloat x)) p) = Inr p"
  by (induction p) auto

lemma mapE_keys:
  "mapE (\<lambda>(a, v). bindE (unit_interval e v) (\<lambda>x. Inr (a, x))) q = Inr p \<Longrightarrow> map fst p = map fst q"
  by (induction q arbitrary: p) (auto simp: bindE_Inr_conv)

text \<open>A point that was validated is validated again without a change.\<close>

lemma validate_point_again:
  assumes "validate_point q = Inr p"
  shows "validate_point (map (\<lambda>(a, x). (a, NumFloat x)) p) = Inr p"
proof -
  have ok: "\<not> list_ex (\<lambda>(a, _). a \<notin> set allowed_axes) q"
    and m: "mapE (\<lambda>(a, v). bindE (unit_interval GeometryError v) (\<lambda>x. Inr (a, x))) q = Inr p"
    using assms by (auto simp: validate_point_def split: if_splits)
  have "map fst p = map fst q" by (rule mapE_keys [OF m])
  then have "set (map fst p) = set (map fst q)" by simp
  then have "\<not> list_ex (\<lambda>(a, _). a \<notin> set allowed_axes) (map (\<lambda>(a, x). (a, NumFloat x)) p)"
    using ok by (force simp: list_ex_iff)
  moreover have "list_all (\<lambda>(_, x). in_unit x) p"
    using mapE_Inr_set [OF m] by (fastforce simp: list_all_iff bindE_Inr_conv dest: unit_interval_Inr)
  ultimately show ?thesis by (simp add: validate_point_def mapE_unit_float)
qed

subsection \<open>The facets of the reference geometry, as bounds on real numbers\<close>

lemma isqrt_unique: "r * r \<le> n \<Longrightarrow> n < (r + 1) * (r + 1) \<Longrightarrow> isqrt n = r"
proof -
  assume r: "r * r \<le> n" "n < (r + 1) * (r + 1)"
  have "isqrt n < r + 1"
    using isqrt_bounds [of n] r(2) mult_le_mono [of "r + 1" "isqrt n" "r + 1" "isqrt n"] by linarith
  moreover have "r < isqrt n + 1"
    using isqrt_bounds [of n] r(1) mult_le_mono [of "isqrt n + 1" r "isqrt n + 1" r] by linarith
  ultimately show ?thesis by simp
qed

lemma lead_exp_unique: "pow2 k \<le> x \<Longrightarrow> x < pow2 (k + 1) \<Longrightarrow> lead_exp x = k"
proof -
  assume x: "pow2 k \<le> x" "x < pow2 (k + 1)"
  then have p: "0 < x" using pow2_pos [of k] by linarith
  have "\<not> lead_exp x + 1 \<le> k" using pow2_mono [of "lead_exp x + 1" k] lead_exp_bounds [OF p] x by linarith
  moreover have "\<not> k + 1 \<le> lead_exp x" using pow2_mono [of "k + 1" "lead_exp x"] lead_exp_bounds [OF p] x by linarith
  ultimately show ?thesis by simp
qed

lemma fl_binade:
  assumes "1 \<le> x" and "x < 2"
  shows "fl x = Fin (of_int (round_even (x * 4503599627370496)) / 4503599627370496)"
proof -
  have "lead_exp x = 0" using assms by (intro lead_exp_unique) (simp_all add: pow2_def)
  then have u: "ulp x = 1 / 4503599627370496" using assms by (simp add: ulp_def pow2_def)
  have "flr x = of_int (round_even (x * 4503599627370496)) / 4503599627370496"
    using assms by (simp add: flr_def) (simp add: u)
  then show ?thesis using fl_small [of x] assms by simp
qed

lemma fsqrt_values:
  "fsqrt (Fin 1) = Fin 1"
  "fsqrt (Fin 2) = Fin (6369051672525773 / 4503599627370496)"
  "fsqrt (Fin 3) = Fin (3900231685776981 / 2251799813685248)"
proof -
  have l: "lead_exp 1 = 0" "lead_exp 2 = 1" "lead_exp 3 = 1" by code_simp+
  have i: "isqrt 1329227995784915872903807060280344576 = 1152921504606846976"
    "isqrt 2658455991569831745807614120560689152 = 1630477228166597776"
    "isqrt 3987683987354747618711421180841033728 = 1996918623117814387"
    by (rule isqrt_unique; simp)+
  have fs: "\<lfloor>3260954456333195553 / 512 :: rat\<rfloor> = 6369051672525772" "\<lfloor>3993837246235628775 / 512 :: rat\<rfloor> = 7800463371553962"
    by (rule floor_unique; simp)+
  have f: "fl (1152921504606846976 / 1152921504606846976) = Fin 1"
    "fl (3260954456333195553 / 2305843009213693952) = Fin (6369051672525773 / 4503599627370496)"
    "fl (3993837246235628775 / 2305843009213693952) = Fin (3900231685776981 / 2251799813685248)"
    by (simp_all add: fl_binade round_even_def Let_def fs)
  show "fsqrt (Fin 1) = Fin 1" using l(1) i(1) f(1) by (simp add: pow2_def Let_def)
  show "fsqrt (Fin 2) = Fin (6369051672525773 / 4503599627370496)"
    using l(2) i(2) f(2) by (simp add: pow2_def Let_def)
  show "fsqrt (Fin 3) = Fin (3900231685776981 / 2251799813685248)"
    using l(3) i(3) f(3) by (simp add: pow2_def Let_def)
qed

lemma fsum_values: "fsum cs [fl 1] = Fin 1" "fsum cs [fl 1, fl 1] = Fin 2" "fsum cs [fl 1, fl 1, fl 1] = Fin 3"
proof -
  have "fsum True [fl 1] = Fin 1" "fsum False [fl 1] = Fin 1"
    "fsum True [fl 1, fl 1] = Fin 2" "fsum False [fl 1, fl 1] = Fin 2"
    "fsum True [fl 1, fl 1, fl 1] = Fin 3" "fsum False [fl 1, fl 1, fl 1] = Fin 3" by code_simp+
  then show "fsum cs [fl 1] = Fin 1" "fsum cs [fl 1, fl 1] = Fin 2" "fsum cs [fl 1, fl 1, fl 1] = Fin 3"
    by (cases cs; simp only:)+
qed

lemma norm_one: "fsqrt (fsum cs [fmul (Fin (- 1)) (Fin (- 1))]) = Fin 1"
  using fsum_values(1) fsqrt_values(1) by (simp del: fsum.simps fsqrt.simps)

lemma norm_two:
  "fsqrt (fsum cs [fmul (Fin 1) (Fin 1), fmul (Fin (- 1)) (Fin (- 1))]) = Fin (6369051672525773 / 4503599627370496)"
  using fsum_values(2) fsqrt_values(2) by (simp del: fsum.simps fsqrt.simps)

lemma floor_facet:
  assumes "facet_holds cs p f" and "fc_normal f = [(a, Fin (- 1))]" and "fc_bound f = Fin (- 1 / 2)"
    and "fc_severity f = ''hard''" and "map_of p a = Some (Fin x)" and "0 \<le> x" and "x \<le> 1"
  shows "1 / 2 - 1 / 100000000 \<le> x"
proof -
  define e :: rat where "e = 1 / 10 ^ 15"
  have e: "0 < e" "e \<le> 1 / 100" "100 * e \<le> 1 / 1000000000" by (simp_all add: e_def)
  obtain v where v: "fl (- x) = Fin v" "\<bar>v + x\<bar> \<le> e"
    using fl_small [of "- x"] flr_near [of "- x"] assms by (auto simp: e_def)
  have sum: "fsum cs [fmul (Fin (- 1)) (Fin x)] = Fin v"
    using fsum_one [of "- x" cs] assms v by simp
  have "\<bar>- 1 / 2 + - v\<bar> \<le> 4" using v assms e by linarith
  then obtain d where d: "fadd (Fin (- 1 / 2)) (Fin (- v)) = Fin d" "\<bar>d - (- 1 / 2 + - v)\<bar> \<le> e"
    unfolding e_def by (rule fadd_near)
  have "\<bar>d\<bar> \<le> 4" using d v assms e by linarith
  then have m: "fdiv (Fin d) (Fin 1) = Fin (flr d)" "\<bar>flr d - d\<bar> \<le> e"
    using fl_small [of d] flr_near [of d] by (simp_all add: e_def)
  have "facet_margin cs p f = Inr (Fin (flr d))"
    using norm_one [of cs] sum d m by (simp add: facet_margin_def assms fsub_def fzero_def Let_def del: fsum.simps fmul.simps fadd.simps fdiv.simps)
  with assms have "\<not> flt (Fin (flr d)) tolerance" by (simp add: facet_holds_def)
  then have "- 2 / 1000000000 \<le> flr d" by (simp add: tolerance_def)
  moreover have "(2::rat) / 1000000000 + 1 / 1000000000 \<le> 1 / 100000000" by simp
  ultimately show ?thesis using m d v e by linarith
qed

lemma boundary_facet:
  assumes "facet_holds cs p f" and "fc_normal f = [(a, Fin 1), (b, Fin (- 1))]" and "fc_bound f = Fin (1 / 4)"
    and "fc_severity f = ''hard''" and "map_of p a = Some (Fin x)" and "0 \<le> x" and "x \<le> 1"
    and "map_of p b = Some (Fin y)" and "0 \<le> y" and "y \<le> 1"
  shows "x - y \<le> 1 / 4 + 1 / 100000000"
proof -
  define e :: rat where "e = 1 / 10 ^ 15"
  define n :: rat where "n = 6369051672525773 / 4503599627370496"
  have e: "0 < e" "e \<le> 1 / 100" "100 * e \<le> 1 / 1000000000" "1 / 10 ^ 14 = 10 * e" by (simp_all add: e_def)
  obtain v where v: "fsum cs [fl x, fl (- y)] = Fin v" "\<bar>v - (x - y)\<bar> \<le> 10 * e"
    using fsum_diff [of x y cs] assms e by metis
  have sum: "fsum cs [fmul (Fin 1) (Fin x), fmul (Fin (- 1)) (Fin y)] = Fin v" using v by simp
  have "\<bar>1 / 4 + - v\<bar> \<le> 4" using v assms e by linarith
  then obtain d where d: "fadd (Fin (1 / 4)) (Fin (- v)) = Fin d" "\<bar>d - (1 / 4 + - v)\<bar> \<le> e"
    unfolding e_def by (rule fadd_near)
  have dn: "d / n = d * (4503599627370496 / 6369051672525773)" by (simp add: n_def)
  have "\<bar>d\<bar> \<le> 3" using d v assms e by linarith
  then have "\<bar>d / n\<bar> \<le> 4" unfolding dn by (simp add: abs_mult)
  then have m: "fdiv (Fin d) (Fin n) = Fin (flr (d / n))" "\<bar>flr (d / n) - d / n\<bar> \<le> e"
    using fl_small [of "d / n"] flr_near [of "d / n"] by (simp_all add: e_def)
  have "facet_margin cs p f = Inr (Fin (flr (d / n)))"
    using norm_two [of cs, folded n_def] sum d m
    by (simp add: facet_margin_def assms fsub_def fzero_def Let_def n_def del: fsum.simps fmul.simps fadd.simps fdiv.simps)
  with assms have "\<not> flt (Fin (flr (d / n))) tolerance" by (simp add: facet_holds_def)
  then have "- 2 / 1000000000 \<le> flr (d / n)" by (simp add: tolerance_def)
  then have "- 3 / 1000000000 \<le> d * (4503599627370496 / 6369051672525773)" using m e dn by linarith
  then have "- 5 / 1000000000 \<le> d" by linarith
  moreover have "(5::rat) / 1000000000 + 1 / 1000000000 \<le> 1 / 100000000" by simp
  ultimately show ?thesis using d v e by linarith
qed

subsection \<open>What ENFORCE lets through\<close>

lemma score_bound:
  assumes "s_score (kp_epsilon default_kernel_policy) (Fin p) (Fin v) (Fin k) = Inr s"
    and "\<not> fle s (kp_hard_veto_below default_kernel_policy)"
    and "0 \<le> p" "p \<le> 1" "0 \<le> v" "v \<le> 1"
  shows "3 / 4 * p * v \<le> k"
proof -
  define e :: rat where "e = 1 / 10 ^ 15"
  define eps :: rat where "eps = 4722366482869645 / 4722366482869645213696"
  have e: "0 < e" "e \<le> 1 / 100" "2 * e < eps" "eps \<le> 1" by (simp_all add: e_def eps_def)
  have pv: "0 \<le> p * v" "p * v \<le> 1" using assms(3-) mult_le_one [of p v] by simp_all
  have m: "fl (p * v) = Fin (flr (p * v))" "\<bar>flr (p * v) - p * v\<bar> \<le> e"
    using pv fl_small [of "p * v"] flr_near [of "p * v"] by (simp_all add: e_def)
  have "\<bar>flr (p * v) + eps\<bar> \<le> 4" using pv m e by linarith
  then obtain d where d: "fadd (Fin (flr (p * v))) (Fin eps) = Fin d" "\<bar>d - (flr (p * v) + eps)\<bar> \<le> e"
    unfolding e_def by (rule fadd_near)
  have gt: "p * v < d" using d m e by linarith
  then have "d \<noteq> 0" "0 < d" using pv by auto
  then have s: "s = fl (k / d)"
    using assms(1) m(1) d(1)
    by (simp add: s_score_def default_kernel_policy_def Let_def fzero_def eps_def del: fadd.simps split: if_splits)
  have "fl (3 / 4) = Fin (3 / 4)" by code_simp
  then have "\<not> k / d \<le> 3 / 4"
    using fl_mono [of "k / d" "3 / 4"] assms(2) s by (auto simp: default_kernel_policy_def)
  then have "3 / 4 * d < k" using \<open>0 < d\<close> by (simp add: divide_simps split: if_splits)
  with gt show ?thesis by (simp add: mult.assoc)
qed

lemma kernel_allows:
  assumes "kernel_adjudicate cs pol pressure velocity capacity point gid mode hard soft = Inr d"
    and "upper mode = ''ENFORCE''" and "ad_allowed d"
  obtains p v k s r where "unit_interval KernelInputError pressure = Inr p"
    "unit_interval KernelInputError velocity = Inr v" "unit_interval KernelInputError capacity = Inr k"
    "s_score (kp_epsilon pol) p v k = Inr s" "\<not> fle s (kp_hard_veto_below pol)"
    "geometry_of cs pol point gid = Inr r" "gr_hard r = []" "hard = []"
  using assms that
  by (auto simp: kernel_adjudicate_def valid_modes_def bindE_Inr_conv decide_def hard_reasons_def Let_def
      split: if_splits)

lemma geometry_allows:
  assumes "geometry_of cs pol (Some point) gid = Inr r" and "gr_hard r = []"
  obtains p where "gid = ge_id (kp_geometry pol)" "validate_point point = Inr p"
    "list_all (facet_holds cs p) (ge_facets (kp_geometry pol))"
  using assms by (auto simp: geometry_of_def elim: evaluate_geometry_hard)

text \<open>What a runtime object satisfies when ENFORCE lets its action run under the default policy.\<close>

definition clears_reference :: "runtime_object \<Rightarrow> bool" where
  "clears_reference o' \<longleftrightarrow>
     (\<exists>p v k a c m.
        unit_interval KernelInputError (ro_pressure o') = Inr (Fin p) \<and>
        unit_interval KernelInputError (ro_velocity o') = Inr (Fin v) \<and>
        unit_interval KernelInputError (ro_capacity o') = Inr (Fin k) \<and> 3 / 4 * p * v \<le> k \<and>
        unit_interval GeometryError (ro_authority o') = Inr (Fin a) \<and> 1 / 2 - 1 / 100000000 \<le> a \<and>
        unit_interval GeometryError (ro_context_fit o') = Inr (Fin c) \<and> 1 / 2 - 1 / 100000000 \<le> c \<and>
        unit_interval GeometryError (ro_materiality o') = Inr (Fin m) \<and>
        m - a \<le> 1 / 4 + 1 / 100000000) \<and>
     ro_geometry_id o' = ''tenir-2.0-reference'' \<and> ro_tau_integrity o' \<noteq> ''breached'' \<and>
     ro_epistemic_status o' \<noteq> ''invalid'' \<and> ro_posture o' \<noteq> ''HOLDING-FIRST'' \<and>
     ro_collapse_flags o' = [] \<and> \<not> unverified_pathway o'"

lemma coordinates_read:
  assumes "coordinates_from_runtime_object o' = Inr p"
  shows "map_of p ''authority'' = Some a \<Longrightarrow> unit_interval GeometryError (ro_authority o') = Inr a"
    and "map_of p ''context_fit'' = Some a \<Longrightarrow> unit_interval GeometryError (ro_context_fit o') = Inr a"
    and "map_of p ''irreversible_pathway_materiality'' = Some a \<Longrightarrow>
      unit_interval GeometryError (ro_materiality o') = Inr a"
  using assms
  by (auto simp: coordinates_from_runtime_object_def validate_point_def bindE_Inr_conv split: if_splits)

lemma object_clears:
  assumes "adjudicate_runtime_object cs default_kernel_policy validate x mode = Inr d"
    and "upper mode = ''ENFORCE''" and "ad_allowed d"
  shows "\<exists>o'. validate x = Some o' \<and> clears_reference o'"
proof -
  obtain o' c where o': "validate x = Some o'" and c: "coordinates_from_runtime_object o' = Inr c"
    and ka: "kernel_adjudicate cs default_kernel_policy (ro_pressure o') (ro_velocity o') (ro_capacity o')
          (Some (map (\<lambda>(a, v). (a, NumFloat v)) c)) (ro_geometry_id o') mode
          (object_hard_reasons o') (object_soft_reasons o') = Inr d"
    using assms by (auto simp: adjudicate_runtime_object_def bindE_Inr_conv split: option.splits)
  obtain p v k s r where
    u: "unit_interval KernelInputError (ro_pressure o') = Inr p"
      "unit_interval KernelInputError (ro_velocity o') = Inr v"
      "unit_interval KernelInputError (ro_capacity o') = Inr k"
    and s: "s_score (kp_epsilon default_kernel_policy) p v k = Inr s"
      "\<not> fle s (kp_hard_veto_below default_kernel_policy)"
    and r: "geometry_of cs default_kernel_policy (Some (map (\<lambda>(a, v). (a, NumFloat v)) c)) (ro_geometry_id o') = Inr r"
      "gr_hard r = []" and h: "object_hard_reasons o' = []"
    using ka assms(2,3) by (rule kernel_allows)
  obtain q where gid: "ro_geometry_id o' = ge_id (kp_geometry default_kernel_policy)"
    and q: "validate_point (map (\<lambda>(a, v). (a, NumFloat v)) c) = Inr q"
    and fs: "list_all (facet_holds cs q) (ge_facets (kp_geometry default_kernel_policy))"
    using r by (rule geometry_allows)
  have "validate_point (map (\<lambda>(a, v). (a, NumFloat v)) c) = Inr c"
    using c unfolding coordinates_from_runtime_object_def by (rule validate_point_again)
  with q have [simp]: "q = c" by simp
  have facets: "list_all (facet_holds cs c) (ge_facets reference_geometry)"
    using fs by (simp add: default_kernel_policy_def)
  then obtain a f m where ax: "map_of c ''authority'' = Some a" "map_of c ''context_fit'' = Some f"
    "map_of c ''irreversible_pathway_materiality'' = Some m"
    by (auto simp: reference_geometry_def facet_holds_def missing_axes_def split: if_splits)
  have unit: "in_unit a" "in_unit f" "in_unit m"
    using ax c validate_point_unit unfolding coordinates_from_runtime_object_def by blast+
  then obtain a' f' m' where fin: "a = Fin a'" "f = Fin f'" "m = Fin m'"
    and b: "0 \<le> a'" "a' \<le> 1" "0 \<le> f'" "f' \<le> 1" "0 \<le> m'" "m' \<le> 1"
    by (auto simp: in_unit_conv)
  obtain p' v' k' where fin': "p = Fin p'" "v = Fin v'" "k = Fin k'"
    and b': "0 \<le> p'" "p' \<le> 1" "0 \<le> v'" "v' \<le> 1"
    using u [THEN unit_interval_Inr] by (auto simp: in_unit_conv)
  have score: "3 / 4 * p' * v' \<le> k'" using s b' unfolding fin' by (rule score_bound)
  let ?f = "\<lambda>i. ge_facets reference_geometry ! i"
  have "length (ge_facets reference_geometry) = 5" by (simp add: reference_geometry_def)
  then have holds: "facet_holds cs c (?f 0)" "facet_holds cs c (?f 1)" "facet_holds cs c (?f 2)"
    using facets by (simp_all only: list_all_length)
  have shape: "fc_normal (?f 0) = [(''authority'', Fin (- 1))]" "fc_normal (?f 1) = [(''context_fit'', Fin (- 1))]"
    "fc_normal (?f 2) = [(''irreversible_pathway_materiality'', Fin 1), (''authority'', Fin (- 1))]"
    "fc_bound (?f 0) = Fin (- 1 / 2)" "fc_bound (?f 1) = Fin (- 1 / 2)" "fc_bound (?f 2) = Fin (1 / 4)"
    "fc_severity (?f 0) = ''hard''" "fc_severity (?f 1) = ''hard''" "fc_severity (?f 2) = ''hard''"
    by (simp_all add: reference_geometry_def)
  have "1 / 2 - 1 / 100000000 \<le> a'"
    using floor_facet [OF holds(1) shape(1,4,7)] ax(1) fin(1) b by blast
  moreover have "1 / 2 - 1 / 100000000 \<le> f'"
    using floor_facet [OF holds(2) shape(2,5,8)] ax(2) fin(2) b by blast
  moreover have "m' - a' \<le> 1 / 4 + 1 / 100000000"
    using boundary_facet [OF holds(3) shape(3,6,9)] ax(1,3) fin(1,3) b by blast
  ultimately have facts: "1 / 2 - 1 / 100000000 \<le> a'" "1 / 2 - 1 / 100000000 \<le> f'"
    "m' - a' \<le> 1 / 4 + 1 / 100000000" by blast+
  with score u coordinates_read [OF c] ax gid h o' facts show ?thesis
    unfolding clears_reference_def fin fin'
    by (auto simp: default_kernel_policy_def reference_geometry_def object_hard_reasons_def split: if_splits)
qed

text \<open>
  C16. Under the default policy in ENFORCE mode, the Python connector lets an action change the
  state only for an object that passed the schema check and satisfies the reference geometry in
  real arithmetic up to \<open>10 ^ -8\<close>, whatever the rounding of the floats and whichever summation the
  interpreter uses: authority and context fit at least one half, materiality at most a quarter
  above authority, capacity at least three quarters of pressure times velocity; and none of the
  object's own hard conditions holds.
\<close>

theorem connector_guards:
  assumes "upper mode = ''ENFORCE''"
    and "snd (connector_execute cs default_kernel_policy validate mode x action s) \<noteq> s"
  shows "\<exists>o'. validate x = Some o' \<and> clears_reference o'"
  using assms object_clears [of cs validate x mode]
  by (auto simp: connector_execute_def split: sum.splits if_splits)

text \<open>A runtime object at the best corner of the unit cube, and the kernel's answer to it.\<close>

definition calm_object :: runtime_object where
  "calm_object =
     \<lparr>ro_pressure = NumInt 0, ro_velocity = NumInt 0, ro_capacity = NumInt 1, ro_option_space = NumInt 1,
      ro_cooperative_control = NumInt 1, ro_trajectory_risk = NumInt 0, ro_materiality = NumInt 0,
      ro_evidence_quality = NumInt 1, ro_manipulation_risk = NumInt 0, ro_drift = NumInt 0,
      ro_authority = NumInt 1, ro_context_fit = NumInt 1, ro_geometry_id = ''tenir-2.0-reference'',
      ro_tau_integrity = ''intact'', ro_epistemic_status = ''ok'', ro_posture = ''NORMAL'',
      ro_collapse_flags = [], ro_pathway = Some (True, True, True)\<rparr>"

lemma nonneg_inside: "0 \<le> x \<Longrightarrow> \<not> flt (fl x) tolerance"
  using fl_nonneg [of x] by (cases "fl x") (auto simp: tolerance_def fzero_def)

lemma calm_floats: "fl 1 = Fin 1" "fl (- 1) = Fin (- 1)" "fl 2 = Fin 2" "fl 3 = Fin 3" "fl (1 / 2) = Fin (1 / 2)"
    "fl (5 / 4) = Fin (5 / 4)" "fl (7 / 4) = Fin (7 / 4)" 
  by code_simp+

lemma fl_epsilon:
  "fl (4722366482869645 / 4722366482869645213696) = Fin (4722366482869645 / 4722366482869645213696)"
proof -
  let ?e = "4722366482869645 / 4722366482869645213696 :: rat"
  have "lead_exp ?e = - 20" by (rule lead_exp_unique) (simp_all add: pow2_def)
  then have "flr ?e = ?e" by (intro flr_fixed [of _ 4722366482869645 "- 72"]) (simp_all add: pow2_def)
  then show ?thesis using fl_small [of ?e] by simp
qed

lemma calm_score: "\<exists>s. s_score (kp_epsilon default_kernel_policy) (Fin 0) (Fin 0) (Fin 1) = Inr s \<and> \<not> fle s (Fin (3 / 4))"
proof -
  let ?e = "4722366482869645 / 4722366482869645213696 :: rat"
  have "fle (fl 1) (fl (1 / ?e))" by (rule fl_mono) simp
  then have "\<not> fle (fl (1 / ?e)) (Fin (3 / 4))" by (cases "fl (1 / ?e)") (auto simp: calm_floats)
  moreover have "s_score (kp_epsilon default_kernel_policy) (Fin 0) (Fin 0) (Fin 1) = Inr (fl (1 / ?e))"
    by (simp add: s_score_def default_kernel_policy_def fzero_def fl_epsilon)
  ultimately show ?thesis by blast
qed

lemma tolerance_half: "\<not> flt (Fin (1 / 2)) tolerance"
  by (simp add: tolerance_def)

lemma calm_coordinates: "coordinates_from_runtime_object calm_object = Inr
     [(''pressure'', Fin 0), (''velocity'', Fin 0), (''capacity'', Fin 1), (''option_space'', Fin 1),
      (''cooperative_control_score'', Fin 1), (''trajectory_risk_score'', Fin 0),
      (''irreversible_pathway_materiality'', Fin 0), (''evidence_quality'', Fin 1),
      (''manipulation_risk'', Fin 0), (''drift'', Fin 0), (''authority'', Fin 1), (''context_fit'', Fin 1)]"
  by code_simp

lemma calm_facets:
  assumes "p = [(''pressure'', Fin 0), (''velocity'', Fin 0), (''capacity'', Fin 1), (''option_space'', Fin 1),
      (''cooperative_control_score'', Fin 1), (''trajectory_risk_score'', Fin 0),
      (''irreversible_pathway_materiality'', Fin 0), (''evidence_quality'', Fin 1),
      (''manipulation_risk'', Fin 0), (''drift'', Fin 0), (''authority'', Fin 1), (''context_fit'', Fin 1)]"
  shows "\<exists>r. facets_loop False p (ge_facets reference_geometry) ([], [], [], []) = Inr r \<and> fst (snd r) = []"
  using fsqrt_values
  by (simp add: assms reference_geometry_def facet_step_def missing_axes_def facet_margin_def Let_def
      calm_floats fzero_def fsub_def nonneg_inside tolerance_half del: fsqrt.simps)

theorem connector_guards_witness:
  "snd (connector_execute False default_kernel_policy Some ''enforce'' calm_object (\<lambda>n :: nat. ((), n + 1)) 0) \<noteq> 0 \<and>
   (\<exists>o'. Some calm_object = Some o' \<and> clears_reference o')"
proof -
  obtain c where c: "coordinates_from_runtime_object calm_object = Inr c"
    and l: "\<exists>r. facets_loop False c (ge_facets reference_geometry) ([], [], [], []) = Inr r \<and> fst (snd r) = []"
    using calm_coordinates calm_facets by blast
  then obtain rs ss ms where r: "facets_loop False c (ge_facets reference_geometry) ([], [], [], []) = Inr (rs, [], ss, ms)"
    by auto
  have v: "validate_point (map (\<lambda>(a, v). (a, NumFloat v)) c) = Inr c"
    using c unfolding coordinates_from_runtime_object_def by (rule validate_point_again)
  obtain s where s: "s_score (kp_epsilon default_kernel_policy) (Fin 0) (Fin 0) (Fin 1) = Inr s" "\<not> fle s (Fin (3 / 4))"
    using calm_score by blast
  have u: "unit_interval KernelInputError (NumInt 0) = Inr (Fin 0)" "unit_interval KernelInputError (NumInt 1) = Inr (Fin 1)"
    by code_simp+
  have up: "upper ''enforce'' = ''ENFORCE''" by code_simp
  have ran: "snd (connector_execute False default_kernel_policy Some ''enforce'' calm_object (\<lambda>n :: nat. ((), n + 1)) 0) \<noteq> 0"
    using c v r s u up
    by (simp add: connector_execute_def adjudicate_runtime_object_def kernel_adjudicate_def calm_object_def
        geometry_of_def evaluate_geometry_def valid_modes_def decide_def hard_reasons_def object_hard_reasons_def
        unverified_pathway_def default_kernel_policy_def reference_geometry_def Let_def)
  with connector_guards [OF up ran] show ?thesis by simp
qed

subsection \<open>Modes, and inputs that are always answered\<close>

text \<open>The evaluated modes differ in what is allowed, never in the score, the decision or its reasons.\<close>

lemma kernel_mode_blind:
  assumes "upper m1 \<in> set (tl valid_modes)" and "upper m2 \<in> set (tl valid_modes)"
  shows "map_sum id (\<lambda>d. (ad_score d, ad_decision d, ad_rationale d, ad_geometry d))
      (kernel_adjudicate cs pol p v k point gid m1 hard soft) =
    map_sum id (\<lambda>d. (ad_score d, ad_decision d, ad_rationale d, ad_geometry d))
      (kernel_adjudicate cs pol p v k point gid m2 hard soft)"
  using assms
  by (auto simp: kernel_adjudicate_def valid_modes_def bindE_def decide_def Let_def split: sum.splits)

lemma shadow_allows:
  assumes "kernel_adjudicate cs pol p v k point gid mode hard soft = Inr d" and "\<not> ad_allowed d"
  shows "ad_mode d = ''ENFORCE'' \<and> ad_decision d = HARD_VETO \<and> ad_disposition d = block"
  using assms
  by (auto simp: kernel_adjudicate_def bindE_Inr_conv decide_def Let_def split: if_splits)

lemma reference_norms:
  assumes "f \<in> set (ge_facets reference_geometry)"
  shows "fsqrt (fsum cs (map (\<lambda>(_, c). fmul c c) (fc_normal f))) \<noteq> fzero"
  using assms fsum_values [of cs] fsqrt_values
  by (auto simp: reference_geometry_def fzero_def simp del: fsum.simps fsqrt.simps)

lemma facets_loop_total:
  assumes "\<And>f. f \<in> set fs \<Longrightarrow> fsqrt (fsum cs (map (\<lambda>(_, c). fmul c c) (fc_normal f))) \<noteq> fzero"
  shows "\<exists>y. facets_loop cs p fs acc = Inr y"
  using assms
proof (induction fs arbitrary: acc)
  case (Cons f fs)
  then have "\<exists>y. facet_step cs p f acc = Inr y"
    by (cases acc) (simp add: facet_step_def facet_margin_def Let_def)
  then obtain y where y: "facet_step cs p f acc = Inr y" by blast
  have "\<exists>z. facets_loop cs p fs y = Inr z" using Cons.prems by (intro Cons.IH) simp
  with y show ?case by simp
qed (metis facets_loop.simps(1))

lemma calm_denominator:
  assumes "in_unit p" and "in_unit v"
  shows "\<exists>s. s_score (kp_epsilon default_kernel_policy) p v k = Inr s"
proof -
  define eps :: rat where "eps = 4722366482869645 / 4722366482869645213696"
  obtain x y where xy: "p = Fin x" "v = Fin y" "0 \<le> x" "x \<le> 1" "0 \<le> y" "y \<le> 1"
    using assms by (auto simp: in_unit_conv)
  then have "0 \<le> x * y" "x * y \<le> 1" using mult_le_one [of x y] by simp_all
  then have m: "fl (x * y) = Fin (flr (x * y))" "0 \<le> flr (x * y)"
    using fl_small [of "x * y"] flr_nonneg [of "x * y"] by simp_all
  have "fle (fl eps) (fl (flr (x * y) + eps))" using m(2) by (intro fl_mono) simp
  then have "fl (flr (x * y) + eps) \<noteq> fzero" using fl_epsilon by (auto simp: eps_def fzero_def)
  then show ?thesis
    using xy m by (simp add: s_score_def default_kernel_policy_def Let_def eps_def)
qed

lemma kernel_total:
  assumes "upper mode \<in> set valid_modes" and "in_unit p" and "in_unit v" and "in_unit k"
    and "validate_point point = Inr q"
  shows "\<exists>d. kernel_adjudicate cs default_kernel_policy (NumFloat p) (NumFloat v) (NumFloat k)
    (Some point) gid mode hard soft = Inr d"
proof -
  obtain s where s: "s_score (kp_epsilon default_kernel_policy) p v k = Inr s"
    using calm_denominator assms(2,3) by blast
  have "\<exists>y. facets_loop cs q (ge_facets reference_geometry) ([], [], [], []) = Inr y"
    using reference_norms by (rule facets_loop_total)
  then have "\<exists>r. geometry_of cs default_kernel_policy (Some point) gid = Inr r"
    using assms(5)
    by (auto simp: geometry_of_def evaluate_geometry_def default_kernel_policy_def)
  with s assms(1-4) show ?thesis by (auto simp: kernel_adjudicate_def decide_def Let_def)
qed

end
