(* ===== verification/Scoring_Adapter.thy ===== *)
theory Scoring_Adapter
  imports Tenir_Kernel Lattice
begin

section \<open>The governor's adapter of the scoring kernel\<close>

text \<open>
  \<open>ScoringKernelAdapter\<close> of \<open>tenir_governance/composition/governor.py\<close>, and the composition of its
  answer with the membrane's. Inputs are floats; a missing measurement is \<open>None\<close>.
\<close>

record adapter =
  ap_policy :: kernel_policy
  ap_tau_floor :: pyfloat
  ap_option_alert :: pyfloat
  ap_option_block :: pyfloat

text \<open>The default floors, each decimal as the float nearest to it.\<close>

definition default_adapter :: adapter where
  "default_adapter =
     \<lparr>ap_policy = default_kernel_policy, ap_tau_floor = Fin (7566047373982433 / 18014398509481984),
      ap_option_alert = Fin (3152519739159347 / 9007199254740992),
      ap_option_block = Fin (3602879701896397 / 18014398509481984)\<rparr>"

record measures =
  me_pressure :: pyfloat
  me_velocity :: pyfloat
  me_capacity :: pyfloat
  me_option_space :: "pyfloat option"
  me_authority :: "pyfloat option"
  me_context_fit :: "pyfloat option"
  me_evidence_quality :: "pyfloat option"
  me_materiality :: pyfloat

text \<open>The coordinate of an axis that may be missing, and its name if it is.\<close>

definition axis_or_neutral :: "string \<Rightarrow> pyfloat option \<Rightarrow> (string \<times> pynum) \<times> string list" where
  "axis_or_neutral a x =
     (case x of None \<Rightarrow> ((a, NumFloat (Fin (1 / 2))), [a]) | Some y \<Rightarrow> ((a, NumFloat y), []))"

definition neutral_axes :: "string list" where
  "neutral_axes = [''cooperative_control_score'', ''trajectory_risk_score'', ''manipulation_risk'', ''drift'']"

definition build_coordinates :: "measures \<Rightarrow> (string, pynum) dict \<times> string list" where
  "build_coordinates m =
     (let optional = map (\<lambda>(a, x). axis_or_neutral a x)
        [(''authority'', me_authority m), (''context_fit'', me_context_fit m),
         (''evidence_quality'', me_evidence_quality m), (''option_space'', me_option_space m)]
      in ([(''pressure'', NumFloat (me_pressure m)), (''velocity'', NumFloat (me_velocity m)),
           (''capacity'', NumFloat (me_capacity m)),
           (''irreversible_pathway_materiality'', NumFloat (me_materiality m))] @
          map fst optional @ map (\<lambda>a. (a, NumFloat (Fin (1 / 2)))) neutral_axes,
          concat (map snd optional) @ neutral_axes))"

record scoring_answer =
  sc_score :: "pyfloat option"
  sc_decision :: decision
  sc_rationale :: "kernel_reason list"
  sc_geometry :: "geometry_report option"

definition option_space_reasons :: "adapter \<Rightarrow> pyfloat option \<Rightarrow> kernel_reason list \<times> kernel_reason list" where
  "option_space_reasons ad os =
     (case os of
        None \<Rightarrow> ([], [])
      | Some x \<Rightarrow>
          if fle x (ap_option_block ad) then ([OptionSpaceBlock x], [])
          else if fle x (ap_option_alert ad) then ([], [OptionSpaceAlert x]) else ([], []))"

definition missing_reasons :: "measures \<Rightarrow> kernel_reason list" where
  "missing_reasons m =
     (if me_authority m = None
      then [Because ''authority missing: cannot adjudicate without authority assessment''] else []) @
     (if me_context_fit m = None
      then [Because ''context_fit missing: cannot adjudicate without context assessment''] else []) @
     (if me_evidence_quality m = None
      then [Because ''evidence_quality missing: cannot adjudicate without evidence''] else [])"

fun verdict_decision :: "verdict \<Rightarrow> decision" where
  "verdict_decision verdict.HARD_VETO = decision.HARD_VETO"
| "verdict_decision verdict.FLAG = decision.FLAG"
| "verdict_decision verdict.PASS = decision.PASS"
| "verdict_decision NOT_EVALUATED = decision.HOLD"

definition adapter_hard :: "adapter \<Rightarrow> measures \<Rightarrow> pyfloat \<Rightarrow> kernel_reason list" where
  "adapter_hard ad m preview =
     (if fle preview (ap_tau_floor ad) then [TauBreach preview (ap_tau_floor ad)] else []) @
     fst (option_space_reasons ad (me_option_space m)) @ missing_reasons m"

definition adapter_soft :: "adapter \<Rightarrow> measures \<Rightarrow> kernel_reason list" where
  "adapter_soft ad m =
     snd (option_space_reasons ad (me_option_space m)) @
     map (\<lambda>a. Because (''unmeasured axis: '' @ a @ '' (neutral default, not favorable)''))
       (snd (build_coordinates m))"

definition adapter_adjudicate ::
  "bool \<Rightarrow> adapter \<Rightarrow> measures \<Rightarrow> kernel_error + scoring_answer" where
  "adapter_adjudicate cs ad m =
     bindE (s_score (Fin (4722366482869645 / 4722366482869645213696))
              (me_pressure m) (me_velocity m) (me_capacity m)) (\<lambda>preview.
     bindE (kernel_adjudicate cs (ap_policy ad) (NumFloat (me_pressure m)) (NumFloat (me_velocity m))
              (NumFloat (me_capacity m)) (Some (fst (build_coordinates m))) ''tenir-2.0-reference''
              ''ENFORCE'' (adapter_hard ad m preview) (adapter_soft ad m)) (\<lambda>d. Inr
       \<lparr>sc_score = ad_score d, sc_decision = verdict_decision (ad_decision d),
        sc_rationale = ad_rationale d, sc_geometry = ad_geometry d\<rparr>))"

text \<open>The decision string the governor composes: \<open>None\<close> when the scoring kernel raised.\<close>

definition scoring_decision :: "bool \<Rightarrow> adapter \<Rightarrow> measures \<Rightarrow> string option" where
  "scoring_decision cs ad m =
     (case adapter_adjudicate cs ad m of Inl _ \<Rightarrow> None | Inr a \<Rightarrow> Some (decision_str (sc_decision a)))"

subsection \<open>Its answers\<close>

lemma upper_enforce: "upper ''ENFORCE'' = ''ENFORCE''"
  by code_simp

lemma always_unmeasured: "adapter_soft ad m \<noteq> []"
  by (simp add: adapter_soft_def build_coordinates_def neutral_axes_def Let_def)

text \<open>
  The four axes that no input measures make every answer a flag at best: a veto when a hard gate
  of the adapter, the score or the geometry speaks, and a flag otherwise.
\<close>

lemma adapter_table:
  assumes "adapter_adjudicate cs ad m = Inr a"
  obtains s r where
    "s_score (kp_epsilon (ap_policy ad)) (me_pressure m) (me_velocity m) (me_capacity m) = Inr s"
    "geometry_of cs (ap_policy ad) (Some (fst (build_coordinates m))) ''tenir-2.0-reference'' = Inr r"
    "\<exists>t. s_score (Fin (4722366482869645 / 4722366482869645213696)) (me_pressure m) (me_velocity m) (me_capacity m) = Inr t \<and>
      sc_decision a =
        (if hard_reasons (ap_policy ad) s r (adapter_hard ad m t) \<noteq> [] then decision.HARD_VETO else decision.FLAG)"
  using assms always_unmeasured [of ad m] that
  by (auto simp: adapter_adjudicate_def kernel_adjudicate_def bindE_Inr_conv upper_enforce valid_modes_def
      decide_def soft_reasons_def unit_interval_def Let_def split: if_splits)

lemma missing_is_veto:
  assumes "adapter_adjudicate cs ad m = Inr a"
    and "me_authority m = None \<or> me_context_fit m = None \<or> me_evidence_quality m = None"
  shows "sc_decision a = decision.HARD_VETO"
  using assms(1)
proof (rule adapter_table)
qed (use assms(2) in \<open>auto simp: hard_reasons_def adapter_hard_def missing_reasons_def\<close>)

lemma scoring_answers:
  "scoring_decision cs ad m \<in>
     {None, Some (decision_str decision.FLAG), Some (decision_str decision.HARD_VETO)}"
proof (cases "adapter_adjudicate cs ad m")
  case (Inr a)
  then have "sc_decision a \<in> {decision.FLAG, decision.HARD_VETO}" by (rule adapter_table) (auto split: if_splits)
  with Inr show ?thesis by (auto simp: scoring_decision_def)
qed (simp add: scoring_decision_def)

lemma compose_flag_not_pass:
  assumes "s \<in> {None, Some (decision_str decision.FLAG), Some (decision_str decision.HARD_VETO)}"
  shows "map_sum id fst (compose s membrane u in_scope pol) \<noteq> Inr decision.PASS"
proof (cases membrane)
  case None
  then show ?thesis using assms by (auto simp: compose_def bindE_def split: sum.splits if_splits)
next
  case (Some ms)
  show ?thesis
  proof (cases "decision_of ms")
    case (Inl e)
    then show ?thesis using assms Some by (auto simp: compose_def bindE_def split: sum.splits)
  next
    case (Inr d)
    then have mem: "membrane = Some (decision_str d)" using Some by (simp add: decision_of_Inr)
    consider "s = None" | d' where "s = Some (decision_str d')" "d' \<in> {decision.FLAG, decision.HARD_VETO}"
      using assms by blast
    then show ?thesis
    proof cases
      case 1
      with mem show ?thesis by (auto simp: compose_def bindE_def)
    next
      case 2
      with mem show ?thesis by (simp only: compose_table) auto
    qed
  qed
qed


end
