(* ===== verification/Spec2Isabelle.thy ===== *)
theory Spec2Isabelle
  imports Backend_Guarantees Registry_Guarantees Hold Lattice Linearizability Backend_Spec
    Sqlite_Guarantees Sqlite_Migration Raft_Guarantees Governor_System
    Trust_CAS_Guarantees Commit_Guarantees External_CAS Composition_Hold R5_Server Scoring_Adapter
begin

text \<open>
  A model of \<open>tenir_governance\<close>, the program that decides whether an agent may act and that
  makes sure that what it decided happens at most once and within budget.

  \<^bold>\<open>The program and how its parts interact.\<close> \<open>DualKernelGovernor\<close>
  (\<open>composition/governor.py\<close>) receives a passage. Its \<^emph>\<open>admission\<close> asks the membrane
  (\<open>membrane/__init__.py\<close>) and a scoring kernel, composes the two answers
  (\<open>composition/lattice.py\<close>), reserves budget with a consensus backend
  (\<open>operations/consensus_backend.py\<close> on JSON files, \<open>sqlite_backend.py\<close>, \<open>raft_backend.py\<close>) or
  with an in-memory pool, and records the operation in a durable registry
  (\<open>operations/registry.py\<close>). An admitted operation is dispatched after the gate of the commit
  authority (\<open>experimental/ep02_commit_authorization.py\<close>), which itself stands on signed trust
  snapshots and their compare-and-swap store (\<open>ep02_durable_cas.py\<close> and the \<open>ep01\<close>, \<open>ep02\<close>
  modules it calls). The external provider is then called once, and the result is confirmed,
  failed, or left unknown until it is reconciled. An operation may be held in between
  (\<open>operations/hold.py\<close>), and a quarantine lock in the registry stops everything. A checker
  (\<open>operations/linearizability_checker.py\<close>) judges recorded backend histories. The scoring kernel
  is \<open>tenir_kernel\<close>, behind \<open>ScoringKernelAdapter\<close>. Beside the governor stand the policy engine
  (\<open>policy_engine.py\<close>), the hold strategies of the dual membrane
  (\<open>composition/hold_strategy.py\<close>), the signed protocol that lets other processes use the trust
  store (\<open>ep02_external_cas.py\<close>), and the hardened R5 server with its Merkle ledger
  (\<open>src/r5_hardened\<close>), which records oath-signed changes of the operating mode.

  \<^bold>\<open>Theories.\<close> Each part is one or two theories: the definitions with what concerns single
  operations, then, under a name that ends in \<open>Guarantees\<close>, \<open>System\<close> or \<open>Spec\<close>, what
  holds of all its runs.
  \<^item> \<open>Prelude\<close>: dictionaries in insertion order, the error result \<open>bindE\<close>, totals over a
    dictionary. \<open>Machine\<close>: the locales \<open>machine\<close>, \<open>machine_frame\<close> and \<open>machine_order\<close> for a
    component that accepts a sequence of requests; they are interpreted on every stateful
    component below. \<open>Py_Decimal\<close>, \<open>Py_Float\<close>, \<open>Py_Arith\<close>, \<open>Py_Json\<close>: the values of the source
    language the components compute with (\<open>decimal\<close> with its contexts, binary64, parsed JSON).
  \<^item> \<open>Budget\<close>: \<open>DurableBudgetCoordinator\<close>. \<open>Consensus_Backend\<close>, \<open>Backend_Guarantees\<close>,
    \<open>Backend_Spec\<close>: \<open>SingleHostLockBackend\<close> with its journal. An operation returns the list of
    the durable images it writes one after the other, so a crash is any of them.
  \<^item> \<open>Sqlite_Backend\<close>, \<open>Sqlite_Ledger\<close>, \<open>Sqlite_Guarantees\<close>, \<open>Sqlite_Migration\<close>:
    \<open>SQLiteConsensusBackend\<close>. A transaction is a function on the tables with a fault seam before
    \<open>COMMIT\<close>; \<open>reconcile\<close> is its two transactions and a stale read.
  \<^item> \<open>Raft_Backend\<close>, \<open>Raft_Guarantees\<close>: the replicated state machine and its client. A replica
    has applied a prefix of the log; a client call may be lost before or after it is applied.
  \<^item> \<open>Registry\<close>, \<open>Registry_Guarantees\<close>: \<open>DurableOperationRegistry\<close>. A worker is its memory over
    the shared store, a world is many workers. \<open>Hold\<close>: \<open>HoldManager\<close> on the registry.
  \<^item> \<open>Lattice\<close>: \<open>compose\<close>, \<open>CompositionPolicy\<close>, \<open>HashChainedLedger\<close>. \<open>Membrane\<close>: the
    transition membrane and the objects it reads. \<open>Linearizability\<close>: the checker and
    \<open>consensus_sequential_spec\<close>.
  \<^item> \<open>Governor\<close>, \<open>Governor_Admission\<close>, \<open>Governor_Hold\<close>: every method of the governor that changes
    state, as a program over the record \<open>gov\<close> (registry world, membrane, backend, ledger). Each
    call to another component may fail, or be preceded by moves of foreign workers; both come
    from the list \<open>g_faults\<close>. \<open>Governor_Logic\<close>: weakest preconditions and the calculus for
    programs that touch only what they are told to. \<open>Governor_System\<close>: any number of governor
    processes, with the provider call a step of its own.
  \<^item> \<open>Trust\<close>, \<open>Trust_CAS\<close>, \<open>Trust_CAS_Guarantees\<close>: claims, signed snapshots, successors, anchors
    (\<open>ep01_policy\<close>, \<open>ep01_evidence\<close>, \<open>ep02_binding\<close>, \<open>ep02_signed_trust\<close>, \<open>ep02_rotation\<close>,
    \<open>ep02_external_anchor\<close>, \<open>ep02_authenticated_anchor\<close>) and \<open>DurableAnchorCAS\<close> with the
    check of its whole history. \<open>Commit_Authority\<close>, \<open>Commit_Guarantees\<close>: the ledgers of
    \<open>ProfileSCommitAuthority\<close> in the same database file. \<open>External_CAS\<close>: requests, lookups and
    receipts with their encodings, the service over the compare-and-swap store, and a client over
    a transport that may lose the answer.
  \<^item> \<open>Tenir_Kernel\<close>: \<open>tenir_kernel/kernel.py\<close>, \<open>geometry.py\<close> and the Python connector, in binary64
    with the square root and both generations of \<open>sum\<close>. \<open>Scoring_Adapter\<close>:
    \<open>ScoringKernelAdapter\<close> of the governor, and what can be composed from its answers.
  \<^item> \<open>Policy_Engine\<close>: validation of a policy, the decision on a measurement, the state
    classification. \<open>Composition_Hold\<close>: \<open>CompositionHoldManager\<close> with tau locks, collective locks
    and the progressive unblock.
  \<^item> \<open>Merkle\<close>, \<open>Distributed_Ledger\<close>, \<open>Distributed_Ledger_Guarantees\<close>: trees, proofs, epochs and
    the file of the R5 ledger. \<open>R5_Server\<close>: oaths, epoch consensus, the trajectory kernel, start-up,
    mode transitions and adjudication.

  \<^bold>\<open>What the lemmas show.\<close> Per component: an invariant that every operation keeps (\<open>coord_ok\<close>,
  \<open>backend_ok\<close>, \<open>db_ok\<close>, \<open>raft_ok\<close>, \<open>reg_ok\<close>, \<open>world_ok\<close>, \<open>ledger_ok\<close>, \<open>file_good\<close>,
  \<open>commit_file\<close>) and an order in which the state only advances, from which the machine locales
  give the statements over all runs. For the budget stores: the counters are the totals of the
  reservations and fit the capacity, crashes are atomic, a reservation commits at most once. The
  Raft machine refines the SQLite transactions, the migration preserves the abstract ledger, the
  checker decides linearizability. For the registry: legal transitions only, one winner of a
  dispatch, quarantine and its release. For the governor: the provider is never called twice with
  one key. For the trust store and the authority: history is append-only and derivable again when
  the file is opened, a checkpoint never rolls back, an authorization is consumed once and only
  on current evidence; the external protocol finds a committed request again after a lost reply,
  and its receipts are rows of the file. For the scoring kernel: rounding errors are bounded, so
  that what ENFORCE lets through lies in the geometry over the real numbers up to \<open>10 ^ -8\<close>; with
  the adapter nothing is composed to a pass. For R5: sealed entries have proofs, equal roots mean
  equal records, an oath is used once, transitions are authorized. The progressive unblock ends.
  The lemmas whose names say that something breaks (\<open>last_release_crash_stuck\<close>,
  \<open>raft_wide_total_frozen\<close>, \<open>foreign_request_bricks_authority\<close> and others) are concrete runs of
  the definitions in which the code does not do what it is meant to.

  \<^bold>\<open>Parameters.\<close> Hash functions, signatures and base64 are functions in a record (\<open>crypto\<close>) or
  arguments; where a statement needs it, injectivity of a digest or soundness of a signature is
  a premise of that statement. The provider, the answer of the scoring kernel, the quarantine
  verifier, the consensus backend and the commit authority of the governor are arguments of its
  definitions; the schema check is one of the scoring kernel's.

  \<^bold>\<open>Bounds and fuel.\<close> There is no fuel: every loop of the modelled code is structural or has a
  measure (the linearizability search: operations left; normalisation of a decimal: the
  coefficient). Decimals carry the 128-digit and exponent bounds of \<open>budget.py\<close>; floats are
  rounded to binary64; the integers of the source are unbounded and so are those of the model.
  Faults and foreign moves are lists of any length.

  \<^bold>\<open>Not modelled.\<close> Operating-system failures below one \<open>write\<close>, \<open>fsync\<close> or \<open>COMMIT\<close>; links and
  permissions in the file system; threads inside one method that holds its lock; the consensus
  library under \<open>raft_backend.py\<close> (it is the order of the log); network clients (\<open>provider.py\<close>);
  the post-execution assessment and its estimators; the local checkpoint files, superseded by the
  compare-and-swap; the JSON dictionaries of authorization requests and receipts; the SDK, schema
  validators, nomenclature tables, document linters and migration scripts, which read, reformat
  or forward; the HTTP front ends. Of the R5 generation: the graph database, the web sockets and
  the language front end; \<open>r5_wired\<close>, an earlier copy of the hardened server, and \<open>r4\<close>.
\<close>

end
